(* ===== verification/NBFS_Prelude.thy ===== *)
theory NBFS_Prelude
  imports Main "HOL-Library.Word" "HOL-Library.Monad_Syntax" "HOL-Library.List_Lexorder"
    "HOL-Library.Char_ord"
begin

unbundle bit_operations_syntax

text \<open>
  Shared vocabulary of the NBFS development.

  The sources are C.  A computation that can crash (a null or dangling pointer that is
  dereferenced, an array index out of range, a failing \<open>assert\<close>, a shift by at least the
  width of the type, a \<open>strcpy\<close> past the end of its buffer) returns an \<open>option\<close>: \<open>None\<close>
  is the crash, \<open>Some\<close> a normal return.  Error codes that the C functions return or pass to
  a callback are ordinary values (\<open>int\<close>, \<open>0\<close> or a negative errno).

  Arrays are lists read and written through \<open>arr_get\<close> and \<open>arr_set\<close>, which crash out of
  range.  C strings are \<open>string\<close>s without the terminating NUL; \<open>strcmp\<close> is the
  lexicographic comparison of their bytes and is shown to agree with the linear order the
  library puts on \<open>string\<close>.
\<close>

section \<open>Types and collections\<close>

type_synonym u8 = "8 word"
type_synonym u32 = "32 word"
type_synonym u64 = "64 word"

text \<open>A raw memory block: the byte at each index.\<close>

type_synonym memblk = "nat \<Rightarrow> u8"

named_theorems crash_simps \<open>evaluation of the crash-prone primitives\<close>

section \<open>Crashes\<close>

definition oassert :: "bool \<Rightarrow> unit option" where
  "oassert b = (if b then Some () else None)"

lemma oassert_True [simp]: "oassert True = Some ()"
  by (simp add: oassert_def)

lemma oassert_False [simp]: "oassert False = None"
  by (simp add: oassert_def)

lemma oassert_eq_Some [simp]: "oassert b = Some u \<longleftrightarrow> b"
  by (cases b) auto

definition arr_get :: "'a list \<Rightarrow> nat \<Rightarrow> 'a option" where
  "arr_get xs i = (if i < length xs then Some (xs ! i) else None)"

definition arr_set :: "'a list \<Rightarrow> nat \<Rightarrow> 'a \<Rightarrow> 'a list option" where
  "arr_set xs i v = (if i < length xs then Some (xs[i := v]) else None)"

lemma arr_get_Some [simp]: "arr_get xs i = Some v \<longleftrightarrow> i < length xs \<and> xs ! i = v"
  by (auto simp: arr_get_def)

lemma arr_get_eq [crash_simps]: "i < length xs \<Longrightarrow> arr_get xs i = Some (xs ! i)"
  by simp

lemma arr_get_mem: "arr_get xs i = Some v \<Longrightarrow> v \<in> set xs"
  by (auto simp: in_set_conv_nth)

lemma arr_set_Some [simp]: "arr_set xs i v = Some ys \<longleftrightarrow> i < length xs \<and> ys = xs[i := v]"
  by (auto simp: arr_set_def)

lemma arr_set_eq [crash_simps]: "i < length xs \<Longrightarrow> arr_set xs i v = Some (xs[i := v])"
  by simp

lemma bind_Some_iff: "(x \<bind> f) = Some y \<longleftrightarrow> (\<exists>a. x = Some a \<and> f a = Some y)"
  by (cases x) auto

section \<open>C strings\<close>

text \<open>\<open>strcmp\<close>, by the first bytes that differ, as unsigned chars.  The C standard fixes the
  sign of the result only; a proper prefix is smaller because the terminating NUL is smaller
  than every byte of a C string.\<close>

fun strcmp :: "string \<Rightarrow> string \<Rightarrow> int" where
  "strcmp [] [] = 0"
| "strcmp [] (b # bs) = -1"
| "strcmp (a # as) [] = 1"
| "strcmp (a # as) (b # bs) =
     (if a = b then strcmp as bs else if (of_char a :: nat) < of_char b then -1 else 1)"

lemma strcmp_eq_0 [simp]: "strcmp a b = 0 \<longleftrightarrow> a = b"
  by (induction a b rule: strcmp.induct) auto

lemma strcmp_less_0 [simp]: "strcmp a b < 0 \<longleftrightarrow> a < b"
  by (induction a b rule: strcmp.induct) (auto simp: less_char_def)

lemma strcmp_le_0 [simp]: "strcmp a b \<le> 0 \<longleftrightarrow> a \<le> b"
  using strcmp_eq_0 [of a b] strcmp_less_0 [of a b] by (auto simp: le_less)

section \<open>Machine words\<close>

lemma unat_u64_bound: "unat (w :: u64) < 18446744073709551616"
proof -
  have "unat w < 2 ^ LENGTH(64)" by (rule unsigned_less)
  then show ?thesis by simp
qed

lemma unat_ucast_u32 [simp]: "unat (ucast (x :: u32) :: u64) = unat x"
proof -
  have "unat x < 2 ^ LENGTH(32)" by (rule unsigned_less)
  then show ?thesis by (simp add: unsigned_ucast_eq take_bit_nat_eq_self_iff)
qed

lemma ucast_u32_eq_0 [simp]: "(ucast (x :: u32) :: u64) = 0 \<longleftrightarrow> x = 0"
  by (metis unat_eq_zero unat_ucast_u32)

lemma ucast_u32_u64_u32 [simp]: "(ucast (ucast (x :: u32) :: u64) :: u32) = x"
  by (rule ucast_up_ucast_id) (simp add: is_up)

end
