(* ===== verification/Cache_Tree.thy ===== *)
theory Cache_Tree
  imports NBFS_Prelude
begin

unbundle bit_operations_syntax

text \<open>
  The per-file page cache index, \<open>lib/NBFS/tree.h\<close> and \<open>lib/NBFS/tree.c\<close>: a radix tree
  with 64 slots per node that maps the offset of a cache buffer (a multiple of 256 KiB) to
  the buffer.  A node owns its children, so the tree is a datatype; cache buffers are shared
  with the file's \<open>last\<close> pointer and live in a separate store, so a leaf slot holds a buffer
  pointer.  An operation that writes the tree in place returns the new tree, together with
  the buffers it hands to \<open>cache_buffer_free\<close> where it frees any.

  The lemmas show that a well-formed tree stands for a finite map from page numbers to
  buffers, that each operation is the corresponding map operation and keeps the tree well
  formed, and that no assertion of the code fails under the stated conditions.
\<close>

section \<open>Data\<close>

type_synonym buf_ptr = nat

record cache_buffer =
  buf :: memblk
  offset :: u64
  buf_size :: u32
  bytes_filled :: u32
  bytes_flushed :: u32
  in_progress :: bool

definition CACHE_BUFFER_SHIFT :: nat where
  "CACHE_BUFFER_SHIFT = 18"

definition CACHE_BUFFER_SIZE :: u64 where
  "CACHE_BUFFER_SIZE = push_bit CACHE_BUFFER_SHIFT 1"

definition NEXT_CACHE_BUFFER_OFFSET :: "u64 \<Rightarrow> u64" where
  "NEXT_CACHE_BUFFER_OFFSET off =
     push_bit CACHE_BUFFER_SHIFT (drop_bit CACHE_BUFFER_SHIFT (off + CACHE_BUFFER_SIZE))"

definition CACHE_TREE_SHIFT :: nat where
  "CACHE_TREE_SHIFT = 6"

definition CACHE_TREE_WIDTH :: nat where
  "CACHE_TREE_WIDTH = 2 ^ CACHE_TREE_SHIFT"

definition CACHE_TREE_LEVEL_SHIFT :: "nat \<Rightarrow> nat" where
  "CACHE_TREE_LEVEL_SHIFT level = CACHE_BUFFER_SHIFT + level * CACHE_TREE_SHIFT"

text \<open>\<open>1ULL << shift\<close> is undefined in C when the shift is 64 or more.\<close>

definition CACHE_TREE_LEVEL_SIZE :: "nat \<Rightarrow> u64 option" where
  "CACHE_TREE_LEVEL_SIZE level =
     (if CACHE_TREE_LEVEL_SHIFT level < 64
      then Some (push_bit (CACHE_TREE_LEVEL_SHIFT level) 1) else None)"

definition CACHE_TREE_LEVEL_MASK :: "nat \<Rightarrow> u64 option" where
  "CACHE_TREE_LEVEL_MASK level = do { sz \<leftarrow> CACHE_TREE_LEVEL_SIZE level; Some (sz - 1) }"

definition CACHE_TREE_INDEX :: "nat \<Rightarrow> u64 \<Rightarrow> nat option" where
  "CACHE_TREE_INDEX level off =
     (if CACHE_TREE_LEVEL_SHIFT level < 64
      then Some (unat (drop_bit (CACHE_TREE_LEVEL_SHIFT level) off
                       AND (of_nat CACHE_TREE_WIDTH - 1)))
      else None)"

text \<open>The union \<open>u\<close> of a node: each of its 64 words is NULL, a buffer pointer
  (\<open>u.buffer\<close>, at level 0) or a child (\<open>u.tree\<close>, above).  Reading a slot through the wrong
  member is a crash of the model.\<close>

datatype cache_tree = CTree (level: nat) (present_mask: u64) (slots: "slot list")
  and slot = SNull | SBuf buf_ptr | STree cache_tree

definition zero_slots :: "slot list" where
  "zero_slots = replicate CACHE_TREE_WIDTH SNull"

text \<open>A zeroed node, as \<open>calloc\<close> returns it.\<close>

definition calloc_tree :: cache_tree where
  "calloc_tree = CTree 0 0 zero_slots"

definition slot_buffer :: "slot \<Rightarrow> buf_ptr option option" where
  "slot_buffer s = (case s of SNull \<Rightarrow> Some None | SBuf b \<Rightarrow> Some (Some b) | STree _ \<Rightarrow> None)"

definition mask_bit :: "nat \<Rightarrow> u64" where
  "mask_bit i = push_bit i 1"

section \<open>Operations\<close>

text \<open>Size measures for the walks down the tree.\<close>

lemma size_slot_mem:
  "arr_get us i = Some (STree c) \<Longrightarrow> size c < Suc (size_list size us)"
  by (drule arr_get_mem) (drule size_list_estimation' [where f = size, OF _ order.refl], simp)

function tree_find_buffer :: "cache_tree \<Rightarrow> u64 \<Rightarrow> buf_ptr option option" where
  "tree_find_buffer (CTree lvl pm us) off =
     do { sz \<leftarrow> CACHE_TREE_LEVEL_SIZE lvl;
          let index = unat (off div sz);
          if index \<ge> CACHE_TREE_WIDTH then Some None
          else case arr_get us index of
              None \<Rightarrow> None
            | Some s \<Rightarrow>
                if lvl = 0 then slot_buffer s
                else (case s of
                    SNull \<Rightarrow> Some None
                  | SBuf _ \<Rightarrow> None
                  | STree c \<Rightarrow> tree_find_buffer c (off AND (sz - 1))) }"
  by pat_completeness auto
termination
  by (relation "measure (\<lambda>(t, off). size t)") (auto intro: size_slot_mem)

declare tree_find_buffer.simps [simp del]

definition tree_find_filled_buffer ::
  "(buf_ptr \<rightharpoonup> cache_buffer) \<Rightarrow> cache_tree \<Rightarrow> u64 \<Rightarrow> buf_ptr option option" where
  "tree_find_filled_buffer bufs t off =
     do { r \<leftarrow> tree_find_buffer t off;
          case r of
            None \<Rightarrow> Some None
          | Some b \<Rightarrow> do { cb \<leftarrow> bufs b;
                        Some (if bytes_filled cb > 0 then Some b else None) } }"

text \<open>The loop that raises the root until the offset fits.\<close>

function tree_grow :: "cache_tree \<Rightarrow> u64 \<Rightarrow> cache_tree option" where
  "tree_grow root off =
     (case CACHE_TREE_LEVEL_SIZE (level root + 1) of
        None \<Rightarrow> None
      | Some sz \<Rightarrow>
          if off \<ge> sz then
            (if present_mask root \<noteq> 0
             then tree_grow (CTree (level root + 1) 1 (zero_slots[0 := STree root])) off
             else tree_grow (CTree (level root + 1) (present_mask root) (slots root)) off)
          else Some root)"
  by pat_completeness auto
termination
  by (relation "measure (\<lambda>(t, off). 8 - level t)")
     (auto simp: CACHE_TREE_LEVEL_SIZE_def CACHE_TREE_LEVEL_SHIFT_def CACHE_BUFFER_SHIFT_def
       CACHE_TREE_SHIFT_def split: if_splits)

declare tree_grow.simps [simp del]

text \<open>The loop that walks down, adding the missing nodes, and the final store.  The weight of a
  tree bounds the length of the walk: it shrinks both into an existing child and into the
  zeroed child added one level below.\<close>

primrec weight :: "cache_tree \<Rightarrow> nat" and slot_weight :: "slot \<Rightarrow> nat" where
  "weight (CTree lvl pm us) = Suc (lvl + sum_list (map slot_weight us))"
| "slot_weight SNull = 1"
| "slot_weight (SBuf b) = 1"
| "slot_weight (STree c) = Suc (weight c)"

lemma slot_weight_pos: "1 \<le> slot_weight s"
  by (cases s) auto

lemma weight_child:
  "arr_get us i = Some (STree c) \<Longrightarrow> weight c < Suc (lvl + sum_list (map slot_weight us))"
proof (drule arr_get_mem)
  assume "STree c \<in> set us"
  then have "slot_weight (STree c) \<in> set (map slot_weight us)" by (metis image_eqI set_map)
  then have "slot_weight (STree c) \<le> sum_list (map slot_weight us)"
    by (rule member_le_sum_list) simp
  then show ?thesis by simp
qed

lemma weight_fresh:
  assumes "0 < lvl" "length us = CACHE_TREE_WIDTH"
  shows "weight (CTree (lvl - 1) 0 zero_slots) < Suc (lvl + sum_list (map slot_weight us))"
proof -
  have "sum_list (map (\<lambda>_. 1) us) \<le> sum_list (map slot_weight us)"
    by (rule sum_list_mono) (rule slot_weight_pos)
  then show ?thesis using assms by (simp add: zero_slots_def sum_list_triv sum_list_replicate)
qed

function tree_insert_down :: "cache_tree \<Rightarrow> buf_ptr \<Rightarrow> u64 \<Rightarrow> cache_tree option" where
  "tree_insert_down (CTree lvl pm us) b off =
     (if length us \<noteq> CACHE_TREE_WIDTH then None
      else if lvl > 0 then
        (case CACHE_TREE_LEVEL_SIZE lvl of
           None \<Rightarrow> None
         | Some sz \<Rightarrow>
             let index = unat (off div sz); off' = off AND (sz - 1) in
             if \<not> index < CACHE_TREE_WIDTH then None
             else (case arr_get us index of
                None \<Rightarrow> None
              | Some SNull \<Rightarrow>
                  (case tree_insert_down (CTree (lvl - 1) 0 zero_slots) b off' of
                     None \<Rightarrow> None
                   | Some c' \<Rightarrow> Some (CTree lvl (pm OR mask_bit index) (us[index := STree c'])))
              | Some (SBuf _) \<Rightarrow> None
              | Some (STree c) \<Rightarrow>
                  (case tree_insert_down c b off' of
                     None \<Rightarrow> None
                   | Some c' \<Rightarrow> Some (CTree lvl pm (us[index := STree c'])))))
      else
        let index = unat (off div CACHE_BUFFER_SIZE) in
        if \<not> index < CACHE_TREE_WIDTH then None
        else (case arr_get us index of
           Some SNull \<Rightarrow> Some (CTree lvl (pm OR mask_bit index) (us[index := SBuf b]))
         | _ \<Rightarrow> None))"
  by pat_completeness auto
termination
  using weight_fresh by (relation "measure (\<lambda>(t, b, off). weight t)") (auto intro: weight_child)

declare tree_insert_down.simps [simp del]

definition tree_insert_buffer :: "cache_tree \<Rightarrow> buf_ptr \<Rightarrow> u64 \<Rightarrow> cache_tree option" where
  "tree_insert_buffer root b off = do { r \<leftarrow> tree_grow root off; tree_insert_down r b off }"

function tree_remove_buffer ::
  "cache_tree \<Rightarrow> buf_ptr \<Rightarrow> u64 \<Rightarrow> (cache_tree \<times> buf_ptr list) option" where
  "tree_remove_buffer (CTree lvl pm us) b off =
     (case CACHE_TREE_INDEX lvl off of
        None \<Rightarrow> None
      | Some index \<Rightarrow>
          if lvl = 0 then
            (if arr_get us index = Some (SBuf b)
             then Some (CTree lvl (pm AND NOT (mask_bit index)) (us[index := SNull]), [b])
             else None)
          else (case arr_get us index of
             Some (STree c) \<Rightarrow>
               (case tree_remove_buffer c b off of
                  None \<Rightarrow> None
                | Some (c', freed) \<Rightarrow>
                    if present_mask c' = 0
                    then Some (CTree lvl (pm AND NOT (mask_bit index)) (us[index := SNull]), freed)
                    else Some (CTree lvl pm (us[index := STree c']), freed))
           | _ \<Rightarrow> None))"
  by pat_completeness auto
termination
  by (relation "measure (\<lambda>(t, b, off). size t)") (auto intro: size_slot_mem)

declare tree_remove_buffer.simps [simp del]

text \<open>A buffer that \<open>tree_free_buffers\<close> may release: no I/O in flight and nothing unflushed.\<close>

definition reclaimable :: "cache_buffer \<Rightarrow> bool" where
  "reclaimable cb \<longleftrightarrow> \<not> in_progress cb \<and> bytes_filled cb = bytes_flushed cb"

text \<open>The two loops over the slots, \<open>i\<close> the loop counter: new mask, new slots, freed buffers.\<close>

fun tree_free_buffers ::
    "(buf_ptr \<rightharpoonup> cache_buffer) \<Rightarrow> cache_tree \<Rightarrow> (cache_tree \<times> buf_ptr list) option"
  and free_slots ::
    "(buf_ptr \<rightharpoonup> cache_buffer) \<Rightarrow> nat \<Rightarrow> nat \<Rightarrow> u64 \<Rightarrow> slot list \<Rightarrow>
      (u64 \<times> slot list \<times> buf_ptr list) option"
  and free_slot ::
    "(buf_ptr \<rightharpoonup> cache_buffer) \<Rightarrow> nat \<Rightarrow> nat \<Rightarrow> u64 \<Rightarrow> slot \<Rightarrow>
      (u64 \<times> slot \<times> buf_ptr list) option" where
  "tree_free_buffers bufs (CTree lvl pm us) =
     (if pm = 0 then Some (CTree lvl pm us, [])
      else case free_slots bufs lvl 0 pm us of
         None \<Rightarrow> None
       | Some (pm', us', freed) \<Rightarrow> Some (CTree lvl pm' us', freed))"
| "free_slots bufs lvl i pm [] = Some (pm, [], [])"
| "free_slots bufs lvl i pm (s # ss) =
     (case free_slot bufs lvl i pm s of
        None \<Rightarrow> None
      | Some (pm', s', freed) \<Rightarrow>
          (case free_slots bufs lvl (Suc i) pm' ss of
             None \<Rightarrow> None
           | Some (pm'', ss', freed') \<Rightarrow> Some (pm'', s' # ss', freed @ freed')))"
| "free_slot bufs lvl i pm SNull = Some (pm, SNull, [])"
| "free_slot bufs lvl i pm (SBuf b) =
     (if lvl \<noteq> 0 then None
      else case bufs b of
         None \<Rightarrow> None
       | Some cb \<Rightarrow>
           if reclaimable cb then Some (pm AND NOT (mask_bit i), SNull, [b])
           else Some (pm, SBuf b, []))"
| "free_slot bufs lvl i pm (STree c) =
     (if lvl = 0 then None
      else case tree_free_buffers bufs c of
         None \<Rightarrow> None
       | Some (c', freed) \<Rightarrow>
           if present_mask c' = 0 then Some (pm AND NOT (mask_bit i), SNull, freed)
           else Some (pm, STree c', freed))"


section \<open>Arithmetic of offsets\<close>

text \<open>The page number of an offset; a level-\<open>l\<close> node spans \<open>64 ^ (l + 1)\<close> pages.\<close>

definition page :: "u64 \<Rightarrow> nat" where
  "page off = unat off div 2 ^ 18"

lemma width_64 [simp]: "CACHE_TREE_WIDTH = 64"
  by (simp add: CACHE_TREE_WIDTH_def CACHE_TREE_SHIFT_def)

lemma level_shift: "CACHE_TREE_LEVEL_SHIFT l = 18 + l * 6"
  by (simp add: CACHE_TREE_LEVEL_SHIFT_def CACHE_BUFFER_SHIFT_def CACHE_TREE_SHIFT_def)

lemma level_size: "l \<le> 7 \<Longrightarrow> CACHE_TREE_LEVEL_SIZE l = Some (2 ^ (18 + l * 6))"
  by (simp add: CACHE_TREE_LEVEL_SIZE_def level_shift push_bit_eq_mult)

lemma unat_two_power: "n < 64 \<Longrightarrow> unat (2 ^ n :: u64) = 2 ^ n"
  using unat_of_nat [of "2 ^ n", where 'a = 64] power_strict_increasing [of n 64 "2::nat"] by simp

lemma level_power: "(2::nat) ^ (18 + l * 6) = 2 ^ 18 * 64 ^ l"
proof -
  have "(2::nat) ^ (l * 6) = 64 ^ l" by (simp add: mult.commute [of l] power_mult)
  then show ?thesis by (simp add: power_add)
qed

lemma unat_div_level: "l \<le> 7 \<Longrightarrow> unat (off div 2 ^ (18 + l * 6)) = page off div 64 ^ l"
  by (simp add: unat_div unat_two_power page_def level_power div_mult2_eq del: power_Suc)

lemma unat_and_level:
  assumes "l \<le> 7"
  shows "unat ((off :: u64) AND (2 ^ (18 + l * 6) - 1)) = unat off mod 2 ^ (18 + l * 6)"
proof -
  have "off AND (2 ^ (18 + l * 6) - 1) = take_bit (18 + l * 6) off"
    by (simp add: take_bit_eq_mask mask_eq_exp_minus_1)
  moreover have "18 + l * 6 < 64" using assms by simp
  ultimately show ?thesis by (simp only: take_bit_eq_mod unat_mod unat_two_power)
qed

lemma page_and_level:
  assumes "l \<le> 7"
  shows "page (off AND (2 ^ (18 + l * 6) - 1)) = page off mod 64 ^ l"
proof -
  have "(x mod (2 ^ 18 * 64 ^ l)) div 2 ^ 18 = (x div 2 ^ 18) mod (64 ^ l)" for x :: nat
    by (simp add: mod_mult2_eq)
  then show ?thesis using assms by (simp add: page_def unat_and_level level_power)
qed

lemma tree_index:
  assumes "l \<le> 7"
  shows "CACHE_TREE_INDEX l off = Some (page off div 64 ^ l mod 64)"
proof -
  have "drop_bit (18 + l * 6) off AND 63 = take_bit 6 (drop_bit (18 + l * 6) off)"
    by (simp add: take_bit_eq_mask mask_eq_exp_minus_1)
  then have "unat (drop_bit (18 + l * 6) off AND 63) = unat (off div 2 ^ (18 + l * 6)) mod 64"
    by (simp add: take_bit_eq_mod drop_bit_eq_div unat_mod)
  then show ?thesis using assms by (simp add: CACHE_TREE_INDEX_def level_shift unat_div_level)
qed

lemma buffer_size_index: "unat (off div CACHE_BUFFER_SIZE) = page off"
  using unat_div_level [of 0 off]
  by (simp add: CACHE_BUFFER_SIZE_def CACHE_BUFFER_SHIFT_def push_bit_eq_mult)

lemma unat_div_level_0: "unat (off div 262144) = page off"
  using unat_div_level [of 0 off] by simp

lemma digit_eq_iff: "(p = q) \<longleftrightarrow> (p div k = q div k \<and> p mod k = q mod (k::nat))"
  by (metis div_mult_mod_eq)

lemma index_lt_width: "p < 64 ^ Suc l \<Longrightarrow> p div 64 ^ l < (64::nat)"
  by (simp add: less_mult_imp_div_less)

lemma mod_Suc_level: "p mod 64 ^ Suc l mod 64 ^ l = p mod (64::nat) ^ l"
  by (simp add: mod_mod_cancel)

lemma mod_Suc_level_div: "p mod 64 ^ Suc l div 64 ^ l = p div (64::nat) ^ l mod 64"
proof -
  have "p mod 64 ^ Suc l = 64 ^ l * (p div 64 ^ l mod 64) + p mod 64 ^ l"
    by (metis mod_mult2_eq mult.commute power_Suc)
  then show ?thesis by simp
qed

lemma bit_mask_bit [simp]: "i < 64 \<Longrightarrow> bit (mask_bit i) j \<longleftrightarrow> i = j"
  by (auto simp: mask_bit_def push_bit_eq_mult bit_exp_iff possible_bit_def)

section \<open>Well-formedness and abstraction\<close>

text \<open>The map a tree stands for: page number to buffer.\<close>

primrec ct_abs :: "cache_tree \<Rightarrow> nat \<Rightarrow> buf_ptr option"
  and slot_abs :: "slot \<Rightarrow> nat \<Rightarrow> buf_ptr option" where
  "ct_abs (CTree lvl pm us) =
     (\<lambda>p. let i = p div 64 ^ lvl in
          if i < length us then (map slot_abs us ! i) (p mod 64 ^ lvl) else None)"
| "slot_abs SNull = (\<lambda>p. None)"
| "slot_abs (SBuf b) = (\<lambda>p. Some b)"
| "slot_abs (STree c) = ct_abs c"

text \<open>64 slots; a presence bit for exactly the used slots; buffers at level 0, non-empty
  children one level below elsewhere.\<close>

primrec ct_wf :: "cache_tree \<Rightarrow> bool" and slot_wf :: "slot \<Rightarrow> nat \<Rightarrow> bool" where
  "ct_wf (CTree lvl pm us) \<longleftrightarrow>
     length us = 64 \<and> (\<forall>i<64. bit pm i \<longleftrightarrow> us ! i \<noteq> SNull) \<and> (\<forall>f \<in> set (map slot_wf us). f lvl)"
| "slot_wf SNull = (\<lambda>l. True)"
| "slot_wf (SBuf b) = (\<lambda>l. l = 0)"
| "slot_wf (STree c) = (\<lambda>l. 0 < l \<and> level c = l - 1 \<and> present_mask c \<noteq> 0 \<and> ct_wf c)"

lemma ct_abs_CTree:
  "length us = 64 \<Longrightarrow>
   ct_abs (CTree lvl pm us) p =
     (if p div 64 ^ lvl < 64 then slot_abs (us ! (p div 64 ^ lvl)) (p mod 64 ^ lvl) else None)"
  by (simp add: Let_def)

lemma ct_wf_slot: "ct_wf (CTree lvl pm us) \<Longrightarrow> i < 64 \<Longrightarrow> slot_wf (us ! i) lvl"
  by auto

lemma ct_wf_mem: "ct_wf (CTree lvl pm us) \<Longrightarrow> s \<in> set us \<Longrightarrow> slot_wf s lvl"
  by auto

lemma ct_wf_len: "ct_wf (CTree lvl pm us) \<Longrightarrow> length us = 64"
  by simp

lemma ct_wf_bit: "ct_wf (CTree lvl pm us) \<Longrightarrow> i < 64 \<Longrightarrow> bit pm i \<longleftrightarrow> us ! i \<noteq> SNull"
  by simp

declare ct_abs.simps [simp del] ct_wf.simps [simp del]

lemma ct_wfI:
  assumes "length us = 64" "\<And>i. i < 64 \<Longrightarrow> bit pm i \<longleftrightarrow> us ! i \<noteq> SNull"
    "\<And>i. i < 64 \<Longrightarrow> slot_wf (us ! i) lvl"
  shows "ct_wf (CTree lvl pm us)"
  using assms by (auto simp: ct_wf.simps in_set_conv_nth)

lemma ct_wf_set_slot:
  assumes "ct_wf (CTree lvl pm us)" "i < 64" "slot_wf s lvl"
    "\<And>j. j < 64 \<Longrightarrow> bit pm' j \<longleftrightarrow> (if j = i then s \<noteq> SNull else bit pm j)"
  shows "ct_wf (CTree lvl pm' (us[i := s]))"
  using assms by (intro ct_wfI) (auto simp: ct_wf_len ct_wf_bit ct_wf_slot nth_list_update)

lemma zero_slots_len [simp]: "length zero_slots = 64"
  by (simp add: zero_slots_def)

lemma zero_slots_nth [simp]: "i < 64 \<Longrightarrow> zero_slots ! i = SNull"
  by (simp add: zero_slots_def)

lemma zero_tree_wf [simp]: "ct_wf (CTree l 0 zero_slots)"
  by (rule ct_wfI) auto

lemma zero_tree_abs [simp]: "ct_abs (CTree l pm zero_slots) = Map.empty"
  by (auto simp: ct_abs_CTree)

lemma calloc_tree_wf [simp]: "ct_wf calloc_tree" "level calloc_tree = 0" "ct_abs calloc_tree = Map.empty"
  by (auto simp: calloc_tree_def)

lemma mask_zero_slots:
  assumes "ct_wf (CTree lvl 0 us)" shows "us = zero_slots"
  using assms by (intro nth_equalityI) (auto simp: ct_wf_len dest: ct_wf_bit)

lemma word_zero_bits: "(w :: u64) = 0 \<longleftrightarrow> (\<forall>i<64. \<not> bit w i)"
  by (auto simp: bit_eq_iff bit_imp_le_length dest: bit_imp_le_length)

lemma ct_abs_out_of_range:
  "ct_wf t \<Longrightarrow> 64 ^ Suc (level t) \<le> p \<Longrightarrow> ct_abs t p = None"
  using div_le_mono [of "64 ^ Suc (level t)" p "64 ^ level t"]
  by (cases t) (auto simp: ct_abs_CTree ct_wf_len)

text \<open>The presence mask of a well-formed tree is zero exactly when it indexes nothing.\<close>

lemma mask_zero_iff:
  assumes "ct_wf t" shows "present_mask t = 0 \<longleftrightarrow> ct_abs t = Map.empty"
  using assms
proof (induction "level t" arbitrary: t)
  case (0 t)
  then obtain pm us where t: "t = CTree 0 pm us" by (cases t) auto
  have "slot_abs s 0 = None \<longleftrightarrow> s = SNull" if "slot_wf s 0" for s
    using that by (cases s) auto
  with 0 t show ?case
    by (auto simp: word_zero_bits ct_wf_bit ct_abs_CTree ct_wf_len ct_wf_slot fun_eq_iff)
next
  case (Suc n t)
  then obtain pm us where t: "t = CTree (Suc n) pm us" by (cases t) auto
  note wf = Suc.prems [unfolded t]
  show ?case
  proof
    assume "present_mask t = 0"
    then show "ct_abs t = Map.empty" using wf t mask_zero_slots [of "Suc n" us] by auto
  next
    assume e: "ct_abs t = Map.empty"
    have "us ! i = SNull" if i: "i < 64" for i
    proof (cases "us ! i")
      case (STree c)
      with ct_wf_slot [OF wf i] have c: "n = level c" "present_mask c \<noteq> 0" "ct_wf c" by auto
      then obtain q b where q: "ct_abs c q = Some b"
        using Suc.hyps(1) [of c] by (auto simp: fun_eq_iff)
      then have "q < 64 ^ Suc n" using ct_abs_out_of_range [of c q] c by (auto simp: not_le [symmetric])
      then have "ct_abs t (i * 64 ^ Suc n + q) = Some b"
        using q i STree by (simp add: t ct_abs_CTree ct_wf_len [OF wf] del: power_Suc)
      then show ?thesis using e by simp
    qed (use ct_wf_slot [OF wf i] in auto)
    then show "present_mask t = 0" using wf t by (auto simp: word_zero_bits ct_wf_bit)
  qed
qed

section \<open>Lookup\<close>

lemma find_refines:
  assumes "ct_wf t" "level t \<le> 7"
  shows "tree_find_buffer t off = Some (ct_abs t (page off))"
  using assms
proof (induction t off rule: tree_find_buffer.induct)
  case (1 lvl pm us off)
  note wf = "1.prems"(1)
  have lvl: "lvl \<le> 7" using 1 by simp
  let ?i = "page off div 64 ^ lvl"
  show ?case
  proof (cases "?i < 64")
    case False
    then show ?thesis
      using lvl by (simp add: tree_find_buffer.simps level_size unat_div_level ct_abs_CTree ct_wf_len [OF wf])
  next
    case i: True
    show ?thesis
    proof (cases "us ! ?i")
      case (STree c)
      with ct_wf_slot [OF wf i] have c: "0 < lvl" "level c = lvl - 1" "ct_wf c" by auto
      have "tree_find_buffer c (off AND (2 ^ (18 + lvl * 6) - 1))
          = Some (ct_abs c (page (off AND (2 ^ (18 + lvl * 6) - 1))))"
        using lvl c i STree ct_wf_len [OF wf]
        by (intro "1.IH" [of "2 ^ (18 + lvl * 6)" ?i "us ! ?i"]) (auto simp: level_size unat_div_level)
      then show ?thesis using lvl c i STree ct_wf_len [OF wf]
        by (simp add: tree_find_buffer.simps level_size unat_div_level ct_abs_CTree crash_simps
            page_and_level)
    qed (use lvl i ct_wf_len [OF wf] ct_wf_slot [OF wf i] in
        \<open>auto simp: tree_find_buffer.simps level_size unat_div_level ct_abs_CTree crash_simps
           slot_buffer_def unat_div_level_0\<close>)
  qed
qed

section \<open>Insertion\<close>

lemma grow_refines:
  assumes "ct_wf t" "level t \<le> 6" "page off < 64 ^ 7"
  shows "\<exists>t'. tree_grow t off = Some t' \<and> ct_wf t' \<and> level t \<le> level t' \<and> level t' \<le> 6 \<and>
           page off < 64 ^ Suc (level t') \<and> ct_abs t' = ct_abs t"
  using assms
proof (induction t off rule: tree_grow.induct)
  case (1 t off)
  obtain lvl pm us where t: "t = CTree lvl pm us" by (cases t)
  note wf = 1(3) [unfolded t]
  have lvl: "lvl \<le> 6" using 1(4) t by simp
  have sz: "CACHE_TREE_LEVEL_SIZE (lvl + 1) = Some (2 ^ (18 + Suc lvl * 6))"
    using lvl by (simp add: level_size)
  have cmp: "2 ^ (18 + Suc lvl * 6) \<le> off \<longleftrightarrow> 64 ^ Suc lvl \<le> page off"
  proof -
    have "2 ^ (18 + Suc lvl * 6) \<le> off \<longleftrightarrow> 2 ^ 18 * 64 ^ Suc lvl \<le> unat off"
      using lvl unat_two_power [of "18 + Suc lvl * 6"] level_power [of "Suc lvl"]
      by (simp add: word_le_nat_alt)
    then show ?thesis by (simp add: page_def less_eq_div_iff_mult_less_eq mult.commute)
  qed
  show ?case
  proof (cases "64 ^ Suc lvl \<le> page off")
    case False
    then show ?thesis using 1 t sz cmp by (subst tree_grow.simps) auto
  next
    case big: True
    have lvl6: "lvl < 6"
    proof (rule ccontr)
      assume "\<not> lvl < 6"
      then have "lvl = 6" using lvl by simp
      then show False using big 1(5) by simp
    qed
    let ?n = "if pm \<noteq> 0 then CTree (lvl + 1) 1 (zero_slots[0 := STree t]) else CTree (lvl + 1) pm us"
    have n_wf: "ct_wf ?n"
      using wf t mask_zero_slots [of lvl us]
      by (auto intro!: ct_wf_set_slot [OF zero_tree_wf] simp: bit_1_iff split: if_splits)
    have n_abs: "ct_abs ?n = ct_abs t"
    proof
      fix p
      show "ct_abs ?n p = ct_abs t p"
      proof (cases "p < 64 ^ Suc lvl")
        case True
        then show ?thesis using wf t mask_zero_slots [of lvl us] by (auto simp: ct_abs_CTree simp del: power_Suc)
      next
        case False
        then have "ct_abs t p = None" using ct_abs_out_of_range [of t p] 1(3) t by simp
        moreover have "p div 64 ^ Suc lvl \<noteq> 0" using False by (simp add: div_eq_0_iff)
        ultimately show ?thesis using wf t mask_zero_slots [of lvl us]
          by (auto simp: ct_abs_CTree nth_list_update simp del: power_Suc)
      qed
    qed
    have "\<exists>t'. tree_grow ?n off = Some t' \<and> ct_wf t' \<and> level ?n \<le> level t' \<and> level t' \<le> 6 \<and>
           page off < 64 ^ Suc (level t') \<and> ct_abs t' = ct_abs ?n"
    proof (cases "pm = 0")
      case True
      then show ?thesis using "1.IH"(2) [of "2 ^ (18 + Suc lvl * 6)"] n_wf lvl6 1(5) big cmp sz t by simp
    next
      case False
      then show ?thesis using "1.IH"(1) [of "2 ^ (18 + Suc lvl * 6)"] n_wf lvl6 1(5) big cmp sz t by simp
    qed
    moreover have "tree_grow t off = tree_grow ?n off"
      using big cmp sz t by (subst tree_grow.simps) simp
    ultimately show ?thesis using n_abs t by (auto split: if_splits)
  qed
qed

text \<open>Replacing one slot changes the map on that slot's pages only.\<close>

lemma ct_abs_set_slot:
  assumes "length us = 64" "i < 64" "p0 div 64 ^ lvl = i"
    "slot_abs s = (slot_abs (us ! i))(p0 mod 64 ^ lvl := v)"
  shows "ct_abs (CTree lvl pm' (us[i := s])) = (ct_abs (CTree lvl pm us))(p0 := v)"
proof
  fix p
  have "p = p0 \<longleftrightarrow> p div 64 ^ lvl = i \<and> p mod 64 ^ lvl = p0 mod 64 ^ lvl"
    using digit_eq_iff [of p p0 "64 ^ lvl"] assms(3) by simp
  then show "ct_abs (CTree lvl pm' (us[i := s])) p = ((ct_abs (CTree lvl pm us))(p0 := v)) p"
    using assms by (cases "p div 64 ^ lvl = i") (auto simp: ct_abs_CTree nth_list_update)
qed

lemma insert_down_unfold:
  assumes "0 < lvl" "lvl \<le> 7" "length us = 64" "page off div 64 ^ lvl = i" "i < 64"
    "off' = off AND (2 ^ (18 + lvl * 6) - 1)"
  shows "tree_insert_down (CTree lvl pm us) b off =
     (case us ! i of
        SNull \<Rightarrow> map_option (\<lambda>c'. CTree lvl (pm OR mask_bit i) (us[i := STree c']))
                  (tree_insert_down (CTree (lvl - 1) 0 zero_slots) b off')
      | SBuf _ \<Rightarrow> None
      | STree c \<Rightarrow> map_option (\<lambda>c'. CTree lvl pm (us[i := STree c'])) (tree_insert_down c b off'))"
  using assms
  by (subst tree_insert_down.simps)
     (auto simp: level_size unat_div_level crash_simps Let_def split: slot.splits option.splits)

lemma insert_down_refines:
  assumes "ct_wf t" "level t \<le> 7" "page off < 64 ^ Suc (level t)" "ct_abs t (page off) = None"
  shows "\<exists>t'. tree_insert_down t b off = Some t' \<and> ct_wf t' \<and> level t' = level t \<and>
           present_mask t' \<noteq> 0 \<and> ct_abs t' = (ct_abs t)(page off \<mapsto> b)"
  using assms
proof (induction "level t" arbitrary: t off)
  case (0 t off)
  then obtain pm us where t: "t = CTree 0 pm us" by (cases t) auto
  note wf = 0(2) [unfolded t]
  let ?i = "page off"
  have i: "?i < 64" using 0 by simp
  then have sn: "us ! ?i = SNull"
    using 0 t ct_wf_slot [OF wf i] by (cases "us ! ?i") (auto simp: ct_abs_CTree ct_wf_len)
  have eq: "tree_insert_down t b off = Some (CTree 0 (pm OR mask_bit ?i) (us[?i := SBuf b]))"
    using sn i t ct_wf_len [OF wf]
    by (simp add: tree_insert_down.simps buffer_size_index crash_simps Let_def)
  have "ct_wf (CTree 0 (pm OR mask_bit ?i) (us[?i := SBuf b]))"
    using i by (intro ct_wf_set_slot [OF wf]) (auto simp: bit_or_iff)
  moreover have "ct_abs (CTree 0 (pm OR mask_bit ?i) (us[?i := SBuf b])) = (ct_abs t)(?i \<mapsto> b)"
    using i ct_wf_len [OF wf] t sn
    by (intro ext) (auto simp: ct_abs_CTree nth_list_update)
  moreover have "pm OR mask_bit ?i \<noteq> 0"
    using i by (metis bit_or_iff bit_mask_bit word_zero_bits)
  ultimately show ?case using eq t by (simp add: fun_upd_def)
next
  case (Suc n t off)
  then obtain pm us where t: "t = CTree (Suc n) pm us" by (cases t) auto
  note wf = Suc.prems(1) [unfolded t]
  let ?k = "(64::nat) ^ Suc n" and ?i = "page off div 64 ^ Suc n"
  define off' where "off' = off AND (2 ^ (18 + Suc n * 6) - 1)"
  have n: "Suc n \<le> 7" using Suc.prems t by simp
  have i: "?i < 64" using Suc.prems(3) t by (intro index_lt_width) simp
  have po: "page off' = page off mod ?k" unfolding off'_def using n by (rule page_and_level)
  define c where "c = (case us ! ?i of STree c \<Rightarrow> c | _ \<Rightarrow> CTree n 0 zero_slots)"
  define pm' where "pm' = (if us ! ?i = SNull then pm OR mask_bit ?i else pm)"
  have nb: "us ! ?i \<noteq> SBuf x" for x using ct_wf_slot [OF wf i] by auto
  have c: "ct_wf c" "level c = n" "ct_abs c = slot_abs (us ! ?i)"
    using ct_wf_slot [OF wf i] nb by (auto simp: c_def split: slot.splits)
  have "ct_abs c (page off') = None"
    using Suc.prems(4) i t by (simp add: po c ct_abs_CTree ct_wf_len [OF wf])
  moreover have "page off' < 64 ^ Suc n" by (simp add: po)
  ultimately obtain c' where c': "tree_insert_down c b off' = Some c'" "ct_wf c'" "level c' = n"
      "present_mask c' \<noteq> 0" "ct_abs c' = (ct_abs c)(page off' \<mapsto> b)"
    using Suc.hyps(1) [of c off'] c n by auto
  have eq: "tree_insert_down t b off = Some (CTree (Suc n) pm' (us[?i := STree c']))"
    using c'(1) nb i insert_down_unfold [OF _ n ct_wf_len [OF wf] _ i off'_def, of pm b]
    unfolding t c_def pm'_def by (auto split: slot.splits)
  have bitpm': "bit pm' j \<longleftrightarrow> (if j = ?i then True else bit pm j)" if "j < 64" for j
    using i ct_wf_bit [OF wf i] by (auto simp: pm'_def bit_or_iff)
  have "ct_wf (CTree (Suc n) pm' (us[?i := STree c']))"
    using c' i bitpm' by (intro ct_wf_set_slot [OF wf]) auto
  moreover have "pm' \<noteq> 0" using bitpm' [OF i] by auto
  moreover have "ct_abs (CTree (Suc n) pm' (us[?i := STree c'])) = (ct_abs t)(page off \<mapsto> b)"
    using i c c' ct_wf_len [OF wf] po unfolding t by (intro ct_abs_set_slot) (auto simp del: power_Suc)
  ultimately show ?case using eq t by simp
qed

lemma insert_refines:
  assumes "ct_wf t" "level t \<le> 6" "page off < 64 ^ 7" "ct_abs t (page off) = None"
  shows "\<exists>t'. tree_insert_buffer t b off = Some t' \<and> ct_wf t' \<and> level t' \<le> 6 \<and>
           present_mask t' \<noteq> 0 \<and> ct_abs t' = (ct_abs t)(page off \<mapsto> b)"
proof -
  obtain r where r: "tree_grow t off = Some r" "ct_wf r" "level r \<le> 6"
      "page off < 64 ^ Suc (level r)" "ct_abs r = ct_abs t"
    using grow_refines [OF assms(1-3)] by auto
  with insert_down_refines [of r off b] assms(4) show ?thesis
    by (auto simp: tree_insert_buffer_def)
qed

section \<open>Removal\<close>

lemma remove_refines_mod:
  assumes "ct_wf t" "level t \<le> 7" "ct_abs t (page off mod 64 ^ Suc (level t)) = Some b"
  shows "\<exists>t'. tree_remove_buffer t b off = Some (t', [b]) \<and> ct_wf t' \<and> level t' = level t \<and>
           ct_abs t' = (ct_abs t)(page off mod 64 ^ Suc (level t) := None)"
  using assms
proof (induction "level t" arbitrary: t)
  case (0 t)
  then obtain pm us where t: "t = CTree 0 pm us" by (cases t) auto
  note wf = 0(2) [unfolded t]
  let ?i = "page off mod 64"
  have i: "?i < 64" by simp
  have sb: "us ! ?i = SBuf b"
    using 0 t ct_wf_slot [OF wf i] by (cases "us ! ?i") (auto simp: ct_abs_CTree ct_wf_len)
  have eq: "tree_remove_buffer t b off
      = Some (CTree 0 (pm AND NOT (mask_bit ?i)) (us[?i := SNull]), [b])"
    using sb t ct_wf_len [OF wf] by (simp add: tree_remove_buffer.simps tree_index)
  have "ct_wf (CTree 0 (pm AND NOT (mask_bit ?i)) (us[?i := SNull]))"
    by (intro ct_wf_set_slot [OF wf]) (auto simp: bit_and_iff bit_not_iff)
  moreover have "ct_abs (CTree 0 (pm AND NOT (mask_bit ?i)) (us[?i := SNull])) = (ct_abs t)(?i := None)"
    using ct_wf_len [OF wf] t sb
    by (intro ext) (auto simp: ct_abs_CTree nth_list_update)
  ultimately show ?case using eq t by (simp add: fun_upd_def)
next
  case (Suc n t)
  then obtain pm us where t: "t = CTree (Suc n) pm us" by (cases t) auto
  note wf = Suc.prems(1) [unfolded t]
  let ?k = "(64::nat) ^ Suc n" and ?i = "page off div 64 ^ Suc n mod 64"
    and ?p = "page off mod 64 ^ Suc (Suc n)"
  have n: "Suc n \<le> 7" using Suc.prems t by simp
  have i: "?i < 64" by simp
  have digits: "?p div ?k = ?i" "?p mod ?k = page off mod ?k"
    by (rule mod_Suc_level_div, rule mod_Suc_level)
  have pv: "slot_abs (us ! ?i) (page off mod ?k) = Some b"
    using Suc.prems(3) t digits i
    by (simp add: ct_abs_CTree ct_wf_len [OF wf] del: power_Suc)
  then obtain c where sc: "us ! ?i = STree c" and c: "level c = n" "ct_wf c"
    using ct_wf_slot [OF wf i] by (cases "us ! ?i") auto
  obtain c' where c': "tree_remove_buffer c b off = Some (c', [b])" "ct_wf c'" "level c' = n"
      "ct_abs c' = (ct_abs c)(page off mod ?k := None)"
    using Suc.hyps(1) [of c] c pv sc n by (auto simp del: power_Suc)
  define pm' s where "pm' = (if present_mask c' = 0 then pm AND NOT (mask_bit ?i) else pm)"
    and "s = (if present_mask c' = 0 then SNull else STree c')"
  have s_abs: "slot_abs s = (ct_abs c)(page off mod ?k := None)"
    using c' mask_zero_iff [of c'] by (auto simp: s_def)
  have eq: "tree_remove_buffer t b off = Some (CTree (Suc n) pm' (us[?i := s]), [b])"
    using c'(1) sc ct_wf_len [OF wf] by (simp add: t tree_remove_buffer.simps [of "Suc n"] tree_index [OF n]
        crash_simps pm'_def s_def del: power_Suc)
  have "bit pm ?i" using ct_wf_bit [OF wf i] sc by simp
  then have "ct_wf (CTree (Suc n) pm' (us[?i := s]))"
    using c' by (intro ct_wf_set_slot [OF wf]) (auto simp: bit_and_iff bit_not_iff pm'_def s_def)
  moreover have "ct_abs (CTree (Suc n) pm' (us[?i := s])) = (ct_abs t)(?p := None)"
    using i s_abs sc ct_wf_len [OF wf] digits unfolding t
    by (intro ct_abs_set_slot) (auto simp del: power_Suc)
  ultimately show ?case using eq t by (simp del: power_Suc)
qed

lemma remove_refines:
  assumes "ct_wf t" "level t \<le> 7" "ct_abs t (page off) = Some b"
  shows "\<exists>t'. tree_remove_buffer t b off = Some (t', [b]) \<and> ct_wf t' \<and> level t' = level t \<and>
           ct_abs t' = (ct_abs t)(page off := None)"
proof -
  have "page off mod 64 ^ Suc (level t) = page off"
    using ct_abs_out_of_range [OF assms(1), of "page off"] assms(3)
    by (metis mod_less not_le option.distinct(1))
  then show ?thesis using remove_refines_mod [of t off b] assms by simp
qed

section \<open>Reclaiming clean buffers\<close>

text \<open>What the loop over the slots does, from what it does to each slot: the slot's result
  does not depend on the loop counter, and the presence bit is cleared exactly when a used
  slot becomes empty.\<close>

definition slot_step :: "(buf_ptr \<rightharpoonup> cache_buffer) \<Rightarrow> nat \<Rightarrow> slot \<Rightarrow> slot \<Rightarrow> buf_ptr list \<Rightarrow> bool" where
  "slot_step bufs lvl s s' fr \<longleftrightarrow>
     (\<forall>i pm. free_slot bufs lvl i pm s =
        Some (if s \<noteq> SNull \<and> s' = SNull then pm AND NOT (mask_bit i) else pm, s', fr))"

lemma slot_step_SNull: "slot_step bufs lvl SNull SNull []"
  by (simp add: slot_step_def)

lemma free_slots_spec:
  assumes "\<And>k. k < length ss \<Longrightarrow> slot_step bufs lvl (ss ! k) (f (ss ! k)) (g (ss ! k))"
    and "i + length ss \<le> 64"
  shows "\<exists>pm'. free_slots bufs lvl i pm ss = Some (pm', map f ss, concat (map g ss)) \<and>
           (\<forall>j<64. bit pm' j \<longleftrightarrow> bit pm j \<and>
              \<not> (i \<le> j \<and> j < i + length ss \<and> ss ! (j - i) \<noteq> SNull \<and> f (ss ! (j - i)) = SNull))"
  using assms
proof (induction ss arbitrary: i pm)
  case Nil
  then show ?case by simp
next
  case (Cons s ss)
  let ?pm = "if s \<noteq> SNull \<and> f s = SNull then pm AND NOT (mask_bit i) else pm"
  have s: "slot_step bufs lvl s (f s) (g s)" using Cons.prems(1) [of 0] by simp
  have "slot_step bufs lvl (ss ! k) (f (ss ! k)) (g (ss ! k))" if "k < length ss" for k
    using Cons.prems(1) [of "Suc k"] that by simp
  moreover have i: "Suc i + length ss \<le> 64" using Cons.prems(2) by simp
  ultimately obtain pm' where
    pm': "free_slots bufs lvl (Suc i) ?pm ss = Some (pm', map f ss, concat (map g ss))"
      "\<forall>j<64. bit pm' j \<longleftrightarrow> bit ?pm j \<and>
         \<not> (Suc i \<le> j \<and> j < Suc i + length ss \<and> ss ! (j - Suc i) \<noteq> SNull \<and> f (ss ! (j - Suc i)) = SNull)"
    using Cons.IH [where i = "Suc i" and pm = ?pm] by blast
  have "bit pm' j \<longleftrightarrow> bit pm j \<and>
      \<not> (i \<le> j \<and> j < i + length (s # ss) \<and> (s # ss) ! (j - i) \<noteq> SNull \<and> f ((s # ss) ! (j - i)) = SNull)"
    if j: "j < 64" for j
  proof (cases "j = i")
    case True
    then show ?thesis using pm'(2) j i by (auto simp: bit_and_iff bit_not_iff)
  next
    case False
    then have "(i \<le> j \<longleftrightarrow> Suc i \<le> j)" "i \<le> j \<Longrightarrow> (s # ss) ! (j - i) = ss ! (j - Suc i)"
      by (auto simp: nth_Cons')
    then show ?thesis using pm'(2) j i False by (auto simp: bit_and_iff bit_not_iff)
  qed
  then show ?case using s pm'(1) by (auto simp: slot_step_def)
qed

text \<open>The map after the reclaim: the clean buffers are gone.\<close>

definition keep_dirty :: "(buf_ptr \<rightharpoonup> cache_buffer) \<Rightarrow> (nat \<rightharpoonup> buf_ptr) \<Rightarrow> (nat \<rightharpoonup> buf_ptr)" where
  "keep_dirty bufs m = (\<lambda>p. case m p of None \<Rightarrow> None
     | Some b \<Rightarrow> if reclaimable (the (bufs b)) then None else Some b)"

definition reclaimed :: "(buf_ptr \<rightharpoonup> cache_buffer) \<Rightarrow> (nat \<rightharpoonup> buf_ptr) \<Rightarrow> buf_ptr set" where
  "reclaimed bufs m = {b \<in> ran m. reclaimable (the (bufs b))}"

lemma keep_dirty_empty [simp]: "keep_dirty bufs Map.empty = Map.empty" "reclaimed bufs Map.empty = {}"
  by (auto simp: keep_dirty_def reclaimed_def)

definition slot_ok :: "(buf_ptr \<rightharpoonup> cache_buffer) \<Rightarrow> nat \<Rightarrow> slot \<Rightarrow> slot \<Rightarrow> buf_ptr list \<Rightarrow> bool" where
  "slot_ok bufs lvl s s' fr \<longleftrightarrow> slot_step bufs lvl s s' fr \<and> slot_wf s' lvl \<and> (s = SNull \<longrightarrow> s' = SNull) \<and>
     slot_abs s' = keep_dirty bufs (slot_abs s) \<and> set fr = reclaimed bufs (slot_abs s)"

lemma ct_ran_slot:
  assumes "ct_wf (CTree lvl pm us)" "i < 64" "slot_abs (us ! i) q = Some b"
  shows "b \<in> ran (ct_abs (CTree lvl pm us))"
proof (cases "us ! i")
  case (SBuf b')
  then have "ct_abs (CTree lvl pm us) (i * 64 ^ lvl) = Some b"
    using assms ct_wf_slot [OF assms(1,2)] by (simp add: ct_abs_CTree ct_wf_len)
  then show ?thesis by (auto simp: ran_def)
next
  case (STree c)
  with ct_wf_slot [OF assms(1,2)] have c: "lvl = Suc (level c)" "ct_wf c" by auto
  then have "q < 64 ^ lvl" using ct_abs_out_of_range [of c q] assms(3) STree
    by (metis not_le option.distinct(1) slot_abs.simps(3))
  then have "ct_abs (CTree lvl pm us) (i * 64 ^ lvl + q) = Some b"
    using assms by (simp add: ct_abs_CTree ct_wf_len)
  then show ?thesis by (auto simp: ran_def)
qed (use assms in auto)

lemma ran_ct_abs:
  assumes "ct_wf (CTree lvl pm us)"
  shows "ran (ct_abs (CTree lvl pm us)) = (\<Union>s \<in> set us. ran (slot_abs s))"
proof (intro equalityI subsetI)
  fix b assume "b \<in> ran (ct_abs (CTree lvl pm us))"
  then obtain p where p: "ct_abs (CTree lvl pm us) p = Some b" by (auto simp: ran_def)
  then have "p div 64 ^ lvl < 64" "slot_abs (us ! (p div 64 ^ lvl)) (p mod 64 ^ lvl) = Some b"
    using ct_wf_len [OF assms] by (auto simp: ct_abs_CTree split: if_splits)
  then show "b \<in> (\<Union>s \<in> set us. ran (slot_abs s))"
    using ct_wf_len [OF assms] by (auto simp: ran_def intro!: bexI [of _ "us ! (p div 64 ^ lvl)"])
next
  fix b assume "b \<in> (\<Union>s \<in> set us. ran (slot_abs s))"
  then obtain i q where "i < 64" "slot_abs (us ! i) q = Some b"
    using ct_wf_len [OF assms] by (auto simp: ran_def in_set_conv_nth)
  then show "b \<in> ran (ct_abs (CTree lvl pm us))" using ct_ran_slot [OF assms] by blast
qed

lemma free_refines:
  assumes "ct_wf t" "ran (ct_abs t) \<subseteq> dom bufs"
  shows "\<exists>t' fr. tree_free_buffers bufs t = Some (t', fr) \<and> ct_wf t' \<and> level t' = level t \<and>
           ct_abs t' = keep_dirty bufs (ct_abs t) \<and> set fr = reclaimed bufs (ct_abs t)"
  using assms
proof (induction "level t" arbitrary: t rule: less_induct)
  case (less t)
  obtain lvl pm us where t: "t = CTree lvl pm us" by (cases t)
  note wf = less.prems(1) [unfolded t] and len = ct_wf_len [OF less.prems(1) [unfolded t]]
  show ?case
  proof (cases "pm = 0")
    case True
    then show ?thesis using wf mask_zero_iff [OF wf] t by simp
  next
    case nz: False
    have "\<exists>s' fr. slot_ok bufs lvl s s' fr" if "s \<in> set us" for s
    proof (cases s)
      case SNull
      then show ?thesis by (auto simp: slot_ok_def slot_step_SNull intro!: exI [of _ SNull] exI [of _ "[]"])
    next
      case (SBuf b)
      have "lvl = 0" using ct_wf_mem [OF wf that] SBuf by simp
      have "b \<in> ran (slot_abs s)" using SBuf by (simp add: ran_def)
      then have "b \<in> dom bufs" using that less.prems(2) ran_ct_abs [OF wf] t by blast
      then obtain cb where cb: "bufs b = Some cb" by auto
      show ?thesis
      proof (cases "reclaimable cb")
        case True
        then show ?thesis using SBuf cb \<open>lvl = 0\<close>
          by (intro exI [of _ SNull] exI [of _ "[b]"])
             (auto simp: slot_ok_def slot_step_def keep_dirty_def reclaimed_def ran_def)
      next
        case False
        then show ?thesis using SBuf cb \<open>lvl = 0\<close>
          by (intro exI [of _ s] exI [of _ "[]"])
             (auto simp: slot_ok_def slot_step_def keep_dirty_def reclaimed_def ran_def)
      qed
    next
      case (STree c)
      have c: "0 < lvl" "level c = lvl - 1" "ct_wf c" "present_mask c \<noteq> 0"
        using ct_wf_mem [OF wf that] STree by auto
      have "ran (ct_abs c) \<subseteq> dom bufs"
        using that STree less.prems(2) ran_ct_abs [OF wf] t by (metis UN_upper order.trans slot_abs.simps(3))
      then obtain c' fr where c': "tree_free_buffers bufs c = Some (c', fr)" "ct_wf c'" "level c' = level c"
          "ct_abs c' = keep_dirty bufs (ct_abs c)" "set fr = reclaimed bufs (ct_abs c)"
        using less.hyps [of c] c t by auto
      then show ?thesis using STree c mask_zero_iff [of c']
        by (intro exI [of _ "if present_mask c' = 0 then SNull else STree c'"] exI [of _ fr])
           (auto simp: slot_ok_def slot_step_def)
    qed
    then obtain f g where fg: "\<And>s. s \<in> set us \<Longrightarrow> slot_ok bufs lvl s (f s) (g s)" by metis
    obtain pm' where pm': "free_slots bufs lvl 0 pm us = Some (pm', map f us, concat (map g us))"
      "\<forall>j<64. bit pm' j \<longleftrightarrow> bit pm j \<and> \<not> (us ! j \<noteq> SNull \<and> f (us ! j) = SNull)"
      using free_slots_spec [of us bufs lvl f g 0 pm] fg len by (auto simp: slot_ok_def)
    let ?t = "CTree lvl pm' (map f us)"
    have fg': "slot_ok bufs lvl (us ! i) (f (us ! i)) (g (us ! i))" if "i < 64" for i
      using fg that len by simp
    have "ct_wf ?t"
      using pm'(2) len ct_wf_bit [OF wf] fg' by (intro ct_wfI) (auto simp: slot_ok_def)
    moreover have "ct_abs ?t = keep_dirty bufs (ct_abs t)"
    proof
      fix p
      show "ct_abs ?t p = keep_dirty bufs (ct_abs t) p"
        using fg' [of "p div 64 ^ lvl"] len
        by (cases "p div 64 ^ lvl < 64") (auto simp: t ct_abs_CTree slot_ok_def keep_dirty_def)
    qed
    moreover have "set (concat (map g us)) = reclaimed bufs (ct_abs t)"
      using fg by (auto simp: t reclaimed_def ran_ct_abs [OF wf] slot_ok_def)
    ultimately show ?thesis using nz pm'(1) by (auto simp: t)
  qed
qed

section \<open>The interface the file layer uses\<close>

text \<open>What the file cache relies on: an index from pages to buffers with lookup, insertion of an
  absent page, removal of a present one, and reclaim of the clean buffers.  The laws are over
  offsets; two offsets in the same 256 KiB page are the same key.\<close>

locale page_index =
  fixes inv :: "'t \<Rightarrow> bool"
    and abs :: "'t \<Rightarrow> nat \<Rightarrow> buf_ptr option"
    and find :: "'t \<Rightarrow> u64 \<Rightarrow> buf_ptr option option"
    and ins :: "'t \<Rightarrow> buf_ptr \<Rightarrow> u64 \<Rightarrow> 't option"
    and del :: "'t \<Rightarrow> buf_ptr \<Rightarrow> u64 \<Rightarrow> ('t \<times> buf_ptr list) option"
    and reclaim :: "(buf_ptr \<rightharpoonup> cache_buffer) \<Rightarrow> 't \<Rightarrow> ('t \<times> buf_ptr list) option"
    and isempty :: "'t \<Rightarrow> bool"
  assumes find_law: "inv t \<Longrightarrow> find t off = Some (abs t (page off))"
    and ins_law: "inv t \<Longrightarrow> page off < 64 ^ 7 \<Longrightarrow> abs t (page off) = None \<Longrightarrow>
      \<exists>t'. ins t b off = Some t' \<and> inv t' \<and> abs t' = (abs t)(page off \<mapsto> b)"
    and del_law: "inv t \<Longrightarrow> abs t (page off) = Some b \<Longrightarrow>
      \<exists>t'. del t b off = Some (t', [b]) \<and> inv t' \<and> abs t' = (abs t)(page off := None)"
    and reclaim_law: "inv t \<Longrightarrow> ran (abs t) \<subseteq> dom bufs \<Longrightarrow>
      \<exists>t' fr. reclaim bufs t = Some (t', fr) \<and> inv t' \<and> abs t' = keep_dirty bufs (abs t) \<and>
        set fr = reclaimed bufs (abs t)"
    and isempty_law: "inv t \<Longrightarrow> isempty t \<longleftrightarrow> abs t = Map.empty"
begin

lemma find_after_ins:
  assumes "inv t" "page off < 64 ^ 7" "abs t (page off) = None"
  shows "\<exists>t'. ins t b off = Some t' \<and> inv t' \<and>
           (\<forall>off'. find t' off' = (if page off' = page off then Some (Some b) else find t off'))"
  using ins_law [OF assms, of b] by (auto simp: find_law assms(1))

lemma find_after_del:
  assumes "inv t" "abs t (page off) = Some b"
  shows "\<exists>t'. del t b off = Some (t', [b]) \<and> inv t' \<and>
           (\<forall>off'. find t' off' = (if page off' = page off then Some None else find t off'))"
  using del_law [OF assms] by (auto simp: find_law assms(1))

lemma ins_del_roundtrip:
  assumes "inv t" "page off < 64 ^ 7" "abs t (page off) = None"
  shows "\<exists>t' t''. ins t b off = Some t' \<and> del t' b off = Some (t'', [b]) \<and> inv t'' \<and> abs t'' = abs t"
proof -
  obtain t' where t': "ins t b off = Some t'" "inv t'" "abs t' = (abs t)(page off \<mapsto> b)"
    using ins_law [OF assms] by blast
  then obtain t'' where "del t' b off = Some (t'', [b])" "inv t''" "abs t'' = (abs t')(page off := None)"
    using del_law [of t' off b] by auto
  with t' assms(3) show ?thesis by (intro exI [of _ t'] exI [of _ t'']) (auto simp: fun_upd_idem)
qed

lemma find_after_reclaim:
  assumes "inv t" "ran (abs t) \<subseteq> dom bufs"
  shows "\<exists>t' fr. reclaim bufs t = Some (t', fr) \<and> inv t' \<and>
           (\<forall>off. find t' off = Some (case abs t (page off) of None \<Rightarrow> None
              | Some b \<Rightarrow> if b \<in> set fr then None else Some b)) \<and>
           (\<forall>b \<in> set fr. \<exists>cb. bufs b = Some cb \<and> reclaimable cb)"
proof -
  obtain t' fr where t': "reclaim bufs t = Some (t', fr)" "inv t'" "abs t' = keep_dirty bufs (abs t)"
      "set fr = reclaimed bufs (abs t)"
    using reclaim_law [OF assms] by blast
  have "\<exists>cb. bufs b = Some cb \<and> reclaimable cb" if "b \<in> set fr" for b
  proof -
    have "b \<in> ran (abs t)" "reclaimable (the (bufs b))" using that t'(4) by (auto simp: reclaimed_def)
    then show ?thesis using assms(2) by force
  qed
  moreover have "find t' off = Some (case abs t (page off) of None \<Rightarrow> None
      | Some b \<Rightarrow> if b \<in> set fr then None else Some b)" for off
    using t' by (auto simp: find_law keep_dirty_def reclaimed_def ran_def split: option.splits)
  ultimately show ?thesis using t' by blast
qed

end

text \<open>The invariant of a file's tree: well formed, and never above level 6, so that
  \<open>CACHE_TREE_LEVEL_SIZE (level + 1)\<close> is always defined.\<close>

definition ct_inv :: "cache_tree \<Rightarrow> bool" where
  "ct_inv t \<longleftrightarrow> ct_wf t \<and> level t \<le> 6"

interpretation ct: page_index ct_inv ct_abs tree_find_buffer tree_insert_buffer tree_remove_buffer
  tree_free_buffers "\<lambda>t. present_mask t = 0"
proof (unfold_locales, goal_cases)
  case (1 t off)
  then show ?case by (simp add: ct_inv_def find_refines)
next
  case (2 t off b)
  then show ?case using insert_refines [of t off b] by (auto simp: ct_inv_def)
next
  case (3 t off b)
  then show ?case using remove_refines [of t off b] by (auto simp: ct_inv_def)
next
  case (4 t bufs)
  then show ?case using free_refines [of t bufs] by (auto simp: ct_inv_def)
next
  case (5 t)
  then show ?case by (simp add: ct_inv_def mask_zero_iff)
qed

lemma calloc_tree_inv [simp]: "ct_inv calloc_tree"
  by (simp add: ct_inv_def)

text \<open>The offsets of buffers are bounded by the largest page a level-6 tree can hold.\<close>

lemma page_bound: "unat off < 2 ^ 60 \<Longrightarrow> page off < 64 ^ 7"
  by (simp add: page_def less_mult_imp_div_less)

section \<open>Properties\<close>

text \<open>C4: Inserting a buffer at an offset below \<open>2 ^ 60\<close> whose page is not cached succeeds
  (no assertion fails, no shift is undefined), keeps the tree well formed, and afterwards
  every offset of that page finds the new buffer while every other offset finds what it
  found before.\<close>

theorem cache_insert_then_find:
  assumes "ct_inv t" and "unat off < 2 ^ 60" and "ct_abs t (page off) = None"
  shows "\<exists>t'. tree_insert_buffer t b off = Some t' \<and> ct_inv t' \<and>
           (\<forall>off'. tree_find_buffer t' off' =
              (if page off' = page off then Some (Some b) else tree_find_buffer t off'))"
  using ct.find_after_ins [OF assms(1) page_bound [OF assms(2)] assms(3)] by blast

theorem cache_insert_then_find_witness:
  "\<exists>t'. tree_insert_buffer calloc_tree 7 (2 ^ 30) = Some t' \<and> ct_inv t' \<and>
     (\<forall>off'. tree_find_buffer t' off' =
        (if page off' = page (2 ^ 30) then Some (Some 7) else tree_find_buffer calloc_tree off'))"
  by (rule cache_insert_then_find) simp_all

text \<open>C9: Removing a cached buffer succeeds, hands exactly that buffer to
  \<open>cache_buffer_free\<close>, keeps the tree well formed (nodes that become empty are freed), and
  afterwards the offsets of its page find nothing while all others are unchanged.\<close>

theorem cache_remove_then_find:
  assumes "ct_inv t" and "ct_abs t (page off) = Some b"
  shows "\<exists>t'. tree_remove_buffer t b off = Some (t', [b]) \<and> ct_inv t' \<and>
           (\<forall>off'. tree_find_buffer t' off' =
              (if page off' = page off then Some None else tree_find_buffer t off'))"
  using ct.find_after_del [OF assms] by blast

text \<open>A tree of two levels with one buffer, at page 65.\<close>

definition sample_tree :: cache_tree where
  "sample_tree = CTree 1 2 (zero_slots[1 := STree (CTree 0 2 (zero_slots[1 := SBuf 7]))])"

lemma sample_tree_inv: "ct_inv sample_tree"
proof -
  have two: "2 = mask_bit 1" and nz: "mask_bit 1 \<noteq> 0" by (simp_all add: mask_bit_def)
  have leaf: "ct_wf (CTree 0 2 (zero_slots[1 := SBuf 7]))"
    unfolding two by (rule ct_wf_set_slot [OF zero_tree_wf]) auto
  have "ct_wf sample_tree" using leaf nz unfolding sample_tree_def two
    by (intro ct_wf_set_slot [OF zero_tree_wf]) auto
  then show ?thesis by (simp add: ct_inv_def sample_tree_def)
qed

lemma sample_tree_abs: "ct_abs sample_tree (page (65 * 2 ^ 18)) = Some 7"
  by (simp add: sample_tree_def ct_abs_CTree page_def)

theorem cache_remove_then_find_witness:
  "\<exists>t'. tree_remove_buffer sample_tree 7 (65 * 2 ^ 18) = Some (t', [7]) \<and> ct_inv t' \<and>
     (\<forall>off'. tree_find_buffer t' off' =
        (if page off' = page (65 * 2 ^ 18) then Some None else tree_find_buffer sample_tree off'))"
  using sample_tree_inv sample_tree_abs by (rule cache_remove_then_find)

text \<open>C10: Reclaiming never loses data: \<open>tree_free_buffers\<close> succeeds, frees only buffers that
  are fully flushed and not in use by an I/O, and afterwards an offset finds its old buffer
  exactly when that buffer was not freed; the presence mask is zero exactly when nothing is
  left.\<close>

theorem cache_free_keeps_dirty:
  assumes "ct_inv t" and "ran (ct_abs t) \<subseteq> dom bufs"
  shows "\<exists>t' fr. tree_free_buffers bufs t = Some (t', fr) \<and> ct_inv t' \<and>
           (\<forall>off. tree_find_buffer t' off = Some (case ct_abs t (page off) of None \<Rightarrow> None
              | Some b \<Rightarrow> if b \<in> set fr then None else Some b)) \<and>
           (\<forall>b \<in> set fr. \<exists>cb. bufs b = Some cb \<and> reclaimable cb) \<and>
           (present_mask t' = 0 \<longleftrightarrow> ct_abs t' = Map.empty)"
  using ct.find_after_reclaim [OF assms] ct.isempty_law by blast

theorem cache_free_keeps_dirty_witness:
  "\<exists>t' fr. tree_free_buffers (\<lambda>_. Some \<lparr>buf = \<lambda>_. 0, offset = 65 * 2 ^ 18, buf_size = 2 ^ 18,
        bytes_filled = 5, bytes_flushed = 5, in_progress = False\<rparr>) sample_tree = Some (t', fr) \<and> ct_inv t' \<and>
     (\<forall>off. tree_find_buffer t' off = Some (case ct_abs sample_tree (page off) of None \<Rightarrow> None
        | Some b \<Rightarrow> if b \<in> set fr then None else Some b)) \<and>
     (\<forall>b \<in> set fr. \<exists>cb. (\<lambda>_. Some \<lparr>buf = \<lambda>_. 0, offset = 65 * 2 ^ 18, buf_size = 2 ^ 18,
        bytes_filled = 5, bytes_flushed = 5, in_progress = False\<rparr>) b = Some cb \<and> reclaimable cb) \<and>
     (present_mask t' = 0 \<longleftrightarrow> ct_abs t' = Map.empty)"
  by (rule cache_free_keeps_dirty [OF sample_tree_inv]) (simp add: dom_def)
end
