(* ===== verification/Bplus_Tree.thy ===== *)
theory Bplus_Tree
  imports NBFS_Prelude
begin

text \<open>
  The B+ tree of file names, \<open>include/spdk/Bplus_Tree.h\<close>, as it is written: nodes in an
  explicit heap, parent pointers, arrays of \<open>MAX_KEY_NUM\<close> keys and \<open>MAX_KEY_NUM + 1\<close>
  pointers, the last pointer of a leaf linking to the next leaf.  This theory holds the data
  and the operations; the later B+ tree theories prove what they compute.

  A \<open>void *\<close> slot is NULL, a node (a child, or the next leaf) or a record; a record is
  never changed after \<open>new_record\<close>, so its pointer stands for the file it holds.  A key slot
  is NULL or a string: every live key is its own \<open>malloc\<close>ed copy, so keys are values.  The
  loops that move two arrays in one pass are written once per array.  \<open>malloc\<close> is not checked
  by the code and does not fail here; \<open>free\<close> of a node removes it from the heap.
\<close>

section \<open>Data\<close>

definition MAX_KEY_LEN :: nat where "MAX_KEY_LEN = 256"
definition MAX_KEY_NUM :: nat where "MAX_KEY_NUM = 4"

type_synonym node_ptr = nat
type_synonym file_ptr = nat

datatype ptr = Null | PNode node_ptr | PRec file_ptr

record node =
  pointers :: "ptr list"
  keys :: "string option list"
  parent :: "node_ptr option"
  num_keys :: nat
  is_leaf :: bool

record bheap =
  nodes :: "node_ptr \<rightharpoonup> node"
  next_node :: node_ptr

section \<open>Array loops\<close>

text \<open>\<open>for (i = n; i > lo; i--) xs[i] = xs[i - 1];\<close>\<close>

fun shift_right :: "'a list \<Rightarrow> nat \<Rightarrow> nat \<Rightarrow> 'a list option" where
  "shift_right xs lo 0 = Some xs"
| "shift_right xs lo (Suc i) =
     (if lo < Suc i
      then do { v \<leftarrow> arr_get xs i; xs' \<leftarrow> arr_set xs (Suc i) v; shift_right xs' lo i }
      else Some xs)"

text \<open>\<open>for (i = lo; i < n; i++) xs[i] = xs[i + 1];\<close> with the final value of \<open>i\<close>.\<close>

function shift_left :: "'a list \<Rightarrow> nat \<Rightarrow> nat \<Rightarrow> ('a list \<times> nat) option" where
  "shift_left xs i n =
     (if i < n
      then do { v \<leftarrow> arr_get xs (Suc i); xs' \<leftarrow> arr_set xs i v; shift_left xs' (Suc i) n }
      else Some (xs, i))"
  by pat_completeness auto
termination
  by (relation "measure (\<lambda>(xs, i, n). n - i)") auto

declare shift_left.simps [simp del]

text \<open>\<open>for (k = 0; k < n; k++) dst[di + k] = src[si + k];\<close>\<close>

fun copy_loop :: "'a list \<Rightarrow> nat \<Rightarrow> 'a list \<Rightarrow> nat \<Rightarrow> nat \<Rightarrow> 'a list option" where
  "copy_loop dst di src si 0 = Some dst"
| "copy_loop dst di src si (Suc n) =
     do { v \<leftarrow> arr_get src si; dst' \<leftarrow> arr_set dst di v; copy_loop dst' (Suc di) src (Suc si) n }"

text \<open>\<open>for (i = 0; i < n && P(keys[i]); i++);\<close>  A NULL key crashes \<open>strcmp\<close>.\<close>

function scan_keys :: "(string \<Rightarrow> bool) \<Rightarrow> string option list \<Rightarrow> nat \<Rightarrow> nat \<Rightarrow> nat option" where
  "scan_keys P ks n i =
     (if i < n
      then do { slot \<leftarrow> arr_get ks i; k \<leftarrow> slot; if P k then scan_keys P ks n (Suc i) else Some i }
      else Some i)"
  by pat_completeness auto
termination
  by (relation "measure (\<lambda>(P, ks, n, i). n - i)") auto

declare scan_keys.simps [simp del]

text \<open>\<open>for (i = 0; i < n && pointers[i] != p; i++);\<close>\<close>

function scan_ptrs :: "ptr list \<Rightarrow> ptr \<Rightarrow> nat \<Rightarrow> nat \<Rightarrow> nat option" where
  "scan_ptrs ps p n i =
     (if i < n
      then do { q \<leftarrow> arr_get ps i; if q \<noteq> p then scan_ptrs ps p n (Suc i) else Some i }
      else Some i)"
  by pat_completeness auto
termination
  by (relation "measure (\<lambda>(ps, p, n, i). n - i)") auto

declare scan_ptrs.simps [simp del]

text \<open>\<open>malloc(MAX_KEY_LEN); strcpy(dst, key)\<close>, or \<open>strcpy\<close> into an existing key: writes past
  the buffer when the key has \<open>MAX_KEY_LEN\<close> bytes or more.\<close>

definition strcpy_key :: "string \<Rightarrow> string option" where
  "strcpy_key key = (if length key < MAX_KEY_LEN then Some key else None)"

definition set_node :: "bheap \<Rightarrow> node_ptr \<Rightarrow> node \<Rightarrow> bheap" where
  "set_node h p nd = h\<lparr>nodes := (nodes h)(p \<mapsto> nd)\<rparr>"

section \<open>Lookup\<close>

partial_function (option) find_leaf_loop :: "bheap \<Rightarrow> node_ptr \<Rightarrow> string \<Rightarrow> node_ptr option" where
  "find_leaf_loop h temp key =
     do { nd \<leftarrow> nodes h temp;
          if is_leaf nd then Some temp
          else do { i \<leftarrow> scan_keys (\<lambda>k. strcmp k key \<le> 0) (keys nd) (num_keys nd) 0;
                    p \<leftarrow> arr_get (pointers nd) i;
                    case p of PNode c \<Rightarrow> find_leaf_loop h c key | _ \<Rightarrow> None } }"

definition find_leaf :: "bheap \<Rightarrow> node_ptr option \<Rightarrow> string \<Rightarrow> node_ptr option option" where
  "find_leaf h root key =
     (case root of
        None \<Rightarrow> Some None
      | Some r \<Rightarrow> do { l \<leftarrow> find_leaf_loop h r key; Some (Some l) })"

definition B_plus_tree_find :: "bheap \<Rightarrow> node_ptr option \<Rightarrow> string \<Rightarrow> file_ptr option option" where
  "B_plus_tree_find h root key =
     do { leaf \<leftarrow> find_leaf h root key;
          case leaf of
            None \<Rightarrow> Some None
          | Some l \<Rightarrow>
              do { nd \<leftarrow> nodes h l;
                   i \<leftarrow> scan_keys (\<lambda>k. strcmp k key \<noteq> 0) (keys nd) (num_keys nd) 0;
                   if i = num_keys nd then Some None
                   else do { p \<leftarrow> arr_get (pointers nd) i;
                             case p of PRec f \<Rightarrow> Some (Some f) | Null \<Rightarrow> Some None | PNode _ \<Rightarrow> None } } }"

definition get_node_index :: "bheap \<Rightarrow> node_ptr \<Rightarrow> nat option" where
  "get_node_index h p =
     do { nd \<leftarrow> nodes h p; pp \<leftarrow> parent nd; par \<leftarrow> nodes h pp;
          scan_ptrs (pointers par) (PNode p) (num_keys par) 0 }"

section \<open>Insertion\<close>

definition new_record :: "file_ptr \<Rightarrow> ptr" where
  "new_record file = PRec file"

definition blank_node :: node where
  "blank_node = \<lparr>pointers = replicate (MAX_KEY_NUM + 1) Null, keys = replicate MAX_KEY_NUM None,
     parent = None, num_keys = 0, is_leaf = False\<rparr>"

definition make_new_node :: "bheap \<Rightarrow> bheap \<times> node_ptr" where
  "make_new_node h =
     (h\<lparr>nodes := (nodes h)(next_node h \<mapsto> blank_node), next_node := Suc (next_node h)\<rparr>, next_node h)"

definition make_new_leaf :: "bheap \<Rightarrow> bheap \<times> node_ptr" where
  "make_new_leaf h =
     (let (h', p) = make_new_node h in (set_node h' p (blank_node\<lparr>is_leaf := True\<rparr>), p))"

text \<open>\<open>child->parent = p\<close> for each pointer of a list.\<close>

fun set_parents :: "bheap \<Rightarrow> ptr list \<Rightarrow> node_ptr \<Rightarrow> bheap option" where
  "set_parents h [] p = Some h"
| "set_parents h (q # qs) p =
     (case q of
        PNode c \<Rightarrow> do { nd \<leftarrow> nodes h c; set_parents (set_node h c (nd\<lparr>parent := Some p\<rparr>)) qs p }
      | _ \<Rightarrow> None)"

definition node_split :: nat where
  "node_split = (if (MAX_KEY_NUM + 1) mod 2 \<noteq> 0 then (MAX_KEY_NUM + 1) div 2 + 1
                 else (MAX_KEY_NUM + 1) div 2)"

text \<open>\<open>insert_into_node_after_splitting\<close> up to its call of \<open>insert_into_parent\<close>: the heap, the
  new node and the key to pass up.\<close>

definition split_node ::
  "bheap \<Rightarrow> node_ptr \<Rightarrow> node_ptr \<Rightarrow> nat \<Rightarrow> string \<Rightarrow> (bheap \<times> node_ptr \<times> string) option" where
  "split_node h p right index key =
     do { nd \<leftarrow> nodes h p;
          temp_ps \<leftarrow> those (map (\<lambda>i. if i = index + 1 then Some (PNode right)
                                    else if i < index + 1 then arr_get (pointers nd) i
                                    else arr_get (pointers nd) (i - 1)) [0..<MAX_KEY_NUM + 2]);
          temp_ks \<leftarrow> those (map (\<lambda>i. if i = index then map_option Some (strcpy_key key)
                                    else if i < index then arr_get (keys nd) i
                                    else arr_get (keys nd) (i - 1)) [0..<MAX_KEY_NUM + 1]);
          ps \<leftarrow> copy_loop (pointers nd) 0 temp_ps 0 node_split;
          ks \<leftarrow> copy_loop (keys nd) 0 temp_ks 0 (node_split - 1);
          slot \<leftarrow> arr_get temp_ks (node_split - 1);
          new_key \<leftarrow> slot;
          let h = set_node h p (nd\<lparr>num_keys := node_split - 1, pointers := ps, keys := ks\<rparr>);
          let (h, new_nd) = make_new_node h;
          nps \<leftarrow> copy_loop (pointers blank_node) 0 temp_ps node_split (MAX_KEY_NUM + 2 - node_split);
          nks \<leftarrow> copy_loop (keys blank_node) 0 temp_ks node_split (MAX_KEY_NUM + 1 - node_split);
          let h = set_node h new_nd (blank_node\<lparr>num_keys := MAX_KEY_NUM + 1 - node_split,
                    pointers := nps, keys := nks, parent := parent nd\<rparr>);
          h \<leftarrow> set_parents h (take (MAX_KEY_NUM + 1 - node_split + 1) nps) new_nd;
          Some (h, new_nd, new_key) }"

text \<open>The store of the key and of the right pointer into a parent with room.\<close>

definition insert_into_node :: "node \<Rightarrow> nat \<Rightarrow> string \<Rightarrow> node_ptr \<Rightarrow> node option" where
  "insert_into_node par index key right =
     do { ks \<leftarrow> shift_right (keys par) index (num_keys par);
          ps \<leftarrow> shift_right (pointers par) (index + 1) (num_keys par + 1);
          k \<leftarrow> strcpy_key key;
          ks \<leftarrow> arr_set ks index (Some k);
          ps \<leftarrow> arr_set ps (index + 1) (PNode right);
          Some (par\<lparr>keys := ks, pointers := ps, num_keys := num_keys par + 1\<rparr>) }"

text \<open>The new root over two nodes.\<close>

definition new_root :: "bheap \<Rightarrow> node_ptr \<Rightarrow> node_ptr \<Rightarrow> string \<Rightarrow> (bheap \<times> node_ptr) option" where
  "new_root h left right key =
     do { let (h, temp) = make_new_node h;
          k \<leftarrow> strcpy_key key;
          ps \<leftarrow> arr_set (pointers blank_node) 0 (PNode left);
          ps \<leftarrow> arr_set ps 1 (PNode right);
          ks \<leftarrow> arr_set (keys blank_node) 0 (Some k);
          let h = set_node h temp (blank_node\<lparr>pointers := ps, keys := ks, num_keys := 1\<rparr>);
          l \<leftarrow> nodes h left;
          let h = set_node h left (l\<lparr>parent := Some temp\<rparr>);
          r \<leftarrow> nodes h right;
          let h = set_node h right (r\<lparr>parent := Some temp\<rparr>);
          Some (h, temp) }"

partial_function (option) insert_into_parent ::
  "bheap \<Rightarrow> node_ptr \<Rightarrow> node_ptr \<Rightarrow> node_ptr \<Rightarrow> string \<Rightarrow> (bheap \<times> node_ptr) option" where
  "insert_into_parent h root left right key =
     do { l \<leftarrow> nodes h left;
          case parent l of
            None \<Rightarrow> new_root h left right key
          | Some p \<Rightarrow>
              do { par \<leftarrow> nodes h p;
                   index \<leftarrow> scan_ptrs (pointers par) (PNode left) (num_keys par) 0;
                   if num_keys par < MAX_KEY_NUM then
                     do { par' \<leftarrow> insert_into_node par index key right;
                          Some (set_node h p par', root) }
                   else
                     do { (h', new_nd, new_key) \<leftarrow> split_node h p right index key;
                          insert_into_parent h' root p new_nd new_key } } }"

definition insert_into_node_after_splitting ::
  "bheap \<Rightarrow> node_ptr \<Rightarrow> node_ptr \<Rightarrow> node_ptr \<Rightarrow> nat \<Rightarrow> string \<Rightarrow> (bheap \<times> node_ptr) option" where
  "insert_into_node_after_splitting h root p right index key =
     do { (h', new_nd, new_key) \<leftarrow> split_node h p right index key;
          insert_into_parent h' root p new_nd new_key }"

definition leaf_split :: nat where
  "leaf_split = (MAX_KEY_NUM + 1) div 2"

definition insert_into_leaf_after_splitting ::
  "bheap \<Rightarrow> node_ptr \<Rightarrow> node_ptr \<Rightarrow> nat \<Rightarrow> string \<Rightarrow> ptr \<Rightarrow> (bheap \<times> node_ptr) option" where
  "insert_into_leaf_after_splitting h root leaf index key rec =
     do { nd \<leftarrow> nodes h leaf;
          temp_ps \<leftarrow> those (map (\<lambda>i. if i = index then Some rec
                                    else if i < index then arr_get (pointers nd) i
                                    else arr_get (pointers nd) (i - 1)) [0..<MAX_KEY_NUM + 1]);
          temp_ks \<leftarrow> those (map (\<lambda>i. if i = index then map_option Some (strcpy_key key)
                                    else if i < index then arr_get (keys nd) i
                                    else arr_get (keys nd) (i - 1)) [0..<MAX_KEY_NUM + 1]);
          ps \<leftarrow> copy_loop (pointers nd) 0 temp_ps 0 leaf_split;
          ks \<leftarrow> copy_loop (keys nd) 0 temp_ks 0 leaf_split;
          let h = set_node h leaf (nd\<lparr>num_keys := leaf_split, pointers := ps, keys := ks\<rparr>);
          let (h, new_leaf) = make_new_leaf h;
          nps \<leftarrow> copy_loop (pointers blank_node) 0 temp_ps leaf_split (MAX_KEY_NUM + 1 - leaf_split);
          nks \<leftarrow> copy_loop (keys blank_node) 0 temp_ks leaf_split (MAX_KEY_NUM + 1 - leaf_split);
          old_next \<leftarrow> arr_get ps MAX_KEY_NUM;
          nps \<leftarrow> arr_set nps MAX_KEY_NUM old_next;
          ps \<leftarrow> arr_set ps MAX_KEY_NUM (PNode new_leaf);
          let h = set_node h new_leaf (blank_node\<lparr>is_leaf := True,
                    num_keys := MAX_KEY_NUM + 1 - leaf_split, pointers := nps, keys := nks,
                    parent := parent nd\<rparr>);
          let h = set_node h leaf (nd\<lparr>num_keys := leaf_split, pointers := ps, keys := ks\<rparr>);
          slot \<leftarrow> arr_get nks 0;
          new_key \<leftarrow> slot;
          insert_into_parent h root leaf new_leaf new_key }"

text \<open>\<open>cond\<close> is read after the search loop; when the leaf holds no key the loop never assigns
  it, and its value is whatever the stack holds: the parameter \<open>cond0\<close>.\<close>

definition scan_cond :: "int \<Rightarrow> node \<Rightarrow> string \<Rightarrow> nat \<Rightarrow> int option" where
  "scan_cond cond0 nd key index =
     (if num_keys nd = 0 then Some cond0
      else do { slot \<leftarrow> arr_get (keys nd) (if index < num_keys nd then index else num_keys nd - 1);
                k \<leftarrow> slot; Some (strcmp k key) })"

definition B_plus_tree_insert ::
  "int \<Rightarrow> bheap \<Rightarrow> node_ptr option \<Rightarrow> string \<Rightarrow> file_ptr \<Rightarrow> (bheap \<times> node_ptr option) option" where
  "B_plus_tree_insert cond0 h root key file =
     do { let rec = new_record file;
          leaf \<leftarrow> find_leaf h root key;
          case (root, leaf) of
            (Some r, Some l) \<Rightarrow>
              do { nd \<leftarrow> nodes h l;
                   index \<leftarrow> scan_keys (\<lambda>k. strcmp k key < 0) (keys nd) (num_keys nd) 0;
                   cond \<leftarrow> scan_cond cond0 nd key index;
                   if cond = 0 then Some (h, root)
                   else if num_keys nd < MAX_KEY_NUM then
                     do { ks \<leftarrow> shift_right (keys nd) index (num_keys nd);
                          ps \<leftarrow> shift_right (pointers nd) index (num_keys nd);
                          k \<leftarrow> strcpy_key key;
                          ks \<leftarrow> arr_set ks index (Some k);
                          ps \<leftarrow> arr_set ps index rec;
                          Some (set_node h l (nd\<lparr>keys := ks, pointers := ps,
                                  num_keys := num_keys nd + 1\<rparr>), root) }
                   else do { (h', r') \<leftarrow> insert_into_leaf_after_splitting h r l index key rec;
                             Some (h', Some r') } }
          | _ \<Rightarrow>
              do { let (h, temp) = make_new_leaf h;
                   k \<leftarrow> strcpy_key key;
                   ps \<leftarrow> arr_set (pointers blank_node) 0 rec;
                   ks \<leftarrow> arr_set (keys blank_node) 0 (Some k);
                   Some (set_node h temp (blank_node\<lparr>is_leaf := True, pointers := ps, keys := ks,
                           num_keys := 1\<rparr>), Some temp) } }"

section \<open>Removal\<close>

definition destroy_node :: "bheap \<Rightarrow> node_ptr \<Rightarrow> bheap" where
  "destroy_node h p = h\<lparr>nodes := (nodes h)(p := None)\<rparr>"

definition adjust_root :: "bheap \<Rightarrow> node_ptr \<Rightarrow> (bheap \<times> node_ptr option) option" where
  "adjust_root h root =
     do { nd \<leftarrow> nodes h root;
          if num_keys nd > 0 then Some (h, Some root)
          else if \<not> is_leaf nd then
            do { p \<leftarrow> arr_get (pointers nd) 0;
                 case p of
                   PNode c \<Rightarrow>
                     do { nr \<leftarrow> nodes h c;
                          Some (destroy_node (set_node h c (nr\<lparr>parent := None\<rparr>)) root, Some c) }
                 | _ \<Rightarrow> None }
          else Some (destroy_node h root, None) }"

text \<open>\<open>num_keys--\<close> and the loop bound \<open>num_keys - 1\<close> are only reached with a key to remove; a
  node without keys is a crash here.\<close>

definition remove_entry :: "node \<Rightarrow> nat \<Rightarrow> node option" where
  "remove_entry nd index =
     (if num_keys nd = 0 then None
      else if is_leaf nd then
        do { (ks, i) \<leftarrow> shift_left (keys nd) index (num_keys nd - 1);
             ks \<leftarrow> arr_set ks i None;
             (ps, j) \<leftarrow> shift_left (pointers nd) index (num_keys nd - 1);
             ps \<leftarrow> arr_set ps j Null;
             Some (nd\<lparr>keys := ks, pointers := ps, num_keys := num_keys nd - 1\<rparr>) }
      else if index = 0 then None
      else
        do { (ks, i) \<leftarrow> shift_left (keys nd) (index - 1) (num_keys nd - 1);
             ks \<leftarrow> arr_set ks i None;
             (ps, j) \<leftarrow> shift_left (pointers nd) index (num_keys nd);
             ps \<leftarrow> arr_set ps j Null;
             Some (nd\<lparr>keys := ks, pointers := ps, num_keys := num_keys nd - 1\<rparr>) })"

text \<open>\<open>distribute_nodes\<close>: one entry moves from the neighbour to \<open>nd\<close>.  The three nodes it
  touches (the node, its neighbour, their parent) are distinct.\<close>

definition distribute_right :: "bheap \<Rightarrow> node_ptr \<Rightarrow> node_ptr \<Rightarrow> nat \<Rightarrow> bheap option" where
  "distribute_right h p nb nd_index =
     do { nd \<leftarrow> nodes h p; neighbor \<leftarrow> nodes h nb; pp \<leftarrow> parent nd; par \<leftarrow> nodes h pp;
          oassert (num_keys neighbor > 0);
          ks \<leftarrow> shift_right (keys nd) 0 (num_keys nd);
          ps \<leftarrow> shift_right (pointers nd) 0 (if is_leaf nd then num_keys nd else num_keys nd + 1);
          if \<not> is_leaf nd then
            do { sep \<leftarrow> arr_get (keys par) (nd_index - 1);
                 ks \<leftarrow> arr_set ks 0 sep;
                 q \<leftarrow> arr_get (pointers neighbor) (num_keys neighbor);
                 ps \<leftarrow> arr_set ps 0 q;
                 h \<leftarrow> set_parents h [q] p;
                 nps \<leftarrow> arr_set (pointers neighbor) (num_keys neighbor) Null;
                 k \<leftarrow> arr_get (keys neighbor) (num_keys neighbor - 1);
                 pks \<leftarrow> arr_set (keys par) (nd_index - 1) k;
                 nks \<leftarrow> arr_set (keys neighbor) (num_keys neighbor - 1) None;
                 let h = set_node h pp (par\<lparr>keys := pks\<rparr>);
                 let h = set_node h nb (neighbor\<lparr>keys := nks, pointers := nps,
                           num_keys := num_keys neighbor - 1\<rparr>);
                 Some (set_node h p (nd\<lparr>keys := ks, pointers := ps, num_keys := num_keys nd + 1\<rparr>)) }
          else
            do { k \<leftarrow> arr_get (keys neighbor) (num_keys neighbor - 1);
                 ks \<leftarrow> arr_set ks 0 k;
                 nks \<leftarrow> arr_set (keys neighbor) (num_keys neighbor - 1) None;
                 q \<leftarrow> arr_get (pointers neighbor) (num_keys neighbor - 1);
                 ps \<leftarrow> arr_set ps 0 q;
                 nps \<leftarrow> arr_set (pointers neighbor) (num_keys neighbor - 1) Null;
                 ks0 \<leftarrow> k;
                 old \<leftarrow> arr_get (keys par) (nd_index - 1);
                 oassert (old \<noteq> None);
                 sep \<leftarrow> strcpy_key ks0;
                 pks \<leftarrow> arr_set (keys par) (nd_index - 1) (Some sep);
                 let h = set_node h pp (par\<lparr>keys := pks\<rparr>);
                 let h = set_node h nb (neighbor\<lparr>keys := nks, pointers := nps,
                           num_keys := num_keys neighbor - 1\<rparr>);
                 Some (set_node h p (nd\<lparr>keys := ks, pointers := ps, num_keys := num_keys nd + 1\<rparr>)) } }"

definition distribute_left :: "bheap \<Rightarrow> node_ptr \<Rightarrow> node_ptr \<Rightarrow> bheap option" where
  "distribute_left h p nb =
     do { nd \<leftarrow> nodes h p; neighbor \<leftarrow> nodes h nb; pp \<leftarrow> parent nd; par \<leftarrow> nodes h pp;
          oassert (num_keys neighbor > 0);
          if \<not> is_leaf nd then
            do { sep \<leftarrow> arr_get (keys par) 0;
                 ks \<leftarrow> arr_set (keys nd) (num_keys nd) sep;
                 q \<leftarrow> arr_get (pointers neighbor) 0;
                 ps \<leftarrow> arr_set (pointers nd) (num_keys nd + 1) q;
                 h \<leftarrow> set_parents h [q] p;
                 k \<leftarrow> arr_get (keys neighbor) 0;
                 pks \<leftarrow> arr_set (keys par) 0 k;
                 (nks, i) \<leftarrow> shift_left (keys neighbor) 0 (num_keys neighbor - 1);
                 nks \<leftarrow> arr_set nks i None;
                 (nps, _) \<leftarrow> shift_left (pointers neighbor) 0 (num_keys neighbor);
                 let h = set_node h pp (par\<lparr>keys := pks\<rparr>);
                 let h = set_node h nb (neighbor\<lparr>keys := nks, pointers := nps,
                           num_keys := num_keys neighbor - 1\<rparr>);
                 Some (set_node h p (nd\<lparr>keys := ks, pointers := ps, num_keys := num_keys nd + 1\<rparr>)) }
          else
            do { k \<leftarrow> arr_get (keys neighbor) 0;
                 ks \<leftarrow> arr_set (keys nd) (num_keys nd) k;
                 q \<leftarrow> arr_get (pointers neighbor) 0;
                 ps \<leftarrow> arr_set (pointers nd) (num_keys nd) q;
                 slot \<leftarrow> arr_get (keys neighbor) 1;
                 k1 \<leftarrow> slot;
                 old \<leftarrow> arr_get (keys par) 0;
                 oassert (old \<noteq> None);
                 sep \<leftarrow> strcpy_key k1;
                 pks \<leftarrow> arr_set (keys par) 0 (Some sep);
                 (nks, i) \<leftarrow> shift_left (keys neighbor) 0 (num_keys neighbor - 1);
                 nks \<leftarrow> arr_set nks i None;
                 (nps, j) \<leftarrow> shift_left (pointers neighbor) 0 (num_keys neighbor - 1);
                 nps \<leftarrow> arr_set nps j Null;
                 let h = set_node h pp (par\<lparr>keys := pks\<rparr>);
                 let h = set_node h nb (neighbor\<lparr>keys := nks, pointers := nps,
                           num_keys := num_keys neighbor - 1\<rparr>);
                 Some (set_node h p (nd\<lparr>keys := ks, pointers := ps, num_keys := num_keys nd + 1\<rparr>)) } }"

definition distribute_nodes :: "bheap \<Rightarrow> node_ptr \<Rightarrow> node_ptr \<Rightarrow> nat \<Rightarrow> bheap option" where
  "distribute_nodes h p nb nd_index =
     (if nd_index \<noteq> 0 then distribute_right h p nb nd_index else distribute_left h p nb)"

text \<open>\<open>coalesce_nodes\<close> up to its call of \<open>delete_entry\<close>: the heap, the parent and the index of
  the entry to delete there.\<close>

definition merge_nodes ::
  "bheap \<Rightarrow> node_ptr \<Rightarrow> node_ptr \<Rightarrow> nat \<Rightarrow> (bheap \<times> node_ptr \<times> nat) option" where
  "merge_nodes h p0 nb0 nd_index0 =
     do { let (p, nb, nd_index) = (if nd_index0 = 0 then (nb0, p0, 1) else (p0, nb0, nd_index0));
          nd \<leftarrow> nodes h p; neighbor \<leftarrow> nodes h nb; pp \<leftarrow> parent nd; par \<leftarrow> nodes h pp;
          let start = num_keys neighbor;
          if is_leaf nd then
            do { ks \<leftarrow> copy_loop (keys neighbor) start (keys nd) 0 (num_keys nd);
                 ps \<leftarrow> copy_loop (pointers neighbor) start (pointers nd) 0 (num_keys nd);
                 nx \<leftarrow> arr_get (pointers nd) MAX_KEY_NUM;
                 ps \<leftarrow> arr_set ps MAX_KEY_NUM nx;
                 let h = set_node h nb (neighbor\<lparr>keys := ks, pointers := ps,
                           num_keys := start + num_keys nd\<rparr>);
                 Some (destroy_node h p, pp, nd_index) }
          else
            do { slot \<leftarrow> arr_get (keys par) (nd_index - 1);
                 sep \<leftarrow> slot;
                 sep \<leftarrow> strcpy_key sep;
                 ks \<leftarrow> arr_set (keys neighbor) start (Some sep);
                 ks \<leftarrow> copy_loop ks (start + 1) (keys nd) 0 (num_keys nd);
                 ps \<leftarrow> copy_loop (pointers neighbor) (start + 1) (pointers nd) 0 (num_keys nd + 1);
                 let h = set_node h nb (neighbor\<lparr>keys := ks, pointers := ps,
                           num_keys := start + num_keys nd + 1\<rparr>);
                 h \<leftarrow> set_parents h (take (start + num_keys nd + 2) ps) nb;
                 Some (destroy_node h p, pp, nd_index) } }"

partial_function (option) delete_entry ::
  "bheap \<Rightarrow> node_ptr \<Rightarrow> node_ptr \<Rightarrow> nat \<Rightarrow> (bheap \<times> node_ptr option) option" where
  "delete_entry h root p index =
     do { nd \<leftarrow> nodes h p;
          nd \<leftarrow> remove_entry nd index;
          let h = set_node h p nd;
          if p = root then adjust_root h p
          else
            do { let min_keys = (if is_leaf nd then (MAX_KEY_NUM + 1) div 2 else MAX_KEY_NUM div 2);
                 if num_keys nd \<ge> min_keys then Some (h, Some root)
                 else
                   do { nd_index \<leftarrow> get_node_index h p;
                        pp \<leftarrow> parent nd; par \<leftarrow> nodes h pp;
                        q \<leftarrow> arr_get (pointers par) (if nd_index = 0 then 1 else nd_index - 1);
                        case q of
                          PNode nb \<Rightarrow>
                            do { neighbor \<leftarrow> nodes h nb;
                                 let cap = (if is_leaf nd then MAX_KEY_NUM else MAX_KEY_NUM - 1);
                                 if num_keys neighbor + num_keys nd \<le> cap then
                                   do { (h, pp', i) \<leftarrow> merge_nodes h p nb nd_index;
                                        delete_entry h root pp' i }
                                 else
                                   do { h \<leftarrow> distribute_nodes h p nb nd_index; Some (h, Some root) } }
                        | _ \<Rightarrow> None } } }"

definition coalesce_nodes ::
  "bheap \<Rightarrow> node_ptr \<Rightarrow> node_ptr \<Rightarrow> node_ptr \<Rightarrow> nat \<Rightarrow> (bheap \<times> node_ptr option) option" where
  "coalesce_nodes h root p nb nd_index =
     do { (h, pp, i) \<leftarrow> merge_nodes h p nb nd_index; delete_entry h root pp i }"

definition B_plus_tree_remove ::
  "bheap \<Rightarrow> node_ptr option \<Rightarrow> string \<Rightarrow> (bheap \<times> node_ptr option) option" where
  "B_plus_tree_remove h root key =
     do { leaf \<leftarrow> find_leaf h root key;
          case (root, leaf) of
            (Some r, Some l) \<Rightarrow>
              do { nd \<leftarrow> nodes h l;
                   i \<leftarrow> scan_keys (\<lambda>k. strcmp k key \<noteq> 0) (keys nd) (num_keys nd) 0;
                   if i = num_keys nd then Some (h, root) else delete_entry h r l i }
          | _ \<Rightarrow> Some (h, root) }"

section \<open>Whole-tree operations\<close>

definition B_plus_tree_initial :: "bheap \<Rightarrow> bheap \<times> node_ptr" where
  "B_plus_tree_initial h = make_new_leaf h"

text \<open>\<open>while (!p->is_leaf) p = p->pointers[0];\<close>\<close>

partial_function (option) leftmost :: "bheap \<Rightarrow> node_ptr \<Rightarrow> node_ptr option" where
  "leftmost h p =
     do { nd \<leftarrow> nodes h p;
          if is_leaf nd then Some p
          else do { q \<leftarrow> arr_get (pointers nd) 0;
                    case q of PNode c \<Rightarrow> leftmost h c | _ \<Rightarrow> None } }"

partial_function (option) delete_B_plus_tree :: "bheap \<Rightarrow> node_ptr option \<Rightarrow> bheap option" where
  "delete_B_plus_tree h root =
     (case root of
        None \<Rightarrow> Some h
      | Some r \<Rightarrow>
          do { l \<leftarrow> leftmost h r;
               nd \<leftarrow> nodes h l;
               if num_keys nd = 0 then Some h
               else do { slot \<leftarrow> arr_get (keys nd) 0;
                         k \<leftarrow> slot;
                         (h', root') \<leftarrow> B_plus_tree_remove h root k;
                         delete_B_plus_tree h' root' } })"

text \<open>The file of a record slot; a NULL record is dereferenced by the traversals.\<close>

definition rec_file :: "ptr \<Rightarrow> file_ptr option" where
  "rec_file p = (case p of PRec f \<Rightarrow> Some f | _ \<Rightarrow> None)"

text \<open>The next leaf: the last pointer of a leaf, NULL at the end of the list.\<close>

definition next_leaf :: "node \<Rightarrow> node_ptr option option" where
  "next_leaf nd =
     do { p \<leftarrow> arr_get (pointers nd) MAX_KEY_NUM;
          case p of Null \<Rightarrow> Some None | PNode n \<Rightarrow> Some (Some n) | PRec _ \<Rightarrow> None }"

text \<open>\<open>traverse_leaves\<close>: the files its callback is called with, in order.\<close>

partial_function (option) walk_leaves :: "bheap \<Rightarrow> node_ptr option \<Rightarrow> file_ptr list option" where
  "walk_leaves h p =
     (case p of
        None \<Rightarrow> Some []
      | Some l \<Rightarrow>
          do { nd \<leftarrow> nodes h l;
               fs \<leftarrow> those (map rec_file (take (num_keys nd) (pointers nd)));
               n \<leftarrow> next_leaf nd;
               rest \<leftarrow> walk_leaves h n;
               Some (fs @ rest) })"

definition traverse_leaves :: "bheap \<Rightarrow> node_ptr option \<Rightarrow> file_ptr list option" where
  "traverse_leaves h root =
     (case root of None \<Rightarrow> Some [] | Some r \<Rightarrow> do { l \<leftarrow> leftmost h r; walk_leaves h (Some l) })"

definition B_plus_tree_get_first :: "bheap \<Rightarrow> node_ptr option \<Rightarrow> file_ptr option option" where
  "B_plus_tree_get_first h root =
     (case root of
        None \<Rightarrow> Some None
      | Some r \<Rightarrow>
          do { l \<leftarrow> leftmost h r; nd \<leftarrow> nodes h l; p \<leftarrow> arr_get (pointers nd) 0;
               case p of PRec f \<Rightarrow> Some (Some f) | Null \<Rightarrow> Some None | PNode _ \<Rightarrow> None })"

text \<open>The loop over one leaf's records: the record it returns, the one after \<open>current\<close>, if any,
  and the flag \<open>find\<close>.\<close>

fun next_in_leaf :: "file_ptr \<Rightarrow> int \<Rightarrow> file_ptr list \<Rightarrow> file_ptr option \<times> int" where
  "next_in_leaf current found [] = (None, found)"
| "next_in_leaf current found (f # fs) =
     (if found = 1 then (Some f, found)
      else next_in_leaf current (if f = current then 1 else found) fs)"

partial_function (option) walk_next ::
  "bheap \<Rightarrow> file_ptr \<Rightarrow> int \<Rightarrow> node_ptr \<Rightarrow> file_ptr option option" where
  "walk_next h current found p =
     do { nd \<leftarrow> nodes h p;
          fs \<leftarrow> those (map rec_file (take (num_keys nd) (pointers nd)));
          case fst (next_in_leaf current found fs) of
            Some f \<Rightarrow> Some (Some f)
          | None \<Rightarrow>
              do { n \<leftarrow> next_leaf nd;
                   case n of
                     None \<Rightarrow> Some None
                   | Some q \<Rightarrow> walk_next h current (snd (next_in_leaf current found fs)) q } }"

definition B_plus_tree_get_next ::
  "bheap \<Rightarrow> node_ptr option \<Rightarrow> file_ptr \<Rightarrow> file_ptr option option" where
  "B_plus_tree_get_next h root current =
     (case root of
        None \<Rightarrow> Some None
      | Some r \<Rightarrow> do { l \<leftarrow> leftmost h r; walk_next h current 0 l })"

definition B_plus_tree_empty :: "bheap \<Rightarrow> node_ptr option \<Rightarrow> bool option" where
  "B_plus_tree_empty h root = do { r \<leftarrow> root; nd \<leftarrow> nodes h r; Some (num_keys nd = 0) }"

declare find_leaf_loop.simps [code] insert_into_parent.simps [code] delete_entry.simps [code]
  leftmost.simps [code] walk_leaves.simps [code] walk_next.simps [code] delete_B_plus_tree.simps [code]

definition empty_heap :: bheap where
  "empty_heap = \<lparr>nodes = Map.empty, next_node = 0\<rparr>"

end
