(* ===== verification/Bplus_Repr.thy ===== *)
theory Bplus_Repr
  imports Bplus_Tree "HOL-Library.Multiset"
begin

text \<open>
  What a B+ tree heap stands for.  A finite tree with the node addresses in it
  (\<open>btree\<close>) is related to the heap by \<open>tree_at\<close>; a one-hole context (\<open>frame list\<close>, innermost
  frame first) by \<open>ctx_at\<close>.  The order of a tree is read off its flattening: the entry keys
  and the separators from left to right.  Splitting, merging and redistributing nodes change
  the flattening locally or not at all, which is what makes the proofs of the operations
  short.  The first section evaluates the array loops.
\<close>

section \<open>Array loops\<close>

lemma shift_right_spec:
  "lo \<le> n \<Longrightarrow> n < length xs \<Longrightarrow>
   \<exists>ys. shift_right xs lo n = Some ys \<and> length ys = length xs \<and>
     (\<forall>j < length xs. ys ! j = (if lo < j \<and> j \<le> n then xs ! (j - 1) else xs ! j))"
proof (induction n arbitrary: xs)
  case 0
  then show ?case by auto
next
  case (Suc n)
  show ?case
  proof (cases "lo < Suc n")
    case True
    let ?xs = "xs[Suc n := xs ! n]"
    obtain ys where ys: "shift_right ?xs lo n = Some ys" "length ys = length xs"
      "\<forall>j < length xs. ys ! j = (if lo < j \<and> j \<le> n then ?xs ! (j - 1) else ?xs ! j)"
      using Suc.IH [of ?xs] Suc.prems True by auto
    have "shift_right xs lo (Suc n) = Some ys"
      using ys(1) True Suc.prems by (simp add: crash_simps)
    moreover have "ys ! j = (if lo < j \<and> j \<le> Suc n then xs ! (j - 1) else xs ! j)" if "j < length xs" for j
      using ys(3) that Suc.prems True by (cases "j = Suc n") (auto simp: nth_list_update)
    ultimately show ?thesis using ys(2) by auto
  next
    case False
    then show ?thesis using Suc.prems by auto
  qed
qed

declare shift_right.simps(2) [simp del]

text \<open>Opening a gap at \<open>i\<close> in the first \<open>n\<close> entries and storing there; the entries are the
  images of a list \<open>es\<close>.\<close>

lemma shift_right_map:
  assumes "take (length es) xs = map g es" "i \<le> length es" "length es < length xs"
  obtains ys where "shift_right xs i (length es) = Some ys" "length ys = length xs"
    "\<forall>e. take (Suc (length es)) (ys[i := g e]) = map g (take i es @ e # drop i es)"
    "\<forall>j. length es < j \<and> j < length xs \<longrightarrow> ys ! j = xs ! j"
proof -
  obtain ys where ys: "shift_right xs i (length es) = Some ys" "length ys = length xs"
    "\<forall>j < length xs. ys ! j = (if i < j \<and> j \<le> length es then xs ! (j - 1) else xs ! j)"
    using shift_right_spec [OF assms(2,3)] by blast
  have nth: "xs ! j = g (es ! j)" if "j < length es" for j
    using that assms(1) by (metis nth_map nth_take)
  have "take (Suc (length es)) (ys[i := g e]) = map g (take i es @ e # drop i es)" for e
    using assms ys(2,3) nth
    by (intro nth_equalityI) (auto simp: nth_append nth_list_update nth_Cons' not_less)
  then show ?thesis using that [OF ys(1,2)] ys(3) by auto
qed

lemma shift_left_spec:
  "i \<le> m \<Longrightarrow> m < length xs \<Longrightarrow>
   \<exists>ys. shift_left xs i m = Some (ys, m) \<and> length ys = length xs \<and>
     (\<forall>j < length xs. ys ! j = (if i \<le> j \<and> j < m then xs ! Suc j else xs ! j))"
proof (induction xs i m rule: shift_left.induct)
  case (1 xs i m)
  show ?case
  proof (cases "i < m")
    case True
    let ?xs = "xs[i := xs ! Suc i]"
    obtain ys where ys: "shift_left ?xs (Suc i) m = Some (ys, m)" "length ys = length xs"
      "\<forall>j < length xs. ys ! j = (if Suc i \<le> j \<and> j < m then ?xs ! Suc j else ?xs ! j)"
      using "1.IH" [OF True, of "xs ! Suc i" ?xs] "1.prems" True by auto
    moreover have "ys ! j = (if i \<le> j \<and> j < m then xs ! Suc j else xs ! j)" if "j < length xs" for j
      using ys(3) that "1.prems" True by (cases "j = i") (auto simp: nth_list_update)
    ultimately show ?thesis using True "1.prems"
      by (subst shift_left.simps) (auto simp: crash_simps)
  next
    case False
    then show ?thesis using "1.prems" by (subst shift_left.simps) auto
  qed
qed

text \<open>Closing the gap left by entry \<open>i\<close> of the first \<open>m + 1\<close>.\<close>

lemma shift_left_map:
  assumes "take (length es) xs = map g es" "i < length es" "length es \<le> length xs"
  obtains ys where "shift_left xs i (length es - 1) = Some (ys, length es - 1)" "length ys = length xs"
    "take (length es - 1) ys = map g (take i es @ drop (Suc i) es)"
    "\<forall>j. length es \<le> j \<and> j < length xs \<longrightarrow> ys ! j = xs ! j"
proof -
  let ?m = "length es - 1"
  have m: "i \<le> ?m" "?m < length xs" using assms by auto
  obtain ys where ys: "shift_left xs i ?m = Some (ys, ?m)" "length ys = length xs"
    "\<forall>j < length xs. ys ! j = (if i \<le> j \<and> j < ?m then xs ! Suc j else xs ! j)"
    using shift_left_spec [OF m] by blast
  have nth: "xs ! j = g (es ! j)" if "j < length es" for j
    using that assms(1) by (metis nth_map nth_take)
  have "take ?m ys = map g (take i es @ drop (Suc i) es)"
    using assms ys(2,3) nth by (intro nth_equalityI) (auto simp: nth_append)
  moreover have "ys ! j = xs ! j" if "length es \<le> j" "j < length xs" for j
    using ys(3) that assms(2) by auto
  ultimately show ?thesis using that [OF ys(1,2)] by blast
qed

lemma copy_loop_spec:
  "di + n \<le> length dst \<Longrightarrow> si + n \<le> length src \<Longrightarrow>
   copy_loop dst di src si n = Some (take di dst @ take n (drop si src) @ drop (di + n) dst)"
proof (induction n arbitrary: dst di si)
  case 0
  then show ?case by simp
next
  case (Suc n)
  have "drop si src = src ! si # drop (Suc si) src"
    using Suc.prems by (simp add: Cons_nth_drop_Suc)
  then have src: "take (Suc n) (drop si src) = src ! si # take n (drop (Suc si) src)" by simp
  have dst: "take (Suc di) (dst[di := v]) = take di dst @ [v]" for v
    using Suc.prems by (simp add: take_Suc_conv_app_nth)
  have "copy_loop dst di src si (Suc n) = copy_loop (dst[di := src ! si]) (Suc di) src (Suc si) n"
    using Suc.prems by (simp add: crash_simps)
  also have "\<dots> = Some (take di dst @ (src ! si # take n (drop (Suc si) src)) @ drop (di + Suc n) dst)"
    using Suc.IH [of "Suc di" "dst[di := src ! si]" "Suc si"] Suc.prems dst by simp
  finally show ?case unfolding src .
qed

declare copy_loop.simps(2) [simp del]

lemma copy_front:
  "n \<le> length xs \<Longrightarrow> n \<le> length es \<Longrightarrow>
   copy_loop xs 0 (map g es) 0 n = Some (map g (take n es) @ drop n xs)"
  by (simp add: copy_loop_spec take_map)

lemma copy_back:
  "si + n = length es \<Longrightarrow> n \<le> length xs \<Longrightarrow>
   copy_loop xs 0 (map g es) si n = Some (map g (drop si es) @ drop n xs)"
  by (simp add: copy_loop_spec drop_map)

lemma node_split_eq: "node_split = 3"
  by (simp add: node_split_def MAX_KEY_NUM_def)

lemma leaf_split_eq: "leaf_split = 2"
  by (simp add: leaf_split_def MAX_KEY_NUM_def)

lemma blank_arrays:
  "length (pointers blank_node) = 5" "length (keys blank_node) = 4"
  "drop 3 (pointers blank_node) = [Null, Null]" "drop 2 (keys blank_node) = [None, None]"
  "drop 3 (keys blank_node) = [None]"
  by (simp_all add: blank_node_def MAX_KEY_NUM_def eval_nat_numeral)

lemma scan_keys_spec:
  assumes "take n ks = map Some kl" "length kl = n"
  shows "scan_keys P ks n 0 = Some (length (takeWhile P kl))"
proof -
  have nth: "ks ! i = Some (kl ! i)" "i < length ks" if "i < n" for i
    using assms that by (metis nth_map nth_take, metis length_map length_take min.strict_boundedE)
  have "scan_keys P ks n i = Some (i + length (takeWhile P (drop i kl)))" if "i \<le> n" for i
    using that
  proof (induction "n - i" arbitrary: i)
    case 0
    then show ?case using assms(2) by (subst scan_keys.simps) simp
  next
    case (Suc m)
    then have i: "i < n" by simp
    then have "drop i kl = kl ! i # drop (Suc i) kl" using assms(2) by (simp add: Cons_nth_drop_Suc)
    then show ?case using Suc.hyps(1) [of "Suc i"] Suc.hyps(2) i nth [OF i]
      by (subst scan_keys.simps) (simp add: crash_simps)
  qed
  from this [of 0] show ?thesis by simp
qed

lemma scan_ptrs_spec:
  assumes "n < length ps" "i \<le> n" "ps ! i = p" "\<And>j. j < i \<Longrightarrow> ps ! j \<noteq> p"
  shows "scan_ptrs ps p n 0 = Some i"
proof -
  have "scan_ptrs ps p n k = Some i" if "k \<le> i" for k
    using that
  proof (induction "i - k" arbitrary: k)
    case 0
    then show ?case using assms by (subst scan_ptrs.simps) (auto simp: crash_simps)
  next
    case (Suc m)
    then show ?case using assms by (subst scan_ptrs.simps) (auto simp: crash_simps)
  qed
  from this [of 0] show ?thesis by simp
qed

text \<open>The temporary arrays of the splits: the first \<open>n\<close> entries with one inserted at \<open>i\<close>.\<close>

lemma those_map_Some: "(\<And>x. x \<in> set xs \<Longrightarrow> f x = Some (g x)) \<Longrightarrow> those (map f xs) = Some (map g xs)"
  by (induction xs) auto

lemma temp_array:
  assumes "take (length es) xs = map g es" "i \<le> length es" "length es \<le> length xs"
  shows "those (map (\<lambda>j. if j = i then Some (g e) else if j < i then arr_get xs j else arr_get xs (j - 1))
           [0..<Suc (length es)]) = Some (map g (take i es @ e # drop i es))"
proof -
  let ?g = "\<lambda>j. if j = i then g e else if j < i then xs ! j else xs ! (j - 1)"
  have nth: "xs ! j = g (es ! j)" if "j < length es" for j
    using that assms(1) by (metis nth_map nth_take)
  have "those (map (\<lambda>j. if j = i then Some (g e) else if j < i then arr_get xs j else arr_get xs (j - 1))
      [0..<Suc (length es)]) = Some (map ?g [0..<Suc (length es)])"
    using assms by (intro those_map_Some) (auto simp: crash_simps)
  also have "map ?g [0..<Suc (length es)] = map g (take i es @ e # drop i es)"
    using assms nth by (intro nth_equalityI) (auto simp: nth_append nth_Cons' simp del: upt_Suc)
  finally show ?thesis .
qed

section \<open>Trees with addresses\<close>

text \<open>A leaf carries its address, its entries and its \<open>next\<close> slot; an inner node its address,
  children and separators.\<close>

datatype btree = Leaf node_ptr "(string \<times> file_ptr) list" ptr | Inner node_ptr "btree list" "string list"

primrec addr :: "btree \<Rightarrow> node_ptr" where
  "addr (Leaf a es nx) = a"
| "addr (Inner a ts ks) = a"

text \<open>The flattening: entries and separators from left to right.\<close>

datatype mark = E string file_ptr | S string

primrec mkey :: "mark \<Rightarrow> string" where
  "mkey (E k v) = k"
| "mkey (S k) = k"

fun ord :: "mark \<Rightarrow> mark \<Rightarrow> bool" where
  "ord (E a _) m = (a < mkey m)"
| "ord (S a) m = (a \<le> mkey m)"

fun weave :: "mark list list \<Rightarrow> string list \<Rightarrow> mark list" where
  "weave [] ks = []"
| "weave (xs # xss) [] = xs @ weave xss []"
| "weave (xs # xss) (k # ks) = xs @ S k # weave xss ks"

fun flat :: "btree \<Rightarrow> mark list" where
  "flat (Leaf a es nx) = map (\<lambda>(k, v). E k v) es"
| "flat (Inner a ts ks) = weave (map flat ts) ks"

fun ents :: "mark list \<Rightarrow> (string \<times> file_ptr) list" where
  "ents [] = []"
| "ents (E k v # ms) = (k, v) # ents ms"
| "ents (S k # ms) = ents ms"

abbreviation entries :: "btree \<Rightarrow> (string \<times> file_ptr) list" where
  "entries t \<equiv> ents (flat t)"

abbreviation ordered :: "mark list \<Rightarrow> bool" where
  "ordered ms \<equiv> sorted_wrt ord ms"

definition keys_fit :: "mark list \<Rightarrow> bool" where
  "keys_fit ms = (\<forall>m \<in> set ms. length (mkey m) < MAX_KEY_LEN)"

text \<open>The leaves with their \<open>next\<close> slots, and that these link them in order.\<close>

fun leaves :: "btree \<Rightarrow> (node_ptr \<times> (string \<times> file_ptr) list \<times> ptr) list" where
  "leaves (Leaf a es nx) = [(a, es, nx)]"
| "leaves (Inner a ts ks) = concat (map leaves ts)"

fun linked :: "(node_ptr \<times> 'e \<times> ptr) list \<Rightarrow> bool" where
  "linked [] = True"
| "linked [(a, e, nx)] = (nx = Null)"
| "linked ((a, e, nx) # (b, e', nx') # ls) = (nx = PNode b \<and> linked ((b, e', nx') # ls))"

text \<open>Height and occupancy: the top node holds at least \<open>m\<close> keys, every node below it at
  least two, every node at most four, all leaves at the same depth.\<close>

fun wft :: "nat \<Rightarrow> nat \<Rightarrow> btree \<Rightarrow> bool" where
  "wft m 0 (Leaf a es nx) = (m \<le> length es \<and> length es \<le> MAX_KEY_NUM)"
| "wft m (Suc n) (Inner a ts ks) =
     (length ts = Suc (length ks) \<and> m \<le> length ks \<and> length ks \<le> MAX_KEY_NUM \<and>
      (\<forall>t \<in> set ts. wft 2 n t))"
| "wft m _ _ = False"

lemma wft_mono: "wft m n t \<Longrightarrow> m' \<le> m \<Longrightarrow> wft m' n t"
  by (cases "(m, n, t)" rule: wft.cases) auto

section \<open>Order\<close>

lemma ord_E_iff: "ord m (E k v) \<longleftrightarrow> ord m (S k)"
  by (cases m) auto

lemma ord_weaken: "ord (E k v) m \<Longrightarrow> ord (S k) m"
  by auto

text \<open>A separator equal to an entry's key may stand right before that entry.\<close>

lemma ordered_sep: "ordered (xs @ E k v # ys) \<Longrightarrow> ordered (xs @ S k # E k v # ys)"
  by (auto simp: sorted_wrt_append ord_E_iff ord_weaken)

lemma ordered_drop_sep: "ordered (xs @ S k # ys) \<Longrightarrow> ordered (xs @ ys)"
  by (auto simp: sorted_wrt_append)

lemma ents_append [simp]: "ents (xs @ ys) = ents xs @ ents ys"
  by (induction xs rule: ents.induct) auto

lemma ents_map_E [simp]: "ents (map (\<lambda>(k, v). E k v) es) = es"
  by (induction es) auto

lemma set_ents: "(k, v) \<in> set (ents ms) \<longleftrightarrow> E k v \<in> set ms"
  by (induction ms rule: ents.induct) auto

lemma ents_sorted: "ordered ms \<Longrightarrow> sorted_wrt (<) (map fst (ents ms))"
  by (induction ms rule: ents.induct) (force simp: set_ents)+

lemma weave_append:
  "length xss = length ks \<Longrightarrow> weave (xss @ yss) (ks @ ls) = weave xss ks @ weave yss ls"
  by (induction xss ks rule: list_induct2) auto

lemma weave_Cons_Cons [simp]: "length xss = length ks \<Longrightarrow> weave (xss @ [x]) ks = weave xss ks @ x"
  using weave_append [of xss ks "[x]" "[]"] by simp

lemma weave_split:
  assumes "length xss = Suc (length ks)"
  shows "weave (xss @ yss) (ks @ k # ls) = weave xss ks @ S k # weave yss ls"
proof -
  obtain xs x where x: "xss = xs @ [x]" "length xs = length ks"
    using assms by (cases xss rule: rev_cases) auto
  then show ?thesis using weave_append [of xs ks "x # yss" "k # ls"] by simp
qed

lemma keys_fit_simps [simp]:
  "keys_fit []" "keys_fit (m # ms) \<longleftrightarrow> length (mkey m) < MAX_KEY_LEN \<and> keys_fit ms"
  "keys_fit (xs @ ys) \<longleftrightarrow> keys_fit xs \<and> keys_fit ys"
  by (auto simp: keys_fit_def)

section \<open>Contexts\<close>

text \<open>A frame is an inner node with one child missing: its address, the children and
  separators to the left, the separators and children to the right.\<close>

type_synonym frame = "node_ptr \<times> btree list \<times> string list \<times> string list \<times> btree list"

fun fill :: "frame list \<Rightarrow> btree \<Rightarrow> btree" where
  "fill [] t = t"
| "fill ((a, ls, kl, kr, rs) # c) t = fill c (Inner a (ls @ t # rs) (kl @ kr))"

fun par_of :: "frame list \<Rightarrow> node_ptr option" where
  "par_of [] = None"
| "par_of ((a, ls, kl, kr, rs) # c) = Some a"

fun preF :: "frame list \<Rightarrow> mark list" where
  "preF [] = []"
| "preF ((a, ls, kl, kr, rs) # c) = preF c @ weave (map flat ls) kl"

text \<open>Separators first: what follows the hole in a node.\<close>

fun weave_after :: "string list \<Rightarrow> mark list list \<Rightarrow> mark list" where
  "weave_after (k # ks) (xs # xss) = S k # xs @ weave_after ks xss"
| "weave_after _ _ = []"

fun postF :: "frame list \<Rightarrow> mark list" where
  "postF [] = []"
| "postF ((a, ls, kl, kr, rs) # c) = weave_after kr (map flat rs) @ postF c"

fun preL :: "frame list \<Rightarrow> (node_ptr \<times> (string \<times> file_ptr) list \<times> ptr) list" where
  "preL [] = []"
| "preL ((a, ls, kl, kr, rs) # c) = preL c @ concat (map leaves ls)"

fun postL :: "frame list \<Rightarrow> (node_ptr \<times> (string \<times> file_ptr) list \<times> ptr) list" where
  "postL [] = []"
| "postL ((a, ls, kl, kr, rs) # c) = concat (map leaves rs) @ postL c"

text \<open>A context whose hole takes a tree of height \<open>n\<close>; the outermost frame is the root.\<close>

fun wfc :: "nat \<Rightarrow> frame list \<Rightarrow> bool" where
  "wfc n [] = True"
| "wfc n ((a, ls, kl, kr, rs) # c) =
     (length kl = length ls \<and> length kr = length rs \<and>
      (if c = [] then 1 else 2) \<le> length kl + length kr \<and> length kl + length kr \<le> MAX_KEY_NUM \<and>
      (\<forall>t \<in> set ls \<union> set rs. wft 2 n t) \<and> wfc (Suc n) c)"

lemma weave_weave_after:
  "length ks = length xss \<Longrightarrow> weave (x # xss) ks = x @ weave_after ks xss"
  by (induction ks xss arbitrary: x rule: list_induct2) auto

lemma weave_hole:
  "length kl = length ls \<Longrightarrow> length kr = length rs \<Longrightarrow>
   weave (ls @ x # rs) (kl @ kr) = weave ls kl @ x @ weave_after kr rs"
  by (simp add: weave_append weave_weave_after)

lemma flat_fill: "wfc n c \<Longrightarrow> flat (fill c t) = preF c @ flat t @ postF c"
  by (induction c t arbitrary: n rule: fill.induct) (auto simp: weave_hole)

lemma addr_fill: "addr t = addr u \<Longrightarrow> addr (fill c t) = addr (fill c u)"
proof (induction c arbitrary: t u)
  case (Cons f c)
  then show ?case by (cases f) auto
qed auto

lemma leaves_fill: "leaves (fill c t) = preL c @ leaves t @ postL c"
  by (induction c t rule: fill.induct) auto

text \<open>A tree in a context is a well-formed root exactly when it and the context fit.\<close>

definition wf_root :: "btree \<Rightarrow> bool" where
  "wf_root t = (\<exists>n. wft (if n = 0 then 0 else 1) n t)"

lemma wf_root_fill:
  assumes "wfc n c" "wft (if c = [] then if n = 0 then 0 else 1 else 2) n t"
  shows "wf_root (fill c t)"
  using assms
proof (induction c t arbitrary: n rule: fill.induct)
  case (1 t)
  then have "wft (if n = 0 then 0 else 1) n t" by simp
  then show ?case unfolding wf_root_def fill.simps by (rule exI)
next
  case (2 a ls kl kr rs c t)
  then show ?case using "2.IH" [of "Suc n"] by (auto split: if_splits)
qed

section \<open>Trees in the heap\<close>

text \<open>What a node holds in its live slots.\<close>

datatype desc = LeafD "(string \<times> file_ptr) list" ptr | InnerD "node_ptr list" "string list"

fun desc_ok :: "desc \<Rightarrow> node_ptr option \<Rightarrow> node \<Rightarrow> bool" where
  "desc_ok (LeafD es nx) p nd =
     (is_leaf nd \<and> num_keys nd = length es \<and> length es \<le> MAX_KEY_NUM \<and>
      length (keys nd) = MAX_KEY_NUM \<and> length (pointers nd) = Suc MAX_KEY_NUM \<and>
      take (length es) (keys nd) = map (Some \<circ> fst) es \<and>
      take (length es) (pointers nd) = map (PRec \<circ> snd) es \<and>
      pointers nd ! MAX_KEY_NUM = nx \<and> (es = [] \<longrightarrow> pointers nd ! 0 = Null) \<and> parent nd = p)"
| "desc_ok (InnerD as ks) p nd =
     (\<not> is_leaf nd \<and> num_keys nd = length ks \<and> length ks \<le> MAX_KEY_NUM \<and>
      length as = Suc (length ks) \<and>
      length (keys nd) = MAX_KEY_NUM \<and> length (pointers nd) = Suc MAX_KEY_NUM \<and>
      take (length ks) (keys nd) = map Some ks \<and>
      take (Suc (length ks)) (pointers nd) = map PNode as \<and> parent nd = p)"

type_synonym cell = "node_ptr \<times> desc \<times> node_ptr option"

text \<open>The heap holds the cells, at distinct allocated addresses.\<close>

definition hp :: "bheap \<Rightarrow> cell multiset \<Rightarrow> bool" where
  "hp h M \<longleftrightarrow> (\<forall>(a, d, p) \<in># M. (\<exists>nd. nodes h a = Some nd \<and> desc_ok d p nd) \<and> a < next_node h) \<and>
     (\<forall>a. count (image_mset fst M) a \<le> 1)"

primrec desc_of :: "btree \<Rightarrow> desc" where
  "desc_of (Leaf a es nx) = LeafD es nx"
| "desc_of (Inner a ts ks) = InnerD (map addr ts) ks"

text \<open>The cells of a tree: its top node, which knows its parent, and the cells below.\<close>

fun cells :: "node_ptr option \<Rightarrow> btree \<Rightarrow> cell multiset" where
  "cells p (Leaf a es nx) = {# (a, LeafD es nx, p) #}"
| "cells p (Inner a ts ks) =
     add_mset (a, InnerD (map addr ts) ks, p) (\<Sum>\<^sub># (mset (map (cells (Some a)) ts)))"

abbreviation cellsl :: "node_ptr option \<Rightarrow> btree list \<Rightarrow> cell multiset" where
  "cellsl p ts \<equiv> \<Sum>\<^sub># (mset (map (cells p) ts))"

primrec sub :: "btree \<Rightarrow> cell multiset" where
  "sub (Leaf a es nx) = {#}"
| "sub (Inner a ts ks) = cellsl (Some a) ts"

text \<open>Regrouping cells.\<close>

lemmas cells_ac = add.assoc add.commute add.left_commute add_mset_commute

lemma cells_sub: "cells p t = add_mset (addr t, desc_of t, p) (sub t)"
  by (cases t) auto

fun ctx_cells :: "frame list \<Rightarrow> node_ptr \<Rightarrow> cell multiset" where
  "ctx_cells [] x = {#}"
| "ctx_cells ((a, ls, kl, kr, rs) # c) x =
     add_mset (a, InnerD (map addr ls @ x # map addr rs) (kl @ kr), par_of c)
       (cellsl (Some a) ls + cellsl (Some a) rs + ctx_cells c a)"

lemma cells_fill: "cells None (fill c t) = cells (par_of c) t + ctx_cells c (addr t)"
  by (induction c t rule: fill.induct) auto

subsection \<open>Heap updates\<close>

lemma set_node_simps [simp]:
  "next_node (set_node h a nd) = next_node h" "nodes (set_node h a nd) = (nodes h)(a \<mapsto> nd)"
  by (auto simp: set_node_def)

lemma make_new_node_split [simp]:
  "(case make_new_node h of (h', p) \<Rightarrow> f h' p) = f (fst (make_new_node h)) (next_node h)"
  by (simp add: make_new_node_def)

lemma hp_get:
  assumes "hp h (add_mset (a, d, p) M)"
  obtains nd where "nodes h a = Some nd" "desc_ok d p nd"
  using assms by (auto simp: hp_def)

lemma hp_mem:
  assumes "hp h M" "(a, d, p) \<in># M"
  obtains nd where "nodes h a = Some nd" "desc_ok d p nd"
  using assms by (auto simp: hp_def)

lemma hp_notin: "hp h (add_mset (a, d, p) M) \<Longrightarrow> (a, x) \<notin># M"
proof
  assume "hp h (add_mset (a, d, p) M)" "(a, x) \<in># M"
  then have "count (image_mset fst M) a = 0" by (auto simp: hp_def dest: spec [of _ a])
  moreover have "a \<in># image_mset fst M" using \<open>(a, x) \<in># M\<close> by force
  ultimately show False by (simp add: not_in_iff [symmetric])
qed

lemma hp_distinct: "hp h (add_mset (a, d, p) M) \<Longrightarrow> (b, x) \<in># M \<Longrightarrow> a \<noteq> b"
  using hp_notin by blast

lemma hp_set:
  assumes "hp h (add_mset (a, d, p) M)" "desc_ok d' p' nd"
  shows "hp (set_node h a nd) (add_mset (a, d', p') M)"
  using assms hp_notin [OF assms(1)] by (auto simp: hp_def set_node_def split: prod.splits; blast)

lemma hp_mono: "hp h (M + N) \<Longrightarrow> hp h M"
  by (auto simp: hp_def) (metis add_leD1)

lemma hp_destroy: "hp h (add_mset (a, d, p) M) \<Longrightarrow> hp (destroy_node h a) M"
  using hp_notin [of h a d p M]
  by (auto simp: hp_def destroy_node_def split: prod.splits)
    (smt (verit, best) Suc_n_not_le_n not_less_eq_eq le_SucI)+

lemma hp_fresh: "hp h M \<Longrightarrow> (next_node h, x) \<notin># M"
  by (auto simp: hp_def)

lemma hp_new:
  assumes "hp h M" "desc_ok d p nd"
  shows "hp (set_node (fst (make_new_node h)) (next_node h) nd) (add_mset (next_node h, d, p) M)"
proof -
  have "count (image_mset fst M) (next_node h) = 0"
    using hp_fresh [OF assms(1)] by (auto simp: not_in_iff [symmetric])
  then show ?thesis
    using assms hp_fresh [OF assms(1)]
    by (auto simp: hp_def make_new_node_def set_node_def less_Suc_eq split: prod.splits)
qed

text \<open>Only the parent of the top node depends on where a tree hangs.\<close>

lemma desc_ok_parent: "desc_ok d p nd \<Longrightarrow> desc_ok d q (nd\<lparr>parent := q\<rparr>)"
  by (cases d) auto

lemma set_parents_ok:
  "hp h (cellsl p ts + M) \<Longrightarrow>
   \<exists>h'. set_parents h (map (PNode \<circ> addr) ts) q = Some h' \<and> hp h' (cellsl (Some q) ts + M)"
proof (induction ts arbitrary: h M)
  case Nil
  then show ?case by simp
next
  case (Cons t ts)
  then have "hp h (add_mset (addr t, desc_of t, p) (sub t + cellsl p ts + M))"
    by (simp add: cells_sub [of p t] ac_simps)
  then obtain nd where nd: "nodes h (addr t) = Some nd" "desc_ok (desc_of t) p nd"
    "hp (set_node h (addr t) (nd\<lparr>parent := Some q\<rparr>))
       (add_mset (addr t, desc_of t, Some q) (sub t + cellsl p ts + M))"
    using hp_get hp_set desc_ok_parent by metis
  then have "hp (set_node h (addr t) (nd\<lparr>parent := Some q\<rparr>)) (cellsl p ts + (cells (Some q) t + M))"
    by (simp add: cells_sub [of "Some q" t] ac_simps)
  from Cons.IH [OF this] nd(1) show ?case by (simp add: ac_simps)
qed

end
