(* ===== verification/Bplus_Find.thy ===== *)
theory Bplus_Find
  imports Bplus_Repr
begin

text \<open>
  Lookup.  \<open>find_leaf\<close> reaches the leaf whose neighbourhood in the flattening brackets the key,
  so \<open>B_plus_tree_find\<close> is lookup in the list of entries.
\<close>

section \<open>The index as a sorted list of entries\<close>

text \<open>The heap and the root pointer hold a B+ tree with the given entries.\<close>

fun bt :: "bheap \<Rightarrow> node_ptr option \<Rightarrow> (string \<times> file_ptr) list \<Rightarrow> bool" where
  "bt h None es = (es = [])"
| "bt h (Some r) es =
     (\<exists>t. addr t = r \<and> entries t = es \<and> wf_root t \<and> ordered (flat t) \<and> keys_fit (flat t) \<and>
          linked (leaves t) \<and> hp h (cells None t))"

lemma bt_sorted: "bt h root es \<Longrightarrow> sorted_wrt (<) (map fst es)"
  using ents_sorted by (cases root) auto

lemma bt_distinct: "bt h root es \<Longrightarrow> distinct (map fst es)"
  using bt_sorted strict_sorted_iff by blast

section \<open>The search path\<close>

text \<open>Marks that precede, respectively follow, every position where \<open>key\<close> can be stored.\<close>

definition below :: "string \<Rightarrow> mark list \<Rightarrow> bool" where
  "below key ms = (\<forall>m \<in> set ms. ord m (S key))"

definition beyond :: "string \<Rightarrow> mark list \<Rightarrow> bool" where
  "beyond key ms = (\<forall>m \<in> set ms. key < mkey m)"

lemma below_simps [simp]:
  "below key []" "below key (xs @ ys) \<longleftrightarrow> below key xs \<and> below key ys"
  by (auto simp: below_def)

lemma beyond_simps [simp]:
  "beyond key []" "beyond key (xs @ ys) \<longleftrightarrow> beyond key xs \<and> beyond key ys"
  by (auto simp: beyond_def)

lemma ord_trans_S: "ord m (S k) \<Longrightarrow> k \<le> key \<Longrightarrow> ord m (S key)"
  by (cases m) auto

lemma below_weave:
  "length xss = length kl \<Longrightarrow> ordered (weave xss kl) \<Longrightarrow> \<forall>k \<in> set kl. k \<le> key \<Longrightarrow>
   below key (weave xss kl)"
  by (induction xss kl rule: list_induct2)
    (auto simp: below_def sorted_wrt_append intro: ord_trans_S)

lemma beyond_weave_after:
  "ordered (weave_after kr xss) \<Longrightarrow> (kr \<noteq> [] \<Longrightarrow> key < hd kr) \<Longrightarrow> beyond key (weave_after kr xss)"
  by (induction kr xss rule: weave_after.induct) (auto simp: beyond_def intro: less_le_trans)

lemma find_leaf_step:
  assumes hp: "hp h (cells None (fill c (Inner a ts ks)))"
    and wf: "wfc (Suc n) c" "wft (if c = [] then 1 else 2) (Suc n) (Inner a ts ks)"
    and ordered: "ordered (flat (fill c (Inner a ts ks)))"
    and bounds: "below key (preF c)" "beyond key (postF c)"
  obtains t ls kl kr rs where "fill ((a, ls, kl, kr, rs) # c) t = fill c (Inner a ts ks)"
    "wfc n ((a, ls, kl, kr, rs) # c)" "wft 2 n t"
    "below key (preF ((a, ls, kl, kr, rs) # c))" "beyond key (postF ((a, ls, kl, kr, rs) # c))"
    "find_leaf_loop h a key = find_leaf_loop h (addr t) key"
proof -
  define j where "j = length (takeWhile (\<lambda>k. k \<le> key) ks)"
  have j: "j \<le> length ks" by (simp add: j_def length_takeWhile_le)
  have kl: "\<forall>k \<in> set (take j ks). k \<le> key"
    unfolding j_def takeWhile_eq_take [symmetric] by (auto dest: set_takeWhileD)
  have kr: "drop j ks \<noteq> [] \<Longrightarrow> key < hd (drop j ks)"
    unfolding j_def dropWhile_eq_drop [symmetric] by (drule hd_dropWhile) (simp add: not_le)
  define ls rs where lsrs: "ls = take j ts" "rs = drop (Suc j) ts"
  let ?f = "(a, ls, take j ks, drop j ks, rs)" and ?t = "ts ! j"
  have len: "length ts = Suc (length ks)" using wf(2) by simp
  then have split: "ls @ ?t # rs = ts" using j by (simp add: lsrs Cons_nth_drop_Suc)
  have lens: "length ls = length (take j ks)" "length rs = length (drop j ks)" using len j by (auto simp: lsrs)
  from split have fill: "fill (?f # c) ?t = fill c (Inner a ts ks)" by simp
  have sub: "\<forall>t \<in> set ls \<union> set rs. wft 2 n t" "wft 2 n ?t"
    using wf(2) len j by (auto simp: lsrs dest: in_set_takeD in_set_dropD)
  then have wfc: "wfc n (?f # c)" using wf lens j by simp
  have "ordered (preF (?f # c) @ flat ?t @ postF (?f # c))"
    using ordered flat_fill [OF wfc, of ?t] unfolding fill by simp
  then have ord': "ordered (weave (map flat ls) (take j ks))" "ordered (weave_after (drop j ks) (map flat rs))"
    by (auto simp: sorted_wrt_append)
  have "below key (weave (map flat ls) (take j ks))" "beyond key (weave_after (drop j ks) (map flat rs))"
    using below_weave [OF _ ord'(1) kl] beyond_weave_after [OF ord'(2) kr] lens by auto
  then have bounds': "below key (preF (?f # c))" "beyond key (postF (?f # c))"
    using bounds by auto
  have "hp h (add_mset (a, InnerD (map addr ts) ks, par_of c) (cellsl (Some a) ts + ctx_cells c a))"
    using hp by (simp add: cells_fill)
  then obtain nd where nd: "nodes h a = Some nd" "desc_ok (InnerD (map addr ts) ks) (par_of c) nd"
    by (rule hp_get)
  then have ptr: "pointers nd ! j = PNode (addr ?t)" "j < length (pointers nd)"
    using j len nth_take [of j "Suc (length ks)" "pointers nd"] by auto
  have "take (num_keys nd) (keys nd) = map Some ks" "length ks = num_keys nd" using nd(2) by auto
  note scan = scan_keys_spec [OF this, of "\<lambda>k. strcmp k key \<le> 0", unfolded strcmp_le_0, folded j_def]
  then have "find_leaf_loop h a key = find_leaf_loop h (addr ?t) key"
    using nd ptr by (subst find_leaf_loop.simps) (simp add: crash_simps)
  then show ?thesis using that [OF fill wfc sub(2) bounds'] by simp
qed

lemma find_leaf_loop_ok:
  assumes "hp h (cells None (fill c t))" "wfc n c"
    "wft (if c = [] then if n = 0 then 0 else 1 else 2) n t"
    "ordered (flat (fill c t))" "below key (preF c)" "beyond key (postF c)"
  shows "\<exists>c' a es nx. find_leaf_loop h (addr t) key = Some a \<and> fill c' (Leaf a es nx) = fill c t \<and>
           wfc 0 c' \<and> wft (if c' = [] then 0 else 2) 0 (Leaf a es nx) \<and>
           below key (preF c') \<and> beyond key (postF c')"
  using assms
proof (induction n arbitrary: c t)
  case 0
  then obtain a es nx where t: "t = Leaf a es nx" by (cases t) auto
  have "hp h (add_mset (a, LeafD es nx, par_of c) (ctx_cells c a))"
    using 0 by (simp add: cells_fill t)
  then obtain nd where "nodes h a = Some nd" "is_leaf nd" by (auto elim!: hp_get)
  then have "find_leaf_loop h (addr t) key = Some a" by (subst find_leaf_loop.simps) (simp add: t)
  then show ?case using 0 t by (intro exI [of _ c] exI [of _ a] exI [of _ es] exI [of _ nx]) auto
next
  case (Suc n)
  then obtain a ts ks where t: "t = Inner a ts ks" by (cases t) auto
  have wf: "wft (if c = [] then 1 else 2) (Suc n) (Inner a ts ks)" using Suc.prems(3) t by (cases "c = []") auto
  obtain u ls kl kr rs where step: "fill ((a, ls, kl, kr, rs) # c) u = fill c (Inner a ts ks)"
    "wfc n ((a, ls, kl, kr, rs) # c)" "wft 2 n u"
    "below key (preF ((a, ls, kl, kr, rs) # c))" "beyond key (postF ((a, ls, kl, kr, rs) # c))"
    "find_leaf_loop h a key = find_leaf_loop h (addr u) key"
    by (rule find_leaf_step [OF Suc.prems(1) [unfolded t] Suc.prems(2) wf Suc.prems(4) [unfolded t]
          Suc.prems(5,6)])
  have "hp h (cells None (fill ((a, ls, kl, kr, rs) # c) u))"
    "ordered (flat (fill ((a, ls, kl, kr, rs) # c) u))"
    unfolding step(1) using Suc.prems t by auto
  from Suc.IH [OF this(1) step(2) _ this(2) step(4,5)] show ?case
    unfolding step(1) t using step(3,6) by simp
qed

section \<open>Lookup\<close>

lemma map_of_between:
  assumes "below key pre" "beyond key post"
  shows "map_of (ents (pre @ map (\<lambda>(k, v). E k v) es @ post)) key = map_of es key"
proof -
  have "map_of (ents pre) key = None" "map_of (ents post) key = None"
    using assms by (fastforce simp: map_of_eq_None_iff below_def beyond_def set_ents)+
  then show ?thesis by (simp add: map_add_def split: option.splits)
qed

lemma bt_leaf:
  assumes "bt h (Some r) es"
  obtains c a les nx where "find_leaf_loop h r key = Some a"
    "addr (fill c (Leaf a les nx)) = r" "wfc 0 c" "wft (if c = [] then 0 else 2) 0 (Leaf a les nx)"
    "es = ents (preF c) @ les @ ents (postF c)" "below key (preF c)" "beyond key (postF c)"
    "ordered (preF c @ map (\<lambda>(k, v). E k v) les @ postF c)"
    "keys_fit (preF c @ map (\<lambda>(k, v). E k v) les @ postF c)"
    "linked (preL c @ [(a, les, nx)] @ postL c)"
    "hp h (add_mset (a, LeafD les nx, par_of c) (ctx_cells c a))"
proof -
  obtain t n where t: "addr t = r" "entries t = es" "wft (if n = 0 then 0 else 1) n t"
    "ordered (flat t)" "keys_fit (flat t)" "linked (leaves t)" "hp h (cells None t)"
    using assms by (auto simp: wf_root_def)
  obtain c a les nx where c: "find_leaf_loop h r key = Some a" "fill c (Leaf a les nx) = t" "wfc 0 c"
    "wft (if c = [] then 0 else 2) 0 (Leaf a les nx)" "below key (preF c)" "beyond key (postF c)"
    using find_leaf_loop_ok [of h "[]" t n key] t by auto
  have flat: "flat t = preF c @ map (\<lambda>(k, v). E k v) les @ postF c"
    using flat_fill [OF c(3)] c(2) by force
  have leaves: "leaves t = preL c @ [(a, les, nx)] @ postL c" using leaves_fill c(2) by force
  have cells: "cells None t = add_mset (a, LeafD les nx, par_of c) (ctx_cells c a)"
    using cells_fill c(2) by force
  show ?thesis
    using that [OF c(1) _ c(3,4) _ c(5,6)] t c(2) unfolding flat leaves cells by simp
qed

lemma takeWhile_neq_map_of:
  "map_of es key = (if length (takeWhile (\<lambda>k. k \<noteq> key) (map fst es)) = length es then None
     else Some (snd (es ! length (takeWhile (\<lambda>k. k \<noteq> key) (map fst es)))))"
  by (induction es) auto

lemma B_plus_tree_find_ok:
  assumes "bt h root es"
  shows "B_plus_tree_find h root key = Some (map_of es key)"
proof (cases root)
  case None
  then show ?thesis using assms by (simp add: B_plus_tree_find_def find_leaf_def)
next
  case (Some r)
  let ?i = "\<lambda>les. length (takeWhile (\<lambda>k. k \<noteq> key) (map fst les))"
  from assms Some obtain c a les nx where c: "find_leaf_loop h r key = Some a"
    "es = ents (preF c) @ les @ ents (postF c)" "below key (preF c)" "beyond key (postF c)"
    "hp h (add_mset (a, LeafD les nx, par_of c) (ctx_cells c a))"
    using bt_leaf [of h r es key] by metis
  have es: "map_of es key = map_of les key"
    using map_of_between [OF c(3,4), of les] c(2) by simp
  obtain nd where nd: "nodes h a = Some nd" "desc_ok (LeafD les nx) (par_of c) nd"
    using c(5) by (rule hp_get)
  then have scan: "scan_keys (\<lambda>k. strcmp k key \<noteq> 0) (keys nd) (num_keys nd) 0 = Some (?i les)"
    using scan_keys_spec [of "num_keys nd" "keys nd" "map fst les"] by simp
  have "pointers nd ! ?i les = PRec (snd (les ! ?i les))" "?i les < length (pointers nd)"
    if "?i les \<noteq> length les"
    using that nd nth_take [of "?i les" "length les" "pointers nd"]
      length_takeWhile_le [of "\<lambda>k. k \<noteq> key" "map fst les"] by auto
  then show ?thesis
    using Some c(1) nd scan
    unfolding es takeWhile_neq_map_of [of les]
    by (auto simp: B_plus_tree_find_def find_leaf_def crash_simps)
qed

end
