(* ===== verification/Bplus_Insert.thy ===== *)
theory Bplus_Insert
  imports Bplus_Find
begin

text \<open>
  Insertion.  Every splitting step keeps the flattening, apart from the new separator in front
  of the first entry of a new leaf; \<open>insert_into_parent\<close> is verified by induction on the
  context above the split.  The result is insertion into the sorted list of entries.
\<close>

section \<open>Storing into one node\<close>

lemma strcpy_key_fit: "length key < MAX_KEY_LEN \<Longrightarrow> strcpy_key key = Some key"
  by (simp add: strcpy_key_def)

lemma leaf_store:
  assumes nd: "desc_ok (LeafD es nx) p nd" and len: "length es < MAX_KEY_NUM" and i: "i \<le> length es"
  obtains ks ps where "shift_right (keys nd) i (num_keys nd) = Some ks"
    "shift_right (pointers nd) i (num_keys nd) = Some ps" "i < length ks" "i < length ps"
    "desc_ok (LeafD (take i es @ (key, f) # drop i es) nx) p
       (nd\<lparr>keys := ks[i := Some key], pointers := ps[i := PRec f], num_keys := num_keys nd + 1\<rparr>)"
proof -
  have n: "num_keys nd = length es" and fit: "length es < length (keys nd)" "length es < length (pointers nd)"
    and live: "take (length es) (keys nd) = map (Some \<circ> fst) es" "take (length es) (pointers nd) = map (PRec \<circ> snd) es"
    using nd len by auto
  obtain ks where ks: "shift_right (keys nd) i (length es) = Some ks" "length ks = length (keys nd)"
    "\<forall>e. take (Suc (length es)) (ks[i := (Some \<circ> fst) e]) = map (Some \<circ> fst) (take i es @ e # drop i es)"
    "\<forall>j. length es < j \<and> j < length (keys nd) \<longrightarrow> ks ! j = keys nd ! j"
    by (rule shift_right_map [OF live(1) i fit(1)])
  obtain ps where ps: "shift_right (pointers nd) i (length es) = Some ps" "length ps = length (pointers nd)"
    "\<forall>e. take (Suc (length es)) (ps[i := (PRec \<circ> snd) e]) = map (PRec \<circ> snd) (take i es @ e # drop i es)"
    "\<forall>j. length es < j \<and> j < length (pointers nd) \<longrightarrow> ps ! j = pointers nd ! j"
    by (rule shift_right_map [OF live(2) i fit(2)])
  show ?thesis
    using that [of ks ps] ks(1,2) ks(3) [THEN spec, of "(key, f)"] ps(1,2,4) ps(3) [THEN spec, of "(key, f)"] nd i len
    unfolding n by simp
qed

lemma insert_into_node_ok:
  assumes nd: "desc_ok (InnerD as ks) p nd" and len: "length ks < MAX_KEY_NUM" and i: "i \<le> length ks"
    and key: "length key < MAX_KEY_LEN"
  obtains nd' where "insert_into_node nd i key right = Some nd'"
    "desc_ok (InnerD (take (Suc i) as @ right # drop (Suc i) as) (take i ks @ key # drop i ks)) p nd'"
proof -
  have n: "num_keys nd = length ks" and as: "length as = Suc (length ks)"
    and fit: "length ks < length (keys nd)" "length as < length (pointers nd)" "Suc i \<le> length as"
    and live: "take (length ks) (keys nd) = map Some ks" "take (length as) (pointers nd) = map PNode as"
    using nd len i by auto
  obtain ks' where ks: "shift_right (keys nd) i (length ks) = Some ks'" "length ks' = length (keys nd)"
    "\<forall>e. take (Suc (length ks)) (ks'[i := Some e]) = map Some (take i ks @ e # drop i ks)"
    "\<forall>j. length ks < j \<and> j < length (keys nd) \<longrightarrow> ks' ! j = keys nd ! j"
    by (rule shift_right_map [OF live(1) i fit(1)])
  obtain ps where ps: "shift_right (pointers nd) (Suc i) (length as) = Some ps"
    "length ps = length (pointers nd)"
    "\<forall>e. take (Suc (length as)) (ps[Suc i := PNode e]) = map PNode (take (Suc i) as @ e # drop (Suc i) as)"
    "\<forall>j. length as < j \<and> j < length (pointers nd) \<longrightarrow> ps ! j = pointers nd ! j"
    by (rule shift_right_map [OF live(2) fit(3,2)])
  show ?thesis
    using that nd i len key ks(1,2) ks(3) [THEN spec, of key] ps(1,2) ps(3) [THEN spec, of right] as
    by (simp add: insert_into_node_def strcpy_key_fit crash_simps)
qed

section \<open>Splitting an inner node\<close>

lemma desc_ok_blank_inner:
  assumes "length as = Suc (length ks)" "length ks \<le> MAX_KEY_NUM"
    "nps = map PNode as @ replicate (MAX_KEY_NUM - length ks) Null"
    "nks = map Some ks @ replicate (MAX_KEY_NUM - length ks) None"
  shows "desc_ok (InnerD as ks) p
    (blank_node\<lparr>num_keys := length ks, pointers := nps, keys := nks, parent := p\<rparr>)"
  using assms by (simp add: blank_node_def)

lemma split_node_ok:
  assumes hp: "hp h (add_mset (a, InnerD (map addr (ls @ l # rs)) (kl @ kr), p)
      (cellsl (Some a) (ls @ l # r # rs) + M))"
    and len: "length kl = length ls" "length kr = length rs" "length kl + length kr = MAX_KEY_NUM"
    and key: "length key < MAX_KEY_LEN"
  obtains h' ts1 ts2 ks1 ks2 k b where
    "split_node h a (addr r) (length ls) key = Some (h', b, k)"
    "hp h' (cells p (Inner a ts1 ks1) + cells p (Inner b ts2 ks2) + M)"
    "ts1 @ ts2 = ls @ l # r # rs" "ks1 @ k # ks2 = kl @ key # kr"
    "length ts1 = 3" "length ts2 = 3" "length ks1 = 2" "length ks2 = 2"
proof -
  let ?ts = "ls @ l # r # rs" and ?ks = "kl @ key # kr" and ?b = "next_node h"
  have l: "length ?ts = 6" "length ?ks = 5" using len by (auto simp: MAX_KEY_NUM_def)
  obtain nd where nd: "nodes h a = Some nd" "desc_ok (InnerD (map addr (ls @ l # rs)) (kl @ kr)) p nd"
    using hp by (rule hp_get)
  have full: "pointers nd = map (PNode \<circ> addr) (ls @ l # rs)" "keys nd = map Some (kl @ kr)"
    using nd(2) len by auto
  have temp_ps: "those (map (\<lambda>i. if i = length ls + 1 then Some (PNode (addr r))
        else if i < length ls + 1 then arr_get (pointers nd) i
        else arr_get (pointers nd) (i - 1)) [0..<MAX_KEY_NUM + 2]) = Some (map (PNode \<circ> addr) ?ts)"
    using temp_array [of "ls @ l # rs" "pointers nd" "PNode \<circ> addr" "Suc (length ls)" r] len
    by (simp add: full(1) del: upt_Suc cong: if_cong)
  have temp_ks: "those (map (\<lambda>i. if i = length ls then map_option Some (strcpy_key key)
        else if i < length ls then arr_get (keys nd) i
        else arr_get (keys nd) (i - 1)) [0..<MAX_KEY_NUM + 1]) = Some (map Some ?ks)"
    using temp_array [of "kl @ kr" "keys nd" Some "length ls" key] len key
    by (simp add: full(2) strcpy_key_fit del: upt_Suc cong: if_cong)
  define ts1 ts2 where ts: "ts1 = take 3 ?ts" "ts2 = drop 3 ?ts"
  define ks1 ks2 where ks: "ks1 = take 2 ?ks" "ks2 = drop 3 ?ks"
  have "Suc 2 = (3 :: nat)" "2 < length ?ks" using l by auto
  note ks_split = id_take_nth_drop [OF this(2), unfolded this(1), symmetric]
  have app: "ts1 @ ts2 = ?ts" "ks1 @ ?ks ! 2 # ks2 = ?ks"
    unfolding ts ks by (rule append_take_drop_id, rule ks_split)
  have lens: "length ts1 = 3" "length ts2 = 3" "length ks1 = 2" "length ks2 = 2"
    unfolding ts ks length_take length_drop l by auto
  have drop2: "drop 2 (ks1 @ ?ks ! 2 # ks2) = ?ks ! 2 # ks2" "drop 3 (ks1 @ ?ks ! 2 # ks2) = ks2"
    using lens by auto
  let ?nd = "nd\<lparr>num_keys := 2, pointers := map (PNode \<circ> addr) ts1 @ drop 3 (pointers nd),
      keys := map Some ks1 @ drop 2 (keys nd)\<rparr>"
  let ?h1 = "set_node h a ?nd"
  let ?new = "blank_node\<lparr>num_keys := 2, pointers := map (PNode \<circ> addr) ts2 @ [Null, Null],
      keys := map Some ks2 @ [None, None], parent := p\<rparr>"
  let ?h2 = "set_node (fst (make_new_node ?h1)) ?b ?new"
  have "hp ?h1 (add_mset (a, InnerD (map addr ts1) ks1, p) (cellsl (Some a) ?ts + M))"
    using hp nd lens by (intro hp_set) (auto simp: MAX_KEY_NUM_def)
  then have "hp ?h2 (add_mset (?b, InnerD (map addr ts2) ks2, p)
      (add_mset (a, InnerD (map addr ts1) ks1, p) (cellsl (Some a) ?ts + M)))"
    using hp_new [of ?h1 _ "InnerD (map addr ts2) ks2" p ?new] lens
    by (simp add: set_node_def blank_node_def MAX_KEY_NUM_def eval_nat_numeral)
  then have "hp ?h2 (cellsl (Some a) ts2 + (cells p (Inner a ts1 ks1) +
      {# (?b, InnerD (map addr ts2) ks2, p) #} + M))"
    unfolding app(1) [symmetric] by (simp add: cells_ac)
  from set_parents_ok [OF this, of ?b] obtain h' where
    h': "set_parents ?h2 (map (PNode \<circ> addr) ts2) ?b = Some h'"
    "hp h' (cells p (Inner a ts1 ks1) + cells p (Inner ?b ts2 ks2) + M)"
    by (auto simp: cells_ac)
  have copies: "copy_loop (pointers nd) 0 (map (PNode \<circ> addr) ?ts) 0 node_split =
      Some (map (PNode \<circ> addr) ts1 @ drop 3 (pointers nd))"
    "copy_loop (keys nd) 0 (map Some ?ks) 0 (node_split - 1) = Some (map Some ks1 @ drop 2 (keys nd))"
    "copy_loop (pointers blank_node) 0 (map (PNode \<circ> addr) ?ts) node_split (MAX_KEY_NUM + 2 - node_split) =
      Some (map (PNode \<circ> addr) ts2 @ [Null, Null])"
    "copy_loop (keys blank_node) 0 (map Some ?ks) node_split (MAX_KEY_NUM + 1 - node_split) =
      Some (map Some ks2 @ [None, None])"
    using l nd(2) copy_front [of 3 "pointers nd" ?ts "PNode \<circ> addr"] copy_front [of 2 "keys nd" ?ks Some]
      copy_back [of 3 3 ?ts "pointers blank_node" "PNode \<circ> addr"] copy_back [of 3 2 ?ks "keys blank_node" Some]
    unfolding ts ks by (simp_all add: node_split_eq MAX_KEY_NUM_def blank_arrays)
  have key_up: "arr_get (map Some ?ks) (node_split - 1) = Some (Some (?ks ! 2))"
    using l nth_map [of 2 ?ks Some] by (simp add: node_split_eq)
  have "parent nd = p" using nd(2) by simp
  then have "split_node h a (addr r) (length ls) key = Some (h', ?b, ?ks ! 2)"
    using h'(1) lens unfolding split_node_def nd(1) Option.bind_lunit temp_ps temp_ks copies key_up
    by (simp add: node_split_eq MAX_KEY_NUM_def)
  then show ?thesis using that h'(2) app lens by blast
qed

section \<open>Walking up\<close>

lemma new_root_ok:
  assumes hp: "hp h (cells None l + cells None r)" and key: "length key < MAX_KEY_LEN"
  obtains h' where "new_root h (addr l) (addr r) key = Some (h', next_node h)"
    "hp h' (cells None (Inner (next_node h) [l, r] [key]))"
proof -
  let ?t = "next_node h" and ?nd = "blank_node\<lparr>pointers := (pointers blank_node)[0 := PNode (addr l), 1 := PNode (addr r)],
      keys := (keys blank_node)[0 := Some key], num_keys := 1\<rparr>"
  let ?h1 = "set_node (fst (make_new_node h)) ?t ?nd"
  have "desc_ok (InnerD [addr l, addr r] [key]) None ?nd"
    by (simp add: blank_node_def MAX_KEY_NUM_def eval_nat_numeral)
  from hp_new [OF hp this] have "hp ?h1 (cellsl None [l, r] + {# (?t, InnerD [addr l, addr r] [key], None) #})"
    by (simp add: cells_ac)
  from set_parents_ok [OF this, of ?t] obtain h' where
    h': "set_parents ?h1 [PNode (addr l), PNode (addr r)] ?t = Some h'"
    "hp h' (cells None (Inner ?t [l, r] [key]))"
    by (auto simp: cells_ac)
  have "new_root h (addr l) (addr r) key = Some (h', ?t)"
    using h'(1) key
    by (auto simp: new_root_def strcpy_key_fit blank_arrays crash_simps Let_def bind_Some_iff
        simp del: set_node_simps(2))
  then show ?thesis using that h'(2) by blast
qed

text \<open>The address of the hole is found at its index in the parent.\<close>

lemma hole_index:
  assumes hp: "hp h (cells p l + ctx_cells ((a, ls, kl, kr, rs) # c) (addr l) + M)"
    and len: "length kl = length ls" "length kr = length rs"
  obtains par where "nodes h a = Some par"
    "desc_ok (InnerD (map addr ls @ addr l # map addr rs) (kl @ kr)) (par_of c) par"
    "scan_ptrs (pointers par) (PNode (addr l)) (num_keys par) 0 = Some (length ls)"
proof -
  have "hp h (add_mset (a, InnerD (map addr ls @ addr l # map addr rs) (kl @ kr), par_of c)
      (cells p l + cellsl (Some a) ls + cellsl (Some a) rs + ctx_cells c a + M))"
    using hp by (simp add: cells_ac)
  then obtain par where par: "nodes h a = Some par"
    "desc_ok (InnerD (map addr ls @ addr l # map addr rs) (kl @ kr)) (par_of c) par"
    by (rule hp_get)
  have "hp h (add_mset (addr l, desc_of l, p) (cellsl (Some a) ls +
      (sub l + {# (a, InnerD (map addr ls @ addr l # map addr rs) (kl @ kr), par_of c) #} +
       cellsl (Some a) rs + ctx_cells c a + M)))"
    using hp by (simp add: cells_ac cells_sub [of p l])
  note distinct = hp_distinct [OF this]
  have ls: "addr t \<noteq> addr l" if "t \<in> set ls" for t
  proof -
    have "(addr t, desc_of t, Some a) \<in># cellsl (Some a) ls"
      using that by (induction ls) (auto simp: cells_sub)
    then show ?thesis using distinct [of "addr t" "(desc_of t, Some a)"] by (metis union_iff)
  qed
  let ?as = "map addr ls @ addr l # map addr rs"
  have take: "take (length ?as) (pointers par) = map PNode ?as" using par(2) by simp
  have nth: "pointers par ! j = PNode (?as ! j)" if "j \<le> length ls" for j
    using nth_take [of j "length ?as" "pointers par"] that unfolding take by (cases "j = length ls") (auto simp: nth_append)
  have "scan_ptrs (pointers par) (PNode (addr l)) (num_keys par) 0 = Some (length ls)"
    using par(2) len nth ls by (intro scan_ptrs_spec) (auto simp: nth_append)
  then show ?thesis using that par by blast
qed

lemma insert_into_parent_ok:
  assumes "hp h (cells (par_of c) l + cells (par_of c) r + ctx_cells c (addr l))" "wfc n c"
    "wft 2 n l" "wft 2 n r" "keys_fit (preF c @ flat l @ S key # flat r @ postF c)"
    "root = addr (fill c l)"
  shows "\<exists>h' t'. insert_into_parent h root (addr l) (addr r) key = Some (h', addr t') \<and>
    hp h' (cells None t') \<and> wf_root t' \<and> flat t' = preF c @ flat l @ S key # flat r @ postF c \<and>
    leaves t' = preL c @ leaves l @ leaves r @ postL c"
  using assms
proof (induction c arbitrary: h l r n key)
  case Nil
  let ?t = "Inner (next_node h) [l, r] [key]"
  obtain nd where nd: "nodes h (addr l) = Some nd" "desc_ok (desc_of l) None nd"
    by (rule hp_mem [OF Nil.prems(1), of "addr l" "desc_of l" None]) (auto simp: cells_sub)
  then have "parent nd = None" by (cases l) auto
  moreover obtain h' where "new_root h (addr l) (addr r) key = Some (h', next_node h)" "hp h' (cells None ?t)"
    using new_root_ok [of h l r key] Nil.prems by auto
  moreover have "wft 1 (Suc n) ?t" using Nil.prems by (simp add: MAX_KEY_NUM_def)
  then have "wf_root ?t" unfolding wf_root_def by (intro exI [of _ "Suc n"]) simp
  ultimately show ?case using nd(1)
    by (intro exI [of _ h'] exI [of _ ?t]) (simp add: insert_into_parent.simps [of h])
next
  case (Cons f c)
  obtain a ls kl kr rs where f: "f = (a, ls, kl, kr, rs)" by (cases f) auto
  have len: "length kl = length ls" "length kr = length rs" using Cons.prems(2) f by auto
  have key: "length key < MAX_KEY_LEN" using Cons.prems(5) by simp
  obtain nd where nd: "nodes h (addr l) = Some nd" "desc_ok (desc_of l) (Some a) nd"
    by (rule hp_mem [OF Cons.prems(1), of "addr l" "desc_of l" "Some a"]) (auto simp: cells_sub f)
  then have parent: "parent nd = Some a" by (cases l) auto
  have "hp h (cells (Some a) l + ctx_cells ((a, ls, kl, kr, rs) # c) (addr l) + cells (Some a) r)"
    using Cons.prems(1) f by (simp add: cells_ac)
  from hole_index [OF this len] obtain par where par: "nodes h a = Some par"
    "desc_ok (InnerD (map addr ls @ addr l # map addr rs) (kl @ kr)) (par_of c) par"
    "scan_ptrs (pointers par) (PNode (addr l)) (num_keys par) 0 = Some (length ls)" .
  have hp: "hp h (add_mset (a, InnerD (map addr (ls @ l # rs)) (kl @ kr), par_of c)
      (cellsl (Some a) (ls @ l # r # rs) + ctx_cells c a))"
    using Cons.prems(1) f by (simp add: cells_ac)
  have root: "root = addr (fill c (Inner a ts ks))" for ts ks
    using Cons.prems(6) f addr_fill [of "Inner a (ls @ l # rs) (kl @ kr)" "Inner a ts ks" c] by simp
  have wfs: "wfc (Suc n) c" "\<forall>t \<in> set (ls @ l # r # rs). wft 2 n t"
    using Cons.prems(2-4) f by auto
  have flat: "weave (map flat (ls @ l # r # rs)) (kl @ key # kr) =
      weave (map flat ls) kl @ flat l @ S key # flat r @ weave_after kr (map flat rs)"
    using len by (simp add: weave_append weave_weave_after)
  show ?case
  proof (cases "length kl + length kr < MAX_KEY_NUM")
    case True
    let ?t = "Inner a (ls @ l # r # rs) (kl @ key # kr)"
    obtain par' where par': "insert_into_node par (length ls) key (addr r) = Some par'"
      "desc_ok (InnerD (map addr (ls @ l # r # rs)) (kl @ key # kr)) (par_of c) par'"
      using insert_into_node_ok [OF par(2), of "length ls" key "addr r"] len key True by auto
    have "insert_into_parent h root (addr l) (addr r) key = Some (set_node h a par', root)"
      using nd(1) parent par par' True by (subst insert_into_parent.simps) simp
    moreover have "hp (set_node h a par') (cells None (fill c ?t))"
      using hp_set [OF hp par'(2)] by (simp add: cells_fill)
    moreover have "wf_root (fill c ?t)"
      using wfs len True Cons.prems(2) f by (intro wf_root_fill [of "Suc n"]) auto
    ultimately show ?thesis
      using root flat flat_fill [OF wfs(1), of ?t] leaves_fill [of c ?t] f
      by (intro exI [of _ "set_node h a par'"] exI [of _ "fill c ?t"]) auto
  next
    case False
    then have full: "length kl + length kr = MAX_KEY_NUM" using Cons.prems(2) f by simp
    from split_node_ok [OF hp len full key] obtain h' ts1 ts2 ks1 ks2 k b where sp:
      "split_node h a (addr r) (length ls) key = Some (h', b, k)"
      "hp h' (cells (par_of c) (Inner a ts1 ks1) + cells (par_of c) (Inner b ts2 ks2) + ctx_cells c a)"
      "ts1 @ ts2 = ls @ l # r # rs" "ks1 @ k # ks2 = kl @ key # kr"
      "length ts1 = 3" "length ts2 = 3" "length ks1 = 2" "length ks2 = 2" .
    have step: "insert_into_parent h root (addr l) (addr r) key = insert_into_parent h' root a b k"
      using nd(1) parent par sp(1) full by (subst insert_into_parent.simps) simp
    have wf: "wft 2 (Suc n) (Inner a ts1 ks1)" "wft 2 (Suc n) (Inner b ts2 ks2)"
      using wfs(2) sp(5-8) unfolding sp(3) [symmetric] by (auto simp: MAX_KEY_NUM_def)
    have "weave (map flat (ts1 @ ts2)) (ks1 @ k # ks2) =
        flat (Inner a ts1 ks1) @ S k # flat (Inner b ts2 ks2)"
      using sp(5-8) weave_split [of "map flat ts1" ks1 "map flat ts2" k ks2] by simp
    then have flat': "preF c @ flat (Inner a ts1 ks1) @ S k # flat (Inner b ts2 ks2) @ postF c =
        preF (f # c) @ flat l @ S key # flat r @ postF (f # c)"
      using flat unfolding sp(3,4) f by simp
    have leaves': "preL c @ leaves (Inner a ts1 ks1) @ leaves (Inner b ts2 ks2) @ postL c =
        preL (f # c) @ leaves l @ leaves r @ postL (f # c)"
      using arg_cong [OF sp(3), of "\<lambda>ts. concat (map leaves ts)"] f by simp
    have fit: "keys_fit (preF c @ flat (Inner a ts1 ks1) @ S k # flat (Inner b ts2 ks2) @ postF c)"
      unfolding flat' by (rule Cons.prems(5))
    from sp(2) have "hp h' (cells (par_of c) (Inner a ts1 ks1) + cells (par_of c) (Inner b ts2 ks2) +
        ctx_cells c (addr (Inner a ts1 ks1)))" by simp
    from Cons.IH [OF this wfs(1) wf fit root] show ?thesis
      unfolding flat' leaves' step by simp
  qed
qed

section \<open>Splitting a leaf\<close>

lemma make_new_leaf_split [simp]:
  "(case make_new_leaf h of (h', p) \<Rightarrow> f h' p) = f (fst (make_new_leaf h)) (next_node h)"
  by (simp add: make_new_leaf_def)

lemma linked_head: "linked ((a, e, nx) # ys) \<longleftrightarrow> linked ((b, e', nx) # ys)"
  by (cases ys; cases "hd ys") auto

lemma linked_split:
  "linked (xs @ (a, e, nx) # ys) \<Longrightarrow> linked (xs @ (a, e1, PNode b) # (b, e2, nx) # ys)"
  using linked_head [of a e nx ys b e2] by (induction xs rule: linked.induct) auto

lemma linked_entries: "linked (xs @ (a, e, nx) # ys) \<Longrightarrow> linked (xs @ (a, e', nx) # ys)"
  using linked_head [of a e nx ys a e'] by (induction xs rule: linked.induct) auto

lemma leaf_split_ok:
  assumes hp: "hp h (add_mset (a, LeafD es nx, p) M)" and len: "length es = MAX_KEY_NUM"
    and i: "i \<le> length es" and key: "length key < MAX_KEY_LEN"
    and es': "es' = take i es @ (key, f) # drop i es"
  obtains h' b where
    "insert_into_leaf_after_splitting h root a i key (PRec f) =
       insert_into_parent h' root a b (fst (es' ! 2))"
    "hp h' (cells p (Leaf a (take 2 es') (PNode b)) + cells p (Leaf b (drop 2 es') nx) + M)"
proof -
  let ?b = "next_node h"
  obtain nd where nd: "nodes h a = Some nd" "desc_ok (LeafD es nx) p nd" using hp by (rule hp_get)
  have l: "length es' = 5" using es' len i by (simp add: MAX_KEY_NUM_def)
  have temp_ps: "those (map (\<lambda>j. if j = i then Some (PRec f) else if j < i then arr_get (pointers nd) j
      else arr_get (pointers nd) (j - 1)) [0..<MAX_KEY_NUM + 1]) = Some (map (PRec \<circ> snd) es')"
    using temp_array [of es "pointers nd" "PRec \<circ> snd" i "(key, f)"] nd(2) len i es'
    by (simp del: upt_Suc cong: if_cong)
  have temp_ks: "those (map (\<lambda>j. if j = i then map_option Some (strcpy_key key)
      else if j < i then arr_get (keys nd) j else arr_get (keys nd) (j - 1)) [0..<MAX_KEY_NUM + 1]) =
      Some (map (Some \<circ> fst) es')"
    using temp_array [of es "keys nd" "Some \<circ> fst" i "(key, f)"] nd(2) len i es' key
    by (simp add: strcpy_key_fit del: upt_Suc cong: if_cong)
  have copies: "copy_loop (pointers nd) 0 (map (PRec \<circ> snd) es') 0 leaf_split =
      Some (map (PRec \<circ> snd) (take 2 es') @ drop 2 (pointers nd))"
    "copy_loop (keys nd) 0 (map (Some \<circ> fst) es') 0 leaf_split =
      Some (map (Some \<circ> fst) (take 2 es') @ drop 2 (keys nd))"
    "copy_loop (pointers blank_node) 0 (map (PRec \<circ> snd) es') leaf_split (MAX_KEY_NUM + 1 - leaf_split) =
      Some (map (PRec \<circ> snd) (drop 2 es') @ [Null, Null])"
    "copy_loop (keys blank_node) 0 (map (Some \<circ> fst) es') leaf_split (MAX_KEY_NUM + 1 - leaf_split) =
      Some (map (Some \<circ> fst) (drop 2 es') @ [None])"
    using l nd(2) copy_front [of 2 "pointers nd" es' "PRec \<circ> snd"] copy_front [of 2 "keys nd" es' "Some \<circ> fst"]
      copy_back [of 2 3 es' "pointers blank_node" "PRec \<circ> snd"] copy_back [of 2 3 es' "keys blank_node" "Some \<circ> fst"]
    by (simp_all add: leaf_split_eq MAX_KEY_NUM_def blank_arrays)
  let ?nd = "nd\<lparr>num_keys := 2, pointers := (map (PRec \<circ> snd) (take 2 es') @ drop 2 (pointers nd))[4 := PNode ?b],
      keys := map (Some \<circ> fst) (take 2 es') @ drop 2 (keys nd)\<rparr>"
  let ?new = "blank_node\<lparr>is_leaf := True, num_keys := 3,
      pointers := (map (PRec \<circ> snd) (drop 2 es') @ [Null, Null])[4 := nx],
      keys := map (Some \<circ> fst) (drop 2 es') @ [None], parent := p\<rparr>"
  have ok: "desc_ok (LeafD (take 2 es') (PNode ?b)) p ?nd" "desc_ok (LeafD (drop 2 es') nx) p ?new"
    using nd(2) l by (auto simp: MAX_KEY_NUM_def blank_arrays)
  let ?h' = "set_node (fst (make_new_node (set_node h a ?nd))) ?b ?new"
  have "hp ?h' (add_mset (?b, LeafD (drop 2 es') nx, p) (add_mset (a, LeafD (take 2 es') (PNode ?b), p) M))"
    using hp_new [OF hp_set [OF hp ok(1)] ok(2)] by simp
  then have hp': "hp ?h' (cells p (Leaf a (take 2 es') (PNode ?b)) + cells p (Leaf ?b (drop 2 es') nx) + M)"
    by (simp add: cells_ac)
  have "a \<noteq> ?b" using hp hp_fresh [OF hp] by auto
  then have heap: "set_node (set_node (fst (make_new_leaf (set_node h a nd1))) ?b ?new) a ?nd = ?h'" for nd1
    by (simp add: make_new_leaf_def make_new_node_def set_node_def fun_upd_twist)
  have "map (Some \<circ> fst) (drop 2 es') ! 0 = Some (fst (es' ! 2))" using l by simp
  then have "insert_into_leaf_after_splitting h root a i key (PRec f) =
      insert_into_parent ?h' root a ?b (fst (es' ! 2))"
    using nd(2) l heap
    unfolding insert_into_leaf_after_splitting_def nd(1) Option.bind_lunit temp_ps temp_ks copies
    by (simp add: leaf_split_eq MAX_KEY_NUM_def crash_simps Let_def nth_append)
  then show ?thesis using that hp' by blast
qed

section \<open>Insertion\<close>

text \<open>What the index promises: an existing key keeps its file, a new one is put in order.\<close>

definition ins_entry :: "string \<Rightarrow> file_ptr \<Rightarrow> (string \<times> file_ptr) list \<Rightarrow> (string \<times> file_ptr) list" where
  "ins_entry key f es =
     (if key \<in> fst ` set es then es
      else takeWhile (\<lambda>(k, v). k < key) es @ (key, f) # dropWhile (\<lambda>(k, v). k < key) es)"

lemma map_of_ins_entry:
  "map_of (ins_entry key f es) =
     (if key \<in> fst ` set es then map_of es else (map_of es)(key \<mapsto> f))"
proof -
  have "map_of es = map_of (dropWhile (\<lambda>(k, v). k < key) es) ++ map_of (takeWhile (\<lambda>(k, v). k < key) es)"
    using map_of_append [of "takeWhile (\<lambda>(k, v). k < key) es" "dropWhile (\<lambda>(k, v). k < key) es"] by simp
  moreover have "map_of (takeWhile (\<lambda>(k, v). k < key) es) key = None"
    by (auto simp: map_of_eq_None_iff dest!: set_takeWhileD)
  ultimately show ?thesis
    by (auto simp: ins_entry_def map_add_def fun_eq_iff split: option.splits)
qed

lemma takeWhile_between:
  assumes "below key pre" "beyond key post" "ordered (map (\<lambda>(k, v). E k v) es)"
  defines "i \<equiv> length (takeWhile (\<lambda>k. k < key) (map fst es))"
  shows "ins_entry key f (ents pre @ es @ ents post) =
    (if key \<in> fst ` set es then ents pre @ es @ ents post
     else ents pre @ (take i es @ (key, f) # drop i es) @ ents post)"
proof -
  let ?P = "\<lambda>(k, v). k < key"
  have pre: "\<forall>x \<in> set (ents pre). ?P x" "key \<notin> fst ` set (ents pre)"
    using assms(1) by (fastforce simp: below_def set_ents)+
  have post: "\<forall>x \<in> set (ents post). \<not> ?P x" "key \<notin> fst ` set (ents post)"
    using assms(2) by (fastforce simp: beyond_def set_ents)+
  have i: "i = length (takeWhile ?P es)" by (simp add: i_def takeWhile_map comp_def case_prod_unfold)
  have "takeWhile ?P (ents pre @ es @ ents post) = ents pre @ takeWhile ?P (es @ ents post)"
    "dropWhile ?P (ents pre @ es @ ents post) = dropWhile ?P (es @ ents post)"
    using pre(1) by auto
  moreover have "takeWhile ?P (es @ ents post) = takeWhile ?P es"
    "dropWhile ?P (es @ ents post) = dropWhile ?P es @ ents post"
  proof -
    have "takeWhile ?P (ents post) = []" "dropWhile ?P (ents post) = ents post"
      using post(1) by (cases "ents post"; auto)+
    then show "takeWhile ?P (es @ ents post) = takeWhile ?P es"
      "dropWhile ?P (es @ ents post) = dropWhile ?P es @ ents post"
      by (induction es) auto
  qed
  ultimately show ?thesis
    using pre(2) post(2) unfolding ins_entry_def i takeWhile_eq_take [symmetric] dropWhile_eq_drop [symmetric]
    by auto
qed

lemma takeWhile_less_found:
  "sorted_wrt (<) ks \<Longrightarrow> (key :: 'a :: linorder) \<in> set ks \<Longrightarrow>
   length (takeWhile (\<lambda>k. k < key) ks) < length ks \<and> ks ! length (takeWhile (\<lambda>k. k < key) ks) = key"
  by (induction ks) auto

text \<open>The entries of a leaf are in order, so the scan stops at the key if it is there.\<close>

lemma scan_cond_ok:
  assumes nd: "desc_ok (LeafD es nx) p nd" and sorted: "sorted_wrt (<) (map fst es)"
    and c0: "es = [] \<Longrightarrow> cond0 \<noteq> 0"
  shows "\<exists>cond. scan_cond cond0 nd key (length (takeWhile (\<lambda>k. k < key) (map fst es))) = Some cond \<and>
    (cond = 0 \<longleftrightarrow> key \<in> fst ` set es)"
proof (cases "es = []")
  case True
  then show ?thesis using nd c0 by (simp add: scan_cond_def)
next
  case False
  define i j where "i = length (takeWhile (\<lambda>k. k < key) (map fst es))"
    and j_def: "j = (if i < length es then i else length es - 1)"
  have n: "num_keys nd = length es" using nd by simp
  have j: "j < length es" using False by (auto simp: j_def)
  have slot: "keys nd ! j = Some (fst (es ! j))" "j < length (keys nd)"
    using nd j nth_take [of j "length es" "keys nd"] by auto
  have "fst (es ! j) \<in> fst ` set es" by (rule imageI [OF nth_mem [OF j]])
  moreover have "fst (es ! j) = key" if "key \<in> fst ` set es"
    using takeWhile_less_found [OF sorted, of key] that by (auto simp: j_def i_def)
  ultimately have "fst (es ! j) = key \<longleftrightarrow> key \<in> fst ` set es" by metis
  moreover have "scan_cond cond0 nd key i = Some (strcmp (fst (es ! j)) key)"
    using slot False unfolding scan_cond_def n j_def [symmetric] by (simp add: crash_simps)
  ultimately show ?thesis by (simp add: i_def)
qed

text \<open>The three ways insertion goes on a leaf.\<close>

lemma B_plus_tree_insert_present:
  assumes "bt h (Some r) es" "key \<in> fst ` set es"
  shows "B_plus_tree_insert cond0 h (Some r) key f = Some (h, Some r)"
proof -
  from bt_leaf [OF assms(1), of key] obtain c a les nx where c: "find_leaf_loop h r key = Some a"
    "es = ents (preF c) @ les @ ents (postF c)" "below key (preF c)" "beyond key (postF c)"
    "ordered (preF c @ map (\<lambda>(k, v). E k v) les @ postF c)"
    "hp h (add_mset (a, LeafD les nx, par_of c) (ctx_cells c a))" by metis
  have "map_of es key = map_of les key" using map_of_between [OF c(3,4), of les] c(2) by simp
  then have "map_of les key \<noteq> None" using assms(2) map_of_eq_None_iff [of es key] by simp
  then have key: "key \<in> fst ` set les" by (simp add: map_of_eq_None_iff)
  obtain nd where nd: "nodes h a = Some nd" "desc_ok (LeafD les nx) (par_of c) nd" using c(6) by (rule hp_get)
  have sorted: "sorted_wrt (<) (map fst les)"
    using ents_sorted [of "map (\<lambda>(k, v). E k v) les"] c(5) by (simp add: sorted_wrt_append)
  have "les \<noteq> []" using key by auto
  then have "scan_cond cond0 nd key (length (takeWhile (\<lambda>k. k < key) (map fst les))) = Some 0"
    using scan_cond_ok [OF nd(2) sorted, of cond0 key] key by auto
  then show ?thesis
    using c(1) nd scan_keys_spec [of "num_keys nd" "keys nd" "map fst les" "\<lambda>k. strcmp k key < 0"]
    by (simp add: B_plus_tree_insert_def find_leaf_def)
qed

text \<open>A tree rebuilt around a changed leaf holds the changed entries.\<close>

lemma bt_fill_leaf:
  assumes "addr (fill c (Leaf a les nx)) = r" "wfc 0 c"
    "wft (if c = [] then 0 else 2) 0 (Leaf a les nx)"
    "ordered (preF c @ map (\<lambda>(k, v). E k v) les @ postF c)"
    "keys_fit (preF c @ map (\<lambda>(k, v). E k v) les @ postF c)"
    "linked (preL c @ [(a, les, nx)] @ postL c)"
    "hp h (add_mset (a, LeafD les nx, par_of c) (ctx_cells c a))"
  shows "bt h (Some r) (ents (preF c) @ les @ ents (postF c))"
proof -
  have "wf_root (fill c (Leaf a les nx))" using wf_root_fill [of 0 c] assms(2,3) by (cases "c = []") auto
  then show ?thesis
    using assms flat_fill [OF assms(2), of "Leaf a les nx"]
    by (auto simp: leaves_fill cells_fill intro!: exI [of _ "fill c (Leaf a les nx)"])
qed

lemma ordered_insert:
  assumes "below key pre" "beyond key post" "ordered (pre @ map (\<lambda>(k, v). E k v) (xs @ ys) @ post)"
    "\<forall>(k, v) \<in> set xs. k < key" "\<forall>(k, v) \<in> set ys. key < k"
  shows "ordered (pre @ map (\<lambda>(k, v). E k v) (xs @ (key, f) # ys) @ post)"
  using assms by (fastforce simp: sorted_wrt_append below_def beyond_def ord_E_iff)

lemma dropWhile_less_beyond:
  "sorted_wrt (<) (map fst es) \<Longrightarrow> (key :: 'a :: linorder) \<notin> fst ` set es \<Longrightarrow>
   (k, v) \<in> set (dropWhile (\<lambda>(k, v). k < key) es) \<Longrightarrow> key < k"
  by (induction es) (force split: if_splits)+

lemma mkey_entry [simp]: "mkey (case e of (k, v) \<Rightarrow> E k v) = fst e"
  by (cases e) simp

lemma keys_fit_entries:
  "keys_fit (map (\<lambda>(k, v). E k v) es) \<longleftrightarrow> (\<forall>e \<in> set es. length (fst e) < MAX_KEY_LEN)"
  by (auto simp: keys_fit_def)

lemma leaf_split_flat:
  assumes "ordered (pre @ map (\<lambda>(k, v). E k v) es @ post)" "j < length es"
  shows "ordered (pre @ map (\<lambda>(k, v). E k v) (take j es) @ S (fst (es ! j)) #
    map (\<lambda>(k, v). E k v) (drop j es) @ post)"
proof -
  obtain k v where kv: "es ! j = (k, v)" by (cases "es ! j")
  then have d: "drop j es = (k, v) # drop (Suc j) es" using assms(2) by (simp add: Cons_nth_drop_Suc [symmetric])
  have "map (\<lambda>(k, v). E k v) es = map (\<lambda>(k, v). E k v) (take j es) @ E k v # map (\<lambda>(k, v). E k v) (drop (Suc j) es)"
    using id_take_nth_drop [OF assms(2)] kv by (metis case_prod_conv list.simps(9) map_append)
  then show ?thesis
    using ordered_sep [of "pre @ map (\<lambda>(k, v). E k v) (take j es)" k v] assms(1) by (simp add: d kv)
qed

lemma insert_split_case:
  assumes c: "addr (fill c (Leaf a les nx)) = r" "wfc 0 c"
    and ordered: "ordered (preF c @ map (\<lambda>(k, v). E k v) es' @ postF c)"
    and fit: "keys_fit (preF c @ map (\<lambda>(k, v). E k v) es' @ postF c)"
    and linked: "linked (preL c @ [(a, les, nx)] @ postL c)"
    and hp: "hp h (add_mset (a, LeafD les nx, par_of c) (ctx_cells c a))"
    and len: "length les = MAX_KEY_NUM" "i \<le> length les" "length key < MAX_KEY_LEN"
    and es': "es' = take i les @ (key, f) # drop i les"
  shows "\<exists>h' r'. insert_into_leaf_after_splitting h r a i key (PRec f) = Some (h', r') \<and>
    bt h' (Some r') (ents (preF c) @ es' @ ents (postF c))"
proof -
  obtain h1 b where sp: "insert_into_leaf_after_splitting h r a i key (PRec f) =
      insert_into_parent h1 r a b (fst (es' ! 2))"
    "hp h1 (cells (par_of c) (Leaf a (take 2 es') (PNode b)) + cells (par_of c) (Leaf b (drop 2 es') nx) + ctx_cells c a)"
    by (rule leaf_split_ok [OF hp len es'])
  let ?l = "Leaf a (take 2 es') (PNode b)" and ?r = "Leaf b (drop 2 es') nx" and ?k = "fst (es' ! 2)"
  let ?ms = "preF c @ flat ?l @ S ?k # flat ?r @ postF c"
  have l5: "length es' = 5" using es' len by (simp add: MAX_KEY_NUM_def)
  have ordered': "ordered ?ms" using leaf_split_flat [OF ordered, of 2] l5 by simp
  have "es' ! 2 \<in> set es'" using l5 by simp
  then have fit': "keys_fit ?ms"
    using fit by (auto simp: keys_fit_entries dest: in_set_takeD in_set_dropD)
  have root: "r = addr (fill c ?l)" using c(1) addr_fill [of "Leaf a les nx" ?l c] by simp
  have "hp h1 (cells (par_of c) ?l + cells (par_of c) ?r + ctx_cells c (addr ?l))" using sp(2) by simp
  from insert_into_parent_ok [OF this c(2) _ _ fit' root] l5 obtain h' t' where t':
    "insert_into_parent h1 r a b ?k = Some (h', addr t')" "hp h' (cells None t')" "wf_root t'"
    "flat t' = ?ms" "leaves t' = preL c @ leaves ?l @ leaves ?r @ postL c"
    by (auto simp: MAX_KEY_NUM_def)
  have "linked (leaves t')" using linked_split [of "preL c" a les nx "postL c"] linked unfolding t'(5) by simp
  moreover have "entries t' = ents (preF c) @ es' @ ents (postF c)"
    using append_take_drop_id [of 2 es'] unfolding t'(4) by simp
  ultimately show ?thesis
    using sp(1) t' ordered' fit' by (intro exI [of _ h'] exI [of _ "addr t'"]) auto
qed

lemma B_plus_tree_insert_absent:
  assumes bt: "bt h (Some r) es" and key: "key \<notin> fst ` set es" "length key < MAX_KEY_LEN"
    and c0: "es = [] \<Longrightarrow> cond0 \<noteq> 0"
  shows "\<exists>h' r'. B_plus_tree_insert cond0 h (Some r) key f = Some (h', Some r') \<and>
    bt h' (Some r') (ins_entry key f es)"
proof -
  obtain c a les nx where c: "find_leaf_loop h r key = Some a"
    "addr (fill c (Leaf a les nx)) = r" "wfc 0 c" "wft (if c = [] then 0 else 2) 0 (Leaf a les nx)"
    "es = ents (preF c) @ les @ ents (postF c)" "below key (preF c)" "beyond key (postF c)"
    "ordered (preF c @ map (\<lambda>(k, v). E k v) les @ postF c)"
    "keys_fit (preF c @ map (\<lambda>(k, v). E k v) les @ postF c)"
    "linked (preL c @ [(a, les, nx)] @ postL c)"
    "hp h (add_mset (a, LeafD les nx, par_of c) (ctx_cells c a))" by (rule bt_leaf [OF bt])
  obtain nd where nd: "nodes h a = Some nd" "desc_ok (LeafD les nx) (par_of c) nd" using c(11) by (rule hp_get)
  have sorted: "sorted_wrt (<) (map fst les)"
    using ents_sorted [of "map (\<lambda>(k, v). E k v) les"] c(8) by (simp add: sorted_wrt_append)
  define i where "i = length (takeWhile (\<lambda>k. k < key) (map fst les))"
  have i: "i \<le> length les" using length_takeWhile_le [of _ "map fst les"] by (simp add: i_def)
  have i': "i = length (takeWhile (\<lambda>(k, v). k < key) les)"
    by (simp add: i_def takeWhile_map comp_def case_prod_unfold)
  define es' where "es' = take i les @ (key, f) # drop i les"
  have keyles: "key \<notin> fst ` set les" using key(1) c(5) by auto
  have les: "\<forall>(k, v) \<in> set (take i les). k < key" "\<forall>(k, v) \<in> set (drop i les). key < k"
    using dropWhile_less_beyond [OF sorted keyles]
    unfolding i' takeWhile_eq_take [symmetric] dropWhile_eq_drop [symmetric] by (auto dest: set_takeWhileD)
  have ordered: "ordered (preF c @ map (\<lambda>(k, v). E k v) es' @ postF c)"
    unfolding es'_def using ordered_insert [OF c(6,7) _ les, of f] c(8) by simp
  have "set es' = insert (key, f) (set les)"
    unfolding es'_def by (metis Un_insert_right append_take_drop_id list.simps(15) set_append)
  then have fit: "keys_fit (preF c @ map (\<lambda>(k, v). E k v) es' @ postF c)"
    using c(9) key(2) by (auto simp: keys_fit_entries)
  have ins: "ins_entry key f es = ents (preF c) @ es' @ ents (postF c)"
    using takeWhile_between [OF c(6,7), of les f] c(5,8) keyles
    by (simp add: sorted_wrt_append es'_def i_def)
  have "les = [] \<Longrightarrow> cond0 \<noteq> 0" using c(4,5) c0 by (cases "c = []") auto
  from scan_cond_ok [OF nd(2) sorted this, of key] obtain cond where
    cond: "scan_cond cond0 nd key i = Some cond" "cond \<noteq> 0"
    using keyles unfolding i_def by blast
  have scan: "scan_keys (\<lambda>k. strcmp k key < 0) (keys nd) (num_keys nd) 0 = Some i"
    using nd(2) scan_keys_spec [of "num_keys nd" "keys nd" "map fst les" "\<lambda>k. strcmp k key < 0"]
    by (simp add: i_def)
  show ?thesis
  proof (cases "length les < MAX_KEY_NUM")
    case True
    obtain ks ps where st: "shift_right (keys nd) i (num_keys nd) = Some ks"
      "shift_right (pointers nd) i (num_keys nd) = Some ps" "i < length ks" "i < length ps"
      "desc_ok (LeafD es' nx) (par_of c)
        (nd\<lparr>keys := ks[i := Some key], pointers := ps[i := PRec f], num_keys := num_keys nd + 1\<rparr>)"
      unfolding es'_def by (rule leaf_store [OF nd(2) True i])
    have "bt (set_node h a (nd\<lparr>keys := ks[i := Some key], pointers := ps[i := PRec f], num_keys := num_keys nd + 1\<rparr>))
        (Some r) (ins_entry key f es)"
      unfolding ins using True i c(3,4) ordered fit hp_set [OF c(11) st(5)]
        linked_entries [of "preL c" a les nx "postL c" es'] c(10)
        addr_fill [of "Leaf a les nx" "Leaf a es' nx" c] c(2)
      by (intro bt_fill_leaf) (auto simp: es'_def)
    moreover have "num_keys nd < MAX_KEY_NUM" using nd(2) True by simp
    ultimately show ?thesis
      using c(1) nd(1) scan cond st key(2)
      by (simp add: B_plus_tree_insert_def find_leaf_def strcpy_key_fit crash_simps new_record_def)
  next
    case False
    then have len: "length les = MAX_KEY_NUM" "\<not> num_keys nd < MAX_KEY_NUM" using nd(2) by auto
    from insert_split_case [OF c(2,3) ordered fit c(10,11) len(1) i key(2) es'_def]
    obtain h' r' where "insert_into_leaf_after_splitting h r a i key (PRec f) = Some (h', r')"
      "bt h' (Some r') (ins_entry key f es)" unfolding ins by blast
    then show ?thesis
      using c(1) nd(1) scan cond len(2)
      by (simp add: B_plus_tree_insert_def find_leaf_def new_record_def)
  qed
qed

lemma B_plus_tree_insert_first:
  assumes "length key < MAX_KEY_LEN"
  shows "\<exists>h' r'. B_plus_tree_insert cond0 h None key f = Some (h', Some r') \<and> bt h' (Some r') [(key, f)]"
proof -
  let ?a = "next_node h"
  let ?nd = "blank_node\<lparr>is_leaf := True, pointers := (pointers blank_node)[0 := PRec f],
      keys := (keys blank_node)[0 := Some key], num_keys := 1\<rparr>"
  let ?h' = "set_node (fst (make_new_leaf h)) ?a ?nd"
  have "desc_ok (LeafD [(key, f)] Null) None ?nd"
    by (simp add: blank_node_def MAX_KEY_NUM_def eval_nat_numeral)
  moreover have "hp h {#}" by (simp add: hp_def)
  moreover have "?h' = set_node (fst (make_new_node h)) ?a ?nd"
    by (simp add: make_new_leaf_def set_node_def)
  ultimately have "hp ?h' (cells None (Leaf ?a [(key, f)] Null))" using hp_new by simp
  moreover have "wf_root (Leaf ?a [(key, f)] Null)"
    unfolding wf_root_def by (intro exI [of _ 0]) (simp add: MAX_KEY_NUM_def)
  ultimately have "bt ?h' (Some ?a) [(key, f)]"
    using assms by (auto intro!: exI [of _ "Leaf ?a [(key, f)] Null"])
  moreover have "B_plus_tree_insert cond0 h None key f = Some (?h', Some ?a)"
    using assms
    by (simp add: B_plus_tree_insert_def find_leaf_def strcpy_key_fit crash_simps new_record_def blank_arrays)
  ultimately show ?thesis by blast
qed

text \<open>Insertion never crashes and inserts, unless the tree is a fresh empty leaf and the
  uninitialised \<open>cond\<close> happens to be 0.\<close>

lemma B_plus_tree_insert_ok:
  assumes "bt h root es" "length key < MAX_KEY_LEN" "root = None \<or> es \<noteq> [] \<or> cond0 \<noteq> 0"
  shows "\<exists>h' r'. B_plus_tree_insert cond0 h root key f = Some (h', Some r') \<and>
    bt h' (Some r') (ins_entry key f es)"
proof (cases root)
  case None
  then show ?thesis using assms(1,2) B_plus_tree_insert_first by (simp add: ins_entry_def)
next
  case (Some r)
  show ?thesis
  proof (cases "key \<in> fst ` set es")
    case True
    then show ?thesis using assms(1) Some B_plus_tree_insert_present by (simp add: ins_entry_def)
  next
    case False
    then show ?thesis using assms Some B_plus_tree_insert_absent by blast
  qed
qed

section \<open>The fresh tree\<close>

lemma B_plus_tree_initial_ok:
  "bt (fst (B_plus_tree_initial h)) (Some (snd (B_plus_tree_initial h))) []"
proof -
  let ?a = "next_node h" and ?nd = "blank_node\<lparr>is_leaf := True\<rparr>"
  have "desc_ok (LeafD [] Null) None ?nd" by (simp add: blank_node_def MAX_KEY_NUM_def eval_nat_numeral)
  moreover have "hp h {#}" by (simp add: hp_def)
  ultimately have "hp (fst (make_new_leaf h)) (cells None (Leaf ?a [] Null))"
    using hp_new by (simp add: make_new_leaf_def)
  moreover have "wf_root (Leaf ?a [] Null)" unfolding wf_root_def by (intro exI [of _ 0]) simp
  moreover have "snd (make_new_leaf h) = ?a" by (simp add: make_new_leaf_def)
  ultimately show ?thesis by (auto simp: B_plus_tree_initial_def intro!: exI [of _ "Leaf ?a [] Null"])
qed

end
