(* ===== verification/Bplus_Remove.thy ===== *)
theory Bplus_Remove
  imports Bplus_Insert
begin

text \<open>
  Removal.  Taking an entry out of a node, merging two neighbours and moving one entry between
  neighbours are verified on their own; \<open>delete_entry\<close> follows by induction on the context
  above the node.  The result is the deletion of the key from the list of entries.
\<close>

section \<open>Taking an entry out of a node\<close>

fun removes :: "desc \<Rightarrow> nat \<Rightarrow> desc \<Rightarrow> bool" where
  "removes (LeafD es nx) i (LeafD es' nx') =
     (i < length es \<and> es' = take i es @ drop (Suc i) es \<and> nx' = nx)"
| "removes (InnerD as ks) i (InnerD as' ks') =
     (0 < i \<and> i \<le> length ks \<and> as' = take i as @ drop (Suc i) as \<and> ks' = take (i - 1) ks @ drop i ks)"
| "removes _ _ _ = False"

lemma remove_entry_leaf:
  assumes nd: "desc_ok (LeafD es nx) p nd" and i: "i < length es"
  obtains nd' where "remove_entry nd i = Some nd'"
    "desc_ok (LeafD (take i es @ drop (Suc i) es) nx) p nd'"
proof -
  let ?m = "length es - 1"
  have n: "num_keys nd = length es" "length es \<le> length (keys nd)" "length es \<le> length (pointers nd)"
    "take (length es) (keys nd) = map (Some \<circ> fst) es" "take (length es) (pointers nd) = map (PRec \<circ> snd) es"
    using nd by auto
  obtain ks where ks: "shift_left (keys nd) i ?m = Some (ks, ?m)" "length ks = length (keys nd)"
    "take ?m ks = map (Some \<circ> fst) (take i es @ drop (Suc i) es)"
    "\<forall>j. length es \<le> j \<and> j < length (keys nd) \<longrightarrow> ks ! j = keys nd ! j"
    by (rule shift_left_map [OF n(4) i n(2)])
  obtain ps where ps: "shift_left (pointers nd) i ?m = Some (ps, ?m)" "length ps = length (pointers nd)"
    "take ?m ps = map (PRec \<circ> snd) (take i es @ drop (Suc i) es)"
    "\<forall>j. length es \<le> j \<and> j < length (pointers nd) \<longrightarrow> ps ! j = pointers nd ! j"
    by (rule shift_left_map [OF n(5) i n(3)])
  have m: "?m < length ks" "?m < length ps" "?m \<noteq> MAX_KEY_NUM" "length (take i es @ drop (Suc i) es) = ?m"
    using nd i ks(2) ps(2) by auto
  have empty: "take i es @ drop (Suc i) es = [] \<Longrightarrow> ?m = 0" using m(4) by (metis list.size(3))
  have next': "ps ! MAX_KEY_NUM = nx" using ps(4) [THEN spec, of MAX_KEY_NUM] nd i by auto
  have "es \<noteq> []" using i by auto
  then show ?thesis
    using that nd i n(1) ks(1-3) ps(1-3) m empty next'
    by (simp add: remove_entry_def crash_simps)
qed

lemma remove_entry_inner:
  assumes nd: "desc_ok (InnerD as ks) p nd" and i: "0 < i" "i \<le> length ks"
  obtains nd' where "remove_entry nd i = Some nd'"
    "desc_ok (InnerD (take i as @ drop (Suc i) as) (take (i - 1) ks @ drop i ks)) p nd'"
proof -
  have n: "num_keys nd = length ks" "length ks \<le> length (keys nd)" "length as \<le> length (pointers nd)"
    "take (length ks) (keys nd) = map Some ks" "take (length as) (pointers nd) = map PNode as"
    "length as - 1 = length ks"
    using nd by auto
  have i': "i - 1 < length ks" "i < length as" using nd i by auto
  obtain ks' where ks: "shift_left (keys nd) (i - 1) (length ks - 1) = Some (ks', length ks - 1)"
    "length ks' = length (keys nd)"
    "take (length ks - 1) ks' = map Some (take (i - 1) ks @ drop (Suc (i - 1)) ks)"
    "\<forall>j. length ks \<le> j \<and> j < length (keys nd) \<longrightarrow> ks' ! j = keys nd ! j"
    by (rule shift_left_map [OF n(4) i'(1) n(2)])
  obtain ps where ps: "shift_left (pointers nd) i (length as - 1) = Some (ps, length as - 1)"
    "length ps = length (pointers nd)"
    "take (length as - 1) ps = map PNode (take i as @ drop (Suc i) as)"
    "\<forall>j. length as \<le> j \<and> j < length (pointers nd) \<longrightarrow> ps ! j = pointers nd ! j"
    by (rule shift_left_map [OF n(5) i'(2) n(3)])
  have "ks \<noteq> []" "Suc (length ks - Suc 0) = length ks" "length ks - Suc 0 < length ks'"
    "length ks - Suc 0 \<le> MAX_KEY_NUM"
    using i nd ks(2) by auto
  then show ?thesis
    using that nd i n(1) ks(1-3) ps(1-3)
    by (simp add: remove_entry_def crash_simps n(6))
qed

lemma remove_entry_ok:
  assumes "desc_ok d p nd" "removes d i d'"
  obtains nd' where "remove_entry nd i = Some nd'" "desc_ok d' p nd'"
proof (cases "(d, i, d')" rule: removes.cases)
  case (1 es nx j es' nx')
  then show ?thesis using assms remove_entry_leaf [of es nx p nd i] that by (metis prod.inject removes.simps(1))
next
  case (2 as ks j as' ks')
  then show ?thesis using assms remove_entry_inner [of as ks p nd i] that by (metis prod.inject removes.simps(2))
qed (use assms(2) in auto)

section \<open>Local changes\<close>

text \<open>A stretch of the flattening may be replaced by another with the same entries, and a
  stretch of the leaf list by another with the same links in and out.\<close>

definition fits :: "mark list \<Rightarrow> mark list \<Rightarrow> bool" where
  "fits xs ys \<longleftrightarrow> ents xs = ents ys \<and> (keys_fit xs \<longrightarrow> keys_fit ys) \<and>
     (\<forall>pre post. ordered (pre @ xs @ post) \<longrightarrow> ordered (pre @ ys @ post))"

definition relinks :: "(node_ptr \<times> 'e \<times> ptr) list \<Rightarrow> (node_ptr \<times> 'e \<times> ptr) list \<Rightarrow> bool" where
  "relinks xs ys \<longleftrightarrow> (\<forall>pre post. linked (pre @ xs @ post) \<longrightarrow> linked (pre @ ys @ post))"

lemma fits_refl [simp]: "fits xs xs"
  by (simp add: fits_def)

lemma relinks_refl [simp]: "relinks xs xs"
  by (simp add: relinks_def)

lemma relinks_merge: "relinks [(a, e1, PNode b), (b, e2, nx)] [(a, e, nx)]"
  unfolding relinks_def
proof (intro allI impI)
  fix pre post :: "(node_ptr \<times> 'a \<times> ptr) list"
  assume "linked (pre @ [(a, e1, PNode b), (b, e2, nx)] @ post)"
  then show "linked (pre @ [(a, e, nx)] @ post)"
    using linked_head [of b e2 nx post a e] by (induction pre rule: linked.induct) auto
qed

lemma linked_next: "linked (pre @ (a, e, nx) # (b, e', nx') # post) \<Longrightarrow> nx = PNode b"
  by (induction pre rule: linked.induct) auto

lemma relinks_pair: "relinks [(a, e1, n1), (b, e2, n2)] [(a, e1', n1), (b, e2', n2)]"
  unfolding relinks_def
proof (intro allI impI)
  fix pre post :: "(node_ptr \<times> 'a \<times> ptr) list"
  assume "linked (pre @ [(a, e1, n1), (b, e2, n2)] @ post)"
  then show "linked (pre @ [(a, e1', n1), (b, e2', n2)] @ post)"
    using linked_head [of b e2 n2 post b e2'] by (induction pre rule: linked.induct) auto
qed

abbreviation emarks :: "(string \<times> file_ptr) list \<Rightarrow> mark list" where
  "emarks es \<equiv> map (\<lambda>(k, v). E k v) es"

lemma fits_drop_sep: "fits (xs @ S k # ys) (xs @ ys)"
  using ordered_drop_sep [of "_ @ xs" k "ys @ _"] by (auto simp: fits_def)

lemma fits_move_sep:
  assumes "es1 @ es2 = fs1 @ fs2" "fs2 \<noteq> []"
  shows "fits (emarks es1 @ S k # emarks es2) (emarks fs1 @ S (fst (hd fs2)) # emarks fs2)"
proof -
  obtain k' v' fs where fs2: "fs2 = (k', v') # fs" using assms(2) by (cases fs2) auto
  have marks: "emarks es1 @ emarks es2 = emarks fs1 @ emarks fs2"
    using assms(1) by (metis map_append)
  have "ordered (pre @ emarks fs1 @ S k' # E k' v' # emarks fs @ post)"
    if "ordered (pre @ emarks es1 @ S k # emarks es2 @ post)" for pre post
  proof -
    have "ordered ((pre @ emarks es1) @ emarks es2 @ post)"
      using ordered_drop_sep [of "pre @ emarks es1" k "emarks es2 @ post"] that by simp
    then have "ordered (pre @ (emarks es1 @ emarks es2) @ post)" by simp
    then show ?thesis unfolding marks using ordered_sep [of "pre @ emarks fs1" k' v'] fs2 by simp
  qed
  moreover have "keys_fit (emarks fs1 @ emarks fs2) \<longleftrightarrow> keys_fit (emarks es1 @ emarks es2)"
    unfolding marks ..
  ultimately show ?thesis using assms(1) fs2 by (auto simp: fits_def)
qed

section \<open>Merging two neighbours\<close>

lemma set_parents_append:
  "set_parents h (xs @ ys) p = do { h' \<leftarrow> set_parents h xs p; set_parents h' ys p }"
  by (induction xs arbitrary: h) (auto split: ptr.splits Option.bind_splits)

text \<open>The arguments of \<open>coalesce_nodes\<close> after it has put the neighbour on the left.\<close>

definition merge_args :: "node_ptr \<Rightarrow> node_ptr \<Rightarrow> nat \<Rightarrow> node_ptr \<times> node_ptr \<times> nat" where
  "merge_args p nb i = (if i = 0 then (nb, p, 1) else (p, nb, i))"

lemma merge_leaves:
  assumes hp: "hp h (cells (Some b) (Leaf x es1 n1) + cells (Some b) (Leaf y es2 n2) + add_mset (b, D, q) M)"
    and args: "merge_args p nb i = (y, x, idx)"
    and len: "length es1 + length es2 \<le> MAX_KEY_NUM" "es1 \<noteq> []"
  obtains h' where "merge_nodes h p nb i = Some (h', b, idx)"
    "hp h' (cells (Some b) (Leaf x (es1 @ es2) n2) + add_mset (b, D, q) M)"
proof -
  have hp': "hp h (add_mset (x, LeafD es1 n1, Some b) (add_mset (y, LeafD es2 n2, Some b) (add_mset (b, D, q) M)))"
    using hp by (simp add: cells_ac)
  obtain nx where nx: "nodes h x = Some nx" "desc_ok (LeafD es1 n1) (Some b) nx" using hp' by (rule hp_get)
  obtain ny where ny: "nodes h y = Some ny" "desc_ok (LeafD es2 n2) (Some b) ny"
    by (rule hp_mem [OF hp', of y "LeafD es2 n2" "Some b"]) auto
  obtain par where par: "nodes h b = Some par" by (rule hp_mem [OF hp', of b D q]) auto
  have xy: "x \<noteq> y" using hp_distinct [OF hp'] by auto
  have copies: "copy_loop (keys nx) (length es1) (keys ny) 0 (length es2) =
      Some (map (Some \<circ> fst) (es1 @ es2) @ drop (length es1 + length es2) (keys nx))"
    "copy_loop (pointers nx) (length es1) (pointers ny) 0 (length es2) =
      Some (map (PRec \<circ> snd) (es1 @ es2) @ drop (length es1 + length es2) (pointers nx))"
    using nx(2) ny(2) len by (auto simp: copy_loop_spec)
  let ?ps = "(map (PRec \<circ> snd) (es1 @ es2) @ drop (length es1 + length es2) (pointers nx))[MAX_KEY_NUM := n2]"
  let ?nd = "nx\<lparr>keys := map (Some \<circ> fst) (es1 @ es2) @ drop (length es1 + length es2) (keys nx),
      pointers := ?ps, num_keys := length es1 + length es2\<rparr>"
  have "desc_ok (LeafD (es1 @ es2) n2) (Some b) ?nd"
    using nx(2) len by simp
  from hp_set [OF hp' this] have "hp (set_node h x ?nd) (add_mset (y, LeafD es2 n2, Some b)
      (add_mset (x, LeafD (es1 @ es2) n2, Some b) (add_mset (b, D, q) M)))"
    by (simp add: cells_ac)
  from hp_destroy [OF this] have "hp (destroy_node (set_node h x ?nd) y)
      (cells (Some b) (Leaf x (es1 @ es2) n2) + add_mset (b, D, q) M)" by (simp add: cells_ac)
  moreover have "merge_nodes h p nb i = Some (destroy_node (set_node h x ?nd) y, b, idx)"
    using nx ny par copies args len
    by (simp add: merge_nodes_def merge_args_def [symmetric] crash_simps Let_def)
  ultimately show ?thesis using that by blast
qed

lemma merge_inners:
  assumes hp: "hp h (cells (Some b) (Inner x ts1 ks1) + cells (Some b) (Inner y ts2 ks2) +
      add_mset (b, InnerD as ks, q) M)"
    and args: "merge_args p nb i = (y, x, idx)"
    and len: "length ks1 + length ks2 < MAX_KEY_NUM" "idx - 1 < length ks"
    and key: "length (ks ! (idx - 1)) < MAX_KEY_LEN"
  obtains h' where "merge_nodes h p nb i = Some (h', b, idx)"
    "hp h' (cells (Some b) (Inner x (ts1 @ ts2) (ks1 @ ks ! (idx - 1) # ks2)) + add_mset (b, InnerD as ks, q) M)"
proof -
  let ?sep = "ks ! (idx - 1)"
  let ?rest = "cellsl (Some x) ts1 + cellsl (Some y) ts2 + add_mset (b, InnerD as ks, q) M"
  have hp': "hp h (add_mset (x, InnerD (map addr ts1) ks1, Some b) (add_mset (y, InnerD (map addr ts2) ks2, Some b) ?rest))"
    using hp by (simp add: cells_ac)
  obtain nx where nx: "nodes h x = Some nx" "desc_ok (InnerD (map addr ts1) ks1) (Some b) nx" using hp' by (rule hp_get)
  obtain ny where ny: "nodes h y = Some ny" "desc_ok (InnerD (map addr ts2) ks2) (Some b) ny"
    by (rule hp_mem [OF hp', of y "InnerD (map addr ts2) ks2" "Some b"]) auto
  obtain par where par: "nodes h b = Some par" "desc_ok (InnerD as ks) q par"
    by (rule hp_mem [OF hp', of b "InnerD as ks" q]) auto
  have sep: "keys par ! (idx - 1) = Some ?sep" "idx - 1 < length (keys par)"
    using par(2) len(2) nth_take [of "idx - 1" "length ks" "keys par"] by auto
  have xy: "x \<noteq> y" using hp_distinct [OF hp'] by auto
  have "take (length ks1 + 1) ((keys nx)[length ks1 := Some ?sep]) = map Some ks1 @ [Some ?sep]"
    using nx(2) len by (simp add: take_Suc_conv_app_nth)
  then have copies: "copy_loop ((keys nx)[length ks1 := Some ?sep]) (length ks1 + 1) (keys ny) 0 (length ks2) =
      Some (map Some (ks1 @ ?sep # ks2) @ drop (length ks1 + 1 + length ks2) (keys nx))"
    "copy_loop (pointers nx) (length ks1 + 1) (pointers ny) 0 (length ks2 + 1) =
      Some (map (PNode \<circ> addr) (ts1 @ ts2) @ drop (length ks1 + length ks2 + 2) (pointers nx))"
    using nx(2) ny(2) len by (auto simp: copy_loop_spec)
  let ?nd = "nx\<lparr>keys := map Some (ks1 @ ?sep # ks2) @ drop (length ks1 + 1 + length ks2) (keys nx),
      pointers := map (PNode \<circ> addr) (ts1 @ ts2) @ drop (length ks1 + length ks2 + 2) (pointers nx),
      num_keys := length ks1 + length ks2 + 1\<rparr>"
  let ?D = "InnerD (map addr (ts1 @ ts2)) (ks1 @ ?sep # ks2)"
  have "desc_ok ?D (Some b) ?nd" using nx(2) ny(2) len by simp
  from hp_set [OF hp' this] have "hp (set_node h x ?nd) (cellsl (Some x) ts1 + (cellsl (Some y) ts2 +
      {# (x, ?D, Some b) #} + {# (y, InnerD (map addr ts2) ks2, Some b) #} + add_mset (b, InnerD as ks, q) M))"
    by (simp add: cells_ac)
  from set_parents_ok [OF this, of x] obtain h1 where h1:
    "set_parents (set_node h x ?nd) (map (PNode \<circ> addr) ts1) x = Some h1"
    "hp h1 (cellsl (Some x) ts1 + (cellsl (Some y) ts2 +
      {# (x, ?D, Some b) #} + {# (y, InnerD (map addr ts2) ks2, Some b) #} + add_mset (b, InnerD as ks, q) M))"
    by blast
  then have "hp h1 (cellsl (Some y) ts2 + (cellsl (Some x) ts1 +
      {# (x, ?D, Some b) #} + {# (y, InnerD (map addr ts2) ks2, Some b) #} + add_mset (b, InnerD as ks, q) M))"
    by (simp add: cells_ac)
  from set_parents_ok [OF this, of x] obtain h2 where h2:
    "set_parents h1 (map (PNode \<circ> addr) ts2) x = Some h2"
    "hp h2 (add_mset (y, InnerD (map addr ts2) ks2, Some b)
       (cells (Some b) (Inner x (ts1 @ ts2) (ks1 @ ?sep # ks2)) + add_mset (b, InnerD as ks, q) M))"
    by (auto simp: cells_ac)
  have "hp (destroy_node h2 y) (cells (Some b) (Inner x (ts1 @ ts2) (ks1 @ ?sep # ks2)) + add_mset (b, InnerD as ks, q) M)"
    by (rule hp_destroy [OF h2(2)])
  moreover have "merge_nodes h p nb i = Some (destroy_node h2 y, b, idx)"
  proof -
    have "set_parents (set_node h x ?nd) (map (PNode \<circ> addr) ts1 @ map (PNode \<circ> addr) ts2) x = Some h2"
      using h1(1) h2(1) by (simp add: set_parents_append)
    moreover have "take (length ks1 + length ks2 + 2) (pointers ?nd) = map (PNode \<circ> addr) ts1 @ map (PNode \<circ> addr) ts2"
      using nx(2) ny(2) by simp
    ultimately show ?thesis
      using nx ny par sep copies args len key
      by (simp add: merge_nodes_def merge_args_def [symmetric] crash_simps Let_def strcpy_key_fit)
  qed
  ultimately show ?thesis using that by blast
qed

section \<open>Moving one entry between neighbours\<close>

text \<open>The three nodes involved, and storing all of them.\<close>

lemma hp_three:
  assumes "hp h (add_mset (x, dx, px) (add_mset (y, dy, py) (add_mset (z, dz, pz) M)))"
  obtains nx ny nz where "nodes h x = Some nx" "desc_ok dx px nx" "nodes h y = Some ny" "desc_ok dy py ny"
    "nodes h z = Some nz" "desc_ok dz pz nz"
  using assms by (auto simp: hp_def)

lemma hp_set_three:
  assumes hp: "hp h (add_mset (x, dx, px) (add_mset (y, dy, py) (add_mset (z, dz, pz) M)))"
    and ok: "desc_ok dx' px' nx" "desc_ok dy' py' ny" "desc_ok dz' pz' nz"
  shows "hp (set_node (set_node (set_node h z nz) y ny) x nx)
    (add_mset (x, dx', px') (add_mset (y, dy', py') (add_mset (z, dz', pz') M)))"
proof -
  have "hp h (add_mset (z, dz, pz) (add_mset (x, dx, px) (add_mset (y, dy, py) M)))"
    using hp by (simp add: cells_ac)
  from hp_set [OF this ok(3)]
  have "hp (set_node h z nz) (add_mset (y, dy, py) (add_mset (x, dx, px) (add_mset (z, dz', pz') M)))"
    by (simp add: cells_ac)
  from hp_set [OF this ok(2)]
  have "hp (set_node (set_node h z nz) y ny) (add_mset (x, dx, px) (add_mset (y, dy', py') (add_mset (z, dz', pz') M)))"
    by (simp add: cells_ac)
  from hp_set [OF this ok(1)] show ?thesis .
qed

lemma sep_slot:
  assumes "desc_ok (InnerD as ks) q par" "i < length ks"
  shows "keys par ! i = Some (ks ! i)" "i < length (keys par)"
    "desc_ok (InnerD as (ks[i := k])) q (par\<lparr>keys := (keys par)[i := Some k]\<rparr>)"
proof -
  have live: "take (length ks) (keys par) = map Some ks" "length ks \<le> length (keys par)" using assms by auto
  then show "keys par ! i = Some (ks ! i)" "i < length (keys par)"
    using assms(2) nth_take [of i "length ks" "keys par"] by auto
  have "take (length ks) ((keys par)[i := Some k]) = map Some (ks[i := k])"
    using live by (simp add: take_update_swap map_update)
  then show "desc_ok (InnerD as (ks[i := k])) q (par\<lparr>keys := (keys par)[i := Some k]\<rparr>)"
    using assms by simp
qed

lemma leaf_slots:
  assumes "desc_ok (LeafD es nx) p nd" "i < length es"
  shows "keys nd ! i = Some (fst (es ! i))" "pointers nd ! i = PRec (snd (es ! i))"
    "i < length (keys nd)" "i < length (pointers nd)"
  using assms nth_take [of i "length es" "keys nd"] nth_take [of i "length es" "pointers nd"] by auto

lemma take_prefix: "take m xs = ys @ zs \<Longrightarrow> length ys \<le> m \<Longrightarrow> take (length ys) xs = ys"
  by (metis append_eq_conv_conj min.absorb1 take_take)

lemma leaf_pop_back:
  assumes nd: "desc_ok (LeafD (es @ [e]) nx) p nd"
  shows "desc_ok (LeafD es nx) p (nd\<lparr>keys := (keys nd)[length es := None],
      pointers := (pointers nd)[length es := Null], num_keys := length es\<rparr>)"
proof -
  have "take (length es) (keys nd) = map (Some \<circ> fst) es" "take (length es) (pointers nd) = map (PRec \<circ> snd) es"
    using nd take_prefix [of "Suc (length es)" "keys nd" "map (Some \<circ> fst) es"]
      take_prefix [of "Suc (length es)" "pointers nd" "map (PRec \<circ> snd) es"] by auto
  then show ?thesis using nd by auto
qed

lemma distribute_right_leaf:
  assumes hp: "hp h (cells (Some b) (Leaf x (es1 @ [e]) n1) + cells (Some b) (Leaf y es2 n2) +
      add_mset (b, InnerD as ks, q) M)"
    and i: "0 < i" "i \<le> length ks" and len: "length es2 < MAX_KEY_NUM" "length (fst e) < MAX_KEY_LEN"
  obtains h' where "distribute_nodes h y x i = Some h'"
    "hp h' (cells (Some b) (Leaf x es1 n1) + cells (Some b) (Leaf y (e # es2) n2) +
      add_mset (b, InnerD as (ks[i - 1 := fst e]), q) M)"
proof -
  have hp': "hp h (add_mset (y, LeafD es2 n2, Some b) (add_mset (x, LeafD (es1 @ [e]) n1, Some b)
      (add_mset (b, InnerD as ks, q) M)))" using hp by (simp add: cells_ac)
  obtain ny nx par where nd: "nodes h y = Some ny" "desc_ok (LeafD es2 n2) (Some b) ny"
    "nodes h x = Some nx" "desc_ok (LeafD (es1 @ [e]) n1) (Some b) nx"
    "nodes h b = Some par" "desc_ok (InnerD as ks) q par" by (rule hp_three [OF hp'])
  have i': "i - 1 < length ks" using i by simp
  note sep = sep_slot(1,2) [OF nd(6) i'] sep_slot(3) [OF nd(6) i', of "fst e"]
  note slots = leaf_slots [OF nd(4), of "length es1"]
  obtain ks' ps where st: "shift_right (keys ny) 0 (num_keys ny) = Some ks'"
    "shift_right (pointers ny) 0 (num_keys ny) = Some ps" "0 < length ks'" "0 < length ps"
    "desc_ok (LeafD (take 0 es2 @ (fst e, snd e) # drop 0 es2) n2) (Some b)
       (ny\<lparr>keys := ks'[0 := Some (fst e)], pointers := ps[0 := PRec (snd e)], num_keys := num_keys ny + 1\<rparr>)"
    by (rule leaf_store [OF nd(2) len(1), of 0]) auto
  have "desc_ok (LeafD (e # es2) n2) (Some b)
       (ny\<lparr>keys := ks'[0 := Some (fst e)], pointers := ps[0 := PRec (snd e)], num_keys := num_keys ny + 1\<rparr>)"
    using st(5) by simp
  note hp3 = hp_set_three [OF hp' this leaf_pop_back [OF nd(4)] sep(3)]
  show ?thesis
  proof (rule that)
    show "hp (set_node (set_node (set_node h b (par\<lparr>keys := (keys par)[i - 1 := Some (fst e)]\<rparr>)) x
        (nx\<lparr>keys := (keys nx)[length es1 := None], pointers := (pointers nx)[length es1 := Null],
           num_keys := length es1\<rparr>)) y
        (ny\<lparr>keys := ks'[0 := Some (fst e)], pointers := ps[0 := PRec (snd e)], num_keys := num_keys ny + 1\<rparr>))
      (cells (Some b) (Leaf x es1 n1) + cells (Some b) (Leaf y (e # es2) n2) +
      add_mset (b, InnerD as (ks[i - 1 := fst e]), q) M)" using hp3 by (simp add: cells_ac)
    have "num_keys nx = Suc (length es1)" "is_leaf ny" "parent ny = Some b" using nd by auto
    then show "distribute_nodes h y x i = Some (set_node (set_node (set_node h b (par\<lparr>keys := (keys par)[i - 1 := Some (fst e)]\<rparr>)) x
        (nx\<lparr>keys := (keys nx)[length es1 := None], pointers := (pointers nx)[length es1 := Null],
           num_keys := length es1\<rparr>)) y
        (ny\<lparr>keys := ks'[0 := Some (fst e)], pointers := ps[0 := PRec (snd e)], num_keys := num_keys ny + 1\<rparr>))"
      using nd(1,3,5) i(1) st(1-4) sep(1,2) slots len(2)
      by (simp add: distribute_nodes_def distribute_right_def strcpy_key_fit crash_simps)
  qed
qed

lemma leaf_push_back:
  assumes nd: "desc_ok (LeafD es nx) p nd" and len: "length es < MAX_KEY_NUM"
  shows "desc_ok (LeafD (es @ [e]) nx) p (nd\<lparr>keys := (keys nd)[length es := Some (fst e)],
      pointers := (pointers nd)[length es := PRec (snd e)], num_keys := num_keys nd + 1\<rparr>)"
  using nd len by (simp add: take_Suc_conv_app_nth)

text \<open>Dropping the first entry by shifting the others down.\<close>

lemma leaf_pop_front:
  assumes nd: "desc_ok (LeafD (e # es) nx) p nd"
  obtains ks ps where "shift_left (keys nd) 0 (length es) = Some (ks, length es)"
    "shift_left (pointers nd) 0 (length es) = Some (ps, length es)"
    "length es < length ks" "length es < length ps"
    "desc_ok (LeafD es nx) p (nd\<lparr>keys := ks[length es := None],
       pointers := ps[length es := Null], num_keys := length es\<rparr>)"
proof -
  let ?es = "e # es"
  have n: "length ?es \<le> length (keys nd)" "length ?es \<le> length (pointers nd)" "0 < length ?es"
    "take (length ?es) (keys nd) = map (Some \<circ> fst) ?es" "take (length ?es) (pointers nd) = map (PRec \<circ> snd) ?es"
    using nd by auto
  obtain ks where ks: "shift_left (keys nd) 0 (length ?es - 1) = Some (ks, length ?es - 1)" "length ks = length (keys nd)"
    "take (length ?es - 1) ks = map (Some \<circ> fst) (take 0 ?es @ drop (Suc 0) ?es)"
    "\<forall>j. length ?es \<le> j \<and> j < length (keys nd) \<longrightarrow> ks ! j = keys nd ! j"
    by (rule shift_left_map [OF n(4,3,1)])
  obtain ps where ps: "shift_left (pointers nd) 0 (length ?es - 1) = Some (ps, length ?es - 1)" "length ps = length (pointers nd)"
    "take (length ?es - 1) ps = map (PRec \<circ> snd) (take 0 ?es @ drop (Suc 0) ?es)"
    "\<forall>j. length ?es \<le> j \<and> j < length (pointers nd) \<longrightarrow> ps ! j = pointers nd ! j"
    by (rule shift_left_map [OF n(5,3,2)])
  have "ps ! MAX_KEY_NUM = nx" using ps(4) [THEN spec, of MAX_KEY_NUM] nd by simp
  then show ?thesis using that [of ks ps] ks(1-3) ps(1-3) nd by auto
qed

lemma distribute_left_leaf:
  assumes hp: "hp h (cells (Some b) (Leaf x es1 n1) + cells (Some b) (Leaf y (e # es2) n2) +
      add_mset (b, InnerD as ks, q) M)"
    and i: "0 < length ks" and len: "length es1 < MAX_KEY_NUM" "es2 \<noteq> []" "length (fst (hd es2)) < MAX_KEY_LEN"
  obtains h' where "distribute_nodes h x y 0 = Some h'"
    "hp h' (cells (Some b) (Leaf x (es1 @ [e]) n1) + cells (Some b) (Leaf y es2 n2) +
      add_mset (b, InnerD as (ks[0 := fst (hd es2)]), q) M)"
proof -
  have hp': "hp h (add_mset (x, LeafD es1 n1, Some b) (add_mset (y, LeafD (e # es2) n2, Some b)
      (add_mset (b, InnerD as ks, q) M)))" using hp by (simp add: cells_ac)
  obtain nx ny par where nd: "nodes h x = Some nx" "desc_ok (LeafD es1 n1) (Some b) nx"
    "nodes h y = Some ny" "desc_ok (LeafD (e # es2) n2) (Some b) ny"
    "nodes h b = Some par" "desc_ok (InnerD as ks) q par" by (rule hp_three [OF hp'])
  note sep = sep_slot(1,2) [OF nd(6) i] sep_slot(3) [OF nd(6) i, of "fst (hd es2)"]
  have "keys ny ! 1 = Some (fst (hd es2))" "1 < length (keys ny)"
    using leaf_slots(1,3) [OF nd(4), of 1] len(2) by (auto simp: hd_conv_nth)
  note slots = this leaf_slots [OF nd(4), of 0]
  obtain ks' ps where st: "shift_left (keys ny) 0 (length es2) = Some (ks', length es2)"
    "shift_left (pointers ny) 0 (length es2) = Some (ps, length es2)"
    "length es2 < length ks'" "length es2 < length ps"
    "desc_ok (LeafD es2 n2) (Some b) (ny\<lparr>keys := ks'[length es2 := None],
       pointers := ps[length es2 := Null], num_keys := length es2\<rparr>)"
    by (rule leaf_pop_front [OF nd(4)])
  let ?h' = "set_node (set_node (set_node h b (par\<lparr>keys := (keys par)[0 := Some (fst (hd es2))]\<rparr>)) y
      (ny\<lparr>keys := ks'[length es2 := None], pointers := ps[length es2 := Null], num_keys := length es2\<rparr>)) x
      (nx\<lparr>keys := (keys nx)[length es1 := Some (fst e)], pointers := (pointers nx)[length es1 := PRec (snd e)],
        num_keys := num_keys nx + 1\<rparr>)"
  have "hp ?h' (cells (Some b) (Leaf x (es1 @ [e]) n1) + cells (Some b) (Leaf y es2 n2) +
      add_mset (b, InnerD as (ks[0 := fst (hd es2)]), q) M)"
    using hp_set_three [OF hp' leaf_push_back [OF nd(2) len(1)] st(5) sep(3)] by (simp add: cells_ac)
  moreover have "num_keys ny = Suc (length es2)" "is_leaf nx" "parent nx = Some b" "num_keys nx = length es1"
    "length es1 < length (keys nx)" "length es1 < length (pointers nx)" using nd len(1) by auto
  then have "distribute_nodes h x y 0 = Some ?h'"
    using nd(1,3,5) st(1-4) sep(1,2) slots len(3)
    by (simp add: distribute_nodes_def distribute_left_def strcpy_key_fit crash_simps)
  ultimately show ?thesis by (rule that [rotated])
qed

text \<open>Inner nodes.\<close>

lemma inner_slots:
  assumes "desc_ok (InnerD as ks) p nd"
  shows "i < length ks \<Longrightarrow> keys nd ! i = Some (ks ! i)" "i < length as \<Longrightarrow> pointers nd ! i = PNode (as ! i)"
    "i < length ks \<Longrightarrow> i < length (keys nd)" "i < length as \<Longrightarrow> i < length (pointers nd)"
  using assms nth_take [of i "length ks" "keys nd"] nth_take [of i "length as" "pointers nd"] by auto

lemma inner_pop_back:
  assumes nd: "desc_ok (InnerD (as @ [a]) (ks @ [k])) p nd"
  shows "desc_ok (InnerD as ks) p (nd\<lparr>keys := (keys nd)[length ks := None],
      pointers := (pointers nd)[length as := Null], num_keys := length ks\<rparr>)"
  using nd take_prefix [of "Suc (length ks)" "keys nd" "map Some ks"]
    take_prefix [of "Suc (length as)" "pointers nd" "map PNode as"] by auto

lemma inner_push_front:
  assumes nd: "desc_ok (InnerD as ks) p nd" and len: "length ks < MAX_KEY_NUM"
  obtains ks' ps where "shift_right (keys nd) 0 (num_keys nd) = Some ks'"
    "shift_right (pointers nd) 0 (num_keys nd + 1) = Some ps" "0 < length ks'" "0 < length ps"
    "desc_ok (InnerD (a # as) (k # ks)) p (nd\<lparr>keys := ks'[0 := Some k],
       pointers := ps[0 := PNode a], num_keys := num_keys nd + 1\<rparr>)"
proof -
  have n: "num_keys nd = length ks" "num_keys nd + 1 = length as"
    "length ks < length (keys nd)" "length as < length (pointers nd)"
    "take (length ks) (keys nd) = map Some ks" "take (length as) (pointers nd) = map PNode as"
    using nd len by auto
  obtain ks' where ks: "shift_right (keys nd) 0 (length ks) = Some ks'" "length ks' = length (keys nd)"
    "\<forall>e. take (Suc (length ks)) (ks'[0 := Some e]) = map Some (take 0 ks @ e # drop 0 ks)"
    "\<forall>j. length ks < j \<and> j < length (keys nd) \<longrightarrow> ks' ! j = keys nd ! j"
    by (rule shift_right_map [OF n(5) le0 n(3)])
  obtain ps where ps: "shift_right (pointers nd) 0 (length as) = Some ps" "length ps = length (pointers nd)"
    "\<forall>e. take (Suc (length as)) (ps[0 := PNode e]) = map PNode (take 0 as @ e # drop 0 as)"
    "\<forall>j. length as < j \<and> j < length (pointers nd) \<longrightarrow> ps ! j = pointers nd ! j"
    by (rule shift_right_map [OF n(6) le0 n(4)])
  show ?thesis
  proof (rule that [of ks' ps])
    show "desc_ok (InnerD (a # as) (k # ks)) p (nd\<lparr>keys := ks'[0 := Some k],
       pointers := ps[0 := PNode a], num_keys := num_keys nd + 1\<rparr>)"
      using nd len ks(2) ps(2) ks(3) [THEN spec, of k] ps(3) [THEN spec, of a] by simp
  qed (use ks(1,2) ps(1,2) n in auto)
qed

lemma distribute_right_inner:
  assumes hp: "hp h (cells (Some b) (Inner x (ts1 @ [t]) (ks1 @ [k])) + cells (Some b) (Inner y ts2 ks2) +
      add_mset (b, InnerD as ks, q) M)"
    and i: "0 < i" "i \<le> length ks" and len: "length ks2 < MAX_KEY_NUM" "length ts1 = Suc (length ks1)"
  obtains h' where "distribute_nodes h y x i = Some h'"
    "hp h' (cells (Some b) (Inner x ts1 ks1) + cells (Some b) (Inner y (t # ts2) (ks ! (i - 1) # ks2)) +
      add_mset (b, InnerD as (ks[i - 1 := k]), q) M)"
proof -
  let ?dy = "(y, InnerD (map addr ts2) ks2, Some b)"
    and ?dx = "(x, InnerD (map addr (ts1 @ [t])) (ks1 @ [k]), Some b)" and ?db = "(b, InnerD as ks, q)"
  let ?rest = "cellsl (Some x) ts1 + cellsl (Some y) ts2 + M"
  have hp0: "hp h (cellsl (Some x) [t] + (add_mset ?dy (add_mset ?dx (add_mset ?db ?rest))))"
    using hp by (simp add: cells_ac)
  from set_parents_ok [OF hp0, of y] obtain h1 where
    h1: "set_parents h [PNode (addr t)] y = Some h1"
    "hp h1 (add_mset ?dy (add_mset ?dx (add_mset ?db (cells (Some y) t + ?rest))))"
    by (auto simp: cells_ac)
  have "hp h (add_mset ?dy (add_mset ?dx (add_mset ?db (cells (Some x) t + ?rest))))"
    using hp0 by (simp add: cells_ac)
  from hp_three [OF this] obtain ny nx par where nd: "nodes h y = Some ny" "desc_ok (InnerD (map addr ts2) ks2) (Some b) ny"
    "nodes h x = Some nx" "desc_ok (InnerD (map addr (ts1 @ [t])) (ks1 @ [k])) (Some b) nx"
    "nodes h b = Some par" "desc_ok (InnerD as ks) q par" .
  have i': "i - 1 < length ks" using i by simp
  note sep = sep_slot(1,2) [OF nd(6) i'] sep_slot(3) [OF nd(6) i', of k]
  obtain ks' ps where st: "shift_right (keys ny) 0 (num_keys ny) = Some ks'"
    "shift_right (pointers ny) 0 (num_keys ny + 1) = Some ps" "0 < length ks'" "0 < length ps"
    "desc_ok (InnerD (addr t # map addr ts2) (ks ! (i - 1) # ks2)) (Some b)
       (ny\<lparr>keys := ks'[0 := Some (ks ! (i - 1))], pointers := ps[0 := PNode (addr t)], num_keys := num_keys ny + 1\<rparr>)"
    by (rule inner_push_front [OF nd(2) len(1)])
  let ?nx = "nx\<lparr>keys := (keys nx)[length ks1 := None], pointers := (pointers nx)[length ts1 := Null],
      num_keys := length ks1\<rparr>"
  have pop: "desc_ok (InnerD (map addr ts1) ks1) (Some b) ?nx"
    using inner_pop_back [of "map addr ts1" "addr t" ks1 k "Some b" nx] nd(4) by simp
  let ?h' = "set_node (set_node (set_node h1 b (par\<lparr>keys := (keys par)[i - 1 := Some k]\<rparr>)) x ?nx) y
      (ny\<lparr>keys := ks'[0 := Some (ks ! (i - 1))], pointers := ps[0 := PNode (addr t)], num_keys := num_keys ny + 1\<rparr>)"
  have "hp ?h' (cells (Some b) (Inner x ts1 ks1) + cells (Some b) (Inner y (t # ts2) (ks ! (i - 1) # ks2)) +
      add_mset (b, InnerD as (ks[i - 1 := k]), q) M)"
    using hp_set_three [OF h1(2) st(5) pop sep(3)] by (simp add: cells_ac)
  moreover have "num_keys nx = Suc (length ks1)" "\<not> is_leaf ny" "parent ny = Some b"
    "keys nx ! length ks1 = Some k" "length ks1 < length (keys nx)"
    "pointers nx ! length ts1 = PNode (addr t)" "length ts1 < length (pointers nx)"
    using nd inner_slots [OF nd(4), of "length ks1"] inner_slots [OF nd(4), of "length ts1"] len
    by (auto simp: nth_append)
  then have "distribute_nodes h y x i = Some ?h'"
    using nd(1,3,5) i(1) st(1-4) sep(1,2) h1(1) len(2)
    by (simp add: distribute_nodes_def distribute_right_def crash_simps)
  ultimately show ?thesis by (rule that [rotated])
qed

lemma inner_push_back:
  assumes nd: "desc_ok (InnerD as ks) p nd" and len: "length ks < MAX_KEY_NUM"
  shows "desc_ok (InnerD (as @ [a]) (ks @ [k])) p (nd\<lparr>keys := (keys nd)[num_keys nd := Some k],
      pointers := (pointers nd)[num_keys nd + 1 := PNode a], num_keys := num_keys nd + 1\<rparr>)"
proof -
  have "take (Suc (length ks)) ((keys nd)[length ks := Some k]) = map Some (ks @ [k])"
    using nd len by (simp add: take_Suc_conv_app_nth)
  moreover have "take (Suc (length as)) ((pointers nd)[length as := PNode a]) = map PNode (as @ [a])"
    using nd len take_Suc_conv_app_nth [of "length as" "(pointers nd)[length as := PNode a]"] by simp
  ultimately show ?thesis using nd len by simp
qed

lemma inner_pop_front:
  assumes nd: "desc_ok (InnerD (a # as) (k # ks)) p nd"
  obtains ks' ps where "shift_left (keys nd) 0 (length ks) = Some (ks', length ks)"
    "shift_left (pointers nd) 0 (length as) = Some (ps, length as)" "length ks < length ks'"
    "desc_ok (InnerD as ks) p (nd\<lparr>keys := ks'[length ks := None], pointers := ps, num_keys := length ks\<rparr>)"
proof -
  let ?ks = "k # ks" and ?as = "a # as"
  have n: "length ?ks \<le> length (keys nd)" "length ?as \<le> length (pointers nd)" "0 < length ?ks" "0 < length ?as"
    "take (length ?ks) (keys nd) = map Some ?ks" "take (length ?as) (pointers nd) = map PNode ?as"
    using nd by auto
  obtain ks' where ks: "shift_left (keys nd) 0 (length ?ks - 1) = Some (ks', length ?ks - 1)" "length ks' = length (keys nd)"
    "take (length ?ks - 1) ks' = map Some (take 0 ?ks @ drop (Suc 0) ?ks)"
    "\<forall>j. length ?ks \<le> j \<and> j < length (keys nd) \<longrightarrow> ks' ! j = keys nd ! j"
    by (rule shift_left_map [OF n(5,3,1)])
  obtain ps where ps: "shift_left (pointers nd) 0 (length ?as - 1) = Some (ps, length ?as - 1)" "length ps = length (pointers nd)"
    "take (length ?as - 1) ps = map PNode (take 0 ?as @ drop (Suc 0) ?as)"
    "\<forall>j. length ?as \<le> j \<and> j < length (pointers nd) \<longrightarrow> ps ! j = pointers nd ! j"
    by (rule shift_left_map [OF n(6,4,2)])
  show ?thesis using that [of ks' ps] ks(1-3) ps(1-3) nd by auto
qed

lemma distribute_left_inner:
  assumes hp: "hp h (cells (Some b) (Inner x ts1 ks1) + cells (Some b) (Inner y (t # ts2) (k # ks2)) +
      add_mset (b, InnerD as ks, q) M)"
    and i: "0 < length ks" and len: "length ks1 < MAX_KEY_NUM"
  obtains h' where "distribute_nodes h x y 0 = Some h'"
    "hp h' (cells (Some b) (Inner x (ts1 @ [t]) (ks1 @ [ks ! 0])) + cells (Some b) (Inner y ts2 ks2) +
      add_mset (b, InnerD as (ks[0 := k]), q) M)"
proof -
  let ?dx = "(x, InnerD (map addr ts1) ks1, Some b)"
    and ?dy = "(y, InnerD (addr t # map addr ts2) (k # ks2), Some b)" and ?db = "(b, InnerD as ks, q)"
  let ?rest = "cellsl (Some x) ts1 + cellsl (Some y) ts2 + M"
  have hp0: "hp h (cellsl (Some y) [t] + (add_mset ?dx (add_mset ?dy (add_mset ?db ?rest))))"
    using hp by (simp add: cells_ac)
  from set_parents_ok [OF hp0, of x] obtain h1 where
    h1: "set_parents h [PNode (addr t)] x = Some h1"
    "hp h1 (add_mset ?dx (add_mset ?dy (add_mset ?db (cells (Some x) t + ?rest))))"
    by (auto simp: cells_ac)
  have "hp h (add_mset ?dx (add_mset ?dy (add_mset ?db (cells (Some y) t + ?rest))))"
    using hp0 by (simp add: cells_ac)
  from hp_three [OF this] obtain nx ny par where nd: "nodes h x = Some nx" "desc_ok (InnerD (map addr ts1) ks1) (Some b) nx"
    "nodes h y = Some ny" "desc_ok (InnerD (addr t # map addr ts2) (k # ks2)) (Some b) ny"
    "nodes h b = Some par" "desc_ok (InnerD as ks) q par" .
  note sep = sep_slot(1,2) [OF nd(6) i] sep_slot(3) [OF nd(6) i, of k]
  obtain ks' ps where st: "shift_left (keys ny) 0 (length ks2) = Some (ks', length ks2)"
    "shift_left (pointers ny) 0 (length (map addr ts2)) = Some (ps, length (map addr ts2))" "length ks2 < length ks'"
    "desc_ok (InnerD (map addr ts2) ks2) (Some b)
       (ny\<lparr>keys := ks'[length ks2 := None], pointers := ps, num_keys := length ks2\<rparr>)"
    by (rule inner_pop_front [OF nd(4)])
  note push = inner_push_back [OF nd(2) len, of "addr t" "ks ! 0"]
  let ?h' = "set_node (set_node (set_node h1 b (par\<lparr>keys := (keys par)[0 := Some k]\<rparr>)) y
      (ny\<lparr>keys := ks'[length ks2 := None], pointers := ps, num_keys := length ks2\<rparr>)) x
      (nx\<lparr>keys := (keys nx)[num_keys nx := Some (ks ! 0)], pointers := (pointers nx)[num_keys nx + 1 := PNode (addr t)],
        num_keys := num_keys nx + 1\<rparr>)"
  have "hp ?h' (cells (Some b) (Inner x (ts1 @ [t]) (ks1 @ [ks ! 0])) + cells (Some b) (Inner y ts2 ks2) +
      add_mset (b, InnerD as (ks[0 := k]), q) M)"
    using hp_set_three [OF h1(2) push st(4) sep(3)] by (simp add: cells_ac)
  moreover have "num_keys ny = Suc (length ks2)" "length ts2 = Suc (length ks2)" "\<not> is_leaf nx" "parent nx = Some b"
    "keys ny ! 0 = Some k" "0 < length (keys ny)" "pointers ny ! 0 = PNode (addr t)" "0 < length (pointers ny)"
    "num_keys nx < length (keys nx)" "num_keys nx + 1 < length (pointers nx)"
    using nd inner_slots [OF nd(4), of 0] len by auto
  then have "distribute_nodes h x y 0 = Some ?h'"
    using nd(1,3,5) st(1-3) sep(1,2) h1(1)
    by (simp add: distribute_nodes_def distribute_left_def crash_simps)
  ultimately show ?thesis by (rule that [rotated])
qed

section \<open>The two repairs, for any kind of node\<close>

primrec nkeys :: "btree \<Rightarrow> nat" where
  "nkeys (Leaf a es nx) = length es"
| "nkeys (Inner a ts ks) = length ks"

lemma merge_ok:
  assumes hp: "hp h (cells (Some b) l + cells (Some b) r + add_mset (b, InnerD as ks, q) M)"
    and args: "merge_args p nb i = (addr r, addr l, idx)"
    and wf: "wft m1 n l" "wft m2 n r" and pos: "0 < nkeys l" "3 \<le> nkeys l + nkeys r"
    and cap: "nkeys l + nkeys r \<le> (if n = 0 then MAX_KEY_NUM else MAX_KEY_NUM - 1)"
    and sep: "idx - 1 < length ks" "length (ks ! (idx - 1)) < MAX_KEY_LEN"
    and linked: "linked (pre @ leaves l @ leaves r @ post)"
  obtains h' t where "merge_nodes h p nb i = Some (h', b, idx)"
    "hp h' (cells (Some b) t + add_mset (b, InnerD as ks, q) M)" "addr t = addr l" "wft 2 n t"
    "fits (flat l @ S (ks ! (idx - 1)) # flat r) (flat t)" "relinks (leaves l @ leaves r) (leaves t)"
proof (cases n)
  case 0
  then obtain x es1 n1 y es2 n2 where lr: "l = Leaf x es1 n1" "r = Leaf y es2 n2"
    using wf by (cases l; cases r) auto
  have n1: "n1 = PNode y" using linked linked_next [of pre x es1 n1 y es2 n2 post] lr by simp
  obtain h' where "merge_nodes h p nb i = Some (h', b, idx)"
    "hp h' (cells (Some b) (Leaf x (es1 @ es2) n2) + add_mset (b, InnerD as ks, q) M)"
    using merge_leaves [of h b x es1 n1 y es2 n2 "InnerD as ks" q M p nb i idx] hp args cap pos 0 lr by auto
  then show ?thesis
    using that [of h' "Leaf x (es1 @ es2) n2"] lr pos cap 0 n1 fits_drop_sep
      relinks_merge [of x es1 y es2 n2 "es1 @ es2"] by auto
next
  case (Suc n')
  then obtain x ts1 ks1 y ts2 ks2 where lr: "l = Inner x ts1 ks1" "r = Inner y ts2 ks2"
    using wf by (cases l; cases r) auto
  let ?k = "ks ! (idx - 1)"
  let ?t = "Inner x (ts1 @ ts2) (ks1 @ ?k # ks2)"
  have lt: "length ks1 + length ks2 < MAX_KEY_NUM" using cap lr Suc by (simp add: MAX_KEY_NUM_def)
  have len: "length ts1 = Suc (length ks1)" using wf lr Suc by simp
  obtain h' where "merge_nodes h p nb i = Some (h', b, idx)"
    "hp h' (cells (Some b) ?t + add_mset (b, InnerD as ks, q) M)"
    using merge_inners [of h b x ts1 ks1 y ts2 ks2 as ks q M p nb i idx] hp args lt sep lr by auto
  moreover have "wft 2 n ?t" using wf lr Suc lt pos by auto
  moreover have "flat ?t = flat l @ S ?k # flat r"
    using weave_split [of "map flat ts1" ks1 "map flat ts2" ?k ks2] len lr by simp
  ultimately show ?thesis using that [of h' ?t] lr by simp
qed

lemma distribute_right_ok:
  assumes hp: "hp h (cells (Some b) l + cells (Some b) r + add_mset (b, InnerD as ks, q) M)"
    and wf: "wft 1 n l" "wft 1 n r" and i: "0 < i" "i \<le> length ks"
    and occ: "nkeys r = 1" "3 \<le> nkeys l" and fit: "keys_fit (flat l)"
  obtains h' l' r' k where "distribute_nodes h (addr r) (addr l) i = Some h'"
    "hp h' (cells (Some b) l' + cells (Some b) r' + add_mset (b, InnerD as (ks[i - 1 := k]), q) M)"
    "addr l' = addr l" "addr r' = addr r" "wft 2 n l'" "wft 2 n r'"
    "fits (flat l @ S (ks ! (i - 1)) # flat r) (flat l' @ S k # flat r')"
    "relinks (leaves l @ leaves r) (leaves l' @ leaves r')"
proof (cases n)
  case 0
  then obtain x es n1 y es2 n2 where lr: "l = Leaf x es n1" "r = Leaf y es2 n2"
    using wf by (cases l; cases r) auto
  then obtain es1 e where es: "es = es1 @ [e]" using occ by (cases es rule: rev_cases) auto
  have e: "length (fst e) < MAX_KEY_LEN" "length es2 < MAX_KEY_NUM"
    using fit occ lr es by (auto simp: keys_fit_entries MAX_KEY_NUM_def)
  obtain h' where "distribute_nodes h y x i = Some h'"
    "hp h' (cells (Some b) (Leaf x es1 n1) + cells (Some b) (Leaf y (e # es2) n2) +
      add_mset (b, InnerD as (ks[i - 1 := fst e]), q) M)"
    by (rule distribute_right_leaf [OF hp [unfolded lr es] i e(2,1)])
  moreover have "fits (flat l @ S (ks ! (i - 1)) # flat r) (emarks es1 @ S (fst e) # emarks (e # es2))"
    using fits_move_sep [of "es1 @ [e]" es2 es1 "e # es2"] lr es by simp
  moreover have "wft 2 n (Leaf x es1 n1)" "wft 2 n (Leaf y (e # es2) n2)"
    using wf lr es occ 0 by (auto simp: MAX_KEY_NUM_def)
  ultimately show ?thesis
    using that [of h' "Leaf x es1 n1" "Leaf y (e # es2) n2" "fst e"] lr relinks_pair [of x es n1 y es2 n2 es1 "e # es2"]
    by simp
next
  case (Suc n')
  then obtain x ts ks1' y ts2 ks2 where lr: "l = Inner x ts ks1'" "r = Inner y ts2 ks2"
    using wf by (cases l; cases r) auto
  then obtain ks1 k ts1 t where l: "ks1' = ks1 @ [k]" "ts = ts1 @ [t]" "length ts1 = Suc (length ks1)"
    using occ wf(1) Suc by (cases ks1' rule: rev_cases; cases ts rule: rev_cases) auto
  have len: "length ks2 < MAX_KEY_NUM" using occ lr by (simp add: MAX_KEY_NUM_def)
  let ?l = "Inner x ts1 ks1" and ?r = "Inner y (t # ts2) (ks ! (i - 1) # ks2)"
  obtain h' where "distribute_nodes h y x i = Some h'"
    "hp h' (cells (Some b) ?l + cells (Some b) ?r + add_mset (b, InnerD as (ks[i - 1 := k]), q) M)"
    by (rule distribute_right_inner [OF hp [unfolded lr l] i len l(3)])
  moreover have "flat l @ S (ks ! (i - 1)) # flat r = flat ?l @ S k # flat ?r"
    using weave_split [of "map flat ts1" ks1 "[flat t]" k "[]"] lr l by simp
  moreover have "wft 2 n ?l" "wft 2 n ?r" using wf lr l occ Suc by (auto simp: MAX_KEY_NUM_def)
  ultimately show ?thesis using that [of h' ?l ?r k] lr l by simp
qed

lemma distribute_left_ok:
  assumes hp: "hp h (cells (Some b) l + cells (Some b) r + add_mset (b, InnerD as ks, q) M)"
    and wf: "wft 1 n l" "wft 1 n r" and ks: "0 < length ks"
    and occ: "nkeys l = 1" "3 \<le> nkeys r" and fit: "keys_fit (flat r)"
  obtains h' l' r' k where "distribute_nodes h (addr l) (addr r) 0 = Some h'"
    "hp h' (cells (Some b) l' + cells (Some b) r' + add_mset (b, InnerD as (ks[0 := k]), q) M)"
    "addr l' = addr l" "addr r' = addr r" "wft 2 n l'" "wft 2 n r'"
    "fits (flat l @ S (ks ! 0) # flat r) (flat l' @ S k # flat r')"
    "relinks (leaves l @ leaves r) (leaves l' @ leaves r')"
proof (cases n)
  case 0
  then obtain x es1 n1 y es n2 where lr: "l = Leaf x es1 n1" "r = Leaf y es n2"
    using wf by (cases l; cases r) auto
  then obtain e es2 where es: "es = e # es2" "es2 \<noteq> []" using occ by (cases es; cases "tl es") auto
  have e: "length (fst (hd es2)) < MAX_KEY_LEN" "length es1 < MAX_KEY_NUM"
    using fit occ lr es by (auto simp: keys_fit_entries MAX_KEY_NUM_def)
  obtain h' where "distribute_nodes h x y 0 = Some h'"
    "hp h' (cells (Some b) (Leaf x (es1 @ [e]) n1) + cells (Some b) (Leaf y es2 n2) +
      add_mset (b, InnerD as (ks[0 := fst (hd es2)]), q) M)"
    by (rule distribute_left_leaf [OF hp [unfolded lr es] ks e(2) es(2) e(1)])
  moreover have "fits (flat l @ S (ks ! 0) # flat r) (emarks (es1 @ [e]) @ S (fst (hd es2)) # emarks es2)"
    using fits_move_sep [of es1 "e # es2" "es1 @ [e]" es2] lr es by simp
  moreover have "wft 2 n (Leaf x (es1 @ [e]) n1)" "wft 2 n (Leaf y es2 n2)"
    using wf lr es occ 0 by (auto simp: MAX_KEY_NUM_def)
  ultimately show ?thesis
    using that [of h' "Leaf x (es1 @ [e]) n1" "Leaf y es2 n2" "fst (hd es2)"] lr
      relinks_pair [of x es1 n1 y es n2 "es1 @ [e]" es2]
    by simp
next
  case (Suc n')
  then obtain x ts1 ks1 y ts ks' where lr: "l = Inner x ts1 ks1" "r = Inner y ts ks'"
    using wf by (cases l; cases r) auto
  then obtain k ks2 t ts2 where r: "ks' = k # ks2" "ts = t # ts2"
    using occ wf(2) Suc by (cases ks'; cases ts) auto
  have len: "length ks1 < MAX_KEY_NUM" "length ts1 = Suc (length ks1)"
    using occ lr wf(1) Suc by (auto simp: MAX_KEY_NUM_def)
  let ?l = "Inner x (ts1 @ [t]) (ks1 @ [ks ! 0])" and ?r = "Inner y ts2 ks2"
  obtain h' where "distribute_nodes h x y 0 = Some h'"
    "hp h' (cells (Some b) ?l + cells (Some b) ?r + add_mset (b, InnerD as (ks[0 := k]), q) M)"
    by (rule distribute_left_inner [OF hp [unfolded lr r] ks len(1)])
  moreover have "flat l @ S (ks ! 0) # flat r = flat ?l @ S k # flat ?r"
    using weave_split [of "map flat ts1" ks1 "[flat t]" "ks ! 0" "[]"] lr r len by simp
  then have "fits (flat l @ S (ks ! 0) # flat r) (flat ?l @ S k # flat ?r)" by (simp only: fits_refl)
  moreover have "wft 2 n ?l" "wft 2 n ?r" using wf lr r occ Suc by (auto simp: MAX_KEY_NUM_def)
  ultimately show ?thesis using that [of h' ?l ?r k] lr r by simp
qed

section \<open>Walking up\<close>

lemma desc_tree:
  assumes "desc_ok (desc_of t) p nd" "wft m n t"
  shows "num_keys nd = nkeys t" "is_leaf nd \<longleftrightarrow> n = 0" "parent nd = p"
  using assms by (cases "(m, n, t)" rule: wft.cases; auto)+

lemma delete_entry_unfold:
  assumes hp: "hp h (add_mset (a, d, par_of c) (sub t + ctx_cells c a))" and a: "addr t = a"
    and rm: "removes d i (desc_of t)" and wf: "wft m n t"
  obtains h1 where "hp h1 (cells (par_of c) t + ctx_cells c a)"
    "delete_entry h root a i =
      (if a = root then adjust_root h1 a
       else if 2 \<le> nkeys t then Some (h1, Some root)
       else do { nd_index \<leftarrow> get_node_index h1 a;
                 pp \<leftarrow> par_of c; par \<leftarrow> nodes h1 pp;
                 q \<leftarrow> arr_get (pointers par) (if nd_index = 0 then 1 else nd_index - 1);
                 case q of
                   PNode nb \<Rightarrow>
                     do { neighbor \<leftarrow> nodes h1 nb;
                          if num_keys neighbor + nkeys t \<le> (if n = 0 then MAX_KEY_NUM else MAX_KEY_NUM - 1)
                          then do { (h, pp', i) \<leftarrow> merge_nodes h1 a nb nd_index; delete_entry h root pp' i }
                          else do { h \<leftarrow> distribute_nodes h1 a nb nd_index; Some (h, Some root) } }
                 | _ \<Rightarrow> None })"
proof -
  obtain nd where nd: "nodes h a = Some nd" "desc_ok d (par_of c) nd" using hp by (rule hp_get)
  obtain nd' where nd': "remove_entry nd i = Some nd'" "desc_ok (desc_of t) (par_of c) nd'"
    by (rule remove_entry_ok [OF nd(2) rm])
  note tree = desc_tree [OF nd'(2) wf]
  have min: "(if n = 0 then (MAX_KEY_NUM + 1) div 2 else MAX_KEY_NUM div 2) = 2"
    by (simp add: MAX_KEY_NUM_def)
  show ?thesis
  proof (rule that [of "set_node h a nd'"])
    show "hp (set_node h a nd') (cells (par_of c) t + ctx_cells c a)"
      using hp_set [OF hp nd'(2)] a by (simp add: cells_sub)
  qed (unfold delete_entry.simps [of h] nd(1) Option.bind_lunit nd'(1) Let_def tree min, rule refl)
qed

lemma root_in_ctx: "c \<noteq> [] \<Longrightarrow> \<exists>x. (addr (fill c t), x) \<in># ctx_cells c (addr t)"
proof (induction c arbitrary: t)
  case (Cons f c)
  obtain a ls kl kr rs where f: "f = (a, ls, kl, kr, rs)" by (cases f) auto
  show ?case
  proof (cases "c = []")
    case False
    from Cons.IH [OF this, of "Inner a (ls @ t # rs) (kl @ kr)"] show ?thesis by (auto simp: f)
  qed (auto simp: f)
qed simp

lemma bt_tree:
  assumes "hp h (cells (par_of c) t + ctx_cells c (addr t))" "wfc n c"
    "wft (if c = [] then if n = 0 then 0 else 1 else 2) n t"
    "ordered (preF c @ flat t @ postF c)" "keys_fit (preF c @ flat t @ postF c)"
    "linked (preL c @ leaves t @ postL c)"
  shows "bt h (Some (addr (fill c t))) (ents (preF c @ flat t @ postF c))"
  using assms wf_root_fill [OF assms(2,3)] flat_fill [OF assms(2), of t]
  by (auto simp: leaves_fill cells_fill intro!: exI [of _ "fill c t"])

text \<open>The root: it may become empty, or lose its last separator and give way to its only child.\<close>

lemma adjust_root_ok:
  assumes hp: "hp h (cells None t)" and wf: "wft 0 n t"
    and ordered: "ordered (flat t)" and fit: "keys_fit (flat t)" and linked: "linked (leaves t)"
  shows "\<exists>h' root'. adjust_root h (addr t) = Some (h', root') \<and> bt h' root' (entries t)"
proof -
  obtain nd where nd: "nodes h (addr t) = Some nd" "desc_ok (desc_of t) None nd"
    using hp hp_get [of h "addr t" "desc_of t" None "sub t"] by (auto simp: cells_sub)
  note tree = desc_tree [OF nd(2) wf]
  show ?thesis
  proof (cases "nkeys t = 0")
    case False
    then have "wft (if n = 0 then 0 else 1) n t" using wf by (cases "(0::nat, n, t)" rule: wft.cases) (auto simp: Suc_le_eq)
    then have "bt h (Some (addr t)) (entries t)"
      using bt_tree [of h "[]" t n] assms by simp
    then show ?thesis using False nd(1) tree by (simp add: adjust_root_def)
  next
    case True
    show ?thesis
    proof (cases n)
      case 0
      then show ?thesis using True wf nd(1) tree by (cases t) (auto simp: adjust_root_def)
    next
      case (Suc n')
      then obtain a u where t: "t = Inner a [u] []" "wft 2 n' u"
        using wf True by (cases t) (auto simp: length_Suc_conv)
      have "pointers nd ! 0 = PNode (addr u)" "0 < length (pointers nd)"
        using inner_slots(2,4) [of "[addr u]" "[]" None nd 0] nd(2) t by auto
      moreover have "hp h (cellsl (Some a) [u] + {# (a, InnerD [addr u] [], None) #})"
        using hp t by (simp add: cells_ac)
      then have hp': "hp h (add_mset (addr u, desc_of u, Some a) (sub u + {# (a, InnerD [addr u] [], None) #}))"
        by (simp add: cells_sub [of _ u] cells_ac)
      from hp_get [OF this] obtain nu where nu: "nodes h (addr u) = Some nu" "desc_ok (desc_of u) (Some a) nu" .
      from hp_set [OF hp' desc_ok_parent [OF nu(2), of None]]
      have "hp (set_node h (addr u) (nu\<lparr>parent := None\<rparr>)) (add_mset (a, InnerD [addr u] [], None) (cells None u))"
        by (simp add: cells_sub [of _ u] cells_ac)
      from hp_destroy [OF this] have
        "bt (destroy_node (set_node h (addr u) (nu\<lparr>parent := None\<rparr>)) a) (Some (addr u)) (entries t)"
        using bt_tree [of _ "[]" u n'] wft_mono [OF t(2), of "if n' = 0 then 0 else 1"] ordered fit linked t(1)
        by simp
      ultimately show ?thesis using nd(1) tree True Suc nu(1) t(1)
        by (simp add: adjust_root_def crash_simps del: bt.simps)
    qed
  qed
qed

text \<open>The neighbour \<open>delete_entry\<close> picks, with both nodes in their order under the parent.\<close>

lemma pick_neighbour:
  assumes wf: "wfc n ((b, ls, kl, kr, rs) # c)"
    and hp: "hp h (cells (Some b) t + ctx_cells ((b, ls, kl, kr, rs) # c) (addr t))"
    and t: "wft 1 n t"
  obtains as l r bs ka k kb nb where "ls @ t # rs = as @ l # r # bs" "kl @ kr = ka @ k # kb"
    "length ka = length as" "length kb = length bs" "wft 1 n l" "wft 1 n r"
    "(t = l \<and> nb = r \<and> ls = []) \<or> (t = r \<and> nb = l \<and> ls \<noteq> [])" "wft 2 n nb"
    "\<forall>u \<in> set (as @ bs). wft 2 n u"
    "merge_args (addr t) (addr nb) (length ls) = (addr r, addr l, Suc (length as))"
    "get_node_index h (addr t) = Some (length ls)"
    "\<exists>par. nodes h b = Some par \<and>
       arr_get (pointers par) (if length ls = 0 then 1 else length ls - 1) = Some (PNode (addr nb))"
    "\<exists>nd. nodes h (addr nb) = Some nd \<and> num_keys nd = nkeys nb"
proof -
  have len: "length kl = length ls" "length kr = length rs" "1 \<le> length kl + length kr"
    and sibs: "\<forall>u \<in> set ls \<union> set rs. wft 2 n u" using wf by (auto split: if_splits)
  obtain par where par: "nodes h b = Some par"
    "desc_ok (InnerD (map addr ls @ addr t # map addr rs) (kl @ kr)) (par_of c) par"
    "scan_ptrs (pointers par) (PNode (addr t)) (num_keys par) 0 = Some (length ls)"
    using hole_index [of h "Some b" t b ls kl kr rs c "{#}"] hp len by auto
  obtain nd where nd: "nodes h (addr t) = Some nd" "desc_ok (desc_of t) (Some b) nd"
    by (rule hp_mem [OF hp, of "addr t" "desc_of t" "Some b"]) (auto simp: cells_sub)
  have index: "get_node_index h (addr t) = Some (length ls)"
    using nd par desc_tree(3) [OF nd(2) t] by (simp add: get_node_index_def)
  have nbnode: "\<exists>nd. nodes h (addr u) = Some nd \<and> num_keys nd = nkeys u" if "u \<in> set ls \<union> set rs" for u
  proof -
    have "(addr u, desc_of u, Some b) \<in># cells (Some b) t + ctx_cells ((b, ls, kl, kr, rs) # c) (addr t)"
      using that by (auto simp: cells_sub)
    from hp_mem [OF hp this] obtain nu where "nodes h (addr u) = Some nu" "desc_ok (desc_of u) (Some b) nu" .
    then show ?thesis using desc_tree(1) sibs that by blast
  qed
  note slots = inner_slots(2,4) [OF par(2)]
  show ?thesis
  proof (cases ls rule: rev_cases)
    case Nil
    then obtain u rs' k kr' where rs: "rs = u # rs'" "kr = k # kr'" using len by (cases rs; cases kr) auto
    show ?thesis
      by (rule that [of "[]" t u rs' "[]" k kr' u])
        (use Nil rs len sibs t wft_mono [of 2 n u 1] index par(1) slots [of 1] nbnode [of u] in
          \<open>auto simp: merge_args_def\<close>)
  next
    case (snoc ls' u)
    then obtain k kl' where kl: "kl = kl' @ [k]" using len by (cases kl rule: rev_cases) auto
    show ?thesis
      by (rule that [of ls' u t rs kl' k kr u])
        (use snoc kl len sibs t wft_mono [of 2 n u 1] index par(1) slots [of "length ls - 1"] nbnode [of u] in
          \<open>auto simp: merge_args_def nth_append\<close>)
  qed
qed

lemma fits_ctx:
  assumes "fits xs ys" "ordered (pre @ xs @ post)" "keys_fit (pre @ xs @ post)"
  shows "ordered (pre @ ys @ post)" "keys_fit (pre @ ys @ post)" "ents (pre @ ys @ post) = ents (pre @ xs @ post)"
  using assms by (auto simp: fits_def)

text \<open>The flattening and the leaves of a context, seen from two adjacent children of its node.\<close>

lemma two_children:
  assumes "ls @ t # rs = as @ l # r # bs" "kl @ kr = ka @ k # kb" "length ka = length as" "length kb = length bs"
    "length kl = length ls" "length kr = length rs"
  shows "preF ((b, ls, kl, kr, rs) # c) @ flat t @ postF ((b, ls, kl, kr, rs) # c) =
      (preF c @ weave (map flat as) ka) @ (flat l @ S k # flat r) @ (weave_after kb (map flat bs) @ postF c)"
    "preL ((b, ls, kl, kr, rs) # c) @ leaves t @ postL ((b, ls, kl, kr, rs) # c) =
      (preL c @ concat (map leaves as)) @ (leaves l @ leaves r) @ (concat (map leaves bs) @ postL c)"
proof -
  have "weave (map flat (ls @ t # rs)) (kl @ kr) = weave (map flat as @ flat l # map flat (r # bs)) (ka @ k # kb)"
    unfolding assms(1,2) by simp
  then show "preF ((b, ls, kl, kr, rs) # c) @ flat t @ postF ((b, ls, kl, kr, rs) # c) =
      (preF c @ weave (map flat as) ka) @ (flat l @ S k # flat r) @ (weave_after kb (map flat bs) @ postF c)"
    using assms(3-6) weave_hole [of kl "map flat ls" kr "map flat rs" "flat t"]
      weave_hole [of ka "map flat as" "k # kb" "map flat (r # bs)" "flat l"] by simp
  show "preL ((b, ls, kl, kr, rs) # c) @ leaves t @ postL ((b, ls, kl, kr, rs) # c) =
      (preL c @ concat (map leaves as)) @ (leaves l @ leaves r) @ (concat (map leaves bs) @ postL c)"
    using arg_cong [OF assms(1), of "\<lambda>ts. concat (map leaves ts)"] by simp
qed

lemma two_children_cells:
  assumes "ls @ t # rs = as @ l # r # bs" "kl @ kr = ka @ k # kb"
  shows "cells (Some b) t + ctx_cells ((b, ls, kl, kr, rs) # c) (addr t) =
    cells (Some b) l + cells (Some b) r + add_mset (b, InnerD (map addr (as @ l # r # bs)) (ka @ k # kb), par_of c)
      (cellsl (Some b) as + cellsl (Some b) bs + ctx_cells c b)"
proof -
  have "cells (Some b) t + ctx_cells ((b, ls, kl, kr, rs) # c) (addr t) =
      add_mset (b, InnerD (map addr (ls @ t # rs)) (kl @ kr), par_of c) (cellsl (Some b) (ls @ t # rs) + ctx_cells c b)"
    by (simp add: cells_ac)
  then show ?thesis unfolding assms by (simp add: cells_ac)
qed

lemma distribute_ok:
  assumes hp: "hp h (cells (Some b) l + cells (Some b) r + add_mset (b, InnerD as ks, q) M)"
    and wf: "wft 1 n l" "wft 1 n r" and fit: "keys_fit (flat l)" "keys_fit (flat r)"
    and view: "(t = l \<and> nb = r \<and> i = 0 \<and> j = 0) \<or> (t = r \<and> nb = l \<and> i = Suc j)" "j < length ks"
    and occ: "nkeys t = 1" "3 \<le> nkeys nb"
  obtains h' l' r' k where "distribute_nodes h (addr t) (addr nb) i = Some h'"
    "hp h' (cells (Some b) l' + cells (Some b) r' + add_mset (b, InnerD as (ks[j := k]), q) M)"
    "addr l' = addr l" "addr r' = addr r" "wft 2 n l'" "wft 2 n r'"
    "fits (flat l @ S (ks ! j) # flat r) (flat l' @ S k # flat r')"
    "relinks (leaves l @ leaves r) (leaves l' @ leaves r')"
  using view(1)
proof
  assume v: "t = l \<and> nb = r \<and> i = 0 \<and> j = 0"
  then have "0 < length ks" "nkeys l = 1" "3 \<le> nkeys r" using view(2) occ by auto
  from distribute_left_ok [OF hp wf this fit(2)] v show ?thesis using that by metis
next
  assume v: "t = r \<and> nb = l \<and> i = Suc j"
  then have "0 < i" "i \<le> length ks" "nkeys r = 1" "3 \<le> nkeys l" using view(2) occ by auto
  from distribute_right_ok [OF hp wf this fit(1)] v show ?thesis using that by (metis diff_Suc_1)
qed

lemma repair_merge:
  assumes view: "ls @ t # rs = as @ l # r # bs" "kl @ kr = ka @ k # kb" "length ka = length as" "length kb = length bs"
    and len: "length kl = length ls" "length kr = length rs"
    and hp: "hp h (cells (Some b) t + ctx_cells ((b, ls, kl, kr, rs) # c) (addr t))"
    and args: "merge_args p nb i = (addr r, addr l, Suc (length as))"
    and wf: "wft 1 n l" "wft 1 n r" "\<forall>u \<in> set (as @ bs). wft 2 n u" "wfc n ((b, ls, kl, kr, rs) # c)"
    and occ: "3 \<le> nkeys l + nkeys r" "0 < nkeys l"
      "nkeys l + nkeys r \<le> (if n = 0 then MAX_KEY_NUM else MAX_KEY_NUM - 1)"
    and ctx: "ordered (preF ((b, ls, kl, kr, rs) # c) @ flat t @ postF ((b, ls, kl, kr, rs) # c))"
      "keys_fit (preF ((b, ls, kl, kr, rs) # c) @ flat t @ postF ((b, ls, kl, kr, rs) # c))"
      "linked (preL ((b, ls, kl, kr, rs) # c) @ leaves t @ postL ((b, ls, kl, kr, rs) # c))"
  obtains h' u d where "merge_nodes h p nb i = Some (h', b, Suc (length as))"
    "hp h' (add_mset (b, d, par_of c) (sub u + ctx_cells c b))" "addr u = b"
    "removes d (Suc (length as)) (desc_of u)" "wft (if c = [] then 0 else 1) (Suc n) u"
    "ordered (preF c @ flat u @ postF c)" "keys_fit (preF c @ flat u @ postF c)"
    "linked (preL c @ leaves u @ postL c)"
    "ents (preF c @ flat u @ postF c) = ents (preF ((b, ls, kl, kr, rs) # c) @ flat t @ postF ((b, ls, kl, kr, rs) # c))"
proof -
  note flats = two_children [OF view len, of b c]
  let ?d = "InnerD (map addr (as @ l # r # bs)) (ka @ k # kb)" and ?ks = "ka @ k # kb"
  have k: "Suc (length as) - 1 < length ?ks" "length (?ks ! (Suc (length as) - 1)) < MAX_KEY_LEN"
    "?ks ! (Suc (length as) - 1) = k"
    using ctx(2) view(3) unfolding flats by (auto simp: nth_append)
  from hp have "hp h (cells (Some b) l + cells (Some b) r + add_mset (b, ?d, par_of c)
      (cellsl (Some b) as + cellsl (Some b) bs + ctx_cells c b))"
    unfolding two_children_cells [OF view(1,2)] .
  from merge_ok [OF this args wf(1,2) occ(2,1,3) k(1,2), of "preL c @ concat (map leaves as)" "concat (map leaves bs) @ postL c"]
    ctx(3) [unfolded flats] obtain h' u where m: "merge_nodes h p nb i = Some (h', b, Suc (length as))"
    "hp h' (cells (Some b) u + add_mset (b, ?d, par_of c) (cellsl (Some b) as + cellsl (Some b) bs + ctx_cells c b))"
    "addr u = addr l" "wft 2 n u" "fits (flat l @ S k # flat r) (flat u)" "relinks (leaves l @ leaves r) (leaves u)"
    unfolding k(3) by auto
  let ?u = "Inner b (as @ u # bs) (ka @ kb)"
  have flat: "preF c @ flat ?u @ postF c =
      (preF c @ weave (map flat as) ka) @ flat u @ (weave_after kb (map flat bs) @ postF c)"
    using weave_hole [of ka "map flat as" kb "map flat bs"] view(3,4) by simp
  have leaves: "preL c @ leaves ?u @ postL c =
      (preL c @ concat (map leaves as)) @ leaves u @ (concat (map leaves bs) @ postL c)" by simp
  note fit = fits_ctx [OF m(5) ctx(1,2) [unfolded flats]]
  have "length kl + length kr = Suc (length ka + length kb)" using arg_cong [OF view(2), of length] by simp
  then have wfu: "wft (if c = [] then 0 else 1) (Suc n) ?u"
    using wf(3,4) view(3,4) m(4) by (auto split: if_splits)
  have rm: "removes ?d (Suc (length as)) (desc_of ?u)" using view(3) m(3) by simp
  have hpu: "hp h' (add_mset (b, ?d, par_of c) (sub ?u + ctx_cells c b))" using m(2) by (simp add: cells_ac)
  have lk: "linked (preL c @ leaves ?u @ postL c)"
    using m(6) ctx(3) unfolding flats leaves relinks_def by blast
  show ?thesis
    by (rule that [OF m(1) hpu _ rm wfu]) (use fit lk in \<open>simp_all only: flat flats addr.simps\<close>)
qed

lemma repair_distribute:
  assumes view: "ls @ t # rs = as @ l # r # bs" "kl @ kr = ka @ k # kb" "length ka = length as" "length kb = length bs"
    and len: "length kl = length ls" "length kr = length rs"
    and hp: "hp h (cells (Some b) t + ctx_cells ((b, ls, kl, kr, rs) # c) (addr t))"
    and args: "merge_args (addr t) (addr nb) (length ls) = (addr r, addr l, Suc (length as))"
    and pick: "(t = l \<and> nb = r \<and> ls = []) \<or> (t = r \<and> nb = l \<and> ls \<noteq> [])"
    and wf: "wft 1 n l" "wft 1 n r" "\<forall>u \<in> set (as @ bs). wft 2 n u" "wfc n ((b, ls, kl, kr, rs) # c)"
    and occ: "nkeys t = 1" "3 \<le> nkeys nb"
    and ctx: "ordered (preF ((b, ls, kl, kr, rs) # c) @ flat t @ postF ((b, ls, kl, kr, rs) # c))"
      "keys_fit (preF ((b, ls, kl, kr, rs) # c) @ flat t @ postF ((b, ls, kl, kr, rs) # c))"
      "linked (preL ((b, ls, kl, kr, rs) # c) @ leaves t @ postL ((b, ls, kl, kr, rs) # c))"
  shows "\<exists>h' u. distribute_nodes h (addr t) (addr nb) (length ls) = Some h' \<and> addr u = b \<and>
    bt h' (Some (addr (fill c u)))
      (ents (preF ((b, ls, kl, kr, rs) # c) @ flat t @ postF ((b, ls, kl, kr, rs) # c)))"
proof -
  note flats = two_children [OF view len, of b c]
  let ?ks = "ka @ k # kb" and ?as = "map addr (as @ l # r # bs)"
  have k: "length as < length ?ks" "?ks ! length as = k" using view(3) by (auto simp: nth_append)
  have idx: "(t = l \<and> nb = r \<and> length ls = 0 \<and> length as = 0) \<or> (t = r \<and> nb = l \<and> length ls = Suc (length as))"
    using pick args by (auto simp: merge_args_def)
  have fit: "keys_fit (flat l)" "keys_fit (flat r)" using ctx(2) unfolding flats by auto
  from hp have hp': "hp h (cells (Some b) l + cells (Some b) r + add_mset (b, InnerD ?as ?ks, par_of c)
      (cellsl (Some b) as + cellsl (Some b) bs + ctx_cells c b))"
    unfolding two_children_cells [OF view(1,2)] .
  from distribute_ok [OF hp' wf(1,2) fit idx k(1) occ] obtain h' l' r' k' where
    d: "distribute_nodes h (addr t) (addr nb) (length ls) = Some h'"
    "hp h' (cells (Some b) l' + cells (Some b) r' + add_mset (b, InnerD ?as (?ks[length as := k']), par_of c)
      (cellsl (Some b) as + cellsl (Some b) bs + ctx_cells c b))"
    "addr l' = addr l" "addr r' = addr r" "wft 2 n l'" "wft 2 n r'"
    "fits (flat l @ S k # flat r) (flat l' @ S k' # flat r')"
    "relinks (leaves l @ leaves r) (leaves l' @ leaves r')" unfolding k(2) by metis
  let ?u = "Inner b (as @ l' # r' # bs) (ka @ k' # kb)"
  have ks: "?ks[length as := k'] = ka @ k' # kb" using view(3) by (simp add: list_update_append)
  have hpu: "hp h' (cells (par_of c) ?u + ctx_cells c (addr ?u))"
    using d(2-4) unfolding ks by (simp add: cells_ac)
  have flat: "preF c @ flat ?u @ postF c =
      (preF c @ weave (map flat as) ka) @ (flat l' @ S k' # flat r') @ (weave_after kb (map flat bs) @ postF c)"
    using weave_hole [of ka "map flat as" "k' # kb" "map flat (r' # bs)" "flat l'"] view(3,4) by simp
  have leaves: "preL c @ leaves ?u @ postL c =
      (preL c @ concat (map leaves as)) @ (leaves l' @ leaves r') @ (concat (map leaves bs) @ postL c)" by simp
  note fit = fits_ctx [OF d(7) ctx(1,2) [unfolded flats]]
  have "length kl + length kr = Suc (length ka + length kb)" using arg_cong [OF view(2), of length] by simp
  then have wfu: "wft (if c = [] then if Suc n = 0 then 0 else 1 else 2) (Suc n) ?u" "wfc (Suc n) c"
    using wf(3,4) view(3,4) d(5,6) by (auto split: if_splits)
  have lk: "linked (preL c @ leaves ?u @ postL c)"
    using d(8) ctx(3) unfolding flats leaves relinks_def by blast
  have "bt h' (Some (addr (fill c ?u))) (ents (preF c @ flat ?u @ postF c))"
    by (rule bt_tree [OF hpu wfu(2,1) _ _ lk]) (use fit in \<open>simp_all only: flat\<close>)
  then have "bt h' (Some (addr (fill c ?u)))
      (ents (preF ((b, ls, kl, kr, rs) # c) @ flat t @ postF ((b, ls, kl, kr, rs) # c)))"
    unfolding flats flat fit(3) .
  then show ?thesis using d(1) by (intro exI [of _ h'] exI [of _ ?u]) simp
qed

lemma delete_entry_ok:
  assumes "hp h (add_mset (a, d, par_of c) (sub t + ctx_cells c a))" "addr t = a"
    "removes d i (desc_of t)" "wfc n c" "wft (if c = [] then 0 else 1) n t"
    "ordered (preF c @ flat t @ postF c)" "keys_fit (preF c @ flat t @ postF c)"
    "linked (preL c @ leaves t @ postL c)" "root = addr (fill c t)"
  shows "\<exists>h' root'. delete_entry h root a i = Some (h', root') \<and>
    bt h' root' (ents (preF c @ flat t @ postF c))"
  using assms
proof (induction c arbitrary: h a d t i n)
  case Nil
  obtain h1 where "hp h1 (cells (par_of []) t + ctx_cells [] a)" "delete_entry h root a i = adjust_root h1 a"
    using delete_entry_unfold [OF Nil.prems(1-3,5), of root] Nil.prems(2,9) by auto
  then show ?case using adjust_root_ok [of h1 t n] Nil.prems by simp
next
  case (Cons f c)
  obtain b ls kl kr rs where f: "f = (b, ls, kl, kr, rs)" by (cases f) auto
  have len: "length kl = length ls" "length kr = length rs" using Cons.prems(4) f by auto
  have wft1: "wft 1 n t" using Cons.prems(5) by simp
  from delete_entry_unfold [OF Cons.prems(1-3) wft1, of root] obtain h1 where
    h1: "hp h1 (cells (par_of (f # c)) t + ctx_cells (f # c) a)" and
    del: "delete_entry h root a i =
      (if a = root then adjust_root h1 a
       else if 2 \<le> nkeys t then Some (h1, Some root)
       else do { nd_index \<leftarrow> get_node_index h1 a;
                 pp \<leftarrow> par_of (f # c); par \<leftarrow> nodes h1 pp;
                 q \<leftarrow> arr_get (pointers par) (if nd_index = 0 then 1 else nd_index - 1);
                 case q of
                   PNode nb \<Rightarrow>
                     do { neighbor \<leftarrow> nodes h1 nb;
                          if num_keys neighbor + nkeys t \<le> (if n = 0 then MAX_KEY_NUM else MAX_KEY_NUM - 1)
                          then do { (h, pp', i) \<leftarrow> merge_nodes h1 a nb nd_index; delete_entry h root pp' i }
                          else do { h \<leftarrow> distribute_nodes h1 a nb nd_index; Some (h, Some root) } }
                 | _ \<Rightarrow> None })" .
  have not_root: "a \<noteq> root"
  proof -
    obtain x where "(root, x) \<in># ctx_cells (f # c) a" using root_in_ctx [of "f # c" t] Cons.prems(2,9) by auto
    then show ?thesis using hp_distinct [OF Cons.prems(1), of root x] by (metis union_iff)
  qed
  show ?case
  proof (cases "2 \<le> nkeys t")
    case True
    then have "wft 2 n t" using wft1 by (cases "(1::nat, n, t)" rule: wft.cases) auto
    then have "bt h1 (Some root) (ents (preF (f # c) @ flat t @ postF (f # c)))"
      using bt_tree [of h1 "f # c" t n] h1 Cons.prems by simp
    then show ?thesis using del not_root True by simp
  next
    case False
    have nk: "nkeys t = 1" using wft1 False by (cases "(1::nat, n, t)" rule: wft.cases) auto
    have hpt: "hp h1 (cells (Some b) t + ctx_cells ((b, ls, kl, kr, rs) # c) (addr t))"
      using h1 Cons.prems(2) f by simp
    obtain as l r bs ka k kb nb where view: "ls @ t # rs = as @ l # r # bs" "kl @ kr = ka @ k # kb"
      "length ka = length as" "length kb = length bs" "wft 1 n l" "wft 1 n r"
      "(t = l \<and> nb = r \<and> ls = []) \<or> (t = r \<and> nb = l \<and> ls \<noteq> [])" "wft 2 n nb"
      "\<forall>u \<in> set (as @ bs). wft 2 n u"
      "merge_args (addr t) (addr nb) (length ls) = (addr r, addr l, Suc (length as))"
      "get_node_index h1 (addr t) = Some (length ls)"
      "\<exists>par. nodes h1 b = Some par \<and>
         arr_get (pointers par) (if length ls = 0 then 1 else length ls - 1) = Some (PNode (addr nb))"
      "\<exists>nd. nodes h1 (addr nb) = Some nd \<and> num_keys nd = nkeys nb"
      by (rule pick_neighbour [OF Cons.prems(4) [unfolded f] hpt wft1])
    note ctx = Cons.prems(6-8) [unfolded f]
    show ?thesis
    proof (cases "nkeys nb + nkeys t \<le> (if n = 0 then MAX_KEY_NUM else MAX_KEY_NUM - 1)")
      case True
      have "2 \<le> nkeys nb" using view(8) by (cases "(2::nat, n, nb)" rule: wft.cases) auto
      then have occ: "3 \<le> nkeys l + nkeys r" "0 < nkeys l"
        "nkeys l + nkeys r \<le> (if n = 0 then MAX_KEY_NUM else MAX_KEY_NUM - 1)"
        using view(7) nk True by (auto simp: add.commute)
      obtain h' u d' where m: "merge_nodes h1 (addr t) (addr nb) (length ls) = Some (h', b, Suc (length as))"
        "hp h' (add_mset (b, d', par_of c) (sub u + ctx_cells c b))" "addr u = b"
        "removes d' (Suc (length as)) (desc_of u)" "wft (if c = [] then 0 else 1) (Suc n) u"
        "ordered (preF c @ flat u @ postF c)" "keys_fit (preF c @ flat u @ postF c)"
        "linked (preL c @ leaves u @ postL c)"
        "ents (preF c @ flat u @ postF c) = ents (preF ((b, ls, kl, kr, rs) # c) @ flat t @ postF ((b, ls, kl, kr, rs) # c))"
        by (rule repair_merge [OF view(1-4) len hpt view(10,5,6,9) Cons.prems(4) [unfolded f] occ ctx])
      have wfc: "wfc (Suc n) c" using Cons.prems(4) f by simp
      have root: "root = addr (fill c u)"
        using Cons.prems(9) f m(3) addr_fill [of u "Inner b (ls @ t # rs) (kl @ kr)" c] by simp
      have "delete_entry h root a i = delete_entry h' root b (Suc (length as))"
        using del not_root False view(11-13) m(1) True Cons.prems(2) f by (auto simp: crash_simps cong: if_cong)
      then show ?thesis using Cons.IH [OF m(2-4) wfc m(5-8) root] m(9) f by simp
    next
      case False
      then have occ: "3 \<le> nkeys nb" using nk by (auto simp: MAX_KEY_NUM_def split: if_splits)
      obtain h' u where "distribute_nodes h1 (addr t) (addr nb) (length ls) = Some h'" "addr u = b"
        "bt h' (Some (addr (fill c u))) (ents (preF (f # c) @ flat t @ postF (f # c)))"
        using repair_distribute [OF view(1-4) len hpt view(10,7,5,6,9) Cons.prems(4) [unfolded f] nk occ ctx]
        unfolding f by metis
      moreover have "root = addr (fill c u)"
        using Cons.prems(9) f \<open>addr u = b\<close> addr_fill [of u "Inner b (ls @ t # rs) (kl @ kr)" c] by simp
      ultimately show ?thesis
        using del not_root \<open>\<not> 2 \<le> nkeys t\<close> view(11-13) False Cons.prems(2) f
        by (auto simp: crash_simps simp del: bt.simps cong: if_cong)
    qed
  qed
qed

section \<open>Removal\<close>

lemma B_plus_tree_remove_absent:
  assumes bt: "bt h root es" and key: "key \<notin> fst ` set es"
  shows "B_plus_tree_remove h root key = Some (h, root)"
proof (cases root)
  case None
  then show ?thesis by (simp add: B_plus_tree_remove_def find_leaf_def)
next
  case (Some r)
  from bt Some obtain c a les nx where c: "find_leaf_loop h r key = Some a"
    "es = ents (preF c) @ les @ ents (postF c)" "hp h (add_mset (a, LeafD les nx, par_of c) (ctx_cells c a))"
    using bt_leaf [of h r es key] by metis
  obtain nd where nd: "nodes h a = Some nd" "desc_ok (LeafD les nx) (par_of c) nd" using c(3) by (rule hp_get)
  have all: "takeWhile (\<lambda>k. k \<noteq> key) (map fst les) = map fst les" using key c(2) by auto
  have "scan_keys (\<lambda>k. strcmp k key \<noteq> 0) (keys nd) (num_keys nd) 0 = Some (num_keys nd)"
    using nd scan_keys_spec [of "num_keys nd" "keys nd" "map fst les" "\<lambda>k. strcmp k key \<noteq> 0"]
    by (simp only: strcmp_eq_0 all) simp
  then show ?thesis using Some c(1) nd(1) by (simp add: B_plus_tree_remove_def find_leaf_def)
qed

lemma filter_key_nth:
  "key \<in> fst ` set es \<Longrightarrow> distinct (map fst es) \<Longrightarrow>
   length (takeWhile (\<lambda>k. k \<noteq> key) (map fst es)) < length es \<and>
   filter (\<lambda>(k, v). k \<noteq> key) es =
     take (length (takeWhile (\<lambda>k. k \<noteq> key) (map fst es))) es @
     drop (Suc (length (takeWhile (\<lambda>k. k \<noteq> key) (map fst es)))) es"
  by (induction es) (force simp: filter_id_conv)+

lemma filter_key_id: "key \<notin> fst ` set es \<Longrightarrow> filter (\<lambda>(k, v). k \<noteq> key) es = es"
  by (force simp: filter_id_conv)

text \<open>Removal deletes the key's entry and nothing else.\<close>

lemma B_plus_tree_remove_ok:
  assumes bt: "bt h root es"
  shows "\<exists>h' root'. B_plus_tree_remove h root key = Some (h', root') \<and> bt h' root' (filter (\<lambda>(k, v). k \<noteq> key) es)"
proof (cases "key \<in> fst ` set es")
  case False
  then show ?thesis using B_plus_tree_remove_absent [OF bt False] bt filter_key_id [OF False] by simp
next
  case True
  then obtain r where root: "root = Some r" using bt by (cases root) auto
  obtain c a les nx where c: "find_leaf_loop h r key = Some a"
    "addr (fill c (Leaf a les nx)) = r" "wfc 0 c" "wft (if c = [] then 0 else 2) 0 (Leaf a les nx)"
    "es = ents (preF c) @ les @ ents (postF c)" "below key (preF c)" "beyond key (postF c)"
    "ordered (preF c @ emarks les @ postF c)" "keys_fit (preF c @ emarks les @ postF c)"
    "linked (preL c @ [(a, les, nx)] @ postL c)"
    "hp h (add_mset (a, LeafD les nx, par_of c) (ctx_cells c a))" by (rule bt_leaf [OF bt [unfolded root]])
  define i where "i = length (takeWhile (\<lambda>k. k \<noteq> key) (map fst les))"
  have out: "key \<notin> fst ` set (ents (preF c))" "key \<notin> fst ` set (ents (postF c))"
    using c(6,7) by (fastforce simp: below_def beyond_def set_ents)+
  then have "key \<in> fst ` set les" using True c(5) by auto
  moreover have "distinct (map fst les)" using bt_distinct [OF bt] c(5) by simp
  ultimately have i: "i < length les" "filter (\<lambda>(k, v). k \<noteq> key) les = take i les @ drop (Suc i) les"
    using filter_key_nth [of key les] by (auto simp: i_def)
  let ?les = "take i les @ drop (Suc i) les"
  have es: "filter (\<lambda>(k, v). k \<noteq> key) es = ents (preF c @ emarks ?les @ postF c)"
    unfolding c(5) filter_append i(2) using out by (simp add: filter_key_id)
  have marks: "emarks les = emarks (take i les) @ emarks [les ! i] @ emarks (drop (Suc i) les)"
    using id_take_nth_drop [OF i(1)] by (metis append_Cons append_Nil map_append)
  have ordered: "ordered (preF c @ emarks ?les @ postF c)" and fit: "keys_fit (preF c @ emarks ?les @ postF c)"
    using c(8,9) unfolding marks by (auto simp: sorted_wrt_append)
  obtain nd where nd: "nodes h a = Some nd" "desc_ok (LeafD les nx) (par_of c) nd" using c(11) by (rule hp_get)
  have scan: "scan_keys (\<lambda>k. strcmp k key \<noteq> 0) (keys nd) (num_keys nd) 0 = Some i"
    using nd scan_keys_spec [of "num_keys nd" "keys nd" "map fst les" "\<lambda>k. strcmp k key \<noteq> 0"]
    by (simp add: i_def)
  have "\<exists>h' root'. delete_entry h r a i = Some (h', root') \<and>
      bt h' root' (ents (preF c @ flat (Leaf a ?les nx) @ postF c))"
  proof (rule delete_entry_ok [of _ _ "LeafD les nx" _ _ _ 0])
    show "wft (if c = [] then 0 else 1) 0 (Leaf a ?les nx)" using c(4) i(1) by (auto split: if_splits)
    show "linked (preL c @ leaves (Leaf a ?les nx) @ postL c)"
      using linked_entries [of "preL c" a les nx "postL c" ?les] c(10) by simp
    show "r = addr (fill c (Leaf a ?les nx))" using c(2) addr_fill [of "Leaf a les nx" "Leaf a ?les nx" c] by simp
  qed (use c(3,11) ordered fit i(1) in simp_all)
  moreover have "i \<noteq> num_keys nd" using nd(2) i(1) by simp
  ultimately show ?thesis
    using root c(1) nd(1) scan unfolding es by (simp add: B_plus_tree_remove_def find_leaf_def)
qed

end
