(* ===== verification/Name_Index.thy ===== *)
theory Name_Index
  imports Bplus_Remove
begin

text \<open>
  The B+ tree as the name index of the file system.  The walks over the linked leaves visit
  the files in name order; deleting the whole tree terminates.  The interface the file system
  relies on is the locale \<open>name_index\<close>, interpreted on the operations of \<open>Bplus_Tree.h\<close>.
\<close>

section \<open>Walking the leaves\<close>

lemma entries_leaves: "entries t = concat (map (\<lambda>(a, es, nx). es) (leaves t))"
proof (induction t)
  case (Inner a ts ks)
  have "ents (weave (map flat us) js) = concat (map (\<lambda>(a, es, nx). es) (concat (map leaves us)))"
    if "set us \<subseteq> set ts" for us js
    using that
  proof (induction us arbitrary: js)
    case (Cons u us)
    then show ?case using Inner by (cases js) auto
  qed simp
  then show ?case by simp
qed simp

text \<open>Every leaf of a represented tree is in the heap.\<close>

definition leaf_at :: "bheap \<Rightarrow> node_ptr \<times> (string \<times> file_ptr) list \<times> ptr \<Rightarrow> bool" where
  "leaf_at h = (\<lambda>(a, es, nx). \<exists>nd p. nodes h a = Some nd \<and> desc_ok (LeafD es nx) p nd)"

lemma leaves_cells: "(a, es, nx) \<in> set (leaves t) \<Longrightarrow> \<exists>p'. (a, LeafD es nx, p') \<in># cells p t"
proof (induction t arbitrary: p)
  case (Inner b ts ks)
  then show ?case by (auto; blast)
qed auto

lemma leaves_at: "hp h (cells p t + M) \<Longrightarrow> \<forall>l \<in> set (leaves t). leaf_at h l"
proof
  fix l
  assume hp: "hp h (cells p t + M)" and l: "l \<in> set (leaves t)"
  obtain a es nx where ln: "l = (a, es, nx)" by (cases l)
  obtain p' where "(a, LeafD es nx, p') \<in># cells p t" using l leaves_cells ln by blast
  then have "(a, LeafD es nx, p') \<in># cells p t + M" by simp
  from hp_mem [OF hp this] show "leaf_at h l" by (auto simp: leaf_at_def ln)
qed

lemma leaf_files:
  assumes "desc_ok (LeafD es nx) p nd"
  shows "those (map rec_file (take (num_keys nd) (pointers nd))) = Some (map snd es)"
proof -
  have "map rec_file (take (num_keys nd) (pointers nd)) = map (\<lambda>e. Some (snd e)) es"
    using assms by (simp add: rec_file_def comp_def)
  then show ?thesis using those_map_Some [of es "\<lambda>e. Some (snd e)" snd] by simp
qed

lemma leaf_next:
  assumes "desc_ok (LeafD es nx) p nd"
  shows "next_leaf nd = (case nx of Null \<Rightarrow> Some None | PNode n \<Rightarrow> Some (Some n) | PRec _ \<Rightarrow> None)"
  using assms by (simp add: next_leaf_def crash_simps)

lemma walk_leaves_ok:
  "\<forall>l \<in> set ls. leaf_at h l \<Longrightarrow> linked ls \<Longrightarrow> ls \<noteq> [] \<Longrightarrow>
   walk_leaves h (Some (fst (hd ls))) = Some (concat (map (\<lambda>(a, es, nx). map snd es) ls))"
proof (induction ls rule: linked.induct)
  case (2 a es nx)
  then obtain nd p where nd: "nodes h a = Some nd" "desc_ok (LeafD es nx) p nd" by (auto simp: leaf_at_def)
  then show ?case using 2 leaf_files [OF nd(2)] leaf_next [OF nd(2)]
    by (subst walk_leaves.simps) (simp add: walk_leaves.simps [of h None])
next
  case (3 a es nx b es' nx' ls)
  then obtain nd p where nd: "nodes h a = Some nd" "desc_ok (LeafD es nx) p nd" by (auto simp: leaf_at_def)
  have "nx = PNode b" using 3 by simp
  then show ?case using 3 leaf_files [OF nd(2)] leaf_next [OF nd(2)] nd(1)
    by (subst walk_leaves.simps) simp
qed simp

lemma leftmost_ok:
  "hp h (cells p t + M) \<Longrightarrow> wft m n t \<Longrightarrow> leftmost h (addr t) = Some (fst (hd (leaves t))) \<and> leaves t \<noteq> []"
proof (induction n arbitrary: m p t M)
  case 0
  then obtain a es nx where t: "t = Leaf a es nx" by (cases t) auto
  obtain nd where "nodes h a = Some nd" "is_leaf nd"
    using 0 t hp_get [of h a "LeafD es nx" p M] by auto
  then show ?case by (subst leftmost.simps) (simp add: t)
next
  case (Suc n)
  then obtain a u us ks where t: "t = Inner a (u # us) ks" "wft 2 n u"
    by (cases t) (auto simp: length_Suc_conv)
  have hp: "hp h (add_mset (a, InnerD (addr u # map addr us) ks, p) (cellsl (Some a) (u # us) + M))"
    using Suc.prems(1) t by (simp add: cells_ac)
  obtain nd where nd: "nodes h a = Some nd" "desc_ok (InnerD (addr u # map addr us) ks) p nd"
    using hp by (rule hp_get)
  have "hp h (cells (Some a) u + add_mset (a, InnerD (addr u # map addr us) ks, p) (cellsl (Some a) us + M))"
    using hp by (simp add: cells_ac)
  from Suc.IH [OF this t(2)] have "leftmost h (addr u) = Some (fst (hd (leaves u)))" "leaves u \<noteq> []" by auto
  moreover have "leftmost h a = leftmost h (addr u)"
    using nd inner_slots(2,4) [OF nd(2), of 0] by (subst leftmost.simps) (simp add: crash_simps)
  ultimately show ?case using t by simp
qed

lemma wft_leaves:
  "wft m n t \<Longrightarrow> n = 0 \<longrightarrow> 2 \<le> m \<Longrightarrow> leaves t \<noteq> [] \<and> (\<forall>(a, es, nx) \<in> set (leaves t). 2 \<le> length es)"
proof (induction m n t rule: wft.induct)
  case (2 m n a ts ks)
  then have "\<forall>t \<in> set ts. leaves t \<noteq> [] \<and> (\<forall>(a, es, nx) \<in> set (leaves t). 2 \<le> length es)" by simp
  moreover have "ts \<noteq> []" using "2.prems" by auto
  ultimately show ?case by (cases ts) auto
qed auto

text \<open>A represented, non-\<open>NULL\<close> tree as its list of linked leaves.\<close>

lemma bt_leaves:
  assumes "bt h (Some r) es"
  obtains ls where "ls \<noteq> []" "linked ls" "\<forall>l \<in> set ls. leaf_at h l" "leftmost h r = Some (fst (hd ls))"
    "es = concat (map (\<lambda>(a, es, nx). es) ls)" "es = [] \<longleftrightarrow> fst (snd (hd ls)) = []"
proof -
  obtain t n where t: "addr t = r" "entries t = es" "wft (if n = 0 then 0 else 1) n t"
    "linked (leaves t)" "hp h (cells None t)"
    using assms by (auto simp: wf_root_def)
  have "\<forall>l \<in> set (leaves t). leaf_at h l" using leaves_at [of h None t "{#}"] t(5) by simp
  moreover have lm: "leftmost h r = Some (fst (hd (leaves t)))" "leaves t \<noteq> []"
    using leftmost_ok [of h None t "{#}"] t(1,3,5) by auto
  moreover have "fst (snd (hd (leaves t))) \<noteq> []" if "es \<noteq> []"
  proof (cases n)
    case 0
    then show ?thesis using t(2,3) that by (cases t) auto
  next
    case (Suc n')
    from wft_leaves [OF t(3)] this have "2 \<le> length (fst (snd (hd (leaves t))))"
      by (cases "leaves t") auto
    then show ?thesis by auto
  qed
  moreover have "fst (snd (hd (leaves t))) = []" if "es = []"
    using that t(2) entries_leaves [of t] lm(2) by (cases "leaves t") auto
  ultimately show ?thesis
    using that [OF lm(2) t(4)] entries_leaves [of t] unfolding t(2) by metis
qed

lemma traverse_leaves_ok:
  assumes "bt h root es"
  shows "traverse_leaves h root = Some (map snd es)"
proof (cases root)
  case None
  then show ?thesis using assms by (simp add: traverse_leaves_def)
next
  case (Some r)
  obtain ls where ls: "ls \<noteq> []" "linked ls" "\<forall>l \<in> set ls. leaf_at h l" "leftmost h r = Some (fst (hd ls))"
    "es = concat (map (\<lambda>(a, es, nx). es) ls)" "es = [] \<longleftrightarrow> fst (snd (hd ls)) = []"
    by (rule bt_leaves [OF assms [unfolded Some]])
  have "map snd es = concat (map (\<lambda>(a, es, nx). map snd es) ls)"
    unfolding ls(5) by (auto simp: map_concat comp_def case_prod_unfold)
  then show ?thesis using walk_leaves_ok [OF ls(3,2,1)] ls(4) Some by (simp add: traverse_leaves_def)
qed

lemma B_plus_tree_get_first_ok:
  assumes "bt h root es"
  shows "B_plus_tree_get_first h root = Some (case es of [] \<Rightarrow> None | (k, f) # _ \<Rightarrow> Some f)"
proof (cases root)
  case None
  then show ?thesis using assms by (simp add: B_plus_tree_get_first_def)
next
  case (Some r)
  obtain ls where ls: "ls \<noteq> []" "linked ls" "\<forall>l \<in> set ls. leaf_at h l" "leftmost h r = Some (fst (hd ls))"
    "es = concat (map (\<lambda>(a, es, nx). es) ls)" "es = [] \<longleftrightarrow> fst (snd (hd ls)) = []"
    by (rule bt_leaves [OF assms [unfolded Some]])
  then obtain a les nx ls' where l: "ls = (a, les, nx) # ls'" by (cases ls) auto
  obtain nd p where nd: "nodes h a = Some nd" "desc_ok (LeafD les nx) p nd" using ls(3) l by (auto simp: leaf_at_def)
  show ?thesis
  proof (cases les)
    case Nil
    then show ?thesis using ls(4,6) l nd Some by (simp add: B_plus_tree_get_first_def crash_simps)
  next
    case (Cons e les')
    then have "pointers nd ! 0 = PRec (snd e)" "0 < length (pointers nd)" using leaf_slots [OF nd(2), of 0] by auto
    then show ?thesis using ls(4,5) l nd(1) Some Cons
      by (cases e) (simp add: B_plus_tree_get_first_def crash_simps)
  qed
qed

text \<open>The file after the first occurrence of \<open>current\<close>.\<close>

definition next_file :: "file_ptr \<Rightarrow> file_ptr list \<Rightarrow> file_ptr option" where
  "next_file current fs = (case dropWhile (\<lambda>f. f \<noteq> current) fs of _ # f # _ \<Rightarrow> Some f | _ \<Rightarrow> None)"

lemma next_in_leaf_append:
  "next_in_leaf cur f (xs @ ys) =
     (case next_in_leaf cur f xs of (Some v, f') \<Rightarrow> (Some v, f') | (None, f') \<Rightarrow> next_in_leaf cur f' ys)"
  by (induction cur f xs rule: next_in_leaf.induct) auto

lemma next_in_leaf_found: "fst (next_in_leaf cur 1 fs) = (case fs of [] \<Rightarrow> None | f # _ \<Rightarrow> Some f)"
  by (cases fs) auto

lemma next_in_leaf_0: "fst (next_in_leaf cur 0 fs) = next_file cur fs"
  by (induction fs) (auto simp: next_file_def next_in_leaf_found split: list.splits)

lemma walk_next_ok:
  "\<forall>l \<in> set ls. leaf_at h l \<Longrightarrow> linked ls \<Longrightarrow> ls \<noteq> [] \<Longrightarrow>
   walk_next h cur f (fst (hd ls)) = Some (fst (next_in_leaf cur f (concat (map (\<lambda>(a, es, nx). map snd es) ls))))"
proof (induction ls arbitrary: f rule: linked.induct)
  case (2 a es nx)
  then obtain nd p where nd: "nodes h a = Some nd" "desc_ok (LeafD es nx) p nd" by (auto simp: leaf_at_def)
  then show ?case using 2 leaf_files [OF nd(2)] leaf_next [OF nd(2)]
    by (subst walk_next.simps) (auto split: option.splits)
next
  case (3 a es nx b es' nx' ls)
  then obtain nd p where nd: "nodes h a = Some nd" "desc_ok (LeafD es nx) p nd" by (auto simp: leaf_at_def)
  have nx: "nx = PNode b" and IH: "\<And>f. walk_next h cur f b =
      Some (fst (next_in_leaf cur f (concat (map (\<lambda>(a, es, nx). map snd es) ((b, es', nx') # ls)))))"
    using 3 by auto
  then show ?case using leaf_files [OF nd(2)] leaf_next [OF nd(2)] nd(1)
    by (subst walk_next.simps)
      (auto simp: next_in_leaf_append split: option.splits prod.splits)
qed simp

lemma B_plus_tree_get_next_ok:
  assumes "bt h root es"
  shows "B_plus_tree_get_next h root cur = Some (next_file cur (map snd es))"
proof (cases root)
  case None
  then show ?thesis using assms by (simp add: B_plus_tree_get_next_def next_file_def)
next
  case (Some r)
  obtain ls where ls: "ls \<noteq> []" "linked ls" "\<forall>l \<in> set ls. leaf_at h l" "leftmost h r = Some (fst (hd ls))"
    "es = concat (map (\<lambda>(a, es, nx). es) ls)" "es = [] \<longleftrightarrow> fst (snd (hd ls)) = []"
    by (rule bt_leaves [OF assms [unfolded Some]])
  have "map snd es = concat (map (\<lambda>(a, es, nx). map snd es) ls)"
    unfolding ls(5) by (auto simp: map_concat comp_def case_prod_unfold)
  then show ?thesis
    using walk_next_ok [OF ls(3,2,1), of cur 0] ls(4) Some
    by (simp add: B_plus_tree_get_next_def next_in_leaf_0)
qed

text \<open>Deleting the tree removes the first entry until none is left.\<close>

lemma delete_B_plus_tree_ok: "bt h root es \<Longrightarrow> \<exists>h'. delete_B_plus_tree h root = Some h'"
proof (induction "length es" arbitrary: h root es rule: less_induct)
  case less
  show ?case
  proof (cases root)
    case None
    then show ?thesis by (simp add: delete_B_plus_tree.simps)
  next
    case (Some r)
    obtain ls where ls: "ls \<noteq> []" "linked ls" "\<forall>l \<in> set ls. leaf_at h l" "leftmost h r = Some (fst (hd ls))"
      "es = concat (map (\<lambda>(a, es, nx). es) ls)" "es = [] \<longleftrightarrow> fst (snd (hd ls)) = []"
      by (rule bt_leaves [OF less.prems [unfolded Some]])
    then obtain a les nx ls' where l: "ls = (a, les, nx) # ls'" by (cases ls) auto
    obtain nd p where nd: "nodes h a = Some nd" "desc_ok (LeafD les nx) p nd" using ls(3) l by (auto simp: leaf_at_def)
    show ?thesis
    proof (cases les)
      case Nil
      then show ?thesis using Some ls(4) l nd by (simp add: delete_B_plus_tree.simps [of h])
    next
      case (Cons e les')
      obtain h' root' where rm: "B_plus_tree_remove h root (fst e) = Some (h', root')"
        "bt h' root' (filter (\<lambda>(k, v). k \<noteq> fst e) es)" using B_plus_tree_remove_ok [OF less.prems] by blast
      have "length (filter (\<lambda>(k, v). k \<noteq> fst e) es) < length es"
        using ls(5) l Cons by (intro length_filter_less [of e]) auto
      from less.hyps [OF this rm(2)] obtain h'' where "delete_B_plus_tree h' root' = Some h''" by blast
      moreover have "keys nd ! 0 = Some (fst e)" "0 < length (keys nd)" "num_keys nd \<noteq> 0"
        using leaf_slots [OF nd(2), of 0] nd(2) Cons by auto
      ultimately show ?thesis using Some ls(4) l nd(1) rm(1)
        by (subst delete_B_plus_tree.simps) (simp add: crash_simps)
    qed
  qed
qed

lemma B_plus_tree_empty_ok:
  assumes "bt h (Some r) es"
  shows "B_plus_tree_empty h (Some r) = Some (es = [])"
proof -
  obtain t n where t: "addr t = r" "entries t = es" "wft (if n = 0 then 0 else 1) n t" "hp h (cells None t)"
    using assms by (auto simp: wf_root_def)
  obtain nd where nd: "nodes h r = Some nd" "desc_ok (desc_of t) None nd"
    using t(4) hp_get [of h "addr t" "desc_of t" None "sub t"] t(1) by (auto simp: cells_sub)
  have "nkeys t = 0 \<longleftrightarrow> es = []"
  proof (cases n)
    case 0
    then show ?thesis using t(2,3) by (cases t) auto
  next
    case (Suc n')
    from wft_leaves [OF t(3)] this have "es \<noteq> []"
      using entries_leaves [of t] t(2) by (cases "leaves t") auto
    then show ?thesis using t(3) Suc by (cases t) auto
  qed
  then show ?thesis using nd desc_tree(1) [OF nd(2) t(3)] by (simp add: B_plus_tree_empty_def)
qed

declare bt.simps(2) [simp del]

section \<open>The interface\<close>

text \<open>What the file system uses of its name index: a partial map from names to files that is
  walked in name order.  \<open>repr t es\<close> says that \<open>t\<close> holds the entries \<open>es\<close>; \<open>ready t\<close> that
  an insertion into \<open>t\<close> may be made.  Every operation returns \<open>None\<close> for a crash.\<close>

locale name_index =
  fixes repr :: "'t \<Rightarrow> (string \<times> 'f) list \<Rightarrow> bool"
    and ready :: "'t \<Rightarrow> bool"
    and lookup :: "'t \<Rightarrow> string \<Rightarrow> 'f option option"
    and add :: "'t \<Rightarrow> string \<Rightarrow> 'f \<Rightarrow> 't option"
    and del :: "'t \<Rightarrow> string \<Rightarrow> 't option"
    and walk :: "'t \<Rightarrow> 'f list option"
    and maxlen :: nat
  assumes repr_sorted: "repr t es \<Longrightarrow> sorted_wrt (<) (map fst es)"
    and lookup_repr: "repr t es \<Longrightarrow> lookup t k = Some (map_of es k)"
    and add_new: "repr t es \<Longrightarrow> ready t \<Longrightarrow> length k < maxlen \<Longrightarrow> k \<notin> fst ` set es \<Longrightarrow>
          \<exists>t' es'. add t k f = Some t' \<and> repr t' es' \<and> set es' = insert (k, f) (set es)"
    and add_old: "repr t es \<Longrightarrow> k \<in> fst ` set es \<Longrightarrow> add t k f = Some t"
    and del_repr: "repr t es \<Longrightarrow> \<exists>t'. del t k = Some t' \<and> repr t' (filter (\<lambda>(k', v). k' \<noteq> k) es)"
    and walk_repr: "repr t es \<Longrightarrow> walk t = Some (map snd es)"
begin

lemma lookup_walk: "repr t es \<Longrightarrow> lookup t k = Some (Some f) \<Longrightarrow> \<exists>fs. walk t = Some fs \<and> f \<in> set fs"
  using walk_repr lookup_repr by (auto dest!: map_of_SomeD intro!: image_eqI [of f snd])

lemma repr_map_of:
  assumes "repr t es" "repr t' es'" "set es' = insert (k, f) (set es)" "k \<notin> fst ` set es"
  shows "map_of es' = (map_of es)(k \<mapsto> f)"
proof -
  have d: "distinct (map fst es)" "distinct (map fst es')"
    using repr_sorted assms(1,2) strict_sorted_iff by blast+
  have "map_of es' = map_of ((k, f) # es)" using d assms(3,4) by (intro map_of_inject_set [THEN iffD2]) auto
  then show ?thesis by simp
qed

lemma lookup_add:
  assumes "repr t es" "ready t" "length k < maxlen" "lookup t k = Some None"
  shows "\<exists>t'. add t k f = Some t' \<and> (\<exists>es'. repr t' es') \<and>
    (\<forall>k'. lookup t' k' = (if k' = k then Some (Some f) else lookup t k'))"
proof -
  have "k \<notin> fst ` set es" using assms(1,4) lookup_repr by (force simp: map_of_eq_None_iff)
  then obtain t' es' where t': "add t k f = Some t'" "repr t' es'" "set es' = insert (k, f) (set es)"
    using add_new assms by blast
  then show ?thesis using repr_map_of [OF assms(1) t'(2,3)] \<open>k \<notin> fst ` set es\<close> lookup_repr assms(1) by auto
qed

lemma map_of_filter_key: "map_of (filter (\<lambda>(k', v). k' \<noteq> k) es) = (map_of es)(k := None)"
  by (induction es) auto

lemma lookup_del:
  assumes "repr t es"
  shows "\<exists>t'. del t k = Some t' \<and> (\<exists>es'. repr t' es') \<and>
    (\<forall>k'. lookup t' k' = (if k' = k then Some None else lookup t k'))"
  using del_repr [OF assms, of k] lookup_repr assms by (force simp: map_of_filter_key)

lemma add_keeps: "repr t es \<Longrightarrow> lookup t k = Some (Some g) \<Longrightarrow> add t k f = Some t"
  using add_old lookup_repr by (force dest!: map_of_SomeD)

end

text \<open>A tree is its heap and its root pointer; \<open>cond0\<close> is the stack garbage the insertion may
  read.\<close>

type_synonym btree_ptr = "bheap \<times> node_ptr option"

definition tree_holds :: "btree_ptr \<Rightarrow> (string \<times> file_ptr) list \<Rightarrow> bool" where
  "tree_holds = (\<lambda>(h, root) es. bt h root es)"

definition tree_ready :: "int \<Rightarrow> btree_ptr \<Rightarrow> bool" where
  "tree_ready cond0 = (\<lambda>(h, root). root = None \<or> cond0 \<noteq> 0 \<or> B_plus_tree_empty h root = Some False)"

lemma ins_entry_set: "k \<notin> fst ` set es \<Longrightarrow> set (ins_entry k f es) = insert (k, f) (set es)"
  by (metis (no_types, lifting) Un_insert_right ins_entry_def list.simps(15) set_append takeWhile_dropWhile_id)

interpretation bpt: name_index tree_holds "tree_ready cond0"
  "\<lambda>(h, root). B_plus_tree_find h root" "\<lambda>(h, root). B_plus_tree_insert cond0 h root"
  "\<lambda>(h, root). B_plus_tree_remove h root" "\<lambda>(h, root). traverse_leaves h root" MAX_KEY_LEN
  for cond0
proof
  fix t es k and f :: file_ptr
  assume r: "tree_holds t es"
  obtain h root where t: "t = (h, root)" by (cases t)
  have bt: "bt h root es" using r t by (simp add: tree_holds_def)
  show "sorted_wrt (<) (map fst es)" using bt_sorted [OF bt] .
  show "(case t of (h, root) \<Rightarrow> B_plus_tree_find h root) k = Some (map_of es k)"
    using B_plus_tree_find_ok [OF bt] t by simp
  show "\<exists>t'. (case t of (h, root) \<Rightarrow> B_plus_tree_remove h root) k = Some t' \<and>
      tree_holds t' (filter (\<lambda>(k', v). k' \<noteq> k) es)"
    using B_plus_tree_remove_ok [OF bt] t by (auto simp: tree_holds_def)
  show "(case t of (h, root) \<Rightarrow> traverse_leaves h root) = Some (map snd es)"
    using traverse_leaves_ok [OF bt] t by simp
  show "(case t of (h, root) \<Rightarrow> B_plus_tree_insert cond0 h root) k f = Some t" if old: "k \<in> fst ` set es"
  proof -
    obtain r where "root = Some r" using bt old by (cases root) auto
    then show ?thesis using B_plus_tree_insert_present bt old t by simp
  qed
  show "\<exists>t' es'. (case t of (h, root) \<Rightarrow> B_plus_tree_insert cond0 h root) k f = Some t' \<and>
      tree_holds t' es' \<and> set es' = insert (k, f) (set es)"
    if "tree_ready cond0 t" "length k < MAX_KEY_LEN" "k \<notin> fst ` set es"
  proof -
    have "root = None \<or> es \<noteq> [] \<or> cond0 \<noteq> 0"
      using that(1) t B_plus_tree_empty_ok [of h _ es] bt by (cases root) (auto simp: tree_ready_def)
    from B_plus_tree_insert_ok [OF bt that(2) this, of f] show ?thesis
      using t ins_entry_set [OF that(3), of f] by (auto simp: tree_holds_def)
  qed
qed

section \<open>Properties\<close>

text \<open>A sequence of insertions and removals, each with the stack garbage it finds.\<close>

datatype index_op = Insert int string file_ptr | Remove string

fun run_op :: "index_op \<Rightarrow> btree_ptr \<Rightarrow> btree_ptr option" where
  "run_op (Insert cond0 k f) (h, root) = B_plus_tree_insert cond0 h root k f"
| "run_op (Remove k) (h, root) = B_plus_tree_remove h root k"

fun run_ops :: "index_op list \<Rightarrow> btree_ptr \<Rightarrow> btree_ptr option" where
  "run_ops [] t = Some t"
| "run_ops (op # ops) t = do { t' \<leftarrow> run_op op t; run_ops ops t' }"

text \<open>The same sequence on a finite map: the first file stored under a name stays.\<close>

fun spec_op :: "index_op \<Rightarrow> (string \<rightharpoonup> file_ptr) \<Rightarrow> (string \<rightharpoonup> file_ptr)" where
  "spec_op (Insert cond0 k f) m = (if k \<in> dom m then m else m(k \<mapsto> f))"
| "spec_op (Remove k) m = m(k := None)"

fun op_ok :: "index_op \<Rightarrow> bool" where
  "op_ok (Insert cond0 k f) = (cond0 \<noteq> 0 \<and> length k < MAX_KEY_LEN)"
| "op_ok (Remove k) = True"

lemma run_op_ok:
  assumes "tree_holds t es" "op_ok op"
  shows "\<exists>t' es'. run_op op t = Some t' \<and> tree_holds t' es' \<and> map_of es' = spec_op op (map_of es)"
proof (cases op)
  case (Insert cond0 k f)
  obtain h root where t: "t = (h, root)" by (cases t)
  have bt: "bt h root es" using assms(1) t by (simp add: tree_holds_def)
  obtain h' r' where "B_plus_tree_insert cond0 h root k f = Some (h', Some r')" "bt h' (Some r') (ins_entry k f es)"
    using B_plus_tree_insert_ok [OF bt, of k cond0 f] assms(2) Insert by auto
  then show ?thesis using t Insert map_of_ins_entry [of k f es]
    by (intro exI [of _ "(h', Some r')"] exI [of _ "ins_entry k f es"])
      (simp add: tree_holds_def dom_map_of_conv_image_fst)
next
  case (Remove k)
  obtain h root where t: "t = (h, root)" by (cases t)
  have bt: "bt h root es" using assms(1) t by (simp add: tree_holds_def)
  obtain h' root' where "B_plus_tree_remove h root k = Some (h', root')" "bt h' root' (filter (\<lambda>(k', v). k' \<noteq> k) es)"
    using B_plus_tree_remove_ok [OF bt] by blast
  then show ?thesis using t Remove bpt.map_of_filter_key [of k es] by (auto simp: tree_holds_def)
qed

lemma run_ops_ok:
  "tree_holds t es \<Longrightarrow> list_all op_ok ops \<Longrightarrow>
   \<exists>t' es'. run_ops ops t = Some t' \<and> tree_holds t' es' \<and> map_of es' = fold spec_op ops (map_of es)"
proof (induction ops arbitrary: t es)
  case (Cons op ops)
  then obtain t1 es1 where t1: "run_op op t = Some t1" "tree_holds t1 es1" "map_of es1 = spec_op op (map_of es)"
    using run_op_ok [of t es op] by auto
  then show ?case using Cons.IH [OF t1(2)] Cons.prems by auto
qed auto

lemma run_initial_ok:
  assumes "list_all op_ok ops"
  shows "\<exists>h root es. run_ops ops (map_prod id Some (B_plus_tree_initial h0)) = Some (h, root) \<and> bt h root es \<and>
    map_of es = fold spec_op ops Map.empty"
proof -
  have "tree_holds (map_prod id Some (B_plus_tree_initial h0)) []"
    using B_plus_tree_initial_ok [of h0] by (cases "B_plus_tree_initial h0") (simp add: tree_holds_def)
  from run_ops_ok [OF this assms] show ?thesis by (auto simp: tree_holds_def)
qed

text \<open>C1: Starting from \<open>B_plus_tree_initial\<close>, every sequence of insertions and removals runs
  without a crash, and a lookup afterwards returns exactly what the same sequence leaves in a
  finite map (with names below 256 bytes, and provided the uninitialised \<open>cond\<close> is not 0 when
  it is read).\<close>

theorem index_refines_map:
  assumes "list_all op_ok ops"
  shows "\<exists>h root. run_ops ops (map_prod id Some (B_plus_tree_initial h0)) = Some (h, root) \<and>
    (\<forall>key. B_plus_tree_find h root key = Some (fold spec_op ops Map.empty key))"
  using run_initial_ok [OF assms, of h0] B_plus_tree_find_ok by metis

theorem index_refines_map_witness:
  "\<exists>h root. run_ops [Insert 1 ''b'' 7, Insert 1 ''a'' 8, Remove ''b'']
      (map_prod id Some (B_plus_tree_initial empty_heap)) = Some (h, root) \<and>
    B_plus_tree_find h root ''a'' = Some (Some 8) \<and> B_plus_tree_find h root ''b'' = Some None"
proof -
  have "list_all op_ok [Insert 1 ''b'' 7, Insert 1 ''a'' 8, Remove ''b'']" by (simp add: MAX_KEY_LEN_def)
  from index_refines_map [OF this, of empty_heap] show ?thesis by auto
qed

text \<open>C21: After any such sequence the walk over the linked leaves visits the stored files in
  the order of their names: \<open>traverse_leaves\<close> returns all of them, \<open>B_plus_tree_get_first\<close> the
  first, and \<open>B_plus_tree_get_next\<close> the one after the given file.\<close>

theorem index_walk_in_order:
  assumes "list_all op_ok ops"
  shows "\<exists>h root es. run_ops ops (map_prod id Some (B_plus_tree_initial h0)) = Some (h, root) \<and>
    sorted_wrt (<) (map fst es) \<and> map_of es = fold spec_op ops Map.empty \<and>
    traverse_leaves h root = Some (map snd es) \<and>
    B_plus_tree_get_first h root = Some (case es of [] \<Rightarrow> None | (k, f) # _ \<Rightarrow> Some f) \<and>
    (\<forall>cur. B_plus_tree_get_next h root cur = Some (next_file cur (map snd es)))"
proof -
  obtain h root es where r: "run_ops ops (map_prod id Some (B_plus_tree_initial h0)) = Some (h, root)"
    "bt h root es" "map_of es = fold spec_op ops Map.empty" using run_initial_ok [OF assms, of h0] by blast
  then show ?thesis
    using bt_sorted [OF r(2)] traverse_leaves_ok [OF r(2)] B_plus_tree_get_first_ok [OF r(2)]
      B_plus_tree_get_next_ok [OF r(2)]
    by (intro exI [of _ h] exI [of _ root] exI [of _ es]) simp
qed

theorem index_walk_in_order_witness:
  "\<exists>h root es. run_ops [Insert 1 ''b'' 7, Insert 1 ''a'' 8, Insert 1 ''c'' 9]
      (map_prod id Some (B_plus_tree_initial empty_heap)) = Some (h, root) \<and>
    sorted_wrt (<) (map fst es) \<and> map_of es = [''b'' \<mapsto> 7, ''a'' \<mapsto> 8, ''c'' \<mapsto> 9] \<and>
    traverse_leaves h root = Some (map snd es)"
proof -
  have "list_all op_ok [Insert 1 ''b'' 7, Insert 1 ''a'' 8, Insert 1 ''c'' 9]" by (simp add: MAX_KEY_LEN_def)
  from index_walk_in_order [OF this, of empty_heap] show ?thesis by auto
qed

text \<open>C22: Deleting a tree built by any such sequence terminates without a crash.\<close>

theorem index_delete_terminates:
  assumes "list_all op_ok ops"
  shows "\<exists>h root h'. run_ops ops (map_prod id Some (B_plus_tree_initial h0)) = Some (h, root) \<and>
    delete_B_plus_tree h root = Some h'"
  using run_initial_ok [OF assms, of h0] delete_B_plus_tree_ok by metis

theorem index_delete_terminates_witness:
  "\<exists>h root h'. run_ops [Insert 1 ''b'' 7, Insert 1 ''a'' 8]
      (map_prod id Some (B_plus_tree_initial empty_heap)) = Some (h, root) \<and>
    delete_B_plus_tree h root = Some h'"
proof -
  have "list_all op_ok [Insert 1 ''b'' 7, Insert 1 ''a'' 8]" by (simp add: MAX_KEY_LEN_def)
  from index_delete_terminates [OF this, of empty_heap] show ?thesis .
qed

text \<open>On a fresh tree the insertion reads \<open>cond\<close> before any assignment; when the stack
  holds 0 there, the insertion returns without storing anything and the file is not found.\<close>

theorem fresh_insert_may_be_lost:
  "\<exists>h root. B_plus_tree_initial h0 = (h, root) \<and>
    B_plus_tree_insert 0 h (Some root) key f = Some (h, Some root) \<and>
    B_plus_tree_find h (Some root) key = Some None"
proof -
  obtain h root where i: "B_plus_tree_initial h0 = (h, root)" by (cases "B_plus_tree_initial h0")
  have bt: "bt h (Some root) []" using B_plus_tree_initial_ok [of h0] i by simp
  have nd: "nodes h root = Some (blank_node\<lparr>is_leaf := True\<rparr>)"
    using i by (auto simp: B_plus_tree_initial_def make_new_leaf_def)
  then have "B_plus_tree_insert 0 h (Some root) key f = Some (h, Some root)"
    by (simp add: B_plus_tree_insert_def find_leaf_def find_leaf_loop.simps [of h] scan_keys.simps
        scan_cond_def blank_node_def Let_def)
  then show ?thesis using i B_plus_tree_find_ok [OF bt, of key] by auto
qed

end
