(* ===== verification/NBFS_State.thy ===== *)
theory NBFS_State
  imports Cache_Tree Name_Index
begin

text \<open>
  The state of the file system layer, \<open>lib/NBFS/NBFS.c\<close>, and its request channels.

  One mounted file system is modelled.  The C structs are records; the pointers between them
  (files, requests, channels, cache buffers) are numbers into the maps of the state.  The
  blobstore, the SPDK threads and the users of the library are the environment: a call of a
  blobstore operation adds the call, with its completion callback, to \<open>pending\<close>; a message to
  another thread is added to that thread's queue; a call of a user's callback is recorded in
  \<open>replies\<close>.  A later step of the environment completes a pending call with a result it
  chooses, or delivers a message.  Function pointers and their argument are the values of
  the callback datatypes.

  Every handler is a function from the state to an optional state; \<open>None\<close> is a crash (a
  failing assertion, a NULL or dangling pointer, the deadlock of a spinlock taken twice).
  Allocations may fail: each one consumes the next element of \<open>alloc_fail\<close>.  A thread that
  sleeps for a free cache buffer lets the reclaim poller run when the next element of
  \<open>poller_runs\<close> says so.
\<close>

section \<open>Data\<close>

type_synonym req_ptr = nat
type_synonym chan_ptr = nat
type_synonym blob_ptr = nat
type_synonym blob_id = u64

definition SPDK_FILE_NAME_MAX :: nat where "SPDK_FILE_NAME_MAX = 255"
definition SPDK_BLOBFS_OPEN_CREATE :: u32 where "SPDK_BLOBFS_OPEN_CREATE = 1"
definition SPDK_FILE_PRIORITY_LOW :: u32 where "SPDK_FILE_PRIORITY_LOW = 0"
definition SPDK_BLOBFS_DEFAULT_OPTS_CLUSTER_SZ :: u32 where
  "SPDK_BLOBFS_DEFAULT_OPTS_CLUSTER_SZ = 1024 * 1024"
definition CACHE_READAHEAD_THRESHOLD :: u64 where "CACHE_READAHEAD_THRESHOLD = 128 * 1024"
definition BLOBFS_DEFAULT_CACHE_SIZE :: u64 where "BLOBFS_DEFAULT_CACHE_SIZE = 4 * 1024 * 1024 * 1024"

abbreviation (input) EPERM :: int where "EPERM \<equiv> 1"
abbreviation (input) ENOENT :: int where "ENOENT \<equiv> 2"
abbreviation (input) EBADF :: int where "EBADF \<equiv> 9"
abbreviation (input) ENOMEM :: int where "ENOMEM \<equiv> 12"
abbreviation (input) EEXIST :: int where "EEXIST \<equiv> 17"
abbreviation (input) EINVAL :: int where "EINVAL \<equiv> 22"
abbreviation (input) ENAMETOOLONG :: int where "ENAMETOOLONG \<equiv> 36"

subsection \<open>Callbacks\<close>

text \<open>\<open>spdk_file_op_complete\<close> and \<open>spdk_fs_op_complete\<close>: a user's callback with its argument,
  or one of the layer's own with the request it is given.\<close>

datatype file_cb =
    Cb_user nat
  | Cb_wake_caller req_ptr
  | Cb_create_file_done req_ptr
  | Cb_rename_file_done req_ptr
  | Cb_delete_file_done req_ptr
  | Cb_rw_from_file_done req_ptr
  | Cb_open_blob_create req_ptr
  | Cb_rename_delete_done req_ptr
  | Cb_blob_delete req_ptr
  | Cb_do_blob_read req_ptr
  | Cb_close_sync_done req_ptr

datatype handle_cb = Hcb_user nat | Hcb_open_file_done req_ptr
datatype stat_cb = Scb_user nat | Scb_copy_stat req_ptr

text \<open>The union \<open>fn\<close> of \<open>spdk_fs_cb_args\<close>.\<close>

datatype cb_fn = Fn_none | Fn_file file_cb | Fn_handle handle_cb | Fn_fs nat | Fn_stat stat_cb

text \<open>Completions of blobstore calls.\<close>

datatype bs_cb =
    Bs_init req_ptr | Bs_load req_ptr | Bs_unload req_ptr | Bs_load_done req_ptr
  | Bs_create_blob_create req_ptr | Bs_create_blob_open req_ptr
  | Bs_create_blob_resize req_ptr | Bs_create_blob_close req_ptr
  | Bs_open_blob_done req_ptr
  | Bs_rename_blob_open req_ptr | Bs_rename_blob_close req_ptr
  | Bs_blob_delete req_ptr
  | Bs_truncate_resize req_ptr | Bs_truncate_complete req_ptr
  | Bs_rw_done req_ptr | Bs_read_done req_ptr
  | Bs_finish_sync req_ptr | Bs_flush_done req_ptr
  | Bs_extend_resize req_ptr | Bs_extend_done req_ptr
  | Bs_readahead_done req_ptr
  | Bs_close_async_done req_ptr

text \<open>The blobstore calls themselves; block I/O carries the block range and, for a write, the
  bytes written.\<close>

datatype bs_call =
    BS_init "u32 option" | BS_load | BS_unload
  | BS_create_blob | BS_open_blob blob_id | BS_delete_blob blob_id
  | BS_close blob_ptr | BS_resize blob_ptr u64 | BS_sync_md blob_ptr
  | BS_write blob_ptr "u8 list" u64 u64 | BS_read blob_ptr u64 u64

datatype xattr = X_name string | X_length u64 | X_is_deleted bool

text \<open>Messages to the metadata thread (\<open>fs->send_request\<close>) and to the cache pool thread.\<close>

datatype msg =
    Msg_file_stat req_ptr | Msg_create_file req_ptr | Msg_open_file req_ptr
  | Msg_rename_file req_ptr | Msg_delete_file req_ptr | Msg_truncate req_ptr
  | Msg_file_flush req_ptr | Msg_extend_blob req_ptr | Msg_rw_from_file req_ptr
  | Msg_readahead req_ptr | Msg_file_close req_ptr

datatype pool_msg =
    Pool_start | Pool_stop | Pool_add_file file_ptr | Pool_remove_file file_ptr | Pool_file_free file_ptr

record spdk_file_stat =
  stat_blobid :: blob_id
  stat_size :: u64

datatype user_reply =
    Reply_op nat int
  | Reply_file nat "file_ptr option" int
  | Reply_fs nat bool int
  | Reply_stat nat "spdk_file_stat option" int

subsection \<open>Structs\<close>

text \<open>\<open>struct spdk_file\<close>.  \<open>blob\<close> and \<open>name\<close> are pointers that may be NULL.\<close>

record spdk_file =
  blob :: "blob_ptr option"
  name :: "string option"
  trace_arg_name :: u64
  file_length :: u64
  is_deleted :: bool
  open_for_writing :: bool
  length_flushed :: u64
  length_xattr :: u64
  append_pos :: u64
  seq_byte_count :: u64
  next_seq_offset :: u64
  priority :: u32
  blobid :: blob_id
  ref_count :: u32
  lock :: bool
  file_last :: "buf_ptr option"
  tree :: cache_tree
  open_requests :: "req_ptr list"
  sync_requests :: "req_ptr list"

record iovec =
  iov_base :: nat
  iov_len :: u64

text \<open>The union \<open>op\<close> of \<open>spdk_fs_cb_args\<close>.  \<open>pin_buf\<close> is the bounce buffer of a block I/O.\<close>

record rw_op =
  rw_channel :: chan_ptr
  pin_buf :: "u8 list"
  is_read :: bool
  rw_offset :: u64
  rw_length :: u64
  start_lba :: u64
  num_lba :: u64
  blocklen :: u32

datatype op_args =
    Op_none
  | Op_fs_load (deleted_files: "blob_id list")
  | Op_truncate u64
  | Op_rw rw_op
  | Op_rename string string
  | Op_flush buf_ptr u64
  | Op_readahead "buf_ptr option" u64 u64
  | Op_sync u64 bool u64
  | Op_resize u32
  | Op_open string u32
  | Op_create string "blob_ptr option"
  | Op_delete string
  | Op_stat string

text \<open>\<open>struct spdk_fs_request\<close> with its embedded \<open>spdk_fs_cb_args\<close>; \<open>rwerrno\<close> points to the
  \<open>rw_from_file_arg\<close> of the calling thread, \<open>sem\<close> to a channel's semaphore.\<close>

record spdk_fs_request =
  channel :: "chan_ptr option"
  fn :: cb_fn
  sem :: "chan_ptr option"
  arg_file :: "file_ptr option"
  rc :: int
  rwerrno :: "nat option"
  iovs :: "iovec list"
  iovcnt :: u32
  stat_out :: "spdk_file_stat option"
  op :: op_args

record spdk_fs_channel =
  reqs :: "req_ptr list"
  sem_value :: nat
  bs_channel :: bool
  direct :: bool
  sync :: bool
  outstanding_reqs :: u32

text \<open>The whole state.  \<open>stack_cond\<close> is the garbage \<open>B_plus_tree_insert\<close> may read;
  \<open>num_clusters\<close>, \<open>cluster_sz\<close> and \<open>io_unit_size\<close> answer the blobstore's accessors;
  \<open>pool_count\<close> is the number of free buffers of the cache pool, \<open>None\<close> while the pool does not
  exist; \<open>memory\<close> is the memory of the library's users, \<open>heap_garbage\<close> what a fresh buffer
  holds.\<close>

record nbfs =
  bt_heap :: bheap
  files :: "node_ptr option"
  stack_cond :: int
  file_heap :: "file_ptr \<rightharpoonup> spdk_file"
  fresh_file :: file_ptr
  requests :: "req_ptr \<rightharpoonup> spdk_fs_request"
  fresh_req :: req_ptr
  channels :: "chan_ptr \<rightharpoonup> spdk_fs_channel"
  fresh_chan :: chan_ptr
  md_fs_channel :: chan_ptr
  sync_fs_channel :: chan_ptr
  cluster_sz :: u64
  io_unit_size :: u32
  num_clusters :: "blob_ptr \<Rightarrow> u64"
  xattrs :: "(blob_ptr \<times> xattr) list"
  pending :: "(bs_call \<times> bs_cb) list"
  msgs :: "msg list"
  pool_msgs :: "pool_msg list"
  replies :: "user_reply list"
  rw_errno :: "nat \<Rightarrow> int"
  memory :: memblk
  heap_garbage :: memblk
  buffers :: "buf_ptr \<rightharpoonup> cache_buffer"
  fresh_buf :: buf_ptr
  g_caches :: "file_ptr list"
  g_fs_cache_size :: u64
  pool_count :: "nat option"
  poller :: bool
  g_fs_count :: int
  alloc_fail :: "bool list"
  poller_runs :: "bool list"
  mounted :: bool

section \<open>Access\<close>

definition get_file :: "nbfs \<Rightarrow> file_ptr \<Rightarrow> spdk_file option" where
  "get_file st f = file_heap st f"

definition upd_file :: "nbfs \<Rightarrow> file_ptr \<Rightarrow> (spdk_file \<Rightarrow> spdk_file) \<Rightarrow> nbfs option" where
  "upd_file st f g = do { fl \<leftarrow> file_heap st f; Some (st\<lparr>file_heap := (file_heap st)(f \<mapsto> g fl)\<rparr>) }"

definition get_req :: "nbfs \<Rightarrow> req_ptr \<Rightarrow> spdk_fs_request option" where
  "get_req st r = requests st r"

definition upd_req :: "nbfs \<Rightarrow> req_ptr \<Rightarrow> (spdk_fs_request \<Rightarrow> spdk_fs_request) \<Rightarrow> nbfs option" where
  "upd_req st r g = do { rq \<leftarrow> requests st r; Some (st\<lparr>requests := (requests st)(r \<mapsto> g rq)\<rparr>) }"

definition upd_channel :: "nbfs \<Rightarrow> chan_ptr \<Rightarrow> (spdk_fs_channel \<Rightarrow> spdk_fs_channel) \<Rightarrow> nbfs option" where
  "upd_channel st c g = do { ch \<leftarrow> channels st c; Some (st\<lparr>channels := (channels st)(c \<mapsto> g ch)\<rparr>) }"

text \<open>The file a request points to; NULL is a crash.\<close>

definition req_file :: "nbfs \<Rightarrow> req_ptr \<Rightarrow> file_ptr option" where
  "req_file st r = do { rq \<leftarrow> get_req st r; arg_file rq }"

text \<open>Spinlocks of files: taking a lock that is held never returns, and releasing one that is not
  held is undefined (POSIX), a crash.\<close>

definition lock_file :: "nbfs \<Rightarrow> file_ptr \<Rightarrow> nbfs option" where
  "lock_file st f = do { fl \<leftarrow> get_file st f; oassert (\<not> lock fl); upd_file st f (lock_update (\<lambda>_. True)) }"

definition unlock_file :: "nbfs \<Rightarrow> file_ptr \<Rightarrow> nbfs option" where
  "unlock_file st f = do { fl \<leftarrow> get_file st f; oassert (lock fl); upd_file st f (lock_update (\<lambda>_. False)) }"

text \<open>One allocation from the system heap.\<close>

definition try_alloc :: "nbfs \<Rightarrow> bool \<times> nbfs" where
  "try_alloc st = (case alloc_fail st of
       [] \<Rightarrow> (True, st)
     | b # bs \<Rightarrow> (\<not> b, st\<lparr>alloc_fail := bs\<rparr>))"

definition bs_submit :: "bs_call \<Rightarrow> bs_cb \<Rightarrow> nbfs \<Rightarrow> nbfs" where
  "bs_submit call cb st = st\<lparr>pending := pending st @ [(call, cb)]\<rparr>"

definition send_request :: "msg \<Rightarrow> nbfs \<Rightarrow> nbfs" where
  "send_request m st = st\<lparr>msgs := msgs st @ [m]\<rparr>"

definition send_pool_msg :: "pool_msg \<Rightarrow> nbfs \<Rightarrow> nbfs" where
  "send_pool_msg m st = st\<lparr>pool_msgs := pool_msgs st @ [m]\<rparr>"

definition set_xattr :: "blob_ptr \<Rightarrow> xattr \<Rightarrow> nbfs \<Rightarrow> nbfs" where
  "set_xattr b x st = st\<lparr>xattrs := xattrs st @ [(b, x)]\<rparr>"

definition reply :: "user_reply \<Rightarrow> nbfs \<Rightarrow> nbfs" where
  "reply r st = st\<lparr>replies := replies st @ [r]\<rparr>"

definition sem_post :: "nbfs \<Rightarrow> chan_ptr \<Rightarrow> nbfs option" where
  "sem_post st c = upd_channel st c (\<lambda>ch. ch\<lparr>sem_value := sem_value ch + 1\<rparr>)"

section \<open>Requests\<close>

definition zero_request :: spdk_fs_request where
  "zero_request = \<lparr>channel = None, fn = Fn_none, sem = None, arg_file = None, rc = 0, rwerrno = None,
     iovs = [], iovcnt = 0, stat_out = None, op = Op_none\<rparr>"

definition zero_iovec :: iovec where
  "zero_iovec = \<lparr>iov_base = 0, iov_len = 0\<rparr>"

text \<open>\<open>args->iovs\<close> points to a separately allocated array when \<open>iovcnt > 1\<close>, to the embedded
  \<open>iov\<close> otherwise.\<close>

definition alloc_fs_request_with_iov :: "nbfs \<Rightarrow> chan_ptr \<Rightarrow> u32 \<Rightarrow> (nbfs \<times> req_ptr option) option" where
  "alloc_fs_request_with_iov st c cnt =
     do { let (ok, st) = (if cnt > 1 then try_alloc st else (True, st));
          if \<not> ok then Some (st, None)
          else do {
            ch \<leftarrow> channels st c;
            case reqs ch of
              [] \<Rightarrow> Some (st, None)
            | r # rs \<Rightarrow> do {
                st \<leftarrow> upd_channel st c (\<lambda>ch. ch\<lparr>outstanding_reqs := outstanding_reqs ch + 1, reqs := rs\<rparr>);
                st \<leftarrow> upd_req st r (\<lambda>_. zero_request\<lparr>channel := Some c,
                        iovs := replicate (if cnt > 1 then unat cnt else 1) zero_iovec, iovcnt := cnt\<rparr>);
                Some (st, Some r) } } }"

definition alloc_fs_request :: "nbfs \<Rightarrow> chan_ptr \<Rightarrow> (nbfs \<times> req_ptr option) option" where
  "alloc_fs_request st c = alloc_fs_request_with_iov st c 0"

text \<open>\<open>TAILQ_INSERT_HEAD\<close> of a request that is in the list already corrupts the list, a crash.\<close>

definition free_fs_request :: "nbfs \<Rightarrow> req_ptr \<Rightarrow> nbfs option" where
  "free_fs_request st r =
     do { rq \<leftarrow> get_req st r;
          c \<leftarrow> channel rq;
          ch \<leftarrow> channels st c;
          oassert (r \<notin> set (reqs ch));
          upd_channel st c (\<lambda>ch. ch\<lparr>reqs := r # reqs ch, outstanding_reqs := outstanding_reqs ch - 1\<rparr>) }"

section \<open>Channels\<close>

text \<open>A channel starts with \<open>max_ops\<close> free requests in the order of the array \<open>req_mem\<close>.\<close>

definition zero_channel :: spdk_fs_channel where
  "zero_channel = \<lparr>reqs = [], sem_value = 0, bs_channel = False, direct = False, sync = False, outstanding_reqs = 0\<rparr>"

definition fs_channel_create :: "nbfs \<Rightarrow> chan_ptr \<Rightarrow> u32 \<Rightarrow> (nbfs \<times> int) option" where
  "fs_channel_create st c max_ops =
     do { let (ok, st) = try_alloc st;
          if \<not> ok then Some (st, -1)
          else do {
            let r0 = fresh_req st;
            let n = unat max_ops;
            let st = st\<lparr>requests := (\<lambda>r. if r0 \<le> r \<and> r < r0 + n then Some zero_request else requests st r),
                        fresh_req := r0 + n\<rparr>;
            st \<leftarrow> upd_channel st c (\<lambda>ch. ch\<lparr>outstanding_reqs := 0, reqs := [r0..<r0 + n], sem_value := 0\<rparr>);
            Some (st, 0) } }"

text \<open>The constructors registered for the three I/O devices of a file system, each with its
  target's \<open>max_ops\<close>, which \<open>fs_alloc\<close> sets to 512.\<close>

definition target_max_ops :: u32 where "target_max_ops = 512"

definition fs_md_channel_create :: "nbfs \<Rightarrow> chan_ptr \<Rightarrow> (nbfs \<times> int) option" where
  "fs_md_channel_create st c = fs_channel_create st c target_max_ops"

definition fs_sync_channel_create :: "nbfs \<Rightarrow> chan_ptr \<Rightarrow> (nbfs \<times> int) option" where
  "fs_sync_channel_create st c = fs_channel_create st c target_max_ops"

definition fs_io_channel_create :: "nbfs \<Rightarrow> chan_ptr \<Rightarrow> (nbfs \<times> int) option" where
  "fs_io_channel_create st c = fs_channel_create st c target_max_ops"

text \<open>\<open>free(channel->req_mem)\<close>: the requests of the channel are gone.\<close>

definition fs_channel_destroy :: "nbfs \<Rightarrow> chan_ptr \<Rightarrow> nbfs option" where
  "fs_channel_destroy st c =
     do { ch \<leftarrow> channels st c;
          Some (st\<lparr>channels := (channels st)(c := None),
                   requests := (\<lambda>r. case requests st r of
                      None \<Rightarrow> None
                    | Some rq \<Rightarrow> if r \<in> set (reqs ch) \<or> channel rq = Some c then None else Some rq)\<rparr>) }"

text \<open>\<open>spdk_get_io_channel\<close>: a zeroed channel context, then the device's constructor.\<close>

definition get_io_channel :: "nbfs \<Rightarrow> (nbfs \<Rightarrow> chan_ptr \<Rightarrow> (nbfs \<times> int) option) \<Rightarrow> (nbfs \<times> chan_ptr) option" where
  "get_io_channel st create =
     do { let c = fresh_chan st;
          let st = st\<lparr>channels := (channels st)(c \<mapsto> zero_channel), fresh_chan := c + 1\<rparr>;
          (st, res) \<leftarrow> create st c;
          oassert (res = 0);
          Some (st, c) }"

definition spdk_fs_free_io_channel :: "nbfs \<Rightarrow> chan_ptr \<Rightarrow> nbfs option" where
  "spdk_fs_free_io_channel st c = fs_channel_destroy st c"

definition fs_free_io_channels :: "nbfs \<Rightarrow> nbfs option" where
  "fs_free_io_channels st =
     do { st \<leftarrow> spdk_fs_free_io_channel st (md_fs_channel st); spdk_fs_free_io_channel st (sync_fs_channel st) }"

definition fs_io_device_unregister :: "nbfs \<Rightarrow> nbfs option" where
  "fs_io_device_unregister st = (if mounted st then Some (st\<lparr>mounted := False\<rparr>) else None)"

definition spdk_fs_alloc_io_channel :: "nbfs \<Rightarrow> (nbfs \<times> chan_ptr) option" where
  "spdk_fs_alloc_io_channel st =
     do { (st, c) \<leftarrow> get_io_channel st fs_io_channel_create;
          st \<leftarrow> upd_channel st c (\<lambda>ch. ch\<lparr>bs_channel := True, direct := True\<rparr>);
          Some (st, c) }"

text \<open>The result of \<open>fs_channel_create\<close> is ignored: when its allocation fails the context has no
  requests.\<close>

definition spdk_fs_alloc_thread_ctx :: "nbfs \<Rightarrow> bool \<Rightarrow> (nbfs \<times> chan_ptr option) option" where
  "spdk_fs_alloc_thread_ctx st spin_init_ok =
     do { let (ok, st) = try_alloc st;
          if \<not> ok \<or> \<not> spin_init_ok then Some (st, None)
          else do {
            let c = fresh_chan st;
            let st = st\<lparr>channels := (channels st)(c \<mapsto> zero_channel), fresh_chan := c + 1\<rparr>;
            (st, _) \<leftarrow> fs_channel_create st c 512;
            st \<leftarrow> upd_channel st c (\<lambda>ch. ch\<lparr>direct := False, sync := True\<rparr>);
            Some (st, Some c) } }"

text \<open>The loop waits until no request is outstanding; the model has no step for it before.\<close>

definition spdk_fs_free_thread_ctx :: "nbfs \<Rightarrow> chan_ptr \<Rightarrow> nbfs option" where
  "spdk_fs_free_thread_ctx st c =
     do { ch \<leftarrow> channels st c; oassert (sync ch); oassert (outstanding_reqs ch = 0); fs_channel_destroy st c }"

section \<open>Callbacks that call nothing back\<close>

definition wake_caller :: "nbfs \<Rightarrow> req_ptr \<Rightarrow> int \<Rightarrow> nbfs option" where
  "wake_caller st r fserrno =
     do { rq \<leftarrow> get_req st r;
          let st = (case rwerrno rq of
                None \<Rightarrow> st
              | Some e \<Rightarrow> if rw_errno st e = 0 \<and> fserrno \<noteq> 0
                          then st\<lparr>rw_errno := (rw_errno st)(e := fserrno)\<rparr> else st);
          st \<leftarrow> upd_req st r (\<lambda>rq. rq\<lparr>rc := fserrno\<rparr>);
          c \<leftarrow> sem rq;
          sem_post st c }"

definition fs_create_file_done :: "nbfs \<Rightarrow> req_ptr \<Rightarrow> int \<Rightarrow> nbfs option" where
  "fs_create_file_done st r fserrno = wake_caller st r fserrno"

definition fs_rename_file_done :: "nbfs \<Rightarrow> req_ptr \<Rightarrow> int \<Rightarrow> nbfs option" where
  "fs_rename_file_done st r fserrno = wake_caller st r fserrno"

text \<open>The first eight bytes of a name, for the trace buffer.\<close>

fun bytes_to_u64 :: "char list \<Rightarrow> u64" where
  "bytes_to_u64 [] = 0"
| "bytes_to_u64 (c # cs) = of_char c + 256 * bytes_to_u64 cs"

definition fs_name_to_uint64 :: "string \<Rightarrow> u64" where
  "fs_name_to_uint64 nm = bytes_to_u64 (take 8 nm)"

definition fs_delete_file_done :: "nbfs \<Rightarrow> req_ptr \<Rightarrow> int \<Rightarrow> nbfs option" where
  "fs_delete_file_done st r fserrno = wake_caller st r fserrno"

definition rw_from_file_done :: "nbfs \<Rightarrow> req_ptr \<Rightarrow> int \<Rightarrow> nbfs option" where
  "rw_from_file_done st r bserrno = do { st \<leftarrow> wake_caller st r bserrno; free_fs_request st r }"

fun call_leaf :: "file_cb \<Rightarrow> int \<Rightarrow> nbfs \<Rightarrow> nbfs option" where
  "call_leaf (Cb_user u) e st = Some (reply (Reply_op u e) st)"
| "call_leaf (Cb_wake_caller r) e st = wake_caller st r e"
| "call_leaf (Cb_create_file_done r) e st = fs_create_file_done st r e"
| "call_leaf (Cb_rename_file_done r) e st = fs_rename_file_done st r e"
| "call_leaf (Cb_delete_file_done r) e st = fs_delete_file_done st r e"
| "call_leaf (Cb_rw_from_file_done r) e st = rw_from_file_done st r e"
| "call_leaf _ e st = None"

definition fs_open_file_done :: "nbfs \<Rightarrow> req_ptr \<Rightarrow> file_ptr option \<Rightarrow> int \<Rightarrow> nbfs option" where
  "fs_open_file_done st r f bserrno =
     do { st \<leftarrow> upd_req st r (\<lambda>rq. rq\<lparr>arg_file := f\<rparr>); wake_caller st r bserrno }"

fun call_handle :: "handle_cb \<Rightarrow> file_ptr option \<Rightarrow> int \<Rightarrow> nbfs \<Rightarrow> nbfs option" where
  "call_handle (Hcb_user u) f e st = Some (reply (Reply_file u f e) st)"
| "call_handle (Hcb_open_file_done r) f e st = fs_open_file_done st r f e"

definition fn_file :: "nbfs \<Rightarrow> req_ptr \<Rightarrow> file_cb option" where
  "fn_file st r = do { rq \<leftarrow> get_req st r; case fn rq of Fn_file cb \<Rightarrow> Some cb | _ \<Rightarrow> None }"

definition fn_handle :: "nbfs \<Rightarrow> req_ptr \<Rightarrow> handle_cb option" where
  "fn_handle st r = do { rq \<leftarrow> get_req st r; case fn rq of Fn_handle cb \<Rightarrow> Some cb | _ \<Rightarrow> None }"

definition fn_fs :: "nbfs \<Rightarrow> req_ptr \<Rightarrow> nat option" where
  "fn_fs st r = do { rq \<leftarrow> get_req st r; case fn rq of Fn_fs u \<Rightarrow> Some u | _ \<Rightarrow> None }"

text \<open>The end of a synchronous wrapper: \<open>sem_wait\<close>, the result, and the request back to its
  channel.  The step is possible once the semaphore is positive.\<close>

definition sem_wait :: "nbfs \<Rightarrow> chan_ptr \<Rightarrow> nbfs option" where
  "sem_wait st c =
     do { ch \<leftarrow> channels st c; oassert (sem_value ch > 0);
          upd_channel st c (\<lambda>ch. ch\<lparr>sem_value := sem_value ch - 1\<rparr>) }"

definition finish_wait :: "nbfs \<Rightarrow> chan_ptr \<Rightarrow> req_ptr \<Rightarrow> (nbfs \<times> int) option" where
  "finish_wait st c r =
     do { st \<leftarrow> sem_wait st c; rq \<leftarrow> get_req st r; st \<leftarrow> free_fs_request st r; Some (st, rc rq) }"

end
