(* ===== verification/NBFS_Pool.thy ===== *)
theory NBFS_Pool
  imports NBFS_State
begin

text \<open>
  The global pool of cache buffers: its creation and destruction with the first and last
  mounted file system, the poller that reclaims buffers when fewer than a fifth are free, and
  the insertion of a buffer into a file's cache.
\<close>

section \<open>Buffers\<close>

definition cache_buffer_free :: "nbfs \<Rightarrow> buf_ptr \<Rightarrow> nbfs option" where
  "cache_buffer_free st b =
     do { _ \<leftarrow> buffers st b; n \<leftarrow> pool_count st;
          Some (st\<lparr>pool_count := Some (n + 1), buffers := (buffers st)(b := None)\<rparr>) }"

fun cache_buffers_free :: "nbfs \<Rightarrow> buf_ptr list \<Rightarrow> nbfs option" where
  "cache_buffers_free st [] = Some st"
| "cache_buffers_free st (b # bs) = do { st \<leftarrow> cache_buffer_free st b; cache_buffers_free st bs }"

text \<open>\<open>tree_free_buffers(file->tree)\<close>: the tree is updated in place and the released buffers
  go back to the pool.\<close>

definition file_tree_free_buffers :: "nbfs \<Rightarrow> file_ptr \<Rightarrow> nbfs option" where
  "file_tree_free_buffers st f =
     do { fl \<leftarrow> get_file st f;
          (t, freed) \<leftarrow> tree_free_buffers (buffers st) (tree fl);
          st \<leftarrow> cache_buffers_free st freed;
          upd_file st f (tree_update (\<lambda>_. t)) }"

section \<open>Reclaim\<close>

text \<open>\<open>TAILQ_REMOVE\<close> of a file that is not in the list is a crash.\<close>

definition g_caches_remove :: "nbfs \<Rightarrow> file_ptr \<Rightarrow> nbfs option" where
  "g_caches_remove st f =
     (if f \<in> set (g_caches st) then Some (st\<lparr>g_caches := remove1 f (g_caches st)\<rparr>) else None)"

definition add_file_to_cache_pool :: "nbfs \<Rightarrow> file_ptr \<Rightarrow> nbfs option" where
  "add_file_to_cache_pool st f = Some (st\<lparr>g_caches := g_caches st @ [f]\<rparr>)"

definition remove_file_from_cache_pool :: "nbfs \<Rightarrow> file_ptr \<Rightarrow> nbfs option" where
  "remove_file_from_cache_pool st f = g_caches_remove st f"

definition reclaim_cache_buffers :: "nbfs \<Rightarrow> file_ptr \<Rightarrow> (nbfs \<times> int) option" where
  "reclaim_cache_buffers st f =
     do { fl \<leftarrow> get_file st f;
          if lock fl then Some (st, -1)
          else do {
            st \<leftarrow> lock_file st f;
            if present_mask (tree fl) = 0 then do { st \<leftarrow> unlock_file st f; Some (st, -1) }
            else do {
              st \<leftarrow> file_tree_free_buffers st f;
              st \<leftarrow> g_caches_remove st f;
              fl \<leftarrow> get_file st f;
              st \<leftarrow> (if present_mask (tree fl) \<noteq> 0 then Some (st\<lparr>g_caches := g_caches st @ [f]\<rparr>)
                    else upd_file st f (file_last_update (\<lambda>_. None)));
              st \<leftarrow> unlock_file st f;
              Some (st, 0) } } }"

text \<open>Fewer than a fifth of the buffers are free.\<close>

definition blobfs_cache_pool_need_reclaim :: "nbfs \<Rightarrow> bool option" where
  "blobfs_cache_pool_need_reclaim st =
     do { count \<leftarrow> pool_count st;
          Some (\<not> count > unat (g_fs_cache_size st div CACHE_BUFFER_SIZE div 5)) }"

text \<open>One of the three loops: reclaim from the first file that qualifies and has something to
  reclaim; tells whether one was found.\<close>

fun reclaim_pass :: "(spdk_file \<Rightarrow> bool) \<Rightarrow> nbfs \<Rightarrow> file_ptr list \<Rightarrow> (nbfs \<times> bool) option" where
  "reclaim_pass P st [] = Some (st, False)"
| "reclaim_pass P st (f # fs) =
     do { fl \<leftarrow> get_file st f;
          if P fl then do { (st, res) \<leftarrow> reclaim_cache_buffers st f;
                            if res < 0 then reclaim_pass P st fs else Some (st, True) }
          else reclaim_pass P st fs }"

definition blobfs_cache_pool_reclaim :: "nbfs \<Rightarrow> nbfs option" where
  "blobfs_cache_pool_reclaim st =
     do { need \<leftarrow> blobfs_cache_pool_need_reclaim st;
          if \<not> need then Some st
          else do {
            (st, found) \<leftarrow> reclaim_pass (\<lambda>fl. \<not> open_for_writing fl \<and> priority fl = SPDK_FILE_PRIORITY_LOW)
                             st (g_caches st);
            need \<leftarrow> blobfs_cache_pool_need_reclaim st;
            if found \<and> \<not> need then Some st
            else do {
              (st, found) \<leftarrow> reclaim_pass (\<lambda>fl. \<not> open_for_writing fl) st (g_caches st);
              need \<leftarrow> blobfs_cache_pool_need_reclaim st;
              if found \<and> \<not> need then Some st
              else do { (st, _) \<leftarrow> reclaim_pass (\<lambda>_. True) st (g_caches st); Some st } } } }"

section \<open>The pool\<close>

text \<open>\<open>spdk_mempool_create\<close> may fail, which the assertion turns into an abort.\<close>

definition start_cache_pool_mgmt :: "nbfs \<Rightarrow> bool \<Rightarrow> nbfs option" where
  "start_cache_pool_mgmt st created =
     do { oassert (pool_count st = None);
          oassert created;
          oassert (\<not> poller st);
          Some (st\<lparr>pool_count := Some (unat (g_fs_cache_size st div CACHE_BUFFER_SIZE)), poller := True\<rparr>) }"

definition stop_cache_pool_mgmt :: "nbfs \<Rightarrow> nbfs option" where
  "stop_cache_pool_mgmt st =
     do { n \<leftarrow> pool_count st;
          oassert (n = unat (g_fs_cache_size st div CACHE_BUFFER_SIZE));
          Some (st\<lparr>poller := False, pool_count := None\<rparr>) }"

definition initialize_global_cache :: "nbfs \<Rightarrow> nbfs" where
  "initialize_global_cache st =
     (let st = (if g_fs_count st = 0 then send_pool_msg Pool_start st else st)
      in st\<lparr>g_fs_count := g_fs_count st + 1\<rparr>)"

definition free_global_cache :: "nbfs \<Rightarrow> nbfs" where
  "free_global_cache st =
     (let st = st\<lparr>g_fs_count := g_fs_count st - 1\<rparr>
      in if g_fs_count st = 0 then send_pool_msg Pool_stop st else st)"

definition spdk_fs_set_cache_size :: "nbfs \<Rightarrow> u64 \<Rightarrow> nbfs \<times> int" where
  "spdk_fs_set_cache_size st size_in_mb =
     (if pool_count st \<noteq> None then (st, - EPERM)
      else (st\<lparr>g_fs_cache_size := size_in_mb * 1024 * 1024\<rparr>, 0))"

definition spdk_fs_get_cache_size :: "nbfs \<Rightarrow> u64" where
  "spdk_fs_get_cache_size st = g_fs_cache_size st div (1024 * 1024)"

section \<open>Insertion into a file's cache\<close>

text \<open>The wait for a free buffer: at most 100 sleeps, in which the poller may run.\<close>

definition pool_sleep :: "nbfs \<Rightarrow> nbfs option" where
  "pool_sleep st = (case poller_runs st of
       [] \<Rightarrow> Some st
     | b # bs \<Rightarrow> let st = st\<lparr>poller_runs := bs\<rparr> in if b then blobfs_cache_pool_reclaim st else Some st)"

function mempool_get_loop :: "nat \<Rightarrow> nbfs \<Rightarrow> (nbfs \<times> bool) option" where
  "mempool_get_loop tries st =
     (case pool_count st of
        None \<Rightarrow> None
      | Some (Suc n) \<Rightarrow> Some (st\<lparr>pool_count := Some n\<rparr>, True)
      | Some 0 \<Rightarrow>
          if tries \<ge> 100 then Some (st, False)
          else (case pool_sleep st of None \<Rightarrow> None | Some st \<Rightarrow> mempool_get_loop (tries + 1) st))"
  by pat_completeness auto
termination
  by (relation "measure (\<lambda>(tries, st). 100 - tries)") auto

declare mempool_get_loop.simps [simp del]

text \<open>A fresh buffer; its memory comes from the pool with whatever it held before.\<close>

definition new_cache_buffer :: "memblk \<Rightarrow> u64 \<Rightarrow> cache_buffer" where
  "new_cache_buffer garbage off =
     \<lparr>buf = garbage, offset = off, buf_size = ucast CACHE_BUFFER_SIZE, bytes_filled = 0,
      bytes_flushed = 0, in_progress = False\<rparr>"

definition cache_insert_buffer :: "nbfs \<Rightarrow> file_ptr \<Rightarrow> u64 \<Rightarrow> (nbfs \<times> buf_ptr option) option" where
  "cache_insert_buffer st f off =
     do { let (ok, st) = try_alloc st;
          if \<not> ok then Some (st, None)
          else do {
            (st, got) \<leftarrow> mempool_get_loop 0 st;
            if \<not> got then Some (st, None)
            else do {
              let b = fresh_buf st;
              let st = st\<lparr>buffers := (buffers st)(b \<mapsto> new_cache_buffer (heap_garbage st) off), fresh_buf := b + 1\<rparr>;
              fl \<leftarrow> get_file st f;
              let need_update = (present_mask (tree fl) = 0);
              t \<leftarrow> tree_insert_buffer (tree fl) b off;
              st \<leftarrow> upd_file st f (tree_update (\<lambda>_. t));
              let st = (if need_update then send_pool_msg (Pool_add_file f) st else st);
              Some (st, Some b) } } }"

definition cache_append_buffer :: "nbfs \<Rightarrow> file_ptr \<Rightarrow> (nbfs \<times> buf_ptr option) option" where
  "cache_append_buffer st f =
     do { fl \<leftarrow> get_file st f;
          _ \<leftarrow> (case file_last fl of
                 None \<Rightarrow> Some ()
               | Some b \<Rightarrow> do { cb \<leftarrow> buffers st b; oassert (bytes_filled cb = buf_size cb) });
          oassert (append_pos fl mod CACHE_BUFFER_SIZE = 0);
          (st, b) \<leftarrow> cache_insert_buffer st f (append_pos fl);
          case b of
            None \<Rightarrow> Some (st, None)
          | Some b \<Rightarrow> do { st \<leftarrow> upd_file st f (file_last_update (\<lambda>_. Some b)); Some (st, Some b) } }"

section \<open>Freeing a file\<close>

definition destroy_file :: "nbfs \<Rightarrow> file_ptr \<Rightarrow> nbfs option" where
  "destroy_file st f = do { _ \<leftarrow> get_file st f; Some (st\<lparr>file_heap := (file_heap st)(f := None)\<rparr>) }"

text \<open>\<open>_file_free\<close>, on the cache pool thread.\<close>

definition file_free_msg :: "nbfs \<Rightarrow> file_ptr \<Rightarrow> nbfs option" where
  "file_free_msg st f = do { st \<leftarrow> g_caches_remove st f; destroy_file st f }"

text \<open>A file without cached pages is freed at once; otherwise the clean pages are released, none
  may be left, and the cache pool thread frees the file.\<close>

definition file_free :: "nbfs \<Rightarrow> file_ptr \<Rightarrow> nbfs option" where
  "file_free st f =
     do { st \<leftarrow> lock_file st f;
          fl \<leftarrow> get_file st f;
          if present_mask (tree fl) = 0 then do { st \<leftarrow> unlock_file st f; destroy_file st f }
          else do {
            st \<leftarrow> file_tree_free_buffers st f;
            fl \<leftarrow> get_file st f;
            oassert (present_mask (tree fl) = 0);
            unlock_file (send_pool_msg (Pool_file_free f) st) f } }"

fun handle_pool_msg :: "pool_msg \<Rightarrow> nbfs \<Rightarrow> nbfs option" where
  "handle_pool_msg Pool_start st = start_cache_pool_mgmt st True"
| "handle_pool_msg Pool_stop st = stop_cache_pool_mgmt st"
| "handle_pool_msg (Pool_add_file f) st = add_file_to_cache_pool st f"
| "handle_pool_msg (Pool_remove_file f) st = remove_file_from_cache_pool st f"
| "handle_pool_msg (Pool_file_free f) st = file_free_msg st f"

end
