(* ===== verification/NBFS_Names.thy ===== *)
theory NBFS_Names
  imports NBFS_Pool
begin

text \<open>
  Mounting, and the operations on names: create, open, rename, delete, stat, iteration.  The
  operations run on the metadata thread; each asynchronous operation is its entry point and
  one definition per completion callback, and each synchronous one is the part up to
  \<open>sem_wait\<close> (the rest is \<open>finish_wait\<close>).

  The layer's own callbacks are called through \<open>call_op\<close>, which covers every callback that
  can be passed to these operations.
\<close>

section \<open>Mounting\<close>

definition spdk_fs_opts_init :: u32 where
  "spdk_fs_opts_init = SPDK_BLOBFS_DEFAULT_OPTS_CLUSTER_SZ"

definition common_fs_bs_init :: "nbfs \<Rightarrow> u64 \<Rightarrow> nbfs option" where
  "common_fs_bs_init st csz =
     do { let st = st\<lparr>cluster_sz := csz\<rparr>;
          st \<leftarrow> upd_channel st (md_fs_channel st) (\<lambda>ch. ch\<lparr>bs_channel := True, direct := True\<rparr>);
          st \<leftarrow> upd_channel st (sync_fs_channel st) (\<lambda>ch. ch\<lparr>bs_channel := True, direct := True\<rparr>);
          Some (initialize_global_cache st) }"

text \<open>On an error \<open>fs\<close> is freed; the request still belongs to the channel, which is not.\<close>

definition init_cb :: "nbfs \<Rightarrow> req_ptr \<Rightarrow> u64 \<Rightarrow> int \<Rightarrow> nbfs option" where
  "init_cb st r csz bserrno =
     do { st \<leftarrow> (if bserrno = 0 then common_fs_bs_init st csz else Some (st\<lparr>mounted := False\<rparr>));
          u \<leftarrow> fn_fs st r;
          let st = reply (Reply_fs u (bserrno = 0) bserrno) st;
          free_fs_request st r }"

definition fs_alloc :: "nbfs \<Rightarrow> (nbfs \<times> bool) option" where
  "fs_alloc st =
     do { let (ok, st) = try_alloc st;
          if \<not> ok then Some (st, False)
          else do {
            let (h, root) = B_plus_tree_initial (bt_heap st);
            let st = st\<lparr>bt_heap := h, files := Some root, mounted := True\<rparr>;
            (st, c) \<leftarrow> get_io_channel st fs_md_channel_create;
            let st = st\<lparr>md_fs_channel := c\<rparr>;
            (st, c) \<leftarrow> get_io_channel st fs_sync_channel_create;
            let st = st\<lparr>sync_fs_channel := c\<rparr>;
            Some (st, True) } }"

definition spdk_fs_init :: "nbfs \<Rightarrow> u32 option \<Rightarrow> nat \<Rightarrow> nbfs option" where
  "spdk_fs_init st opt u =
     do { (st, ok) \<leftarrow> fs_alloc st;
          if \<not> ok then Some (reply (Reply_fs u False (- ENOMEM)) st)
          else do {
            (st, req) \<leftarrow> alloc_fs_request st (md_fs_channel st);
            case req of
              None \<Rightarrow> do { st \<leftarrow> fs_free_io_channels st; st \<leftarrow> fs_io_device_unregister st;
                           Some (reply (Reply_fs u False (- ENOMEM)) st) }
            | Some r \<Rightarrow> do { st \<leftarrow> upd_req st r (\<lambda>rq. rq\<lparr>fn := Fn_fs u\<rparr>);
                             Some (bs_submit (BS_init opt) (Bs_init r) st) } } }"

definition zero_file :: spdk_file where
  "zero_file = \<lparr>blob = None, name = None, trace_arg_name = 0, file_length = 0, is_deleted = False,
     open_for_writing = False, length_flushed = 0, length_xattr = 0, append_pos = 0, seq_byte_count = 0,
     next_seq_offset = 0, priority = 0, blobid = 0, ref_count = 0, lock = False, file_last = None,
     tree = calloc_tree, open_requests = [], sync_requests = []\<rparr>"

text \<open>\<open>fs->files = B_plus_tree_insert(fs->files, name, file)\<close> and the like.\<close>

definition files_insert :: "nbfs \<Rightarrow> string \<Rightarrow> file_ptr \<Rightarrow> nbfs option" where
  "files_insert st nm f =
     do { (h, root) \<leftarrow> B_plus_tree_insert (stack_cond st) (bt_heap st) (files st) nm f;
          Some (st\<lparr>bt_heap := h, files := root\<rparr>) }"

definition files_remove :: "nbfs \<Rightarrow> string \<Rightarrow> nbfs option" where
  "files_remove st nm =
     do { (h, root) \<leftarrow> B_plus_tree_remove (bt_heap st) (files st) nm;
          Some (st\<lparr>bt_heap := h, files := root\<rparr>) }"

text \<open>Two \<open>calloc\<close>s and a spinlock, any of which may fail.\<close>

definition file_alloc :: "nbfs \<Rightarrow> string \<Rightarrow> (nbfs \<times> file_ptr option) option" where
  "file_alloc st nm =
     do { let (ok1, st) = try_alloc st;
          if \<not> ok1 then Some (st, None)
          else do {
            let (ok2, st) = try_alloc st;
            let (ok3, st) = (if ok2 then try_alloc st else (False, st));
            if \<not> ok3 then Some (st, None)
            else do {
              let f = fresh_file st;
              let st = st\<lparr>file_heap := (file_heap st)(f \<mapsto> zero_file), fresh_file := f + 1\<rparr>;
              st \<leftarrow> files_insert st nm f;
              st \<leftarrow> upd_file st f (priority_update (\<lambda>_. SPDK_FILE_PRIORITY_LOW));
              Some (st, Some f) } } }"

definition op_deleted_files :: "nbfs \<Rightarrow> req_ptr \<Rightarrow> blob_id list option" where
  "op_deleted_files st r =
     do { rq \<leftarrow> get_req st r; case op rq of Op_fs_load ids \<Rightarrow> Some ids | _ \<Rightarrow> None }"

text \<open>Deletes the next blob marked for deletion, if any; the result tells whether it did not.\<close>

definition handle_deleted_files :: "nbfs \<Rightarrow> req_ptr \<Rightarrow> (nbfs \<times> int) option" where
  "handle_deleted_files st r =
     do { ids \<leftarrow> op_deleted_files st r;
          case ids of
            [] \<Rightarrow> Some (st, 1)
          | i # is \<Rightarrow> do { st \<leftarrow> upd_req st r (\<lambda>rq. rq\<lparr>op := Op_fs_load is\<rparr>);
                           Some (bs_submit (BS_delete_blob i) (Bs_load_done r) st, 0) } }"

definition fs_load_done :: "nbfs \<Rightarrow> req_ptr \<Rightarrow> int \<Rightarrow> nbfs option" where
  "fs_load_done st r bserrno =
     do { (st, none_left) \<leftarrow> handle_deleted_files st r;
          if none_left = 0 then Some st
          else do { u \<leftarrow> fn_fs st r; free_fs_request (reply (Reply_fs u True 0) st) r } }"

definition file_build_trace_arg_name :: "nbfs \<Rightarrow> file_ptr \<Rightarrow> nbfs option" where
  "file_build_trace_arg_name st f =
     do { fl \<leftarrow> get_file st f; nm \<leftarrow> name fl;
          upd_file st f (trace_arg_name_update (\<lambda>_. fs_name_to_uint64 nm)) }"

text \<open>What the blobstore shows of a blob while loading: its id and its extended attributes;
  reading one that is missing gives a negative error.  \<open>info_length_size\<close> is the size of the attribute
  \<open>length\<close>, asserted to be that of a \<open>uint64_t\<close>.\<close>

record blob_info =
  info_id :: blob_id
  info_name :: "string option"
  info_length :: "u64 option"
  info_length_size :: nat
  info_is_deleted :: bool

definition iter_fail :: "nbfs \<Rightarrow> req_ptr \<Rightarrow> int \<Rightarrow> nbfs option" where
  "iter_fail st r e = do { u \<leftarrow> fn_fs st r; free_fs_request (reply (Reply_fs u True e) st) r }"

definition iter_cb :: "nbfs \<Rightarrow> req_ptr \<Rightarrow> blob_info \<Rightarrow> int \<Rightarrow> nbfs option" where
  "iter_cb st r info res =
     (if res < 0 then iter_fail st r res
      else case info_name info of
        None \<Rightarrow> iter_fail st r (- ENOENT)
      | Some nm \<Rightarrow>
          (case info_length info of
             None \<Rightarrow> iter_fail st r (- ENOENT)
           | Some len \<Rightarrow>
               if info_length_size info \<noteq> 8 then None
               else if \<not> info_is_deleted info then
                 do { (st, f) \<leftarrow> file_alloc st nm;
                      case f of
                        None \<Rightarrow> iter_fail st r (- ENOMEM)
                      | Some f \<Rightarrow> do {
                          st \<leftarrow> upd_file st f (name_update (\<lambda>_. Some nm));
                          st \<leftarrow> file_build_trace_arg_name st f;
                          upd_file st f (\<lambda>fl. fl\<lparr>blobid := info_id info, file_length := len,
                             length_flushed := len, length_xattr := len, append_pos := len\<rparr>) } }
               else
                 do { let (ok, st) = try_alloc st;
                      if \<not> ok then iter_fail st r (- ENOMEM)
                      else do { ids \<leftarrow> op_deleted_files st r;
                                upd_req st r (\<lambda>rq. rq\<lparr>op := Op_fs_load (ids @ [info_id info])\<rparr>) } }))"

datatype bstype = Bstype_zeros | Bstype_blobfs | Bstype_other

definition load_fail :: "nbfs \<Rightarrow> req_ptr \<Rightarrow> int \<Rightarrow> nbfs option" where
  "load_fail st r e =
     do { u \<leftarrow> fn_fs st r;
          st \<leftarrow> free_fs_request (reply (Reply_fs u False e) st) r;
          st \<leftarrow> fs_free_io_channels st;
          fs_io_device_unregister st }"

definition load_cb :: "nbfs \<Rightarrow> req_ptr \<Rightarrow> bstype \<Rightarrow> u64 \<Rightarrow> int \<Rightarrow> nbfs option" where
  "load_cb st r ty csz bserrno =
     (if bserrno \<noteq> 0 then load_fail st r bserrno
      else if ty = Bstype_other then load_fail st r (- EINVAL)
      else do { st \<leftarrow> common_fs_bs_init st csz; fs_load_done st r 0 })"

definition spdk_fs_load :: "nbfs \<Rightarrow> nat \<Rightarrow> nbfs option" where
  "spdk_fs_load st u =
     do { (st, ok) \<leftarrow> fs_alloc st;
          if \<not> ok then Some (reply (Reply_fs u False (- ENOMEM)) st)
          else do {
            (st, req) \<leftarrow> alloc_fs_request st (md_fs_channel st);
            case req of
              None \<Rightarrow> do { st \<leftarrow> fs_free_io_channels st; st \<leftarrow> fs_io_device_unregister st;
                           Some (reply (Reply_fs u False (- ENOMEM)) st) }
            | Some r \<Rightarrow> do { st \<leftarrow> upd_req st r (\<lambda>rq. rq\<lparr>fn := Fn_fs u, op := Op_fs_load []\<rparr>);
                             Some (bs_submit BS_load (Bs_load r) st) } } }"

fun free_files :: "nbfs \<Rightarrow> file_ptr list \<Rightarrow> nbfs option" where
  "free_files st [] = Some st"
| "free_files st (f # fs) = do { st \<leftarrow> file_free st f; free_files st fs }"

text \<open>The request comes from the heap, not from a channel.\<close>

definition unload_cb :: "nbfs \<Rightarrow> req_ptr \<Rightarrow> int \<Rightarrow> nbfs option" where
  "unload_cb st r bserrno =
     do { fs \<leftarrow> traverse_leaves (bt_heap st) (files st);
          st \<leftarrow> free_files st fs;
          let st = free_global_cache st;
          cb \<leftarrow> fn_file st r;
          st \<leftarrow> call_leaf cb bserrno st;
          let st = st\<lparr>requests := (requests st)(r := None)\<rparr>;
          fs_io_device_unregister st }"

definition new_heap_request :: "nbfs \<Rightarrow> spdk_fs_request \<Rightarrow> nbfs \<times> req_ptr" where
  "new_heap_request st rq =
     (st\<lparr>requests := (requests st)(fresh_req st \<mapsto> rq), fresh_req := fresh_req st + 1\<rparr>, fresh_req st)"

definition spdk_fs_unload :: "nbfs \<Rightarrow> nat \<Rightarrow> nbfs option" where
  "spdk_fs_unload st u =
     do { let (ok, st) = try_alloc st;
          if \<not> ok then Some (reply (Reply_op u (- ENOMEM)) st)
          else do {
            let (st, r) = new_heap_request st (zero_request\<lparr>fn := Fn_file (Cb_user u)\<rparr>);
            st \<leftarrow> fs_free_io_channels st;
            Some (bs_submit BS_unload (Bs_unload r) st) } }"

section \<open>Lookup\<close>

definition fs_find_file :: "nbfs \<Rightarrow> string \<Rightarrow> file_ptr option option" where
  "fs_find_file st nm = B_plus_tree_find (bt_heap st) (files st) nm"

definition name_too_long :: "string \<Rightarrow> bool" where
  "name_too_long nm = (length nm \<ge> SPDK_FILE_NAME_MAX + 1)"

definition copy_stat :: "nbfs \<Rightarrow> req_ptr \<Rightarrow> spdk_file_stat option \<Rightarrow> int \<Rightarrow> nbfs option" where
  "copy_stat st r stat fserrno =
     do { st \<leftarrow> upd_req st r (\<lambda>rq. rq\<lparr>rc := fserrno, stat_out := (if fserrno = 0 then stat else stat_out rq)\<rparr>);
          rq \<leftarrow> get_req st r; c \<leftarrow> sem rq; sem_post st c }"

fun call_stat :: "stat_cb \<Rightarrow> spdk_file_stat option \<Rightarrow> int \<Rightarrow> nbfs \<Rightarrow> nbfs option" where
  "call_stat (Scb_user u) s e st = Some (reply (Reply_stat u s e) st)"
| "call_stat (Scb_copy_stat r) s e st = copy_stat st r s e"

definition visible_size :: "spdk_file \<Rightarrow> u64" where
  "visible_size fl = (if append_pos fl \<ge> file_length fl then append_pos fl else file_length fl)"

definition spdk_fs_file_stat_async :: "nbfs \<Rightarrow> string \<Rightarrow> stat_cb \<Rightarrow> nbfs option" where
  "spdk_fs_file_stat_async st nm cb =
     (if name_too_long nm then call_stat cb None (- ENAMETOOLONG) st
      else do {
        f \<leftarrow> fs_find_file st nm;
        case f of
          Some f \<Rightarrow> do { fl \<leftarrow> get_file st f;
                         call_stat cb (Some \<lparr>stat_blobid = blobid fl, stat_size = visible_size fl\<rparr>) 0 st }
        | None \<Rightarrow> call_stat cb None (- ENOENT) st })"

definition file_stat_msg :: "nbfs \<Rightarrow> req_ptr \<Rightarrow> nbfs option" where
  "file_stat_msg st r =
     do { rq \<leftarrow> get_req st r;
          case (op rq, fn rq) of
            (Op_stat nm, Fn_stat cb) \<Rightarrow> spdk_fs_file_stat_async st nm cb
          | _ \<Rightarrow> None }"

text \<open>A synchronous operation up to its \<open>sem_wait\<close>: an immediate result, or the request the
  caller waits for.\<close>

definition spdk_fs_file_stat :: "nbfs \<Rightarrow> chan_ptr \<Rightarrow> string \<Rightarrow> (nbfs \<times> (int + req_ptr)) option" where
  "spdk_fs_file_stat st c nm =
     do { (st, req) \<leftarrow> alloc_fs_request st c;
          case req of
            None \<Rightarrow> Some (st, Inl (- ENOMEM))
          | Some r \<Rightarrow> do {
              st \<leftarrow> upd_req st r (\<lambda>rq. rq\<lparr>op := Op_stat nm, fn := Fn_stat (Scb_copy_stat r), sem := Some c\<rparr>);
              Some (send_request (Msg_file_stat r) st, Inr r) } }"

definition spdk_fs_iter_first :: "nbfs \<Rightarrow> file_ptr option option" where
  "spdk_fs_iter_first st = B_plus_tree_get_first (bt_heap st) (files st)"

definition spdk_fs_iter_next :: "nbfs \<Rightarrow> file_ptr option \<Rightarrow> file_ptr option option" where
  "spdk_fs_iter_next st iter =
     (case iter of
        None \<Rightarrow> Some None
      | Some f \<Rightarrow> do { _ \<leftarrow> get_file st f; B_plus_tree_get_next (bt_heap st) (files st) f })"

definition spdk_file_get_name :: "nbfs \<Rightarrow> file_ptr \<Rightarrow> string option option" where
  "spdk_file_get_name st f = do { fl \<leftarrow> get_file st f; Some (name fl) }"

definition spdk_file_get_length :: "nbfs \<Rightarrow> file_ptr \<Rightarrow> u64 option" where
  "spdk_file_get_length st f = do { fl \<leftarrow> get_file st f; Some (visible_size fl) }"

text \<open>\<open>sizeof(spdk_blob_id)\<close> is 8; the id is copied to the caller's buffer.\<close>

definition spdk_file_get_id :: "nbfs \<Rightarrow> file_ptr \<Rightarrow> u64 \<Rightarrow> (int \<times> blob_id option) option" where
  "spdk_file_get_id st f sz =
     (if sz < 8 then Some (- EINVAL, None) else do { fl \<leftarrow> get_file st f; Some (8, Some (blobid fl)) })"

definition spdk_file_set_priority :: "nbfs \<Rightarrow> file_ptr \<Rightarrow> u32 \<Rightarrow> nbfs option" where
  "spdk_file_set_priority st f p = upd_file st f (priority_update (\<lambda>_. p))"

section \<open>Opening\<close>

text \<open>The loop over the requests that wait for the blob to be opened.\<close>

fun serve_opens :: "nbfs \<Rightarrow> file_ptr \<Rightarrow> int \<Rightarrow> req_ptr list \<Rightarrow> nbfs option" where
  "serve_opens st f e [] = Some st"
| "serve_opens st f e (r # rs) =
     do { st \<leftarrow> upd_file st f (open_requests_update (\<lambda>_. rs));
          cb \<leftarrow> fn_handle st r;
          st \<leftarrow> call_handle cb (Some f) e st;
          st \<leftarrow> free_fs_request st r;
          serve_opens st f e rs }"

definition fs_open_blob_done :: "nbfs \<Rightarrow> req_ptr \<Rightarrow> blob_ptr option \<Rightarrow> int \<Rightarrow> nbfs option" where
  "fs_open_blob_done st r b bserrno =
     do { f \<leftarrow> req_file st r;
          st \<leftarrow> upd_file st f (blob_update (\<lambda>_. b));
          fl \<leftarrow> get_file st f;
          serve_opens st f bserrno (open_requests fl) }"

definition op_open_name :: "nbfs \<Rightarrow> req_ptr \<Rightarrow> string option" where
  "op_open_name st r = do { rq \<leftarrow> get_req st r; case op rq of Op_open nm fl \<Rightarrow> Some nm | _ \<Rightarrow> None }"

text \<open>The error of a failed creation is ignored: the file is looked up all the same.\<close>

definition fs_open_blob_create_cb :: "nbfs \<Rightarrow> req_ptr \<Rightarrow> int \<Rightarrow> nbfs option" where
  "fs_open_blob_create_cb st r bserrno =
     do { rq \<leftarrow> get_req st r;
          (st, f) \<leftarrow> (case arg_file rq of
               Some f \<Rightarrow> Some (st, f)
             | None \<Rightarrow> do { nm \<leftarrow> op_open_name st r;
                            found \<leftarrow> fs_find_file st nm;
                            f \<leftarrow> found;
                            st \<leftarrow> upd_req st r (arg_file_update (\<lambda>_. Some f));
                            Some (st, f) });
          st \<leftarrow> upd_file st f (\<lambda>fl. fl\<lparr>ref_count := ref_count fl + 1,
                  open_requests := open_requests fl @ [r]\<rparr>);
          fl \<leftarrow> get_file st f;
          if ref_count fl = 1 then
            do { oassert (blob fl = None);
                 Some (bs_submit (BS_open_blob (blobid fl)) (Bs_open_blob_done r) st) }
          else (case blob fl of
              Some b \<Rightarrow> fs_open_blob_done st r (Some b) 0
            | None \<Rightarrow> Some st) }"

section \<open>Renaming, second half\<close>

definition op_rename_names :: "nbfs \<Rightarrow> req_ptr \<Rightarrow> (string \<times> string) option" where
  "op_rename_names st r = do { rq \<leftarrow> get_req st r; case op rq of Op_rename a b \<Rightarrow> Some (a, b) | _ \<Rightarrow> None }"

definition fs_rename_blob_close_cb :: "nbfs \<Rightarrow> req_ptr \<Rightarrow> int \<Rightarrow> nbfs option" where
  "fs_rename_blob_close_cb st r bserrno =
     do { cb \<leftarrow> fn_file st r; st \<leftarrow> call_leaf cb bserrno st; free_fs_request st r }"

text \<open>\<open>bserrno\<close> is not looked at: a failed open passes a NULL blob to the blobstore.\<close>

definition fs_rename_blob_open_cb :: "nbfs \<Rightarrow> req_ptr \<Rightarrow> blob_ptr option \<Rightarrow> int \<Rightarrow> nbfs option" where
  "fs_rename_blob_open_cb st r b bserrno =
     do { (_, new_name) \<leftarrow> op_rename_names st r;
          b \<leftarrow> b;
          Some (bs_submit (BS_close b) (Bs_rename_blob_close r) (set_xattr b (X_name new_name) st)) }"

definition fs_md_rename_file :: "nbfs \<Rightarrow> req_ptr \<Rightarrow> nbfs option" where
  "fs_md_rename_file st r =
     do { (old_name, new_name) \<leftarrow> op_rename_names st r;
          found \<leftarrow> fs_find_file st old_name;
          case found of
            None \<Rightarrow> do { cb \<leftarrow> fn_file st r; st \<leftarrow> call_leaf cb (- ENOENT) st; free_fs_request st r }
          | Some f \<Rightarrow> do {
              fl \<leftarrow> get_file st f; nm \<leftarrow> name fl;
              st \<leftarrow> files_remove st nm;
              st \<leftarrow> files_insert st new_name f;
              st \<leftarrow> upd_file st f (name_update (\<lambda>_. Some new_name));
              st \<leftarrow> file_build_trace_arg_name st f;
              st \<leftarrow> upd_req st r (arg_file_update (\<lambda>_. Some f));
              fl \<leftarrow> get_file st f;
              Some (bs_submit (BS_open_blob (blobid fl)) (Bs_rename_blob_open r) st) } }"

definition fs_rename_delete_done :: "nbfs \<Rightarrow> req_ptr \<Rightarrow> int \<Rightarrow> nbfs option" where
  "fs_rename_delete_done st r fserrno = fs_md_rename_file st r"

section \<open>Block I/O callbacks\<close>

definition op_rw :: "nbfs \<Rightarrow> req_ptr \<Rightarrow> rw_op option" where
  "op_rw st r = do { rq \<leftarrow> get_req st r; case op rq of Op_rw rw \<Rightarrow> Some rw | _ \<Rightarrow> None }"

definition rw_done :: "nbfs \<Rightarrow> req_ptr \<Rightarrow> int \<Rightarrow> nbfs option" where
  "rw_done st r bserrno =
     do { rw \<leftarrow> op_rw st r;
          cb \<leftarrow> fn_file st r; st \<leftarrow> call_leaf cb bserrno st; free_fs_request st r }"

text \<open>The blob a request's file is open on; NULL crashes the blobstore.\<close>

definition file_blob :: "nbfs \<Rightarrow> file_ptr \<Rightarrow> blob_ptr option" where
  "file_blob st f = do { fl \<leftarrow> get_file st f; blob fl }"

definition do_blob_read :: "nbfs \<Rightarrow> req_ptr \<Rightarrow> int \<Rightarrow> nbfs option" where
  "do_blob_read st r fserrno =
     (if fserrno \<noteq> 0 then rw_done st r fserrno
      else do { f \<leftarrow> req_file st r; b \<leftarrow> file_blob st f; rw \<leftarrow> op_rw st r;
                Some (bs_submit (BS_read b (start_lba rw) (num_lba rw)) (Bs_read_done r) st) })"

section \<open>The callbacks of the name operations\<close>

definition blob_delete_with ::
  "(file_cb \<Rightarrow> int \<Rightarrow> nbfs \<Rightarrow> nbfs option) \<Rightarrow> nbfs \<Rightarrow> req_ptr \<Rightarrow> int \<Rightarrow> nbfs option" where
  "blob_delete_with call st r bserrno =
     do { cb \<leftarrow> fn_file st r; st \<leftarrow> call cb bserrno st; free_fs_request st r }"

fun call_op :: "file_cb \<Rightarrow> int \<Rightarrow> nbfs \<Rightarrow> nbfs option" where
  "call_op (Cb_open_blob_create r) e st = fs_open_blob_create_cb st r e"
| "call_op (Cb_rename_delete_done r) e st = fs_rename_delete_done st r e"
| "call_op (Cb_blob_delete r) e st = blob_delete_with call_leaf st r e"
| "call_op (Cb_do_blob_read r) e st = do_blob_read st r e"
| "call_op (Cb_close_sync_done r) e st = None"
| "call_op cb e st = call_leaf cb e st"

definition blob_delete_cb :: "nbfs \<Rightarrow> req_ptr \<Rightarrow> int \<Rightarrow> nbfs option" where
  "blob_delete_cb st r bserrno = blob_delete_with call_op st r bserrno"

section \<open>Creation\<close>

definition fs_create_blob_close_cb :: "nbfs \<Rightarrow> req_ptr \<Rightarrow> int \<Rightarrow> nbfs option" where
  "fs_create_blob_close_cb st r bserrno =
     do { rq \<leftarrow> get_req st r;
          let res = (if rc rq \<noteq> 0 then rc rq else bserrno);
          cb \<leftarrow> fn_file st r; st \<leftarrow> call_op cb res st; free_fs_request st r }"

definition op_create_blob :: "nbfs \<Rightarrow> req_ptr \<Rightarrow> blob_ptr option" where
  "op_create_blob st r = do { rq \<leftarrow> get_req st r; case op rq of Op_create nm b \<Rightarrow> b | _ \<Rightarrow> None }"

definition fs_create_blob_resize_cb :: "nbfs \<Rightarrow> req_ptr \<Rightarrow> int \<Rightarrow> nbfs option" where
  "fs_create_blob_resize_cb st r bserrno =
     do { f \<leftarrow> req_file st r;
          b \<leftarrow> op_create_blob st r;
          st \<leftarrow> upd_req st r (rc_update (\<lambda>_. bserrno));
          if bserrno \<noteq> 0 then Some (bs_submit (BS_close b) (Bs_create_blob_close r) st)
          else do {
            fl \<leftarrow> get_file st f; nm \<leftarrow> name fl;
            let st = set_xattr b (X_length 0) (set_xattr b (X_name nm) st);
            Some (bs_submit (BS_close b) (Bs_create_blob_close r) st) } }"

definition fs_create_blob_open_cb :: "nbfs \<Rightarrow> req_ptr \<Rightarrow> blob_ptr option \<Rightarrow> int \<Rightarrow> nbfs option" where
  "fs_create_blob_open_cb st r b bserrno =
     (if bserrno \<noteq> 0 then do { cb \<leftarrow> fn_file st r; st \<leftarrow> call_op cb bserrno st; free_fs_request st r }
      else do { st \<leftarrow> upd_req st r (op_update (\<lambda>_. Op_create [] b));
                b \<leftarrow> b;
                Some (bs_submit (BS_resize b 1) (Bs_create_blob_resize r) st) })"

definition fs_create_blob_create_cb :: "nbfs \<Rightarrow> req_ptr \<Rightarrow> blob_id \<Rightarrow> int \<Rightarrow> nbfs option" where
  "fs_create_blob_create_cb st r i bserrno =
     (if bserrno \<noteq> 0 then do { cb \<leftarrow> fn_file st r; st \<leftarrow> call_op cb bserrno st; free_fs_request st r }
      else do { f \<leftarrow> req_file st r;
                st \<leftarrow> upd_file st f (blobid_update (\<lambda>_. i));
                Some (bs_submit (BS_open_blob i) (Bs_create_blob_open r) st) })"

definition spdk_fs_create_file_async :: "nbfs \<Rightarrow> string \<Rightarrow> file_cb \<Rightarrow> nbfs option" where
  "spdk_fs_create_file_async st nm cb =
     (if name_too_long nm then call_op cb (- ENAMETOOLONG) st
      else do {
        found \<leftarrow> fs_find_file st nm;
        if found \<noteq> None then call_op cb (- EEXIST) st
        else do {
          (st, f) \<leftarrow> file_alloc st nm;
          case f of
            None \<Rightarrow> call_op cb (- ENOMEM) st
          | Some f \<Rightarrow> do {
              (st, req) \<leftarrow> alloc_fs_request st (md_fs_channel st);
              case req of
                None \<Rightarrow> call_op cb (- ENOMEM) st
              | Some r \<Rightarrow> do {
                  st \<leftarrow> upd_req st r (\<lambda>rq. rq\<lparr>arg_file := Some f, fn := Fn_file cb\<rparr>);
                  st \<leftarrow> upd_file st f (name_update (\<lambda>_. Some nm));
                  st \<leftarrow> file_build_trace_arg_name st f;
                  Some (bs_submit BS_create_blob (Bs_create_blob_create r) st) } } } })"

definition op_create_name :: "nbfs \<Rightarrow> req_ptr \<Rightarrow> string option" where
  "op_create_name st r = do { rq \<leftarrow> get_req st r; case op rq of Op_create nm b \<Rightarrow> Some nm | _ \<Rightarrow> None }"

definition fs_create_file_msg :: "nbfs \<Rightarrow> req_ptr \<Rightarrow> nbfs option" where
  "fs_create_file_msg st r =
     do { nm \<leftarrow> op_create_name st r; spdk_fs_create_file_async st nm (Cb_create_file_done r) }"

definition spdk_fs_create_file :: "nbfs \<Rightarrow> chan_ptr \<Rightarrow> string \<Rightarrow> (nbfs \<times> (int + req_ptr)) option" where
  "spdk_fs_create_file st c nm =
     do { (st, req) \<leftarrow> alloc_fs_request st c;
          case req of
            None \<Rightarrow> Some (st, Inl (- ENOMEM))
          | Some r \<Rightarrow> do {
              st \<leftarrow> upd_req st r (\<lambda>rq. rq\<lparr>op := Op_create nm None, sem := Some c\<rparr>);
              Some (send_request (Msg_create_file r) st, Inr r) } }"

section \<open>Opening, entry points\<close>

definition spdk_fs_open_file_async :: "nbfs \<Rightarrow> string \<Rightarrow> u32 \<Rightarrow> handle_cb \<Rightarrow> nbfs option" where
  "spdk_fs_open_file_async st nm flags cb =
     (if name_too_long nm then call_handle cb None (- ENAMETOOLONG) st
      else do {
        found \<leftarrow> fs_find_file st nm;
        if found = None \<and> flags AND SPDK_BLOBFS_OPEN_CREATE = 0 then call_handle cb None (- ENOENT) st
        else do {
          deleted \<leftarrow> (case found of None \<Rightarrow> Some False | Some f \<Rightarrow> do { fl \<leftarrow> get_file st f; Some (is_deleted fl) });
          if deleted then call_handle cb None (- ENOENT) st
          else do {
            (st, req) \<leftarrow> alloc_fs_request st (md_fs_channel st);
            case req of
              None \<Rightarrow> call_handle cb None (- ENOMEM) st
            | Some r \<Rightarrow> do {
                st \<leftarrow> upd_req st r (\<lambda>rq. rq\<lparr>fn := Fn_handle cb, arg_file := found, op := Op_open nm 0\<rparr>);
                if found = None then spdk_fs_create_file_async st nm (Cb_open_blob_create r)
                else fs_open_blob_create_cb st r 0 } } } })"

definition fs_open_file_msg :: "nbfs \<Rightarrow> req_ptr \<Rightarrow> nbfs option" where
  "fs_open_file_msg st r =
     do { rq \<leftarrow> get_req st r;
          case op rq of
            Op_open nm flags \<Rightarrow> spdk_fs_open_file_async st nm flags (Hcb_open_file_done r)
          | _ \<Rightarrow> None }"

definition spdk_fs_open_file :: "nbfs \<Rightarrow> chan_ptr \<Rightarrow> string \<Rightarrow> u32 \<Rightarrow> (nbfs \<times> (int + req_ptr)) option" where
  "spdk_fs_open_file st c nm flags =
     do { (st, req) \<leftarrow> alloc_fs_request st c;
          case req of
            None \<Rightarrow> Some (st, Inl (- ENOMEM))
          | Some r \<Rightarrow> do {
              st \<leftarrow> upd_req st r (\<lambda>rq. rq\<lparr>op := Op_open nm flags, sem := Some c\<rparr>);
              Some (send_request (Msg_open_file r) st, Inr r) } }"

text \<open>The rest of \<open>spdk_fs_open_file\<close> after \<open>sem_wait\<close>: the result and \<open>*file\<close>.\<close>

definition spdk_fs_open_file_finish ::
  "nbfs \<Rightarrow> chan_ptr \<Rightarrow> req_ptr \<Rightarrow> (nbfs \<times> int \<times> file_ptr option) option" where
  "spdk_fs_open_file_finish st c r =
     do { rq \<leftarrow> get_req st r;
          (st, res) \<leftarrow> finish_wait st c r;
          Some (st, res, if res = 0 then arg_file rq else None) }"

section \<open>Deletion\<close>

text \<open>\<open>char filename[SPDK_FILE_NAME_MAX]; strcpy(filename, f->name);\<close>\<close>

definition strcpy_filename :: "string \<Rightarrow> string option" where
  "strcpy_filename nm = (if length nm < SPDK_FILE_NAME_MAX then Some nm else None)"

definition spdk_fs_delete_file_async :: "nbfs \<Rightarrow> string \<Rightarrow> file_cb \<Rightarrow> nbfs option" where
  "spdk_fs_delete_file_async st nm cb =
     (if name_too_long nm then call_op cb (- ENAMETOOLONG) st
      else do {
        found \<leftarrow> fs_find_file st nm;
        case found of
          None \<Rightarrow> call_op cb (- ENOENT) st
        | Some f \<Rightarrow> do {
            (st, req) \<leftarrow> alloc_fs_request st (md_fs_channel st);
            case req of
              None \<Rightarrow> call_op cb (- ENOMEM) st
            | Some r \<Rightarrow> do {
                st \<leftarrow> upd_req st r (fn_update (\<lambda>_. Fn_file cb));
                fl \<leftarrow> get_file st f;
                if ref_count fl > 0 then do {
                  st \<leftarrow> upd_file st f (is_deleted_update (\<lambda>_. True));
                  b \<leftarrow> blob fl;
                  Some (bs_submit (BS_sync_md b) (Bs_blob_delete r) (set_xattr b (X_is_deleted True) st)) }
                else do {
                  fname \<leftarrow> name fl;
                  filename \<leftarrow> strcpy_filename fname;
                  st \<leftarrow> file_free st f;
                  st \<leftarrow> files_remove st filename;
                  Some (bs_submit (BS_delete_blob (blobid fl)) (Bs_blob_delete r) st) } } } })"

definition op_delete_name :: "nbfs \<Rightarrow> req_ptr \<Rightarrow> string option" where
  "op_delete_name st r = do { rq \<leftarrow> get_req st r; case op rq of Op_delete nm \<Rightarrow> Some nm | _ \<Rightarrow> None }"

definition fs_delete_file_msg :: "nbfs \<Rightarrow> req_ptr \<Rightarrow> nbfs option" where
  "fs_delete_file_msg st r =
     do { nm \<leftarrow> op_delete_name st r; spdk_fs_delete_file_async st nm (Cb_delete_file_done r) }"

definition spdk_fs_delete_file :: "nbfs \<Rightarrow> chan_ptr \<Rightarrow> string \<Rightarrow> (nbfs \<times> (int + req_ptr)) option" where
  "spdk_fs_delete_file st c nm =
     do { (st, req) \<leftarrow> alloc_fs_request st c;
          case req of
            None \<Rightarrow> Some (st, Inl (- ENOMEM))
          | Some r \<Rightarrow> do {
              st \<leftarrow> upd_req st r (\<lambda>rq. rq\<lparr>op := Op_delete nm, sem := Some c\<rparr>);
              Some (send_request (Msg_delete_file r) st, Inr r) } }"

section \<open>Renaming, entry points\<close>

definition spdk_fs_rename_file_async :: "nbfs \<Rightarrow> string \<Rightarrow> string \<Rightarrow> file_cb \<Rightarrow> nbfs option" where
  "spdk_fs_rename_file_async st old_name new_name cb =
     (if name_too_long new_name then call_op cb (- ENAMETOOLONG) st
      else do {
        (st, req) \<leftarrow> alloc_fs_request st (md_fs_channel st);
        case req of
          None \<Rightarrow> call_op cb (- ENOMEM) st
        | Some r \<Rightarrow> do {
            st \<leftarrow> upd_req st r (\<lambda>rq. rq\<lparr>fn := Fn_file cb, op := Op_rename old_name new_name\<rparr>);
            found \<leftarrow> fs_find_file st new_name;
            if found = None then fs_md_rename_file st r
            else spdk_fs_delete_file_async st new_name (Cb_rename_delete_done r) } })"

definition fs_rename_file_msg :: "nbfs \<Rightarrow> req_ptr \<Rightarrow> nbfs option" where
  "fs_rename_file_msg st r =
     do { (a, b) \<leftarrow> op_rename_names st r; spdk_fs_rename_file_async st a b (Cb_rename_file_done r) }"

definition spdk_fs_rename_file :: "nbfs \<Rightarrow> chan_ptr \<Rightarrow> string \<Rightarrow> string \<Rightarrow> (nbfs \<times> (int + req_ptr)) option" where
  "spdk_fs_rename_file st c old_name new_name =
     do { (st, req) \<leftarrow> alloc_fs_request st c;
          case req of
            None \<Rightarrow> Some (st, Inl (- ENOMEM))
          | Some r \<Rightarrow> do {
              st \<leftarrow> upd_req st r (\<lambda>rq. rq\<lparr>op := Op_rename old_name new_name, sem := Some c\<rparr>);
              Some (send_request (Msg_rename_file r) st, Inr r) } }"

end
