(* ===== verification/NBFS_IO.thy ===== *)
theory NBFS_IO
  imports NBFS_Names
begin

unbundle bit_operations_syntax

text \<open>
  Truncation and uncached block I/O: a byte range of a file is rounded to whole I/O units, read
  into a bounce buffer, merged with the caller's vectors and written back.
\<close>

section \<open>Truncation\<close>

definition fs_truncate_complete_cb :: "nbfs \<Rightarrow> req_ptr \<Rightarrow> int \<Rightarrow> nbfs option" where
  "fs_truncate_complete_cb st r bserrno =
     do { cb \<leftarrow> fn_file st r; st \<leftarrow> call_op cb bserrno st; free_fs_request st r }"

definition op_truncate_length :: "nbfs \<Rightarrow> req_ptr \<Rightarrow> u64 option" where
  "op_truncate_length st r = do { rq \<leftarrow> get_req st r; case op rq of Op_truncate len \<Rightarrow> Some len | _ \<Rightarrow> None }"

definition fs_truncate_resize_cb :: "nbfs \<Rightarrow> req_ptr \<Rightarrow> int \<Rightarrow> nbfs option" where
  "fs_truncate_resize_cb st r bserrno =
     (if bserrno \<noteq> 0 then do { cb \<leftarrow> fn_file st r; st \<leftarrow> call_op cb bserrno st; free_fs_request st r }
      else do {
        f \<leftarrow> req_file st r;
        len \<leftarrow> op_truncate_length st r;
        b \<leftarrow> file_blob st f;
        let st = set_xattr b (X_length len) st;
        st \<leftarrow> upd_file st f (\<lambda>fl. fl\<lparr>file_length := len,
                append_pos := (if append_pos fl > len then len else append_pos fl)\<rparr>);
        Some (bs_submit (BS_sync_md b) (Bs_truncate_complete r) st) })"

definition bytes_to_clusters :: "u64 \<Rightarrow> u64 \<Rightarrow> u64" where
  "bytes_to_clusters len csz = (len + csz - 1) div csz"

definition spdk_file_truncate_async :: "nbfs \<Rightarrow> file_ptr \<Rightarrow> u64 \<Rightarrow> file_cb \<Rightarrow> nbfs option" where
  "spdk_file_truncate_async st f len cb =
     do { fl \<leftarrow> get_file st f;
          if len = file_length fl then call_op cb 0 st
          else do {
            (st, req) \<leftarrow> alloc_fs_request st (md_fs_channel st);
            case req of
              None \<Rightarrow> call_op cb (- ENOMEM) st
            | Some r \<Rightarrow> do {
                st \<leftarrow> upd_req st r (\<lambda>rq. rq\<lparr>fn := Fn_file cb, arg_file := Some f, op := Op_truncate len\<rparr>);
                oassert (cluster_sz st \<noteq> 0);
                b \<leftarrow> blob fl;
                Some (bs_submit (BS_resize b (bytes_to_clusters len (cluster_sz st))) (Bs_truncate_resize r) st) } } }"

definition truncate_msg :: "nbfs \<Rightarrow> req_ptr \<Rightarrow> nbfs option" where
  "truncate_msg st r =
     do { f \<leftarrow> req_file st r; len \<leftarrow> op_truncate_length st r; cb \<leftarrow> fn_file st r;
          spdk_file_truncate_async st f len cb }"

text \<open>\<open>channel->send_request\<close>: a direct channel runs the function at once, the context of a
  user's thread sends it to the metadata thread.\<close>

definition channel_send :: "nbfs \<Rightarrow> chan_ptr \<Rightarrow> msg \<Rightarrow> (nbfs \<Rightarrow> nbfs option) \<Rightarrow> nbfs option" where
  "channel_send st c m run =
     do { ch \<leftarrow> channels st c; if direct ch then run st else Some (send_request m st) }"

definition spdk_file_truncate :: "nbfs \<Rightarrow> file_ptr \<Rightarrow> chan_ptr \<Rightarrow> u64 \<Rightarrow> (nbfs \<times> (int + req_ptr)) option" where
  "spdk_file_truncate st f c len =
     do { (st, req) \<leftarrow> alloc_fs_request st c;
          case req of
            None \<Rightarrow> Some (st, Inl (- ENOMEM))
          | Some r \<Rightarrow> do {
              st \<leftarrow> upd_req st r (\<lambda>rq. rq\<lparr>arg_file := Some f, op := Op_truncate len,
                      fn := Fn_file (Cb_wake_caller r), sem := Some c\<rparr>);
              st \<leftarrow> channel_send st c (Msg_truncate r) (\<lambda>st. truncate_msg st r);
              Some (st, Inr r) } }"

section \<open>Vectors\<close>

text \<open>\<open>memcpy\<close> between the users' memory and a buffer; writing or reading past the end of the
  buffer is a crash.\<close>

definition mem_read :: "memblk \<Rightarrow> nat \<Rightarrow> nat \<Rightarrow> u8 list" where
  "mem_read mem a n = map mem [a..<a + n]"

definition mem_write :: "memblk \<Rightarrow> nat \<Rightarrow> u8 list \<Rightarrow> memblk" where
  "mem_write mem a xs = (\<lambda>i. if a \<le> i \<and> i < a + length xs then xs ! (i - a) else mem i)"

definition buf_write :: "u8 list \<Rightarrow> nat \<Rightarrow> u8 list \<Rightarrow> u8 list option" where
  "buf_write b pos xs =
     (if pos + length xs \<le> length b then Some (take pos b @ xs @ drop (pos + length xs) b) else None)"

definition buf_read :: "u8 list \<Rightarrow> nat \<Rightarrow> nat \<Rightarrow> u8 list option" where
  "buf_read b pos n = (if pos + n \<le> length b then Some (take n (drop pos b)) else None)"

fun copy_iovs_to_buf :: "memblk \<Rightarrow> u8 list \<Rightarrow> nat \<Rightarrow> u64 \<Rightarrow> iovec list \<Rightarrow> u8 list option" where
  "copy_iovs_to_buf mem b pos buf_len [] = Some b"
| "copy_iovs_to_buf mem b pos buf_len (v # vs) =
     do { let len = min (iov_len v) buf_len;
          b \<leftarrow> buf_write b pos (mem_read mem (iov_base v) (unat len));
          oassert (buf_len \<ge> len);
          copy_iovs_to_buf mem b (pos + unat len) (buf_len - len) vs }"

fun copy_buf_to_iovs :: "memblk \<Rightarrow> iovec list \<Rightarrow> u8 list \<Rightarrow> nat \<Rightarrow> u64 \<Rightarrow> memblk option" where
  "copy_buf_to_iovs mem [] b pos buf_len = Some mem"
| "copy_buf_to_iovs mem (v # vs) b pos buf_len =
     do { let len = min (iov_len v) buf_len;
          xs \<leftarrow> buf_read b pos (unat len);
          let mem = mem_write mem (iov_base v) xs;
          oassert (buf_len \<ge> len);
          copy_buf_to_iovs mem vs b (pos + unat len) (buf_len - len) }"

section \<open>Block I/O\<close>

text \<open>The first \<open>iovcnt\<close> vectors of a request.\<close>

definition req_iovs :: "spdk_fs_request \<Rightarrow> iovec list" where
  "req_iovs rq = take (unat (iovcnt rq)) (iovs rq)"

text \<open>The blobstore has put the blocks it read, \<open>data\<close>, into the bounce buffer; \<open>bserrno\<close> is
  not looked at.\<close>

definition read_done :: "nbfs \<Rightarrow> req_ptr \<Rightarrow> u8 list \<Rightarrow> int \<Rightarrow> nbfs option" where
  "read_done st r data bserrno =
     do { rw \<leftarrow> op_rw st r;
          let rw = rw\<lparr>pin_buf := data\<rparr>;
          rq \<leftarrow> get_req st r;
          let pos = unat (rw_offset rw AND ucast (blocklen rw - 1));
          if is_read rw then do {
            mem \<leftarrow> copy_buf_to_iovs (memory st) (req_iovs rq) (pin_buf rw) pos (rw_length rw);
            rw_done (st\<lparr>memory := mem\<rparr>) r 0 }
          else do {
            b \<leftarrow> copy_iovs_to_buf (memory st) (pin_buf rw) pos (rw_length rw) (req_iovs rq);
            st \<leftarrow> upd_req st r (op_update (\<lambda>_. Op_rw (rw\<lparr>pin_buf := b\<rparr>)));
            f \<leftarrow> req_file st r;
            bl \<leftarrow> file_blob st f;
            Some (bs_submit (BS_write bl b (start_lba rw) (num_lba rw)) (Bs_rw_done r) st) } }"

text \<open>First block, block size, number of blocks; a block size of 0 divides by zero.\<close>

definition get_page_parameters :: "nbfs \<Rightarrow> u64 \<Rightarrow> u64 \<Rightarrow> (u64 \<times> u32 \<times> u64) option" where
  "get_page_parameters st off len =
     do { let lba_size = io_unit_size st;
          oassert (lba_size \<noteq> 0);
          let start = off div ucast lba_size;
          let end_lba = (off + len - 1) div ucast lba_size;
          Some (start, lba_size, end_lba - start + 1) }"

definition is_lba_aligned :: "nbfs \<Rightarrow> u64 \<Rightarrow> u64 \<Rightarrow> bool" where
  "is_lba_aligned st off len \<longleftrightarrow>
     off mod ucast (io_unit_size st) = 0 \<and> len mod ucast (io_unit_size st) = 0"

text \<open>The vectors are copied into the request's array.\<close>

fun fs_request_setup_iovs :: "iovec list \<Rightarrow> nat \<Rightarrow> nat \<Rightarrow> iovec list \<Rightarrow> iovec list option" where
  "fs_request_setup_iovs dst i 0 src = Some dst"
| "fs_request_setup_iovs dst i (Suc n) src =
     do { v \<leftarrow> arr_get src i; dst \<leftarrow> arr_set dst i v; fs_request_setup_iovs dst (Suc i) n src }"

definition readvwritev ::
  "nbfs \<Rightarrow> file_ptr \<Rightarrow> chan_ptr \<Rightarrow> iovec list \<Rightarrow> u32 \<Rightarrow> u64 \<Rightarrow> u64 \<Rightarrow> file_cb \<Rightarrow> bool \<Rightarrow> nbfs option" where
  "readvwritev st f c vs cnt off len cb rd =
     do { fl \<leftarrow> get_file st f;
          if rd \<and> off + len > file_length fl then call_leaf cb (- EINVAL) st
          else do {
            (st, req) \<leftarrow> alloc_fs_request_with_iov st c cnt;
            case req of
              None \<Rightarrow> call_leaf cb (- ENOMEM) st
            | Some r \<Rightarrow> do {
                (start, lba_size, num) \<leftarrow> get_page_parameters st off len;
                rq \<leftarrow> get_req st r;
                vs' \<leftarrow> fs_request_setup_iovs (iovs rq) 0 (unat cnt) vs;
                let pin_buf_length = num * ucast lba_size;
                let rw = \<lparr>rw_channel = c, pin_buf = [], is_read = rd, rw_offset = off,
                          rw_length = pin_buf_length, start_lba = 0, num_lba = 0, blocklen = lba_size\<rparr>;
                st \<leftarrow> upd_req st r (\<lambda>rq. rq\<lparr>fn := Fn_file cb, arg_file := Some f, iovs := vs', op := Op_rw rw\<rparr>);
                let (ok, st) = try_alloc st;
                if \<not> ok then do { st \<leftarrow> free_fs_request st r; call_leaf cb (- ENOMEM) st }
                else do {
                  let rw = rw\<lparr>pin_buf := mem_read (heap_garbage st) 0 (unat pin_buf_length),
                              start_lba := start, num_lba := num\<rparr>;
                  st \<leftarrow> upd_req st r (op_update (\<lambda>_. Op_rw rw));
                  if \<not> rd \<and> file_length fl < off + len then
                    spdk_file_truncate_async st f (off + len) (Cb_do_blob_read r)
                  else if \<not> rd \<and> is_lba_aligned st off len then do {
                    rq \<leftarrow> get_req st r;
                    b \<leftarrow> copy_iovs_to_buf (memory st) (pin_buf rw) 0 (rw_length rw) (req_iovs rq);
                    st \<leftarrow> upd_req st r (op_update (\<lambda>_. Op_rw (rw\<lparr>pin_buf := b\<rparr>)));
                    bl \<leftarrow> file_blob st f;
                    Some (bs_submit (BS_write bl b start num) (Bs_rw_done r) st) }
                  else do_blob_read st r 0 } } } }"

definition readwrite ::
  "nbfs \<Rightarrow> file_ptr \<Rightarrow> chan_ptr \<Rightarrow> nat \<Rightarrow> u64 \<Rightarrow> u64 \<Rightarrow> file_cb \<Rightarrow> bool \<Rightarrow> nbfs option" where
  "readwrite st f c payload off len cb rd =
     readvwritev st f c [\<lparr>iov_base = payload, iov_len = len\<rparr>] 1 off len cb rd"

definition spdk_file_write_async ::
  "nbfs \<Rightarrow> file_ptr \<Rightarrow> chan_ptr \<Rightarrow> nat \<Rightarrow> u64 \<Rightarrow> u64 \<Rightarrow> file_cb \<Rightarrow> nbfs option" where
  "spdk_file_write_async st f c payload off len cb = readwrite st f c payload off len cb False"

definition spdk_file_writev_async ::
  "nbfs \<Rightarrow> file_ptr \<Rightarrow> chan_ptr \<Rightarrow> iovec list \<Rightarrow> u32 \<Rightarrow> u64 \<Rightarrow> u64 \<Rightarrow> file_cb \<Rightarrow> nbfs option" where
  "spdk_file_writev_async st f c vs cnt off len cb = readvwritev st f c vs cnt off len cb False"

definition spdk_file_read_async ::
  "nbfs \<Rightarrow> file_ptr \<Rightarrow> chan_ptr \<Rightarrow> nat \<Rightarrow> u64 \<Rightarrow> u64 \<Rightarrow> file_cb \<Rightarrow> nbfs option" where
  "spdk_file_read_async st f c payload off len cb = readwrite st f c payload off len cb True"

definition spdk_file_readv_async ::
  "nbfs \<Rightarrow> file_ptr \<Rightarrow> chan_ptr \<Rightarrow> iovec list \<Rightarrow> u32 \<Rightarrow> u64 \<Rightarrow> u64 \<Rightarrow> file_cb \<Rightarrow> nbfs option" where
  "spdk_file_readv_async st f c vs cnt off len cb = readvwritev st f c vs cnt off len cb True"

end
