(* ===== verification/NBFS_Sync.thy ===== *)
theory NBFS_Sync
  imports NBFS_IO
begin

text \<open>
  Flushing, syncing and closing.  A flush request writes the first unflushed buffer of a file
  and goes on with the next one when the write has completed; a sync request waits in the
  file's list until everything that was appended before it is flushed, then the file's length
  is written to the blob's metadata.  Closing syncs first; the last close of a file that was
  marked as deleted deletes it.
\<close>

section \<open>Closing\<close>

definition file_close_async_done :: "nbfs \<Rightarrow> req_ptr \<Rightarrow> int \<Rightarrow> nbfs option" where
  "file_close_async_done st r bserrno =
     do { f \<leftarrow> req_file st r;
          fl \<leftarrow> get_file st f;
          if is_deleted fl then do { nm \<leftarrow> name fl; spdk_fs_delete_file_async st nm (Cb_blob_delete r) }
          else do { cb \<leftarrow> fn_file st r; st \<leftarrow> call_op cb bserrno st; free_fs_request st r } }"

definition file_close_async :: "nbfs \<Rightarrow> file_ptr \<Rightarrow> req_ptr \<Rightarrow> nbfs option" where
  "file_close_async st f r =
     do { st \<leftarrow> lock_file st f;
          fl \<leftarrow> get_file st f;
          if ref_count fl = 0 then do { st \<leftarrow> unlock_file st f; file_close_async_done st r (- EBADF) }
          else do {
            st \<leftarrow> upd_file st f (\<lambda>fl. fl\<lparr>ref_count := ref_count fl - 1\<rparr>);
            fl \<leftarrow> get_file st f;
            st \<leftarrow> unlock_file st f;
            if ref_count fl > 0 then do { cb \<leftarrow> fn_file st r; st \<leftarrow> call_op cb 0 st; free_fs_request st r }
            else do {
              st \<leftarrow> upd_file st f (blob_update (\<lambda>_. None));
              b \<leftarrow> blob fl;
              Some (bs_submit (BS_close b) (Bs_close_async_done r) st) } } }"

definition file_close_async_sync_done :: "nbfs \<Rightarrow> req_ptr \<Rightarrow> int \<Rightarrow> nbfs option" where
  "file_close_async_sync_done st r fserrno = do { f \<leftarrow> req_file st r; file_close_async st f r }"

text \<open>Every callback of the layer.\<close>

fun call_sync :: "file_cb \<Rightarrow> int \<Rightarrow> nbfs \<Rightarrow> nbfs option" where
  "call_sync (Cb_close_sync_done r) e st = file_close_async_sync_done st r e"
| "call_sync cb e st = call_op cb e st"

section \<open>Sync requests\<close>

definition file_get_blob_size :: "nbfs \<Rightarrow> file_ptr \<Rightarrow> u64 option" where
  "file_get_blob_size st f = do { b \<leftarrow> file_blob st f; Some (cluster_sz st * num_clusters st b) }"

text \<open>The fields of a sync request: offset, \<open>xattr_in_progress\<close>, length.\<close>

definition op_sync :: "nbfs \<Rightarrow> req_ptr \<Rightarrow> (u64 \<times> bool \<times> u64) option" where
  "op_sync st r =
     do { rq \<leftarrow> get_req st r; case op rq of Op_sync off prog len \<Rightarrow> Some (off, prog, len) | _ \<Rightarrow> None }"

text \<open>The first request whose data is flushed.\<close>

fun find_sync_req :: "nbfs \<Rightarrow> u64 \<Rightarrow> req_ptr list \<Rightarrow> req_ptr option option" where
  "find_sync_req st flushed [] = Some None"
| "find_sync_req st flushed (r # rs) =
     do { (off, _, _) \<leftarrow> op_sync st r;
          if off \<le> flushed then Some (Some r) else find_sync_req st flushed rs }"

definition check_sync_reqs :: "nbfs \<Rightarrow> file_ptr \<Rightarrow> nbfs option" where
  "check_sync_reqs st f =
     do { st \<leftarrow> lock_file st f;
          fl \<leftarrow> get_file st f;
          sync_req \<leftarrow> find_sync_req st (length_flushed fl) (sync_requests fl);
          case sync_req of
            None \<Rightarrow> unlock_file st f
          | Some r \<Rightarrow> do {
              (off, in_prog, _) \<leftarrow> op_sync st r;
              if in_prog then unlock_file st f
              else do {
                st \<leftarrow> upd_req st r (op_update (\<lambda>_. Op_sync off True (length_flushed fl)));
                b \<leftarrow> blob fl;
                let st = set_xattr b (X_length (length_flushed fl)) st;
                st \<leftarrow> unlock_file st f;
                Some (bs_submit (BS_sync_md b) (Bs_finish_sync r) st) } } }"

definition file_cache_finish_sync :: "nbfs \<Rightarrow> req_ptr \<Rightarrow> int \<Rightarrow> nbfs option" where
  "file_cache_finish_sync st r bserrno =
     do { f \<leftarrow> req_file st r;
          (off, _, len) \<leftarrow> op_sync st r;
          st \<leftarrow> lock_file st f;
          st \<leftarrow> upd_file st f (length_xattr_update (\<lambda>_. len));
          fl \<leftarrow> get_file st f;
          oassert (off \<le> length_flushed fl);
          oassert (r \<in> set (sync_requests fl));
          st \<leftarrow> upd_file st f (\<lambda>fl. fl\<lparr>sync_requests := remove1 r (sync_requests fl)\<rparr>);
          st \<leftarrow> unlock_file st f;
          cb \<leftarrow> fn_file st r;
          st \<leftarrow> call_sync cb bserrno st;
          st \<leftarrow> free_fs_request st r;
          check_sync_reqs st f }"

section \<open>Flushing\<close>

definition upd_buffer :: "nbfs \<Rightarrow> buf_ptr \<Rightarrow> (cache_buffer \<Rightarrow> cache_buffer) \<Rightarrow> nbfs option" where
  "upd_buffer st b g = do { cb \<leftarrow> buffers st b; Some (st\<lparr>buffers := (buffers st)(b \<mapsto> g cb)\<rparr>) }"

text \<open>The bytes of a cache buffer from \<open>start_lba * lba_size - offset\<close> on, for \<open>num_lba\<close> blocks.\<close>

definition buffer_blocks :: "cache_buffer \<Rightarrow> u64 \<Rightarrow> u32 \<Rightarrow> u64 \<Rightarrow> u8 list option" where
  "buffer_blocks cb start lba_size num =
     do { let i = unat (start * ucast lba_size - offset cb);
          let n = unat (num * ucast lba_size);
          oassert (i + n \<le> unat (buf_size cb));
          Some (mem_read (buf cb) i n) }"

definition file_flush :: "nbfs \<Rightarrow> req_ptr \<Rightarrow> nbfs option" where
  "file_flush st r =
     do { f \<leftarrow> req_file st r;
          st \<leftarrow> lock_file st f;
          fl \<leftarrow> get_file st f;
          next \<leftarrow> tree_find_buffer (tree fl) (length_flushed fl);
          case next of
            None \<Rightarrow> do {
              st \<leftarrow> free_fs_request st r;
              st \<leftarrow> upd_file st f (\<lambda>fl. fl\<lparr>length_flushed := append_pos fl\<rparr>);
              st \<leftarrow> unlock_file st f;
              check_sync_reqs st f }
          | Some b \<Rightarrow> do {
              cb \<leftarrow> buffers st b;
              if in_progress cb \<or> bytes_filled cb < buf_size cb \<and> sync_requests fl = [] then
                do { st \<leftarrow> free_fs_request st r; unlock_file st f }
              else do {
                let off = offset cb + ucast (bytes_flushed cb);
                let len = ucast (bytes_filled cb - bytes_flushed cb);
                if len = 0 then
                  do { st \<leftarrow> free_fs_request st r; st \<leftarrow> unlock_file st f; check_sync_reqs st f }
                else do {
                  st \<leftarrow> upd_req st r (op_update (\<lambda>_. Op_flush b len));
                  (start, lba_size, num) \<leftarrow> get_page_parameters st off len;
                  st \<leftarrow> upd_buffer st b (in_progress_update (\<lambda>_. True));
                  st \<leftarrow> unlock_file st f;
                  bl \<leftarrow> blob fl;
                  data \<leftarrow> buffer_blocks cb start lba_size num;
                  Some (bs_submit (BS_write bl data start num) (Bs_flush_done r) st) } } } }"

definition op_flush :: "nbfs \<Rightarrow> req_ptr \<Rightarrow> (buf_ptr \<times> u64) option" where
  "op_flush st r = do { rq \<leftarrow> get_req st r; case op rq of Op_flush b len \<Rightarrow> Some (b, len) | _ \<Rightarrow> None }"

text \<open>\<open>bserrno\<close> is not looked at.\<close>

definition file_flush_done :: "nbfs \<Rightarrow> req_ptr \<Rightarrow> int \<Rightarrow> nbfs option" where
  "file_flush_done st r bserrno =
     do { f \<leftarrow> req_file st r;
          (b, len) \<leftarrow> op_flush st r;
          st \<leftarrow> lock_file st f;
          st \<leftarrow> upd_buffer st b (\<lambda>cb. cb\<lparr>in_progress := False,
                  bytes_flushed := ucast (ucast (bytes_flushed cb) + len)\<rparr>);
          st \<leftarrow> upd_file st f (\<lambda>fl. fl\<lparr>length_flushed := length_flushed fl + len\<rparr>);
          st \<leftarrow> upd_file st f (\<lambda>fl. fl\<lparr>file_length := max (file_length fl) (length_flushed fl)\<rparr>);
          cb \<leftarrow> buffers st b;
          fl \<leftarrow> get_file st f;
          next \<leftarrow> (if bytes_flushed cb = buf_size cb
                   then tree_find_buffer (tree fl) (length_flushed fl) else Some (Some b));
          _ \<leftarrow> (case next of
                 None \<Rightarrow> Some ()
               | Some b' \<Rightarrow> do { cb' \<leftarrow> buffers st b'; bsz \<leftarrow> file_get_blob_size st f;
                                oassert (offset cb' < bsz \<or> bytes_filled cb' = 0) });
          st \<leftarrow> unlock_file st f;
          st \<leftarrow> check_sync_reqs st f;
          file_flush st r }"

section \<open>Extending the blob\<close>

definition file_extend_done :: "nbfs \<Rightarrow> req_ptr \<Rightarrow> int \<Rightarrow> nbfs option" where
  "file_extend_done st r bserrno = wake_caller st r bserrno"

definition file_extend_resize_cb :: "nbfs \<Rightarrow> req_ptr \<Rightarrow> int \<Rightarrow> nbfs option" where
  "file_extend_resize_cb st r bserrno =
     (if bserrno \<noteq> 0 then wake_caller st r bserrno
      else do { f \<leftarrow> req_file st r; b \<leftarrow> file_blob st f;
                Some (bs_submit (BS_sync_md b) (Bs_extend_done r) st) })"

definition file_extend_blob :: "nbfs \<Rightarrow> req_ptr \<Rightarrow> nbfs option" where
  "file_extend_blob st r =
     do { f \<leftarrow> req_file st r; b \<leftarrow> file_blob st f;
          rq \<leftarrow> get_req st r;
          case op rq of
            Op_resize n \<Rightarrow> Some (bs_submit (BS_resize b (ucast n)) (Bs_extend_resize r) st)
          | _ \<Rightarrow> None }"

section \<open>Sync and close, entry points\<close>

definition file_sync :: "nbfs \<Rightarrow> file_ptr \<Rightarrow> chan_ptr \<Rightarrow> file_cb \<Rightarrow> nbfs option" where
  "file_sync st f c cb =
     do { st \<leftarrow> lock_file st f;
          fl \<leftarrow> get_file st f;
          if append_pos fl \<le> length_xattr fl then do { st \<leftarrow> unlock_file st f; call_sync cb 0 st }
          else do {
            (st, sync_req) \<leftarrow> alloc_fs_request st c;
            case sync_req of
              None \<Rightarrow> do { st \<leftarrow> unlock_file st f; call_sync cb (- ENOMEM) st }
            | Some rs \<Rightarrow> do {
                (st, flush_req) \<leftarrow> alloc_fs_request st c;
                case flush_req of
                  None \<Rightarrow> do { st \<leftarrow> free_fs_request st rs; st \<leftarrow> unlock_file st f; call_sync cb (- ENOMEM) st }
                | Some rf \<Rightarrow> do {
                    st \<leftarrow> upd_req st rs (\<lambda>rq. rq\<lparr>arg_file := Some f, fn := Fn_file cb,
                            op := Op_sync (append_pos fl) False 0\<rparr>);
                    st \<leftarrow> upd_file st f (\<lambda>fl. fl\<lparr>sync_requests := sync_requests fl @ [rs]\<rparr>);
                    st \<leftarrow> unlock_file st f;
                    st \<leftarrow> upd_req st rf (arg_file_update (\<lambda>_. Some f));
                    channel_send st c (Msg_file_flush rf) (\<lambda>st. file_flush st rf) } } } }"

text \<open>The arguments are on the stack of the calling thread: a request that belongs to no
  channel, which the second half drops.\<close>

definition spdk_file_sync :: "nbfs \<Rightarrow> file_ptr \<Rightarrow> chan_ptr \<Rightarrow> (nbfs \<times> req_ptr) option" where
  "spdk_file_sync st f c =
     do { let (st, r) = new_heap_request st (zero_request\<lparr>sem := Some c\<rparr>);
          st \<leftarrow> file_sync st f c (Cb_wake_caller r);
          Some (st, r) }"

definition spdk_file_sync_finish :: "nbfs \<Rightarrow> chan_ptr \<Rightarrow> req_ptr \<Rightarrow> (nbfs \<times> int) option" where
  "spdk_file_sync_finish st c r =
     do { st \<leftarrow> sem_wait st c; rq \<leftarrow> get_req st r;
          Some (st\<lparr>requests := (requests st)(r := None)\<rparr>, rc rq) }"

definition spdk_file_sync_async :: "nbfs \<Rightarrow> file_ptr \<Rightarrow> chan_ptr \<Rightarrow> file_cb \<Rightarrow> nbfs option" where
  "spdk_file_sync_async st f c cb = file_sync st f c cb"

definition spdk_file_close_async :: "nbfs \<Rightarrow> file_ptr \<Rightarrow> file_cb \<Rightarrow> nbfs option" where
  "spdk_file_close_async st f cb =
     do { (st, req) \<leftarrow> alloc_fs_request st (md_fs_channel st);
          case req of
            None \<Rightarrow> call_op cb (- ENOMEM) st
          | Some r \<Rightarrow> do {
              st \<leftarrow> upd_req st r (\<lambda>rq. rq\<lparr>arg_file := Some f, fn := Fn_file cb\<rparr>);
              spdk_file_sync_async st f (md_fs_channel st) (Cb_close_sync_done r) } }"

definition file_close_msg :: "nbfs \<Rightarrow> req_ptr \<Rightarrow> nbfs option" where
  "file_close_msg st r = do { f \<leftarrow> req_file st r; file_close_async st f r }"

text \<open>\<open>spdk_file_close\<close> up to the wait of its \<open>spdk_file_sync\<close>, from there to its own wait, and
  the rest: \<open>args->rc\<close> is read although the request was given back to its channel.\<close>

definition spdk_file_close :: "nbfs \<Rightarrow> file_ptr \<Rightarrow> chan_ptr \<Rightarrow> (nbfs \<times> (int + req_ptr \<times> req_ptr)) option" where
  "spdk_file_close st f c =
     do { (st, req) \<leftarrow> alloc_fs_request st c;
          case req of
            None \<Rightarrow> Some (st, Inl (- ENOMEM))
          | Some r \<Rightarrow> do { (st, s) \<leftarrow> spdk_file_sync st f c; Some (st, Inr (r, s)) } }"

definition spdk_file_close_synced :: "nbfs \<Rightarrow> file_ptr \<Rightarrow> chan_ptr \<Rightarrow> req_ptr \<Rightarrow> req_ptr \<Rightarrow> nbfs option" where
  "spdk_file_close_synced st f c r s =
     do { (st, _) \<leftarrow> spdk_file_sync_finish st c s;
          st \<leftarrow> upd_req st r (\<lambda>rq. rq\<lparr>arg_file := Some f, sem := Some c, fn := Fn_file (Cb_wake_caller r)\<rparr>);
          channel_send st c (Msg_file_close r) (\<lambda>st. file_close_msg st r) }"

definition spdk_file_close_finish :: "nbfs \<Rightarrow> chan_ptr \<Rightarrow> req_ptr \<Rightarrow> (nbfs \<times> int) option" where
  "spdk_file_close_finish st c r = do { st \<leftarrow> sem_wait st c; rq \<leftarrow> get_req st r; Some (st, rc rq) }"

end
