(* ===== verification/NBFS_RW.thy ===== *)
theory NBFS_RW
  imports NBFS_Sync
begin

unbundle bit_operations_syntax

text \<open>
  The synchronous, cached reads and writes of a user's thread.  A write appends to the last
  cache buffer of the file; a read copies from the cache and sends a block read for what is
  not there.  Each function is cut where the thread waits on its semaphore.
\<close>

section \<open>Uncached access for a synchronous caller\<close>

definition rw_from_file :: "nbfs \<Rightarrow> req_ptr \<Rightarrow> nbfs option" where
  "rw_from_file st r =
     do { f \<leftarrow> req_file st r;
          rq \<leftarrow> get_req st r;
          rw \<leftarrow> op_rw st r;
          v \<leftarrow> arr_get (iovs rq) 0;
          if is_read rw
          then spdk_file_read_async st f (sync_fs_channel st) (iov_base v) (rw_offset rw) (iov_len v)
                 (Cb_rw_from_file_done r)
          else spdk_file_write_async st f (sync_fs_channel st) (iov_base v) (rw_offset rw) (iov_len v)
                 (Cb_rw_from_file_done r) }"

text \<open>The \<open>rw_from_file_arg\<close> is a local variable of the thread that owns channel \<open>c\<close>; its
  \<open>rwerrno\<close> is \<open>rw_errno st c\<close>.\<close>

definition send_rw_from_file ::
  "nbfs \<Rightarrow> file_ptr \<Rightarrow> nat \<Rightarrow> u64 \<Rightarrow> u64 \<Rightarrow> bool \<Rightarrow> chan_ptr \<Rightarrow> (nbfs \<times> int) option" where
  "send_rw_from_file st f payload off len rd c =
     do { (st, req) \<leftarrow> alloc_fs_request_with_iov st c 1;
          case req of
            None \<Rightarrow> do { st \<leftarrow> sem_post st c; Some (st, - ENOMEM) }
          | Some r \<Rightarrow> do {
              rq \<leftarrow> get_req st r;
              vs \<leftarrow> arr_set (iovs rq) 0 \<lparr>iov_base = payload, iov_len = len\<rparr>;
              st \<leftarrow> upd_req st r (\<lambda>rq. rq\<lparr>arg_file := Some f, sem := Some c, iovs := vs,
                      op := Op_rw \<lparr>rw_channel = 0, pin_buf = [], is_read = rd, rw_offset = off,
                              rw_length = 0, start_lba = 0, num_lba = 0, blocklen = 0\<rparr>,
                      rwerrno := Some c\<rparr>);
              Some (send_request (Msg_rw_from_file r) st, 0) } }"

section \<open>Cached write\<close>

lemma cache_insert_buffer_new:
  assumes "cache_insert_buffer st f off = Some (st', Some b)"
  shows "buffers st' b = Some (new_cache_buffer (heap_garbage st') off)"
proof -
  have pool: "heap_garbage (send_pool_msg m s) = heap_garbage s" "buffers (send_pool_msg m s) = buffers s" for m s
    by (simp_all add: send_pool_msg_def)
  show ?thesis
    using assms by (auto simp: cache_insert_buffer_def bind_Some_iff upd_file_def Let_def pool
        split: prod.splits if_splits)
qed

text \<open>The loop that copies the payload into the last buffer, and appends a new buffer whenever
  one is full: the number of buffers filled, or the failure to get a new one.\<close>

definition advance_append :: "u64 \<Rightarrow> spdk_file \<Rightarrow> spdk_file" where
  "advance_append copy fl =
     (let pos = append_pos fl + copy
      in fl\<lparr>append_pos := pos, file_length := (if file_length fl < pos then pos else file_length fl)\<rparr>)"

definition fill_step :: "nbfs \<Rightarrow> file_ptr \<Rightarrow> buf_ptr \<Rightarrow> u64 \<Rightarrow> nat \<Rightarrow> (nbfs \<times> u64) option" where
  "fill_step st f b rem cur =
     do { cb \<leftarrow> buffers st b;
          let copy = min (ucast (buf_size cb - bytes_filled cb)) rem;
          let at = unat (bytes_filled cb);
          oassert (at + unat copy \<le> unat (buf_size cb));
          let data = mem_read (memory st) cur (unat copy);
          st \<leftarrow> upd_file st f (advance_append copy);
          st \<leftarrow> upd_buffer st b (\<lambda>cb. cb\<lparr>buf := mem_write (buf cb) at data,
                  bytes_filled := ucast (ucast (bytes_filled cb) + copy)\<rparr>);
          Some (st, copy) }"

definition buffer_full :: "nbfs \<Rightarrow> buf_ptr \<Rightarrow> bool" where
  "buffer_full st b = (case buffers st b of None \<Rightarrow> False | Some cb \<Rightarrow> bytes_filled cb = buf_size cb)"

lemma cache_append_buffer_new:
  assumes "cache_append_buffer st f = Some (st', Some b)"
  shows "\<not> buffer_full st' b"
  using assms cache_insert_buffer_new
  by (auto simp: cache_append_buffer_def bind_Some_iff upd_file_def buffer_full_def new_cache_buffer_def
      CACHE_BUFFER_SIZE_def CACHE_BUFFER_SHIFT_def split: option.splits)

lemma fill_step_progress:
  assumes "fill_step st f b rem cur = Some (st', copy)"
  shows "unat (rem - copy) = unat rem - unat copy" "unat copy \<le> unat rem"
    and "rem \<noteq> 0 \<Longrightarrow> copy = 0 \<Longrightarrow> buffer_full st b \<and> buffer_full st' b"
proof -
  obtain cb st1 where cb: "buffers st b = Some cb" "copy = min (ucast (buf_size cb - bytes_filled cb)) rem"
    and st1: "upd_file st f (advance_append copy) = Some st1"
    and st': "upd_buffer st1 b (\<lambda>cb'. cb'\<lparr>buf := mem_write (buf cb') (unat (bytes_filled cb))
                  (mem_read (memory st) cur (unat copy)),
                bytes_filled := ucast (ucast (bytes_filled cb') + copy)\<rparr>) = Some st'"
    using assms by (auto simp: fill_step_def bind_Some_iff Let_def)
  show "unat (rem - copy) = unat rem - unat copy" "unat copy \<le> unat rem"
    using cb(2) by (auto simp: unat_sub word_le_nat_alt [symmetric])
  show "buffer_full st b \<and> buffer_full st' b" if "rem \<noteq> 0" "copy = 0"
  proof -
    have "buf_size cb = bytes_filled cb" using cb(2) that by (simp add: min_def split: if_splits)
    moreover have "buffers st1 = buffers st" using st1 by (auto simp: upd_file_def bind_Some_iff)
    ultimately show ?thesis using cb(1) st' that(2) by (auto simp: upd_buffer_def buffer_full_def)
  qed
qed

function fill_loop :: "nbfs \<Rightarrow> file_ptr \<Rightarrow> buf_ptr \<Rightarrow> u64 \<Rightarrow> nat \<Rightarrow> u32 \<Rightarrow> (nbfs \<times> u32 option) option" where
  "fill_loop st f b rem cur filled =
     (if rem = 0 then Some (st, Some filled)
      else case fill_step st f b rem cur of
        None \<Rightarrow> None
      | Some (st, copy) \<Rightarrow>
          if buffer_full st b then
            (case cache_append_buffer st f of
               None \<Rightarrow> None
             | Some (st, None) \<Rightarrow> Some (st, None)
             | Some (st, Some b') \<Rightarrow> fill_loop st f b' (rem - copy) (cur + unat copy) (filled + 1))
          else fill_loop st f b (rem - copy) (cur + unat copy) filled)"
  by pat_completeness auto
termination
proof (relation "measure (\<lambda>(st, f, b, rem, cur, filled). 2 * unat rem + (if buffer_full st b then 1 else 0))", goal_cases)
  case (2 st f b rem cur filled x st1 copy y st2 z b')
  note p = fill_step_progress [of st f b rem cur st1 copy]
  have "\<not> buffer_full st2 b'" using 2 by (intro cache_append_buffer_new) auto
  moreover have "copy = 0 \<Longrightarrow> buffer_full st b" using p(3) 2 by auto
  moreover have "copy \<noteq> 0 \<Longrightarrow> unat copy > 0" by (simp add: unat_gt_0)
  ultimately show ?case using p(1,2) 2 by (cases "copy = 0") auto
next
  case (3 st f b rem cur filled x st1 copy)
  note p = fill_step_progress [of st f b rem cur st1 copy]
  have "copy \<noteq> 0" using p(3) 3 by auto
  then have "unat copy > 0" by (simp add: unat_gt_0)
  then show ?case using p(1,2) 3 by auto
qed simp

declare fill_loop.simps [simp del]


text \<open>Where a write returns or waits: for the uncached write, or for the blob to grow.\<close>

datatype write_state = W_return int | W_wait_rw | W_wait_extend req_ptr

text \<open>The part of \<open>spdk_file_write\<close> from the allocation of the flush request on.\<close>

definition file_write_fill :: "nbfs \<Rightarrow> file_ptr \<Rightarrow> chan_ptr \<Rightarrow> nat \<Rightarrow> u64 \<Rightarrow> (nbfs \<times> int) option" where
  "file_write_fill st f c payload len =
     do { (st, flush_req) \<leftarrow> alloc_fs_request st c;
          case flush_req of
            None \<Rightarrow> do { st \<leftarrow> unlock_file st f; Some (st, - ENOMEM) }
          | Some r \<Rightarrow> do {
              fl \<leftarrow> get_file st f;
              b \<leftarrow> file_last fl;
              (st, filled) \<leftarrow> fill_loop st f b len payload 0;
              case filled of
                None \<Rightarrow> do { st \<leftarrow> free_fs_request st r; st \<leftarrow> unlock_file st f; Some (st, - ENOMEM) }
              | Some n \<Rightarrow> do {
                  st \<leftarrow> unlock_file st f;
                  if n = 0 then do { st \<leftarrow> free_fs_request st r; Some (st, 0) }
                  else do {
                    st \<leftarrow> upd_req st r (arg_file_update (\<lambda>_. Some f));
                    Some (send_request (Msg_file_flush r) st, 0) } } } }"

text \<open>The \<open>extend_args\<close> are on the caller's stack.\<close>

definition spdk_file_write ::
  "nbfs \<Rightarrow> file_ptr \<Rightarrow> chan_ptr \<Rightarrow> nat \<Rightarrow> u64 \<Rightarrow> u64 \<Rightarrow> (nbfs \<times> write_state) option" where
  "spdk_file_write st f c payload off len =
     (if len = 0 then Some (st, W_return 0)
      else do {
        fl \<leftarrow> get_file st f;
        if off \<noteq> append_pos fl then Some (st, W_return (- EINVAL))
        else do {
          st \<leftarrow> lock_file st f;
          st \<leftarrow> upd_file st f (open_for_writing_update (\<lambda>_. True));
          st \<leftarrow> (if file_last fl = None \<and> append_pos fl mod CACHE_BUFFER_SIZE = 0
                then do { (st, _) \<leftarrow> cache_append_buffer st f; Some st } else Some st);
          fl \<leftarrow> get_file st f;
          if file_last fl = None then do {
            let st = st\<lparr>rw_errno := (rw_errno st)(c := 0)\<rparr>;
            st \<leftarrow> upd_file st f (\<lambda>fl. fl\<lparr>append_pos := append_pos fl + len\<rparr>);
            st \<leftarrow> unlock_file st f;
            (st, res) \<leftarrow> send_rw_from_file st f payload off len False c;
            Some (st, if res \<noteq> 0 then W_return res else W_wait_rw) }
          else do {
            blob_size \<leftarrow> file_get_blob_size st f;
            if off + len > blob_size then do {
              oassert (cluster_sz st \<noteq> 0);
              let (st, r) = new_heap_request st (zero_request\<lparr>sem := Some c, arg_file := Some f,
                      op := Op_resize (ucast (bytes_to_clusters (off + len) (cluster_sz st)))\<rparr>);
              st \<leftarrow> unlock_file st f;
              Some (send_request (Msg_extend_blob r) st, W_wait_extend r) }
            else do { (st, res) \<leftarrow> file_write_fill st f c payload len; Some (st, W_return res) } } } })"

text \<open>After the wait for the uncached write, and after the wait for the growth of the blob.\<close>

definition spdk_file_write_rw_finish :: "nbfs \<Rightarrow> chan_ptr \<Rightarrow> (nbfs \<times> int) option" where
  "spdk_file_write_rw_finish st c = do { st \<leftarrow> sem_wait st c; Some (st, rw_errno st c) }"

definition spdk_file_write_extended ::
  "nbfs \<Rightarrow> file_ptr \<Rightarrow> chan_ptr \<Rightarrow> req_ptr \<Rightarrow> nat \<Rightarrow> u64 \<Rightarrow> (nbfs \<times> int) option" where
  "spdk_file_write_extended st f c r payload len =
     do { st \<leftarrow> sem_wait st c;
          rq \<leftarrow> get_req st r;
          let st = st\<lparr>requests := (requests st)(r := None)\<rparr>;
          if rc rq \<noteq> 0 then Some (st, rc rq) else file_write_fill st f c payload len }"

section \<open>Read-ahead\<close>

definition op_readahead :: "nbfs \<Rightarrow> req_ptr \<Rightarrow> (buf_ptr \<times> u64 \<times> u64) option" where
  "op_readahead st r =
     do { rq \<leftarrow> get_req st r;
          case op rq of Op_readahead b len off \<Rightarrow> do { b \<leftarrow> b; Some (b, len, off) } | _ \<Rightarrow> None }"

text \<open>The blobstore has read \<open>data\<close> into the cache buffer; \<open>bserrno\<close> is not looked at.\<close>

definition readahead_done :: "nbfs \<Rightarrow> req_ptr \<Rightarrow> u8 list \<Rightarrow> int \<Rightarrow> nbfs option" where
  "readahead_done st r data bserrno =
     do { (b, len, _) \<leftarrow> op_readahead st r;
          f \<leftarrow> req_file st r;
          cb \<leftarrow> buffers st b;
          oassert (length data \<le> unat (buf_size cb));
          st \<leftarrow> upd_buffer st b (\<lambda>cb. cb\<lparr>buf := mem_write (buf cb) 0 data\<rparr>);
          st \<leftarrow> lock_file st f;
          st \<leftarrow> upd_buffer st b (\<lambda>cb. cb\<lparr>bytes_filled := ucast len, bytes_flushed := ucast len, in_progress := False\<rparr>);
          st \<leftarrow> unlock_file st f;
          free_fs_request st r }"

definition readahead :: "nbfs \<Rightarrow> req_ptr \<Rightarrow> nbfs option" where
  "readahead st r =
     do { f \<leftarrow> req_file st r;
          (b, len, off) \<leftarrow> op_readahead st r;
          oassert (len > 0);
          (start, _, num) \<leftarrow> get_page_parameters st off len;
          bl \<leftarrow> file_blob st f;
          _ \<leftarrow> buffers st b;
          Some (bs_submit (BS_read bl start num) (Bs_readahead_done r) st) }"

definition next_cache_buffer_offset :: "u64 \<Rightarrow> u64 option" where
  "next_cache_buffer_offset off =
     do { m \<leftarrow> CACHE_TREE_LEVEL_MASK 0; Some ((off + CACHE_BUFFER_SIZE) AND NOT m) }"

definition check_readahead :: "nbfs \<Rightarrow> file_ptr \<Rightarrow> u64 \<Rightarrow> chan_ptr \<Rightarrow> nbfs option" where
  "check_readahead st f off c =
     do { off \<leftarrow> next_cache_buffer_offset off;
          fl \<leftarrow> get_file st f;
          found \<leftarrow> tree_find_buffer (tree fl) off;
          if found \<noteq> None \<or> file_length fl \<le> off then Some st
          else do {
            (st, req) \<leftarrow> alloc_fs_request st c;
            case req of
              None \<Rightarrow> Some st
            | Some r \<Rightarrow> do {
                st \<leftarrow> upd_req st r (\<lambda>rq. rq\<lparr>arg_file := Some f, op := Op_readahead None 0 off\<rparr>);
                (st, buffer) \<leftarrow> cache_insert_buffer st f off;
                case buffer of
                  None \<Rightarrow> free_fs_request st r
                | Some b \<Rightarrow> do {
                    st \<leftarrow> upd_buffer st b (in_progress_update (\<lambda>_. True));
                    fl \<leftarrow> get_file st f;
                    let len = (if file_length fl < off + CACHE_BUFFER_SIZE
                               then file_length fl AND (CACHE_BUFFER_SIZE - 1) else CACHE_BUFFER_SIZE);
                    st \<leftarrow> upd_req st r (op_update (\<lambda>_. Op_readahead (Some b) len off));
                    Some (send_request (Msg_readahead r) st) } } } }"

section \<open>Cached read\<close>

lemma unat_take_bit_18: "unat (take_bit 18 (w :: u64)) = unat w mod 2 ^ 18"
  by (simp add: unsigned_take_bit_eq take_bit_nat_def)

lemma take_bit_off: "take_bit 18 ((off :: u64) + 2 ^ 18) = take_bit 18 off"
proof -
  have "(unat off + 262144) mod 18446744073709551616 mod 262144 = (unat off + 262144) mod 262144"
    by (rule mod_mod_cancel) simp
  then show ?thesis
    by (intro word_unat_eq_iff [THEN iffD2]) (simp add: unat_take_bit_18 unat_word_ariths)
qed

lemma next_offset_eq: "NEXT_CACHE_BUFFER_OFFSET off = off + 2 ^ 18 - take_bit 18 off"
proof -
  let ?x = "off + 2 ^ 18"
  have "push_bit 18 (drop_bit 18 ?x) + take_bit 18 ?x = ?x" by (rule bits_ident)
  moreover have "take_bit 18 ?x = take_bit 18 off"
    by (rule take_bit_off)
  ultimately show ?thesis
    by (simp add: NEXT_CACHE_BUFFER_OFFSET_def CACHE_BUFFER_SHIFT_def CACHE_BUFFER_SIZE_def eq_diff_eq)
qed

lemma next_offset_gap:
  "unat (NEXT_CACHE_BUFFER_OFFSET off - off) = 2 ^ 18 - unat off mod 2 ^ 18"
proof -
  have "unat (take_bit 18 off) = unat off mod 2 ^ 18" by (rule unat_take_bit_18)
  moreover have "unat off mod 2 ^ 18 < 2 ^ 18" by simp
  ultimately have "take_bit 18 off \<le> 2 ^ 18" by (simp add: word_le_nat_alt)
  then show ?thesis using \<open>unat (take_bit 18 off) = _\<close> by (simp add: next_offset_eq unat_sub)
qed

text \<open>\<open>tree_remove_buffer(file->tree, buf)\<close>, which gives the buffer back to the pool.\<close>

definition file_tree_remove_buffer :: "nbfs \<Rightarrow> file_ptr \<Rightarrow> buf_ptr \<Rightarrow> nbfs option" where
  "file_tree_remove_buffer st f b =
     do { fl \<leftarrow> get_file st f;
          cb \<leftarrow> buffers st b;
          (t, freed) \<leftarrow> tree_remove_buffer (tree fl) b (offset cb);
          st \<leftarrow> cache_buffers_free st freed;
          upd_file st f (tree_update (\<lambda>_. t)) }"

text \<open>The copy out of a buffer that was found.\<close>

definition read_from_buffer :: "nbfs \<Rightarrow> file_ptr \<Rightarrow> buf_ptr \<Rightarrow> nat \<Rightarrow> u64 \<Rightarrow> u64 \<Rightarrow> nbfs option" where
  "read_from_buffer st f b payload off len =
     do { cb \<leftarrow> buffers st b;
          let filled_to = offset cb + ucast (bytes_filled cb);
          let read_len = (if off + len > filled_to then filled_to - off else len);
          let i = unat (off - offset cb);
          oassert (i + unat read_len \<le> unat (buf_size cb));
          let st = st\<lparr>memory := mem_write (memory st) payload (mem_read (buf cb) i (unat read_len))\<rparr>;
          if (off + read_len) mod CACHE_BUFFER_SIZE = 0 then do {
            st \<leftarrow> file_tree_remove_buffer st f b;
            fl \<leftarrow> get_file st f;
            Some (if present_mask (tree fl) = 0 then send_pool_msg (Pool_remove_file f) st else st) }
          else Some st }"

lemma read_loop_advance:
  assumes "off < final_off" and "len = min (NEXT_CACHE_BUFFER_OFFSET off - off) (final_off - off)"
  shows "unat final_off - unat (off + len) < unat final_off - unat off"
proof -
  have gap: "0 < unat (NEXT_CACHE_BUFFER_OFFSET off - off)" by (simp add: next_offset_gap)
  have d: "unat (final_off - off) = unat final_off - unat off" "unat off < unat final_off"
    using assms(1) by (simp_all add: unat_sub less_imp_le word_less_nat_alt [symmetric])
  have l: "0 < unat len" "unat len \<le> unat final_off - unat off"
    using assms(2) gap d by (auto simp: min_def word_le_nat_alt)
  then have "unat off + unat len < 2 ^ 64" using unat_u64_bound [of final_off] d by simp
  then have "unat (off + len) = unat off + unat len" by (simp add: unat_word_ariths)
  then show ?thesis using l d by simp
qed

text \<open>The loop over the pages: the length read and the number of block reads to wait for.\<close>

function read_loop ::
  "nbfs \<Rightarrow> file_ptr \<Rightarrow> chan_ptr \<Rightarrow> nat \<Rightarrow> u64 \<Rightarrow> u64 \<Rightarrow> u64 \<Rightarrow> nat \<Rightarrow> (nbfs \<times> u64 \<times> nat) option" where
  "read_loop st f c payload off final_off final_len sub_reads =
     (if \<not> off < final_off then Some (st, final_len, sub_reads)
      else
        let len = min (NEXT_CACHE_BUFFER_OFFSET off - off) (final_off - off) in
        case get_file st f of
          None \<Rightarrow> None
        | Some fl \<Rightarrow>
            (case tree_find_filled_buffer (buffers st) (tree fl) off of
               None \<Rightarrow> None
             | Some None \<Rightarrow>
                 (case do { st \<leftarrow> unlock_file st f;
                            (st, ret) \<leftarrow> send_rw_from_file st f payload off len True c;
                            st \<leftarrow> lock_file st f;
                            Some (st, ret) } of
                    None \<Rightarrow> None
                  | Some (st, ret) \<Rightarrow>
                      if ret = 0
                      then read_loop st f c (payload + unat len) (off + len) final_off (final_len + len) (sub_reads + 1)
                      else Some (st\<lparr>rw_errno := (rw_errno st)(c := ret)\<rparr>, final_len, sub_reads))
             | Some (Some b) \<Rightarrow>
                 (case read_from_buffer st f b payload off len of
                    None \<Rightarrow> None
                  | Some st \<Rightarrow> read_loop st f c (payload + unat len) (off + len) final_off (final_len + len) sub_reads)))"
  by pat_completeness auto
termination
  by (relation "measure (\<lambda>(st, f, c, payload, off, final_off, final_len, sub_reads). unat final_off - unat off)")
     (simp_all add: read_loop_advance)

declare read_loop.simps [simp del]

text \<open>The result is 0 at once, or the length to return and the number of waits.\<close>

definition spdk_file_read ::
  "nbfs \<Rightarrow> file_ptr \<Rightarrow> chan_ptr \<Rightarrow> nat \<Rightarrow> u64 \<Rightarrow> u64 \<Rightarrow> (nbfs \<times> u64 \<times> nat) option" where
  "spdk_file_read st f c payload off len =
     do { let st = st\<lparr>rw_errno := (rw_errno st)(c := 0)\<rparr>;
          st \<leftarrow> lock_file st f;
          st \<leftarrow> upd_file st f (open_for_writing_update (\<lambda>_. False));
          fl \<leftarrow> get_file st f;
          if len = 0 \<or> off \<ge> append_pos fl then do { st \<leftarrow> unlock_file st f; Some (st, 0, 0) }
          else do {
            let len = (if off + len > append_pos fl then append_pos fl - off else len);
            st \<leftarrow> upd_file st f (\<lambda>fl. fl\<lparr>seq_byte_count := (if off \<noteq> next_seq_offset fl then 0 else seq_byte_count fl) + len,
                    next_seq_offset := off + len\<rparr>);
            fl \<leftarrow> get_file st f;
            st \<leftarrow> (if seq_byte_count fl \<ge> CACHE_READAHEAD_THRESHOLD
                  then do { st \<leftarrow> check_readahead st f off c; check_readahead st f (off + CACHE_BUFFER_SIZE) c }
                  else Some st);
            (st, final_len, sub_reads) \<leftarrow> read_loop st f c payload off (off + len) 0 0;
            st \<leftarrow> unlock_file st f;
            Some (st, final_len, sub_reads) } }"

fun sem_waits :: "nbfs \<Rightarrow> chan_ptr \<Rightarrow> nat \<Rightarrow> nbfs option" where
  "sem_waits st c 0 = Some st"
| "sem_waits st c (Suc n) = do { st \<leftarrow> sem_wait st c; sem_waits st c n }"

definition spdk_file_read_finish :: "nbfs \<Rightarrow> chan_ptr \<Rightarrow> u64 \<Rightarrow> nat \<Rightarrow> (nbfs \<times> int) option" where
  "spdk_file_read_finish st c final_len sub_reads =
     do { st \<leftarrow> sem_waits st c sub_reads;
          Some (st, if rw_errno st c = 0 then sint final_len else rw_errno st c) }"

end
