(* ===== verification/NBFS_System.thy ===== *)
theory NBFS_System
  imports NBFS_RW
begin

text \<open>
  The layer as a whole: the metadata thread that runs the messages sent to it, the cache pool
  thread, the blobstore that completes its calls in any order, and users that start
  operations.  One step runs one handler to its end.
\<close>

section \<open>Dispatch\<close>

fun handle_msg :: "msg \<Rightarrow> nbfs \<Rightarrow> nbfs option" where
  "handle_msg (Msg_file_stat r) st = file_stat_msg st r"
| "handle_msg (Msg_create_file r) st = fs_create_file_msg st r"
| "handle_msg (Msg_open_file r) st = fs_open_file_msg st r"
| "handle_msg (Msg_rename_file r) st = fs_rename_file_msg st r"
| "handle_msg (Msg_delete_file r) st = fs_delete_file_msg st r"
| "handle_msg (Msg_truncate r) st = truncate_msg st r"
| "handle_msg (Msg_file_flush r) st = file_flush st r"
| "handle_msg (Msg_extend_blob r) st = file_extend_blob st r"
| "handle_msg (Msg_rw_from_file r) st = rw_from_file st r"
| "handle_msg (Msg_readahead r) st = readahead st r"
| "handle_msg (Msg_file_close r) st = file_close_msg st r"

text \<open>What the blobstore passes to a completion callback: an error number, with the id of a new
  blob, an open blob, the blocks it read, or the type and cluster size of a store.\<close>

record bs_result =
  res_errno :: int
  res_id :: blob_id
  res_blob :: "blob_ptr option"
  res_data :: "u8 list"
  res_type :: bstype
  res_cluster_sz :: u64

fun complete :: "bs_cb \<Rightarrow> bs_result \<Rightarrow> nbfs \<Rightarrow> nbfs option" where
  "complete (Bs_init r) v st = init_cb st r (res_cluster_sz v) (res_errno v)"
| "complete (Bs_load r) v st = load_cb st r (res_type v) (res_cluster_sz v) (res_errno v)"
| "complete (Bs_unload r) v st = unload_cb st r (res_errno v)"
| "complete (Bs_load_done r) v st = fs_load_done st r (res_errno v)"
| "complete (Bs_create_blob_create r) v st = fs_create_blob_create_cb st r (res_id v) (res_errno v)"
| "complete (Bs_create_blob_open r) v st = fs_create_blob_open_cb st r (res_blob v) (res_errno v)"
| "complete (Bs_create_blob_resize r) v st = fs_create_blob_resize_cb st r (res_errno v)"
| "complete (Bs_create_blob_close r) v st = fs_create_blob_close_cb st r (res_errno v)"
| "complete (Bs_open_blob_done r) v st = fs_open_blob_done st r (res_blob v) (res_errno v)"
| "complete (Bs_rename_blob_open r) v st = fs_rename_blob_open_cb st r (res_blob v) (res_errno v)"
| "complete (Bs_rename_blob_close r) v st = fs_rename_blob_close_cb st r (res_errno v)"
| "complete (Bs_blob_delete r) v st = blob_delete_cb st r (res_errno v)"
| "complete (Bs_truncate_resize r) v st = fs_truncate_resize_cb st r (res_errno v)"
| "complete (Bs_truncate_complete r) v st = fs_truncate_complete_cb st r (res_errno v)"
| "complete (Bs_rw_done r) v st = rw_done st r (res_errno v)"
| "complete (Bs_read_done r) v st = read_done st r (res_data v) (res_errno v)"
| "complete (Bs_finish_sync r) v st = file_cache_finish_sync st r (res_errno v)"
| "complete (Bs_flush_done r) v st = file_flush_done st r (res_errno v)"
| "complete (Bs_extend_resize r) v st = file_extend_resize_cb st r (res_errno v)"
| "complete (Bs_extend_done r) v st = file_extend_done st r (res_errno v)"
| "complete (Bs_readahead_done r) v st = readahead_done st r (res_data v) (res_errno v)"
| "complete (Bs_close_async_done r) v st = file_close_async_done st r (res_errno v)"

text \<open>The effect of a completed call that the layer can observe through the accessors: a
  successful resize sets the number of clusters.\<close>

fun bs_effect :: "bs_call \<Rightarrow> bs_result \<Rightarrow> nbfs \<Rightarrow> nbfs" where
  "bs_effect (BS_resize b n) v st =
     (if res_errno v = 0 then st\<lparr>num_clusters := (num_clusters st)(b := n)\<rparr> else st)"
| "bs_effect _ v st = st"

text \<open>The results the blobstore may give: an open that succeeds gives a blob, a read fills all
  the blocks asked for.\<close>

fun bs_allowed :: "nbfs \<Rightarrow> bs_call \<Rightarrow> bs_result \<Rightarrow> bool" where
  "bs_allowed st (BS_open_blob i) v \<longleftrightarrow> (res_errno v = 0 \<longleftrightarrow> res_blob v \<noteq> None)"
| "bs_allowed st (BS_read b s n) v \<longleftrightarrow> length (res_data v) = unat (n * ucast (io_unit_size st))"
| "bs_allowed st _ v \<longleftrightarrow> True"

section \<open>Users\<close>

text \<open>The calls a user can make: first those on the metadata thread, then the synchronous ones
  of a thread with its own channel, each up to its first wait, then the ends of the
  synchronous ones.\<close>

datatype user_call =
    U_create_async string nat
  | U_open_async string u32 nat
  | U_delete_async string nat
  | U_rename_async string string nat
  | U_stat_async string nat
  | U_truncate_async file_ptr u64 nat
  | U_readv_async file_ptr chan_ptr "iovec list" u32 u64 u64 nat
  | U_writev_async file_ptr chan_ptr "iovec list" u32 u64 u64 nat
  | U_sync_async file_ptr chan_ptr nat
  | U_close_async file_ptr nat
  | U_create chan_ptr string
  | U_open chan_ptr string u32
  | U_delete chan_ptr string
  | U_rename chan_ptr string string
  | U_stat chan_ptr string
  | U_truncate file_ptr chan_ptr u64
  | U_write file_ptr chan_ptr nat u64 u64
  | U_write_extended file_ptr chan_ptr req_ptr nat u64
  | U_write_finish chan_ptr
  | U_read file_ptr chan_ptr nat u64 u64
  | U_read_finish chan_ptr u64 nat
  | U_sync file_ptr chan_ptr
  | U_sync_finish chan_ptr req_ptr
  | U_close file_ptr chan_ptr
  | U_close_synced file_ptr chan_ptr req_ptr req_ptr
  | U_close_finish chan_ptr req_ptr
  | U_finish chan_ptr req_ptr
  | U_set_priority file_ptr u32
  | U_alloc_io_channel
  | U_alloc_thread_ctx bool
  | U_free_thread_ctx chan_ptr
  | U_init "u32 option" nat
  | U_load nat
  | U_unload nat
  | U_set_cache_size u64

fun user_step :: "user_call \<Rightarrow> nbfs \<Rightarrow> nbfs option" where
  "user_step (U_create_async nm u) st = spdk_fs_create_file_async st nm (Cb_user u)"
| "user_step (U_open_async nm fl u) st = spdk_fs_open_file_async st nm fl (Hcb_user u)"
| "user_step (U_delete_async nm u) st = spdk_fs_delete_file_async st nm (Cb_user u)"
| "user_step (U_rename_async a b u) st = spdk_fs_rename_file_async st a b (Cb_user u)"
| "user_step (U_stat_async nm u) st = spdk_fs_file_stat_async st nm (Scb_user u)"
| "user_step (U_truncate_async f len u) st = spdk_file_truncate_async st f len (Cb_user u)"
| "user_step (U_readv_async f c vs n off len u) st = spdk_file_readv_async st f c vs n off len (Cb_user u)"
| "user_step (U_writev_async f c vs n off len u) st = spdk_file_writev_async st f c vs n off len (Cb_user u)"
| "user_step (U_sync_async f c u) st = spdk_file_sync_async st f c (Cb_user u)"
| "user_step (U_close_async f u) st = spdk_file_close_async st f (Cb_user u)"
| "user_step (U_create c nm) st = map_option fst (spdk_fs_create_file st c nm)"
| "user_step (U_open c nm fl) st = map_option fst (spdk_fs_open_file st c nm fl)"
| "user_step (U_delete c nm) st = map_option fst (spdk_fs_delete_file st c nm)"
| "user_step (U_rename c a b) st = map_option fst (spdk_fs_rename_file st c a b)"
| "user_step (U_stat c nm) st = map_option fst (spdk_fs_file_stat st c nm)"
| "user_step (U_truncate f c len) st = map_option fst (spdk_file_truncate st f c len)"
| "user_step (U_write f c p off len) st = map_option fst (spdk_file_write st f c p off len)"
| "user_step (U_write_extended f c r p len) st = map_option fst (spdk_file_write_extended st f c r p len)"
| "user_step (U_write_finish c) st = map_option fst (spdk_file_write_rw_finish st c)"
| "user_step (U_read f c p off len) st = map_option fst (spdk_file_read st f c p off len)"
| "user_step (U_read_finish c len n) st = map_option fst (spdk_file_read_finish st c len n)"
| "user_step (U_sync f c) st = map_option fst (spdk_file_sync st f c)"
| "user_step (U_sync_finish c r) st = map_option fst (spdk_file_sync_finish st c r)"
| "user_step (U_close f c) st = map_option fst (spdk_file_close st f c)"
| "user_step (U_close_synced f c r s) st = spdk_file_close_synced st f c r s"
| "user_step (U_close_finish c r) st = map_option fst (spdk_file_close_finish st c r)"
| "user_step (U_finish c r) st = map_option fst (finish_wait st c r)"
| "user_step (U_set_priority f p) st = spdk_file_set_priority st f p"
| "user_step U_alloc_io_channel st = map_option fst (spdk_fs_alloc_io_channel st)"
| "user_step (U_alloc_thread_ctx ok) st = map_option fst (spdk_fs_alloc_thread_ctx st ok)"
| "user_step (U_free_thread_ctx c) st = spdk_fs_free_thread_ctx st c"
| "user_step (U_init opt u) st = spdk_fs_init st opt u"
| "user_step (U_load u) st = spdk_fs_load st u"
| "user_step (U_unload u) st = spdk_fs_unload st u"
| "user_step (U_set_cache_size mb) st = Some (fst (spdk_fs_set_cache_size st mb))"

section \<open>Steps\<close>

inductive nbfs_step :: "nbfs \<Rightarrow> nbfs \<Rightarrow> bool" where
  step_msg: "msgs st = m # ms \<Longrightarrow> handle_msg m (st\<lparr>msgs := ms\<rparr>) = Some st' \<Longrightarrow> nbfs_step st st'"
| step_pool: "pool_msgs st = m # ms \<Longrightarrow> handle_pool_msg m (st\<lparr>pool_msgs := ms\<rparr>) = Some st' \<Longrightarrow> nbfs_step st st'"
| step_poller: "poller st \<Longrightarrow> blobfs_cache_pool_reclaim st = Some st' \<Longrightarrow> nbfs_step st st'"
| step_complete: "pending st = xs @ (call, cb) # ys \<Longrightarrow> bs_allowed st call v \<Longrightarrow>
    complete cb v (bs_effect call v (st\<lparr>pending := xs @ ys\<rparr>)) = Some st' \<Longrightarrow> nbfs_step st st'"
| step_load_blob: "(BS_load, Bs_load r) \<in> set (pending st) \<Longrightarrow> iter_cb st r info res = Some st' \<Longrightarrow> nbfs_step st st'"
| step_user: "user_step u st = Some st' \<Longrightarrow> nbfs_step st st'"

inductive_cases nbfs_step_cases: "nbfs_step st st'"

abbreviation nbfs_steps :: "nbfs \<Rightarrow> nbfs \<Rightarrow> bool" where
  "nbfs_steps \<equiv> nbfs_step\<^sup>*\<^sup>*"

text \<open>The state before the first file system is mounted.\<close>

definition booted :: "nbfs \<Rightarrow> bool" where
  "booted st \<longleftrightarrow> file_heap st = Map.empty \<and> buffers st = Map.empty \<and> channels st = Map.empty \<and>
     requests st = Map.empty \<and> pending st = [] \<and> msgs st = [] \<and> pool_msgs st = []"

definition reachable :: "nbfs \<Rightarrow> bool" where
  "reachable st \<longleftrightarrow> (\<exists>s0. booted s0 \<and> nbfs_steps s0 st)"

lemma reachable_step: "reachable st \<Longrightarrow> nbfs_step st st' \<Longrightarrow> reachable st'"
  unfolding reachable_def by (meson rtranclp.rtrancl_into_rtrancl)

end
