(* ===== verification/NBFS_Invariant.thy ===== *)
theory NBFS_Invariant
  imports NBFS_System
begin

text \<open>
  Invariants of the whole layer.  The locale \<open>nbfs_invariant\<close> collects what an invariant must
  be closed under: the primitive actions the handlers are made of.  Inside it every handler is
  shown to keep the invariant, so that one interpretation gives the invariant for all
  reachable states.  The index \<open>X\<close> of an invariant is the set of files whose lock the running
  handler holds.

  \<open>yields P m\<close> says that the state a computation returns, if it returns, satisfies \<open>P\<close>.  The
  rules for \<open>yields\<close> follow the structure of the handlers, so that one backward chaining
  proves each of them.
\<close>

section \<open>Postconditions\<close>

definition yields :: "(nbfs \<Rightarrow> bool) \<Rightarrow> nbfs option \<Rightarrow> bool" where
  "yields P m \<longleftrightarrow> (\<forall>s. m = Some s \<longrightarrow> P s)"

definition yields_with :: "(nbfs \<Rightarrow> bool) \<Rightarrow> (nbfs \<times> 'a) option \<Rightarrow> bool" where
  "yields_with P m \<longleftrightarrow> (\<forall>s x. m = Some (s, x) \<longrightarrow> P s)"

named_theorems keeps \<open>structural rules for postconditions, and operations that keep an invariant\<close>

lemma yields_leaf [keeps]:
  "P s \<Longrightarrow> yields P (Some s)" "yields P None" "P s \<Longrightarrow> yields_with P (Some (s, x))" "yields_with P None"
  by (auto simp: yields_def yields_with_def)

lemma yields_split [keeps]:
  "(b \<Longrightarrow> yields P m) \<Longrightarrow> (\<not> b \<Longrightarrow> yields P n) \<Longrightarrow> yields P (if b then m else n)"
  "yields P n \<Longrightarrow> (\<And>x. yields P (k x)) \<Longrightarrow> yields P (case c of None \<Rightarrow> n | Some x \<Rightarrow> k x)"
  "yields P (l a) \<Longrightarrow> yields P (Let a l)"
  "(b \<Longrightarrow> yields_with P m') \<Longrightarrow> (\<not> b \<Longrightarrow> yields_with P n') \<Longrightarrow> yields_with P (if b then m' else n')"
  "yields_with P n' \<Longrightarrow> (\<And>x. yields_with P (k' x)) \<Longrightarrow> yields_with P (case c of None \<Rightarrow> n' | Some x \<Rightarrow> k' x)"
  "yields_with P (l' a) \<Longrightarrow> yields_with P (Let a l')"
  by (auto split: option.splits)

lemma yields_list [keeps]:
  "yields P n \<Longrightarrow> (\<And>y ys. yields P (k y ys)) \<Longrightarrow> yields P (case xs of [] \<Rightarrow> n | y # ys \<Rightarrow> k y ys)"
  "yields_with P n' \<Longrightarrow> (\<And>y ys. yields_with P (k' y ys)) \<Longrightarrow> yields_with P (case xs of [] \<Rightarrow> n' | y # ys \<Rightarrow> k' y ys)"
  by (auto split: list.splits)

lemma yields_bind:
  "yields Q ms \<Longrightarrow> (\<And>s. Q s \<Longrightarrow> yields P (k s)) \<Longrightarrow> yields P (ms \<bind> k)"
  "yields Q ms \<Longrightarrow> (\<And>s. Q s \<Longrightarrow> yields_with P (k' s)) \<Longrightarrow> yields_with P (ms \<bind> k')"
  "yields_with Q mp \<Longrightarrow> (\<And>s x. Q s \<Longrightarrow> yields P (j s x)) \<Longrightarrow> yields P (mp \<bind> case_prod j)"
  "yields_with Q mp \<Longrightarrow> (\<And>s x. Q s \<Longrightarrow> yields_with P (j' s x)) \<Longrightarrow> yields_with P (mp \<bind> case_prod j')"
  by (fastforce simp: yields_def yields_with_def bind_Some_iff)+

lemma yields_pair:
  "Q (snd pa) \<Longrightarrow> (\<And>x s. Q s \<Longrightarrow> yields P (g x s)) \<Longrightarrow> yields P (case pa of (x, s) \<Rightarrow> g x s)"
  "Q (snd pa) \<Longrightarrow> (\<And>x s. Q s \<Longrightarrow> yields_with P (g' x s)) \<Longrightarrow> yields_with P (case pa of (x, s) \<Rightarrow> g' x s)"
  "Q (fst pb) \<Longrightarrow> (\<And>s x. Q s \<Longrightarrow> yields P (j s x)) \<Longrightarrow> yields P (case pb of (s, x) \<Rightarrow> j s x)"
  "Q (fst pb) \<Longrightarrow> (\<And>s x. Q s \<Longrightarrow> yields_with P (j' s x)) \<Longrightarrow> yields_with P (case pb of (s, x) \<Rightarrow> j' s x)"
  by (auto split: prod.splits)

lemma yields_map_fst [keeps]: "yields_with P mp \<Longrightarrow> yields P (map_option fst mp)"
  by (auto simp: yields_def yields_with_def)

lemma yields_op_args [keeps]:
  "yields P a1 \<Longrightarrow> (\<And>x. yields P (a2 x)) \<Longrightarrow> (\<And>x. yields P (a3 x)) \<Longrightarrow> (\<And>x. yields P (a4 x)) \<Longrightarrow>
   (\<And>x y. yields P (a5 x y)) \<Longrightarrow> (\<And>x y. yields P (a6 x y)) \<Longrightarrow> (\<And>x y z. yields P (a7 x y z)) \<Longrightarrow>
   (\<And>x y z. yields P (a8 x y z)) \<Longrightarrow> (\<And>x. yields P (a9 x)) \<Longrightarrow> (\<And>x y. yields P (a10 x y)) \<Longrightarrow>
   (\<And>x y. yields P (a11 x y)) \<Longrightarrow> (\<And>x. yields P (a12 x)) \<Longrightarrow> (\<And>x. yields P (a13 x)) \<Longrightarrow>
   yields P (case_op_args a1 a2 a3 a4 a5 a6 a7 a8 a9 a10 a11 a12 a13 v)"
  by (cases v) auto

lemma yields_cb_fn [keeps]:
  "yields P a1 \<Longrightarrow> (\<And>x. yields P (a2 x)) \<Longrightarrow> (\<And>x. yields P (a3 x)) \<Longrightarrow> (\<And>x. yields P (a4 x)) \<Longrightarrow>
   (\<And>x. yields P (a5 x)) \<Longrightarrow> yields P (case_cb_fn a1 a2 a3 a4 a5 v)"
  by (cases v) auto

text \<open>For a value that is not a state; tried after the rules above.\<close>

lemma yields_any:
  "(\<And>x. yields P (k x)) \<Longrightarrow> yields P (m \<bind> k)"
  "(\<And>x. yields_with P (k' x)) \<Longrightarrow> yields_with P (m \<bind> k')"
  "(\<And>x y. yields P (g x y)) \<Longrightarrow> yields P (case p of (x, y) \<Rightarrow> g x y)"
  "(\<And>x y. yields_with P (g' x y)) \<Longrightarrow> yields_with P (case p of (x, y) \<Rightarrow> g' x y)"
  by (auto simp: yields_def yields_with_def bind_Some_iff split: prod.splits)

lemma yieldsD: "yields P m \<Longrightarrow> m = Some s \<Longrightarrow> P s" "yields_with P mp \<Longrightarrow> mp = Some (s, x) \<Longrightarrow> P s"
  by (auto simp: yields_def yields_with_def)

lemma zero_request_channel [simp]: "channel zero_request = None"
  by (simp add: zero_request_def)

section \<open>Invariants\<close>

locale nbfs_invariant =
  fixes I :: "file_ptr set \<Rightarrow> nbfs \<Rightarrow> bool"
  assumes fields:
    "I X (st\<lparr>pending := a1\<rparr>) = I X st" "I X (st\<lparr>msgs := a2\<rparr>) = I X st" "I X (st\<lparr>pool_msgs := a3\<rparr>) = I X st"
    "I X (st\<lparr>replies := a4\<rparr>) = I X st" "I X (st\<lparr>xattrs := a5\<rparr>) = I X st" "I X (st\<lparr>rw_errno := a6\<rparr>) = I X st"
    "I X (st\<lparr>memory := a7\<rparr>) = I X st" "I X (st\<lparr>g_caches := a8\<rparr>) = I X st" "I X (st\<lparr>pool_count := a9\<rparr>) = I X st"
    "I X (st\<lparr>poller := b1\<rparr>) = I X st" "I X (st\<lparr>g_fs_count := b2\<rparr>) = I X st" "I X (st\<lparr>alloc_fail := b3\<rparr>) = I X st"
    "I X (st\<lparr>poller_runs := b4\<rparr>) = I X st" "I X (st\<lparr>mounted := b5\<rparr>) = I X st" "I X (st\<lparr>cluster_sz := b6\<rparr>) = I X st"
    "I X (st\<lparr>num_clusters := b7\<rparr>) = I X st" "I X (st\<lparr>md_fs_channel := b8\<rparr>) = I X st"
    "I X (st\<lparr>sync_fs_channel := b9\<rparr>) = I X st" "I X (st\<lparr>bt_heap := c1\<rparr>) = I X st" "I X (st\<lparr>files := c2\<rparr>) = I X st"
    "I X (st\<lparr>g_fs_cache_size := c3\<rparr>) = I X st"
  and upd_file_keeps [keeps]: "I X st \<Longrightarrow> (\<And>fl. lock (g fl) = lock fl) \<Longrightarrow> yields (I X) (upd_file st f g)"
  and lock_file_keeps [keeps]: "I X st \<Longrightarrow> yields (I (insert f X)) (lock_file st f)"
  and unlock_file_keeps [keeps]: "I (insert f X) st \<Longrightarrow> yields (I X) (unlock_file st f)"
  and weaken: "I X st \<Longrightarrow> I (insert f X) st"
  and new_file_keeps [keeps]: "I X st \<Longrightarrow> \<not> lock fl \<Longrightarrow>
    I X (st\<lparr>file_heap := (file_heap st)(fresh_file st \<mapsto> fl), fresh_file := fresh_file st + 1\<rparr>)"
  and destroy_file_keeps [keeps]: "I X st \<Longrightarrow> yields (I X) (destroy_file st f)"
  and upd_req_keeps [keeps]: "I X st \<Longrightarrow> (\<And>rq. channel (h rq) = channel rq) \<Longrightarrow> yields (I X) (upd_req st r h)"
  and new_heap_request_keeps [keeps]: "I X st \<Longrightarrow> channel rq = None \<Longrightarrow> I X (fst (new_heap_request st rq))"
  and drop_request_keeps [keeps]: "I X st \<Longrightarrow> I X (st\<lparr>requests := (requests st)(r := None)\<rparr>)"
  and alloc_fs_request_with_iov_keeps [keeps]: "I X st \<Longrightarrow> yields_with (I X) (alloc_fs_request_with_iov st c n)"
  and free_fs_request_keeps [keeps]: "I X st \<Longrightarrow> yields (I X) (free_fs_request st r)"
  and channel_keeps [keeps]:
    "I X st \<Longrightarrow> (\<And>ch. reqs (hc ch) = reqs ch) \<Longrightarrow> (\<And>ch. outstanding_reqs (hc ch) = outstanding_reqs ch) \<Longrightarrow>
     yields (I X) (upd_channel st c hc)"
  and new_channel_keeps [keeps]:
    "I X st \<Longrightarrow> yields_with (I X) (get_io_channel st fs_md_channel_create)"
    "I X st \<Longrightarrow> yields_with (I X) (get_io_channel st fs_sync_channel_create)"
    "I X st \<Longrightarrow> yields_with (I X) (get_io_channel st fs_io_channel_create)"
    "I X st \<Longrightarrow> yields_with (I X) (spdk_fs_alloc_thread_ctx st ok)"
  and fs_channel_destroy_keeps [keeps]: "I X st \<Longrightarrow> yields (I X) (fs_channel_destroy st c)"
  and upd_buffer_keeps [keeps]: "I X st \<Longrightarrow> yields (I X) (upd_buffer st b k)"
  and drop_buffer_keeps [keeps]: "I X st \<Longrightarrow> dom bm \<subseteq> dom (buffers st) \<Longrightarrow> I X (st\<lparr>buffers := bm\<rparr>)"
  and new_buffer_keeps [keeps]: "I X st \<Longrightarrow>
    I X (st\<lparr>buffers := (buffers st)(fresh_buf st \<mapsto> cb), fresh_buf := fresh_buf st + 1\<rparr>)"
begin

lemmas sequence_keeps [keeps] = yields_bind [where Q = "I Y" for Y] yields_pair [where Q = "I Y" for Y]

lemmas fields_keep [keeps] = fields [THEN iffD2]

lemma queues_keep [keeps]:
  "I X st \<Longrightarrow> I X (bs_submit call cb st)" "I X st \<Longrightarrow> I X (send_request m st)"
  "I X st \<Longrightarrow> I X (send_pool_msg pm st)" "I X st \<Longrightarrow> I X (set_xattr bl x st)" "I X st \<Longrightarrow> I X (reply rep st)"
  by (simp_all add: bs_submit_def send_request_def send_pool_msg_def set_xattr_def reply_def fields)

lemma state_split [keeps]:
  "(b \<Longrightarrow> I X s) \<Longrightarrow> (\<not> b \<Longrightarrow> I X t) \<Longrightarrow> I X (if b then s else t)"
  "I X s \<Longrightarrow> (\<And>x. I X (g x)) \<Longrightarrow> I X (case c of None \<Rightarrow> s | Some x \<Rightarrow> g x)"
  "(b \<Longrightarrow> I X (snd p)) \<Longrightarrow> (\<not> b \<Longrightarrow> I X (snd q)) \<Longrightarrow> I X (snd (if b then p else q))"
  "I X s \<Longrightarrow> I X (snd (y, s))" "I X (l a) \<Longrightarrow> I X (Let a l)"
  by (auto split: option.splits)

lemma try_alloc_keeps [keeps]: "I X st \<Longrightarrow> I X (snd (try_alloc st))"
  by (auto simp: try_alloc_def fields split: list.splits)

lemma basic_keeps [keeps]:
  "I X st \<Longrightarrow> yields_with (I X) (alloc_fs_request st c)"
  "I X st \<Longrightarrow> yields (I X) (sem_post st c)"
  "I X st \<Longrightarrow> yields (I X) (sem_wait st c)"
  by (unfold alloc_fs_request_def sem_post_def sem_wait_def) (rule keeps | rule yields_any | assumption | simp)+

lemma wake_caller_keeps [keeps]: "I X st \<Longrightarrow> yields (I X) (wake_caller st r e)"
  by (unfold wake_caller_def) (rule keeps | rule yields_any | assumption | simp)+

text \<open>Callbacks and channels.\<close>

lemma done_keeps [keeps]:
  "I X st \<Longrightarrow> yields (I X) (fs_create_file_done st r e)"
  "I X st \<Longrightarrow> yields (I X) (fs_rename_file_done st r e)"
  "I X st \<Longrightarrow> yields (I X) (fs_delete_file_done st r e)"
  "I X st \<Longrightarrow> yields (I X) (rw_from_file_done st r e)"
  "I X st \<Longrightarrow> yields (I X) (fs_open_file_done st r f e)"
  "I X st \<Longrightarrow> yields_with (I X) (finish_wait st c r)"
  "I X st \<Longrightarrow> yields (I X) (spdk_fs_free_io_channel st c)"
  "I X st \<Longrightarrow> yields (I X) (fs_io_device_unregister st)"
  "I X st \<Longrightarrow> yields_with (I X) (spdk_fs_alloc_io_channel st)"
  "I X st \<Longrightarrow> yields (I X) (spdk_fs_free_thread_ctx st c)"
  "I X st \<Longrightarrow> yields (I X) (copy_stat st r s e)"
  by (unfold fs_create_file_done_def fs_rename_file_done_def fs_delete_file_done_def rw_from_file_done_def fs_open_file_done_def finish_wait_def spdk_fs_free_io_channel_def fs_io_device_unregister_def spdk_fs_alloc_io_channel_def spdk_fs_free_thread_ctx_def copy_stat_def)
     (rule keeps | rule yields_any | assumption | simp)+

lemma call_leaf_keeps [keeps]: "I X st \<Longrightarrow> yields (I X) (call_leaf cb e st)"
  by (cases cb) (rule keeps | rule yields_any | assumption | simp)+

lemma call_handle_keeps [keeps]: "I X st \<Longrightarrow> yields (I X) (call_handle hcb f e st)"
  by (cases hcb) (rule keeps | rule yields_any | assumption | simp)+

lemma call_stat_keeps [keeps]: "I X st \<Longrightarrow> yields (I X) (call_stat scb s e st)"
  by (cases scb) (rule keeps | rule yields_any | assumption | simp)+

text \<open>The cache pool.\<close>

lemma buffer_keeps [keeps]:
  "I X st \<Longrightarrow> yields (I X) (fs_free_io_channels st)"
  "I X st \<Longrightarrow> yields (I X) (cache_buffer_free st b)"
  "I X st \<Longrightarrow> yields (I X) (g_caches_remove st f)"
  "I X st \<Longrightarrow> yields (I X) (add_file_to_cache_pool st f)"
  "I X st \<Longrightarrow> yields (I X) (start_cache_pool_mgmt st b1)"
  "I X st \<Longrightarrow> yields (I X) (stop_cache_pool_mgmt st)"
  by (unfold fs_free_io_channels_def cache_buffer_free_def g_caches_remove_def add_file_to_cache_pool_def start_cache_pool_mgmt_def stop_cache_pool_mgmt_def)
     (rule keeps | rule yields_any | assumption | simp)+

lemma cache_buffers_free_keeps [keeps]: "I X st \<Longrightarrow> yields (I X) (cache_buffers_free st bs)"
  by (induction bs arbitrary: st) (rule keeps | rule yields_any | assumption | simp)+

lemma global_cache_keeps [keeps]:
  "I X st \<Longrightarrow> I X (initialize_global_cache st)" "I X st \<Longrightarrow> I X (free_global_cache st)"
  by (unfold initialize_global_cache_def free_global_cache_def) (rule keeps | rule yields_any | assumption | simp)+

lemma tree_free_keeps [keeps]:
  "I X st \<Longrightarrow> yields (I X) (file_tree_free_buffers st f)"
  "I X st \<Longrightarrow> yields (I X) (file_tree_remove_buffer st f b)"
  "I X st \<Longrightarrow> yields (I X) (remove_file_from_cache_pool st f)"
  "I X st \<Longrightarrow> yields (I X) (file_free_msg st f)"
  by (unfold file_tree_free_buffers_def file_tree_remove_buffer_def remove_file_from_cache_pool_def file_free_msg_def)
     (rule keeps | rule yields_any | assumption | simp)+

lemma reclaim_keeps [keeps]:
  "I X st \<Longrightarrow> yields_with (I X) (reclaim_cache_buffers st f)"
  "I X st \<Longrightarrow> yields (I X) (file_free st f)"
  by (unfold reclaim_cache_buffers_def file_free_def)
     (rule keeps | rule yields_any | assumption | simp)+

lemma reclaim_pass_keeps [keeps]: "I X st \<Longrightarrow> yields_with (I X) (reclaim_pass P st fs)"
  by (induction fs arbitrary: st) (rule keeps | rule yields_any | assumption | simp)+

lemma free_files_keeps [keeps]: "I X st \<Longrightarrow> yields (I X) (free_files st fs)"
  by (induction fs arbitrary: st) (rule keeps | rule yields_any | assumption | simp)+

lemma pool_reclaim_keeps [keeps]:
  "I X st \<Longrightarrow> yields (I X) (blobfs_cache_pool_reclaim st)"
  by (unfold blobfs_cache_pool_reclaim_def)
     (rule keeps | rule yields_any | assumption | simp)+

lemma pool_sleep_keeps [keeps]:
  "I X st \<Longrightarrow> yields (I X) (pool_sleep st)"
  by (unfold pool_sleep_def)
     (rule keeps | rule yields_any | assumption | simp)+

lemma mempool_get_loop_keeps [keeps]: "I X st \<Longrightarrow> yields_with (I X) (mempool_get_loop n st)"
proof (induction n st rule: mempool_get_loop.induct)
  case (1 n st)
  have "\<And>st1. pool_sleep st = Some st1 \<Longrightarrow> I X st1"
    using pool_sleep_keeps [OF 1(2)] by (rule yieldsD)
  then show ?case
    using 1 by (subst mempool_get_loop.simps) (auto split: option.split nat.split intro: keeps)
qed

lemma cache_insert_keeps [keeps]:
  "I X st \<Longrightarrow> yields_with (I X) (cache_insert_buffer st f off)"
  by (unfold cache_insert_buffer_def)
     (rule keeps | rule yields_any | assumption | simp)+

lemma cache_append_keeps [keeps]:
  "I X st \<Longrightarrow> yields_with (I X) (cache_append_buffer st f)"
  by (unfold cache_append_buffer_def)
     (rule keeps | rule yields_any | assumption | simp)+

lemma handle_pool_msg_keeps [keeps]: "I X st \<Longrightarrow> yields (I X) (handle_pool_msg m st)"
  by (cases m) (rule keeps | rule yields_any | assumption | simp)+

text \<open>Mounting and the operations on names.\<close>

lemma mount_keeps [keeps]:
  "I X st \<Longrightarrow> yields (I X) (common_fs_bs_init st csz)"
  "I X st \<Longrightarrow> yields_with (I X) (fs_alloc st)"
  "I X st \<Longrightarrow> yields (I X) (files_insert st nm f)"
  "I X st \<Longrightarrow> yields (I X) (files_remove st nm)"
  "I X st \<Longrightarrow> yields_with (I X) (handle_deleted_files st r)"
  "I X st \<Longrightarrow> yields (I X) (file_build_trace_arg_name st f)"
  "I X st \<Longrightarrow> yields (I X) (iter_fail st r e)"
  "I X st \<Longrightarrow> yields (I X) (load_fail st r e)"
  "I X st \<Longrightarrow> yields (I X) (unload_cb st r e)"
  "I X st \<Longrightarrow> yields (I X) (spdk_fs_unload st u)"
  by (unfold common_fs_bs_init_def fs_alloc_def files_insert_def files_remove_def handle_deleted_files_def file_build_trace_arg_name_def iter_fail_def load_fail_def unload_cb_def spdk_fs_unload_def)
     (rule keeps | rule yields_any | assumption | simp)+

lemma file_alloc_keeps [keeps]: "I X st \<Longrightarrow> yields_with (I X) (file_alloc st nm)"
  by (unfold file_alloc_def) (rule keeps | rule yields_any | assumption | simp add: zero_file_def)+

lemma load_keeps [keeps]:
  "I X st \<Longrightarrow> yields (I X) (init_cb st r csz e)"
  "I X st \<Longrightarrow> yields (I X) (spdk_fs_init st opt u)"
  "I X st \<Longrightarrow> yields (I X) (fs_load_done st r e)"
  "I X st \<Longrightarrow> yields (I X) (iter_cb st r info e)"
  "I X st \<Longrightarrow> yields (I X) (spdk_fs_load st u)"
  by (unfold init_cb_def spdk_fs_init_def fs_load_done_def iter_cb_def spdk_fs_load_def)
     (rule keeps | rule yields_any | assumption | simp)+

lemma load_cb_keeps [keeps]:
  "I X st \<Longrightarrow> yields (I X) (load_cb st r ty csz e)"
  "I X st \<Longrightarrow> yields (I X) (spdk_fs_file_stat_async st nm scb)"
  "I X st \<Longrightarrow> yields_with (I X) (spdk_fs_file_stat st c nm)"
  "I X st \<Longrightarrow> yields (I X) (spdk_file_set_priority st f pr)"
  by (unfold load_cb_def spdk_fs_file_stat_async_def spdk_fs_file_stat_def spdk_file_set_priority_def)
     (rule keeps | rule yields_any | assumption | simp)+

lemma file_stat_msg_keeps [keeps]: "I X st \<Longrightarrow> yields (I X) (file_stat_msg st r)"
  by (unfold file_stat_msg_def) (rule keeps | rule yields_any | assumption | simp)+

lemma serve_opens_keeps [keeps]: "I X st \<Longrightarrow> yields (I X) (serve_opens st f e rs)"
  by (induction rs arbitrary: st) (rule keeps | rule yields_any | assumption | simp)+

lemma open_done_keeps [keeps]:
  "I X st \<Longrightarrow> yields (I X) (fs_open_blob_done st r bp e)"
  "I X st \<Longrightarrow> yields (I X) (fs_rename_blob_close_cb st r e)"
  "I X st \<Longrightarrow> yields (I X) (fs_rename_blob_open_cb st r bp e)"
  "I X st \<Longrightarrow> yields (I X) (fs_md_rename_file st r)"
  "I X st \<Longrightarrow> yields (I X) (rw_done st r e)"
  by (unfold fs_open_blob_done_def fs_rename_blob_close_cb_def fs_rename_blob_open_cb_def fs_md_rename_file_def rw_done_def)
     (rule keeps | rule yields_any | assumption | simp)+

lemma open_create_keeps [keeps]:
  "I X st \<Longrightarrow> yields (I X) (fs_open_blob_create_cb st r e)"
  "I X st \<Longrightarrow> yields (I X) (fs_rename_delete_done st r e)"
  "I X st \<Longrightarrow> yields (I X) (do_blob_read st r e)"
  by (unfold fs_open_blob_create_cb_def fs_rename_delete_done_def do_blob_read_def)
     (rule keeps | rule yields_any | assumption | simp)+

lemma blob_delete_with_keeps:
  assumes "\<And>cb e s. I X s \<Longrightarrow> yields (I X) (call cb e s)"
  shows "I X st \<Longrightarrow> yields (I X) (blob_delete_with call st r e)"
  by (unfold blob_delete_with_def) (rule keeps | rule yields_any assms | assumption)+

lemmas blob_delete_leaf_keeps [keeps] = blob_delete_with_keeps [OF call_leaf_keeps]

lemma call_op_keeps [keeps]: "I X st \<Longrightarrow> yields (I X) (call_op cb e st)"
  by (cases cb) (rule keeps | rule yields_any | assumption | simp)+

lemmas blob_delete_op_keeps [keeps] = blob_delete_with_keeps [OF call_op_keeps]

lemma create_keeps [keeps]:
  "I X st \<Longrightarrow> yields (I X) (blob_delete_cb st r e)"
  "I X st \<Longrightarrow> yields (I X) (fs_create_blob_close_cb st r e)"
  "I X st \<Longrightarrow> yields (I X) (fs_create_blob_resize_cb st r e)"
  "I X st \<Longrightarrow> yields (I X) (fs_create_blob_open_cb st r bp e)"
  "I X st \<Longrightarrow> yields (I X) (fs_create_blob_create_cb st r i e)"
  "I X st \<Longrightarrow> yields (I X) (spdk_fs_create_file_async st nm cb)"
  "I X st \<Longrightarrow> yields_with (I X) (spdk_fs_create_file st c nm)"
  "I X st \<Longrightarrow> yields_with (I X) (spdk_fs_open_file st c nm w)"
  "I X st \<Longrightarrow> yields (I X) (spdk_fs_delete_file_async st nm cb)"
  "I X st \<Longrightarrow> yields_with (I X) (spdk_fs_delete_file st c nm)"
  "I X st \<Longrightarrow> yields_with (I X) (spdk_fs_rename_file st c nm nm2)"
  by (unfold blob_delete_cb_def fs_create_blob_close_cb_def fs_create_blob_resize_cb_def fs_create_blob_open_cb_def fs_create_blob_create_cb_def spdk_fs_create_file_async_def spdk_fs_create_file_def spdk_fs_open_file_def spdk_fs_delete_file_async_def spdk_fs_delete_file_def spdk_fs_rename_file_def)
     (rule keeps | rule yields_any | assumption | simp)+

lemma name_entry_keeps [keeps]:
  "I X st \<Longrightarrow> yields (I X) (fs_create_file_msg st r)"
  "I X st \<Longrightarrow> yields (I X) (spdk_fs_open_file_async st nm w hcb)"
  "I X st \<Longrightarrow> yields (I X) (fs_delete_file_msg st r)"
  "I X st \<Longrightarrow> yields (I X) (spdk_fs_rename_file_async st nm nm2 cb)"
  by (unfold fs_create_file_msg_def spdk_fs_open_file_async_def fs_delete_file_msg_def spdk_fs_rename_file_async_def)
     (rule keeps | rule yields_any | assumption | simp)+

lemma name_msg_keeps [keeps]:
  "I X st \<Longrightarrow> yields (I X) (fs_open_file_msg st r)"
  "I X st \<Longrightarrow> yields (I X) (fs_rename_file_msg st r)"
  by (unfold fs_open_file_msg_def fs_rename_file_msg_def)
     (rule keeps | rule yields_any | assumption | simp)+

text \<open>Truncation and block I/O.\<close>

lemma truncate_keeps [keeps]:
  "I X st \<Longrightarrow> yields (I X) (fs_truncate_complete_cb st r e)"
  "I X st \<Longrightarrow> yields (I X) (fs_truncate_resize_cb st r e)"
  "I X st \<Longrightarrow> yields (I X) (spdk_file_truncate_async st f len cb)"
  by (unfold fs_truncate_complete_cb_def fs_truncate_resize_cb_def spdk_file_truncate_async_def)
     (rule keeps | rule yields_any | assumption | simp)+

lemma truncate_msg_keeps [keeps]:
  "I X st \<Longrightarrow> yields (I X) (truncate_msg st r)"
  by (unfold truncate_msg_def)
     (rule keeps | rule yields_any | assumption | simp)+

lemma channel_send_keeps [keeps]:
  assumes "I X st" and "\<And>s. I X s \<Longrightarrow> yields (I X) (run s)"
  shows "yields (I X) (channel_send st c m run)"
  using assms(1) by (unfold channel_send_def) (rule keeps | rule yields_any assms(2) | assumption)+

lemma block_keeps [keeps]:
  "I X st \<Longrightarrow> yields_with (I X) (spdk_file_truncate st f c len)"
  "I X st \<Longrightarrow> yields (I X) (read_done st r data e)"
  "I X st \<Longrightarrow> yields (I X) (readvwritev st f c vs cnt off len cb rd)"
  by (unfold spdk_file_truncate_def read_done_def readvwritev_def)
     (rule keeps | rule yields_any | assumption | simp)+

lemma readwrite_keeps [keeps]:
  "I X st \<Longrightarrow> yields (I X) (readwrite st f c pl off len cb rd)"
  by (unfold readwrite_def)
     (rule keeps | rule yields_any | assumption | simp)+

lemma rw_async_keeps [keeps]:
  "I X st \<Longrightarrow> yields (I X) (spdk_file_write_async st f c pl off len cb)"
  "I X st \<Longrightarrow> yields (I X) (spdk_file_writev_async st f c vs cnt off len cb)"
  "I X st \<Longrightarrow> yields (I X) (spdk_file_read_async st f c pl off len cb)"
  "I X st \<Longrightarrow> yields (I X) (spdk_file_readv_async st f c vs cnt off len cb)"
  by (unfold spdk_file_write_async_def spdk_file_writev_async_def spdk_file_read_async_def spdk_file_readv_async_def)
     (rule keeps | rule yields_any | assumption | simp)+

text \<open>Flushing, syncing and closing.\<close>

lemma close_done_keeps [keeps]:
  "I X st \<Longrightarrow> yields (I X) (file_close_async_done st r e)"
  by (unfold file_close_async_done_def)
     (rule keeps | rule yields_any | assumption | simp)+

lemma close_keeps [keeps]:
  "I X st \<Longrightarrow> yields (I X) (file_close_async st f r)"
  by (unfold file_close_async_def)
     (rule keeps | rule yields_any | assumption | simp)+

lemma close_msg_keeps [keeps]:
  "I X st \<Longrightarrow> yields (I X) (file_close_async_sync_done st r e)"
  "I X st \<Longrightarrow> yields (I X) (file_close_msg st r)"
  "I X st \<Longrightarrow> yields (I X) (check_sync_reqs st f)"
  "I X st \<Longrightarrow> yields (I X) (file_extend_done st r e)"
  "I X st \<Longrightarrow> yields (I X) (file_extend_resize_cb st r e)"
  "I X st \<Longrightarrow> yields (I X) (file_extend_blob st r)"
  "I X st \<Longrightarrow> yields_with (I X) (spdk_file_sync_finish st c r)"
  "I X st \<Longrightarrow> yields_with (I X) (spdk_file_close_finish st c r)"
  by (unfold file_close_async_sync_done_def file_close_msg_def check_sync_reqs_def file_extend_done_def file_extend_resize_cb_def file_extend_blob_def spdk_file_sync_finish_def spdk_file_close_finish_def)
     (rule keeps | rule yields_any | assumption | simp)+

lemma call_sync_keeps [keeps]: "I X st \<Longrightarrow> yields (I X) (call_sync cb e st)"
  by (cases cb) (rule keeps | rule yields_any | assumption | simp)+

lemma flush_keeps [keeps]:
  "I X st \<Longrightarrow> yields (I X) (file_cache_finish_sync st r e)"
  "I X st \<Longrightarrow> yields (I X) (file_flush st r)"
  by (unfold file_cache_finish_sync_def file_flush_def)
     (rule keeps | rule yields_any | assumption | simp)+

lemma sync_keeps [keeps]:
  "I X st \<Longrightarrow> yields (I X) (file_flush_done st r e)"
  "I X st \<Longrightarrow> yields (I X) (file_sync st f c cb)"
  "I X st \<Longrightarrow> yields (I X) (spdk_file_close_synced st f c r r2)"
  by (unfold file_flush_done_def file_sync_def spdk_file_close_synced_def)
     (rule keeps | rule yields_any | assumption | simp)+

lemma sync_entry_keeps [keeps]:
  "I X st \<Longrightarrow> yields_with (I X) (spdk_file_sync st f c)"
  "I X st \<Longrightarrow> yields (I X) (spdk_file_sync_async st f c cb)"
  by (unfold spdk_file_sync_def spdk_file_sync_async_def)
     (rule keeps | rule yields_any | assumption | simp)+

lemma close_entry_keeps [keeps]:
  "I X st \<Longrightarrow> yields (I X) (spdk_file_close_async st f cb)"
  "I X st \<Longrightarrow> yields_with (I X) (spdk_file_close st f c)"
  by (unfold spdk_file_close_async_def spdk_file_close_def)
     (rule keeps | rule yields_any | assumption | simp)+

text \<open>Cached reads and writes.\<close>

lemma rw_from_file_keeps [keeps]:
  "I X st \<Longrightarrow> yields (I X) (rw_from_file st r)"
  "I X st \<Longrightarrow> yields_with (I X) (send_rw_from_file st f pl off len rd c)"
  by (unfold rw_from_file_def send_rw_from_file_def)
     (rule keeps | rule yields_any | assumption | simp)+

lemma lock_advance_append [simp]: "lock (advance_append n fl) = lock fl"
  by (simp add: advance_append_def Let_def)

lemma fill_step_keeps [keeps]:
  "I X st \<Longrightarrow> yields_with (I X) (fill_step st f b rem cur)"
  by (unfold fill_step_def)
     (rule keeps | rule yields_any | assumption | simp)+

lemma fill_loop_keeps [keeps]: "I X st \<Longrightarrow> yields_with (I X) (fill_loop st f b rem cur n)"
proof (induction st f b rem cur n rule: fill_loop.induct)
  case (1 st f b rem cur n)
  have s1: "\<And>st1 copy. fill_step st f b rem cur = Some (st1, copy) \<Longrightarrow> I X st1"
    using fill_step_keeps [OF 1(3)] by (rule yieldsD)
  moreover have "\<And>st1 copy st2 b'. fill_step st f b rem cur = Some (st1, copy) \<Longrightarrow>
      cache_append_buffer st1 f = Some (st2, b') \<Longrightarrow> I X st2"
    using cache_append_keeps [OF s1] by (rule yieldsD)
  ultimately show ?case
    using 1 by (subst fill_loop.simps) (auto split: option.split prod.split intro: keeps)
qed

text \<open>The second part of a write releases the lock of its file.\<close>

lemma file_write_fill_keeps [keeps]: "I (insert f X) st \<Longrightarrow> yields_with (I X) (file_write_fill st f c pl len)"
  by (unfold file_write_fill_def) (rule keeps | rule yields_any | assumption | simp)+

lemma write_keeps [keeps]:
  "I X st \<Longrightarrow> yields_with (I X) (spdk_file_write st f c pl off len)"
  "I X st \<Longrightarrow> yields_with (I X) (spdk_file_write_rw_finish st c)"
  "I X st \<Longrightarrow> yields (I X) (readahead_done st r data e)"
  "I X st \<Longrightarrow> yields (I X) (readahead st r)"
  "I X st \<Longrightarrow> yields (I X) (check_readahead st f off c)"
  "I X st \<Longrightarrow> yields (I X) (read_from_buffer st f b pl off len)"
  by (unfold spdk_file_write_def spdk_file_write_rw_finish_def readahead_done_def readahead_def check_readahead_def read_from_buffer_def)
     (rule keeps | rule yields_any | assumption | simp)+

lemma spdk_file_write_extended_keeps [keeps]: "I X st \<Longrightarrow> yields_with (I X) (spdk_file_write_extended st f c r pl len)"
  by (unfold spdk_file_write_extended_def)
     (rule file_write_fill_keeps [OF weaken] | rule keeps | rule yields_any | assumption)+

lemma sub_read_keeps [keeps]:
  assumes "I (insert f X) st"
  shows "yields_with (I (insert f X))
    (do { st \<leftarrow> unlock_file st f; (st, ret) \<leftarrow> send_rw_from_file st f pl off len True c;
          st \<leftarrow> lock_file st f; Some (st, ret) })"
  using assms by - (rule keeps | rule yields_any | assumption)+

lemma read_loop_keeps [keeps]: "I (insert f X) st \<Longrightarrow> yields_with (I (insert f X)) (read_loop st f c pl off fin len n)"
proof (induction st f c pl off fin len n rule: read_loop.induct)
  case (1 st f c pl off fin len n)
  let ?len = "min (NEXT_CACHE_BUFFER_OFFSET off - off) (fin - off)"
  let ?sub = "do { st \<leftarrow> unlock_file st f; (st, ret) \<leftarrow> send_rw_from_file st f pl off ?len True c;
          st \<leftarrow> lock_file st f; Some (st, ret) }"
  note sub = yieldsD(2) [OF sub_read_keeps [OF 1(3)]] and cached = yieldsD(1) [OF write_keeps(6) [OF 1(3)]]
  have miss: "yields_with (I (insert f X)) (read_loop st1 f c (pl + unat ?len) (off + ?len) fin (len + ?len) (n + 1))"
    if "off < fin" "get_file st f = Some fl" "tree_find_filled_buffer (buffers st) (tree fl) off = Some None"
      "?sub = Some (st1, 0)" for fl st1
    using that by (intro 1(1) [OF _ refl that(2,3) refl that(4) refl refl sub [OF that(4)]]) simp
  have hit: "yields_with (I (insert f X)) (read_loop st1 f c (pl + unat ?len) (off + ?len) fin (len + ?len) n)"
    if "off < fin" "get_file st f = Some fl" "tree_find_filled_buffer (buffers st) (tree fl) off = Some (Some b)"
      "read_from_buffer st f b pl off ?len = Some st1" for fl b st1
    using that by (intro 1(2) [OF _ refl that(2,3) refl that(4) cached [OF that(4)]]) simp
  show ?case
    using 1(3) miss hit sub
    by (subst read_loop.simps) (auto simp: Let_def fields intro!: yields_leaf split: option.split prod.split)
qed

lemma read_keeps [keeps]:
  "I X st \<Longrightarrow> yields_with (I X) (spdk_file_read st f c pl off len)"
  by (unfold spdk_file_read_def)
     (rule keeps | rule yields_any | assumption | simp)+

lemma sem_waits_keeps [keeps]: "I X st \<Longrightarrow> yields (I X) (sem_waits st c n)"
  by (induction n arbitrary: st) (rule keeps | rule yields_any | assumption | simp)+

lemma spdk_file_read_finish_keeps [keeps]: "I X st \<Longrightarrow> yields_with (I X) (spdk_file_read_finish st c len n)"
  by (unfold spdk_file_read_finish_def) (rule keeps | rule yields_any | assumption | simp)+

text \<open>Steps.\<close>

lemma handle_msg_keeps: "I X st \<Longrightarrow> yields (I X) (handle_msg m st)"
  by (cases m) (rule keeps | rule yields_any | assumption | simp)+

lemma complete_keeps: "I X st \<Longrightarrow> yields (I X) (complete bcb v st)"
  by (cases bcb) (rule keeps | rule yields_any | assumption | simp)+

lemma bs_effect_keeps [keeps]: "I X st \<Longrightarrow> I X (bs_effect call v st)"
  by (cases call) (simp_all add: fields)

lemma set_cache_size_keeps [keeps]: "I X st \<Longrightarrow> I X (fst (spdk_fs_set_cache_size st mb))"
  by (simp add: spdk_fs_set_cache_size_def fields)

lemma user_step_keeps: "I X st \<Longrightarrow> yields (I X) (user_step u st)"
  by (cases u) (rule keeps | rule yields_any | assumption | simp)+

lemma nbfs_step_keeps: "nbfs_step st st' \<Longrightarrow> I X st \<Longrightarrow> I X st'"
proof (induction rule: nbfs_step.induct)
  case (step_msg st m ms st')
  show ?case using step_msg(3) by (intro yieldsD(1) [OF handle_msg_keeps step_msg(2)]) (simp add: fields)
next
  case (step_pool st m ms st')
  show ?case using step_pool(3) by (intro yieldsD(1) [OF handle_pool_msg_keeps step_pool(2)]) (simp add: fields)
next
  case (step_poller st st')
  show ?case using step_poller(3) by (intro yieldsD(1) [OF pool_reclaim_keeps step_poller(2)])
next
  case (step_complete st xs call cb ys v st')
  show ?case using step_complete(4)
    by (intro yieldsD(1) [OF complete_keeps step_complete(3)] bs_effect_keeps) (simp add: fields)
next
  case (step_load_blob r st info res st')
  show ?case using step_load_blob(3) by (intro yieldsD(1) [OF load_keeps(4) step_load_blob(2)])
next
  case (step_user u st st')
  show ?case using step_user(2) by (intro yieldsD(1) [OF user_step_keeps step_user(1)])
qed

lemma nbfs_steps_keep: "nbfs_steps st st' \<Longrightarrow> I X st \<Longrightarrow> I X st'"
  by (induction rule: rtranclp_induct) (auto intro: nbfs_step_keeps)

lemma reachable_keeps:
  assumes "reachable st" and "\<And>s0. booted s0 \<Longrightarrow> I X s0"
  shows "I X st"
  using assms nbfs_steps_keep unfolding reachable_def by blast

end

end
