(* ===== verification/NBFS_Sample.thy ===== *)
theory NBFS_Sample
  imports NBFS_System
begin

text \<open>
  The directory as the other layers see it, \<open>dir_is h root m\<close>: the tree stands for the map
  \<open>m\<close> from names to files.  The state with an outstanding metadata request.  And concrete
  machines, on which the theorems are applied: one before anything is mounted, and one with a
  given directory, a metadata channel and a user's thread.
\<close>

section \<open>The directory\<close>

definition dir_is :: "bheap \<Rightarrow> node_ptr option \<Rightarrow> (string \<rightharpoonup> file_ptr) \<Rightarrow> bool" where
  "dir_is h root m \<longleftrightarrow> (\<exists>es. bt h root es \<and> map_of es = m)"

lemma fs_find_file_dir: "dir_is (bt_heap st) (files st) m \<Longrightarrow> fs_find_file st nm = Some (m nm)"
  by (auto simp: dir_is_def fs_find_file_def B_plus_tree_find_ok)

lemma files_insert_new:
  assumes "dir_is (bt_heap st) (files st) m" "m nm = None" "length nm < MAX_KEY_LEN"
    and "stack_cond st \<noteq> 0 \<or> m \<noteq> Map.empty"
  shows "\<exists>h root. files_insert st nm f = Some (st\<lparr>bt_heap := h, files := root\<rparr>) \<and> dir_is h root (m(nm \<mapsto> f))"
proof -
  obtain es where es: "bt (bt_heap st) (files st) es" "map_of es = m" using assms(1) by (auto simp: dir_is_def)
  have "nm \<notin> fst ` set es" using assms(2) es(2) by (metis map_of_eq_None_iff)
  moreover have "files st = None \<or> es \<noteq> [] \<or> stack_cond st \<noteq> 0" using assms(4) es(2) by auto
  ultimately obtain h r where "B_plus_tree_insert (stack_cond st) (bt_heap st) (files st) nm f = Some (h, Some r)"
      "bt h (Some r) (ins_entry nm f es)"
    using B_plus_tree_insert_ok [OF es(1) assms(3), of "stack_cond st" f] by blast
  then show ?thesis
    using \<open>nm \<notin> fst ` set es\<close> es(2)
    by (intro exI [of _ h] exI [of _ "Some r"]) (auto simp: files_insert_def dir_is_def map_of_ins_entry)
qed

lemma files_insert_old:
  assumes "dir_is (bt_heap st) (files st) m" "m nm = Some g"
  shows "files_insert st nm f = Some st"
proof -
  obtain es where es: "bt (bt_heap st) (files st) es" "map_of es = m" using assms(1) by (auto simp: dir_is_def)
  have "nm \<in> fst ` set es" using assms(2) es(2) by (force dest: map_of_SomeD)
  moreover from this obtain r where "files st = Some r" using es(1) by (cases "files st") auto
  ultimately show ?thesis using B_plus_tree_insert_present es(1) by (simp add: files_insert_def)
qed

lemma files_remove_dir:
  assumes "dir_is (bt_heap st) (files st) m"
  shows "\<exists>h root. files_remove st nm = Some (st\<lparr>bt_heap := h, files := root\<rparr>) \<and> dir_is h root (m(nm := None))"
proof -
  obtain es where es: "bt (bt_heap st) (files st) es" "map_of es = m" using assms by (auto simp: dir_is_def)
  obtain h root where "B_plus_tree_remove (bt_heap st) (files st) nm = Some (h, root)"
      "bt h root (filter (\<lambda>(k, v). k \<noteq> nm) es)"
    using B_plus_tree_remove_ok [OF es(1), of nm] by blast
  then show ?thesis
    using bpt.map_of_filter_key [of nm es] es(2)
    by (intro exI [of _ h] exI [of _ root]) (auto simp: files_remove_def dir_is_def)
qed

lemma name_ok: "\<not> name_too_long nm \<Longrightarrow> length nm < MAX_KEY_LEN"
  by (simp add: name_too_long_def SPDK_FILE_NAME_MAX_def MAX_KEY_LEN_def)

section \<open>Requests of the metadata thread\<close>

text \<open>The next free request of the metadata channel, whose list holds no request twice.\<close>

definition md_request :: "nbfs \<Rightarrow> req_ptr \<Rightarrow> bool" where
  "md_request st r \<longleftrightarrow> (\<exists>ch. channels st (md_fs_channel st) = Some ch \<and> reqs ch \<noteq> [] \<and> hd (reqs ch) = r \<and> distinct (reqs ch)) \<and>
     requests st r \<noteq> None"

named_theorems exec \<open>execution of the primitives\<close>

lemmas exec_basics [exec] = upd_channel_def upd_req_def upd_file_def get_file_def get_req_def req_file_def
  bs_submit_def send_request_def send_pool_msg_def set_xattr_def reply_def fn_file_def fn_handle_def

lemma try_alloc_ok [exec]: "alloc_fail st = [] \<Longrightarrow> try_alloc st = (True, st)"
  by (simp add: try_alloc_def)

definition fresh_request :: "chan_ptr \<Rightarrow> spdk_fs_request" where
  "fresh_request c = zero_request\<lparr>channel := Some c, iovs := [zero_iovec], iovcnt := 0\<rparr>"

lemma fresh_request_simps [simp]:
  "channel (fresh_request c) = Some c" "rc (fresh_request c) = 0"
  by (simp_all add: fresh_request_def zero_request_def)

text \<open>The state in which request \<open>r\<close> of the metadata channel is outstanding and holds \<open>rq\<close>.\<close>

definition taken :: "nbfs \<Rightarrow> req_ptr \<Rightarrow> spdk_fs_request \<Rightarrow> nbfs" where
  "taken st r rq = st\<lparr>channels := (channels st)(md_fs_channel st := map_option (\<lambda>ch. ch\<lparr>outstanding_reqs := outstanding_reqs ch + 1,
     reqs := tl (reqs ch)\<rparr>) (channels st (md_fs_channel st))), requests := (requests st)(r \<mapsto> rq)\<rparr>"

lemma taken_simps [simp]:
  "file_heap (taken st r rq) = file_heap st" "fresh_file (taken st r rq) = fresh_file st"
  "bt_heap (taken st r rq) = bt_heap st" "files (taken st r rq) = files st" "stack_cond (taken st r rq) = stack_cond st"
  "pending (taken st r rq) = pending st" "msgs (taken st r rq) = msgs st" "pool_msgs (taken st r rq) = pool_msgs st"
  "replies (taken st r rq) = replies st" "xattrs (taken st r rq) = xattrs st" "buffers (taken st r rq) = buffers st"
  "md_fs_channel (taken st r rq) = md_fs_channel st" "alloc_fail (taken st r rq) = alloc_fail st"
  "requests (taken st r rq) = (requests st)(r \<mapsto> rq)"
  by (simp_all add: taken_def)

lemma alloc_md: "md_request st r \<Longrightarrow>
    alloc_fs_request st (md_fs_channel st) = Some (taken st r (fresh_request (md_fs_channel st)), Some r)"
  by (auto simp: md_request_def alloc_fs_request_def alloc_fs_request_with_iov_def neq_Nil_conv exec fresh_request_def taken_def)

lemma upd_taken [exec]: "upd_req (taken st r rq) r g = Some (taken st r (g rq))"
  by (simp add: upd_req_def taken_def)

lemma md_request_files [simp]:
  "md_request (st\<lparr>fresh_file := i, bt_heap := h, files := root, file_heap := F\<rparr>) r = md_request st r"
  by (simp add: md_request_def)

text \<open>Giving the request back restores the channel.\<close>

lemma free_taken:
  assumes "md_request st r" "channels st' = channels (taken st r rq)" "requests st' r = Some rq'" "channel rq' = Some (md_fs_channel st)"
  shows "free_fs_request st' r = Some (st'\<lparr>channels := channels st\<rparr>)"
proof -
  obtain ch where "channels st (md_fs_channel st) = Some ch" "r # tl (reqs ch) = reqs ch" "r \<notin> set (tl (reqs ch))"
    using assms(1) by (auto simp: md_request_def neq_Nil_conv)
  then show ?thesis
    using assms(2-4) by (simp add: free_fs_request_def get_req_def upd_channel_def taken_def fun_upd_idem)
qed

text \<open>Two free requests of the metadata channel, for an operation that starts another.\<close>

definition md_requests2 :: "nbfs \<Rightarrow> req_ptr \<Rightarrow> req_ptr \<Rightarrow> bool" where
  "md_requests2 st r r2 \<longleftrightarrow> (\<exists>ch rest. channels st (md_fs_channel st) = Some ch \<and> reqs ch = r # r2 # rest \<and> distinct (reqs ch)) \<and>
     requests st r \<noteq> None \<and> requests st r2 \<noteq> None \<and> r \<noteq> r2"

lemma md_requests2_first: "md_requests2 st r r2 \<Longrightarrow> md_request st r"
  by (auto simp: md_requests2_def md_request_def)

lemma md_requests2_second: "md_requests2 st r r2 \<Longrightarrow> md_request (taken st r rq) r2"
  by (auto simp: md_requests2_def md_request_def taken_def)

section \<open>Concrete machines\<close>

definition boot_state :: nbfs where
  "boot_state = \<lparr>bt_heap = \<lparr>nodes = Map.empty, next_node = 0\<rparr>, files = None, stack_cond = 1, file_heap = Map.empty, fresh_file = 0,
     requests = Map.empty, fresh_req = 0, channels = Map.empty, fresh_chan = 0, md_fs_channel = 0, sync_fs_channel = 0,
     cluster_sz = 0, io_unit_size = 512, num_clusters = (\<lambda>_. 0), xattrs = [], pending = [], msgs = [], pool_msgs = [],
     replies = [], rw_errno = (\<lambda>_. 0), memory = (\<lambda>_. 0), heap_garbage = (\<lambda>_. 0), buffers = Map.empty, fresh_buf = 0,
     g_caches = [], g_fs_cache_size = BLOBFS_DEFAULT_CACHE_SIZE, pool_count = None, poller = False, g_fs_count = 0,
     alloc_fail = [], poller_runs = [], mounted = False\<rparr>"

fun build_tree :: "(string \<times> file_ptr) list \<Rightarrow> bheap \<times> node_ptr option" where
  "build_tree [] = (\<lparr>nodes = Map.empty, next_node = 0\<rparr>, None)"
| "build_tree ((nm, f) # es) = the (B_plus_tree_insert 1 (fst (build_tree es)) (snd (build_tree es)) nm f)"

lemma build_tree_dir:
  assumes "distinct (map fst es)" "\<forall>nm \<in> fst ` set es. length nm < MAX_KEY_LEN"
  shows "dir_is (fst (build_tree es)) (snd (build_tree es)) (map_of es)"
  using assms
proof (induction es)
  case Nil
  then show ?case by (simp add: dir_is_def)
next
  case (Cons e es)
  obtain nm f where e: "e = (nm, f)" by (cases e)
  let ?st = "boot_state\<lparr>bt_heap := fst (build_tree es), files := snd (build_tree es)\<rparr>"
  have "map_of es nm = None" using Cons.prems(1) e by (simp add: map_of_eq_None_iff)
  moreover have "dir_is (bt_heap ?st) (files ?st) (map_of es)" using Cons by simp
  ultimately obtain h root where "files_insert ?st nm f = Some (?st\<lparr>bt_heap := h, files := root\<rparr>)"
      "dir_is h root ((map_of es)(nm \<mapsto> f))"
    using files_insert_new [of ?st "map_of es" nm f] Cons.prems(2) e by (auto simp: boot_state_def)
  moreover from this have "B_plus_tree_insert 1 (fst (build_tree es)) (snd (build_tree es)) nm f = Some (h, root)"
    by (auto simp: files_insert_def boot_state_def bind_Some_iff)
  ultimately show ?case using e by (simp add: fun_upd_def)
qed

text \<open>Channel 0 belongs to the metadata thread, channel 1 to a user's thread; requests 20 to 27
  are the free requests of both.\<close>

definition sample_fs :: "(string \<times> file_ptr) list \<Rightarrow> (file_ptr \<rightharpoonup> spdk_file) \<Rightarrow> nbfs" where
  "sample_fs es F = boot_state\<lparr>bt_heap := fst (build_tree es), files := snd (build_tree es), file_heap := F, fresh_file := 10,
     channels := [0 \<mapsto> zero_channel\<lparr>reqs := [20, 21, 22, 23], bs_channel := True, direct := True\<rparr>,
                  1 \<mapsto> zero_channel\<lparr>reqs := [24, 25, 26, 27], sync := True\<rparr>],
     fresh_chan := 2, requests := (\<lambda>r. if 20 \<le> r \<and> r < 28 then Some zero_request else None), fresh_req := 28,
     cluster_sz := 4096, mounted := True, num_clusters := (\<lambda>_. 1)\<rparr>"

lemma sample_fs_simps [simp]:
  "bt_heap (sample_fs es F) = fst (build_tree es)" "files (sample_fs es F) = snd (build_tree es)"
  "file_heap (sample_fs es F) = F" "stack_cond (sample_fs es F) = 1" "alloc_fail (sample_fs es F) = []"
  "fresh_file (sample_fs es F) = 10" "md_fs_channel (sample_fs es F) = 0" "pending (sample_fs es F) = []"
  "replies (sample_fs es F) = []" "xattrs (sample_fs es F) = []"
  by (simp_all add: sample_fs_def boot_state_def)

lemma sample_fs_requests [simp]: "md_request (sample_fs es F) 20" "md_requests2 (sample_fs es F) 20 21"
  by (simp_all add: md_request_def md_requests2_def sample_fs_def boot_state_def zero_channel_def)

lemma sample_fs_dir:
  "distinct (map fst es) \<Longrightarrow> \<forall>nm \<in> fst ` set es. length nm \<le> 255 \<Longrightarrow>
   dir_is (bt_heap (sample_fs es F)) (files (sample_fs es F)) (map_of es)"
  by (auto simp: MAX_KEY_LEN_def intro!: build_tree_dir)

definition sample_file :: "string \<Rightarrow> spdk_file" where
  "sample_file nm = zero_file\<lparr>name := Some nm, blobid := 9\<rparr>"

end
