(* ===== verification/NBFS_Directory.thy ===== *)
theory NBFS_Directory
  imports NBFS_Sample
begin

unbundle bit_operations_syntax

text \<open>
  The operations on names against their specification, a map from names to files.  The B+ tree
  enters through the laws of the directory only.
\<close>

section \<open>Creation\<close>

lemma file_alloc_ok:
  assumes "dir_is (bt_heap st) (files st) m" "m nm = None" "\<not> name_too_long nm"
    and "stack_cond st \<noteq> 0 \<or> m \<noteq> Map.empty" "alloc_fail st = []"
  shows "\<exists>h root. file_alloc st nm = Some (st\<lparr>fresh_file := Suc (fresh_file st), bt_heap := h, files := root,
      file_heap := (file_heap st)(fresh_file st \<mapsto> zero_file)\<rparr>, Some (fresh_file st)) \<and>
      dir_is h root (m(nm \<mapsto> fresh_file st))"
proof -
  let ?st = "st\<lparr>file_heap := (file_heap st)(fresh_file st \<mapsto> zero_file), fresh_file := Suc (fresh_file st)\<rparr>"
  have "priority zero_file = SPDK_FILE_PRIORITY_LOW" by (simp add: zero_file_def SPDK_FILE_PRIORITY_LOW_def)
  then have z: "zero_file\<lparr>priority := SPDK_FILE_PRIORITY_LOW\<rparr> = zero_file" by simp
  obtain h root where "files_insert ?st nm (fresh_file st) = Some (?st\<lparr>bt_heap := h, files := root\<rparr>)"
      "dir_is h root (m(nm \<mapsto> fresh_file st))"
    using files_insert_new [of ?st m nm "fresh_file st"] assms name_ok by auto
  then show ?thesis
    using assms(5) by (intro exI [of _ h] exI [of _ root]) (simp add: file_alloc_def exec z Let_def)
qed

text \<open>The rest of a creation: the blobstore creates, opens, resizes and closes the blob.\<close>

definition create_run :: "nbfs \<Rightarrow> string \<Rightarrow> file_cb \<Rightarrow> req_ptr \<Rightarrow> blob_id \<Rightarrow> blob_ptr \<Rightarrow> nbfs option" where
  "create_run st nm cb r i b =
     do { st \<leftarrow> spdk_fs_create_file_async st nm cb;
          st \<leftarrow> fs_create_blob_create_cb (st\<lparr>pending := butlast (pending st)\<rparr>) r i 0;
          st \<leftarrow> fs_create_blob_open_cb (st\<lparr>pending := butlast (pending st)\<rparr>) r (Some b) 0;
          st \<leftarrow> fs_create_blob_resize_cb (st\<lparr>pending := butlast (pending st)\<rparr>) r 0;
          fs_create_blob_close_cb (st\<lparr>pending := butlast (pending st)\<rparr>) r 0 }"

text \<open>The state after the entry point of a creation, but for the tree.\<close>

definition created :: "nbfs \<Rightarrow> bheap \<Rightarrow> node_ptr option \<Rightarrow> string \<Rightarrow> file_cb \<Rightarrow> req_ptr \<Rightarrow> nbfs" where
  "created st h root nm cb r =
     (taken (st\<lparr>fresh_file := Suc (fresh_file st), bt_heap := h, files := root, file_heap := (file_heap st)(fresh_file st \<mapsto> zero_file)\<rparr>) r
       ((fresh_request (md_fs_channel st))\<lparr>arg_file := Some (fresh_file st), fn := Fn_file cb\<rparr>))\<lparr>
     file_heap := (file_heap st)(fresh_file st \<mapsto> zero_file\<lparr>name := Some nm, trace_arg_name := fs_name_to_uint64 nm\<rparr>),
     pending := pending st @ [(BS_create_blob, Bs_create_blob_create r)]\<rparr>"

lemma create_started:
  assumes "dir_is (bt_heap st) (files st) m" "m nm = None" "\<not> name_too_long nm"
    and "stack_cond st \<noteq> 0 \<or> m \<noteq> Map.empty" "alloc_fail st = []" "md_request st r"
  obtains h root where "dir_is h root (m(nm \<mapsto> fresh_file st))"
    "spdk_fs_create_file_async st nm cb = Some (created st h root nm cb r)"
proof -
  obtain h root where fa: "file_alloc st nm = Some (st\<lparr>fresh_file := Suc (fresh_file st), bt_heap := h, files := root,
      file_heap := (file_heap st)(fresh_file st \<mapsto> zero_file)\<rparr>, Some (fresh_file st))"
      "dir_is h root (m(nm \<mapsto> fresh_file st))"
    using file_alloc_ok [OF assms(1-5)] by blast
  let ?st = "st\<lparr>fresh_file := Suc (fresh_file st), bt_heap := h, files := root,
      file_heap := (file_heap st)(fresh_file st \<mapsto> zero_file)\<rparr>"
  have "alloc_fs_request ?st (md_fs_channel st) = Some (taken ?st r (fresh_request (md_fs_channel st)), Some r)"
    using alloc_md [of ?st r] assms(6) by simp
  then have "spdk_fs_create_file_async st nm cb = Some (created st h root nm cb r)"
    using fa(1) assms(3)
    by (simp add: spdk_fs_create_file_async_def fs_find_file_dir [OF assms(1)] assms(2) file_build_trace_arg_name_def created_def
        upd_taken upd_file_def get_file_def bs_submit_def)
  then show thesis using fa(2) that by blast
qed

lemma free_fs_request_ok:
  assumes "requests st r = Some rq" "channel rq = Some c" "channels st c = Some ch" "r \<notin> set (reqs ch)"
  shows "free_fs_request st r = Some (st\<lparr>channels := (channels st)(c \<mapsto> ch\<lparr>reqs := r # reqs ch, outstanding_reqs := outstanding_reqs ch - 1\<rparr>)\<rparr>)"
  using assms by (simp add: free_fs_request_def exec)

text \<open>A creation with a new name of at most 255 bytes, memory and a free metadata
  request, whose blobstore calls succeed, ends with the user's callback called once with 0.
  The directory has the new name and no other change; the file has the blob's id, length 0 and
  no open reference; the blob's attributes \<open>name\<close> and \<open>length\<close> are written in this order; and
  the request is back in its channel, no blobstore call being left.\<close>

theorem create_file_succeeds:
  assumes "dir_is (bt_heap st) (files st) m" "m nm = None" "\<not> name_too_long nm"
    and "stack_cond st \<noteq> 0 \<or> m \<noteq> Map.empty" "alloc_fail st = []" "md_request st r"
  shows "\<exists>st'. create_run st nm (Cb_user u) r i b = Some st' \<and>
    dir_is (bt_heap st') (files st') (m(nm \<mapsto> fresh_file st)) \<and>
    file_heap st' = (file_heap st)(fresh_file st \<mapsto>
      zero_file\<lparr>name := Some nm, trace_arg_name := fs_name_to_uint64 nm, blobid := i\<rparr>) \<and>
    replies st' = replies st @ [Reply_op u 0] \<and>
    xattrs st' = xattrs st @ [(b, X_name nm), (b, X_length 0)] \<and>
    pending st' = pending st \<and> channels st' = channels st"
proof -
  obtain h root where s: "dir_is h root (m(nm \<mapsto> fresh_file st))"
    "spdk_fs_create_file_async st nm (Cb_user u) = Some (created st h root nm (Cb_user u) r)"
    using create_started [OF assms, of "Cb_user u"] by blast
  have "free_fs_request st' r = Some (st'\<lparr>channels := channels st\<rparr>)"
    if "channels st' = channels (created st h root nm (Cb_user u) r)" "requests st' r = Some rq" "channel rq = Some (md_fs_channel st)" for st' rq
    using free_taken [of "st\<lparr>fresh_file := Suc (fresh_file st), bt_heap := h, files := root, file_heap := (file_heap st)(fresh_file st \<mapsto> zero_file)\<rparr>" r st']
      assms(6) that by (simp add: created_def)
  then show ?thesis
    using s by (simp add: create_run_def fs_create_blob_create_cb_def fs_create_blob_open_cb_def fs_create_blob_resize_cb_def
        fs_create_blob_close_cb_def op_create_blob_def exec created_def)
qed

theorem create_file_succeeds_witness:
  "\<exists>st'. create_run (sample_fs [(''a'', 3)] Map.empty) ''b'' (Cb_user 7) 20 9 5 = Some st' \<and>
    replies st' = [Reply_op 7 0] \<and> dir_is (bt_heap st') (files st') ((map_of [(''a'', 3)])(''b'' \<mapsto> 10))"
  using create_file_succeeds [of "sample_fs [(''a'', 3)] Map.empty" "map_of [(''a'', 3)]" "''b''" 20 7 9 5]
    sample_fs_dir [of "[(''a'', 3)]" Map.empty]
  by (auto simp: name_too_long_def SPDK_FILE_NAME_MAX_def)


text \<open>A creation is refused with \<open>-ENAMETOOLONG\<close> for a name of more than 255 bytes and
  with \<open>-EEXIST\<close> for a name in use (also one whose file is only marked as deleted), and then
  nothing but the reply to the user changes.\<close>

theorem create_file_refused:
  assumes "dir_is (bt_heap st) (files st) m"
    and "length nm > 255 \<or> m nm \<noteq> None"
  shows "spdk_fs_create_file_async st nm (Cb_user u) = Some (st\<lparr>replies := replies st @
      [Reply_op u (if length nm > 255 then - ENAMETOOLONG else - EEXIST)]\<rparr>)"
  using fs_find_file_dir [OF assms(1), of nm] assms(2)
  by (auto simp: spdk_fs_create_file_async_def name_too_long_def SPDK_FILE_NAME_MAX_def reply_def)

theorem create_file_refused_witness:
  "\<exists>st'. spdk_fs_create_file_async (sample_fs [(''a'', 3)] Map.empty) ''a'' (Cb_user 7) = Some st' \<and> replies st' = [Reply_op 7 (- EEXIST)]"
  using create_file_refused [of "sample_fs [(''a'', 3)] Map.empty" "map_of [(''a'', 3)]" "''a''" 7]
    sample_fs_dir [of "[(''a'', 3)]" Map.empty] by simp


text \<open>When the blobstore cannot create the blob, the user is told the error but the
  name stays in the directory: the file is unusable and a second creation is refused with
  \<open>-EEXIST\<close>.\<close>

theorem failed_create_keeps_name:
  assumes "dir_is (bt_heap st) (files st) m" "m nm = None" "\<not> name_too_long nm"
    and "stack_cond st \<noteq> 0 \<or> m \<noteq> Map.empty" "alloc_fail st = []" "md_request st r" "e \<noteq> 0"
  shows "\<exists>st'. do { st \<leftarrow> spdk_fs_create_file_async st nm (Cb_user u); fs_create_blob_create_cb st r 0 e } = Some st' \<and>
    replies st' = replies st @ [Reply_op u e] \<and>
    dir_is (bt_heap st') (files st') (m(nm \<mapsto> fresh_file st)) \<and>
    spdk_fs_create_file_async st' nm (Cb_user v) = Some (st'\<lparr>replies := replies st' @ [Reply_op v (- EEXIST)]\<rparr>)"
proof -
  obtain h root where s: "dir_is h root (m(nm \<mapsto> fresh_file st))"
    "spdk_fs_create_file_async st nm (Cb_user u) = Some (created st h root nm (Cb_user u) r)"
    using create_started [OF assms(1-6), of "Cb_user u"] by blast
  have found: "fs_find_file st' nm = Some (Some (fresh_file st))" if "bt_heap st' = h" "files st' = root" for st'
    using fs_find_file_dir [of st' "m(nm \<mapsto> fresh_file st)" nm] s(1) that by simp
  have "free_fs_request st' r = Some (st'\<lparr>channels := channels st\<rparr>)"
    if "channels st' = channels (created st h root nm (Cb_user u) r)" "requests st' r = Some rq" "channel rq = Some (md_fs_channel st)" for st' rq
    using free_taken [of "st\<lparr>fresh_file := Suc (fresh_file st), bt_heap := h, files := root, file_heap := (file_heap st)(fresh_file st \<mapsto> zero_file)\<rparr>" r st']
      assms(6) that by (simp add: created_def)
  then show ?thesis
    using s assms(3,7)
    by (simp add: fs_create_blob_create_cb_def exec created_def)
       (simp add: spdk_fs_create_file_async_def found reply_def)
qed

theorem failed_create_keeps_name_witness:
  "\<exists>st'. do { st \<leftarrow> spdk_fs_create_file_async (sample_fs [] Map.empty) ''b'' (Cb_user 7); fs_create_blob_create_cb st 20 0 (- 28) } = Some st' \<and>
    replies st' = [Reply_op 7 (- 28)] \<and> dir_is (bt_heap st') (files st') [''b'' \<mapsto> 10]"
  using failed_create_keeps_name [of "sample_fs [] Map.empty" "map_of []" "''b''" 20 "- 28" 7]
    sample_fs_dir [of "[]" Map.empty]
  by (auto simp: name_too_long_def SPDK_FILE_NAME_MAX_def)


section \<open>Opening\<close>

text \<open>Request \<open>r\<close> waits for an open whose result goes to \<open>h\<close>: to the callback of an asynchronous
  open, or to the request of a synchronous one, whose caller sleeps on its semaphore.\<close>

definition waits :: "nbfs \<Rightarrow> req_ptr \<Rightarrow> handle_cb \<Rightarrow> bool" where
  "waits st r h \<longleftrightarrow>
     (\<exists>rq c ch. requests st r = Some rq \<and> fn rq = Fn_handle h \<and> channel rq = Some c \<and> channels st c = Some ch \<and> r \<notin> set (reqs ch)) \<and>
     (case h of Hcb_user u \<Rightarrow> True
      | Hcb_open_file_done w \<Rightarrow> \<exists>wq c. requests st w = Some wq \<and> sem wq = Some c \<and> channels st c \<noteq> None)"

text \<open>What the answer to one open is: a call of the user's callback, or the file and the result in
  the arguments of the caller's request and one post of its semaphore.\<close>

definition open_replies :: "file_ptr \<Rightarrow> int \<Rightarrow> handle_cb list \<Rightarrow> user_reply list" where
  "open_replies f e hs = concat (map (\<lambda>h. case h of Hcb_user u \<Rightarrow> [Reply_file u (Some f) e] | Hcb_open_file_done w \<Rightarrow> []) hs)"

lemma open_replies_simps [simp]:
  "open_replies f e [] = []"
  "open_replies f e (Hcb_user u # hs) = Reply_file u (Some f) e # open_replies f e hs"
  "open_replies f e (Hcb_open_file_done w # hs) = open_replies f e hs"
  by (simp_all add: open_replies_def)

definition open_results :: "file_ptr \<Rightarrow> int \<Rightarrow> handle_cb list \<Rightarrow> (req_ptr \<rightharpoonup> spdk_fs_request) \<Rightarrow> req_ptr \<rightharpoonup> spdk_fs_request" where
  "open_results f e hs R = (\<lambda>w. if Hcb_open_file_done w \<in> set hs
     then map_option (\<lambda>wq. wq\<lparr>arg_file := Some f, rc := e\<rparr>) (R w) else R w)"

definition posts :: "(req_ptr \<rightharpoonup> spdk_fs_request) \<Rightarrow> chan_ptr \<Rightarrow> handle_cb \<Rightarrow> bool" where
  "posts R c h \<longleftrightarrow> (case h of Hcb_user u \<Rightarrow> False
     | Hcb_open_file_done w \<Rightarrow> (case R w of None \<Rightarrow> False | Some wq \<Rightarrow> sem wq = Some c))"

lemma open_results_keep:
  "map_option channel (open_results f e hs R w) = map_option channel (R w)"
  "map_option fn (open_results f e hs R w) = map_option fn (R w)"
  "map_option sem (open_results f e hs R w) = map_option sem (R w)"
  "posts (open_results f e hs R) = posts R"
  by (auto simp: open_results_def posts_def fun_eq_iff option.map_comp o_def split: handle_cb.splits option.splits)

lemma open_results_Cons:
  "open_results f e hs (open_results f e [h] R) = open_results f e (h # hs) R"
  by (auto simp: open_results_def fun_eq_iff option.map_comp o_def)

lemma wake_caller_ok:
  assumes "requests st w = Some wq" "sem wq = Some c" "channels st c = Some ch"
  shows "\<exists>E. wake_caller st w e = Some (st\<lparr>rw_errno := E, requests := (requests st)(w \<mapsto> wq\<lparr>rc := e\<rparr>),
    channels := (channels st)(c \<mapsto> ch\<lparr>sem_value := sem_value ch + 1\<rparr>)\<rparr>)"
proof -
  have go: "do { s \<leftarrow> upd_req (st\<lparr>rw_errno := E\<rparr>) w (\<lambda>rq. rq\<lparr>rc := e\<rparr>); c \<leftarrow> sem wq; sem_post s c } =
      Some (st\<lparr>rw_errno := E, requests := (requests st)(w \<mapsto> wq\<lparr>rc := e\<rparr>),
        channels := (channels st)(c \<mapsto> ch\<lparr>sem_value := sem_value ch + 1\<rparr>)\<rparr>)" for E
    using assms by (simp add: exec sem_post_def)
  have "st\<lparr>rw_errno := rw_errno st\<rparr> = st" by simp
  with go [of "rw_errno st"] have same: "do { s \<leftarrow> upd_req st w (\<lambda>rq. rq\<lparr>rc := e\<rparr>); c \<leftarrow> sem wq; sem_post s c } =
      Some (st\<lparr>rw_errno := rw_errno st, requests := (requests st)(w \<mapsto> wq\<lparr>rc := e\<rparr>),
        channels := (channels st)(c \<mapsto> ch\<lparr>sem_value := sem_value ch + 1\<rparr>)\<rparr>)"
    by metis
  show ?thesis
  proof (cases "rwerrno wq")
    case None
    then show ?thesis using same assms(1) unfolding wake_caller_def get_req_def Let_def
      by (intro exI [of _ "rw_errno st"]) simp
  next
    case (Some p)
    show ?thesis
    proof (cases "rw_errno st p = 0 \<and> e \<noteq> 0")
      case True
      then show ?thesis using go [of "(rw_errno st)(p := e)"] assms(1) Some unfolding wake_caller_def get_req_def Let_def
        by (intro exI [of _ "(rw_errno st)(p := e)"]) simp
    next
      case False
      then show ?thesis using same assms(1) Some unfolding wake_caller_def get_req_def Let_def
        by (intro exI [of _ "rw_errno st"]) auto
    qed
  qed
qed

text \<open>One request is answered and given back.\<close>

lemma answer_open:
  assumes "waits st r h"
  shows "\<exists>st'. do { st \<leftarrow> call_handle h (Some f) e st; free_fs_request st r } = Some st' \<and>
    replies st' = replies st @ open_replies f e [h] \<and> requests st' = open_results f e [h] (requests st) \<and>
    (\<forall>c. map_option sem_value (channels st' c) = map_option (\<lambda>ch. sem_value ch + of_bool (posts (requests st) c h)) (channels st c)) \<and>
    (\<forall>c. map_option (\<lambda>ch. set (reqs ch) - {r}) (channels st' c) = map_option (\<lambda>ch. set (reqs ch) - {r}) (channels st c)) \<and>
    file_heap st' = file_heap st \<and> pending st' = pending st \<and> bt_heap st' = bt_heap st \<and> files st' = files st"
proof (cases h)
  case (Hcb_user u)
  with assms show ?thesis
    by (auto simp: waits_def free_fs_request_def exec open_results_def posts_def)
next
  case (Hcb_open_file_done w)
  obtain rq c ch where rq: "requests st r = Some rq" "channel rq = Some c" "channels st c = Some ch" "r \<notin> set (reqs ch)"
    using assms by (auto simp: waits_def)
  obtain wq d dh where wq: "requests st w = Some wq" "sem wq = Some d" "channels st d = Some dh"
    using assms Hcb_open_file_done by (auto simp: waits_def)
  let ?st = "st\<lparr>requests := (requests st)(w \<mapsto> wq\<lparr>arg_file := Some f\<rparr>)\<rparr>"
  obtain E where "wake_caller ?st w e = Some (?st\<lparr>rw_errno := E, requests := (requests ?st)(w \<mapsto> wq\<lparr>arg_file := Some f, rc := e\<rparr>),
      channels := (channels st)(d \<mapsto> dh\<lparr>sem_value := sem_value dh + 1\<rparr>)\<rparr>)"
    using wake_caller_ok [of ?st w "wq\<lparr>arg_file := Some f\<rparr>" d dh e] wq by auto
  with rq wq Hcb_open_file_done show ?thesis
    by (auto simp: fs_open_file_done_def free_fs_request_def exec open_results_def posts_def fun_eq_iff)
qed

lemma waits_upd: "waits st r h \<Longrightarrow> requests st' = requests st \<Longrightarrow> channels st' = channels st \<Longrightarrow> waits st' r h"
  by (simp add: waits_def split: handle_cb.splits)

text \<open>Another waiting request is still outstanding after that.\<close>

lemma waits_next:
  assumes "waits st r h" "r \<noteq> q" "requests st' = open_results f e hs (requests st)"
    and "\<And>c. map_option (\<lambda>ch. set (reqs ch) - {q}) (channels st' c) = map_option (\<lambda>ch. set (reqs ch) - {q}) (channels st c)"
  shows "waits st' r h"
proof -
  obtain rq c ch where rq: "requests st r = Some rq" "fn rq = Fn_handle h" "channel rq = Some c" "channels st c = Some ch" "r \<notin> set (reqs ch)"
    using assms(1) by (auto simp: waits_def)
  have live: "channels st' d \<noteq> None \<longleftrightarrow> channels st d \<noteq> None" for d
    using assms(4) [of d] by (cases "channels st' d"; cases "channels st d") auto
  obtain rq' where rq': "requests st' r = Some rq'" "fn rq' = Fn_handle h" "channel rq' = Some c"
    using rq open_results_keep(1,2) [of f e hs "requests st" r] assms(3) by (cases "requests st' r") auto
  obtain ch' where ch': "channels st' c = Some ch'" "r \<notin> set (reqs ch')"
    using rq(4,5) assms(2) assms(4) [of c] by (cases "channels st' c") auto
  show ?thesis
  proof (cases h)
    case (Hcb_open_file_done w)
    then obtain wq d where "requests st w = Some wq" "sem wq = Some d" "channels st d \<noteq> None"
      using assms(1) by (auto simp: waits_def)
    moreover from this obtain wq' where "requests st' w = Some wq'" "sem wq' = Some d"
      using open_results_keep(3) [of f e hs "requests st" w] assms(3) by (cases "requests st' w") auto
    ultimately show ?thesis using rq' ch' live [of d] Hcb_open_file_done unfolding waits_def by simp
  qed (use rq' ch' in \<open>auto simp: waits_def\<close>)
qed

lemma serve_opens_ok:
  assumes "list_all2 (waits st) rs hs" "distinct rs" "file_heap st f = Some fl" "open_requests fl = rs"
  shows "\<exists>st'. serve_opens st f e rs = Some st' \<and> replies st' = replies st @ open_replies f e hs \<and>
    requests st' = open_results f e hs (requests st) \<and>
    (\<forall>c. map_option sem_value (channels st' c) =
      map_option (\<lambda>ch. sem_value ch + length (filter (posts (requests st) c) hs)) (channels st c)) \<and>
    file_heap st' = (file_heap st)(f \<mapsto> fl\<lparr>open_requests := []\<rparr>) \<and>
    pending st' = pending st \<and> bt_heap st' = bt_heap st \<and> files st' = files st"
  using assms
proof (induction rs arbitrary: st hs fl)
  case Nil
  have "fl\<lparr>open_requests := []\<rparr> = fl" using Nil(4) by simp
  then show ?case using Nil by (simp add: fun_upd_idem open_results_def)
next
  case (Cons r rs)
  then obtain h hs' where hs: "hs = h # hs'" "waits st r h" "list_all2 (waits st) rs hs'" by (auto simp: list_all2_Cons1)
  let ?st = "st\<lparr>file_heap := (file_heap st)(f \<mapsto> fl\<lparr>open_requests := rs\<rparr>)\<rparr>"
  have "waits ?st r h" using hs(2) by (rule waits_upd) simp_all
  from answer_open [OF this, of f e] obtain st1
    where st1: "do { st \<leftarrow> call_handle h (Some f) e ?st; free_fs_request st r } = Some st1"
      "replies st1 = replies st @ open_replies f e [h]" "requests st1 = open_results f e [h] (requests st)"
      "\<And>c. map_option sem_value (channels st1 c) = map_option (\<lambda>ch. sem_value ch + of_bool (posts (requests st) c h)) (channels st c)"
      "\<And>c. map_option (\<lambda>ch. set (reqs ch) - {r}) (channels st1 c) = map_option (\<lambda>ch. set (reqs ch) - {r}) (channels st c)"
      "file_heap st1 = file_heap ?st" "pending st1 = pending st" "bt_heap st1 = bt_heap st" "files st1 = files st"
    by auto
  have fn: "fn_handle ?st r = Some h" using hs(2) by (auto simp: waits_def exec)
  have step: "serve_opens st f e (r # rs) = serve_opens st1 f e rs"
    using Cons.prems(3) st1(1) fn by (simp add: exec bind_Some_iff split: option.splits) (auto simp: bind_eq_Some_conv)
  have "list_all2 (waits st1) rs hs'"
  proof (rule list.rel_mono_strong [OF hs(3)])
    fix q h'
    assume "q \<in> set rs" "waits st q h'"
    then show "waits st1 q h'"
      using waits_next [of st q h' r st1 f e "[h]"] st1(3,5) Cons.prems(2) by auto
  qed
  moreover have "file_heap st1 f = Some (fl\<lparr>open_requests := rs\<rparr>)" using st1(6) by simp
  ultimately obtain st' where st': "serve_opens st1 f e rs = Some st'" "replies st' = replies st1 @ open_replies f e hs'"
     "requests st' = open_results f e hs' (requests st1)"
     "\<And>c. map_option sem_value (channels st' c) =
        map_option (\<lambda>ch. sem_value ch + length (filter (posts (requests st1) c) hs')) (channels st1 c)"
     "file_heap st' = (file_heap st1)(f \<mapsto> (fl\<lparr>open_requests := rs\<rparr>)\<lparr>open_requests := []\<rparr>)"
     "pending st' = pending st1" "bt_heap st' = bt_heap st1" "files st' = files st1"
    using Cons.IH [of st1 hs' "fl\<lparr>open_requests := rs\<rparr>"] Cons.prems(2) by (auto simp del: fun_upd_apply)
  have "map_option sem_value (channels st' c) =
      map_option (\<lambda>ch. sem_value ch + length (filter (posts (requests st) c) hs)) (channels st c)" for c
    using st'(4) [of c] st1(4) [of c]
    by (cases "channels st c"; cases "channels st1 c") (auto simp: hs(1) st1(3) open_results_keep(4))
  moreover have "replies st' = replies st @ open_replies f e hs"
    using st'(2) st1(2) hs(1) by (simp add: open_replies_def)
  moreover have "requests st' = open_results f e hs (requests st)"
    using st'(3) st1(3) hs(1) open_results_Cons by simp
  ultimately show ?case using step st'(1,5-8) st1(6-9) by (simp add: fun_upd_def cong: if_cong)
qed

text \<open>A file that three opens wait for, two of users and one of the thread of channel 1, which
  sleeps on its request 25; \<open>n\<close> is the reference count.\<close>

definition waiting_file :: "u32 \<Rightarrow> spdk_file" where
  "waiting_file n = (sample_file ''a'')\<lparr>ref_count := n, open_requests := [20, 24, 21]\<rparr>"

definition waiting_fs :: "u32 \<Rightarrow> nbfs" where
  "waiting_fs n = (sample_fs [(''a'', 3)] [3 \<mapsto> waiting_file n])\<lparr>
     channels := [0 \<mapsto> zero_channel\<lparr>reqs := [22, 23], outstanding_reqs := 2\<rparr>, 1 \<mapsto> zero_channel\<lparr>reqs := [26, 27], outstanding_reqs := 2\<rparr>],
     requests := (\<lambda>r. if r = 20 then Some (zero_request\<lparr>channel := Some 0, arg_file := Some 3, fn := Fn_handle (Hcb_user 7)\<rparr>)
       else if r = 24 then Some (zero_request\<lparr>channel := Some 1, arg_file := Some 3, fn := Fn_handle (Hcb_user 8)\<rparr>)
       else if r = 21 then Some (zero_request\<lparr>channel := Some 0, arg_file := Some 3, fn := Fn_handle (Hcb_open_file_done 25)\<rparr>)
       else if r = 25 then Some (zero_request\<lparr>channel := Some 1, sem := Some 1\<rparr>)
       else if 20 \<le> r \<and> r < 28 then Some zero_request else None)\<rparr>"

lemma waiting_fs_simps:
  "file_heap (waiting_fs n) = [3 \<mapsto> waiting_file n]" "req_file (waiting_fs n) 20 = Some 3" "open_requests (waiting_file n) = [20, 24, 21]"
  "waits (waiting_fs n) 20 (Hcb_user 7)" "waits (waiting_fs n) 24 (Hcb_user 8)" "waits (waiting_fs n) 21 (Hcb_open_file_done 25)"
  "ref_count (waiting_file n) = n" "\<not> is_deleted (waiting_file n)"
  "replies (waiting_fs n) = []" "blob (waiting_file n) = None" "md_request (waiting_fs n) 22"
  "bt_heap (waiting_fs n) = fst (build_tree [(''a'', 3)])" "files (waiting_fs n) = snd (build_tree [(''a'', 3)])"
  "requests (waiting_fs n) 25 = Some (zero_request\<lparr>channel := Some 1, sem := Some 1\<rparr>)"
  "\<exists>ch. channels (waiting_fs n) 1 = Some ch \<and> sem_value ch = 0"
  by (simp_all add: waiting_fs_def waiting_file_def sample_file_def zero_file_def waits_def req_file_def get_req_def
      zero_request_def md_request_def zero_channel_def)

lemma open_blob_done_ok:
  assumes "req_file st r = Some f" "file_heap st f = Some fl" "list_all2 (waits st) (open_requests fl) hs"
    and "distinct (open_requests fl)"
  shows "\<exists>st'. fs_open_blob_done st r b e = Some st' \<and>
    replies st' = replies st @ open_replies f e hs \<and> requests st' = open_results f e hs (requests st) \<and>
    (\<forall>c. map_option sem_value (channels st' c) =
      map_option (\<lambda>ch. sem_value ch + length (filter (posts (requests st) c) hs)) (channels st c)) \<and>
    file_heap st' = (file_heap st)(f \<mapsto> fl\<lparr>blob := b, open_requests := []\<rparr>) \<and> pending st' = pending st"
proof -
  let ?st = "st\<lparr>file_heap := (file_heap st)(f \<mapsto> fl\<lparr>blob := b\<rparr>)\<rparr>"
  have "list_all2 (waits ?st) (open_requests fl) hs"
    using assms(3) by (rule list_all2_mono) (auto intro: waits_upd)
  from serve_opens_ok [OF this assms(4), of f "fl\<lparr>blob := b\<rparr>" e] show ?thesis
    using assms(1,2) by (auto simp: fs_open_blob_done_def upd_file_def get_file_def)
qed

text \<open>C27: When the blob of a file has been opened, every open that waits for it, asynchronous or
  synchronous, is answered, once and in the order the opens arrived, with the file and the result
  of the blobstore: the callback of an asynchronous open is called; a synchronous one gets the file
  and the result in its request, and its caller's semaphore is posted once per open.  The list is
  empty afterwards and the blob recorded.  No request is in the list twice.\<close>

theorem open_answers_all_waiting:
  assumes "req_file st r = Some f" "file_heap st f = Some fl" "list_all2 (waits st) (open_requests fl) hs"
    and "distinct (open_requests fl)"
  shows "\<exists>st'. fs_open_blob_done st r b e = Some st' \<and>
    replies st' = replies st @ concat (map (\<lambda>h. case h of Hcb_user u \<Rightarrow> [Reply_file u (Some f) e] | Hcb_open_file_done w \<Rightarrow> []) hs) \<and>
    (\<forall>w. requests st' w = (if Hcb_open_file_done w \<in> set hs
       then map_option (\<lambda>wq. wq\<lparr>arg_file := Some f, rc := e\<rparr>) (requests st w) else requests st w)) \<and>
    (\<forall>c. map_option sem_value (channels st' c) =
      map_option (\<lambda>ch. sem_value ch + length (filter (posts (requests st) c) hs)) (channels st c)) \<and>
    file_heap st' = (file_heap st)(f \<mapsto> fl\<lparr>blob := b, open_requests := []\<rparr>) \<and> pending st' = pending st"
  using open_blob_done_ok [OF assms, of b e] unfolding open_replies_def open_results_def by auto

theorem open_answers_all_waiting_witness:
  "\<exists>st' wq ch. fs_open_blob_done (waiting_fs 1) 20 (Some 5) 0 = Some st' \<and>
    replies st' = [Reply_file 7 (Some 3) 0, Reply_file 8 (Some 3) 0] \<and>
    requests st' 25 = Some wq \<and> arg_file wq = Some 3 \<and> channels st' 1 = Some ch \<and> sem_value ch = 1"
proof -
  let ?hs = "[Hcb_user 7, Hcb_user 8, Hcb_open_file_done 25]"
  have "\<exists>st'. fs_open_blob_done (waiting_fs 1) 20 (Some 5) 0 = Some st' \<and>
    replies st' = replies (waiting_fs 1) @
      concat (map (\<lambda>h. case h of Hcb_user u \<Rightarrow> [Reply_file u (Some 3) 0] | Hcb_open_file_done w \<Rightarrow> []) ?hs) \<and>
    (\<forall>w. requests st' w = (if Hcb_open_file_done w \<in> set ?hs
       then map_option (\<lambda>wq. wq\<lparr>arg_file := Some 3, rc := 0\<rparr>) (requests (waiting_fs 1) w) else requests (waiting_fs 1) w)) \<and>
    (\<forall>c. map_option sem_value (channels st' c) =
      map_option (\<lambda>ch. sem_value ch + length (filter (posts (requests (waiting_fs 1)) c) ?hs)) (channels (waiting_fs 1) c)) \<and>
    file_heap st' = (file_heap (waiting_fs 1))(3 \<mapsto> (waiting_file 1)\<lparr>blob := Some 5, open_requests := []\<rparr>) \<and>
    pending st' = pending (waiting_fs 1)"
    by (rule open_answers_all_waiting) (simp_all add: waiting_fs_simps)
  then obtain st' where st': "fs_open_blob_done (waiting_fs 1) 20 (Some 5) 0 = Some st'"
      "replies st' = [Reply_file 7 (Some 3) 0, Reply_file 8 (Some 3) 0]"
      "requests st' 25 = Some (zero_request\<lparr>channel := Some 1, sem := Some 1, arg_file := Some 3, rc := 0\<rparr>)"
      "map_option sem_value (channels st' 1) =
        map_option (\<lambda>ch. sem_value ch + length (filter (posts (requests (waiting_fs 1)) 1) ?hs)) (channels (waiting_fs 1) 1)"
    by (auto simp: waiting_fs_simps)
  then have "map_option sem_value (channels st' 1) = Some 1"
    using waiting_fs_simps(15) [of 1] by (auto simp: posts_def waiting_fs_simps)
  with st' show ?thesis by auto
qed


text \<open>An open fails with \<open>-ENOENT\<close>, without any other effect, for a name that is not in
  the directory unless \<open>SPDK_BLOBFS_OPEN_CREATE\<close> is given, and for a name whose file is marked
  as deleted in any case.\<close>

theorem open_missing_or_deleted:
  assumes "dir_is (bt_heap st) (files st) m" "length nm \<le> 255"
    and "m nm = None \<and> flags AND SPDK_BLOBFS_OPEN_CREATE = 0 \<or>
      (\<exists>f fl. m nm = Some f \<and> file_heap st f = Some fl \<and> is_deleted fl)"
  shows "spdk_fs_open_file_async st nm flags (Hcb_user u) = Some (st\<lparr>replies := replies st @ [Reply_file u None (- ENOENT)]\<rparr>)"
  using assms(2,3) fs_find_file_dir [OF assms(1), of nm]
  by (auto simp: spdk_fs_open_file_async_def name_too_long_def SPDK_FILE_NAME_MAX_def exec)

theorem open_missing_or_deleted_witness:
  "spdk_fs_open_file_async (sample_fs [] Map.empty) ''a'' 0 (Hcb_user 7) =
    Some ((sample_fs [] Map.empty)\<lparr>replies := [Reply_file 7 None (- ENOENT)]\<rparr>)"
  using open_missing_or_deleted [of "sample_fs [] Map.empty" "map_of []" "''a''" 0 7] sample_fs_dir [of "[]" Map.empty] by simp


lemma open_started:
  assumes "dir_is (bt_heap st) (files st) m" "length nm \<le> 255" "m nm = Some f" "file_heap st f = Some fl"
    and "\<not> is_deleted fl" "md_request st r"
  shows "spdk_fs_open_file_async st nm flags (Hcb_user u) = fs_open_blob_create_cb
    (taken st r ((fresh_request (md_fs_channel st))\<lparr>fn := Fn_handle (Hcb_user u), arg_file := Some f, op := Op_open nm 0\<rparr>)) r 0"
  using assms(2-5) fs_find_file_dir [OF assms(1), of nm] alloc_md [OF assms(6)]
  by (simp add: spdk_fs_open_file_async_def name_too_long_def SPDK_FILE_NAME_MAX_def get_file_def upd_taken)

text \<open>The first open of a file counts one reference, queues the request and asks the
  blobstore to open the blob; the user is answered later.\<close>

theorem first_open_opens_blob:
  assumes "dir_is (bt_heap st) (files st) m" "length nm \<le> 255" "m nm = Some f" "file_heap st f = Some fl"
    and "\<not> is_deleted fl" "md_request st r" "ref_count fl = 0" "blob fl = None"
  shows "\<exists>st'. spdk_fs_open_file_async st nm flags (Hcb_user u) = Some st' \<and>
    file_heap st' = (file_heap st)(f \<mapsto> fl\<lparr>ref_count := 1, open_requests := open_requests fl @ [r]\<rparr>) \<and>
    pending st' = pending st @ [(BS_open_blob (blobid fl), Bs_open_blob_done r)] \<and>
    replies st' = replies st \<and> waits st' r (Hcb_user u)"
proof -
  obtain ch where "channels st (md_fs_channel st) = Some ch" "r \<notin> set (tl (reqs ch))"
    using assms(6) by (auto simp: md_request_def neq_Nil_conv)
  then show ?thesis
    using assms(4,7,8) open_started [OF assms(1-6), of flags u]
    by (simp add: fs_open_blob_create_cb_def exec waits_def taken_def)
qed

theorem first_open_opens_blob_witness:
  "\<exists>st'. spdk_fs_open_file_async (sample_fs [(''a'', 3)] [3 \<mapsto> sample_file ''a'']) ''a'' 0 (Hcb_user 7) = Some st' \<and>
    pending st' = [(BS_open_blob 9, Bs_open_blob_done 20)] \<and> waits st' 20 (Hcb_user 7)"
  using first_open_opens_blob [of "sample_fs [(''a'', 3)] [3 \<mapsto> sample_file ''a'']" "map_of [(''a'', 3)]" "''a''" 3 "sample_file ''a''" 20 0 7]
    sample_fs_dir [of "[(''a'', 3)]" "[3 \<mapsto> sample_file ''a'']"]
  by (auto simp: sample_file_def zero_file_def)


text \<open>After the blobstore failed to open the blob of a file, the file keeps the
  reference it counted; the next open of it asks the blobstore for nothing and answers
  nobody, so it waits for ever.\<close>

theorem failed_open_wedges_file:
  assumes "req_file st r0 = Some f" "file_heap st f = Some fl" "list_all2 (waits st) (open_requests fl) hs"
    and "distinct (open_requests fl)" "ref_count fl \<noteq> 0"
    and "fs_open_blob_done st r0 None e = Some st1"
    and "dir_is (bt_heap st1) (files st1) m" "length nm \<le> 255" "m nm = Some f" "\<not> is_deleted fl" "md_request st1 r"
  shows "\<exists>st2. spdk_fs_open_file_async st1 nm flags (Hcb_user u) = Some st2 \<and>
    replies st2 = replies st1 \<and> pending st2 = pending st1 \<and> msgs st2 = msgs st1"
proof -
  have fl1: "file_heap st1 f = Some (fl\<lparr>blob := None, open_requests := []\<rparr>)"
    using open_blob_done_ok [OF assms(1-4), of None e] assms(6) by auto
  moreover have "ref_count fl + 1 \<noteq> 1" using assms(5) by simp
  ultimately show ?thesis
    using open_started [OF assms(7-9) fl1 _ assms(11), of flags u] assms(10)
    by (simp add: fs_open_blob_create_cb_def get_req_def upd_file_def get_file_def)
qed

lemma waiting_fs_done:
  "\<exists>st1. fs_open_blob_done (waiting_fs n) 20 None e = Some st1 \<and> md_request st1 21 \<and>
    bt_heap st1 = fst (build_tree [(''a'', 3)]) \<and> files st1 = snd (build_tree [(''a'', 3)])"
  by (simp add: waiting_fs_def waiting_file_def sample_file_def zero_file_def zero_request_def zero_channel_def
      fs_open_blob_done_def exec free_fs_request_def md_request_def fs_open_file_done_def wake_caller_def sem_post_def)

theorem failed_open_wedges_file_witness:
  "\<exists>st1 st2. fs_open_blob_done (waiting_fs 2) 20 None (- 5) = Some st1 \<and>
    spdk_fs_open_file_async st1 ''a'' 0 (Hcb_user 7) = Some st2 \<and> replies st2 = replies st1 \<and> pending st2 = pending st1"
proof -
  obtain st1 where st1: "fs_open_blob_done (waiting_fs 2) 20 None (- 5) = Some st1" "md_request st1 21"
      "dir_is (bt_heap st1) (files st1) (map_of [(''a'', 3)])"
    using sample_fs_dir [of "[(''a'', 3)]" Map.empty] waiting_fs_done [of 2 "- 5"] by auto
  show ?thesis
    using failed_open_wedges_file [of "waiting_fs 2" 20 3 "waiting_file 2" "[Hcb_user 7, Hcb_user 8, Hcb_open_file_done 25]" "- 5" st1 "map_of [(''a'', 3)]" "''a''" 21 0 7] st1
    by (auto simp: waiting_fs_simps)
qed


section \<open>Deletion\<close>

text \<open>A file that one user has open on blob 5.\<close>

definition open_file :: "string \<Rightarrow> spdk_file" where
  "open_file nm = (sample_file nm)\<lparr>ref_count := 1, blob := Some 5\<rparr>"

text \<open>The last close of a marked file has reached the blobstore, on request 24.\<close>

definition marked_fs :: nbfs where
  "marked_fs = (sample_fs [(''a'', 3)] [3 \<mapsto> (sample_file ''a'')\<lparr>is_deleted := True\<rparr>])\<lparr>
     requests := (\<lambda>r. if r = 24 then Some (zero_request\<lparr>arg_file := Some 3\<rparr>) else if 20 \<le> r \<and> r < 28 then Some zero_request else None)\<rparr>"

lemma marked_fs_simps:
  "file_heap marked_fs = [3 \<mapsto> (sample_file ''a'')\<lparr>is_deleted := True\<rparr>]" "req_file marked_fs 24 = Some 3" "md_request marked_fs 20"
  "bt_heap marked_fs = fst (build_tree [(''a'', 3)])" "files marked_fs = snd (build_tree [(''a'', 3)])" "pending marked_fs = []"
  by (simp_all add: marked_fs_def req_file_def get_req_def zero_request_def md_request_def zero_channel_def sample_fs_def boot_state_def)


lemma delete_started:
  assumes "dir_is (bt_heap st) (files st) m" "length nm \<le> 255" "m nm = Some f" "md_request st r" "file_heap st f = Some fl"
  shows "ref_count fl = 0 \<Longrightarrow> spdk_fs_delete_file_async st nm cb =
      do { fname \<leftarrow> name fl;
           filename \<leftarrow> strcpy_filename fname;
           st \<leftarrow> file_free (taken st r ((fresh_request (md_fs_channel st))\<lparr>fn := Fn_file cb\<rparr>)) f;
           st \<leftarrow> files_remove st filename;
           Some (bs_submit (BS_delete_blob (blobid fl)) (Bs_blob_delete r) st) }"
    and "ref_count fl > 0 \<Longrightarrow> spdk_fs_delete_file_async st nm cb =
      do { b \<leftarrow> blob fl;
           Some (bs_submit (BS_sync_md b) (Bs_blob_delete r) (set_xattr b (X_is_deleted True)
             ((taken st r ((fresh_request (md_fs_channel st))\<lparr>fn := Fn_file cb\<rparr>))\<lparr>file_heap := (file_heap st)(f \<mapsto> fl\<lparr>is_deleted := True\<rparr>)\<rparr>))) }"
  using assms(2,3,5) fs_find_file_dir [OF assms(1), of nm] alloc_md [OF assms(4)]
  by (auto simp: spdk_fs_delete_file_async_def name_too_long_def SPDK_FILE_NAME_MAX_def upd_taken get_file_def upd_file_def)

text \<open>C28: Deleting a file (with a name shorter than 255 bytes) that nobody has open and that has no cached page removes exactly
  its name from the directory, frees the file and asks the blobstore to delete its blob; the
  user is answered when that is done.\<close>

theorem delete_closed_file:
  assumes "dir_is (bt_heap st) (files st) m" "length nm < 255" "m nm = Some f" "md_request st r"
    and "file_heap st f = Some fl" "name fl = Some nm" "ref_count fl = 0" "\<not> lock fl" "present_mask (tree fl) = 0"
  shows "\<exists>st'. spdk_fs_delete_file_async st nm (Cb_user u) = Some st' \<and>
    dir_is (bt_heap st') (files st') (m(nm := None)) \<and> file_heap st' = (file_heap st)(f := None) \<and>
    pending st' = pending st @ [(BS_delete_blob (blobid fl), Bs_blob_delete r)] \<and> replies st' = replies st"
proof -
  let ?st = "(taken st r ((fresh_request (md_fs_channel st))\<lparr>fn := Fn_file (Cb_user u)\<rparr>))\<lparr>file_heap := (file_heap st)(f := None)\<rparr>"
  obtain h root where "files_remove ?st nm = Some (?st\<lparr>bt_heap := h, files := root\<rparr>)" "dir_is h root (m(nm := None))"
    using files_remove_dir [of ?st m nm] assms(1) by auto
  then show ?thesis
    using delete_started(1) [OF assms(1) _ assms(3-5,7), of "Cb_user u"] assms(2,5-9)
    by (simp add: strcpy_filename_def SPDK_FILE_NAME_MAX_def file_free_def lock_file_def unlock_file_def destroy_file_def
        get_file_def upd_file_def bs_submit_def)
qed

theorem delete_closed_file_witness:
  "\<exists>st'. spdk_fs_delete_file_async (sample_fs [(''a'', 3), (''b'', 4)] [3 \<mapsto> sample_file ''a'']) ''a'' (Cb_user 7) = Some st' \<and>
    fs_find_file st' ''a'' = Some None \<and> fs_find_file st' ''b'' = Some (Some 4) \<and> pending st' = [(BS_delete_blob 9, Bs_blob_delete 20)]"
  using delete_closed_file [of "sample_fs [(''a'', 3), (''b'', 4)] [3 \<mapsto> sample_file ''a'']" "map_of [(''a'', 3), (''b'', 4)]" "''a''" 3 20 "sample_file ''a''" 7]
    sample_fs_dir [of "[(''a'', 3), (''b'', 4)]" "[3 \<mapsto> sample_file ''a'']"]
  by (auto simp: sample_file_def zero_file_def calloc_tree_def fs_find_file_dir)


text \<open>Deleting a file that is open leaves it in place for its users: the file is marked,
  the mark is written to the blob and synced, and neither the directory nor the cached data
  change; from then on an open of that name fails with \<open>-ENOENT\<close>.\<close>

theorem delete_open_file_hides_it:
  assumes "dir_is (bt_heap st) (files st) m" "length nm \<le> 255" "m nm = Some f" "md_request st r"
    and "file_heap st f = Some fl" "ref_count fl > 0" "blob fl = Some b"
  shows "\<exists>st'. spdk_fs_delete_file_async st nm (Cb_user u) = Some st' \<and>
    file_heap st' = (file_heap st)(f \<mapsto> fl\<lparr>is_deleted := True\<rparr>) \<and> bt_heap st' = bt_heap st \<and> files st' = files st \<and>
    buffers st' = buffers st \<and> xattrs st' = xattrs st @ [(b, X_is_deleted True)] \<and>
    pending st' = pending st @ [(BS_sync_md b, Bs_blob_delete r)] \<and>
    spdk_fs_open_file_async st' nm flags (Hcb_user v) = Some (st'\<lparr>replies := replies st' @ [Reply_file v None (- ENOENT)]\<rparr>)"
proof -
  obtain st' where st': "spdk_fs_delete_file_async st nm (Cb_user u) = Some st'"
    "file_heap st' = (file_heap st)(f \<mapsto> fl\<lparr>is_deleted := True\<rparr>)" "bt_heap st' = bt_heap st" "files st' = files st"
    "buffers st' = buffers st" "xattrs st' = xattrs st @ [(b, X_is_deleted True)]"
    "pending st' = pending st @ [(BS_sync_md b, Bs_blob_delete r)]"
    using delete_started(2) [OF assms(1-6), of "Cb_user u"] assms(7) by (simp add: bs_submit_def set_xattr_def)
  moreover have "spdk_fs_open_file_async st' nm flags (Hcb_user v) = Some (st'\<lparr>replies := replies st' @ [Reply_file v None (- ENOENT)]\<rparr>)"
    using assms(2,3) fs_find_file_dir [of st' m nm] assms(1) st'(2-4)
    by (simp add: spdk_fs_open_file_async_def name_too_long_def SPDK_FILE_NAME_MAX_def get_file_def reply_def)
  ultimately show ?thesis by blast
qed

theorem delete_open_file_hides_it_witness:
  "\<exists>st'. spdk_fs_delete_file_async (sample_fs [(''a'', 3)] [3 \<mapsto> open_file ''a'']) ''a'' (Cb_user 7) = Some st' \<and>
    spdk_fs_open_file_async st' ''a'' 1 (Hcb_user 8) = Some (st'\<lparr>replies := replies st' @ [Reply_file 8 None (- ENOENT)]\<rparr>)"
  using delete_open_file_hides_it [of "sample_fs [(''a'', 3)] [3 \<mapsto> open_file ''a'']" "map_of [(''a'', 3)]" "''a''" 3 20 "open_file ''a''" 5 7 1 8]
    sample_fs_dir [of "[(''a'', 3)]" "[3 \<mapsto> open_file ''a'']"]
  by (auto simp: open_file_def)


text \<open>C29: The last close of a file (with a name shorter than 255 bytes) that was marked as deleted carries the deletion out: once
  the blob is closed, the name leaves the directory, the file is freed and the blobstore is
  asked to delete the blob.\<close>

theorem last_close_deletes_marked_file:
  assumes "dir_is (bt_heap st) (files st) m" "length nm < 255" "m nm = Some f" "md_request st r"
    and "file_heap st f = Some fl" "name fl = Some nm" "ref_count fl = 0" "\<not> lock fl" "present_mask (tree fl) = 0"
    and "is_deleted fl" "req_file st q = Some f"
  shows "\<exists>st'. file_close_async_done st q e = Some st' \<and>
    dir_is (bt_heap st') (files st') (m(nm := None)) \<and> file_heap st' = (file_heap st)(f := None) \<and>
    pending st' = pending st @ [(BS_delete_blob (blobid fl), Bs_blob_delete r)]"
proof -
  let ?st = "(taken st r ((fresh_request (md_fs_channel st))\<lparr>fn := Fn_file (Cb_blob_delete q)\<rparr>))\<lparr>file_heap := (file_heap st)(f := None)\<rparr>"
  obtain h root where "files_remove ?st nm = Some (?st\<lparr>bt_heap := h, files := root\<rparr>)" "dir_is h root (m(nm := None))"
    using files_remove_dir [of ?st m nm] assms(1) by auto
  then show ?thesis
    using delete_started(1) [OF assms(1) _ assms(3-5,7), of "Cb_blob_delete q"] assms(2,5-11)
    by (simp add: file_close_async_done_def strcpy_filename_def SPDK_FILE_NAME_MAX_def file_free_def lock_file_def unlock_file_def
        destroy_file_def get_file_def upd_file_def bs_submit_def)
qed

theorem last_close_deletes_marked_file_witness:
  "\<exists>st'. file_close_async_done marked_fs 24 0 = Some st' \<and> dir_is (bt_heap st') (files st') Map.empty \<and>
    pending st' = [(BS_delete_blob 9, Bs_blob_delete 20)]"
  using last_close_deletes_marked_file [of marked_fs "map_of [(''a'', 3)]" "''a''" 3 20 "(sample_file ''a'')\<lparr>is_deleted := True\<rparr>" 24 0]
    sample_fs_dir [of "[(''a'', 3)]" Map.empty]
  by (auto simp: marked_fs_simps sample_file_def zero_file_def calloc_tree_def)


text \<open>Deleting a file while its first open is still waiting for the blobstore crashes:
  the file counts a reference but has no blob yet, and the NULL blob is handed to the
  blobstore.\<close>

theorem delete_during_open_crashes:
  assumes "dir_is (bt_heap st) (files st) m" "length nm \<le> 255" "m nm = Some f" "md_request st r"
    and "file_heap st f = Some fl" "ref_count fl > 0" "blob fl = None"
  shows "spdk_fs_delete_file_async st nm cb = None"
  using delete_started(2) [OF assms(1-6), of cb] assms(7) by simp

theorem delete_during_open_crashes_witness:
  "spdk_fs_delete_file_async (waiting_fs 1) ''a'' (Cb_user 7) = None"
  using delete_during_open_crashes [of "waiting_fs 1" "map_of [(''a'', 3)]" "''a''" 3 22 "waiting_file 1" "Cb_user 7"]
    sample_fs_dir [of "[(''a'', 3)]" Map.empty] by (simp add: waiting_fs_simps)


text \<open>A file whose name has 255 bytes can be created, but deleting it writes past the
  end of the 255-byte buffer the name is copied to.\<close>

theorem delete_longest_name_overflows:
  assumes "dir_is (bt_heap st) (files st) m" "length nm = 255" "m nm = Some f" "md_request st r"
    and "file_heap st f = Some fl" "name fl = Some nm" "ref_count fl = 0"
  shows "\<not> name_too_long nm \<and> spdk_fs_delete_file_async st nm cb = None"
  using delete_started(1) [OF assms(1) _ assms(3-5,7), of cb] assms(2,6)
  by (simp add: name_too_long_def strcpy_filename_def SPDK_FILE_NAME_MAX_def)

theorem delete_longest_name_overflows_witness:
  "spdk_fs_delete_file_async (sample_fs [(replicate 255 (CHR ''x''), 3)] [3 \<mapsto> sample_file (replicate 255 (CHR ''x''))])
    (replicate 255 (CHR ''x'')) (Cb_user 7) = None"
proof -
  let ?nm = "replicate 255 (CHR ''x'')"
  have "length ?nm = 255" "sample_file ?nm = zero_file\<lparr>name := Some ?nm, blobid := 9\<rparr>" by (simp_all only: length_replicate sample_file_def)
  then show ?thesis
    using delete_longest_name_overflows [of "sample_fs [(?nm, 3)] [3 \<mapsto> sample_file ?nm]" "map_of [(?nm, 3)]" ?nm 3 20 "sample_file ?nm" "Cb_user 7"]
      sample_fs_dir [of "[(?nm, 3)]" "[3 \<mapsto> sample_file ?nm]"]
    by (simp add: zero_file_def)
qed


section \<open>Renaming\<close>

lemma rename_md:
  assumes "dir_is (bt_heap st) (files st) m" "m old = Some f" "m new = None" "length new \<le> 255"
    and "file_heap st f = Some fl" "name fl = Some old" "requests st r = Some rq" "op rq = Op_rename old new"
    and "stack_cond st \<noteq> 0 \<or> m(old := None) \<noteq> Map.empty"
  shows "\<exists>st'. fs_md_rename_file st r = Some st' \<and> dir_is (bt_heap st') (files st') (m(old := None, new \<mapsto> f)) \<and>
    file_heap st' = (file_heap st)(f \<mapsto> fl\<lparr>name := Some new, trace_arg_name := fs_name_to_uint64 new\<rparr>) \<and>
    pending st' = pending st @ [(BS_open_blob (blobid fl), Bs_rename_blob_open r)] \<and> replies st' = replies st"
proof -
  obtain h root where rem: "files_remove st old = Some (st\<lparr>bt_heap := h, files := root\<rparr>)" "dir_is h root (m(old := None))"
    using files_remove_dir [OF assms(1)] by blast
  have "\<exists>h' root'. files_insert (st\<lparr>bt_heap := h, files := root\<rparr>) new f =
      Some ((st\<lparr>bt_heap := h, files := root\<rparr>)\<lparr>bt_heap := h', files := root'\<rparr>) \<and> dir_is h' root' (m(old := None, new \<mapsto> f))"
    using assms(3,4,9) rem(2) by (intro files_insert_new) (auto simp: MAX_KEY_LEN_def)
  then obtain h' root' where ins: "files_insert (st\<lparr>bt_heap := h, files := root\<rparr>) new f = Some (st\<lparr>bt_heap := h', files := root'\<rparr>)"
      "dir_is h' root' (m(old := None, new \<mapsto> f))" by auto
  then show ?thesis
    using rem(1) assms(2,5-8) fs_find_file_dir [OF assms(1), of old]
    by (simp add: fs_md_rename_file_def op_rename_names_def file_build_trace_arg_name_def exec)
qed

text \<open>C30: A rename to a name that is not in use moves the entry: the old name is gone, the
  new one leads to the same file and nothing else changes in the directory; then the blob is
  opened so that its name attribute can be rewritten.  The file is not the only one, or the
  uninitialised \<open>cond\<close> of \<open>B_plus_tree_insert\<close> is not 0: otherwise the emptied index drops the new name
  (\<open>fresh_insert_may_be_lost\<close>).\<close>

theorem rename_moves_entry:
  assumes "dir_is (bt_heap st) (files st) m" "m old = Some f" "m new = None" "length new \<le> 255" "md_request st r"
    and "file_heap st f = Some fl" "name fl = Some old" "stack_cond st \<noteq> 0 \<or> m(old := None) \<noteq> Map.empty"
  shows "\<exists>st'. spdk_fs_rename_file_async st old new (Cb_user u) = Some st' \<and>
    dir_is (bt_heap st') (files st') (m(old := None, new \<mapsto> f)) \<and>
    file_heap st' = (file_heap st)(f \<mapsto> fl\<lparr>name := Some new, trace_arg_name := fs_name_to_uint64 new\<rparr>) \<and>
    pending st' = pending st @ [(BS_open_blob (blobid fl), Bs_rename_blob_open r)] \<and> replies st' = replies st"
proof -
  let ?st = "taken st r ((fresh_request (md_fs_channel st))\<lparr>fn := Fn_file (Cb_user u), op := Op_rename old new\<rparr>)"
  have "fs_find_file ?st new = Some None" using fs_find_file_dir [of ?st m new] assms(1,3) by simp
  then have "spdk_fs_rename_file_async st old new (Cb_user u) = fs_md_rename_file ?st r"
    using assms(4) alloc_md [OF assms(5)]
    by (simp add: spdk_fs_rename_file_async_def name_too_long_def SPDK_FILE_NAME_MAX_def upd_taken)
  then show ?thesis using rename_md [of ?st m old f new fl r] assms by simp
qed

theorem rename_moves_entry_witness:
  "\<exists>st'. spdk_fs_rename_file_async (sample_fs [(''a'', 3)] [3 \<mapsto> sample_file ''a'']) ''a'' ''b'' (Cb_user 7) = Some st' \<and>
    fs_find_file st' ''a'' = Some None \<and> fs_find_file st' ''b'' = Some (Some 3)"
  using rename_moves_entry [of "sample_fs [(''a'', 3)] [3 \<mapsto> sample_file ''a'']" "map_of [(''a'', 3)]" "''a''" 3 "''b''" 20 "sample_file ''a''" 7]
    sample_fs_dir [of "[(''a'', 3)]" "[3 \<mapsto> sample_file ''a'']"]
  by (auto simp: sample_file_def fs_find_file_dir)


lemma rename_over:
  assumes "dir_is (bt_heap st) (files st) m" "m new = Some g" "length new \<le> 255" "md_request st r"
  shows "spdk_fs_rename_file_async st old new cb = spdk_fs_delete_file_async
    (taken st r ((fresh_request (md_fs_channel st))\<lparr>fn := Fn_file cb, op := Op_rename old new\<rparr>)) new (Cb_rename_delete_done r)"
  using assms(2,3) fs_find_file_dir [of "taken st r ((fresh_request (md_fs_channel st))\<lparr>fn := Fn_file cb, op := Op_rename old new\<rparr>)" m new]
    alloc_md [OF assms(4)] assms(1)
  by (simp add: spdk_fs_rename_file_async_def name_too_long_def SPDK_FILE_NAME_MAX_def upd_taken)

text \<open>C37: A rename over a name whose file is still open loses the renamed file: the old name
  is removed, but the new one, whose file is only marked as deleted, keeps leading to that
  file, because the index ignores an insertion of a name it has.  The blobstore calls go on as
  if the rename had worked.\<close>

theorem rename_over_open_loses_file:
  assumes "dir_is (bt_heap st) (files st) m" "m old = Some f" "m new = Some g" "f \<noteq> g" "old \<noteq> new" "length new \<le> 255"
    and "md_requests2 st r r2" "file_heap st f = Some fl" "name fl = Some old"
    and "file_heap st g = Some gl" "ref_count gl > 0" "blob gl = Some b"
  shows "\<exists>st1 st2. spdk_fs_rename_file_async st old new (Cb_user u) = Some st1 \<and>
    pending st1 = pending st @ [(BS_sync_md b, Bs_blob_delete r2)] \<and>
    blob_delete_cb (st1\<lparr>pending := pending st\<rparr>) r2 0 = Some st2 \<and>
    dir_is (bt_heap st2) (files st2) (m(old := None)) \<and> (m(old := None)) new = Some g \<and>
    pending st2 = pending st @ [(BS_open_blob (blobid fl), Bs_rename_blob_open r)]"
proof -
  define rq where "rq = (fresh_request (md_fs_channel st))\<lparr>fn := Fn_file (Cb_user u), op := Op_rename old new\<rparr>"
  define rq2 where "rq2 = (fresh_request (md_fs_channel st))\<lparr>fn := Fn_file (Cb_rename_delete_done r)\<rparr>"
  let ?st = "taken st r rq"
  let ?st1 = "(taken ?st r2 rq2)\<lparr>file_heap := (file_heap st)(g \<mapsto> gl\<lparr>is_deleted := True\<rparr>),
     xattrs := xattrs st @ [(b, X_is_deleted True)], pending := pending st @ [(BS_sync_md b, Bs_blob_delete r2)]\<rparr>"
  have "spdk_fs_rename_file_async st old new (Cb_user u) = spdk_fs_delete_file_async ?st new (Cb_rename_delete_done r)"
    using rename_over [OF assms(1,3,6) md_requests2_first [OF assms(7)]] by (simp add: rq_def)
  also have "\<dots> = Some ?st1"
    using delete_started(2) [of ?st m new g r2 gl "Cb_rename_delete_done r"] assms md_requests2_second [OF assms(7), of rq]
    by (simp add: bs_submit_def set_xattr_def rq2_def)
  finally have st1: "spdk_fs_rename_file_async st old new (Cb_user u) = Some ?st1" .
  let ?st2 = "?st1\<lparr>pending := pending st\<rparr>"
  obtain h root where rem: "files_remove ?st2 old = Some (?st2\<lparr>bt_heap := h, files := root\<rparr>)" "dir_is h root (m(old := None))"
    using files_remove_dir [of ?st2 m old] assms(1) by auto
  have ins: "files_insert (?st2\<lparr>bt_heap := h, files := root\<rparr>) new f = Some (?st2\<lparr>bt_heap := h, files := root\<rparr>)"
    using files_insert_old [of "?st2\<lparr>bt_heap := h, files := root\<rparr>" "m(old := None)" new g f] rem(2) assms(3,5) by simp
  have "fs_find_file ?st2 old = Some (Some f)" using fs_find_file_dir [of ?st2 m old] assms(1,2) by simp
  then have "\<exists>st3. fs_md_rename_file ?st2 r = Some st3 \<and> bt_heap st3 = h \<and> files st3 = root \<and>
      pending st3 = pending st @ [(BS_open_blob (blobid fl), Bs_rename_blob_open r)] \<and> requests st3 r2 = Some rq2 \<and> channels st3 = channels ?st1"
    using rem(1) ins assms(4,7,8,9)
    by (simp add: fs_md_rename_file_def op_rename_names_def file_build_trace_arg_name_def get_req_def get_file_def upd_file_def
        upd_req_def bs_submit_def rq_def rq2_def md_requests2_def)
  then obtain st3 where st3: "fs_md_rename_file ?st2 r = Some st3" "bt_heap st3 = h" "files st3 = root"
      "pending st3 = pending st @ [(BS_open_blob (blobid fl), Bs_rename_blob_open r)]" "requests st3 r2 = Some rq2" "channels st3 = channels ?st1"
    by blast
  have "free_fs_request st3 r2 = Some (st3\<lparr>channels := channels ?st\<rparr>)"
    using free_taken [OF md_requests2_second [OF assms(7), of rq], of st3 rq2 rq2] st3(5,6) by (simp add: rq2_def)
  then have "blob_delete_cb ?st2 r2 0 = Some (st3\<lparr>channels := channels ?st\<rparr>)"
    using st3(1) by (simp add: blob_delete_cb_def blob_delete_with_def fn_file_def get_req_def rq2_def fs_rename_delete_done_def)
  then show ?thesis using st1 st3(2-4) rem(2) assms(3,5) by auto
qed

theorem rename_over_open_loses_file_witness:
  "\<exists>st1 st2. spdk_fs_rename_file_async (sample_fs [(''a'', 3), (''b'', 4)] [3 \<mapsto> sample_file ''a'', 4 \<mapsto> open_file ''b'']) ''a'' ''b'' (Cb_user 7) = Some st1 \<and>
    blob_delete_cb (st1\<lparr>pending := []\<rparr>) 21 0 = Some st2 \<and>
    dir_is (bt_heap st2) (files st2) ((map_of [(''a'', 3), (''b'', 4)])(''a'' := None))"
  using rename_over_open_loses_file [of "sample_fs [(''a'', 3), (''b'', 4)] [3 \<mapsto> sample_file ''a'', 4 \<mapsto> open_file ''b'']"
      "map_of [(''a'', 3), (''b'', 4)]" "''a''" 3 "''b''" 4 20 21 "sample_file ''a''" "open_file ''b''" 5 7]
    sample_fs_dir [of "[(''a'', 3), (''b'', 4)]" "[3 \<mapsto> sample_file ''a'', 4 \<mapsto> open_file ''b'']"]
  by (auto simp: sample_file_def open_file_def)


text \<open>Renaming a closed file to its own name destroys it: the file is deleted as the
  target of the rename, its blob too, and then the rename fails with \<open>-ENOENT\<close>.\<close>

theorem rename_to_itself_deletes_file:
  assumes "dir_is (bt_heap st) (files st) m" "m nm = Some f" "length nm < 255" "md_requests2 st r r2"
    and "file_heap st f = Some fl" "name fl = Some nm" "ref_count fl = 0" "\<not> lock fl" "present_mask (tree fl) = 0"
  shows "\<exists>st1 st2. spdk_fs_rename_file_async st nm nm (Cb_user u) = Some st1 \<and>
    pending st1 = pending st @ [(BS_delete_blob (blobid fl), Bs_blob_delete r2)] \<and>
    blob_delete_cb (st1\<lparr>pending := pending st\<rparr>) r2 0 = Some st2 \<and>
    replies st2 = replies st @ [Reply_op u (- ENOENT)] \<and>
    dir_is (bt_heap st2) (files st2) (m(nm := None)) \<and> file_heap st2 = (file_heap st)(f := None)"
proof -
  define rq where "rq = (fresh_request (md_fs_channel st))\<lparr>fn := Fn_file (Cb_user u), op := Op_rename nm nm\<rparr>"
  define rq2 where "rq2 = (fresh_request (md_fs_channel st))\<lparr>fn := Fn_file (Cb_rename_delete_done r)\<rparr>"
  let ?st = "taken st r rq"
  let ?sf = "(taken ?st r2 rq2)\<lparr>file_heap := (file_heap st)(f := None)\<rparr>"
  obtain h root where rem: "files_remove ?sf nm = Some (?sf\<lparr>bt_heap := h, files := root\<rparr>)" "dir_is h root (m(nm := None))"
    using files_remove_dir [of ?sf m nm] assms(1) by auto
  let ?st1 = "?sf\<lparr>bt_heap := h, files := root, pending := pending st @ [(BS_delete_blob (blobid fl), Bs_blob_delete r2)]\<rparr>"
  have "spdk_fs_rename_file_async st nm nm (Cb_user u) = spdk_fs_delete_file_async ?st nm (Cb_rename_delete_done r)"
    using rename_over [OF assms(1,2) _ md_requests2_first [OF assms(4)]] assms(3) by (simp add: rq_def)
  also have "\<dots> = Some ?st1"
    using delete_started(1) [of ?st m nm f r2 fl "Cb_rename_delete_done r"] assms md_requests2_second [OF assms(4), of rq] rem(1)
    by (simp add: strcpy_filename_def SPDK_FILE_NAME_MAX_def file_free_def lock_file_def unlock_file_def destroy_file_def
        get_file_def upd_file_def bs_submit_def rq2_def)
  finally have st1: "spdk_fs_rename_file_async st nm nm (Cb_user u) = Some ?st1" .
  let ?st2 = "?st1\<lparr>pending := pending st\<rparr>"
  let ?st3 = "?st2\<lparr>replies := replies st @ [Reply_op u (- ENOENT)]\<rparr>"
  have "fs_find_file ?st2 nm = Some None" using fs_find_file_dir [of ?st2 "m(nm := None)" nm] rem(2) by simp
  moreover have "r \<noteq> r2" using assms(4) by (simp add: md_requests2_def)
  moreover obtain st4 where "free_fs_request ?st3 r = Some st4" "requests st4 = requests ?st3" "bt_heap st4 = h" "files st4 = root"
      "file_heap st4 = file_heap ?st3" "replies st4 = replies ?st3" "\<exists>ch. channels st4 (md_fs_channel st) = Some ch \<and> r2 \<notin> set (reqs ch)"
    using assms(4) by (auto simp: md_requests2_def free_fs_request_def get_req_def upd_channel_def taken_def rq_def)
  moreover from this obtain st5 where "free_fs_request st4 r2 = Some st5" "bt_heap st5 = h" "files st5 = root"
      "file_heap st5 = (file_heap st)(f := None)" "replies st5 = replies ?st3"
    using \<open>r \<noteq> r2\<close> by (auto simp: free_fs_request_def get_req_def upd_channel_def rq2_def)
  ultimately have "blob_delete_cb ?st2 r2 0 = Some st5"
    by (simp add: blob_delete_cb_def blob_delete_with_def fn_file_def get_req_def fs_rename_delete_done_def
        fs_md_rename_file_def op_rename_names_def rq_def rq2_def reply_def)
  then show ?thesis
    using st1 rem(2) \<open>bt_heap st5 = h\<close> \<open>files st5 = root\<close> \<open>file_heap st5 = _\<close> \<open>replies st5 = _\<close> by auto
qed

theorem rename_to_itself_deletes_file_witness:
  "\<exists>st1 st2. spdk_fs_rename_file_async (sample_fs [(''a'', 3)] [3 \<mapsto> sample_file ''a'']) ''a'' ''a'' (Cb_user 7) = Some st1 \<and>
    blob_delete_cb (st1\<lparr>pending := []\<rparr>) 21 0 = Some st2 \<and> replies st2 = [Reply_op 7 (- ENOENT)] \<and> file_heap st2 3 = None"
  using rename_to_itself_deletes_file [of "sample_fs [(''a'', 3)] [3 \<mapsto> sample_file ''a'']" "map_of [(''a'', 3)]" "''a''" 3 20 21 "sample_file ''a''" 7]
    sample_fs_dir [of "[(''a'', 3)]" "[3 \<mapsto> sample_file ''a'']"]
  by (auto simp: sample_file_def zero_file_def calloc_tree_def)


end
