(* ===== verification/NBFS_Safety.thy ===== *)
theory NBFS_Safety
  imports NBFS_Invariant NBFS_Directory
begin

text \<open>
  Three invariants of the layer, each an interpretation of \<open>nbfs_invariant\<close>: a handler holds
  no file lock when it ends, the free list and the counter of outstanding requests of every channel
  account for its array of requests, and the allocators never hand out the number of a live object.
  And two defects that end a run: a failed load frees its request twice, and a write that
  had to grow the blob unlocks the file twice.
\<close>

section \<open>What the primitives change\<close>

text \<open>The part of the state the three invariants speak of.\<close>

definition heaps :: "nbfs \<Rightarrow> _" where
  "heaps st = ((file_heap st, fresh_file st), (buffers st, fresh_buf st),
               (channels st, fresh_chan st), (requests st, fresh_req st))"

abbreviation same_data :: "nbfs \<Rightarrow> nbfs \<Rightarrow> bool" where
  "same_data st st' \<equiv> file_heap st' = file_heap st \<and> fresh_file st' = fresh_file st \<and>
     buffers st' = buffers st \<and> fresh_buf st' = fresh_buf st"

lemma heaps_eq:
  "heaps st' = heaps st \<longleftrightarrow> same_data st st' \<and> channels st' = channels st \<and> fresh_chan st' = fresh_chan st \<and>
     requests st' = requests st \<and> fresh_req st' = fresh_req st"
  by (auto simp: heaps_def)

lemma try_alloc_heaps: "try_alloc st = (ok, st') \<Longrightarrow> heaps st' = heaps st"
  by (auto simp: try_alloc_def heaps_def split: list.splits)

definition take_request :: "spdk_fs_channel \<Rightarrow> spdk_fs_channel" where
  "take_request ch = ch\<lparr>outstanding_reqs := outstanding_reqs ch + 1, reqs := tl (reqs ch)\<rparr>"

lemma alloc_E:
  assumes "alloc_fs_request_with_iov st c n = Some (st', req)"
  obtains "heaps st' = heaps st" "req = None"
  | ch r rs rq rq' where "channels st c = Some ch" "reqs ch = r # rs" "requests st r = Some rq" "req = Some r" "channel rq' = Some c"
      "same_data st st'" "channels st' = (channels st)(c \<mapsto> take_request ch)" "fresh_chan st' = fresh_chan st"
      "requests st' = (requests st)(r \<mapsto> rq')" "fresh_req st' = fresh_req st"
proof -
  obtain ok st1 where a: "(if n > 1 then try_alloc st else (True, st)) = (ok, st1)" by fastforce
  then have h: "heaps st1 = heaps st" by (auto dest: try_alloc_heaps split: if_splits)
  show thesis
  proof (cases "\<not> ok \<or> (\<exists>ch. channels st1 c = Some ch \<and> reqs ch = [])")
    case True
    then have "heaps st' = heaps st" "req = None"
      using assms a h by (auto simp: alloc_fs_request_with_iov_def Let_def split: if_splits)
    then show thesis by (rule that(1))
  next
    case False
    then obtain ch r rs where "channels st1 c = Some ch" "reqs ch = r # rs"
      using assms a by (cases "channels st1 c") (auto simp: alloc_fs_request_with_iov_def Let_def neq_Nil_conv)
    then show thesis
      using assms a False h that(2) [of ch r rs _ "zero_request\<lparr>channel := Some c,
          iovs := replicate (if 1 < n then unat n else 1) zero_iovec, iovcnt := n\<rparr>"]
      by (auto simp: alloc_fs_request_with_iov_def Let_def upd_channel_def upd_req_def bind_Some_iff take_request_def heaps_eq)
  qed
qed

definition put_request :: "req_ptr \<Rightarrow> spdk_fs_channel \<Rightarrow> spdk_fs_channel" where
  "put_request r ch = ch\<lparr>reqs := r # reqs ch, outstanding_reqs := outstanding_reqs ch - 1\<rparr>"

lemma free_E:
  assumes "free_fs_request st r = Some st'"
  obtains c ch rq where "channels st c = Some ch" "requests st r = Some rq" "channel rq = Some c" "r \<notin> set (reqs ch)"
    "st' = st\<lparr>channels := (channels st)(c \<mapsto> put_request r ch)\<rparr>"
  using assms that by (auto simp: free_fs_request_def upd_channel_def get_req_def bind_Some_iff put_request_def)

text \<open>A new channel, with its requests or, when a thread's allocation failed, without.\<close>

definition new_channel :: "nbfs \<Rightarrow> nbfs \<Rightarrow> nat \<Rightarrow> spdk_fs_channel \<Rightarrow> bool" where
  "new_channel st st' n ch \<longleftrightarrow>
     n \<in> {0, 512} \<and> reqs ch = [fresh_req st..<fresh_req st + n] \<and> outstanding_reqs ch = 0 \<and> same_data st st' \<and>
     channels st' = (channels st)(fresh_chan st \<mapsto> ch) \<and> fresh_chan st' = fresh_chan st + 1 \<and>
     (\<forall>r. requests st' r = (if fresh_req st \<le> r \<and> r < fresh_req st + n then Some zero_request else requests st r)) \<and>
     fresh_req st' = fresh_req st + n"

lemma channel_create_new:
  assumes "fs_channel_create (st\<lparr>channels := (channels st)(fresh_chan st \<mapsto> zero_channel), fresh_chan := Suc (fresh_chan st)\<rparr>)
      (fresh_chan st) 512 = Some (st', e)"
  shows "\<exists>n ch. new_channel st st' n ch"
proof -
  let ?st = "st\<lparr>channels := (channels st)(fresh_chan st \<mapsto> zero_channel), fresh_chan := Suc (fresh_chan st)\<rparr>"
  obtain ok st1 where a: "try_alloc ?st = (ok, st1)" by fastforce
  have h: "heaps st1 = heaps ?st" using a by (rule try_alloc_heaps)
  show ?thesis
  proof (cases ok)
    case False
    then have "new_channel st st' 0 zero_channel"
      using assms a h by (auto simp: fs_channel_create_def heaps_eq new_channel_def zero_channel_def)
    then show ?thesis by blast
  next
    case True
    then have "new_channel st st' 512 (zero_channel\<lparr>outstanding_reqs := 0, reqs := [fresh_req st..<fresh_req st + 512], sem_value := 0\<rparr>)"
      using assms a h by (auto simp: fs_channel_create_def Let_def upd_channel_def bind_Some_iff heaps_eq new_channel_def)
    then show ?thesis by blast
  qed
qed

lemma get_io_channel_new:
  assumes "get_io_channel st (\<lambda>st c. fs_channel_create st c 512) = Some (st', c)"
  shows "\<exists>n ch. new_channel st st' n ch"
  using assms by (auto simp: get_io_channel_def bind_Some_iff Let_def dest: channel_create_new)

lemma thread_ctx_new:
  assumes "spdk_fs_alloc_thread_ctx st ok = Some (st', c)"
  obtains "heaps st' = heaps st" | n ch where "new_channel st st' n ch"
proof -
  obtain b st1 where a: "try_alloc st = (b, st1)" by fastforce
  have h: "heaps st1 = heaps st" using a by (rule try_alloc_heaps)
  show thesis
  proof (cases "b \<and> ok")
    case False
    then have "heaps st' = heaps st" using assms a h by (auto simp: spdk_fs_alloc_thread_ctx_def Let_def)
    then show thesis by (rule that(1))
  next
    case True
    then obtain st2 e where c: "fs_channel_create (st1\<lparr>channels := (channels st1)(fresh_chan st1 \<mapsto> zero_channel),
          fresh_chan := Suc (fresh_chan st1)\<rparr>) (fresh_chan st1) 512 = Some (st2, e)"
      and u: "upd_channel st2 (fresh_chan st1) (\<lambda>ch. ch\<lparr>direct := False, sync := True\<rparr>) = Some st'"
      using assms a by (auto simp: spdk_fs_alloc_thread_ctx_def Let_def bind_Some_iff split: prod.splits)
    from c obtain n ch where "new_channel st1 st2 n ch" using channel_create_new by blast
    then have "new_channel st st' n (ch\<lparr>direct := False, sync := True\<rparr>)"
      using u h by (auto simp: new_channel_def upd_channel_def heaps_eq bind_Some_iff)
    then show thesis by (rule that(2))
  qed
qed

section \<open>Invariants of the heaps\<close>

text \<open>The requests of \<open>R'\<close> are requests of \<open>R\<close> and belong to the same channels.\<close>

definition same_owners :: "(req_ptr \<rightharpoonup> spdk_fs_request) \<Rightarrow> (req_ptr \<rightharpoonup> spdk_fs_request) \<Rightarrow> bool" where
  "same_owners R R' \<longleftrightarrow> (\<forall>r rq'. R' r = Some rq' \<longrightarrow> (\<exists>rq. R r = Some rq \<and> channel rq = channel rq'))"

lemma same_ownersI:
  "(\<And>rq. R r = Some rq \<Longrightarrow> channel rq' = channel rq) \<Longrightarrow> R r \<noteq> None \<Longrightarrow> same_owners R (R(r \<mapsto> rq'))"
  "same_owners R (R(r := None))"
  by (auto simp: same_owners_def)

lemma same_owners_dom: "same_owners R R' \<Longrightarrow> dom R' \<subseteq> dom R"
  by (auto simp: same_owners_def)

locale heap_invariant =
  fixes J :: "file_ptr set \<Rightarrow> (file_ptr \<rightharpoonup> spdk_file) \<times> nat \<Rightarrow> (buf_ptr \<rightharpoonup> cache_buffer) \<times> nat \<Rightarrow>
    (chan_ptr \<rightharpoonup> spdk_fs_channel) \<times> nat \<Rightarrow> (req_ptr \<rightharpoonup> spdk_fs_request) \<times> nat \<Rightarrow> bool"
  assumes file_upd: "J X (F, i) B C R \<Longrightarrow> F f = Some fl \<Longrightarrow> lock fl' = lock fl \<Longrightarrow> J X (F(f \<mapsto> fl'), i) B C R"
  and file_lock: "J X (F, i) B C R \<Longrightarrow> F f = Some fl \<Longrightarrow> J (insert f X) (F(f \<mapsto> fl\<lparr>lock := True\<rparr>), i) B C R"
  and file_unlock: "J (insert f X) (F, i) B C R \<Longrightarrow> F f = Some fl \<Longrightarrow> J X (F(f \<mapsto> fl\<lparr>lock := False\<rparr>), i) B C R"
  and more_locks: "J X FF B C R \<Longrightarrow> J (insert f X) FF B C R"
  and file_new: "J X (F, i) B C R \<Longrightarrow> \<not> lock fl \<Longrightarrow> J X (F(i \<mapsto> fl), Suc i) B C R"
  and file_drop: "J X (F, i) B C R \<Longrightarrow> J X (F(f := None), i) B C R"
  and buffer_upd: "J X FF (bm, j) C R \<Longrightarrow> dom bm' \<subseteq> dom bm \<Longrightarrow> J X FF (bm', j) C R"
  and buffer_new: "J X FF (bm, j) C R \<Longrightarrow> J X FF (bm(j \<mapsto> cb), Suc j) C R"
  and channel_upd: "J X FF B (cm, k) R \<Longrightarrow> cm c = Some ch \<Longrightarrow> reqs ch' = reqs ch \<Longrightarrow>
      outstanding_reqs ch' = outstanding_reqs ch \<Longrightarrow> J X FF B (cm(c \<mapsto> ch'), k) R"
  and channel_new: "J X FF B (cm, k) (rm, l) \<Longrightarrow> n \<in> {0, 512} \<Longrightarrow> reqs ch = [l..<l + n] \<Longrightarrow> outstanding_reqs ch = 0 \<Longrightarrow>
      (\<And>r. rm' r = (if l \<le> r \<and> r < l + n then Some zero_request else rm r)) \<Longrightarrow>
      J X FF B (cm(k \<mapsto> ch), Suc k) (rm', l + n)"
  and channel_drop: "J X FF B (cm, k) (rm, l) \<Longrightarrow> same_owners rm rm' \<Longrightarrow> J X FF B (cm(c := None), k) (rm', l)"
  and request_upd: "J X FF B C (rm, l) \<Longrightarrow> same_owners rm rm' \<Longrightarrow> J X FF B C (rm', l)"
  and request_new: "J X FF B C (rm, l) \<Longrightarrow> channel rq = None \<Longrightarrow> J X FF B C (rm(l \<mapsto> rq), Suc l)"
  and request_take: "J X FF B (cm, k) (rm, l) \<Longrightarrow> cm c = Some ch \<Longrightarrow> reqs ch = r # rs \<Longrightarrow> rm r = Some rq \<Longrightarrow> channel rq' = Some c \<Longrightarrow>
      J X FF B (cm(c \<mapsto> take_request ch), k) (rm(r \<mapsto> rq'), l)"
  and request_put: "J X FF B (cm, k) (rm, l) \<Longrightarrow> cm c = Some ch \<Longrightarrow> rm r = Some rq \<Longrightarrow> channel rq = Some c \<Longrightarrow> r \<notin> set (reqs ch) \<Longrightarrow>
      J X FF B (cm(c \<mapsto> put_request r ch), k) (rm, l)"
begin

definition holds :: "file_ptr set \<Rightarrow> nbfs \<Rightarrow> bool" where
  "holds X st \<longleftrightarrow> J X (file_heap st, fresh_file st) (buffers st, fresh_buf st) (channels st, fresh_chan st) (requests st, fresh_req st)"

lemma entry_upd: "J X FF (bm, j) C R \<Longrightarrow> bm b = Some cb \<Longrightarrow> J X FF (bm(b \<mapsto> cb'), j) C R"
  using buffer_upd [of X FF bm j C R "bm(b \<mapsto> cb')"] by auto

lemma holds_heaps: "heaps st' = heaps st \<Longrightarrow> holds X st \<Longrightarrow> holds X st'"
  by (simp add: holds_def heaps_eq)

lemma holds_alloc:
  assumes "holds X st" "alloc_fs_request_with_iov st c n = Some (st', req)"
  shows "holds X st'"
  using assms(2)
proof (cases rule: alloc_E)
  case 1
  then show ?thesis using assms(1) holds_heaps by blast
next
  case (2 ch r rs rq rq')
  then show ?thesis using assms(1) unfolding holds_def by (auto intro: request_take)
qed

lemma holds_free:
  assumes "holds X st" "free_fs_request st r = Some st'"
  shows "holds X st'"
  using assms(2)
proof (cases rule: free_E)
  case (1 c ch rq)
  then show ?thesis using assms(1) unfolding holds_def by (auto intro: request_put)
qed

lemma holds_new_channel:
  assumes "holds X st" "new_channel st st' n ch"
  shows "holds X st'"
  using assms channel_new [of X _ _ "channels st" "fresh_chan st" "requests st" "fresh_req st" n ch "requests st'"]
  unfolding holds_def new_channel_def by simp

lemma holds_files:
  "holds X st \<Longrightarrow> (\<And>fl. lock (g fl) = lock fl) \<Longrightarrow> yields (holds X) (upd_file st f g)"
  "holds X st \<Longrightarrow> yields (holds (insert f X)) (lock_file st f)"
  "holds (insert f X) st \<Longrightarrow> yields (holds X) (unlock_file st f)"
  "holds X st \<Longrightarrow> holds (insert f X) st"
  "holds X st \<Longrightarrow> \<not> lock fl \<Longrightarrow>
     holds X (st\<lparr>file_heap := (file_heap st)(fresh_file st \<mapsto> fl), fresh_file := fresh_file st + 1\<rparr>)"
  "holds X st \<Longrightarrow> yields (holds X) (destroy_file st f)"
  unfolding holds_def yields_def lock_file_def unlock_file_def
  using file_upd [of X "file_heap st" "fresh_file st"]
  by (auto simp: upd_file_def get_file_def destroy_file_def bind_Some_iff
      intro: file_lock file_unlock more_locks file_new file_drop)

lemma holds_requests:
  "holds X st \<Longrightarrow> (\<And>rq. channel (h rq) = channel rq) \<Longrightarrow> yields (holds X) (upd_req st r h)"
  "holds X st \<Longrightarrow> channel rq = None \<Longrightarrow> holds X (fst (new_heap_request st rq))"
  "holds X st \<Longrightarrow> holds X (st\<lparr>requests := (requests st)(r := None)\<rparr>)"
  "holds X st \<Longrightarrow> yields_with (holds X) (alloc_fs_request_with_iov st c n)"
  "holds X st \<Longrightarrow> yields (holds X) (free_fs_request st r)"
proof -
  show "holds X st \<Longrightarrow> (\<And>rq. channel (h rq) = channel rq) \<Longrightarrow> yields (holds X) (upd_req st r h)"
    by (auto simp: holds_def yields_def upd_req_def bind_Some_iff intro!: same_ownersI elim!: request_upd)
  show "holds X st \<Longrightarrow> channel rq = None \<Longrightarrow> holds X (fst (new_heap_request st rq))"
    by (auto simp: holds_def new_heap_request_def intro: request_new)
  show "holds X st \<Longrightarrow> holds X (st\<lparr>requests := (requests st)(r := None)\<rparr>)"
    by (auto simp: holds_def simp del: fun_upd_apply intro!: same_ownersI elim!: request_upd)
qed (auto simp: yields_def yields_with_def intro: holds_alloc holds_free)

lemma holds_upd_channel:
  "holds X st \<Longrightarrow> (\<And>ch. reqs (hc ch) = reqs ch) \<Longrightarrow> (\<And>ch. outstanding_reqs (hc ch) = outstanding_reqs ch) \<Longrightarrow>
     yields (holds X) (upd_channel st c hc)"
  by (auto simp: holds_def yields_def upd_channel_def bind_Some_iff intro!: channel_upd)

lemma holds_get_io_channel:
  "holds X st \<Longrightarrow> yields_with (holds X) (get_io_channel st (\<lambda>st c. fs_channel_create st c 512))"
  unfolding yields_with_def using get_io_channel_new [of st] holds_new_channel [of X st] by fast

lemma holds_thread_ctx: "holds X st \<Longrightarrow> yields_with (holds X) (spdk_fs_alloc_thread_ctx st ok)"
  unfolding yields_with_def by (metis thread_ctx_new holds_new_channel holds_heaps)

lemma holds_destroy:
  assumes "holds X st"
  shows "yields (holds X) (fs_channel_destroy st c)"
proof -
  have "same_owners (requests st) (\<lambda>r. case requests st r of None \<Rightarrow> None | Some rq \<Rightarrow> if P r rq then None else Some rq)" for P
    by (auto simp: same_owners_def split: option.splits if_splits)
  then show ?thesis
    using assms unfolding holds_def yields_def fs_channel_destroy_def by (auto simp: bind_Some_iff intro!: channel_drop)
qed

lemma holds_buffers:
  "holds X st \<Longrightarrow> yields (holds X) (upd_buffer st b k)"
  "holds X st \<Longrightarrow> dom bm \<subseteq> dom (buffers st) \<Longrightarrow> holds X (st\<lparr>buffers := bm\<rparr>)"
  "holds X st \<Longrightarrow> holds X (st\<lparr>buffers := (buffers st)(fresh_buf st \<mapsto> cb), fresh_buf := fresh_buf st + 1\<rparr>)"
  by (auto simp: holds_def yields_def upd_buffer_def bind_Some_iff
      intro: entry_upd buffer_upd [where bm = "buffers st"] buffer_new)

end

lemmas io_channel_creates = fs_md_channel_create_def [abs_def] fs_sync_channel_create_def [abs_def]
  fs_io_channel_create_def [abs_def] target_max_ops_def

sublocale heap_invariant \<subseteq> nbfs_invariant holds
  by (unfold_locales, unfold io_channel_creates)
     (simp add: holds_def; fail | rule holds_files holds_requests holds_upd_channel holds_get_io_channel holds_thread_ctx holds_destroy holds_buffers; assumption)+

section \<open>The three invariants\<close>

text \<open>Every lock that is held belongs to the running handler.\<close>

definition locks_inv where
  "locks_inv X FF B C R \<longleftrightarrow> (\<forall>f (fl :: spdk_file). fst FF f = Some fl \<longrightarrow> lock fl \<longrightarrow> f \<in> X)"

text \<open>Every channel accounts for the requests it was created with.  \<open>arr c\<close> is its array
  \<open>req_mem\<close>: the free list holds requests of the array, none twice, and the others are counted as
  outstanding; a request that names the channel as its own is in the array.\<close>

definition accounts_for :: "nat set \<Rightarrow> spdk_fs_channel \<Rightarrow> bool" where
  "accounts_for A ch \<longleftrightarrow> finite A \<and> card A \<in> {0, 512} \<and> distinct (reqs ch) \<and> set (reqs ch) \<subseteq> A \<and>
     unat (outstanding_reqs ch) + length (reqs ch) = card A"

definition accounts_inv where
  "accounts_inv X FF B C R \<longleftrightarrow> (\<exists>arr.
     (\<forall>c ch. fst C c = Some ch \<longrightarrow> accounts_for (arr c) ch \<and> c < snd C \<and> arr c \<subseteq> {..<snd R}) \<and>
     (\<forall>c d. fst C c \<noteq> None \<longrightarrow> fst C d \<noteq> None \<longrightarrow> c \<noteq> d \<longrightarrow> arr c \<inter> arr d = {}) \<and>
     (\<forall>r rq c. fst R r = Some rq \<longrightarrow> channel rq = Some c \<longrightarrow> c < snd C \<and> (fst C c \<noteq> None \<longrightarrow> r \<in> arr c)))"

lemma accounts_take:
  assumes "accounts_for A ch" "reqs ch = r # rs"
  shows "accounts_for A (take_request ch)"
proof -
  have b: "unat (outstanding_reqs ch) < 512" using assms by (auto simp: accounts_for_def)
  then have "unat (outstanding_reqs ch + 1) = unat (outstanding_reqs ch) + 1" by (simp add: unat_word_ariths)
  then show ?thesis using assms by (auto simp: accounts_for_def take_request_def)
qed

lemma accounts_put:
  assumes "accounts_for A ch" "r \<in> A" "r \<notin> set (reqs ch)"
  shows "accounts_for A (put_request r ch)"
proof -
  have "card (set (r # reqs ch)) \<le> card A" using assms by (intro card_mono) (auto simp: accounts_for_def)
  then have "length (reqs ch) < card A" using assms by (auto simp: accounts_for_def distinct_card)
  then have "outstanding_reqs ch \<noteq> 0" using assms(1) by (auto simp: accounts_for_def)
  then have "unat (outstanding_reqs ch - 1) = unat (outstanding_reqs ch) - 1" "unat (outstanding_reqs ch) \<noteq> 0"
    by (simp_all add: unat_minus_one unat_eq_0)
  then show ?thesis using assms by (auto simp: accounts_for_def put_request_def)
qed

text \<open>Every live object has a number below the next fresh one.\<close>

definition below_fresh :: "(nat \<rightharpoonup> 'a) \<times> nat \<Rightarrow> bool" where
  "below_fresh M \<longleftrightarrow> dom (fst M) \<subseteq> {..<snd M}"

definition fresh_inv where
  "fresh_inv X FF B C R \<longleftrightarrow> below_fresh FF \<and> below_fresh B \<and> below_fresh C \<and> below_fresh R"

lemma below_fresh_upd: "below_fresh (m, i) \<Longrightarrow> dom m' \<subseteq> dom m \<Longrightarrow> below_fresh (m', i)"
  by (auto simp: below_fresh_def)

lemma below_fresh_requests:
  "below_fresh (m, i) \<Longrightarrow> (\<And>r. m' r = (if i \<le> r \<and> r < j then Some x else m r)) \<Longrightarrow> i \<le> j \<Longrightarrow> below_fresh (m', j)"
  by (fastforce simp: below_fresh_def split: if_splits)

lemma below_fresh_next: "below_fresh (m, i) \<Longrightarrow> m i = None"
  by (auto simp: below_fresh_def)

lemma below_fresh_simps:
  "below_fresh (m, i) \<Longrightarrow> m j = Some x \<Longrightarrow> below_fresh (m(j \<mapsto> y), i)"
  "below_fresh (m, i) \<Longrightarrow> below_fresh (m(j := None), i)"
  "below_fresh (m, i) \<Longrightarrow> below_fresh (m(i \<mapsto> y), Suc i)"
  by (auto simp: below_fresh_def)

interpretation locks: heap_invariant locks_inv
  by unfold_locales (auto simp: locks_inv_def split: if_splits)

lemma accounts_step:
  assumes "accounts_inv X FF B (cm, k) (rm, l)" "cm c = Some ch"
    and "\<And>A. accounts_for A ch \<Longrightarrow> (\<forall>r rq. rm r = Some rq \<longrightarrow> channel rq = Some c \<longrightarrow> r \<in> A) \<Longrightarrow> accounts_for A ch'"
    and "\<And>r rq' d. rm' r = Some rq' \<Longrightarrow> channel rq' = Some d \<Longrightarrow>
      (\<exists>rq. rm r = Some rq \<and> channel rq = Some d) \<or> d = c \<and> r \<in> set (reqs ch)"
  shows "accounts_inv X FF B (cm(c \<mapsto> ch'), k) (rm', l)"
proof -
  obtain arr where a: "\<forall>c ch. cm c = Some ch \<longrightarrow> accounts_for (arr c) ch \<and> c < k \<and> arr c \<subseteq> {..<l}"
      "\<forall>c d. cm c \<noteq> None \<longrightarrow> cm d \<noteq> None \<longrightarrow> c \<noteq> d \<longrightarrow> arr c \<inter> arr d = {}"
      "\<forall>r rq c. rm r = Some rq \<longrightarrow> channel rq = Some c \<longrightarrow> c < k \<and> (cm c \<noteq> None \<longrightarrow> r \<in> arr c)"
    using assms(1) unfolding accounts_inv_def by auto
  have new: "accounts_for (arr c) ch'" using a(1,3) assms(2) by (intro assms(3)) auto
  have c: "set (reqs ch) \<subseteq> arr c" "c < k" using a(1) assms(2) by (auto simp: accounts_for_def)
  have "\<forall>d dh. (cm(c \<mapsto> ch')) d = Some dh \<longrightarrow> accounts_for (arr d) dh \<and> d < k \<and> arr d \<subseteq> {..<l}"
    using a(1) new assms(2) by auto
  moreover have "\<forall>d e. (cm(c \<mapsto> ch')) d \<noteq> None \<longrightarrow> (cm(c \<mapsto> ch')) e \<noteq> None \<longrightarrow> d \<noteq> e \<longrightarrow> arr d \<inter> arr e = {}"
    using a(2) assms(2) by (simp split: if_splits)
  moreover have "d < k \<and> ((cm(c \<mapsto> ch')) d \<noteq> None \<longrightarrow> r \<in> arr d)" if "rm' r = Some rq'" "channel rq' = Some d" for r rq' d
    using assms(4) [OF that] a(3) c assms(2) by auto
  ultimately show ?thesis unfolding accounts_inv_def by (intro exI [of _ arr]) simp
qed

lemma accounts_drop:
  assumes "accounts_inv X FF B (cm, k) (rm, l)" "same_owners rm rm'" "cm' \<subseteq>\<^sub>m cm"
  shows "accounts_inv X FF B (cm', k) (rm', l)"
proof -
  obtain arr where a: "\<forall>c ch. cm c = Some ch \<longrightarrow> accounts_for (arr c) ch \<and> c < k \<and> arr c \<subseteq> {..<l}"
      "\<forall>c d. cm c \<noteq> None \<longrightarrow> cm d \<noteq> None \<longrightarrow> c \<noteq> d \<longrightarrow> arr c \<inter> arr d = {}"
      "\<forall>r rq c. rm r = Some rq \<longrightarrow> channel rq = Some c \<longrightarrow> c < k \<and> (cm c \<noteq> None \<longrightarrow> r \<in> arr c)"
    using assms(1) unfolding accounts_inv_def by auto
  have live: "cm c = Some ch" if "cm' c = Some ch" for c ch using assms(3) that by (auto simp: map_le_def dom_def)
  have own: "\<exists>rq. rm r = Some rq \<and> channel rq = channel rq'" if "rm' r = Some rq'" for r rq'
    using assms(2) that by (auto simp: same_owners_def)
  show ?thesis
    unfolding accounts_inv_def using a by (intro exI [of _ arr]) (fastforce dest: live own)
qed

lemma accounts_new:
  assumes "accounts_inv X FF B (cm, k) (rm, l)" "n \<in> {0, 512}" "reqs ch = [l..<l + n]" "outstanding_reqs ch = 0"
    and "\<And>r. rm' r = (if l \<le> r \<and> r < l + n then Some zero_request else rm r)"
  shows "accounts_inv X FF B (cm(k \<mapsto> ch), Suc k) (rm', l + n)"
proof -
  obtain arr where a: "\<forall>c ch. cm c = Some ch \<longrightarrow> accounts_for (arr c) ch \<and> c < k \<and> arr c \<subseteq> {..<l}"
      "\<forall>c d. cm c \<noteq> None \<longrightarrow> cm d \<noteq> None \<longrightarrow> c \<noteq> d \<longrightarrow> arr c \<inter> arr d = {}"
      "\<forall>r rq c. rm r = Some rq \<longrightarrow> channel rq = Some c \<longrightarrow> c < k \<and> (cm c \<noteq> None \<longrightarrow> r \<in> arr c)"
    using assms(1) unfolding accounts_inv_def by auto
  let ?arr = "arr(k := {l..<l + n})"
  have new: "accounts_for {l..<l + n} ch" using assms(2-4) by (auto simp: accounts_for_def)
  have old: "accounts_for (arr c) x \<and> c < k \<and> arr c \<subseteq> {..<l}" if "cm c = Some x" for c x using a(1) that by blast
  have "\<forall>c ch'. (cm(k \<mapsto> ch)) c = Some ch' \<longrightarrow> accounts_for (?arr c) ch' \<and> c < Suc k \<and> ?arr c \<subseteq> {..<l + n}"
    using new old by (fastforce split: if_splits)
  moreover have "arr c \<inter> {l..<l + n} = {}" if "cm c \<noteq> None" for c using old that by fastforce
  with a(2) have "\<forall>c d. (cm(k \<mapsto> ch)) c \<noteq> None \<longrightarrow> (cm(k \<mapsto> ch)) d \<noteq> None \<longrightarrow> c \<noteq> d \<longrightarrow> ?arr c \<inter> ?arr d = {}"
    by (auto split: if_splits)
  moreover have "\<forall>r rq c. rm' r = Some rq \<longrightarrow> channel rq = Some c \<longrightarrow> c < Suc k \<and> ((cm(k \<mapsto> ch)) c \<noteq> None \<longrightarrow> r \<in> ?arr c)"
    using a(3) by (fastforce simp: assms(5) split: if_splits)
  ultimately show ?thesis unfolding accounts_inv_def by (intro exI [of _ ?arr]) simp
qed

lemma accounts_heap_request:
  assumes "accounts_inv X FF B C (rm, l)" "channel rq = None"
  shows "accounts_inv X FF B C (rm(l \<mapsto> rq), Suc l)"
proof -
  obtain arr where a: "\<forall>c ch. fst C c = Some ch \<longrightarrow> accounts_for (arr c) ch \<and> c < snd C \<and> arr c \<subseteq> {..<l}"
      "\<forall>c d. fst C c \<noteq> None \<longrightarrow> fst C d \<noteq> None \<longrightarrow> c \<noteq> d \<longrightarrow> arr c \<inter> arr d = {}"
      "\<forall>r rq c. rm r = Some rq \<longrightarrow> channel rq = Some c \<longrightarrow> c < snd C \<and> (fst C c \<noteq> None \<longrightarrow> r \<in> arr c)"
    using assms(1) unfolding accounts_inv_def by auto
  then show ?thesis unfolding accounts_inv_def using assms(2) by (intro exI [of _ arr]) (fastforce split: if_splits)
qed

interpretation account: heap_invariant accounts_inv
proof unfold_locales
  show "accounts_inv X FF B (cm(c \<mapsto> ch'), k) R"
    if "accounts_inv X FF B (cm, k) R" "cm c = Some ch" "reqs ch' = reqs ch" "outstanding_reqs ch' = outstanding_reqs ch"
    for X FF B cm k R c ch ch'
    using that by (cases R) (auto simp: accounts_for_def intro!: accounts_step)
  show "accounts_inv X FF B (cm(c \<mapsto> take_request ch), k) (rm(r \<mapsto> rq'), l)"
    if "accounts_inv X FF B (cm, k) (rm, l)" "cm c = Some ch" "reqs ch = r # rs" "rm r = Some rq" "channel rq' = Some c"
    for X FF B cm k rm l c ch r rs rq rq'
    using that accounts_take [OF _ that(3)] by (intro accounts_step [OF that(1,2)]) (auto split: if_splits)
  show "accounts_inv X FF B (cm(c \<mapsto> put_request r ch), k) (rm, l)"
    if "accounts_inv X FF B (cm, k) (rm, l)" "cm c = Some ch" "rm r = Some rq" "channel rq = Some c" "r \<notin> set (reqs ch)"
    for X FF B cm k rm l c ch r rq
    using that by (intro accounts_step [OF that(1,2)]) (auto intro: accounts_put)
  show "accounts_inv X FF B (cm(c := None), k) (rm', l)"
    if "accounts_inv X FF B (cm, k) (rm, l)" "same_owners rm rm'" for X FF B cm k rm l rm' c
    using that by (rule accounts_drop) (auto simp: map_le_def)
  show "accounts_inv X FF B C (rm', l)" if "accounts_inv X FF B C (rm, l)" "same_owners rm rm'" for X FF B C rm l rm'
    using that accounts_drop [of X FF B "fst C" "snd C" rm l rm' "fst C"] by simp
  show "accounts_inv X FF B (cm(k \<mapsto> ch), Suc k) (rm', l + n)"
    if "accounts_inv X FF B (cm, k) (rm, l)" "n \<in> {0, 512}" "reqs ch = [l..<l + n]" "outstanding_reqs ch = 0"
      "\<And>r. rm' r = (if l \<le> r \<and> r < l + n then Some zero_request else rm r)" for X FF B cm k rm l n ch rm'
    using that by (rule accounts_new)
  show "accounts_inv X FF B C (rm(l \<mapsto> rq), Suc l)" if "accounts_inv X FF B C (rm, l)" "channel rq = None" for X FF B C rm l rq
    using that by (rule accounts_heap_request)
qed (auto simp: accounts_inv_def)

interpretation fresh: heap_invariant fresh_inv
  by unfold_locales
    (auto simp: fresh_inv_def intro: below_fresh_upd below_fresh_upd [OF _ same_owners_dom] below_fresh_requests below_fresh_simps)

text \<open>A state that is reached: a blobstore is initialised on the booted machine, and a file is
  created on it.\<close>

definition init_result :: bs_result where
  "init_result = \<lparr>res_errno = 0, res_id = 0, res_blob = None, res_data = [], res_type = Bstype_blobfs, res_cluster_sz = 1048576\<rparr>"

lemma first_requests: "[0..<512] = 0 # [1..<512]" "[512..<1024] = 512 # [513..<1024]"
  using upt_conv_Cons [of 0 512] upt_conv_Cons [of 512 1024] by (simp_all del: upt_rec_numeral)

lemma boot_mounts:
  "\<exists>s1 s2. user_step (U_init None 7) boot_state = Some s1 \<and> pending s1 = [(BS_init None, Bs_init 0)] \<and>
     complete (Bs_init 0) init_result (s1\<lparr>pending := []\<rparr>) = Some s2 \<and>
     dir_is (bt_heap s2) (files s2) Map.empty \<and> stack_cond s2 = 1 \<and> alloc_fail s2 = [] \<and> md_request s2 0 \<and> fresh_file s2 = 0 \<and> md_fs_channel s2 = 0"
proof -
  obtain h root where t: "B_plus_tree_initial (bt_heap boot_state) = (h, root)" by fastforce
  then have "dir_is h (Some root) Map.empty"
    using B_plus_tree_initial_ok [of "bt_heap boot_state"] by (auto simp: dir_is_def intro: exI [of _ "[]"])
  then show ?thesis
    using t by (simp add: spdk_fs_init_def fs_alloc_def boot_state_def exec get_io_channel_def io_channel_creates
        fs_channel_create_def alloc_fs_request_def alloc_fs_request_with_iov_def zero_channel_def zero_request_def
        init_cb_def init_result_def common_fs_bs_init_def fn_fs_def free_fs_request_def initialize_global_cache_def
        md_request_def first_requests Let_def del: upt_rec_numeral)
qed

lemma reachable_with_file: "\<exists>st fl ch. reachable st \<and> file_heap st 0 = Some fl \<and> channels st 0 = Some ch"
proof -
  obtain s1 s2 where s: "user_step (U_init None 7) boot_state = Some s1" "pending s1 = [(BS_init None, Bs_init 0)]"
     "complete (Bs_init 0) init_result (s1\<lparr>pending := []\<rparr>) = Some s2"
     "dir_is (bt_heap s2) (files s2) Map.empty" "stack_cond s2 = 1" "alloc_fail s2 = []" "md_request s2 0" "fresh_file s2 = 0" "md_fs_channel s2 = 0"
    using boot_mounts by (elim exE conjE)
  have "booted boot_state" by (simp add: booted_def boot_state_def)
  then have "reachable boot_state" by (auto simp: reachable_def simp del: user_step.simps)
  then have "reachable s1" using nbfs_step.step_user [OF s(1)] by (rule reachable_step)
  then have r2: "reachable s2"
  proof (rule reachable_step)
    show "nbfs_step s1 s2"
      using nbfs_step.step_complete [of s1 "[]" "BS_init None" "Bs_init 0" "[]" init_result s2] s(2,3)
      by (simp del: complete.simps)
  qed
  obtain h root where c: "spdk_fs_create_file_async s2 ''a'' (Cb_user 1) = Some (created s2 h root ''a'' (Cb_user 1) 0)"
  proof (rule create_started [of s2 Map.empty "''a''" 0 "Cb_user 1"])
    show "\<not> name_too_long ''a''" by (simp add: name_too_long_def SPDK_FILE_NAME_MAX_def)
  qed (use s(4-7) in simp_all)
  then have "reachable (created s2 h root ''a'' (Cb_user 1) 0)"
    using reachable_step [OF r2 nbfs_step.step_user [of "U_create_async ''a'' 1"]] by simp
  moreover have "file_heap (created s2 h root ''a'' (Cb_user 1) 0) 0 \<noteq> None" "channels (created s2 h root ''a'' (Cb_user 1) 0) 0 \<noteq> None"
    using s(7-9) by (auto simp: created_def taken_def md_request_def)
  ultimately show ?thesis by blast
qed

text \<open>C2: In every reachable state no file lock is held: each handler, callback and user
  call releases every spinlock it takes, on all its branches, so that taking a lock at the
  start of the next one cannot block for ever on a lock left behind.\<close>

theorem no_lock_left_behind:
  assumes "reachable st" and "file_heap st f = Some fl"
  shows "\<not> lock fl"
proof -
  have "locks.holds {} st"
    using assms(1) by (rule locks.reachable_keeps) (simp add: locks.holds_def locks_inv_def booted_def)
  then show ?thesis using assms(2) by (auto simp: locks.holds_def locks_inv_def)
qed

theorem no_lock_left_behind_witness:
  "\<exists>st fl. reachable st \<and> file_heap st 0 = Some fl \<and> \<not> lock fl"
  using reachable_with_file no_lock_left_behind by metis


text \<open>C20: In every reachable state the requests of a channel are accounted for.  Its free list
  holds no request twice and shares none with another channel; the free requests and the counter
  \<open>outstanding_reqs\<close>, which has not wrapped, add up to the 512 of its array (or to none, for a thread context whose
  allocation failed); and every request that names the channel as its own is in that array.  So an
  allocation never hands out a request that is still outstanding.  A handler that frees a request
  twice is not excluded: it stops the run (\<open>failed_load_frees_twice\<close>).  Nor is one that loses a
  request, which stays outstanding.\<close>

theorem requests_accounted:
  assumes "reachable st" and "channels st c = Some ch"
  shows "\<exists>A. finite A \<and> card A \<in> {0, 512} \<and> distinct (reqs ch) \<and> set (reqs ch) \<subseteq> A \<and>
    unat (outstanding_reqs ch) + length (reqs ch) = card A \<and>
    (\<forall>r rq. requests st r = Some rq \<longrightarrow> channel rq = Some c \<longrightarrow> r \<in> A) \<and>
    (\<forall>d dh. channels st d = Some dh \<longrightarrow> d \<noteq> c \<longrightarrow> A \<inter> set (reqs dh) = {})"
proof -
  have "account.holds {} st"
    using assms(1) by (rule account.reachable_keeps) (simp add: account.holds_def accounts_inv_def booted_def)
  then obtain arr where i: "\<forall>c ch. channels st c = Some ch \<longrightarrow> accounts_for (arr c) ch \<and> c < fresh_chan st \<and> arr c \<subseteq> {..<fresh_req st}"
      "\<forall>c d. channels st c \<noteq> None \<longrightarrow> channels st d \<noteq> None \<longrightarrow> c \<noteq> d \<longrightarrow> arr c \<inter> arr d = {}"
      "\<forall>r rq c. requests st r = Some rq \<longrightarrow> channel rq = Some c \<longrightarrow> c < fresh_chan st \<and> (channels st c \<noteq> None \<longrightarrow> r \<in> arr c)"
    unfolding account.holds_def accounts_inv_def by auto
  then have a: "\<And>c ch. channels st c = Some ch \<Longrightarrow> accounts_for (arr c) ch"
      "\<And>c d. channels st c \<noteq> None \<Longrightarrow> channels st d \<noteq> None \<Longrightarrow> c \<noteq> d \<Longrightarrow> arr c \<inter> arr d = {}"
      "\<And>r rq. requests st r = Some rq \<Longrightarrow> channel rq = Some c \<Longrightarrow> r \<in> arr c"
    using assms(2) by auto
  have "arr c \<inter> set (reqs dh) = {}" if "channels st d = Some dh" "d \<noteq> c" for d dh
    using a(1) [OF that(1)] a(2) [of c d] that assms(2) by (auto simp: accounts_for_def)
  then show ?thesis
    using a(1) [OF assms(2)] a(3) by (intro exI [of _ "arr c"]) (auto simp: accounts_for_def)
qed

theorem requests_accounted_witness:
  "\<exists>st ch. reachable st \<and> channels st 0 = Some ch \<and> distinct (reqs ch) \<and>
    unat (outstanding_reqs ch) + length (reqs ch) \<in> {0, 512}"
proof -
  obtain st fl ch where "reachable st" "file_heap st 0 = Some fl" "channels st 0 = Some ch"
    using reachable_with_file by blast
  with requests_accounted [of st 0 ch] show ?thesis by auto
qed

lemma mount_keeps_free_lists:
  assumes "common_fs_bs_init s csz = Some s'" "channels s c = Some ch"
  shows "requests s' = requests s \<and> (\<exists>ch'. channels s' c = Some ch' \<and> reqs ch' = reqs ch)"
  using assms
  by (auto simp: common_fs_bs_init_def upd_channel_def bind_Some_iff initialize_global_cache_def send_pool_msg_def Let_def
      split: if_splits)

text \<open>Loading a file system frees its request twice when a blob cannot be read: \<open>iter_cb\<close> answers the
  user and frees the request, the blobstore goes on, and \<open>load_cb\<close> uses and frees the request again.  The
  second insertion corrupts the free list of the channel, here a crash.\<close>

theorem failed_load_frees_twice:
  assumes "iter_cb st r info res = Some st1" "res < 0 \<or> info_name info = None \<or> info_length info = None"
    and "op_deleted_files st r = Some []"
  shows "\<exists>u e. replies st1 = replies st @ [Reply_fs u True e] \<and> load_cb st1 r ty csz err = None"
proof -
  obtain e where "iter_fail st r e = Some st1" using assms(1,2) by (auto simp: iter_cb_def split: option.splits if_splits)
  then obtain u where u: "fn_fs st r = Some u" "free_fs_request (reply (Reply_fs u True e) st) r = Some st1"
    by (auto simp: iter_fail_def bind_Some_iff)
  from u(2) obtain c ch rq where f: "channels st c = Some ch" "requests st r = Some rq" "channel rq = Some c"
      "st1 = (reply (Reply_fs u True e) st)\<lparr>channels := (channels st)(c \<mapsto> put_request r ch)\<rparr>"
    by (cases rule: free_E) (auto simp: reply_def)
  have again: "free_fs_request s r = None" if "requests s r = Some rq" "channels s c = Some xh" "reqs xh = reqs (put_request r ch)" for s xh
    using that f(3) by (simp add: free_fs_request_def get_req_def put_request_def)
  have st1: "requests st1 r = Some rq" "channels st1 c = Some (put_request r ch)" "fn_fs st1 r = Some u"
    using f u(1) by (auto simp: reply_def fn_fs_def get_req_def)
  have fail: "load_fail st1 r x = None" for x
    using again [of "reply (Reply_fs u False x) st1"] st1 by (simp add: load_fail_def reply_def)
  have "fs_load_done s r 0 = None" if s: "common_fs_bs_init st1 csz = Some s" for s
  proof -
    obtain xh where x: "requests s = requests st1" "channels s c = Some xh" "reqs xh = reqs (put_request r ch)"
      using mount_keeps_free_lists [OF s st1(2)] by blast
    have "op_deleted_files s r = Some []" "fn_fs s r = Some u"
      using assms(3) f(2) st1(1,3) x(1) by (simp_all add: op_deleted_files_def fn_fs_def get_req_def)
    then show ?thesis using again [of "reply (Reply_fs u True 0) s" xh] x st1(1)
      by (simp add: fs_load_done_def handle_deleted_files_def reply_def)
  qed
  then have "load_cb st1 r ty csz err = None"
    using fail by (cases "common_fs_bs_init st1 csz") (simp_all add: load_cb_def)
  then show ?thesis using f(4) by (auto simp: reply_def)
qed

theorem failed_load_frees_twice_witness:
  "\<exists>st st1. iter_cb st 20 \<lparr>info_id = 9, info_name = None, info_length = None, info_length_size = 0, info_is_deleted = False\<rparr> 0 = Some st1 \<and>
     replies st1 = [Reply_fs 7 True (- ENOENT)] \<and> load_cb st1 20 Bstype_blobfs 4096 0 = None"
proof -
  let ?rq = "zero_request\<lparr>channel := Some 0, fn := Fn_fs 7, op := Op_fs_load []\<rparr>"
  let ?st = "(sample_fs [] Map.empty)\<lparr>requests := [20 \<mapsto> ?rq],
    channels := [0 \<mapsto> zero_channel\<lparr>reqs := [21, 22, 23], outstanding_reqs := 1\<rparr>]\<rparr>"
  let ?i = "\<lparr>info_id = 9, info_name = None, info_length = None, info_length_size = 0, info_is_deleted = False\<rparr>"
  obtain st1 where st1: "iter_cb ?st 20 ?i 0 = Some st1" "replies st1 = [Reply_fs 7 True (- ENOENT)]"
    by (simp add: iter_cb_def iter_fail_def fn_fs_def free_fs_request_def exec zero_channel_def)
  with failed_load_frees_twice [OF st1(1)] show ?thesis
    by (fastforce simp: op_deleted_files_def get_req_def)
qed

text \<open>A write that had to grow the blob unlocks the file twice: \<open>spdk_file_write\<close> gives the lock back before it
  waits, does not take it again, and unlocks at its end, which POSIX leaves undefined.  With the file
  unlocked at the wake-up and the growth successful, no call gets past that.\<close>

lemma unlock_unlocked: "locks.holds (- {f}) st \<Longrightarrow> unlock_file st f = None"
  by (cases "file_heap st f") (auto simp: locks.holds_def locks_inv_def unlock_file_def get_file_def oassert_def)

lemma write_fill_unlocked:
  assumes "locks.holds (- {f}) st"
  shows "file_write_fill st f c payload len = None"
proof -
  have "unlock_file s f = None" if "alloc_fs_request st c = Some (s, q)" for s q
    using yieldsD(2) [OF locks.basic_keeps(1) [OF assms] that] by (rule unlock_unlocked)
  moreover have "unlock_file s' f = None" "\<And>t r. free_fs_request s' r = Some t \<Longrightarrow> unlock_file t f = None"
    if "alloc_fs_request st c = Some (s, q)" "fill_loop s f b len payload 0 = Some (s', n)" for s q b s' n
  proof -
    have h: "locks.holds (- {f}) s'"
      using yieldsD(2) [OF locks.fill_loop_keeps that(2)] yieldsD(2) [OF locks.basic_keeps(1) [OF assms] that(1)] by blast
    then show "unlock_file s' f = None" by (rule unlock_unlocked)
    show "unlock_file t f = None" if "free_fs_request s' r = Some t" for t r
      using yieldsD(1) [OF locks.free_fs_request_keeps [OF h] that] by (rule unlock_unlocked)
  qed
  ultimately have "file_write_fill st f c payload len \<noteq> Some p" for p
    by (auto simp: file_write_fill_def bind_Some_iff split: option.splits)
  then show ?thesis by (metis not_None_eq)
qed

theorem extended_write_unlocks_twice:
  assumes "\<And>fl. file_heap st f = Some fl \<Longrightarrow> \<not> lock fl" "requests st r = Some rq" "rc rq = 0"
  shows "spdk_file_write_extended st f c r payload len = None"
proof (cases "sem_wait st c")
  case (Some st1)
  then have "file_heap st1 = file_heap st" "requests st1 = requests st"
    by (auto simp: sem_wait_def upd_channel_def bind_Some_iff)
  with assms have "locks.holds (- {f}) (st1\<lparr>requests := (requests st1)(r := None)\<rparr>)"
    by (auto simp: locks.holds_def locks_inv_def)
  from write_fill_unlocked [OF this] Some assms(2,3) \<open>requests st1 = _\<close> show ?thesis
    by (simp add: spdk_file_write_extended_def get_req_def)
qed (simp add: spdk_file_write_extended_def)

text \<open>Every live file, cache buffer, channel and request has a number below the next one
  its allocator hands out, in every reachable state: an allocation never returns an object
  that is in use.\<close>

theorem allocations_are_fresh:
  assumes "reachable st"
  shows "file_heap st (fresh_file st) = None \<and> buffers st (fresh_buf st) = None \<and>
    channels st (fresh_chan st) = None \<and> requests st (fresh_req st) = None"
proof -
  have "fresh.holds {} st"
    using assms(1) by (rule fresh.reachable_keeps) (simp add: fresh.holds_def fresh_inv_def below_fresh_def booted_def)
  then show ?thesis unfolding fresh.holds_def fresh_inv_def by (simp add: below_fresh_next)
qed

theorem allocations_are_fresh_witness:
  "\<exists>st fl. reachable st \<and> file_heap st 0 = Some fl \<and> file_heap st (fresh_file st) = None"
  using reachable_with_file allocations_are_fresh by metis


end
