(* ===== verification/NBFS_Block.thy ===== *)
theory NBFS_Block
  imports NBFS_Sample
begin

unbundle bit_operations_syntax

text \<open>
  What the uncached block I/O does with the bytes: the block range covers the byte range, an
  unaligned write replaces exactly the bytes of its range in the blocks it read, and a read of
  the same range gives back what was written.
\<close>

section \<open>Block ranges\<close>

lemma unat_last_byte:
  assumes "0 < unat len" "unat off + unat len \<le> 2 ^ 64"
  shows "unat (off + len - 1 :: u64) = unat off + unat len - 1"
proof -
  define n where "n = unat off + unat len - 1"
  have "of_nat n = off + len - 1" using assms(1) unfolding n_def by (subst of_nat_diff) simp_all
  moreover have "n < 2 ^ 64" using assms by (simp add: n_def)
  then have "unat (of_nat n :: u64) = n" by (simp add: unat_of_nat)
  ultimately show ?thesis by (simp add: n_def)
qed

lemma div_add_le: "0 < b \<Longrightarrow> (a + k) div b \<le> a div b + (k :: nat)"
proof (induction k)
  case (Suc k)
  then show ?case by (simp add: div_Suc)
qed simp

text \<open>The blocks of a byte range, as numbers: the first one and how many.\<close>

lemma page_parameters:
  assumes "io_unit_size st \<noteq> 0" "0 < unat len" "unat off + unat len \<le> 2 ^ 64"
  defines "B \<equiv> unat (io_unit_size st)"
  obtains start num where "get_page_parameters st off len = Some (start, io_unit_size st, num)"
    "unat start = unat off div B" "unat num = (unat off + unat len - 1) div B - unat off div B + 1"
proof -
  have B: "0 < B" using assms(1) by (simp add: B_def unat_gt_0)
  define s e where "s = off div ucast (io_unit_size st)" and "e = (off + len - 1) div ucast (io_unit_size st)"
  have s: "unat s = unat off div B" by (simp add: s_def B_def unat_div_distrib)
  have e: "unat e = (unat off + unat len - 1) div B"
    using unat_last_byte [OF assms(2,3)] by (simp add: e_def B_def unat_div_distrib)
  have le: "unat off div B \<le> (unat off + unat len - 1) div B" using assms(2) by (intro div_le_mono) simp
  have "(unat off + unat len - 1) div B \<le> unat off div B + (unat len - 1)"
    using div_add_le [OF B, of "unat off" "unat len - 1"] assms(2) by simp
  then have "unat e - unat s + 1 < 2 ^ 64"
    using unat_u64_bound [of len] s e assms(2) by simp
  moreover have "unat (e - s) = unat e - unat s" using le s e by (simp add: unat_sub word_le_nat_alt)
  ultimately have "unat (e - s + 1) = unat e - unat s + 1"
    by (simp add: unat_word_ariths)
  then show thesis
    using that [of s "e - s + 1"] s e assms(1) by (simp add: get_page_parameters_def Let_def s_def e_def)
qed

text \<open>The blocks computed for a byte range that ends within the 64-bit range cover it
  and are the smallest such range: the first block contains the first byte, the last block the
  last one.\<close>

theorem page_parameters_cover:
  assumes "io_unit_size st \<noteq> 0" "0 < unat len" "unat off + unat len \<le> 2 ^ 64"
  shows "\<exists>start num. get_page_parameters st off len = Some (start, io_unit_size st, num) \<and>
    unat start * unat (io_unit_size st) \<le> unat off \<and>
    unat off < (unat start + 1) * unat (io_unit_size st) \<and>
    (unat start + unat num - 1) * unat (io_unit_size st) < unat off + unat len \<and>
    unat off + unat len \<le> (unat start + unat num) * unat (io_unit_size st)"
proof -
  let ?B = "unat (io_unit_size st)"
  obtain start num where p: "get_page_parameters st off len = Some (start, io_unit_size st, num)"
    "unat start = unat off div ?B" "unat num = (unat off + unat len - 1) div ?B - unat off div ?B + 1"
    using page_parameters [OF assms] by blast
  have B: "0 < ?B" using assms(1) by (simp add: unat_gt_0)
  have le: "unat off div ?B \<le> (unat off + unat len - 1) div ?B" using assms(2) by (intro div_le_mono) simp
  have bound: "x div ?B * ?B \<le> x" "x < (x div ?B + 1) * ?B" for x
    using div_times_less_eq_dividend [of x ?B] dividend_less_div_times [OF B, of x] by (simp_all add: add.commute)
  have "(unat start + unat num - 1) * ?B \<le> unat off + unat len - 1" "unat off + unat len - 1 < (unat start + unat num) * ?B"
    using bound [of "unat off + unat len - 1"] p le by simp_all
  then show ?thesis using p(1,2) bound [of "unat off"] assms(2) by auto
qed

theorem page_parameters_cover_witness:
  "\<exists>start num. get_page_parameters boot_state 5000 4000 = Some (start, io_unit_size boot_state, num) \<and>
    unat start * unat (io_unit_size boot_state) \<le> 5000 \<and> 9000 \<le> (unat start + unat num) * unat (io_unit_size boot_state)"
  using page_parameters_cover [of boot_state 4000 5000] by (auto simp: boot_state_def)

section \<open>Vectors\<close>

text \<open>The bytes a list of vectors holds, their number, and their addresses.\<close>

definition gather :: "memblk \<Rightarrow> iovec list \<Rightarrow> u8 list" where
  "gather mem vs = concat (map (\<lambda>v. mem_read mem (iov_base v) (unat (iov_len v))) vs)"

definition iovs_total :: "iovec list \<Rightarrow> nat" where
  "iovs_total vs = sum_list (map (unat \<circ> iov_len) vs)"

definition iov_addrs :: "iovec \<Rightarrow> nat set" where
  "iov_addrs v = {iov_base v..<iov_base v + unat (iov_len v)}"

definition iovs_disjoint :: "iovec list \<Rightarrow> bool" where
  "iovs_disjoint vs \<longleftrightarrow> sorted_wrt (\<lambda>v w. iov_addrs v \<inter> iov_addrs w = {}) vs"

lemma gather_simps [simp]:
  "gather mem [] = []" "gather mem (v # vs) = mem_read mem (iov_base v) (unat (iov_len v)) @ gather mem vs"
  "iovs_total [] = 0" "iovs_total (v # vs) = unat (iov_len v) + iovs_total vs"
  "iovs_disjoint []" "iovs_disjoint (v # vs) \<longleftrightarrow> (\<forall>w\<in>set vs. iov_addrs v \<inter> iov_addrs w = {}) \<and> iovs_disjoint vs"
  by (simp_all add: gather_def iovs_total_def iovs_disjoint_def)

lemma length_mem_read [simp]: "length (mem_read mem a n) = n"
  by (simp add: mem_read_def)

lemma length_gather [simp]: "length (gather mem vs) = iovs_total vs"
  by (induction vs) auto

lemma unat_min_le: "unat (x :: u64) \<le> unat y \<Longrightarrow> min x y = x"
  by (simp add: min_def word_le_nat_alt)

lemma copy_iovs_to_buf_ok:
  assumes "iovs_total vs \<le> unat buf_len" "pos + iovs_total vs \<le> length b"
  shows "copy_iovs_to_buf mem b pos buf_len vs = Some (take pos b @ gather mem vs @ drop (pos + iovs_total vs) b)"
  using assms
proof (induction vs arbitrary: b pos buf_len)
  case (Cons v vs)
  let ?n = "unat (iov_len v)"
  let ?b = "take pos b @ mem_read mem (iov_base v) ?n @ drop (pos + ?n) b"
  have len: "min (iov_len v) buf_len = iov_len v" using Cons.prems(1) by (intro unat_min_le) simp
  then have le: "iov_len v \<le> buf_len" by (simp add: min_def split: if_splits)
  then have "unat (buf_len - iov_len v) = unat buf_len - ?n" by (simp add: unat_sub)
  then have "copy_iovs_to_buf mem ?b (pos + ?n) (buf_len - iov_len v) vs =
      Some (take (pos + ?n) ?b @ gather mem vs @ drop (pos + ?n + iovs_total vs) ?b)"
    using Cons.prems by (intro Cons.IH) auto
  then show ?case using len le Cons.prems by (simp add: buf_write_def Let_def ac_simps)
qed simp

lemma mem_read_write_other:
  assumes "{a..<a + n} \<inter> {a'..<a' + length xs} = {}"
  shows "mem_read (mem_write mem a' xs) a n = mem_read mem a n"
  using assms by (auto simp: mem_read_def mem_write_def)

lemma mem_read_write_same [simp]: "mem_read (mem_write mem a xs) a (length xs) = xs"
  by (rule nth_equalityI) (auto simp: mem_read_def mem_write_def)

lemma copy_buf_to_iovs_ok:
  assumes "iovs_total vs \<le> unat buf_len" "pos + iovs_total vs \<le> length b" "iovs_disjoint vs"
  shows "\<exists>mem'. copy_buf_to_iovs mem vs b pos buf_len = Some mem' \<and> gather mem' vs = take (iovs_total vs) (drop pos b) \<and>
    (\<forall>a n. (\<forall>v\<in>set vs. iov_addrs v \<inter> {a..<a + n} = {}) \<longrightarrow> mem_read mem' a n = mem_read mem a n)"
  using assms
proof (induction vs arbitrary: mem pos buf_len)
  case (Cons v vs)
  let ?n = "unat (iov_len v)"
  let ?xs = "take ?n (drop pos b)"
  have len: "min (iov_len v) buf_len = iov_len v" using Cons.prems(1) by (intro unat_min_le) simp
  then have le: "iov_len v \<le> buf_len" by (simp add: min_def split: if_splits)
  then have "unat (buf_len - iov_len v) = unat buf_len - ?n" by (simp add: unat_sub)
  then obtain mem' where mem': "copy_buf_to_iovs (mem_write mem (iov_base v) ?xs) vs b (pos + ?n) (buf_len - iov_len v) = Some mem'"
      "gather mem' vs = take (iovs_total vs) (drop (pos + ?n) b)"
      "\<And>a n. (\<forall>w\<in>set vs. iov_addrs w \<inter> {a..<a + n} = {}) \<Longrightarrow> mem_read mem' a n = mem_read (mem_write mem (iov_base v) ?xs) a n"
    using Cons.IH [of "buf_len - iov_len v" "pos + ?n" "mem_write mem (iov_base v) ?xs"] Cons.prems by (simp add: add.assoc le_diff_conv2 add.commute [of "iovs_total vs"]) blast
  have xs: "length ?xs = ?n" using Cons.prems(2) by simp
  have "\<forall>w\<in>set vs. iov_addrs w \<inter> {iov_base v..<iov_base v + ?n} = {}"
    using Cons.prems(3) by (auto simp: iov_addrs_def)
  then have "mem_read mem' (iov_base v) ?n = ?xs"
    using mem'(3) [of "iov_base v" ?n] mem_read_write_same [of mem "iov_base v" ?xs] xs by simp
  moreover have "mem_read mem' a n = mem_read mem a n" if "\<forall>w\<in>set (v # vs). iov_addrs w \<inter> {a..<a + n} = {}" for a n
  proof -
    have "{a..<a + n} \<inter> {iov_base v..<iov_base v + length ?xs} = {}"
      using that unfolding xs iov_addrs_def by auto
    then show ?thesis using that mem'(3) [of a n] mem_read_write_other by simp
  qed
  ultimately show ?case
    using len le mem'(1,2) Cons.prems by (simp add: buf_read_def take_add Let_def add.assoc add.commute [of pos])
qed simp

section \<open>Reading the blocks of a range\<close>

text \<open>Request \<open>r\<close> is the next free one of channel \<open>c\<close>, whose list holds no request twice; and the state in which it is
  outstanding and holds \<open>rq\<close>.\<close>

definition free_request :: "nbfs \<Rightarrow> chan_ptr \<Rightarrow> req_ptr \<Rightarrow> bool" where
  "free_request st c r \<longleftrightarrow> (\<exists>ch rs. channels st c = Some ch \<and> reqs ch = r # rs \<and> distinct (r # rs)) \<and> requests st r \<noteq> None"

definition outstanding :: "nbfs \<Rightarrow> chan_ptr \<Rightarrow> req_ptr \<Rightarrow> spdk_fs_request \<Rightarrow> nbfs" where
  "outstanding st c r rq = st\<lparr>channels := (channels st)(c := map_option (\<lambda>ch. ch\<lparr>outstanding_reqs := outstanding_reqs ch + 1,
     reqs := tl (reqs ch)\<rparr>) (channels st c)), requests := (requests st)(r \<mapsto> rq)\<rparr>"

lemma outstanding_simps [simp]:
  "file_heap (outstanding st c r rq) = file_heap st" "pending (outstanding st c r rq) = pending st"
  "alloc_fail (outstanding st c r rq) = alloc_fail st" "requests (outstanding st c r rq) = (requests st)(r \<mapsto> rq)"
  "io_unit_size (outstanding st c r rq) = io_unit_size st" "memory (outstanding st c r rq) = memory st"
  "replies (outstanding st c r rq) = replies st" "heap_garbage (outstanding st c r rq) = heap_garbage st"
  "buffers (outstanding st c r rq) = buffers st" "msgs (outstanding st c r rq) = msgs st"
  by (simp_all add: outstanding_def)

lemma upd_outstanding: "upd_req (outstanding st c r rq) r g = Some (outstanding st c r (g rq))"
  by (simp add: upd_req_def outstanding_def)

lemma alloc_request:
  assumes "free_request st c r" "alloc_fail st = []"
  shows "alloc_fs_request_with_iov st c cnt = Some (outstanding st c r (zero_request\<lparr>channel := Some c,
    iovs := replicate (if cnt > 1 then unat cnt else 1) zero_iovec, iovcnt := cnt\<rparr>), Some r)"
  using assms by (auto simp: free_request_def alloc_fs_request_with_iov_def exec outstanding_def)

lemma free_outstanding:
  assumes "free_request st c r" "channels st' = channels (outstanding st c r rq)" "requests st' r = Some rq'" "channel rq' = Some c"
  shows "free_fs_request st' r = Some (st'\<lparr>channels := channels st\<rparr>)"
  using assms by (auto simp: free_request_def free_fs_request_def get_req_def upd_channel_def outstanding_def fun_upd_idem)

lemma setup_iovs_copies:
  "i + n \<le> length src \<Longrightarrow> i + n \<le> length dst \<Longrightarrow>
    fs_request_setup_iovs dst i n src = Some (take i dst @ take n (drop i src) @ drop (i + n) dst)"
proof (induction n arbitrary: dst i)
  case (Suc n)
  have "fs_request_setup_iovs (dst[i := src ! i]) (Suc i) n src =
      Some (take (Suc i) (dst[i := src ! i]) @ take n (drop (Suc i) src) @ drop (Suc i + n) (dst[i := src ! i]))"
    using Suc.prems by (intro Suc.IH) auto
  moreover have "take (Suc n) (drop i src) = src ! i # take n (drop (Suc i) src)"
    using Suc.prems by (simp add: Cons_nth_drop_Suc [symmetric])
  ultimately show ?case
    using Suc.prems by (simp add: crash_simps take_Suc_conv_app_nth)
qed simp

lemma u32_pos: "0 < (cnt :: u32) \<Longrightarrow> \<not> cnt > 1 \<Longrightarrow> unat cnt = 1"
  by (metis linorder_neqE unat_1 unsigned_1 word_less_1 word_neq_0_conv)

definition rw_request :: "nbfs \<Rightarrow> file_ptr \<Rightarrow> chan_ptr \<Rightarrow> iovec list \<Rightarrow> u32 \<Rightarrow> u64 \<Rightarrow> u64 \<Rightarrow> u64 \<Rightarrow> file_cb \<Rightarrow> bool \<Rightarrow> spdk_fs_request" where
  "rw_request st f c vs cnt off start num cb rd = zero_request\<lparr>channel := Some c, iovs := vs, iovcnt := cnt, fn := Fn_file cb,
     arg_file := Some f, op := Op_rw \<lparr>rw_channel = c,
       pin_buf = mem_read (heap_garbage st) 0 (unat (num * ucast (io_unit_size st))), is_read = rd, rw_offset = off,
       rw_length = num * ucast (io_unit_size st), start_lba = start, num_lba = num, blocklen = io_unit_size st\<rparr>\<rparr>"

lemma rw_started:
  assumes "file_heap st f = Some fl" "blob fl = Some b" "free_request st c r" "alloc_fail st = []"
    and "get_page_parameters st off len = Some (start, io_unit_size st, num)"
    and "off + len \<le> file_length fl" "length vs = unat cnt" "0 < cnt" "rd \<or> \<not> is_lba_aligned st off len"
  shows "readvwritev st f c vs cnt off len cb rd =
    Some ((outstanding st c r (rw_request st f c vs cnt off start num cb rd))\<lparr>pending := pending st @ [(BS_read b start num, Bs_read_done r)]\<rparr>)"
proof -
  let ?n = "if cnt > 1 then unat cnt else 1"
  have n: "?n = length vs" using assms(7,8) u32_pos by auto
  have "fs_request_setup_iovs (replicate ?n zero_iovec) 0 (unat cnt) vs = Some vs"
    using n assms(7) by (subst setup_iovs_copies) simp_all
  moreover have "get_page_parameters (outstanding st c r rq) off len = Some (start, io_unit_size st, num)"
    "is_lba_aligned (outstanding st c r rq) off len = is_lba_aligned st off len" for rq
    using assms(5) by (simp_all add: get_page_parameters_def is_lba_aligned_def)
  moreover have "\<not> file_length fl < off + len" "\<not> off + len > file_length fl" using assms(6) by simp_all
  ultimately show ?thesis
    using assms(1,2,4,9) alloc_request [OF assms(3,4), of cnt]
    by (auto simp: readvwritev_def upd_outstanding get_file_def get_req_def req_file_def bs_submit_def try_alloc_ok do_blob_read_def
        file_blob_def op_rw_def rw_request_def Let_def zero_request_def)
qed

text \<open>A range in blocks of \<open>2^k\<close> bytes.\<close>

definition block_range :: "nbfs \<Rightarrow> nat \<Rightarrow> u64 \<Rightarrow> u64 \<Rightarrow> bool" where
  "block_range st k off len \<longleftrightarrow> io_unit_size st = 2 ^ k \<and> k < 32 \<and> 0 < len \<and> unat off + unat len + 2 ^ k \<le> 2 ^ 64"

lemma unat_block_size: "k < 32 \<Longrightarrow> unat (2 ^ k :: u32) = 2 ^ k"
  using unat_of_nat [of "2 ^ k", where 'a = 32] power_strict_increasing [of k 32 "2::nat"] by simp

lemma unat_block_offset: "k < 32 \<Longrightarrow> unat (off AND ucast ((2 ^ k :: u32) - 1) :: u64) = unat off mod 2 ^ k"
proof -
  assume k: "k < 32"
  have "(ucast ((2 ^ k :: u32) - 1) :: u64) = mask k"
    using k by (simp flip: mask_eq_exp_minus_1 add: bit_eq_iff bit_ucast_iff bit_mask_iff) auto
  then show ?thesis by (simp add: unsigned_take_bit_eq take_bit_nat_def flip: take_bit_eq_mask)
qed

lemma block_range_pages:
  assumes "block_range st k off len"
  obtains start num where "get_page_parameters st off len = Some (start, io_unit_size st, num)"
    "unat (num * ucast (io_unit_size st)) = unat num * 2 ^ k"
    "unat off mod 2 ^ k + unat len \<le> unat num * 2 ^ k"
proof -
  have k: "io_unit_size st = 2 ^ k" "k < 32" "0 < unat len" "unat off + unat len + 2 ^ k \<le> 2 ^ 64"
    using assms by (auto simp: block_range_def unat_gt_0)
  have B: "unat (io_unit_size st) = 2 ^ k" "io_unit_size st \<noteq> 0"
    using k(1,2) unat_block_size [OF k(2)] by auto
  obtain start num where p: "get_page_parameters st off len = Some (start, io_unit_size st, num)"
    "unat start = unat off div 2 ^ k" "unat num = (unat off + unat len - 1) div 2 ^ k - unat off div 2 ^ k + 1"
    using page_parameters [of st len off] B k(3,4) by auto
  have le: "unat off div 2 ^ k \<le> (unat off + unat len - 1) div 2 ^ k" using k(3) by (intro div_le_mono) simp
  define e where "e = (unat off + unat len - 1) div 2 ^ k"
  have e: "e * 2 ^ k \<le> unat off + unat len - 1" "unat off + unat len - 1 < e * 2 ^ k + 2 ^ k"
    using div_times_less_eq_dividend [of "unat off + unat len - 1" "2 ^ k"]
      dividend_less_div_times [of "2 ^ k" "unat off + unat len - 1"] by (simp_all add: e_def)
  have n: "unat num * 2 ^ k = e * 2 ^ k + 2 ^ k - unat off div 2 ^ k * 2 ^ k"
    using le p(3) by (simp add: e_def diff_mult_distrib add_mult_distrib)
  then have "unat num * 2 ^ k < 2 ^ 64" using e(1) k(3,4) by simp
  then have "unat (num * ucast (io_unit_size st)) = unat num * 2 ^ k"
    by (simp add: unat_word_ariths B)
  moreover have "unat off mod 2 ^ k + unat len \<le> unat num * 2 ^ k"
    using n e(2) k(3) div_mult_mod_eq [of "unat off" "2 ^ k"] by linarith
  ultimately show thesis using that p(1) by blast
qed

text \<open>The completion of the read, for a read and for a write.\<close>

lemma read_done_write:
  assumes "requests st r = Some (rw_request st0 f c vs cnt off start num cb False)" "file_heap st f = Some fl" "blob fl = Some b"
    and "length vs = unat cnt" "io_unit_size st0 = 2 ^ k" "k < 32" "iovs_total vs \<le> unat (num * ucast (io_unit_size st0))"
    and "unat off mod 2 ^ k + iovs_total vs \<le> length data"
  shows "\<exists>st'. read_done st r data e = Some st' \<and> pending st' = pending st @
    [(BS_write b (take (unat off mod 2 ^ k) data @ gather (memory st) vs @ drop (unat off mod 2 ^ k + iovs_total vs) data) start num, Bs_rw_done r)]"
  using assms(1-6) copy_iovs_to_buf_ok [OF assms(7,8), of "memory st"]
  by (simp add: read_done_def op_rw_def exec rw_request_def req_iovs_def unat_block_offset file_blob_def Let_def)

lemma read_done_read:
  assumes "requests st r = Some (rw_request st0 f c vs cnt off start num (Cb_user u) True)"
    and "length vs = unat cnt" "io_unit_size st0 = 2 ^ k" "k < 32" "iovs_total vs \<le> unat (num * ucast (io_unit_size st0))"
    and "unat off mod 2 ^ k + iovs_total vs \<le> length data" "iovs_disjoint vs"
    and "free_request st1 c r" "channels st = channels (outstanding st1 c r rq)"
  shows "\<exists>st'. read_done st r data e = Some st' \<and> gather (memory st') vs = take (iovs_total vs) (drop (unat off mod 2 ^ k) data) \<and>
    replies st' = replies st @ [Reply_op u 0] \<and> pending st' = pending st \<and> channels st' = channels st1"
proof -
  obtain mem where mem: "copy_buf_to_iovs (memory st) vs data (unat off mod 2 ^ k) (num * ucast (io_unit_size st0)) = Some mem"
      "gather mem vs = take (iovs_total vs) (drop (unat off mod 2 ^ k) data)"
    using copy_buf_to_iovs_ok [OF assms(5-7)] by blast
  let ?st = "st\<lparr>memory := mem, replies := replies st @ [Reply_op u 0]\<rparr>"
  have "free_fs_request ?st r = Some (?st\<lparr>channels := channels st1\<rparr>)"
    using free_outstanding [OF assms(8), of ?st rq] assms(1,9) by (simp add: rw_request_def zero_request_def)
  then show ?thesis
    using assms(1-4) mem
    by (simp add: read_done_def op_rw_def exec rw_request_def req_iovs_def unat_block_offset rw_done_def Let_def)
qed

text \<open>A file of 4096 bytes that is open on blob 5, on blocks of 512 bytes.\<close>

definition block_file :: spdk_file where
  "block_file = (sample_file ''a'')\<lparr>ref_count := 1, blob := Some 5, file_length := 4096\<rparr>"

definition block_fs :: nbfs where
  "block_fs = sample_fs [(''a'', 3)] [3 \<mapsto> block_file]"

lemma block_fs_simps:
  "file_heap block_fs = [3 \<mapsto> block_file]" "blob block_file = Some 5" "free_request block_fs (Suc 0) 24" "alloc_fail block_fs = []"
  "block_range block_fs 9 100 10" "\<not> is_lba_aligned block_fs 100 10" "file_length block_file = 4096" "pending block_fs = []"
  by (simp_all add: block_fs_def block_file_def sample_fs_def boot_state_def free_request_def zero_channel_def
      block_range_def is_lba_aligned_def)

text \<open>C25: A write that is not aligned to blocks, inside the file, first reads the blocks it
  touches and, when they have arrived, writes them back with exactly the bytes of its range
  replaced by the bytes of its vectors.  It does so whatever error the read reports.\<close>

theorem unaligned_write_merges:
  assumes "file_heap st f = Some fl" "blob fl = Some b" "free_request st c r" "alloc_fail st = []"
    and "block_range st k off len" "\<not> is_lba_aligned st off len" "off + len \<le> file_length fl"
    and "length vs = unat cnt" "0 < cnt" "iovs_total vs = unat len"
  shows "\<exists>st1 start num. spdk_file_writev_async st f c vs cnt off len (Cb_user u) = Some st1 \<and>
    get_page_parameters st off len = Some (start, 2 ^ k, num) \<and>
    pending st1 = pending st @ [(BS_read b start num, Bs_read_done r)] \<and>
    (\<forall>data e. length data = unat num * 2 ^ k \<longrightarrow>
      (\<exists>st2. read_done (st1\<lparr>pending := pending st\<rparr>) r data e = Some st2 \<and>
        pending st2 = pending st @ [(BS_write b (take (unat off mod 2 ^ k) data @ gather (memory st) vs @
          drop (unat off mod 2 ^ k + unat len) data) start num, Bs_rw_done r)]))"
proof -
  have k: "io_unit_size st = 2 ^ k" "k < 32" using assms(5) by (simp_all add: block_range_def)
  obtain start num where p: "get_page_parameters st off len = Some (start, io_unit_size st, num)"
    "unat (num * ucast (io_unit_size st)) = unat num * 2 ^ k" "unat off mod 2 ^ k + unat len \<le> unat num * 2 ^ k"
    using block_range_pages [OF assms(5)] by blast
  define st1 where "st1 = (outstanding st c r (rw_request st f c vs cnt off start num (Cb_user u) False))\<lparr>
    pending := pending st @ [(BS_read b start num, Bs_read_done r)]\<rparr>"
  have "\<exists>st2. read_done (st1\<lparr>pending := pending st\<rparr>) r data e = Some st2 \<and>
        pending st2 = pending st @ [(BS_write b (take (unat off mod 2 ^ k) data @ gather (memory st) vs @
          drop (unat off mod 2 ^ k + unat len) data) start num, Bs_rw_done r)]"
    if "length data = unat num * 2 ^ k" for data e
    using read_done_write [of "st1\<lparr>pending := pending st\<rparr>" r st f c vs cnt off start num "Cb_user u" fl b k data e] that assms p(2,3) k
    by (simp add: st1_def)
  moreover have "spdk_file_writev_async st f c vs cnt off len (Cb_user u) = Some st1"
    using rw_started [OF assms(1-4) p(1) assms(7-9), of False] assms(6) by (simp add: spdk_file_writev_async_def st1_def)
  ultimately show ?thesis using p(1) k(1) by (simp add: st1_def)
qed

theorem unaligned_write_merges_witness:
  "\<exists>st1 start num. spdk_file_writev_async block_fs 3 1 [\<lparr>iov_base = 0, iov_len = 10\<rparr>] 1 100 10 (Cb_user 7) = Some st1 \<and>
    pending st1 = [(BS_read 5 start num, Bs_read_done 24)]"
  using unaligned_write_merges [of block_fs 3 block_file 5 1 24 9 100 10 "[\<lparr>iov_base = 0, iov_len = 10\<rparr>]" 1 7]
  by (auto simp: block_fs_simps)

text \<open>C11: What an unaligned write hands to the blobstore, a later read of the same range gets
  back: when the blocks it asks for (the same ones) hold the written bytes, the reader's
  vectors end up with the writer's bytes, the reader is answered once with 0 and its request
  is free again.\<close>

theorem uncached_write_then_read:
  assumes "file_heap st f = Some fl" "blob fl = Some b" "free_request st c r" "alloc_fail st = []"
    and "block_range st k off len" "\<not> is_lba_aligned st off len" "off + len \<le> file_length fl"
    and "length vs = unat cnt" "0 < cnt" "iovs_total vs = unat len"
    and "file_heap s g = Some gl" "blob gl = Some b" "free_request s d q" "alloc_fail s = []"
    and "io_unit_size s = io_unit_size st" "off + len \<le> file_length gl"
    and "length ws = unat cnt'" "0 < cnt'" "iovs_total ws = unat len" "iovs_disjoint ws"
    and "\<And>num. length (old num) = unat num * 2 ^ k"
  shows "\<exists>st1 st2 start num data. spdk_file_writev_async st f c vs cnt off len (Cb_user u) = Some st1 \<and>
    read_done (st1\<lparr>pending := pending st\<rparr>) r (old num) 0 = Some st2 \<and>
    pending st2 = pending st @ [(BS_write b data start num, Bs_rw_done r)] \<and>
    (\<exists>s1 s2. spdk_file_readv_async s g d ws cnt' off len (Cb_user v) = Some s1 \<and>
      pending s1 = pending s @ [(BS_read b start num, Bs_read_done q)] \<and>
      read_done (s1\<lparr>pending := pending s\<rparr>) q data 0 = Some s2 \<and>
      gather (memory s2) ws = gather (memory st) vs \<and> replies s2 = replies s @ [Reply_op v 0] \<and> channels s2 = channels s)"
proof -
  have k: "io_unit_size st = 2 ^ k" "k < 32" "io_unit_size s = 2 ^ k"
    using assms(5,15) by (simp_all add: block_range_def)
  obtain start num where p: "get_page_parameters st off len = Some (start, io_unit_size st, num)"
    "unat (num * ucast (io_unit_size st)) = unat num * 2 ^ k" "unat off mod 2 ^ k + unat len \<le> unat num * 2 ^ k"
    using block_range_pages [OF assms(5)] by blast
  have ps: "get_page_parameters s off len = Some (start, io_unit_size s, num)"
    using p(1) assms(15) by (simp add: get_page_parameters_def)
  define st1 where "st1 = (outstanding st c r (rw_request st f c vs cnt off start num (Cb_user u) False))\<lparr>
    pending := pending st @ [(BS_read b start num, Bs_read_done r)]\<rparr>"
  define s1 where "s1 = (outstanding s d q (rw_request s g d ws cnt' off start num (Cb_user v) True))\<lparr>
    pending := pending s @ [(BS_read b start num, Bs_read_done q)]\<rparr>"
  define data where "data = take (unat off mod 2 ^ k) (old num) @ gather (memory st) vs @ drop (unat off mod 2 ^ k + unat len) (old num)"
  have w: "spdk_file_writev_async st f c vs cnt off len (Cb_user u) = Some st1"
    using rw_started [OF assms(1-4) p(1) assms(7-9), of False] assms(6) by (simp add: spdk_file_writev_async_def st1_def)
  have "\<exists>st2. read_done (st1\<lparr>pending := pending st\<rparr>) r (old num) 0 = Some st2 \<and>
      pending st2 = pending st @ [(BS_write b data start num, Bs_rw_done r)]"
    using read_done_write [of "st1\<lparr>pending := pending st\<rparr>" r st f c vs cnt off start num "Cb_user u" fl b k "old num" 0]
      assms(1,2,8,10) assms(21) [of num] p(2,3) k
    by (simp add: st1_def data_def)
  moreover have "spdk_file_readv_async s g d ws cnt' off len (Cb_user v) = Some s1"
    using rw_started [OF assms(11-14) ps assms(16-18), of True] by (simp add: spdk_file_readv_async_def s1_def)
  moreover have "take (unat len) (drop (unat off mod 2 ^ k) data) = gather (memory st) vs"
    using assms(10) assms(21) [of num] p(3) by (simp add: data_def)
  moreover have "\<exists>s2. read_done (s1\<lparr>pending := pending s\<rparr>) q data 0 = Some s2 \<and>
      gather (memory s2) ws = take (iovs_total ws) (drop (unat off mod 2 ^ k) data) \<and>
      replies s2 = replies (s1\<lparr>pending := pending s\<rparr>) @ [Reply_op v 0] \<and> pending s2 = pending (s1\<lparr>pending := pending s\<rparr>) \<and> channels s2 = channels s"
    using read_done_read [of "s1\<lparr>pending := pending s\<rparr>" q s g d ws cnt' off start num v k data s
        "rw_request s g d ws cnt' off start num (Cb_user v) True" 0]
      assms(10,13,15,17,19,20) assms(21) [of num] p(2,3) k
    by (simp add: s1_def data_def outstanding_def)
  ultimately obtain st2 s2 where "read_done (st1\<lparr>pending := pending st\<rparr>) r (old num) 0 = Some st2"
      "pending st2 = pending st @ [(BS_write b data start num, Bs_rw_done r)]"
      "spdk_file_readv_async s g d ws cnt' off len (Cb_user v) = Some s1" "read_done (s1\<lparr>pending := pending s\<rparr>) q data 0 = Some s2"
      "gather (memory s2) ws = gather (memory st) vs" "replies s2 = replies s @ [Reply_op v 0]" "channels s2 = channels s"
    using assms(19) by (auto simp: s1_def)
  moreover have "pending s1 = pending s @ [(BS_read b start num, Bs_read_done q)]" by (simp add: s1_def)
  ultimately show ?thesis using w by blast
qed

theorem uncached_write_then_read_witness:
  "\<exists>st1 st2 start num data. spdk_file_writev_async block_fs 3 1 [\<lparr>iov_base = 0, iov_len = 10\<rparr>] 1 100 10 (Cb_user 7) = Some st1 \<and>
    read_done (st1\<lparr>pending := pending block_fs\<rparr>) 24 (replicate (unat num * 2 ^ 9) 0) 0 = Some st2 \<and>
    pending st2 = pending block_fs @ [(BS_write 5 data start num, Bs_rw_done 24)] \<and>
    (\<exists>s1 s2. spdk_file_readv_async block_fs 3 1 [\<lparr>iov_base = 50, iov_len = 4\<rparr>, \<lparr>iov_base = 60, iov_len = 6\<rparr>] 2 100 10 (Cb_user 8) = Some s1 \<and>
      read_done (s1\<lparr>pending := pending block_fs\<rparr>) 24 data 0 = Some s2 \<and>
      gather (memory s2) [\<lparr>iov_base = 50, iov_len = 4\<rparr>, \<lparr>iov_base = 60, iov_len = 6\<rparr>] = gather (memory block_fs) [\<lparr>iov_base = 0, iov_len = 10\<rparr>])"
  using uncached_write_then_read [of block_fs 3 block_file 5 1 24 9 100 10 "[\<lparr>iov_base = 0, iov_len = 10\<rparr>]" 1
      block_fs 3 block_file 1 24 "[\<lparr>iov_base = 50, iov_len = 4\<rparr>, \<lparr>iov_base = 60, iov_len = 6\<rparr>]" 2 "\<lambda>num. replicate (unat num * 2 ^ 9) 0" 7 8]
  by (simp add: block_fs_simps iov_addrs_def) blast

section \<open>Clusters\<close>

text \<open>A truncation, and the extension before an append, asks for the smallest number of
  clusters that holds the new length, provided that rounding up does not leave the 64-bit
  range.\<close>

theorem bytes_to_clusters_least:
  assumes "0 < csz" "unat len + unat csz \<le> 2 ^ 64"
  shows "unat len \<le> unat (bytes_to_clusters len csz) * unat csz \<and>
    (\<forall>n. unat len \<le> n * unat csz \<longrightarrow> unat (bytes_to_clusters len csz) \<le> n)"
proof -
  have c: "0 < unat csz" using assms(1) by (simp add: unat_gt_0)
  have u: "unat (bytes_to_clusters len csz) = (unat len + unat csz - 1) div unat csz" (is "?n = ?m div ?c")
    using unat_last_byte [OF c assms(2)] by (simp add: bytes_to_clusters_def unat_div_distrib)
  have "?m < ?m div ?c * ?c + ?c" using dividend_less_div_times [OF c, of ?m] by simp
  then have "unat len \<le> ?n * ?c" using c u by simp
  moreover have "?n \<le> n" if "unat len \<le> n * ?c" for n
  proof -
    have "?m < (n + 1) * ?c" using that c by simp
    then have "?m div ?c < n + 1" using c by (simp only: div_less_iff_less_mult)
    then show ?thesis using u by simp
  qed
  ultimately show ?thesis by blast
qed

theorem bytes_to_clusters_least_witness:
  "5000 \<le> unat (bytes_to_clusters 5000 4096) * 4096 \<and> unat (bytes_to_clusters 5000 4096) \<le> 2"
  using bytes_to_clusters_least [of 4096 5000] by simp

end
