(* ===== verification/NBFS_Cached.thy ===== *)
theory NBFS_Cached
  imports NBFS_Block
begin

unbundle bit_operations_syntax

text \<open>
  What the cached writes and reads do with the bytes.  The content of a file's cache is the
  partial function from byte positions to bytes that its tree and buffers hold; a write
  extends it by the bytes of its payload, a read copies from it, and a read that reaches the
  end of a page drops the page.
\<close>

section \<open>The content of a cache\<close>

definition page_ok :: "(buf_ptr \<rightharpoonup> cache_buffer) \<Rightarrow> nat \<Rightarrow> buf_ptr \<Rightarrow> bool" where
  "page_ok bufs p b \<longleftrightarrow> (case bufs b of None \<Rightarrow> False
     | Some cb \<Rightarrow> unat (offset cb) = p * 2 ^ 18 \<and> buf_size cb = 2 ^ 18 \<and> unat (bytes_filled cb) \<le> 2 ^ 18)"

definition cache_ok :: "nbfs \<Rightarrow> spdk_file \<Rightarrow> bool" where
  "cache_ok st fl \<longleftrightarrow> ct_inv (tree fl) \<and> (\<forall>p b. ct_abs (tree fl) p = Some b \<longrightarrow> page_ok (buffers st) p b)"

definition cached_byte :: "nbfs \<Rightarrow> file_ptr \<Rightarrow> nat \<Rightarrow> u8 option" where
  "cached_byte st f i =
     do { fl \<leftarrow> file_heap st f;
          b \<leftarrow> ct_abs (tree fl) (i div 2 ^ 18);
          cb \<leftarrow> buffers st b;
          if i mod 2 ^ 18 < unat (bytes_filled cb) then Some (buf cb (i mod 2 ^ 18)) else None }"

text \<open>A file that is being appended to: its last buffer is the one of the page of \<open>append_pos\<close>,
  filled up to there, and no page behind it is cached.\<close>

definition appending :: "nbfs \<Rightarrow> file_ptr \<Rightarrow> spdk_file \<Rightarrow> buf_ptr \<Rightarrow> cache_buffer \<Rightarrow> bool" where
  "appending st f fl b cb \<longleftrightarrow> file_heap st f = Some fl \<and> cache_ok st fl \<and> file_last fl = Some b \<and>
     buffers st b = Some cb \<and> ct_abs (tree fl) (unat (append_pos fl) div 2 ^ 18) = Some b \<and>
     unat (bytes_filled cb) = unat (append_pos fl) mod 2 ^ 18 \<and>
     (\<forall>p > unat (append_pos fl) div 2 ^ 18. ct_abs (tree fl) p = None) \<and> (\<forall>b' \<in> dom (buffers st). b' < fresh_buf st)"

lemma page_ok_other: "page_ok bufs p b \<Longrightarrow> b \<noteq> b' \<Longrightarrow> page_ok (bufs(b' := x)) p b"
  by (simp add: page_ok_def)

lemma page_ok_inj: "page_ok bufs p b \<Longrightarrow> page_ok bufs q b \<Longrightarrow> p = q"
  by (auto simp: page_ok_def split: option.splits)

section \<open>Filling the last buffer\<close>

definition filled_buffer :: "nbfs \<Rightarrow> cache_buffer \<Rightarrow> nat \<Rightarrow> u64 \<Rightarrow> cache_buffer" where
  "filled_buffer st cb cur copy = cb\<lparr>buf := mem_write (buf cb) (unat (bytes_filled cb)) (mem_read (memory st) cur (unat copy)),
     bytes_filled := ucast (ucast (bytes_filled cb) + copy)\<rparr>"

definition filled_state :: "nbfs \<Rightarrow> file_ptr \<Rightarrow> spdk_file \<Rightarrow> buf_ptr \<Rightarrow> cache_buffer \<Rightarrow> nat \<Rightarrow> u64 \<Rightarrow> nbfs" where
  "filled_state st f fl b cb cur copy = st\<lparr>file_heap := (file_heap st)(f \<mapsto> advance_append copy fl),
     buffers := (buffers st)(b \<mapsto> filled_buffer st cb cur copy)\<rparr>"

lemma unat_ucast_small: "unat (w :: u64) < 2 ^ 32 \<Longrightarrow> unat (ucast w :: u32) = unat w"
  by (simp add: unsigned_ucast_eq take_bit_nat_eq_self_iff)

lemma unat_copy:
  fixes rem :: u64
  assumes "buf_size cb = 2 ^ 18" "unat (bytes_filled cb) \<le> 2 ^ 18"
  defines "copy \<equiv> min (ucast (buf_size cb - bytes_filled cb)) rem"
  shows "unat copy = min (2 ^ 18 - unat (bytes_filled cb)) (unat rem)"
    and "unat (bytes_filled (filled_buffer st cb cur copy)) = unat (bytes_filled cb) + unat copy"
proof -
  have "bytes_filled cb \<le> buf_size cb" using assms(1,2) by (simp add: word_le_nat_alt)
  then have d: "unat (ucast (buf_size cb - bytes_filled cb) :: u64) = 2 ^ 18 - unat (bytes_filled cb)"
    using assms(1) by (simp add: unat_sub)
  then show c: "unat copy = min (2 ^ 18 - unat (bytes_filled cb)) (unat rem)"
    unfolding copy_def by (simp add: min_def word_le_nat_alt)
  have "unat (ucast (bytes_filled cb) + copy :: u64) = unat (bytes_filled cb) + unat copy"
    using c assms(2) by (simp add: unat_word_ariths)
  then show "unat (bytes_filled (filled_buffer st cb cur copy)) = unat (bytes_filled cb) + unat copy"
    using c assms(2) by (simp add: filled_buffer_def unat_ucast_small)
qed

lemma fill_step_ok:
  fixes rem :: u64
  assumes "file_heap st f = Some fl" "buffers st b = Some cb" "buf_size cb = 2 ^ 18" "unat (bytes_filled cb) \<le> 2 ^ 18"
  defines "copy \<equiv> min (ucast (buf_size cb - bytes_filled cb)) rem"
  shows "fill_step st f b rem cur = Some (filled_state st f fl b cb cur copy, copy)"
proof -
  have "unat (bytes_filled cb) + min (2 ^ 18 - unat (bytes_filled cb)) (unat rem) \<le> 2 ^ 18" using assms(4) by simp
  then show ?thesis
    using unat_copy(1) [OF assms(3,4), of rem] assms(1-4)
    by (simp add: fill_step_def exec upd_buffer_def filled_state_def filled_buffer_def Let_def copy_def)
qed

lemma advance_append_simps [simp]:
  "tree (advance_append n fl) = tree fl" "file_last (advance_append n fl) = file_last fl" "lock (advance_append n fl) = lock fl"
  "append_pos (advance_append n fl) = append_pos fl + n" "blob (advance_append n fl) = blob fl"
  "file_length (advance_append n fl) = max (file_length fl) (append_pos fl + n)"
  by (auto simp: advance_append_def Let_def max_def)

lemma same_page:
  fixes A i n P :: nat
  assumes "A mod P + n \<le> P"
  shows "A \<le> i \<and> i < A + n \<longleftrightarrow> i div P = A div P \<and> A mod P \<le> i mod P \<and> i mod P < A mod P + n"
proof
  assume i: "A \<le> i \<and> i < A + n"
  then have P: "0 < P" using assms by (cases P) auto
  obtain d where d: "i = A + d" "d < n" using i by (metis le_Suc_ex nat_add_left_cancel_less)
  have e: "i = A mod P + d + A div P * P" using d(1) div_mult_mod_eq [of A P] by linarith
  have "A mod P + d < P" using d assms by simp
  moreover have "(x + q * P) div P = q \<and> (x + q * P) mod P = x" if "x < P" for x q using that by simp
  ultimately have "i div P = A div P" "i mod P = A mod P + d" using e by presburger+
  then show "i div P = A div P \<and> A mod P \<le> i mod P \<and> i mod P < A mod P + n" using d by simp
next
  assume i: "i div P = A div P \<and> A mod P \<le> i mod P \<and> i mod P < A mod P + n"
  then show "A \<le> i \<and> i < A + n"
    using div_mult_mod_eq [of i P] div_mult_mod_eq [of A P] by (metis nat_add_left_cancel_le nat_add_left_cancel_less add.assoc)
qed

lemma appending_last:
  assumes "appending st f fl b cb"
  shows "buf_size cb = 2 ^ 18" "unat (bytes_filled cb) = unat (append_pos fl) mod 2 ^ 18"
    "page_ok (buffers st) (unat (append_pos fl) div 2 ^ 18) b" "unat (bytes_filled cb) \<le> 2 ^ 18"
proof -
  show ok: "page_ok (buffers st) (unat (append_pos fl) div 2 ^ 18) b" using assms(1) by (simp add: appending_def cache_ok_def)
  then show "buf_size cb = 2 ^ 18" using assms(1) by (simp add: page_ok_def appending_def)
  show "unat (bytes_filled cb) = unat (append_pos fl) mod 2 ^ 18" using assms(1) by (simp add: appending_def)
  then show "unat (bytes_filled cb) \<le> 2 ^ 18" by (simp add: less_imp_le)
qed

lemma filled_state_simps [simp]:
  "buffers (filled_state st f fl b cb cur copy) = (buffers st)(b \<mapsto> filled_buffer st cb cur copy)"
  "file_heap (filled_state st f fl b cb cur copy) = (file_heap st)(f \<mapsto> advance_append copy fl)"
  "fresh_buf (filled_state st f fl b cb cur copy) = fresh_buf st" "memory (filled_state st f fl b cb cur copy) = memory st"
  "alloc_fail (filled_state st f fl b cb cur copy) = alloc_fail st" "pool_count (filled_state st f fl b cb cur copy) = pool_count st"
  by (simp_all add: filled_state_def)

text \<open>One round of the loop: what it does to the content.\<close>

lemma filled_content:
  fixes rem :: u64 and cur :: nat
  assumes "appending st f fl b cb"
  defines "A \<equiv> unat (append_pos fl)"
  defines "copy \<equiv> min (ucast (buf_size cb - bytes_filled cb)) rem"
  defines "st' \<equiv> filled_state st f fl b cb cur copy"
  shows "cached_byte st' f i = (if A \<le> i \<and> i < A + unat copy then Some (memory st (cur + (i - A))) else cached_byte st f i)"
    and "cache_ok st' (advance_append copy fl)"
proof -
  note l = appending_last [OF assms(1), folded A_def]
  note a = unat_copy(1) [OF l(1,4), of rem, folded copy_def, unfolded l(2)] unat_copy(2) [OF l(1,4), of st cur rem, folded copy_def, unfolded l(2)]
  have le: "A mod 2 ^ 18 + unat copy \<le> 2 ^ 18" using a(1) by simp
  have b: "file_heap st f = Some fl" "buffers st b = Some cb" "ct_abs (tree fl) (A div 2 ^ 18) = Some b" "cache_ok st fl"
    using assms(1) by (simp_all add: appending_def A_def)
  have other: "b' \<noteq> b" if "ct_abs (tree fl) p = Some b'" "p \<noteq> A div 2 ^ 18" for p b'
    using that b(4) page_ok_inj [OF l(3), of p] by (auto simp: cache_ok_def)
  show "cached_byte st' f i = (if A \<le> i \<and> i < A + unat copy then Some (memory st (cur + (i - A))) else cached_byte st f i)"
  proof (cases "i div 2 ^ 18 = A div 2 ^ 18")
    case True
    have "buf (filled_buffer st cb cur copy) (i mod 2 ^ 18) =
        (if A mod 2 ^ 18 \<le> i mod 2 ^ 18 \<and> i mod 2 ^ 18 < A mod 2 ^ 18 + unat copy
         then memory st (cur + (i mod 2 ^ 18 - A mod 2 ^ 18)) else buf cb (i mod 2 ^ 18))"
      using l(2) by (auto simp: filled_buffer_def mem_write_def mem_read_def)
    moreover have "i - A = i mod 2 ^ 18 - A mod 2 ^ 18"
      using True div_mult_mod_eq [of i "2 ^ 18"] div_mult_mod_eq [of A "2 ^ 18"] by (metis Nat.diff_cancel)
    ultimately show ?thesis
      using True b l(2) a(2) same_page [OF le, of i] by (auto simp: cached_byte_def st'_def)
  next
    case False
    then show ?thesis
      using b(1) same_page [OF le, of i] other [of "i div 2 ^ 18"] by (auto simp: cached_byte_def st'_def bind_eq_Some_conv split: Option.bind_splits)
  qed
  have "page_ok (buffers st') p b'" if p: "ct_abs (tree fl) p = Some b'" for p b'
  proof (cases "p = A div 2 ^ 18")
    case True
    have "offset (filled_buffer st cb cur copy) = offset cb" "buf_size (filled_buffer st cb cur copy) = buf_size cb"
      by (simp_all add: filled_buffer_def)
    then show ?thesis using True p b a(2) l(3) le by (simp add: page_ok_def st'_def)
  next
    case False
    then show ?thesis using p b(4) other [OF p] by (simp add: cache_ok_def page_ok_other st'_def)
  qed
  then show "cache_ok st' (advance_append copy fl)" using b(4) by (simp add: cache_ok_def)
qed

section \<open>A new last buffer\<close>

text \<open>The parts of the state the cache operations leave alone.\<close>

definition cache_change :: "nbfs \<Rightarrow> nbfs \<Rightarrow> bool" where
  "cache_change st st' \<longleftrightarrow> (\<exists>F B i n ps. st' = st\<lparr>file_heap := F, buffers := B, fresh_buf := i, pool_count := n, pool_msgs := ps\<rparr>)"

lemma cache_change_trans: "cache_change st st1 \<Longrightarrow> cache_change st1 st2 \<Longrightarrow> cache_change st st2"
  by (clarsimp simp: cache_change_def) (intro exI, rule refl)

lemma cache_changeI: "st' = st\<lparr>file_heap := F, buffers := B, fresh_buf := i, pool_count := n, pool_msgs := ps\<rparr> \<Longrightarrow> cache_change st st'"
  unfolding cache_change_def by blast

lemma cache_change_filled: "cache_change st (filled_state st f fl b cb cur copy)"
  by (rule cache_changeI [where i = "fresh_buf st" and n = "pool_count st" and ps = "pool_msgs st"]) (simp add: filled_state_def)

lemma cache_change_simps:
  assumes "cache_change st st'"
  shows "memory st' = memory st" "alloc_fail st' = alloc_fail st" "requests st' = requests st" "channels st' = channels st"
    "pending st' = pending st" "msgs st' = msgs st" "replies st' = replies st" "num_clusters st' = num_clusters st" "cluster_sz st' = cluster_sz st"
  using assms by (auto simp: cache_change_def)

lemma append_buffer_ok:
  assumes "file_heap st f = Some fl" "cache_ok st fl" "unat (append_pos fl) mod 2 ^ 18 = 0" "unat (append_pos fl) < 2 ^ 60"
    and none: "\<forall>p \<ge> unat (append_pos fl) div 2 ^ 18. ct_abs (tree fl) p = None"
    and "pool_count st = Some (Suc n)" "alloc_fail st = []" and fresh: "\<forall>b' \<in> dom (buffers st). b' < fresh_buf st"
    and "\<forall>b. file_last fl = Some b \<longrightarrow> (\<exists>cb. buffers st b = Some cb \<and> bytes_filled cb = buf_size cb)"
  shows "\<exists>st' t cb. cache_append_buffer st f = Some (st', Some (fresh_buf st)) \<and>
    appending st' f (fl\<lparr>tree := t, file_last := Some (fresh_buf st)\<rparr>) (fresh_buf st) cb \<and> cache_change st st' \<and>
    pool_count st' = Some n \<and> file_heap st' = (file_heap st)(f \<mapsto> fl\<lparr>tree := t, file_last := Some (fresh_buf st)\<rparr>) \<and>
    (\<forall>i. cached_byte st' f i = cached_byte st f i)"
proof -
  let ?b = "fresh_buf st" and ?off = "append_pos fl" and ?cb = "new_cache_buffer (heap_garbage st) (append_pos fl)"
  let ?p = "unat ?off div 2 ^ 18"
  have p: "page ?off = ?p" by (simp add: page_def)
  obtain t where t: "tree_insert_buffer (tree fl) ?b ?off = Some t" "ct_inv t" "ct_abs t = (ct_abs (tree fl))(?p \<mapsto> ?b)"
    using ct.ins_law [of "tree fl" ?off ?b] assms(2) none page_bound [OF assms(4)] p by (auto simp: cache_ok_def)
  let ?fl = "fl\<lparr>tree := t, file_last := Some ?b\<rparr>"
  let ?st = "st\<lparr>file_heap := (file_heap st)(f \<mapsto> ?fl), buffers := (buffers st)(?b \<mapsto> ?cb), fresh_buf := Suc ?b, pool_count := Some n,
    pool_msgs := (if present_mask (tree fl) = 0 then pool_msgs st @ [Pool_add_file f] else pool_msgs st)\<rparr>"
  have "?off mod CACHE_BUFFER_SIZE = 0"
    using assms(3) by (simp add: CACHE_BUFFER_SIZE_def CACHE_BUFFER_SHIFT_def word_unat_eq_iff unat_mod_distrib)
  then have run: "cache_append_buffer st f = Some (?st, Some ?b)"
    using assms(1,6,7,9) t(1)
    by (auto simp: cache_append_buffer_def cache_insert_buffer_def mempool_get_loop.simps [of 0] exec Let_def split: option.splits)
  have new: "offset ?cb = ?off" "buf_size ?cb = 2 ^ 18" "bytes_filled ?cb = 0"
    by (simp_all add: new_cache_buffer_def CACHE_BUFFER_SIZE_def CACHE_BUFFER_SHIFT_def)
  have none_b: "buffers st ?b = None" using fresh by auto
  have "page_ok (buffers ?st) q b" if "ct_abs t q = Some b" for q b
  proof (cases "q = ?p")
    case True
    then show ?thesis using that t(3) new assms(3) div_mult_mod_eq [of "unat ?off" "2 ^ 18"] by (simp add: page_ok_def)
  next
    case False
    then have q: "page_ok (buffers st) q b" using that t(3) assms(2) by (simp add: cache_ok_def)
    then have "b \<noteq> ?b" using none_b by (auto simp: page_ok_def)
    then show ?thesis using q by (simp add: page_ok_other)
  qed
  then have ok: "cache_ok ?st ?fl" using t(2) by (simp add: cache_ok_def)
  have app: "appending ?st f ?fl ?b ?cb"
    using ok t(3) new assms(3) none fresh by (auto simp: appending_def less_Suc_eq)
  have "cached_byte ?st f i = cached_byte st f i" for i
  proof (cases "i div 2 ^ 18 = ?p")
    case True
    then show ?thesis using t(3) none assms(1) new by (simp add: cached_byte_def)
  next
    case False
    have "b \<noteq> ?b" if "ct_abs (tree fl) (i div 2 ^ 18) = Some b" for b
      using that assms(2) none_b unfolding cache_ok_def page_ok_def by fastforce
    then show ?thesis using False t(3) assms(1) by (auto simp: cached_byte_def split: Option.bind_splits)
  qed
  moreover have "cache_change st ?st" by (rule cache_changeI) (rule refl)
  ultimately show ?thesis using run app
    by (intro exI [of _ ?st] exI [of _ t] exI [of _ ?cb] conjI allI) simp_all
qed

section \<open>The loop of a write\<close>

definition same_file :: "spdk_file \<Rightarrow> spdk_file \<Rightarrow> bool" where
  "same_file fl fl' \<longleftrightarrow> (\<exists>a l t b. fl' = fl\<lparr>append_pos := a, file_length := l, tree := t, file_last := b\<rparr>)"

lemma same_file_trans: "same_file fl fl1 \<Longrightarrow> same_file fl1 fl2 \<Longrightarrow> same_file fl fl2"
  by (clarsimp simp: same_file_def) (intro exI, rule refl)

lemma same_file_simps:
  assumes "same_file fl fl'"
  shows "lock fl' = lock fl" "blob fl' = blob fl" "length_flushed fl' = length_flushed fl" "seq_byte_count fl' = seq_byte_count fl"
    "next_seq_offset fl' = next_seq_offset fl" "open_for_writing fl' = open_for_writing fl" "name fl' = name fl"
  using assms by (auto simp: same_file_def)

lemma same_file_advance: "same_file fl (advance_append n fl)" "same_file fl (fl\<lparr>tree := t, file_last := l\<rparr>)"
  unfolding same_file_def advance_append_def Let_def
  by (rule exI, rule exI, rule exI [of _ "tree fl"], rule exI [of _ "file_last fl"], simp)
     (rule exI [of _ "append_pos fl"], rule exI [of _ "file_length fl"], intro exI, simp)

definition written :: "nbfs \<Rightarrow> nbfs \<Rightarrow> file_ptr \<Rightarrow> spdk_file \<Rightarrow> spdk_file \<Rightarrow> nat \<Rightarrow> u64 \<Rightarrow> bool" where
  "written st st' f fl fl' cur rem \<longleftrightarrow> cache_change st st' \<and> same_file fl fl' \<and> append_pos fl' = append_pos fl + rem \<and>
     file_length fl' = (if rem = 0 then file_length fl else max (file_length fl) (append_pos fl + rem)) \<and>
     (\<forall>g. g \<noteq> f \<longrightarrow> file_heap st' g = file_heap st g) \<and>
     (\<forall>i. cached_byte st' f i = (if unat (append_pos fl) \<le> i \<and> i < unat (append_pos fl) + unat rem
        then Some (memory st (cur + (i - unat (append_pos fl)))) else cached_byte st f i))"

lemma unat_append: "unat (a :: u64) + unat n < 2 ^ 60 \<Longrightarrow> unat (a + n) = unat a + unat n"
  by (simp add: unat_word_ariths)

lemma written_trans:
  assumes "written st st1 f fl fl1 cur copy" "written st1 st2 f fl1 fl2 (cur + unat copy) (rem - copy)"
    and "copy \<noteq> 0" "unat copy \<le> unat rem" "unat (append_pos fl) + unat rem < 2 ^ 60"
  shows "written st st2 f fl fl2 cur rem"
proof -
  have r: "unat (rem - copy) = unat rem - unat copy" using assms(4) by (simp add: unat_sub word_le_nat_alt)
  have p: "append_pos fl1 = append_pos fl + copy" "unat (append_pos fl1) = unat (append_pos fl) + unat copy"
    using assms(1,4,5) unat_append [of "append_pos fl" copy] by (simp_all add: written_def)
  have rem: "rem \<noteq> 0" using assms(3,4) by (auto simp flip: unat_gt_0)
  have le: "append_pos fl + copy \<le> append_pos fl + rem"
    using assms(4,5) by (simp add: word_le_nat_alt unat_append)
  have m: "memory st1 = memory st" using assms(1) cache_change_simps by (simp add: written_def)
  have "cached_byte st2 f i = (if unat (append_pos fl) \<le> i \<and> i < unat (append_pos fl) + unat rem
      then Some (memory st (cur + (i - unat (append_pos fl)))) else cached_byte st f i)" for i
    using assms(1,2,4) p(2) r m by (auto simp: written_def)
  moreover have "file_length fl2 = max (file_length fl) (append_pos fl + rem)"
    using assms(1-3) p(1) le by (auto simp: written_def max_def)
  ultimately show ?thesis
    using assms(1,2) p(1) rem by (auto simp: written_def intro: cache_change_trans same_file_trans)
qed

lemma written_filled:
  assumes "appending st f fl b cb" "rem \<noteq> 0"
  defines "copy \<equiv> min (ucast (buf_size cb - bytes_filled cb)) rem"
  shows "written st (filled_state st f fl b cb cur copy) f fl (advance_append copy fl) cur copy" "copy \<noteq> 0"
proof -
  show "copy \<noteq> 0"
    using unat_copy(1) [OF appending_last(1,4) [OF assms(1)], of rem] appending_last(2) [OF assms(1)] assms(2)
    by (auto simp flip: unat_gt_0 copy_def)
  then show "written st (filled_state st f fl b cb cur copy) f fl (advance_append copy fl) cur copy"
    using filled_content(1) [OF assms(1), of cur rem] cache_change_filled same_file_advance(1)
    by (simp add: written_def copy_def)
qed

lemma written_nothing: "written st st f fl fl cur 0"
proof -
  have "cache_change st st"
    by (rule cache_changeI [where F = "file_heap st" and B = "buffers st" and i = "fresh_buf st" and n = "pool_count st" and ps = "pool_msgs st"]) simp
  moreover have "same_file fl fl"
    unfolding same_file_def by (intro exI [of _ "append_pos fl"] exI [of _ "file_length fl"] exI [of _ "tree fl"] exI [of _ "file_last fl"]) simp
  ultimately show ?thesis by (auto simp: written_def)
qed

lemma add_in_page:
  fixes A n P :: nat
  assumes "0 < P"
  shows "A mod P + n < P \<Longrightarrow> (A + n) div P = A div P \<and> (A + n) mod P = A mod P + n"
    and "A mod P + n = P \<Longrightarrow> (A + n) div P = Suc (A div P) \<and> (A + n) mod P = 0"
proof -
  have e: "A + n = A mod P + n + A div P * P" using div_mult_mod_eq [of A P] by linarith
  have g: "(x + q * P) div P = q \<and> (x + q * P) mod P = x" if "x < P" for x q using that by simp
  show "(A + n) div P = A div P \<and> (A + n) mod P = A mod P + n" if "A mod P + n < P" using g [OF that] e by presburger
  show "(A + n) div P = Suc (A div P) \<and> (A + n) mod P = 0" if "A mod P + n = P"
    using g [OF assms, of "Suc (A div P)"] e that by (metis add_0 mult_Suc)
qed

lemma fill_loop_0: "fill_loop st f b 0 cur filled = Some (st, Some filled)"
  by (simp add: fill_loop.simps)

text \<open>A round that leaves room in the page, and one that fills it.\<close>

lemma appending_stays:
  assumes "appending st f fl b cb" "unat (append_pos fl) + unat rem < 2 ^ 60"
  defines "copy \<equiv> min (ucast (buf_size cb - bytes_filled cb)) rem"
  assumes "unat (append_pos fl) mod 2 ^ 18 + unat copy \<noteq> 2 ^ 18"
  shows "copy = rem" "unat (append_pos fl) mod 2 ^ 18 + unat rem < 2 ^ 18"
    "appending (filled_state st f fl b cb cur copy) f (advance_append copy fl) b (filled_buffer st cb cur copy)"
proof -
  let ?A = "unat (append_pos fl)"
  note l = appending_last [OF assms(1)]
  have c: "unat copy = min (2 ^ 18 - ?A mod 2 ^ 18) (unat rem)"
      "unat (bytes_filled (filled_buffer st cb cur copy)) = ?A mod 2 ^ 18 + unat copy"
    using unat_copy(1) [OF l(1,4), of rem] unat_copy(2) [OF l(1,4), of st cur rem] l(2) by (simp_all add: copy_def)
  then have u: "unat copy = unat rem" and lt: "?A mod 2 ^ 18 + unat rem < 2 ^ 18"
    using assms(4) by (auto simp: min_def split: if_splits)
  then show "copy = rem" "?A mod 2 ^ 18 + unat rem < 2 ^ 18" by (simp_all add: word_unat_eq_iff)
  have "(?A + unat copy) div 2 ^ 18 = ?A div 2 ^ 18" "(?A + unat copy) mod 2 ^ 18 = ?A mod 2 ^ 18 + unat copy"
    using add_in_page(1) [of "2 ^ 18" ?A "unat copy"] u lt by simp_all
  then show "appending (filled_state st f fl b cb cur copy) f (advance_append copy fl) b (filled_buffer st cb cur copy)"
    using assms(1,2) filled_content(2) [OF assms(1), of cur rem, folded copy_def] c(2) u
    by (auto simp: appending_def unat_append)
qed

lemma appending_full:
  assumes "appending st f fl b cb" "unat (append_pos fl) + unat rem < 2 ^ 60" "rem \<noteq> 0" "alloc_fail st = []" "pool_count st = Some (Suc n)"
  defines "copy \<equiv> min (ucast (buf_size cb - bytes_filled cb)) rem"
  assumes full: "unat (append_pos fl) mod 2 ^ 18 + unat copy = 2 ^ 18"
  obtains st' fl' cb' where "cache_append_buffer (filled_state st f fl b cb cur copy) f = Some (st', Some (fresh_buf st))"
    "appending st' f fl' (fresh_buf st) cb'" "written st st' f fl fl' cur copy" "pool_count st' = Some n"
    "unat (append_pos fl') = unat (append_pos fl) + unat copy" "unat (append_pos fl') mod 2 ^ 18 = 0"
proof -
  let ?A = "unat (append_pos fl)" and ?st = "filled_state st f fl b cb cur copy" and ?fl = "advance_append copy fl"
    and ?cb = "filled_buffer st cb cur copy"
  note l = appending_last [OF assms(1)]
  have c: "unat copy \<le> unat rem" using unat_copy(1) [OF l(1,4), of rem] by (simp add: copy_def)
  have f: "unat (bytes_filled ?cb) = 2 ^ 18" using unat_copy(2) [OF l(1,4), of st cur rem] l(2) full by (simp flip: copy_def)
  have A': "unat (append_pos ?fl) = ?A + unat copy" using assms(2) c by (simp add: unat_append)
  note pg = add_in_page(2) [of "2 ^ 18" ?A "unat copy", OF _ full]
  have ap: "file_heap ?st f = Some ?fl" "file_last ?fl = Some b" "buffers ?st b = Some ?cb" "bytes_filled ?cb = buf_size ?cb"
    using assms(1) f l(1) by (auto simp: appending_def word_unat_eq_iff filled_buffer_def)
  have pre: "unat (append_pos ?fl) mod 2 ^ 18 = 0" "unat (append_pos ?fl) < 2 ^ 60"
    "\<forall>p \<ge> unat (append_pos ?fl) div 2 ^ 18. ct_abs (tree ?fl) p = None" "pool_count ?st = Some (Suc n)" "alloc_fail ?st = []"
    "\<forall>b' \<in> dom (buffers ?st). b' < fresh_buf ?st"
    "\<forall>b. file_last ?fl = Some b \<longrightarrow> (\<exists>cb. buffers ?st b = Some cb \<and> bytes_filled cb = buf_size cb)"
    using pg A' c assms(1-5) ap by (auto simp: appending_def)
  obtain st2 t cb2 where s2: "cache_append_buffer ?st f = Some (st2, Some (fresh_buf ?st))"
    "appending st2 f (?fl\<lparr>tree := t, file_last := Some (fresh_buf ?st)\<rparr>) (fresh_buf ?st) cb2" "cache_change ?st st2"
    "pool_count st2 = Some n" "file_heap st2 = (file_heap ?st)(f \<mapsto> ?fl\<lparr>tree := t, file_last := Some (fresh_buf ?st)\<rparr>)"
    "\<And>i. cached_byte st2 f i = cached_byte ?st f i"
    using append_buffer_ok [OF ap(1) filled_content(2) [OF assms(1), of cur rem, folded copy_def] pre] by blast
  have "written st st2 f fl (?fl\<lparr>tree := t, file_last := Some (fresh_buf ?st)\<rparr>) cur copy"
    using written_filled(1) [OF assms(1,3), folded copy_def, of cur] s2(5,6) same_file_trans [OF same_file_advance(1) same_file_advance(2)]
      cache_change_trans [OF cache_change_filled s2(3)]
    by (simp add: written_def)
  then show thesis using that s2(1,2,4) A' pre(1) by simp
qed

lemma fill_loop_ok:
  assumes "appending st f fl b cb" "unat (append_pos fl) + unat rem < 2 ^ 60" "alloc_fail st = []"
    and "pool_count st = Some n" "(unat (append_pos fl) mod 2 ^ 18 + unat rem) div 2 ^ 18 \<le> n"
  shows "\<exists>st' fl' b' cb'. fill_loop st f b rem cur filled =
      Some (st', Some (filled + of_nat ((unat (append_pos fl) mod 2 ^ 18 + unat rem) div 2 ^ 18))) \<and>
    appending st' f fl' b' cb' \<and> written st st' f fl fl' cur rem \<and> pool_count st' \<noteq> None"
  using assms
proof (induction "unat rem" arbitrary: st fl b cb rem cur filled n rule: less_induct)
  case less
  let ?A = "unat (append_pos fl)"
  define copy where "copy = min (ucast (buf_size cb - bytes_filled cb)) rem"
  let ?st = "filled_state st f fl b cb cur copy" and ?fl = "advance_append copy fl" and ?cb = "filled_buffer st cb cur copy"
  note l = appending_last [OF less.prems(1)]
  have c: "unat (bytes_filled ?cb) = ?A mod 2 ^ 18 + unat copy" and le: "unat copy \<le> unat rem"
    using unat_copy(1) [OF l(1,4), of rem] unat_copy(2) [OF l(1,4), of st cur rem] l(2) by (simp_all add: copy_def)
  have step: "fill_step st f b rem cur = Some (?st, copy)"
    using fill_step_ok [OF _ _ l(1,4), of st f fl b rem cur] less.prems(1) by (simp add: appending_def copy_def)
  have full: "buffer_full ?st b \<longleftrightarrow> ?A mod 2 ^ 18 + unat copy = 2 ^ 18"
    using c l(1) by (simp add: buffer_full_def filled_buffer_def word_unat_eq_iff)
  consider "rem = 0" | "rem \<noteq> 0" "?A mod 2 ^ 18 + unat copy \<noteq> 2 ^ 18" | "rem \<noteq> 0" "?A mod 2 ^ 18 + unat copy = 2 ^ 18" by blast
  then show ?case
  proof cases
    case 1
    have "written st st f fl fl cur 0" by (rule written_nothing)
    then show ?thesis using 1 less.prems(1,4) by (intro exI [of _ st] exI [of _ fl] exI [of _ b] exI [of _ cb]) (simp add: fill_loop.simps)
  next
    case 2
    note a = appending_stays(1,2) [OF less.prems(1,2) 2(2) [unfolded copy_def], folded copy_def]
      appending_stays(3) [OF less.prems(1,2) 2(2) [unfolded copy_def], of cur, folded copy_def]
    have "fill_loop st f b rem cur filled = Some (?st, Some filled)"
      using 2 step full a(1) by (simp add: fill_loop.simps [of st] fill_loop_0)
    then show ?thesis
      using a less.prems(4) written_filled(1) [OF less.prems(1) 2(1), folded copy_def, of cur]
      by (intro exI [of _ ?st] exI [of _ ?fl] exI [of _ b] exI [of _ ?cb]) simp
  next
    case 3
    have r: "unat (rem - copy) = unat rem - unat copy" using le by (simp add: unat_sub word_le_nat_alt)
    have "?A mod 2 ^ 18 + unat rem = unat (rem - copy) + 2 ^ 18" using 3(2) r le by linarith
    then have cross: "(?A mod 2 ^ 18 + unat rem) div 2 ^ 18 = Suc (unat (rem - copy) div 2 ^ 18)" by simp
    then obtain n' where n': "n = Suc n'" "unat (rem - copy) div 2 ^ 18 \<le> n'" using less.prems(5) by (cases n) auto
    have pos: "copy \<noteq> 0" using written_filled(2) [OF less.prems(1) 3(1)] by (simp add: copy_def)
    have dec: "unat (rem - copy) < unat rem" using r le pos unat_gt_0 [of copy] by linarith
    obtain st2 fl2 cb2 where s2: "cache_append_buffer ?st f = Some (st2, Some (fresh_buf st))" "appending st2 f fl2 (fresh_buf st) cb2"
      "written st st2 f fl fl2 cur copy" "pool_count st2 = Some n'" "unat (append_pos fl2) = ?A + unat copy" "unat (append_pos fl2) mod 2 ^ 18 = 0"
      using appending_full [OF less.prems(1,2) 3(1) less.prems(3), of n' cur] less.prems(4) n'(1) 3(2) by (auto simp flip: copy_def)
    have "alloc_fail st2 = []" using s2(3) cache_change_simps(2) [of st st2] less.prems(3) by (simp add: written_def)
    then obtain st3 fl3 b3 cb3 where s3: "fill_loop st2 f (fresh_buf st) (rem - copy) (cur + unat copy) (filled + 1) =
        Some (st3, Some (filled + 1 + of_nat (unat (rem - copy) div 2 ^ 18)))"
      "appending st3 f fl3 b3 cb3" "written st2 st3 f fl2 fl3 (cur + unat copy) (rem - copy)" "pool_count st3 \<noteq> None"
      using less.hyps [OF dec s2(2) _ _ s2(4), of "cur + unat copy" "filled + 1"] s2(5,6) r le less.prems(2) n'(2) by auto
    have "fill_loop st f b rem cur filled = Some (st3, Some (filled + of_nat ((?A mod 2 ^ 18 + unat rem) div 2 ^ 18)))"
      using 3 step full s2(1) s3(1) cross by (simp add: fill_loop.simps [of st] add.assoc)
    moreover have "written st st3 f fl fl3 cur rem" using written_trans [OF s2(3) s3(3) pos le less.prems(2)] .
    ultimately show ?thesis using s3(2,4) by blast
  qed
qed

section \<open>Appending\<close>

lemma appending_upd:
  assumes "appending st f fl b cb" "file_heap st' f = Some fl'" "tree fl' = tree fl" "file_last fl' = file_last fl" "append_pos fl' = append_pos fl"
    "buffers st' = buffers st" "fresh_buf st' = fresh_buf st"
  shows "appending st' f fl' b cb"
  using assms by (simp add: appending_def cache_ok_def)

lemma cached_byte_upd:
  assumes "file_heap st f = Some fl" "file_heap st' f = Some fl'" "tree fl' = tree fl" "buffers st' = buffers st"
  shows "cached_byte st' f i = cached_byte st f i"
  using assms by (simp add: cached_byte_def)

lemma written_upd:
  assumes "file_heap st f = Some fl" "file_heap st' f = Some fl'" "tree fl' = tree fl" "buffers st' = buffers st" "memory st' = memory st"
    and "append_pos fl' = append_pos fl" "written st' st2 f fl' fl2 cur len"
  shows "cached_byte st2 f i = (if unat (append_pos fl) \<le> i \<and> i < unat (append_pos fl) + unat len
      then Some (memory st (cur + (i - unat (append_pos fl)))) else cached_byte st f i)"
  using assms cached_byte_upd [OF assms(1-4)] by (simp add: written_def)

text \<open>What an append by \<open>len\<close> bytes leaves behind: \<open>st\<close> is the state before, \<open>st'\<close> after.\<close>

definition appended :: "nbfs \<Rightarrow> nbfs \<Rightarrow> file_ptr \<Rightarrow> spdk_file \<Rightarrow> req_ptr \<Rightarrow> nat \<Rightarrow> u64 \<Rightarrow> bool" where
  "appended st st' f fl r payload len \<longleftrightarrow>
    (\<forall>i. cached_byte st' f i = (if unat (append_pos fl) \<le> i \<and> i < unat (append_pos fl) + unat len
        then Some (memory st (payload + (i - unat (append_pos fl)))) else cached_byte st f i)) \<and>
    (\<exists>fl' b' cb'. appending st' f fl' b' cb' \<and> append_pos fl' = append_pos fl + len \<and>
      file_length fl' = max (file_length fl) (append_pos fl + len) \<and> \<not> lock fl' \<and> blob fl' = blob fl \<and> length_flushed fl' = length_flushed fl \<and>
      seq_byte_count fl' = seq_byte_count fl \<and> next_seq_offset fl' = next_seq_offset fl) \<and>
    memory st' = memory st \<and> alloc_fail st' = alloc_fail st \<and> pool_count st' \<noteq> None \<and>
    (if (of_nat ((unat (append_pos fl) mod 2 ^ 18 + unat len) div 2 ^ 18) :: u32) = 0 then channels st' = channels st \<and> msgs st' = msgs st
     else msgs st' = msgs st @ [Msg_file_flush r])"

lemma file_write_fill_ok:
  assumes "appending st f fl b cb" "free_request st c r" "alloc_fail st = []" "len \<noteq> 0" "unat (append_pos fl) + unat len < 2 ^ 60"
    and "pool_count st = Some n" "(unat (append_pos fl) mod 2 ^ 18 + unat len) div 2 ^ 18 \<le> n" "lock fl"
  shows "\<exists>st'. file_write_fill st f c payload len = Some (st', 0) \<and> appended st st' f fl r payload len"
proof -
  let ?n = "of_nat ((unat (append_pos fl) mod 2 ^ 18 + unat len) div 2 ^ 18) :: u32"
  let ?rq = "zero_request\<lparr>channel := Some c, iovs := [zero_iovec], iovcnt := 0\<rparr>"
  define st1 where "st1 = outstanding st c r ?rq"
  have fl: "file_heap st f = Some fl" "file_last fl = Some b" using assms(1) by (simp_all add: appending_def)
  have al: "alloc_fs_request st c = Some (st1, Some r)"
    using alloc_request [OF assms(2,3), of 0] by (simp add: alloc_fs_request_def st1_def)
  have st1: "file_heap st1 = file_heap st" "alloc_fail st1 = []" "pool_count st1 = Some n" "buffers st1 = buffers st"
      "fresh_buf st1 = fresh_buf st" "memory st1 = memory st" "requests st1 r = Some ?rq"
    using assms(3,6) by (simp_all add: st1_def outstanding_def)
  obtain st2 fl2 b2 cb2 where s2: "fill_loop st1 f b len payload 0 = Some (st2, Some ?n)" "appending st2 f fl2 b2 cb2"
      "written st1 st2 f fl fl2 payload len" "pool_count st2 \<noteq> None"
    using fill_loop_ok [OF appending_upd [OF assms(1)] assms(5) st1(2,3) assms(7), of payload 0] fl(1) st1 by auto
  let ?st3 = "st2\<lparr>file_heap := (file_heap st2)(f \<mapsto> fl2\<lparr>lock := False\<rparr>)\<rparr>"
  let ?fin = "if ?n = 0 then ?st3\<lparr>channels := channels st\<rparr>
     else ?st3\<lparr>requests := (requests ?st3)(r \<mapsto> ?rq\<lparr>arg_file := Some f\<rparr>), msgs := msgs st @ [Msg_file_flush r]\<rparr>"
  have cc: "cache_change st1 st2" and sf: "same_file fl fl2" and pos: "append_pos fl2 = append_pos fl + len"
      "file_length fl2 = max (file_length fl) (append_pos fl + len)"
    using s2(3) assms(4) by (simp_all add: written_def)
  have fl2: "file_heap st2 f = Some fl2" using s2(2) by (simp add: appending_def)
  have same: "requests st2 = requests st1" "channels st2 = channels st1" "msgs st2 = msgs st" "memory st2 = memory st" "alloc_fail st2 = []"
    using cache_change_simps [OF cc] st1(2,6) by (simp_all add: st1_def)
  have "free_fs_request ?st3 r = Some (?st3\<lparr>channels := channels st\<rparr>)"
    using free_outstanding [OF assms(2), of ?st3 ?rq] same(1,2) by (simp add: st1_def)
  then have run: "file_write_fill st f c payload len = Some (?fin, 0)"
    using al st1(1,7) fl s2(1) fl2 same same_file_simps(1) [OF sf] assms(8)
    by (simp add: file_write_fill_def exec unlock_file_def)
  have fin_f: "file_heap ?fin f = Some (fl2\<lparr>lock := False\<rparr>)" "buffers ?fin = buffers st2" "fresh_buf ?fin = fresh_buf st2" by simp_all
  have "cached_byte ?fin f i = (if unat (append_pos fl) \<le> i \<and> i < unat (append_pos fl) + unat len
        then Some (memory st (payload + (i - unat (append_pos fl)))) else cached_byte st f i)" for i
    using written_upd [OF fl(1) _ _ st1(4,6) _ s2(3), of i] fl(1) st1(1) cached_byte_upd [OF fl2(1) fin_f(1) _ fin_f(2), of i] by simp
  moreover have "appending ?fin f (fl2\<lparr>lock := False\<rparr>) b2 cb2"
    using appending_upd [OF s2(2) fin_f(1) _ _ _ fin_f(2,3)] by simp
  ultimately have "appended st ?fin f fl r payload len"
    unfolding appended_def using pos same(3-5) same_file_simps [OF sf] assms(3) s2(4)
    by (intro conjI exI [of _ "fl2\<lparr>lock := False\<rparr>"] exI [of _ b2] exI [of _ cb2]) auto
  then show ?thesis using run by blast
qed

lemma appended_upd:
  assumes "appended st1 st' f fl1 r payload len" "file_heap st f = Some fl" "file_heap st1 f = Some fl1" "tree fl1 = tree fl" "append_pos fl1 = append_pos fl"
    "file_length fl1 = file_length fl" "blob fl1 = blob fl" "length_flushed fl1 = length_flushed fl" "seq_byte_count fl1 = seq_byte_count fl"
    "next_seq_offset fl1 = next_seq_offset fl" "buffers st1 = buffers st" "memory st1 = memory st" "channels st1 = channels st"
    "msgs st1 = msgs st" "alloc_fail st1 = alloc_fail st"
  shows "appended st st' f fl r payload len"
  using assms(1) cached_byte_upd [OF assms(2-4,11)] assms(5-15) unfolding appended_def by simp

lemma write_runs:
  assumes "appending st f fl b cb" "\<not> lock fl" "blob fl = Some bl" "free_request st c r" "alloc_fail st = []"
    and "len \<noteq> 0" "unat (append_pos fl) + unat len < 2 ^ 60" "append_pos fl + len \<le> cluster_sz st * num_clusters st bl"
    and "pool_count st = Some n" "(unat (append_pos fl) mod 2 ^ 18 + unat len) div 2 ^ 18 \<le> n"
  shows "\<exists>st'. spdk_file_write st f c payload (append_pos fl) len = Some (st', W_return 0) \<and> appended st st' f fl r payload len"
proof -
  let ?fl1 = "fl\<lparr>lock := True, open_for_writing := True\<rparr>"
  let ?st = "st\<lparr>file_heap := (file_heap st)(f \<mapsto> ?fl1)\<rparr>"
  have fl: "file_heap st f = Some fl" "file_last fl = Some b" using assms(1) by (simp_all add: appending_def)
  have ap: "appending ?st f ?fl1 b cb" using appending_upd [OF assms(1), of ?st ?fl1] by simp
  have "free_request ?st c r" using assms(4) by (simp add: free_request_def)
  then obtain st' where st': "file_write_fill ?st f c payload len = Some (st', 0)" "appended ?st st' f ?fl1 r payload len"
    using file_write_fill_ok [OF ap, of c r len n payload] assms(5-7,9,10) by auto
  have "spdk_file_write st f c payload (append_pos fl) len = Some (st', W_return 0)"
    using fl assms(2,3,6) leD [OF assms(8)] st'(1)
    by (simp add: spdk_file_write_def exec lock_file_def file_get_blob_size_def file_blob_def)
  moreover have "appended st st' f fl r payload len" using appended_upd [OF st'(2) fl(1)] by simp
  ultimately show ?thesis by blast
qed

text \<open>Trees with a few buffers, and a file with one empty page.\<close>

definition tree_with :: "(buf_ptr \<times> u64) list \<Rightarrow> cache_tree" where
  "tree_with bs = fold (\<lambda>(b, off) t. case tree_insert_buffer t b off of None \<Rightarrow> t | Some t' \<Rightarrow> t') bs calloc_tree"

lemma tree_with_one: "ct_inv (tree_with [(7, 0)])" "ct_abs (tree_with [(7, 0)]) = [0 \<mapsto> 7]"
  using ct.ins_law [of calloc_tree 0 7] by (auto simp: tree_with_def page_def)

lemma tree_with_two: "ct_inv (tree_with [(7, 0), (8, 262144)])" "ct_abs (tree_with [(7, 0), (8, 262144)]) = [0 \<mapsto> 7, 1 \<mapsto> 8]"
  using ct.ins_law [OF tree_with_one(1), of 262144 8] tree_with_one(2) by (auto simp: tree_with_def page_def)

definition empty_page_file :: spdk_file where
  "empty_page_file = block_file\<lparr>tree := tree_with [(7, 0)], file_last := Some 7, file_length := 0\<rparr>"

definition empty_page_fs :: nbfs where
  "empty_page_fs = (sample_fs [(''a'', 3)] [3 \<mapsto> empty_page_file])\<lparr>buffers := [7 \<mapsto> new_cache_buffer (\<lambda>_. 0) 0],
     fresh_buf := 9, pool_count := Some 5\<rparr>"

lemma empty_page_appending: "appending empty_page_fs 3 empty_page_file 7 (new_cache_buffer (\<lambda>_. 0) 0)"
  using tree_with_one
  by (simp add: appending_def empty_page_fs_def empty_page_file_def block_file_def sample_file_def zero_file_def cache_ok_def page_ok_def
      new_cache_buffer_def CACHE_BUFFER_SIZE_def CACHE_BUFFER_SHIFT_def)

lemma empty_page_simps:
  "\<not> lock empty_page_file" "blob empty_page_file = Some 5" "append_pos empty_page_file = 0" "seq_byte_count empty_page_file = 0"
  "free_request empty_page_fs (Suc 0) 24" "alloc_fail empty_page_fs = []" "pool_count empty_page_fs = Some 5"
  "cluster_sz empty_page_fs = 4096" "num_clusters empty_page_fs 5 = 1"
  by (simp_all add: empty_page_fs_def empty_page_file_def block_file_def sample_file_def zero_file_def sample_fs_def boot_state_def
      free_request_def zero_channel_def)

text \<open>C23: An append of \<open>len > 0\<close> bytes at the end of a file whose blob is large enough, with
  enough free cache buffers for the pages it fills, returns 0.  Afterwards the cache holds the
  payload at the positions from the old to the new end of the file, and what it held before
  elsewhere; the end of the file has moved by \<open>len\<close>, the file can be appended to again and is
  unlocked.  When a page was filled a flush is sent to the metadata thread, otherwise the
  request is free again.\<close>

theorem cached_write_appends:
  assumes "appending st f fl b cb" "\<not> lock fl" "blob fl = Some bl" "free_request st c r" "alloc_fail st = []"
    and "len \<noteq> 0" "unat (append_pos fl) + unat len < 2 ^ 60" "append_pos fl + len \<le> cluster_sz st * num_clusters st bl"
    and "pool_count st = Some n" "(unat (append_pos fl) mod 2 ^ 18 + unat len) div 2 ^ 18 \<le> n"
  shows "\<exists>st'. spdk_file_write st f c payload (append_pos fl) len = Some (st', W_return 0) \<and>
    (\<forall>i. cached_byte st' f i = (if unat (append_pos fl) \<le> i \<and> i < unat (append_pos fl) + unat len
        then Some (memory st (payload + (i - unat (append_pos fl)))) else cached_byte st f i)) \<and>
    (\<exists>fl' b' cb'. appending st' f fl' b' cb' \<and> append_pos fl' = append_pos fl + len \<and>
      file_length fl' = max (file_length fl) (append_pos fl + len) \<and> \<not> lock fl') \<and>
    (if (of_nat ((unat (append_pos fl) mod 2 ^ 18 + unat len) div 2 ^ 18) :: u32) = 0 then channels st' = channels st \<and> msgs st' = msgs st
     else msgs st' = msgs st @ [Msg_file_flush r])"
  using write_runs [OF assms, of payload] unfolding appended_def by blast

theorem cached_write_appends_witness:
  "\<exists>st'. spdk_file_write empty_page_fs 3 1 100 0 10 = Some (st', W_return 0) \<and>
    cached_byte st' 3 4 = Some (memory empty_page_fs 104)"
  using cached_write_appends [OF empty_page_appending, of 5 1 24 10 5 100] by (auto simp: empty_page_simps)

end
