(* ===== verification/NBFS_Read.thy ===== *)
theory NBFS_Read
  imports NBFS_Cached
begin

unbundle bit_operations_syntax

text \<open>
  What a cached read returns, and what it does to the cache: the bytes of a range that is
  cached are copied to the caller, and every page that is read to its end leaves the cache,
  whether or not it was written to the blob.
\<close>

section \<open>One page\<close>

lemma cached_byteD:
  assumes "file_heap st f = Some fl" "cache_ok st fl" "cached_byte st f i = Some x"
  obtains b cb where "ct_abs (tree fl) (i div 2 ^ 18) = Some b" "buffers st b = Some cb" "i mod 2 ^ 18 < unat (bytes_filled cb)"
    "x = buf cb (i mod 2 ^ 18)" "unat (offset cb) = i div 2 ^ 18 * 2 ^ 18" "buf_size cb = 2 ^ 18" "unat (bytes_filled cb) \<le> 2 ^ 18"
proof -
  obtain b cb where b: "ct_abs (tree fl) (i div 2 ^ 18) = Some b" "buffers st b = Some cb" "i mod 2 ^ 18 < unat (bytes_filled cb)"
      "x = buf cb (i mod 2 ^ 18)"
    using assms(1,3) by (auto simp: cached_byte_def bind_Some_iff split: if_splits)
  moreover have "page_ok (buffers st) (i div 2 ^ 18) b" using assms(2) b(1) by (simp add: cache_ok_def)
  ultimately show thesis using that by (simp add: page_ok_def)
qed

text \<open>The part of a read within one page.\<close>

lemma page_part:
  fixes off final_off :: u64
  assumes "off < final_off"
  defines "len \<equiv> min (NEXT_CACHE_BUFFER_OFFSET off - off) (final_off - off)"
  shows "unat len = min (2 ^ 18 - unat off mod 2 ^ 18) (unat final_off - unat off)" "0 < unat len"
    "unat off mod 2 ^ 18 + unat len \<le> 2 ^ 18" "unat (off + len) = unat off + unat len" "unat off + unat len \<le> unat final_off"
proof -
  have d: "unat (final_off - off) = unat final_off - unat off" "unat off < unat final_off"
    using assms(1) by (simp_all add: unat_sub less_imp_le word_less_nat_alt [symmetric])
  show l: "unat len = min (2 ^ 18 - unat off mod 2 ^ 18) (unat final_off - unat off)"
    using d next_offset_gap [of off] by (auto simp: len_def min_def word_le_nat_alt)
  have m: "unat off mod 2 ^ 18 < 2 ^ 18" by simp
  show "0 < unat len" "unat off mod 2 ^ 18 + unat len \<le> 2 ^ 18" "unat off + unat len \<le> unat final_off"
    using l d m by linarith+
  then show "unat (off + len) = unat off + unat len" using unat_u64_bound [of final_off] by (simp add: unat_word_ariths)
qed

text \<open>The parts of the state a read leaves alone.\<close>

definition read_change :: "nbfs \<Rightarrow> nbfs \<Rightarrow> bool" where
  "read_change st st' \<longleftrightarrow> (\<exists>M F B n ps. st' = st\<lparr>memory := M, file_heap := F, buffers := B, pool_count := n, pool_msgs := ps\<rparr>)"

lemma read_change_trans: "read_change st st1 \<Longrightarrow> read_change st1 st2 \<Longrightarrow> read_change st st2"
  by (clarsimp simp: read_change_def) (intro exI, rule refl)

lemma read_changeI: "st' = st\<lparr>memory := M, file_heap := F, buffers := B, pool_count := n, pool_msgs := ps\<rparr> \<Longrightarrow> read_change st st'"
  unfolding read_change_def by blast

lemma read_change_refl: "read_change st st"
  by (rule read_changeI [where M = "memory st" and F = "file_heap st" and B = "buffers st" and n = "pool_count st" and ps = "pool_msgs st"]) simp

lemma remove_page:
  assumes "file_heap st f = Some fl" "cache_ok st fl" "pool_count st = Some n"
    and "ct_abs (tree fl) p = Some b" "buffers st b = Some cb"
  shows "\<exists>t. file_tree_remove_buffer st f b = Some (st\<lparr>pool_count := Some (n + 1), buffers := (buffers st)(b := None),
      file_heap := (file_heap st)(f \<mapsto> fl\<lparr>tree := t\<rparr>)\<rparr>) \<and> ct_inv t \<and> ct_abs t = (ct_abs (tree fl))(p := None)"
proof -
  have "page_ok (buffers st) p b" using assms(2,4) by (simp add: cache_ok_def)
  then have "page (offset cb) = p" using assms(5) by (simp add: page_ok_def page_def)
  then obtain t where "tree_remove_buffer (tree fl) b (offset cb) = Some (t, [b])" "ct_inv t" "ct_abs t = (ct_abs (tree fl))(p := None)"
    using ct.del_law [of "tree fl" "offset cb" b] assms(2,4) by (auto simp: cache_ok_def)
  then show ?thesis
    using assms(1,3,5) by (intro exI [of _ t]) (simp add: file_tree_remove_buffer_def exec cache_buffer_free_def)
qed

lemma content_after_removal:
  assumes "file_heap st f = Some fl" "cache_ok st fl" "ct_abs (tree fl) p = Some b"
    and "file_heap st' f = Some fl'" "ct_inv (tree fl')" "ct_abs (tree fl') = (ct_abs (tree fl))(p := None)" "buffers st' = (buffers st)(b := None)"
  shows "cache_ok st' fl'" "cached_byte st' f i = (if i div 2 ^ 18 = p then None else cached_byte st f i)"
proof -
  have other: "b' \<noteq> b" if "ct_abs (tree fl) q = Some b'" "q \<noteq> p" for q b'
    using that assms(2,3) page_ok_inj [of "buffers st" p b q] by (auto simp: cache_ok_def)
  then show "cache_ok st' fl'" using assms by (auto simp: cache_ok_def page_ok_other split: if_splits)
  show "cached_byte st' f i = (if i div 2 ^ 18 = p then None else cached_byte st f i)"
  proof (cases "i div 2 ^ 18 = p")
    case True
    then show ?thesis using assms(4,6) by (simp add: cached_byte_def)
  next
    case False
    then show ?thesis
      using assms(1,4,6,7) other [of "i div 2 ^ 18"] by (cases "ct_abs (tree fl) (i div 2 ^ 18)") (auto simp: cached_byte_def)
  qed
qed

lemma appending_after_removal:
  assumes "appending st f fl lb lcb" "ct_abs (tree fl) p = Some b" "p < unat (append_pos fl) div 2 ^ 18"
    and "file_heap st' f = Some fl'" "ct_inv (tree fl')" "ct_abs (tree fl') = (ct_abs (tree fl))(p := None)" "buffers st' = (buffers st)(b := None)"
    and "append_pos fl' = append_pos fl" "file_last fl' = file_last fl" "fresh_buf st' = fresh_buf st"
  shows "appending st' f fl' lb lcb"
proof -
  have st: "file_heap st f = Some fl" "cache_ok st fl" "ct_abs (tree fl) (unat (append_pos fl) div 2 ^ 18) = Some lb"
    using assms(1) by (simp_all add: appending_def)
  have "b \<noteq> lb" using st(2,3) assms(2,3) page_ok_inj [of "buffers st" p b "unat (append_pos fl) div 2 ^ 18"] by (auto simp: cache_ok_def)
  then show ?thesis
    using assms content_after_removal(1) [OF st(1,2) assms(2,4-7)] by (auto simp: appending_def)
qed

text \<open>One round of the loop: the bytes of the part reach the caller, and nothing behind the part
  leaves the cache.\<close>

lemma part_copied:
  fixes payload :: nat
  assumes "file_heap st f = Some fl" "cache_ok st fl" "unat final_off < 2 ^ 60" "off < final_off"
    and cached: "\<And>i. unat off \<le> i \<Longrightarrow> i < unat final_off \<Longrightarrow> cached_byte st f i = Some (d i)"
  defines "len \<equiv> min (NEXT_CACHE_BUFFER_OFFSET off - off) (final_off - off)"
  defines "st1 \<equiv> st\<lparr>memory := mem_write (memory st) payload (map d [unat off..<unat off + unat len])\<rparr>"
  obtains b cb where "tree_find_filled_buffer (buffers st) (tree fl) off = Some (Some b)" "buffers st b = Some cb"
    "ct_abs (tree fl) (unat off div 2 ^ 18) = Some b"
    "read_from_buffer st f b payload off len = (if (unat off + unat len) mod 2 ^ 18 = 0 then do {
        st \<leftarrow> file_tree_remove_buffer st1 f b; fl \<leftarrow> get_file st f;
        Some (if present_mask (tree fl) = 0 then send_pool_msg (Pool_remove_file f) st else st) } else Some st1)"
proof -
  note l = page_part [OF assms(4), folded len_def]
  let ?o = "unat off" and ?j = "unat off + (unat len - 1)"
  have off: "?o < unat final_off" using assms(4) by (simp add: word_less_nat_alt)
  obtain b cb where b: "ct_abs (tree fl) (?o div 2 ^ 18) = Some b" "buffers st b = Some cb" "unat (offset cb) = ?o div 2 ^ 18 * 2 ^ 18"
      "buf_size cb = 2 ^ 18" "unat (bytes_filled cb) \<le> 2 ^ 18"
    by (rule cached_byteD [OF assms(1,2) cached [of ?o]]) (use off in auto)
  have same: "i div 2 ^ 18 = ?o div 2 ^ 18 \<and> i mod 2 ^ 18 = ?o mod 2 ^ 18 + (i - ?o)" if "?o \<le> i" "i < ?o + unat len" for i
    using add_in_page(1) [of "2 ^ 18" ?o "i - ?o"] that l(3) by simp
  have cur: "buf cb (?o mod 2 ^ 18 + (i - ?o)) = d i" "?o mod 2 ^ 18 + (i - ?o) < unat (bytes_filled cb)" if "?o \<le> i" "i < ?o + unat len" for i
    by (rule cached_byteD [OF assms(1,2) cached [of i]]; use that l(5) same [OF that] b(1,2) in simp)+
  have filled: "?o mod 2 ^ 18 + unat len \<le> unat (bytes_filled cb)" using cur(2) [of ?j] l(2) by (cases "unat len") auto
  have "unat (offset cb) + unat (bytes_filled cb) < 2 ^ 64"
    using b(3,5) off assms(3) div_times_less_eq_dividend [of ?o "2 ^ 18"] by simp
  then have to: "unat (offset cb + ucast (bytes_filled cb)) = unat (offset cb) + unat (bytes_filled cb)" by (simp add: unat_word_ariths)
  have o: "?o = unat (offset cb) + ?o mod 2 ^ 18" using b(3) by simp
  have whole: "\<not> off + len > offset cb + ucast (bytes_filled cb)"
    using to o l(4) filled by (simp add: word_less_nat_alt)
  have i: "unat (off - offset cb) = ?o mod 2 ^ 18" using o by (simp add: unat_sub word_le_nat_alt)
  have "mem_read (buf cb) (?o mod 2 ^ 18) (unat len) = map d [?o..<?o + unat len]"
  proof (rule nth_equalityI)
    show "mem_read (buf cb) (?o mod 2 ^ 18) (unat len) ! i = map d [?o..<?o + unat len] ! i"
      if "i < length (mem_read (buf cb) (?o mod 2 ^ 18) (unat len))" for i
      using that cur(1) [of "?o + i"] by (simp add: mem_read_def)
  qed simp
  moreover have "((off + len) mod CACHE_BUFFER_SIZE = 0) \<longleftrightarrow> (?o + unat len) mod 2 ^ 18 = 0"
    using l(4) by (simp add: CACHE_BUFFER_SIZE_def CACHE_BUFFER_SHIFT_def word_unat_eq_iff unat_mod_distrib)
  ultimately have "read_from_buffer st f b payload off len = (if (unat off + unat len) mod 2 ^ 18 = 0 then do {
        st \<leftarrow> file_tree_remove_buffer st1 f b; fl \<leftarrow> get_file st f;
        Some (if present_mask (tree fl) = 0 then send_pool_msg (Pool_remove_file f) st else st) } else Some st1)"
    using b(2,4) whole i l(3) by (simp add: read_from_buffer_def st1_def Let_def)
  moreover have "tree_find_filled_buffer (buffers st) (tree fl) off = Some (Some b)"
    using ct.find_law [of "tree fl" off] assms(2) b(1,2) filled l(2) by (simp add: tree_find_filled_buffer_def cache_ok_def page_def word_gt_0 unat_gt_0 [symmetric])
  ultimately show thesis using that b(1,2) by blast
qed

text \<open>The pages of a map without those that a read from \<open>a\<close> to \<open>e\<close> reads to their end.\<close>

definition drop_pages :: "nat \<Rightarrow> nat \<Rightarrow> (nat \<rightharpoonup> buf_ptr) \<Rightarrow> (nat \<rightharpoonup> buf_ptr)" where
  "drop_pages a e m = (\<lambda>p. if a div 2 ^ 18 \<le> p \<and> (p + 1) * 2 ^ 18 \<le> e then None else m p)"

lemma drop_pages_part:
  assumes "a mod 2 ^ 18 + n \<le> 2 ^ 18" "0 < n"
  shows "drop_pages a (a + n) m = (if (a + n) mod 2 ^ 18 = 0 then m(a div 2 ^ 18 := None) else m)"
    and "(a + n) mod 2 ^ 18 = 0 \<Longrightarrow> (a + n) div 2 ^ 18 = Suc (a div 2 ^ 18)"
proof -
  let ?P = "2 ^ 18 :: nat"
  consider "a mod ?P + n < ?P" | "a mod ?P + n = ?P" using assms(1) by linarith
  then have c: "(a + n) mod ?P \<noteq> 0 \<and> a + n < (a div ?P + 1) * ?P \<or>
      (a + n) mod ?P = 0 \<and> a + n = (a div ?P + 1) * ?P \<and> (a + n) div ?P = Suc (a div ?P)"
  proof cases
    case 1
    have "a + n < (a div ?P + 1) * ?P" using 1 div_mult_mod_eq [of a ?P] by (simp only: add_mult_distrib)
    then show ?thesis using add_in_page(1) [OF _ 1] assms(2) by simp
  next
    case 2
    have "a + n = (a div ?P + 1) * ?P" using 2 div_mult_mod_eq [of a ?P] by (simp only: add_mult_distrib)
    then show ?thesis using add_in_page(2) [OF _ 2] by simp
  qed
  have le: "p = a div ?P" if "a div ?P \<le> p" "(p + 1) * ?P \<le> a + n" for p
  proof -
    have "(p + 1) * ?P \<le> (a div ?P + 1) * ?P" using that(2) c by linarith
    then show ?thesis using that(1) by simp
  qed
  show "drop_pages a (a + n) m = (if (a + n) mod ?P = 0 then m(a div ?P := None) else m)"
  proof (rule ext)
    show "drop_pages a (a + n) m p = (if (a + n) mod ?P = 0 then m(a div ?P := None) else m) p" for p
      using c le [of p] unfolding drop_pages_def by (cases "p = a div ?P") auto
  qed
  show "(a + n) mod ?P = 0 \<Longrightarrow> (a + n) div ?P = Suc (a div ?P)" using c by auto
qed

lemma drop_pages_none: "drop_pages e e m = m"
proof (rule ext)
  fix p
  have "\<not> (p + 1) * 2 ^ 18 \<le> e" if "e div 2 ^ 18 \<le> p"
    using that dividend_less_div_times [of "2 ^ 18" e] mult_le_mono1 [OF that, of "2 ^ 18"] by simp
  then show "drop_pages e e m p = m p" by (auto simp: drop_pages_def)
qed

lemma drop_pages_step:
  assumes "a mod 2 ^ 18 + n \<le> 2 ^ 18" "0 < n" "(a + n) mod 2 ^ 18 = 0" "a + n \<le> e"
  shows "drop_pages (a + n) e (drop_pages a (a + n) m) = drop_pages a e m"
proof (rule ext)
  fix p
  have d: "(a + n) div 2 ^ 18 = Suc (a div 2 ^ 18)" "drop_pages a (a + n) m = m(a div 2 ^ 18 := None)"
    using drop_pages_part [OF assms(1,2)] assms(3) by simp_all
  then have "(a div 2 ^ 18 + 1) * 2 ^ 18 = a + n" using assms(3) div_mult_mod_eq [of "a + n" "2 ^ 18"] by simp
  then show "drop_pages (a + n) e (drop_pages a (a + n) m) p = drop_pages a e m p"
    using d assms(4) unfolding drop_pages_def by (cases "p = a div 2 ^ 18") (auto simp: le_less Suc_le_eq)
qed

lemma read_round:
  assumes "appending st f fl lb lcb" "unat (append_pos fl) < 2 ^ 60" "off < final_off" "final_off \<le> append_pos fl" "pool_count st = Some n"
    and cached: "\<And>i. unat off \<le> i \<Longrightarrow> i < unat final_off \<Longrightarrow> cached_byte st f i = Some (d i)"
  defines "len \<equiv> min (NEXT_CACHE_BUFFER_OFFSET off - off) (final_off - off)"
  shows "\<exists>b st' t n'. tree_find_filled_buffer (buffers st) (tree fl) off = Some (Some b) \<and>
    read_from_buffer st f b payload off len = Some st' \<and> read_change st st' \<and> pool_count st' = Some n' \<and>
    appending st' f (fl\<lparr>tree := t\<rparr>) lb lcb \<and>
    memory st' = mem_write (memory st) payload (map d [unat off..<unat off + unat len]) \<and>
    (\<forall>i \<ge> unat off + unat len. cached_byte st' f i = cached_byte st f i) \<and>
    ct_abs t = drop_pages (unat off) (unat off + unat len) (ct_abs (tree fl))"
proof -
  note l = page_part [OF assms(3), folded len_def]
  let ?st1 = "st\<lparr>memory := mem_write (memory st) payload (map d [unat off..<unat off + unat len])\<rparr>" and ?p = "unat off div 2 ^ 18"
  have st: "file_heap st f = Some fl" "cache_ok st fl" using assms(1) by (simp_all add: appending_def)
  have final: "unat final_off \<le> unat (append_pos fl)" using assms(4) by (simp add: word_le_nat_alt)
  have f60: "unat final_off < 2 ^ 60" using final assms(2) by simp
  obtain b cb where b: "tree_find_filled_buffer (buffers st) (tree fl) off = Some (Some b)" "buffers st b = Some cb" "ct_abs (tree fl) ?p = Some b"
    "read_from_buffer st f b payload off len = (if (unat off + unat len) mod 2 ^ 18 = 0 then do {
        st \<leftarrow> file_tree_remove_buffer ?st1 f b; fl \<leftarrow> get_file st f;
        Some (if present_mask (tree fl) = 0 then send_pool_msg (Pool_remove_file f) st else st) } else Some ?st1)"
    by (rule part_copied [OF st f60 assms(3) cached, of payload, folded len_def])
  show ?thesis
  proof (cases "(unat off + unat len) mod 2 ^ 18 = 0")
    case False
    have "appending ?st1 f (fl\<lparr>tree := tree fl\<rparr>) lb lcb" using appending_upd [OF assms(1), of ?st1 fl] st by simp
    moreover have "read_change st ?st1"
      by (rule read_changeI [where M = "memory ?st1" and F = "file_heap st" and B = "buffers st" and n = "pool_count st" and ps = "pool_msgs st"]) simp
    moreover have "cached_byte ?st1 f i = cached_byte st f i" for i using cached_byte_upd [OF st(1), of ?st1 fl] st by simp
    ultimately show ?thesis
      using b False assms(5) drop_pages_part(1) [OF l(3,2)]
      by (intro exI [of _ b] exI [of _ ?st1] exI [of _ "tree fl"] exI [of _ n]) simp
  next
    case True
    have "file_heap ?st1 f = Some fl" "cache_ok ?st1 fl" "pool_count ?st1 = Some n" "buffers ?st1 b = Some cb"
      using st assms(5) b(2) by (simp_all add: cache_ok_def)
    then obtain t where t: "file_tree_remove_buffer ?st1 f b = Some (?st1\<lparr>pool_count := Some (n + 1), buffers := (buffers st)(b := None),
        file_heap := (file_heap st)(f \<mapsto> fl\<lparr>tree := t\<rparr>)\<rparr>)" "ct_inv t" "ct_abs t = (ct_abs (tree fl))(?p := None)"
      using remove_page [of ?st1 f fl n ?p b cb] b(3) by auto
    define st2 where "st2 = st\<lparr>memory := memory ?st1, file_heap := (file_heap st)(f \<mapsto> fl\<lparr>tree := t\<rparr>), buffers := (buffers st)(b := None),
      pool_count := Some (n + 1), pool_msgs := (if present_mask t = 0 then pool_msgs st @ [Pool_remove_file f] else pool_msgs st)\<rparr>"
    have run: "read_from_buffer st f b payload off len = Some st2"
      using b(4) True t(1) by (simp add: exec st2_def)
    have "(unat off + unat len) div 2 ^ 18 = Suc ?p" using drop_pages_part(2) [OF l(3,2) True] .
    then have pg: "?p < i div 2 ^ 18" if "unat off + unat len \<le> i" for i
      using div_le_mono [OF that, of "2 ^ 18"] by simp
    have "appending st2 f (fl\<lparr>tree := t\<rparr>) lb lcb"
      using appending_after_removal [OF assms(1) b(3), of st2 "fl\<lparr>tree := t\<rparr>"] pg [of "unat (append_pos fl)"] t l(5) final by (simp add: st2_def)
    moreover have "cached_byte st2 f i = cached_byte st f i" if "unat off + unat len \<le> i" for i
      using content_after_removal(2) [OF st b(3), of st2 "fl\<lparr>tree := t\<rparr>" i] pg [OF that] t by (simp add: st2_def)
    moreover have "read_change st st2" unfolding st2_def by (rule read_changeI) (rule refl)
    ultimately show ?thesis
      using b(1) run t(3) True drop_pages_part(1) [OF l(3,2)] by (intro exI [of _ b] exI [of _ st2] exI [of _ t] exI [of _ "n + 1"]) (simp add: st2_def)
  qed
qed

section \<open>The loop of a read\<close>

lemma mem_write_append: "mem_write (mem_write mem a xs) (a + length xs) ys = mem_write mem a (xs @ ys)"
  by (auto simp: mem_write_def fun_eq_iff nth_append)

lemma mem_write_Nil [simp]: "mem_write mem a [] = mem"
  by (auto simp: mem_write_def fun_eq_iff)

definition pages_read :: "nbfs \<Rightarrow> nbfs \<Rightarrow> file_ptr \<Rightarrow> spdk_file \<Rightarrow> buf_ptr \<Rightarrow> cache_buffer \<Rightarrow> nat \<Rightarrow> nat \<Rightarrow> nat \<Rightarrow> (nat \<Rightarrow> u8) \<Rightarrow> bool" where
  "pages_read st st' f fl lb lcb payload a e d \<longleftrightarrow> read_change st st' \<and> (\<exists>n. pool_count st' = Some n) \<and>
     memory st' = mem_write (memory st) payload (map d [a..<e]) \<and>
     (\<exists>t. appending st' f (fl\<lparr>tree := t\<rparr>) lb lcb \<and> ct_abs t = drop_pages a e (ct_abs (tree fl)))"

lemma read_loop_ok:
  assumes "appending st f fl lb lcb" "unat (append_pos fl) < 2 ^ 60" "off \<le> final_off" "final_off \<le> append_pos fl" "pool_count st = Some n"
    and "\<And>i. unat off \<le> i \<Longrightarrow> i < unat final_off \<Longrightarrow> cached_byte st f i = Some (d i)"
  shows "\<exists>st'. read_loop st f c payload off final_off flen k = Some (st', flen + (final_off - off), k) \<and>
    pages_read st st' f fl lb lcb payload (unat off) (unat final_off) d"
  using assms
proof (induction "unat final_off - unat off" arbitrary: st fl off payload flen n rule: less_induct)
  case less
  have fl: "file_heap st f = Some fl" using less.prems(1) by (simp add: appending_def)
  show ?case
  proof (cases "off < final_off")
    case False
    then have e: "final_off = off" using less.prems(3) by simp
    have "pages_read st st f fl lb lcb payload (unat off) (unat off) d"
      using less.prems(1,5) fl read_change_refl
      by (auto simp: pages_read_def drop_pages_none intro!: exI [of _ "tree fl"] appending_upd [of st f fl])
    then show ?thesis using e by (simp add: read_loop.simps)
  next
    case True
    define len where "len = min (NEXT_CACHE_BUFFER_OFFSET off - off) (final_off - off)"
    note l = page_part [OF True, folded len_def]
    obtain b st1 t n1 where r: "tree_find_filled_buffer (buffers st) (tree fl) off = Some (Some b)"
      "read_from_buffer st f b payload off len = Some st1" "read_change st st1" "pool_count st1 = Some n1"
      "appending st1 f (fl\<lparr>tree := t\<rparr>) lb lcb"
      "memory st1 = mem_write (memory st) payload (map d [unat off..<unat off + unat len])"
      "\<And>i. unat off + unat len \<le> i \<Longrightarrow> cached_byte st1 f i = cached_byte st f i"
      "ct_abs t = drop_pages (unat off) (unat off + unat len) (ct_abs (tree fl))"
      using read_round [OF less.prems(1,2) True less.prems(4,5,6), of payload, folded len_def] by blast
    have "unat final_off - unat (off + len) < unat final_off - unat off" using l(2,4,5) by linarith
    moreover have "off + len \<le> final_off" using l(4,5) by (simp add: word_le_nat_alt)
    ultimately obtain st2 where s2: "read_loop st1 f c (payload + unat len) (off + len) final_off (flen + len) k =
        Some (st2, flen + len + (final_off - (off + len)), k)"
      "pages_read st1 st2 f (fl\<lparr>tree := t\<rparr>) lb lcb (payload + unat len) (unat (off + len)) (unat final_off) d"
      using less.hyps [of "off + len" st1 "fl\<lparr>tree := t\<rparr>" n1 "payload + unat len" "flen + len"] r(4,5,7) less.prems(2,4,6) l(4) by auto
    have "read_loop st f c payload off final_off flen k = Some (st2, flen + (final_off - off), k)"
      using True fl r(1,2) s2(1) by (simp add: read_loop.simps [of st] get_file_def len_def)
    moreover have "[unat off..<unat off + unat len] @ [unat off + unat len..<unat final_off] = [unat off..<unat final_off]"
      using l(5) upt_add_eq_append [of "unat off" "unat off + unat len" "unat final_off - (unat off + unat len)"] by simp
    then have "memory st2 = mem_write (memory st) payload (map d [unat off..<unat final_off])"
      using s2(2) r(6) l(4) mem_write_append [of "memory st" payload "map d [unat off..<unat off + unat len]"]
      by (simp add: pages_read_def flip: map_append)
    moreover have "drop_pages (unat off + unat len) (unat final_off) (ct_abs t) = drop_pages (unat off) (unat final_off) (ct_abs (tree fl))"
    proof (cases "unat off + unat len = unat final_off")
      case True
      then show ?thesis using r(8) drop_pages_none by simp
    next
      case False
      then have "unat off mod 2 ^ 18 + unat len = 2 ^ 18" using l(1,3,5) by (auto simp: min_def split: if_splits)
      then have "(unat off + unat len) mod 2 ^ 18 = 0" using add_in_page(2) [of "2 ^ 18" "unat off" "unat len"] by simp
      then show ?thesis using drop_pages_step [OF l(3,2) _ l(5)] r(8) by simp
    qed
    ultimately show ?thesis
      using s2(2) r(3) l(4) read_change_trans [OF r(3)] by (auto simp: pages_read_def)
  qed
qed

section \<open>Reading\<close>

text \<open>The length of a read, cut at the end of the file, and the file with its sequential counters
  advanced.\<close>

definition read_length :: "spdk_file \<Rightarrow> u64 \<Rightarrow> u64 \<Rightarrow> u64" where
  "read_length fl off len = (if off + len > append_pos fl then append_pos fl - off else len)"

definition seq_bytes :: "spdk_file \<Rightarrow> u64 \<Rightarrow> u64 \<Rightarrow> u64" where
  "seq_bytes fl off len = (if off \<noteq> next_seq_offset fl then 0 else seq_byte_count fl) + read_length fl off len"

lemma read_length_end:
  assumes "off < append_pos fl" "unat off + unat len < 2 ^ 64"
  shows "unat (off + read_length fl off len) = unat off + unat (read_length fl off len)"
    "off + read_length fl off len \<le> append_pos fl" "off \<le> off + read_length fl off len"
proof -
  have o: "unat (off + len) = unat off + unat len" using assms(2) by (simp add: unat_word_ariths)
  have "unat (append_pos fl - off) = unat (append_pos fl) - unat off" "unat off < unat (append_pos fl)"
    using assms(1) by (simp_all add: unat_sub less_imp_le word_less_nat_alt [symmetric])
  then have l: "unat off + unat (read_length fl off len) \<le> unat (append_pos fl)"
    using o by (auto simp: read_length_def word_less_nat_alt)
  then show u: "unat (off + read_length fl off len) = unat off + unat (read_length fl off len)"
    using unat_u64_bound [of "append_pos fl"] by (simp add: unat_word_ariths)
  show "off + read_length fl off len \<le> append_pos fl" "off \<le> off + read_length fl off len"
    using u l by (simp_all add: word_le_nat_alt)
qed

text \<open>The state after a read whose bytes were all cached.\<close>

definition read_back :: "nbfs \<Rightarrow> nbfs \<Rightarrow> file_ptr \<Rightarrow> spdk_file \<Rightarrow> nat \<Rightarrow> u64 \<Rightarrow> nat \<Rightarrow> (nat \<Rightarrow> u8) \<Rightarrow> bool" where
  "read_back st st' f fl payload off n d \<longleftrightarrow>
     memory st' = mem_write (memory st) payload (map d [unat off..<unat off + n]) \<and>
     requests st' = requests st \<and> channels st' = channels st \<and> pending st' = pending st \<and> msgs st' = msgs st \<and>
     (\<exists>fl' b cb. appending st' f fl' b cb \<and> \<not> lock fl' \<and> append_pos fl' = append_pos fl \<and> length_flushed fl' = length_flushed fl \<and>
       sync_requests fl' = sync_requests fl \<and> ct_abs (tree fl') = drop_pages (unat off) (unat off + n) (ct_abs (tree fl)))"

lemma read_runs:
  assumes "appending st f fl b cb" "\<not> lock fl" "unat (append_pos fl) < 2 ^ 60" "pool_count st = Some n"
    and "len \<noteq> 0" "off < append_pos fl" "unat off + unat len < 2 ^ 64" "seq_bytes fl off len < CACHE_READAHEAD_THRESHOLD"
    and cached: "\<And>i. unat off \<le> i \<Longrightarrow> i < unat off + unat (read_length fl off len) \<Longrightarrow> cached_byte st f i = Some (d i)"
  shows "\<exists>st'. spdk_file_read st f c payload off len = Some (st', read_length fl off len, 0) \<and>
    read_back st st' f fl payload off (unat (read_length fl off len)) d"
proof -
  let ?n = "read_length fl off len"
  let ?fl = "fl\<lparr>lock := True, open_for_writing := False, seq_byte_count := seq_bytes fl off len, next_seq_offset := off + ?n\<rparr>"
  let ?st = "st\<lparr>rw_errno := (rw_errno st)(c := 0), file_heap := (file_heap st)(f \<mapsto> ?fl)\<rparr>"
  note e = read_length_end [OF assms(6,7)]
  have fl: "file_heap st f = Some fl" using assms(1) by (simp add: appending_def)
  have ap: "appending ?st f ?fl b cb" using appending_upd [OF assms(1), of ?st ?fl] by simp
  have "cached_byte ?st f i = Some (d i)" if "unat off \<le> i" "i < unat (off + ?n)" for i
    using cached_byte_upd [OF fl, of ?st ?fl] cached that e(1) by simp
  then obtain st1 where s1: "read_loop ?st f c payload off (off + ?n) 0 0 = Some (st1, ?n, 0)"
      "pages_read ?st st1 f ?fl b cb payload (unat off) (unat (off + ?n)) d"
    using read_loop_ok [OF ap _ e(3), of n d c payload 0 0] assms(3,4) e(2) by auto
  then obtain t where t: "appending st1 f (?fl\<lparr>tree := t\<rparr>) b cb" "ct_abs t = drop_pages (unat off) (unat off + unat ?n) (ct_abs (tree fl))"
    using e(1) by (auto simp: pages_read_def)
  let ?fl2 = "?fl\<lparr>tree := t, lock := False\<rparr>"
  let ?st2 = "st1\<lparr>file_heap := (file_heap st1)(f \<mapsto> ?fl2)\<rparr>"
  have fl1: "file_heap st1 f = Some (?fl\<lparr>tree := t\<rparr>)" using t(1) by (simp add: appending_def)
  have nle: "(append_pos fl \<le> off) = False" "(CACHE_READAHEAD_THRESHOLD \<le> seq_bytes fl off len) = False" using assms(6,8) by simp_all
  have rl: "(if append_pos fl < off + len then append_pos fl - off else len) = ?n" by (simp add: read_length_def)
  have sb: "(if off \<noteq> next_seq_offset fl then 0 else seq_byte_count fl) + ?n = seq_bytes fl off len" by (simp add: seq_bytes_def)
  have "spdk_file_read st f c payload off len = Some (?st2, ?n, 0)"
    using fl fl1 assms(2,5,6,8) s1(1)
    by (simp add: spdk_file_read_def exec lock_file_def unlock_file_def Let_def rl sb nle split del: if_split cong: if_cong)
  moreover have "appending ?st2 f ?fl2 b cb" using appending_upd [OF t(1), of ?st2 ?fl2] by simp
  then have "read_back st ?st2 f fl payload off (unat ?n) d"
    using s1(2) t(2) e(1) unfolding read_back_def
    by (intro conjI exI [of _ ?fl2] exI [of _ b] exI [of _ cb]) (auto simp: pages_read_def read_change_def)
  ultimately show ?thesis by blast
qed

text \<open>A file whose first page is full but not flushed.\<close>

definition full_page :: cache_buffer where
  "full_page = (new_cache_buffer (\<lambda>i. of_nat i) 0)\<lparr>bytes_filled := 262144\<rparr>"

definition dirty_file :: spdk_file where
  "dirty_file = block_file\<lparr>tree := tree_with [(7, 0), (8, 262144)], file_last := Some 8, append_pos := 262144, file_length := 262144\<rparr>"

definition dirty_fs :: nbfs where
  "dirty_fs = (sample_fs [(''a'', 3)] [3 \<mapsto> dirty_file])\<lparr>buffers := [7 \<mapsto> full_page, 8 \<mapsto> new_cache_buffer (\<lambda>_. 0) 262144],
     fresh_buf := 9, pool_count := Some 5, requests := [20 \<mapsto> zero_request\<lparr>channel := Some 0, arg_file := Some 3\<rparr>],
     channels := [0 \<mapsto> zero_channel\<lparr>reqs := [21, 22, 23], outstanding_reqs := 1, bs_channel := True, direct := True\<rparr>,
                  1 \<mapsto> zero_channel\<lparr>reqs := [24, 25, 26, 27], sync := True\<rparr>]\<rparr>"

lemma dirty_appending: "appending dirty_fs 3 dirty_file 8 (new_cache_buffer (\<lambda>_. 0) 262144)"
  using tree_with_two
  by (simp add: appending_def dirty_fs_def dirty_file_def block_file_def sample_file_def zero_file_def cache_ok_def page_ok_def full_page_def
      new_cache_buffer_def CACHE_BUFFER_SIZE_def CACHE_BUFFER_SHIFT_def)

text \<open>C24: A read of a range whose bytes, up to the end of the file, are all cached and which
  is not long enough to start a read-ahead returns their number (less than asked for when the
  range passes the end of the file) without waiting, and puts exactly those bytes into the
  caller's memory; the file is unlocked.  Of the cache it drops exactly the pages it read to
  their end.\<close>

theorem cached_read_returns:
  assumes "appending st f fl b cb" "\<not> lock fl" "unat (append_pos fl) < 2 ^ 60" "pool_count st = Some n"
    and "len \<noteq> 0" "off < append_pos fl" "unat off + unat len < 2 ^ 64" "seq_bytes fl off len < CACHE_READAHEAD_THRESHOLD"
    and "\<And>i. unat off \<le> i \<Longrightarrow> i < unat off + unat (read_length fl off len) \<Longrightarrow> cached_byte st f i = Some (d i)"
  shows "\<exists>st' fl'. spdk_file_read st f c payload off len = Some (st', read_length fl off len, 0) \<and>
    memory st' = mem_write (memory st) payload (map d [unat off..<unat off + unat (read_length fl off len)]) \<and>
    file_heap st' f = Some fl' \<and> \<not> lock fl' \<and>
    ct_abs (tree fl') = drop_pages (unat off) (unat off + unat (read_length fl off len)) (ct_abs (tree fl))"
proof -
  obtain st' where r: "spdk_file_read st f c payload off len = Some (st', read_length fl off len, 0)"
      "read_back st st' f fl payload off (unat (read_length fl off len)) d"
    using read_runs [OF assms] by blast
  then obtain fl' b' cb' where "appending st' f fl' b' cb'" "\<not> lock fl'"
      "ct_abs (tree fl') = drop_pages (unat off) (unat off + unat (read_length fl off len)) (ct_abs (tree fl))"
    unfolding read_back_def by blast
  then show ?thesis using r by (auto simp: read_back_def appending_def)
qed

theorem cached_read_returns_witness:
  "\<exists>st'. spdk_file_read dirty_fs 3 1 100 262134 20 = Some (st', 10, 0) \<and>
    memory st' = mem_write (memory dirty_fs) 100 (map of_nat [262134..<262144])"
proof -
  have c: "cached_byte dirty_fs 3 i = Some (of_nat i)" if "i < 262144" for i
    using that tree_with_two(2) by (simp add: cached_byte_def dirty_fs_def dirty_file_def full_page_def new_cache_buffer_def)
  have l: "read_length dirty_file 262134 20 = 10" "seq_bytes dirty_file 262134 20 = 10" "\<not> lock dirty_file"
      "append_pos dirty_file = 262144" "pool_count dirty_fs = Some 5"
    by (simp_all add: read_length_def seq_bytes_def dirty_file_def block_file_def sample_file_def zero_file_def dirty_fs_def)
  show ?thesis
    using cached_read_returns [OF dirty_appending, of 5 20 262134 of_nat 1 100] c l by (auto simp: CACHE_READAHEAD_THRESHOLD_def)
qed

text \<open>C3: A read of the bytes that an append has just written (fewer than the read-ahead
  threshold) returns all of them without waiting for the blobstore, with the values they had in
  the writer's memory, whether or not they were flushed.\<close>

theorem cached_write_then_read:
  assumes "appending st f fl b cb" "\<not> lock fl" "blob fl = Some bl" "free_request st c r" "alloc_fail st = []"
    and "len \<noteq> 0" "unat (append_pos fl) + unat len < 2 ^ 60" "append_pos fl + len \<le> cluster_sz st * num_clusters st bl"
    and "pool_count st = Some n" "(unat (append_pos fl) mod 2 ^ 18 + unat len) div 2 ^ 18 \<le> n"
    and "(if append_pos fl \<noteq> next_seq_offset fl then 0 else seq_byte_count fl) + len < CACHE_READAHEAD_THRESHOLD"
  shows "\<exists>st1 st2. spdk_file_write st f c payload (append_pos fl) len = Some (st1, W_return 0) \<and>
    spdk_file_read st1 f c' q (append_pos fl) len = Some (st2, len, 0) \<and>
    mem_read (memory st2) q (unat len) = mem_read (memory st) payload (unat len)"
proof -
  let ?A = "unat (append_pos fl)"
  obtain st1 where w: "spdk_file_write st f c payload (append_pos fl) len = Some (st1, W_return 0)" "appended st st1 f fl r payload len"
    using write_runs [OF assms(1-10)] by blast
  then obtain fl1 b1 cb1 m where f1: "appending st1 f fl1 b1 cb1" "append_pos fl1 = append_pos fl + len" "\<not> lock fl1"
      "seq_byte_count fl1 = seq_byte_count fl" "next_seq_offset fl1 = next_seq_offset fl" "pool_count st1 = Some m"
    unfolding appended_def by auto
  have e: "unat (append_pos fl1) = ?A + unat len" using f1(2) unat_append [OF assms(7)] by simp
  then have lt: "append_pos fl < append_pos fl1" using assms(6) by (simp add: word_less_nat_alt unat_gt_0)
  have len: "read_length fl1 (append_pos fl) len = len" using f1(2) by (simp add: read_length_def)
  have sb: "seq_bytes fl1 (append_pos fl) len < CACHE_READAHEAD_THRESHOLD"
    using assms(11) unfolding seq_bytes_def len f1(4,5) .
  have byte: "cached_byte st1 f i = Some (memory st (payload + (i - ?A)))" if "?A \<le> i" "i < ?A + unat len" for i
    using w(2) that by (simp add: appended_def)
  obtain st2 where s2: "spdk_file_read st1 f c' q (append_pos fl) len = Some (st2, len, 0)"
      "read_back st1 st2 f fl1 q (append_pos fl) (unat len) (\<lambda>i. memory st (payload + (i - ?A)))"
    using read_runs [OF f1(1,3) _ f1(6) assms(6) lt, of "\<lambda>i. memory st (payload + (i - ?A))" c' q] byte e assms(7) sb len
    by auto
  have "mem_read (memory st2) q (unat len) = map (\<lambda>i. memory st (payload + (i - ?A))) [?A..<?A + unat len]"
    using s2(2) mem_read_write_same [of "memory st1" q "map (\<lambda>i. memory st (payload + (i - ?A))) [?A..<?A + unat len]"] by (simp add: read_back_def)
  also have "\<dots> = mem_read (memory st) payload (unat len)" by (rule nth_equalityI) (simp_all add: mem_read_def)
  finally show ?thesis using w(1) s2(1) by blast
qed

theorem cached_write_then_read_witness:
  "\<exists>st1 st2. spdk_file_write empty_page_fs 3 1 100 0 10 = Some (st1, W_return 0) \<and> spdk_file_read st1 3 1 200 0 10 = Some (st2, 10, 0) \<and>
    mem_read (memory st2) 200 10 = mem_read (memory empty_page_fs) 100 10"
  using cached_write_then_read [OF empty_page_appending, of 5 1 24 10 5 100 1 200] by (auto simp: empty_page_simps CACHE_READAHEAD_THRESHOLD_def)

text \<open>C36: A read loses data that was not flushed.  When it reads the page at which flushing
  has to continue to its end, the page leaves the cache although it was never written to the
  blob; the next flush finds no buffer there, writes nothing, and records everything up to the
  end of the file as flushed.  (\<open>r\<close> is the outstanding request of that flush.)\<close>

theorem read_loses_unflushed:
  assumes "appending st f fl b cb" "\<not> lock fl" "unat (append_pos fl) < 2 ^ 60" "pool_count st = Some n"
    and "len \<noteq> 0" "off < append_pos fl" "unat off + unat len < 2 ^ 64" "seq_bytes fl off len < CACHE_READAHEAD_THRESHOLD"
    and "\<And>i. unat off \<le> i \<Longrightarrow> i < unat off + unat (read_length fl off len) \<Longrightarrow> cached_byte st f i = Some (d i)"
    and "ct_abs (tree fl) (page (length_flushed fl)) = Some x" "buffers st x = Some xb" "bytes_flushed xb < bytes_filled xb"
    and "unat off div 2 ^ 18 \<le> page (length_flushed fl)"
    and "(page (length_flushed fl) + 1) * 2 ^ 18 \<le> unat off + unat (read_length fl off len)"
    and "sync_requests fl = []" "requests st r = Some rq" "arg_file rq = Some f" "channel rq = Some c"
    and "channels st c = Some ch" "r \<notin> set (reqs ch)"
  shows "\<exists>st1 st2 fl2. spdk_file_read st f c' payload off len = Some (st1, read_length fl off len, 0) \<and>
    file_flush st1 r = Some st2 \<and> pending st2 = pending st \<and> msgs st2 = msgs st \<and>
    file_heap st2 f = Some fl2 \<and> length_flushed fl2 = append_pos fl"
proof -
  obtain st1 where r: "spdk_file_read st f c' payload off len = Some (st1, read_length fl off len, 0)"
      "read_back st st1 f fl payload off (unat (read_length fl off len)) d"
    using read_runs [OF assms(1-9)] by blast
  then obtain fl1 b1 cb1 where f1: "appending st1 f fl1 b1 cb1" "\<not> lock fl1" "append_pos fl1 = append_pos fl" "length_flushed fl1 = length_flushed fl"
      "sync_requests fl1 = []" "ct_abs (tree fl1) = drop_pages (unat off) (unat off + unat (read_length fl off len)) (ct_abs (tree fl))"
      "requests st1 = requests st" "channels st1 = channels st" "pending st1 = pending st" "msgs st1 = msgs st"
    using assms(15) unfolding read_back_def by metis
  have fl1: "file_heap st1 f = Some fl1" "ct_inv (tree fl1)" using f1(1) by (simp_all add: appending_def cache_ok_def)
  have "tree_find_buffer (tree fl1) (length_flushed fl1) = Some None"
    using ct.find_law [OF fl1(2)] f1(4,6) assms(13,14) by (simp add: drop_pages_def)
  then have "\<exists>st2 fl2. file_flush st1 r = Some st2 \<and> pending st2 = pending st1 \<and> msgs st2 = msgs st1 \<and>
      file_heap st2 f = Some fl2 \<and> length_flushed fl2 = append_pos fl1"
    using fl1(1) f1(2,5,7,8) assms(16-20)
    by (auto simp: file_flush_def exec lock_file_def unlock_file_def free_fs_request_def check_sync_reqs_def)
  then show ?thesis using r(1) f1(3,9,10) by auto
qed

theorem read_loses_unflushed_witness:
  "\<exists>st1 st2 fl2. spdk_file_read dirty_fs 3 1 100 262134 10 = Some (st1, 10, 0) \<and> file_flush st1 20 = Some st2 \<and>
    pending st2 = [] \<and> file_heap st2 3 = Some fl2 \<and> length_flushed fl2 = 262144"
proof -
  have c: "cached_byte dirty_fs 3 i = Some (of_nat i)" if "i < 262144" for i
    using that tree_with_two(2) by (simp add: cached_byte_def dirty_fs_def dirty_file_def full_page_def new_cache_buffer_def)
  have l: "read_length dirty_file 262134 10 = 10" "seq_bytes dirty_file 262134 10 = 10" "\<not> lock dirty_file" "length_flushed dirty_file = 0"
      "append_pos dirty_file = 262144" "sync_requests dirty_file = []" "pool_count dirty_fs = Some 5" "buffers dirty_fs 7 = Some full_page"
      "bytes_flushed full_page < bytes_filled full_page" "ct_abs (tree dirty_file) 0 = Some 7" "pending dirty_fs = []"
      "requests dirty_fs 20 = Some (zero_request\<lparr>channel := Some 0, arg_file := Some 3\<rparr>)" "channels dirty_fs 0 = Some (zero_channel\<lparr>reqs := [21, 22, 23], outstanding_reqs := 1, bs_channel := True, direct := True\<rparr>)"
    using tree_with_two(2)
    by (simp_all add: read_length_def seq_bytes_def dirty_file_def block_file_def sample_file_def zero_file_def dirty_fs_def full_page_def
        new_cache_buffer_def sample_fs_def boot_state_def)
  show ?thesis
    using read_loses_unflushed [OF dirty_appending, of 5 10 262134 of_nat 7 full_page 20 "zero_request\<lparr>channel := Some 0, arg_file := Some 3\<rparr>" 0
      "zero_channel\<lparr>reqs := [21, 22, 23], outstanding_reqs := 1, bs_channel := True, direct := True\<rparr>" 1 100]
      c l by (auto simp: CACHE_READAHEAD_THRESHOLD_def page_def zero_request_def)
qed

end
