(* ===== verification/NBFS_Flush.thy ===== *)
theory NBFS_Flush
  imports NBFS_Read
begin

unbundle bit_operations_syntax

text \<open>
  What a sync does: the requests that wait for it are served in order, each once everything
  that was appended before it counts as flushed, and a sync of a file with unflushed bytes in
  its last page runs to its end.
\<close>

section \<open>Waiting sync requests\<close>

lemma find_sync_req_first:
  assumes "\<forall>q \<in> set pre. \<exists>off p l. op_sync st q = Some (off, p, l) \<and> flushed < off"
    and "op_sync st s = Some (off, p, l)" "off \<le> flushed"
  shows "find_sync_req st flushed (pre @ s # post) = Some (Some s)"
  using assms by (induction pre) auto

lemma find_sync_req_none:
  assumes "\<forall>q \<in> set qs. \<exists>off p l. op_sync st q = Some (off, p, l) \<and> flushed < off"
  shows "find_sync_req st flushed qs = Some None"
  using assms by (induction qs) auto

lemma op_sync_file [simp]: "op_sync (st\<lparr>file_heap := F\<rparr>) q = op_sync st q"
  by (simp add: op_sync_def get_req_def)

lemma find_sync_req_file [simp]: "find_sync_req (st\<lparr>file_heap := F\<rparr>) x qs = find_sync_req st x qs"
  by (induction qs) (auto intro!: Option.bind_cong)

lemma file_heap_restored: "file_heap st f = Some fl \<Longrightarrow> \<not> lock fl \<Longrightarrow> (file_heap st)(f \<mapsto> fl\<lparr>lock := False\<rparr>) = file_heap st"
  by (simp add: fun_upd_idem)

lemma check_sync_none:
  assumes "file_heap st f = Some fl" "\<not> lock fl"
    and "\<forall>q \<in> set (sync_requests fl). \<exists>off p l. op_sync st q = Some (off, p, l) \<and> length_flushed fl < off"
  shows "check_sync_reqs st f = Some st"
  using assms(1,2) find_sync_req_none [OF assms(3)] file_heap_restored [OF assms(1,2)]
  by (simp add: check_sync_reqs_def exec lock_file_def unlock_file_def)

lemma check_sync_first:
  assumes "file_heap st f = Some fl" "\<not> lock fl" "blob fl = Some bl"
    and "\<forall>q \<in> set pre. \<exists>off p l. op_sync st q = Some (off, p, l) \<and> length_flushed fl < off"
    and "sync_requests fl = pre @ s # post" "requests st s = Some rq" "op rq = Op_sync off p l" "off \<le> length_flushed fl"
  shows "check_sync_reqs st f = Some (if p then st else st\<lparr>requests := (requests st)(s \<mapsto> rq\<lparr>op := Op_sync off True (length_flushed fl)\<rparr>),
        xattrs := xattrs st @ [(bl, X_length (length_flushed fl))], pending := pending st @ [(BS_sync_md bl, Bs_finish_sync s)]\<rparr>)"
proof -
  have "op_sync st s = Some (off, p, l)" using assms(6,7) by (simp add: op_sync_def get_req_def)
  then show ?thesis
    using assms find_sync_req_first [OF assms(4), of s off p l post] file_heap_restored [OF assms(1,2)]
    by (simp add: check_sync_reqs_def exec lock_file_def unlock_file_def)
qed

text \<open>Two requests wait for a sync of the file; the file is flushed up to the second one's end.\<close>

definition syncing_file :: spdk_file where
  "syncing_file = block_file\<lparr>sync_requests := [20, 21], length_flushed := 100, append_pos := 200\<rparr>"

definition syncing_fs :: nbfs where
  "syncing_fs = (sample_fs [(''a'', 3)] [3 \<mapsto> syncing_file])\<lparr>
     requests := [20 \<mapsto> zero_request\<lparr>op := Op_sync 200 False 0\<rparr>, 21 \<mapsto> zero_request\<lparr>op := Op_sync 100 False 0\<rparr>]\<rparr>"

text \<open>The sync requests of a file are served in the order they arrived: the first one
  whose data is flushed has the file's flushed length written to the blob's metadata, unless
  that is already going on; the requests before it, which wait for more data, are passed
  over.\<close>

theorem sync_served_in_order:
  assumes "file_heap st f = Some fl" "\<not> lock fl" "blob fl = Some bl"
    and "\<forall>q \<in> set pre. \<exists>off p l. op_sync st q = Some (off, p, l) \<and> length_flushed fl < off"
    and "sync_requests fl = pre @ s # post" "requests st s = Some rq" "op rq = Op_sync off p l" "off \<le> length_flushed fl"
  shows "check_sync_reqs st f = Some (if p then st
      else st\<lparr>requests := (requests st)(s \<mapsto> rq\<lparr>op := Op_sync off True (length_flushed fl)\<rparr>),
        xattrs := xattrs st @ [(bl, X_length (length_flushed fl))], pending := pending st @ [(BS_sync_md bl, Bs_finish_sync s)]\<rparr>)"
  using check_sync_first [OF assms] .

theorem sync_served_in_order_witness:
  "\<exists>st'. check_sync_reqs syncing_fs 3 = Some st' \<and> pending st' = [(BS_sync_md 5, Bs_finish_sync 21)] \<and> xattrs st' = [(5, X_length 100)]"
  using sync_served_in_order [of syncing_fs 3 syncing_file 5 "[20]" 21 "[]" "zero_request\<lparr>op := Op_sync 100 False 0\<rparr>" 100 False 0]
    exI [of Not False]
  by (auto simp: syncing_fs_def syncing_file_def block_file_def sample_file_def zero_file_def op_sync_def get_req_def zero_request_def)

section \<open>Flushing the last page\<close>

lemma mem_read_part: "x + n \<le> m \<Longrightarrow> take n (drop x (mem_read mem i m)) = mem_read mem (i + x) n"
  by (rule nth_equalityI) (simp_all add: mem_read_def add.assoc)

lemma block_bounds:
  fixes B M x :: nat
  assumes "B dvd M" "0 < B"
  shows "x < M \<Longrightarrow> (x div B + 1) * B \<le> M" "M \<le> x \<Longrightarrow> M \<le> x div B * B"
proof -
  obtain q where q: "M = q * B" using assms(1) by (metis dvdE mult.commute)
  show "(x div B + 1) * B \<le> M" if "x < M"
    using that assms(2) by (simp only: q div_less_iff_less_mult [symmetric] mult_le_mono1 Suc_eq_plus1 [symmetric] Suc_le_eq)
  show "M \<le> x div B * B" if "M \<le> x"
    using that assms(2) mult_le_mono1 [of q "x div B" B] by (simp add: q less_eq_div_iff_mult_less_eq)
qed

text \<open>The blocks of the unflushed bytes \<open>F\<close> to \<open>A\<close> of a page lie in the page's buffer.\<close>

lemma flush_blocks:
  fixes off len :: u64
  assumes "io_unit_size st = 2 ^ k" "k \<le> 18" "unat (offset cb) = p * 2 ^ 18" "buf_size cb = 2 ^ 18"
    and "unat off div 2 ^ 18 = p" "0 < unat len" "unat off mod 2 ^ 18 + unat len \<le> 2 ^ 18" "unat off + unat len < 2 ^ 60"
  obtains start num data where "get_page_parameters st off len = Some (start, io_unit_size st, num)"
    "buffer_blocks cb start (io_unit_size st) num = Some data"
    "take (unat len) (drop (unat off mod 2 ^ k) data) = mem_read (buf cb) (unat off mod 2 ^ 18) (unat len)"
proof -
  let ?B = "2 ^ k :: nat" and ?F = "unat off" and ?E = "unat off + unat len - 1"
  have io: "unat (io_unit_size st) = ?B" "io_unit_size st \<noteq> 0"
    using assms(1,2) unat_block_size [of k] by (auto simp: word_unat_eq_iff)
  obtain start num where pp: "get_page_parameters st off len = Some (start, io_unit_size st, num)" "unat start = ?F div ?B"
      "unat num = ?E div ?B - ?F div ?B + 1"
    using page_parameters [OF io(2), of len off] assms(6,8) io(1) by auto
  have dvd: "?B dvd 2 ^ 18" using assms(2) by (rule le_imp_power_dvd)
  then have dvds: "?B dvd p * 2 ^ 18" "?B dvd (p + 1) * 2 ^ 18" by simp_all
  have F: "?F = p * 2 ^ 18 + ?F mod 2 ^ 18" using assms(5) by (metis div_mult_mod_eq)
  have lo: "p * 2 ^ 18 \<le> ?F div ?B * ?B" using F by (intro block_bounds(2) [OF dvds(1)]) simp_all
  have hi: "(?E div ?B + 1) * ?B \<le> (p + 1) * 2 ^ 18"
  proof (rule block_bounds(1) [OF dvds(2)])
    show "?E < (p + 1) * 2 ^ 18" using F assms(6,7) by simp
  qed simp
  have mono: "?F div ?B \<le> ?E div ?B" using assms(6) by (intro div_le_mono) simp
  have n: "unat num * ?B = (?E div ?B + 1) * ?B - ?F div ?B * ?B"
    using pp(3) mono by (simp add: diff_mult_distrib add_mult_distrib)
  have p60: "(p + 1) * 2 ^ 18 < 2 ^ 64" using F assms(8) by simp
  have sF: "?F div ?B * ?B < 2 ^ 64" using le_less_trans [OF div_times_less_eq_dividend [of ?F ?B] unat_u64_bound] by simp
  have u1: "unat (num * ucast (io_unit_size st)) = unat num * ?B" "unat (start * ucast (io_unit_size st)) = ?F div ?B * ?B"
    using n hi p60 pp(2) io(1) sF by (simp_all add: unat_word_ariths)
  then have u2: "unat (start * ucast (io_unit_size st) - offset cb) = ?F div ?B * ?B - p * 2 ^ 18"
    using lo assms(3) by (simp add: unat_sub word_le_nat_alt)
  have YX: "?F div ?B * ?B \<le> (?E div ?B + 1) * ?B" using mono by (intro mult_le_mono1) simp
  have fits: "?F div ?B * ?B - p * 2 ^ 18 + unat num * ?B \<le> 2 ^ 18"
    using n hi lo YX by (simp only: add_mult_distrib mult_1)
  have "?E < (?E div ?B + 1) * ?B" using dividend_less_div_times [of ?B ?E] by simp
  then have len: "unat off mod ?B + unat len \<le> unat num * ?B"
    using n assms(6) div_mult_mod_eq [of ?F ?B] mult_le_mono1 [OF mono, of ?B] by linarith
  have "?F div ?B * ?B - p * 2 ^ 18 + unat off mod ?B = unat off mod 2 ^ 18"
    using lo F div_mult_mod_eq [of ?F ?B] by linarith
  then have "take (unat len) (drop (unat off mod ?B) (mem_read (buf cb) (?F div ?B * ?B - p * 2 ^ 18) (unat num * ?B))) =
      mem_read (buf cb) (unat off mod 2 ^ 18) (unat len)"
    using mem_read_part [OF len, of "buf cb" "?F div ?B * ?B - p * 2 ^ 18"] by simp
  moreover have "buffer_blocks cb start (io_unit_size st) num = Some (mem_read (buf cb) (?F div ?B * ?B - p * 2 ^ 18) (unat num * ?B))"
    using fits u1(1) u2 assms(4) by (simp add: buffer_blocks_def)
  ultimately show thesis using that [OF pp(1)] by blast
qed

text \<open>The unflushed bytes of the last page.\<close>

definition unflushed :: "spdk_file \<Rightarrow> cache_buffer \<Rightarrow> bool" where
  "unflushed fl cb \<longleftrightarrow> unat (length_flushed fl) div 2 ^ 18 = unat (append_pos fl) div 2 ^ 18 \<and>
     unat (bytes_flushed cb) = unat (length_flushed fl) mod 2 ^ 18 \<and> length_flushed fl < append_pos fl \<and> \<not> in_progress cb"

lemma unflushed_range:
  assumes "appending st f fl b cb" "unflushed fl cb" "unat (append_pos fl) < 2 ^ 60"
  defines "len \<equiv> append_pos fl - length_flushed fl"
  shows "offset cb + ucast (bytes_flushed cb) = length_flushed fl" "ucast (bytes_filled cb - bytes_flushed cb) = len"
    "unat len = unat (append_pos fl) - unat (length_flushed fl)" "0 < unat len"
    "unat (length_flushed fl) mod 2 ^ 18 + unat len = unat (append_pos fl) mod 2 ^ 18"
    "ucast (ucast (bytes_flushed cb) + len) = bytes_filled cb" "bytes_flushed cb \<le> bytes_filled cb"
    "unat (offset cb) = unat (append_pos fl) div 2 ^ 18 * 2 ^ 18"
proof -
  let ?A = "unat (append_pos fl)" and ?F = "unat (length_flushed fl)"
  note l = appending_last [OF assms(1)]
  have u: "?F div 2 ^ 18 = ?A div 2 ^ 18" "unat (bytes_flushed cb) = ?F mod 2 ^ 18" "?F < ?A"
    using assms(2) by (simp_all add: unflushed_def word_less_nat_alt)
  show off: "unat (offset cb) = ?A div 2 ^ 18 * 2 ^ 18" using l(3) assms(1) by (simp add: page_ok_def appending_def)
  have FA: "?F = ?A div 2 ^ 18 * 2 ^ 18 + ?F mod 2 ^ 18" "?A = ?A div 2 ^ 18 * 2 ^ 18 + ?A mod 2 ^ 18" using u(1) by (metis div_mult_mod_eq)+
  show n: "unat len = ?A - ?F" using u(3) by (simp add: len_def unat_sub word_le_nat_alt)
  then show "0 < unat len" using u(3) by simp
  show m: "?F mod 2 ^ 18 + unat len = ?A mod 2 ^ 18" using n FA u(3) by linarith
  show le: "bytes_flushed cb \<le> bytes_filled cb" using u(2) l(2) m by (simp add: word_le_nat_alt)
  have "?F < 2 ^ 64" using unat_u64_bound [of "length_flushed fl"] by simp
  then show "offset cb + ucast (bytes_flushed cb) = length_flushed fl"
    using FA(1) off u(2) by (simp add: word_unat_eq_iff unat_word_ariths)
  show "ucast (bytes_filled cb - bytes_flushed cb) = len"
    using le u(2) l(2) m by (simp add: word_unat_eq_iff unat_sub)
  have small: "?A mod 2 ^ 18 < 2 ^ 18" by simp
  have s: "unat (ucast (bytes_flushed cb) + len) = ?A mod 2 ^ 18" using u(2) m small by (simp add: unat_word_ariths)
  then show "ucast (ucast (bytes_flushed cb) + len) = bytes_filled cb"
    using l(2) small unat_ucast_small [of "ucast (bytes_flushed cb) + len"] by (simp add: word_unat_eq_iff)
qed

lemma flush_starts:
  assumes "appending st f fl b cb" "unflushed fl cb" "unat (append_pos fl) < 2 ^ 60" "\<not> lock fl" "blob fl = Some bl" "sync_requests fl \<noteq> []"
    and "io_unit_size st = 2 ^ k" "k \<le> 18" "requests st r = Some rq" "arg_file rq = Some f"
  shows "\<exists>start num data. file_flush st r = Some (st\<lparr>requests := (requests st)(r \<mapsto> rq\<lparr>op := Op_flush b (append_pos fl - length_flushed fl)\<rparr>),
      buffers := (buffers st)(b \<mapsto> cb\<lparr>in_progress := True\<rparr>), pending := pending st @ [(BS_write bl data start num, Bs_flush_done r)]\<rparr>) \<and>
    get_page_parameters st (length_flushed fl) (append_pos fl - length_flushed fl) = Some (start, io_unit_size st, num) \<and>
    take (unat (append_pos fl) - unat (length_flushed fl)) (drop (unat (length_flushed fl) mod 2 ^ k) data) =
      mem_read (buf cb) (unat (length_flushed fl) mod 2 ^ 18) (unat (append_pos fl) - unat (length_flushed fl))"
proof -
  let ?len = "append_pos fl - length_flushed fl" and ?A = "unat (append_pos fl)" and ?F = "unat (length_flushed fl)"
  note l = appending_last [OF assms(1)] and u = unflushed_range [OF assms(1-3)]
  have st: "file_heap st f = Some fl" "buffers st b = Some cb" "ct_inv (tree fl)" "ct_abs (tree fl) (?A div 2 ^ 18) = Some b"
    using assms(1) by (simp_all add: appending_def cache_ok_def)
  have pg: "?F div 2 ^ 18 = ?A div 2 ^ 18" "\<not> in_progress cb" using assms(2) by (simp_all add: unflushed_def)
  have sum: "?F mod 2 ^ 18 + unat ?len \<le> 2 ^ 18" using u(5) by (simp add: less_imp_le)
  have fin: "?F + unat ?len < 2 ^ 60" using u(3,4) assms(3) by linarith
  obtain start num data where d: "get_page_parameters st (length_flushed fl) ?len = Some (start, io_unit_size st, num)"
    "buffer_blocks cb start (io_unit_size st) num = Some data"
    "take (unat ?len) (drop (?F mod 2 ^ k) data) = mem_read (buf cb) (?F mod 2 ^ 18) (unat ?len)"
    by (rule flush_blocks [OF assms(7,8) u(8) l(1) pg(1) u(4) sum fin])
  have gp: "get_page_parameters (st\<lparr>file_heap := F, requests := R\<rparr>) a n = get_page_parameters st a n" for F R a n
    by (simp add: get_page_parameters_def)
  have "tree_find_buffer (tree fl) (length_flushed fl) = Some (Some b)"
    using ct.find_law [OF st(3)] st(4) pg(1) by (simp add: page_def)
  then have "file_flush st r = Some (st\<lparr>requests := (requests st)(r \<mapsto> rq\<lparr>op := Op_flush b ?len\<rparr>),
      buffers := (buffers st)(b \<mapsto> cb\<lparr>in_progress := True\<rparr>), pending := pending st @ [(BS_write bl data start num, Bs_flush_done r)]\<rparr>)"
    using st(1,2) assms(4,5,6,9,10) pg(2) u(1,2,4) d(1,2) gp file_heap_restored [OF st(1) assms(4)]
    by (auto simp: file_flush_def exec lock_file_def unlock_file_def upd_buffer_def Let_def)
  then show ?thesis using d(1,3) u(3) by auto
qed

text \<open>The completion of the write: the page counts as flushed, the waiting sync request is
  served, and the flush ends because nothing is left.\<close>

lemma flush_finishes:
  assumes "appending st f fl b cb" "unflushed fl cb" "unat (append_pos fl) < 2 ^ 60" "\<not> lock fl" "blob fl = Some bl" "sync_requests fl = [s]"
    and "offset cb < cluster_sz st * num_clusters st bl"
    and "requests st r = Some rq" "arg_file rq = Some f" "op rq = Op_flush b (append_pos fl - length_flushed fl)" "channel rq = Some c" "channels st c = Some ch"
    and "requests st s = Some rs" "op rs = Op_sync (append_pos fl) False l" "s \<noteq> r" "r \<notin> set (reqs ch)"
  defines "fl' \<equiv> fl\<lparr>length_flushed := append_pos fl, file_length := max (file_length fl) (append_pos fl)\<rparr>"
  shows "file_flush_done (st\<lparr>buffers := (buffers st)(b \<mapsto> cb\<lparr>in_progress := True\<rparr>)\<rparr>) r e = Some (st\<lparr>file_heap := (file_heap st)(f \<mapsto> fl'),
      buffers := (buffers st)(b \<mapsto> cb\<lparr>bytes_flushed := bytes_filled cb\<rparr>),
      requests := (requests st)(s \<mapsto> rs\<lparr>op := Op_sync (append_pos fl) True (append_pos fl)\<rparr>),
      xattrs := xattrs st @ [(bl, X_length (append_pos fl))], pending := pending st @ [(BS_sync_md bl, Bs_finish_sync s)],
      channels := (channels st)(c \<mapsto> ch\<lparr>reqs := r # reqs ch, outstanding_reqs := outstanding_reqs ch - 1\<rparr>)\<rparr>)"
proof -
  let ?A = "unat (append_pos fl)" and ?cb = "cb\<lparr>bytes_flushed := bytes_filled cb\<rparr>"
  note l = appending_last [OF assms(1)] and u = unflushed_range [OF assms(1-3)]
  have st: "file_heap st f = Some fl" "buffers st b = Some cb" "ct_inv (tree fl)" "ct_abs (tree fl) (?A div 2 ^ 18) = Some b"
    using assms(1) by (simp_all add: appending_def cache_ok_def)
  have sum: "length_flushed fl + (append_pos fl - length_flushed fl) = append_pos fl" by simp
  have idle: "\<not> in_progress cb" using assms(2) by (simp add: unflushed_def)
  have nfull: "bytes_filled cb \<noteq> buf_size cb" using l(1,2) by (auto simp: word_unat_eq_iff)
  let ?st1 = "st\<lparr>file_heap := (file_heap st)(f \<mapsto> fl'), buffers := (buffers st)(b \<mapsto> ?cb)\<rparr>"
  let ?st2 = "?st1\<lparr>requests := (requests st)(s \<mapsto> rs\<lparr>op := Op_sync (append_pos fl) True (append_pos fl)\<rparr>),
      xattrs := xattrs st @ [(bl, X_length (append_pos fl))], pending := pending st @ [(BS_sync_md bl, Bs_finish_sync s)]\<rparr>"
  let ?st3 = "?st2\<lparr>channels := (channels st)(c \<mapsto> ch\<lparr>reqs := r # reqs ch, outstanding_reqs := outstanding_reqs ch - 1\<rparr>)\<rparr>"
  have fl': "file_heap ?st1 f = Some fl'" "\<not> lock fl'" "blob fl' = Some bl" "sync_requests fl' = [s]" "length_flushed fl' = append_pos fl" "tree fl' = tree fl"
    using assms(4-6) by (simp_all add: fl'_def)
  have c1: "check_sync_reqs ?st1 f = Some ?st2"
    using check_sync_first [OF fl'(1-3), of "[]" s "[]" rs "append_pos fl" False l] fl'(4,5) assms(13,14) by simp
  have c3: "check_sync_reqs ?st3 f = Some ?st3"
    using check_sync_first [of ?st3 f fl' bl "[]" s "[]" "rs\<lparr>op := Op_sync (append_pos fl) True (append_pos fl)\<rparr>" "append_pos fl" True "append_pos fl"] fl'
    by simp
  have find: "tree_find_buffer (tree fl) (append_pos fl) = Some (Some b)"
    using ct.find_law [OF st(3)] st(4) by (simp add: page_def)
  have "file_flush ?st2 r = check_sync_reqs ?st3 f"
    using fl' find idle assms(8-12,15,16) file_heap_restored [of ?st2 f fl']
    by (simp add: file_flush_def exec lock_file_def unlock_file_def free_fs_request_def Let_def)
       (rule arg_cong [where f = "\<lambda>s. check_sync_reqs s f"], simp)
  then have f2: "file_flush ?st2 r = Some ?st3" using c3 by simp
  have same: "cb\<lparr>in_progress := False, bytes_flushed := x\<rparr> = cb\<lparr>bytes_flushed := x\<rparr>"
      "fl\<lparr>length_flushed := x', file_length := y, lock := False\<rparr> = fl\<lparr>length_flushed := x', file_length := y\<rparr>" for x x' y
    using idle assms(4) by (auto intro: cache_buffer.equality spdk_file.equality)
  have "file_flush_done (st\<lparr>buffers := (buffers st)(b \<mapsto> cb\<lparr>in_progress := True\<rparr>)\<rparr>) r e = do { st \<leftarrow> check_sync_reqs ?st1 f; file_flush st r }"
    using st(1,2) assms(4,5,7-10) u(6) nfull sum find idle
    by (simp add: file_flush_done_def op_flush_def exec lock_file_def unlock_file_def upd_buffer_def file_get_blob_size_def file_blob_def fl'_def Let_def)
       (rule arg_cong [where f = "\<lambda>s. check_sync_reqs s f \<bind> (\<lambda>st. file_flush st r)"], simp add: same)
  then show ?thesis using c1 f2 by simp
qed

section \<open>A whole sync\<close>

text \<open>A direct channel with two free requests, and the state in which a sync of the file holds
  both.\<close>

definition sync_channel :: "nbfs \<Rightarrow> chan_ptr \<Rightarrow> spdk_fs_channel \<Rightarrow> req_ptr \<Rightarrow> req_ptr \<Rightarrow> bool" where
  "sync_channel st c ch s r \<longleftrightarrow> channels st c = Some ch \<and> direct ch \<and> take 2 (reqs ch) = [s, r] \<and> distinct (reqs ch) \<and>
     requests st s \<noteq> None \<and> requests st r \<noteq> None \<and> s \<noteq> r"

definition sync_request :: "spdk_file \<Rightarrow> file_ptr \<Rightarrow> chan_ptr \<Rightarrow> file_cb \<Rightarrow> spdk_fs_request" where
  "sync_request fl f c cb = (fresh_request c)\<lparr>arg_file := Some f, fn := Fn_file cb, op := Op_sync (append_pos fl) False 0\<rparr>"

definition sync_started :: "nbfs \<Rightarrow> file_ptr \<Rightarrow> spdk_file \<Rightarrow> chan_ptr \<Rightarrow> spdk_fs_channel \<Rightarrow> req_ptr \<Rightarrow> req_ptr \<Rightarrow> file_cb \<Rightarrow> nbfs" where
  "sync_started st f fl c ch s r cb = st\<lparr>file_heap := (file_heap st)(f \<mapsto> fl\<lparr>sync_requests := [s]\<rparr>),
     requests := (requests st)(s \<mapsto> sync_request fl f c cb, r \<mapsto> (fresh_request c)\<lparr>arg_file := Some f\<rparr>),
     channels := (channels st)(c \<mapsto> ch\<lparr>outstanding_reqs := outstanding_reqs ch + 2, reqs := drop 2 (reqs ch)\<rparr>)\<rparr>"

lemma sync_started_simps:
  "file_heap (sync_started st f fl c ch s r cb) = (file_heap st)(f \<mapsto> fl\<lparr>sync_requests := [s]\<rparr>)"
  "requests (sync_started st f fl c ch s r cb) = (requests st)(s \<mapsto> sync_request fl f c cb, r \<mapsto> (fresh_request c)\<lparr>arg_file := Some f\<rparr>)"
  "channels (sync_started st f fl c ch s r cb) = (channels st)(c \<mapsto> ch\<lparr>outstanding_reqs := outstanding_reqs ch + 2, reqs := drop 2 (reqs ch)\<rparr>)"
  "buffers (sync_started st f fl c ch s r cb) = buffers st" "fresh_buf (sync_started st f fl c ch s r cb) = fresh_buf st"
  "io_unit_size (sync_started st f fl c ch s r cb) = io_unit_size st" "pending (sync_started st f fl c ch s r cb) = pending st"
  "replies (sync_started st f fl c ch s r cb) = replies st" "xattrs (sync_started st f fl c ch s r cb) = xattrs st"
  "cluster_sz (sync_started st f fl c ch s r cb) = cluster_sz st" "num_clusters (sync_started st f fl c ch s r cb) = num_clusters st"
  "get_page_parameters (sync_started st f fl c ch s r cb) off len = get_page_parameters st off len"
  by (simp_all add: sync_started_def get_page_parameters_def)

lemma sync_starts:
  assumes "file_heap st f = Some fl" "\<not> lock fl" "length_xattr fl < append_pos fl" "sync_requests fl = []" "sync_channel st c ch s r"
  shows "spdk_file_sync_async st f c cb = file_flush (sync_started st f fl c ch s r cb) r"
proof -
  obtain rest where ch: "reqs ch = s # r # rest" "channels st c = Some ch" "direct ch" "s \<noteq> r"
      "\<exists>x. requests st s = Some x" "\<exists>x. requests st r = Some x"
    using assms(5) by (cases "reqs ch"; cases "tl (reqs ch)") (auto simp: sync_channel_def)
  have same: "fl\<lparr>sync_requests := x, lock := False\<rparr> = fl\<lparr>sync_requests := x\<rparr>" for x
    using assms(2) by (auto intro: spdk_file.equality)
  show ?thesis
    using assms(1-4) ch
    by (auto simp: spdk_file_sync_async_def file_sync_def exec lock_file_def unlock_file_def alloc_fs_request_def alloc_fs_request_with_iov_def
        channel_send_def fresh_request_def [symmetric] sync_started_def sync_request_def not_le)
       (rule arg_cong [where f = "\<lambda>s. file_flush s r"], simp add: same add.commute)
qed

lemma finish_sync_ok:
  assumes "file_heap st f = Some fl" "\<not> lock fl" "sync_requests fl = [s]" "length_flushed fl = a"
    and "requests st s = Some rq" "arg_file rq = Some f" "fn rq = Fn_file (Cb_user u)" "op rq = Op_sync a True a" "channel rq = Some c" "channels st c = Some ch"
    and "s \<notin> set (reqs ch)"
  shows "file_cache_finish_sync st s e = Some (st\<lparr>file_heap := (file_heap st)(f \<mapsto> fl\<lparr>length_xattr := a, sync_requests := []\<rparr>),
    replies := replies st @ [Reply_op u e], channels := (channels st)(c \<mapsto> ch\<lparr>reqs := s # reqs ch, outstanding_reqs := outstanding_reqs ch - 1\<rparr>)\<rparr>)"
    (is "_ = Some ?st")
proof -
  have same: "fl\<lparr>length_xattr := a, sync_requests := [], lock := False\<rparr> = fl\<lparr>length_xattr := a, sync_requests := []\<rparr>"
    using assms(2) by (auto intro: spdk_file.equality)
  have "file_cache_finish_sync st s e = check_sync_reqs ?st f"
    using assms
    by (simp add: file_cache_finish_sync_def op_sync_def exec lock_file_def unlock_file_def free_fs_request_def same)
  also have "\<dots> = Some ?st"
    using assms(2) by (intro check_sync_none [where fl = "fl\<lparr>length_xattr := a, sync_requests := []\<rparr>"]) simp_all
  finally show ?thesis .
qed

text \<open>C8: A sync of a file with unflushed bytes in its last page completes: it writes the
  blocks that hold exactly those bytes, and when the blobstore has answered that write and
  then the update of the metadata, the user is told the result of the latter, once; the file
  is recorded as flushed and synced up to its end, nothing is pending and both requests are
  free.  The result \<open>e\<close> of the write makes no difference, so that a failed write is reported as
  synced.\<close>

theorem sync_completes:
  assumes "appending st f fl b cb" "unflushed fl cb" "unat (append_pos fl) < 2 ^ 60" "\<not> lock fl" "blob fl = Some bl"
    and "length_xattr fl < append_pos fl" "sync_requests fl = []" "sync_channel st c ch s r"
    and "io_unit_size st = 2 ^ k" "k \<le> 18" "offset cb < cluster_sz st * num_clusters st bl"
  shows "\<exists>st1 start num data st2 st3 fl3. spdk_file_sync_async st f c (Cb_user u) = Some st1 \<and>
    pending st1 = pending st @ [(BS_write bl data start num, Bs_flush_done r)] \<and> replies st1 = replies st \<and>
    get_page_parameters st (length_flushed fl) (append_pos fl - length_flushed fl) = Some (start, 2 ^ k, num) \<and>
    take (unat (append_pos fl) - unat (length_flushed fl)) (drop (unat (length_flushed fl) mod 2 ^ k) data) =
      mem_read (buf cb) (unat (length_flushed fl) mod 2 ^ 18) (unat (append_pos fl) - unat (length_flushed fl)) \<and>
    file_flush_done (st1\<lparr>pending := pending st\<rparr>) r e = Some st2 \<and>
    pending st2 = pending st @ [(BS_sync_md bl, Bs_finish_sync s)] \<and> replies st2 = replies st \<and>
    xattrs st2 = xattrs st @ [(bl, X_length (append_pos fl))] \<and>
    file_cache_finish_sync (st2\<lparr>pending := pending st\<rparr>) s e' = Some st3 \<and>
    replies st3 = replies st @ [Reply_op u e'] \<and> pending st3 = pending st \<and> channels st3 = channels st \<and>
    file_heap st3 f = Some fl3 \<and> length_flushed fl3 = append_pos fl \<and> length_xattr fl3 = append_pos fl \<and> sync_requests fl3 = []"
proof -
  let ?fl = "fl\<lparr>sync_requests := [s]\<rparr>" and ?len = "append_pos fl - length_flushed fl"
  let ?s0 = "sync_started st f fl c ch s r (Cb_user u)" and ?rq = "(fresh_request c)\<lparr>arg_file := Some f\<rparr>"
  have fl: "file_heap st f = Some fl" using assms(1) by (simp add: appending_def)
  have ch: "channels st c = Some ch" "s # r # drop 2 (reqs ch) = reqs ch" "s \<noteq> r" "s \<notin> set (drop 2 (reqs ch))" "r \<notin> set (drop 2 (reqs ch))"
    using assms(8) append_take_drop_id [of 2 "reqs ch"] distinct_append [of "[s, r]" "drop 2 (reqs ch)"]
    by (auto simp: sync_channel_def)
  note s0 = sync_started_simps
  have ap: "appending ?s0 f ?fl b cb" "unflushed ?fl cb" using appending_upd [OF assms(1), of ?s0 ?fl] assms(2) by (simp_all add: unflushed_def s0)
  let ?s1 = "?s0\<lparr>requests := (requests ?s0)(r \<mapsto> ?rq\<lparr>op := Op_flush b ?len\<rparr>)\<rparr>"
  obtain start num data where d: "file_flush ?s0 r = Some (?s1\<lparr>buffers := (buffers st)(b \<mapsto> cb\<lparr>in_progress := True\<rparr>),
        pending := pending st @ [(BS_write bl data start num, Bs_flush_done r)]\<rparr>)"
      "get_page_parameters st (length_flushed fl) ?len = Some (start, 2 ^ k, num)"
      "take (unat (append_pos fl) - unat (length_flushed fl)) (drop (unat (length_flushed fl) mod 2 ^ k) data) =
        mem_read (buf cb) (unat (length_flushed fl) mod 2 ^ 18) (unat (append_pos fl) - unat (length_flushed fl))"
    using flush_starts [OF ap, of bl k r ?rq] assms(3-5,9,10) by (auto simp: s0)
  define st1 where "st1 = ?s1\<lparr>buffers := (buffers st)(b \<mapsto> cb\<lparr>in_progress := True\<rparr>),
        pending := pending st @ [(BS_write bl data start num, Bs_flush_done r)]\<rparr>"
  have run1: "spdk_file_sync_async st f c (Cb_user u) = Some st1"
    using sync_starts [OF fl assms(4,6,7,8)] d(1) by (simp add: st1_def)
  let ?fl2 = "?fl\<lparr>length_flushed := append_pos fl, file_length := max (file_length fl) (append_pos fl)\<rparr>"
  let ?ch = "ch\<lparr>outstanding_reqs := outstanding_reqs ch + 2, reqs := drop 2 (reqs ch)\<rparr>"
  define st2 where "st2 = ?s1\<lparr>file_heap := (file_heap ?s1)(f \<mapsto> ?fl2),
      buffers := (buffers ?s1)(b \<mapsto> cb\<lparr>bytes_flushed := bytes_filled cb\<rparr>),
      requests := (requests ?s1)(s \<mapsto> (sync_request fl f c (Cb_user u))\<lparr>op := Op_sync (append_pos fl) True (append_pos fl)\<rparr>),
      xattrs := xattrs ?s1 @ [(bl, X_length (append_pos fl))], pending := pending ?s1 @ [(BS_sync_md bl, Bs_finish_sync s)],
      channels := (channels ?s1)(c \<mapsto> ?ch\<lparr>reqs := r # reqs ?ch, outstanding_reqs := outstanding_reqs ?ch - 1\<rparr>)\<rparr>"
  have "st1\<lparr>pending := pending st\<rparr> = ?s1\<lparr>buffers := (buffers ?s1)(b \<mapsto> cb\<lparr>in_progress := True\<rparr>)\<rparr>"
    by (simp add: st1_def s0)
  moreover have "file_flush_done (?s1\<lparr>buffers := (buffers ?s1)(b \<mapsto> cb\<lparr>in_progress := True\<rparr>)\<rparr>) r e = Some st2"
    unfolding st2_def using appending_upd [OF ap(1), of ?s1 ?fl] flush_finishes [of ?s1 f ?fl b cb bl s r "?rq\<lparr>op := Op_flush b ?len\<rparr>" c ?ch "sync_request fl f c (Cb_user u)" 0 e]
      ap(2) assms(3-5,11) ch(1,3,5) by (simp add: sync_request_def s0)
  ultimately have run2: "file_flush_done (st1\<lparr>pending := pending st\<rparr>) r e = Some st2" by simp
  have run3: "\<exists>st3 fl3. file_cache_finish_sync (st2\<lparr>pending := pending st\<rparr>) s e' = Some st3 \<and>
    replies st3 = replies st @ [Reply_op u e'] \<and> pending st3 = pending st \<and> channels st3 = channels st \<and>
    file_heap st3 f = Some fl3 \<and> length_flushed fl3 = append_pos fl \<and> length_xattr fl3 = append_pos fl \<and> sync_requests fl3 = []"
    using finish_sync_ok [of "st2\<lparr>pending := pending st\<rparr>" f ?fl2 s "append_pos fl" "(sync_request fl f c (Cb_user u))\<lparr>op := Op_sync (append_pos fl) True (append_pos fl)\<rparr>" u c] assms(4) ch
    by (simp add: st2_def s0 sync_request_def fresh_request_def zero_request_def fun_upd_idem)
  show ?thesis using run1 run2 run3 d(2,3) by (auto simp: st1_def st2_def s0)
qed

text \<open>A file with ten unflushed bytes.\<close>

definition ten_bytes :: cache_buffer where
  "ten_bytes = (new_cache_buffer (\<lambda>i. of_nat i) 0)\<lparr>bytes_filled := 10\<rparr>"

definition ten_bytes_file :: spdk_file where
  "ten_bytes_file = empty_page_file\<lparr>append_pos := 10, file_length := 10\<rparr>"

definition ten_bytes_fs :: nbfs where
  "ten_bytes_fs = empty_page_fs\<lparr>file_heap := [3 \<mapsto> ten_bytes_file], buffers := [7 \<mapsto> ten_bytes]\<rparr>"

lemma ten_bytes_simps:
  "appending ten_bytes_fs 3 ten_bytes_file 7 ten_bytes" "unflushed ten_bytes_file ten_bytes" "append_pos ten_bytes_file = 10" "\<not> lock ten_bytes_file"
  "blob ten_bytes_file = Some 5" "length_xattr ten_bytes_file = 0" "length_flushed ten_bytes_file = 0" "sync_requests ten_bytes_file = []"
  "sync_channel ten_bytes_fs 0 (zero_channel\<lparr>reqs := [20, 21, 22, 23], bs_channel := True, direct := True\<rparr>) 20 21"
  "io_unit_size ten_bytes_fs = 2 ^ 9" "offset ten_bytes < cluster_sz ten_bytes_fs * num_clusters ten_bytes_fs 5" "pending ten_bytes_fs = []" "replies ten_bytes_fs = []"
  using tree_with_one
  by (simp_all add: appending_def unflushed_def sync_channel_def ten_bytes_fs_def ten_bytes_file_def ten_bytes_def empty_page_fs_def empty_page_file_def
      block_file_def sample_file_def zero_file_def sample_fs_def boot_state_def cache_ok_def page_ok_def new_cache_buffer_def CACHE_BUFFER_SIZE_def
      CACHE_BUFFER_SHIFT_def zero_channel_def)

theorem sync_completes_witness:
  "\<exists>st1 st2 st3. spdk_file_sync_async ten_bytes_fs 3 0 (Cb_user 7) = Some st1 \<and> file_flush_done (st1\<lparr>pending := []\<rparr>) 21 (- 5) = Some st2 \<and>
    file_cache_finish_sync (st2\<lparr>pending := []\<rparr>) 20 0 = Some st3 \<and> replies st3 = [Reply_op 7 0] \<and> pending st3 = []"
  using sync_completes [OF ten_bytes_simps(1,2) _ ten_bytes_simps(4,5) _ ten_bytes_simps(8,9,10), of 7 "- 5" 0] ten_bytes_simps(3,6,11,12,13)
  by auto

end
