(* ===== verification/Blob_IO.thy ===== *)
theory Blob_IO
  imports NBFS_Prelude
begin

text \<open>
  Blob input and output of NBFS2: the headers \<open>write_super_blob.h\<close>, \<open>write_normal_blob.h\<close>,
  \<open>read_super_blob.h\<close>, \<open>read_normal_blob.h\<close>, \<open>create_super_blob.h\<close> and \<open>check_super_blob.h\<close> of
  \<open>src/NBFS2\<close>.

  Each operation is a chain of calls of the SPDK blobstore, each with the next function of
  the chain as its callback and an \<open>args\<close> struct as the callback's argument.  The blobstore is
  the environment: a call is added to \<open>pending\<close>, and a step of the environment completes a
  pending call with a result it chooses.  The structs live in a heap, so that a use after
  \<open>free\<close> is a crash; what the blobstore's accessors answer is part of the state and may
  change between two steps.  \<open>'c\<close> is the type of the client's callbacks (function and argument);
  a call of one is added to \<open>calls\<close>, where the client's model picks it up: all that follows
  such a call in these headers is \<open>free(args)\<close>.  \<open>malloc\<close> and \<open>spdk_bs_alloc_io_channel\<close> fail when the next
  element of their list says so.
\<close>

section \<open>Data\<close>

type_synonym spdk_blob_id = u64
type_synonym spdk_blob = nat
type_synonym spdk_io_channel = nat
type_synonym buffer = nat
type_synonym args_ptr = nat

datatype blob_call =
    C_bs_init | C_bs_load | C_bs_unload
  | C_get_super | C_set_super spdk_blob_id
  | C_create_blob | C_open_blob spdk_blob_id | C_delete_blob spdk_blob_id
  | C_resize spdk_blob u64 | C_sync_md spdk_blob | C_close spdk_blob
  | C_io_write spdk_blob spdk_io_channel "buffer option" u64 u64
  | C_io_read spdk_blob spdk_io_channel "buffer option" u64 u64

text \<open>The completion of a call: \<open>spdk_blob_op_complete\<close>, \<open>spdk_blob_op_with_id_complete\<close>,
  \<open>spdk_blob_op_with_handle_complete\<close> (and \<open>spdk_bs_op_with_handle_complete\<close>, whose handle is not
  looked at).\<close>

datatype bs_reply = R_op int | R_id spdk_blob_id int | R_handle spdk_blob int

datatype 'c io_cb =
    Wsb_super_blobid_got args_ptr | Wsb_open_complete args_ptr | Wsb_resize_complete args_ptr
  | Wsb_sync_complete args_ptr | Wsb_write_complete args_ptr
  | Wnb_open_complete args_ptr | Wnb_resize_complete args_ptr
  | Wnb_sync_complete args_ptr | Wnb_write_complete args_ptr
  | Rsb_super_blobid_got args_ptr | Rsb_open_complete args_ptr | Rsb_read_complete args_ptr
  | Rnb_open_complete args_ptr | Rnb_read_complete args_ptr
  | Csb_super_blob_created args_ptr | Csb_super_blob_set args_ptr
  | Chsb_super_blobid_got nat
  | Io_client 'c

datatype 'c client_call = Call_op 'c int | Call_id 'c spdk_blob_id int | Call_handle 'c spdk_blob int

text \<open>The four structs \<open>_write_super_blob_args\<close>, \<open>_write_normal_blob_args\<close>,
  \<open>_read_super_blob_args\<close> and \<open>_read_normal_blob_args\<close>; the last two lack the sizes.\<close>

record 'c blob_args =
  blob :: spdk_blob
  blobid :: spdk_blob_id
  channel :: "spdk_io_channel option"
  payload :: "buffer option"
  offset :: u64
  io_length :: u64
  cb_fn :: 'c
  cluster_size :: u64
  io_unit_size :: u64

record 'c create_super_blob_args =
  csb_blobid :: spdk_blob_id
  csb_cb_fn :: 'c

text \<open>\<open>garbage_blob\<close> to \<open>garbage_payload\<close>: what a struct from \<open>malloc\<close> holds.\<close>

record 'c blob_io =
  args_heap :: "args_ptr \<rightharpoonup> 'c blob_args"
  csb_heap :: "args_ptr \<rightharpoonup> 'c create_super_blob_args"
  next_args :: args_ptr
  garbage_blob :: spdk_blob
  garbage_blobid :: spdk_blob_id
  garbage_payload :: "buffer option"
  malloc_fail :: "bool list"
  channel_fail :: "bool list"
  open_channels :: "spdk_io_channel list"
  next_channel :: spdk_io_channel
  num_clusters :: "spdk_blob \<Rightarrow> u64"
  num_io_units :: "spdk_blob \<Rightarrow> u64"
  free_cluster_count :: u64
  bs_cluster_size :: u64
  bs_io_unit_size :: u64
  flags :: "nat \<Rightarrow> int"
  pending :: "(blob_call \<times> 'c io_cb) list"
  calls :: "'c client_call list"

abbreviation (input) ENOENT :: int where "ENOENT \<equiv> 2"
abbreviation (input) ENOMEM :: int where "ENOMEM \<equiv> 12"
abbreviation (input) ENOSPC :: int where "ENOSPC \<equiv> 28"

section \<open>Primitives\<close>

definition post :: "blob_call \<Rightarrow> 'c io_cb \<Rightarrow> 'c blob_io \<Rightarrow> 'c blob_io" where
  "post c cb st = st\<lparr>pending := pending st @ [(c, cb)]\<rparr>"

definition call :: "'c client_call \<Rightarrow> 'c blob_io \<Rightarrow> 'c blob_io" where
  "call c st = st\<lparr>calls := calls st @ [c]\<rparr>"

definition set_args :: "args_ptr \<Rightarrow> 'c blob_args \<Rightarrow> 'c blob_io \<Rightarrow> 'c blob_io" where
  "set_args a x st = st\<lparr>args_heap := (args_heap st)(a \<mapsto> x)\<rparr>"

definition free_args :: "args_ptr \<Rightarrow> 'c blob_io \<Rightarrow> 'c blob_io" where
  "free_args a st = st\<lparr>args_heap := (args_heap st)(a := None)\<rparr>"

definition malloc_fails :: "'c blob_io \<Rightarrow> bool \<times> 'c blob_io" where
  "malloc_fails st = (case malloc_fail st of [] \<Rightarrow> (False, st)
     | b # bs \<Rightarrow> (b, st\<lparr>malloc_fail := bs\<rparr>))"

definition spdk_bs_alloc_io_channel :: "'c blob_io \<Rightarrow> spdk_io_channel option \<times> 'c blob_io" where
  "spdk_bs_alloc_io_channel st = (case channel_fail st of
     True # bs \<Rightarrow> (None, st\<lparr>channel_fail := bs\<rparr>)
   | bs \<Rightarrow> (Some (next_channel st), st\<lparr>channel_fail := tl bs,
       open_channels := next_channel st # open_channels st, next_channel := next_channel st + 1\<rparr>))"

definition spdk_bs_free_io_channel :: "spdk_io_channel \<Rightarrow> 'c blob_io \<Rightarrow> 'c blob_io" where
  "spdk_bs_free_io_channel c st = st\<lparr>open_channels := remove1 c (open_channels st)\<rparr>"

definition free_channel_if :: "spdk_io_channel option \<Rightarrow> 'c blob_io \<Rightarrow> 'c blob_io" where
  "free_channel_if ch st = (case ch of None \<Rightarrow> st | Some c \<Rightarrow> spdk_bs_free_io_channel c st)"

text \<open>The error branch all callbacks share: tell the client, free the struct.\<close>

definition fail_args :: "args_ptr \<Rightarrow> 'c blob_args \<Rightarrow> int \<Rightarrow> 'c blob_io \<Rightarrow> 'c blob_io" where
  "fail_args a x e st = free_args a (call (Call_op (cb_fn x) e) st)"

definition new_args :: "'c blob_io \<Rightarrow> 'c \<Rightarrow> 'c blob_args" where
  "new_args st cb = \<lparr>blob = garbage_blob st, blobid = garbage_blobid st, channel = None,
     payload = garbage_payload st, offset = 0, io_length = 0, cb_fn = cb,
     cluster_size = bs_cluster_size st, io_unit_size = bs_io_unit_size st\<rparr>"

definition alloc_args :: "'c blob_args \<Rightarrow> 'c blob_io \<Rightarrow> args_ptr \<times> 'c blob_io" where
  "alloc_args x st = (next_args st, set_args (next_args st) x st\<lparr>next_args := next_args st + 1\<rparr>)"

section \<open>Writing\<close>

definition clusters_to_add :: "u64 \<Rightarrow> u64 \<Rightarrow> u64 \<Rightarrow> u64" where
  "clusters_to_add add_io_num iosz csz =
     add_io_num * iosz div csz + (if add_io_num * iosz mod csz \<noteq> 0 then 1 else 0)"

subsection \<open>The super blob\<close>

definition wsb_write_complete :: "args_ptr \<Rightarrow> int \<Rightarrow> 'c blob_io \<Rightarrow> 'c blob_io option" where
  "wsb_write_complete a bserrno st = do {
     x \<leftarrow> args_heap st a;
     if bserrno \<noteq> 0 then Some (fail_args a x bserrno st)
     else
       let st = free_channel_if (channel x) st;
           st = post (C_close (blob x)) (Io_client (cb_fn x)) st
       in Some (free_args a st) }"

definition wsb_sync_complete :: "args_ptr \<Rightarrow> int \<Rightarrow> 'c blob_io \<Rightarrow> 'c blob_io option" where
  "wsb_sync_complete a bserrno st = do {
     x \<leftarrow> args_heap st a;
     if bserrno \<noteq> 0 then Some (fail_args a x bserrno st)
     else do {
       ch \<leftarrow> channel x;
       Some (post (C_io_write (blob x) ch (payload x) (offset x) (io_length x)) (Wsb_write_complete a) st) } }"

definition wsb_resize_complete :: "args_ptr \<Rightarrow> int \<Rightarrow> 'c blob_io \<Rightarrow> 'c blob_io option" where
  "wsb_resize_complete a bserrno st = do {
     x \<leftarrow> args_heap st a;
     if bserrno \<noteq> 0 then Some (fail_args a x bserrno st)
     else Some (post (C_sync_md (blob x)) (Wsb_sync_complete a) st) }"

definition wsb_open_complete :: "args_ptr \<Rightarrow> spdk_blob \<Rightarrow> int \<Rightarrow> 'c blob_io \<Rightarrow> 'c blob_io option" where
  "wsb_open_complete a blb bserrno st = do {
     x \<leftarrow> args_heap st a;
     if bserrno \<noteq> 0 then Some (fail_args a x bserrno st)
     else
       let x = x\<lparr>blob := blb\<rparr>;
           (chan, st) = spdk_bs_alloc_io_channel st;
           x = x\<lparr>channel := chan\<rparr>;
           st = set_args a x st
       in case chan of
         None \<Rightarrow> Some (fail_args a x (- ENOMEM) st)
       | Some ch \<Rightarrow>
           let c_num = num_clusters st blb;
               io_unit_num = num_io_units st blb
           in if offset x + io_length x > io_unit_num then do {
                let add_io_num = offset x + io_length x - io_unit_num;
                _ \<leftarrow> oassert (cluster_size x \<noteq> 0);
                let add_c_num = clusters_to_add add_io_num (io_unit_size x) (cluster_size x);
                if free_cluster_count st < add_c_num then Some (fail_args a x (- ENOSPC) st)
                else Some (post (C_resize blb (c_num + add_c_num)) (Wsb_resize_complete a) st) }
              else Some (post (C_io_write blb ch (payload x) (offset x) (io_length x))
                          (Wsb_write_complete a) st) }"

definition wsb_super_blobid_got :: "args_ptr \<Rightarrow> spdk_blob_id \<Rightarrow> int \<Rightarrow> 'c blob_io \<Rightarrow> 'c blob_io option" where
  "wsb_super_blobid_got a bid bserrno st = do {
     x \<leftarrow> args_heap st a;
     if bserrno \<noteq> 0 then Some (fail_args a x bserrno st)
     else Some (post (C_open_blob bid) (Wsb_open_complete a) (set_args a (x\<lparr>blobid := bid\<rparr>) st)) }"

definition write_super_blob :: "buffer option \<Rightarrow> u64 \<Rightarrow> u64 \<Rightarrow> 'c \<Rightarrow> 'c blob_io \<Rightarrow> 'c blob_io" where
  "write_super_blob buf off len cb st = (case malloc_fails st of
     (True, st) \<Rightarrow> call (Call_op cb (- ENOMEM)) st
   | (False, st) \<Rightarrow>
       let x = (new_args st cb)\<lparr>payload := buf, offset := off, io_length := len\<rparr>;
           (a, st) = alloc_args x st
       in post C_get_super (Wsb_super_blobid_got a) st)"

subsection \<open>Another blob\<close>

definition wnb_write_complete :: "args_ptr \<Rightarrow> int \<Rightarrow> 'c blob_io \<Rightarrow> 'c blob_io option" where
  "wnb_write_complete a bserrno st = do {
     x \<leftarrow> args_heap st a;
     if bserrno \<noteq> 0 then Some (fail_args a x bserrno st)
     else
       let st = free_channel_if (channel x) st;
           st = post (C_close (blob x)) (Io_client (cb_fn x)) st
       in Some (free_args a st) }"

definition wnb_sync_complete :: "args_ptr \<Rightarrow> int \<Rightarrow> 'c blob_io \<Rightarrow> 'c blob_io option" where
  "wnb_sync_complete a bserrno st = do {
     x \<leftarrow> args_heap st a;
     if bserrno \<noteq> 0 then Some (fail_args a x bserrno st)
     else do {
       ch \<leftarrow> channel x;
       Some (post (C_io_write (blob x) ch (payload x) (offset x) (io_length x)) (Wnb_write_complete a) st) } }"

definition wnb_resize_complete :: "args_ptr \<Rightarrow> int \<Rightarrow> 'c blob_io \<Rightarrow> 'c blob_io option" where
  "wnb_resize_complete a bserrno st = do {
     x \<leftarrow> args_heap st a;
     if bserrno \<noteq> 0 then Some (fail_args a x bserrno st)
     else Some (post (C_sync_md (blob x)) (Wnb_sync_complete a) st) }"

definition wnb_open_complete :: "args_ptr \<Rightarrow> spdk_blob \<Rightarrow> int \<Rightarrow> 'c blob_io \<Rightarrow> 'c blob_io option" where
  "wnb_open_complete a blb bserrno st = do {
     x \<leftarrow> args_heap st a;
     if bserrno \<noteq> 0 then Some (fail_args a x bserrno st)
     else
       let x = x\<lparr>blob := blb\<rparr>;
           (chan, st) = spdk_bs_alloc_io_channel st;
           x = x\<lparr>channel := chan\<rparr>;
           st = set_args a x st
       in case chan of
         None \<Rightarrow> Some (fail_args a x (- ENOMEM) st)
       | Some ch \<Rightarrow>
           let c_num = num_clusters st blb;
               io_unit_num = num_io_units st blb
           in if offset x + io_length x > io_unit_num then do {
                let add_io_num = offset x + io_length x - io_unit_num;
                _ \<leftarrow> oassert (cluster_size x \<noteq> 0);
                let add_c_num = clusters_to_add add_io_num (io_unit_size x) (cluster_size x);
                if free_cluster_count st < add_c_num then Some (fail_args a x (- ENOSPC) st)
                else Some (post (C_resize blb (c_num + add_c_num)) (Wnb_resize_complete a) st) }
              else Some (post (C_io_write blb ch (payload x) (offset x) (io_length x))
                          (Wnb_write_complete a) st) }"

text \<open>The parameter \<open>buf\<close> is not stored.\<close>

definition write_normal_blob ::
    "spdk_blob_id \<Rightarrow> buffer option \<Rightarrow> u64 \<Rightarrow> u64 \<Rightarrow> 'c \<Rightarrow> 'c blob_io \<Rightarrow> 'c blob_io" where
  "write_normal_blob bid buf off len cb st = (case malloc_fails st of
     (True, st) \<Rightarrow> call (Call_op cb (- ENOMEM)) st
   | (False, st) \<Rightarrow>
       let x = (new_args st cb)\<lparr>blobid := bid, offset := off, io_length := len\<rparr>;
           (a, st) = alloc_args x st
       in post (C_open_blob (blobid x)) (Wnb_open_complete a) st)"

section \<open>Reading\<close>

subsection \<open>The super blob\<close>

definition rsb_read_complete :: "args_ptr \<Rightarrow> int \<Rightarrow> 'c blob_io \<Rightarrow> 'c blob_io option" where
  "rsb_read_complete a bserrno st = do {
     x \<leftarrow> args_heap st a;
     if bserrno \<noteq> 0 then Some (fail_args a x bserrno st)
     else
       let st = free_channel_if (channel x) st;
           st = post (C_close (blob x)) (Io_client (cb_fn x)) st
       in Some (free_args a st) }"

definition rsb_open_complete :: "args_ptr \<Rightarrow> spdk_blob \<Rightarrow> int \<Rightarrow> 'c blob_io \<Rightarrow> 'c blob_io option" where
  "rsb_open_complete a blb bserrno st = do {
     x \<leftarrow> args_heap st a;
     if bserrno \<noteq> 0 then Some (fail_args a x bserrno st)
     else
       let x = x\<lparr>blob := blb\<rparr>;
           (chan, st) = spdk_bs_alloc_io_channel st;
           x = x\<lparr>channel := chan\<rparr>;
           st = set_args a x st
       in case chan of
         None \<Rightarrow> Some (fail_args a x (- ENOMEM) st)
       | Some ch \<Rightarrow> Some (post (C_io_read blb ch (payload x) (offset x) (io_length x))
                             (Rsb_read_complete a) st) }"

definition rsb_super_blobid_got :: "args_ptr \<Rightarrow> spdk_blob_id \<Rightarrow> int \<Rightarrow> 'c blob_io \<Rightarrow> 'c blob_io option" where
  "rsb_super_blobid_got a bid bserrno st = do {
     x \<leftarrow> args_heap st a;
     if bserrno \<noteq> 0 then Some (fail_args a x bserrno st)
     else Some (post (C_open_blob bid) (Rsb_open_complete a) (set_args a (x\<lparr>blobid := bid\<rparr>) st)) }"

definition read_super_blob :: "buffer option \<Rightarrow> u64 \<Rightarrow> u64 \<Rightarrow> 'c \<Rightarrow> 'c blob_io \<Rightarrow> 'c blob_io" where
  "read_super_blob buf off len cb st = (case malloc_fails st of
     (True, st) \<Rightarrow> call (Call_op cb (- ENOMEM)) st
   | (False, st) \<Rightarrow>
       let x = (new_args st cb)\<lparr>payload := buf, offset := off, io_length := len\<rparr>;
           (a, st) = alloc_args x st
       in post C_get_super (Rsb_super_blobid_got a) st)"

subsection \<open>Another blob\<close>

definition rnb_read_complete :: "args_ptr \<Rightarrow> int \<Rightarrow> 'c blob_io \<Rightarrow> 'c blob_io option" where
  "rnb_read_complete a bserrno st = do {
     x \<leftarrow> args_heap st a;
     if bserrno \<noteq> 0 then Some (fail_args a x bserrno st)
     else
       let st = free_channel_if (channel x) st;
           st = post (C_close (blob x)) (Io_client (cb_fn x)) st
       in Some (free_args a st) }"

definition rnb_open_complete :: "args_ptr \<Rightarrow> spdk_blob \<Rightarrow> int \<Rightarrow> 'c blob_io \<Rightarrow> 'c blob_io option" where
  "rnb_open_complete a blb bserrno st = do {
     x \<leftarrow> args_heap st a;
     if bserrno \<noteq> 0 then Some (fail_args a x bserrno st)
     else
       let x = x\<lparr>blob := blb\<rparr>;
           (chan, st) = spdk_bs_alloc_io_channel st;
           x = x\<lparr>channel := chan\<rparr>;
           st = set_args a x st
       in case chan of
         None \<Rightarrow> Some (fail_args a x (- ENOMEM) st)
       | Some ch \<Rightarrow> Some (post (C_io_read blb ch (payload x) (offset x) (io_length x))
                             (Rnb_read_complete a) st) }"

text \<open>The parameter \<open>bid\<close> is not stored; the blob that is opened is the one whose id the new
  struct happens to hold.\<close>

definition read_normal_blob ::
    "spdk_blob_id \<Rightarrow> buffer option \<Rightarrow> u64 \<Rightarrow> u64 \<Rightarrow> 'c \<Rightarrow> 'c blob_io \<Rightarrow> 'c blob_io" where
  "read_normal_blob bid buf off len cb st = (case malloc_fails st of
     (True, st) \<Rightarrow> call (Call_op cb (- ENOMEM)) st
   | (False, st) \<Rightarrow>
       let x = (new_args st cb)\<lparr>payload := buf, offset := off, io_length := len\<rparr>;
           (a, st) = alloc_args x st
       in post (C_open_blob (blobid x)) (Rnb_open_complete a) st)"

section \<open>Creating and checking the super blob\<close>

definition csb_super_blob_set :: "args_ptr \<Rightarrow> int \<Rightarrow> 'c blob_io \<Rightarrow> 'c blob_io option" where
  "csb_super_blob_set a bserrno st = do {
     x \<leftarrow> csb_heap st a;
     let st = call (Call_id (csb_cb_fn x) (csb_blobid x) bserrno) st;
     Some (st\<lparr>csb_heap := (csb_heap st)(a := None)\<rparr>) }"

definition csb_super_blob_created :: "args_ptr \<Rightarrow> spdk_blob_id \<Rightarrow> int \<Rightarrow> 'c blob_io \<Rightarrow> 'c blob_io option" where
  "csb_super_blob_created a bid bserrno st = do {
     x \<leftarrow> csb_heap st a;
     if bserrno \<noteq> 0 then
       let st = call (Call_id (csb_cb_fn x) (csb_blobid x) bserrno) st
       in Some (st\<lparr>csb_heap := (csb_heap st)(a := None)\<rparr>)
     else
       let st = st\<lparr>csb_heap := (csb_heap st)(a \<mapsto> x\<lparr>csb_blobid := bid\<rparr>)\<rparr>
       in Some (post (C_set_super bid) (Csb_super_blob_set a) st) }"

definition create_super_blob :: "'c \<Rightarrow> 'c blob_io \<Rightarrow> 'c blob_io" where
  "create_super_blob cb st = (case malloc_fails st of
     (True, st) \<Rightarrow> call (Call_id cb 0 (- ENOMEM)) st
   | (False, st) \<Rightarrow>
       let a = next_args st;
           st = st\<lparr>csb_heap := (csb_heap st)(a \<mapsto> \<lparr>csb_blobid = garbage_blobid st, csb_cb_fn = cb\<rparr>),
                   next_args := a + 1\<rparr>
       in post C_create_blob (Csb_super_blob_created a) st)"

definition chsb_super_blobid_got :: "nat \<Rightarrow> spdk_blob_id \<Rightarrow> int \<Rightarrow> 'c blob_io \<Rightarrow> 'c blob_io option" where
  "chsb_super_blobid_got flag bid bserrno st =
     Some (st\<lparr>flags := (flags st)(flag :=
       if bserrno = - ENOENT then 0 else if bserrno \<noteq> 0 then - 1 else 1)\<rparr>)"

definition check_super_blob :: "nat \<Rightarrow> 'c blob_io \<Rightarrow> 'c blob_io" where
  "check_super_blob flag st = post C_get_super (Chsb_super_blobid_got flag) st"

section \<open>Completion of calls\<close>

text \<open>The callback a completion runs.  The kind of a result is that of its callback
  (\<open>reply_fits\<close>); the callbacks of the client take any.\<close>

definition run_op_cb :: "'c io_cb \<Rightarrow> int \<Rightarrow> 'c blob_io \<Rightarrow> 'c blob_io option" where
  "run_op_cb cb e st = (case cb of
     Wsb_resize_complete a \<Rightarrow> wsb_resize_complete a e st
   | Wsb_sync_complete a \<Rightarrow> wsb_sync_complete a e st
   | Wsb_write_complete a \<Rightarrow> wsb_write_complete a e st
   | Wnb_resize_complete a \<Rightarrow> wnb_resize_complete a e st
   | Wnb_sync_complete a \<Rightarrow> wnb_sync_complete a e st
   | Wnb_write_complete a \<Rightarrow> wnb_write_complete a e st
   | Rsb_read_complete a \<Rightarrow> rsb_read_complete a e st
   | Rnb_read_complete a \<Rightarrow> rnb_read_complete a e st
   | Csb_super_blob_set a \<Rightarrow> csb_super_blob_set a e st
   | Io_client c \<Rightarrow> Some (call (Call_op c e) st)
   | _ \<Rightarrow> None)"

definition run_id_cb :: "'c io_cb \<Rightarrow> spdk_blob_id \<Rightarrow> int \<Rightarrow> 'c blob_io \<Rightarrow> 'c blob_io option" where
  "run_id_cb cb b e st = (case cb of
     Wsb_super_blobid_got a \<Rightarrow> wsb_super_blobid_got a b e st
   | Rsb_super_blobid_got a \<Rightarrow> rsb_super_blobid_got a b e st
   | Csb_super_blob_created a \<Rightarrow> csb_super_blob_created a b e st
   | Chsb_super_blobid_got f \<Rightarrow> chsb_super_blobid_got f b e st
   | Io_client c \<Rightarrow> Some (call (Call_id c b e) st)
   | _ \<Rightarrow> None)"

definition run_handle_cb :: "'c io_cb \<Rightarrow> spdk_blob \<Rightarrow> int \<Rightarrow> 'c blob_io \<Rightarrow> 'c blob_io option" where
  "run_handle_cb cb b e st = (case cb of
     Wsb_open_complete a \<Rightarrow> wsb_open_complete a b e st
   | Wnb_open_complete a \<Rightarrow> wnb_open_complete a b e st
   | Rsb_open_complete a \<Rightarrow> rsb_open_complete a b e st
   | Rnb_open_complete a \<Rightarrow> rnb_open_complete a b e st
   | Io_client c \<Rightarrow> Some (call (Call_handle c b e) st)
   | _ \<Rightarrow> None)"

fun run_cb :: "'c io_cb \<Rightarrow> bs_reply \<Rightarrow> 'c blob_io \<Rightarrow> 'c blob_io option" where
  "run_cb cb (R_op e) st = run_op_cb cb e st"
| "run_cb cb (R_id b e) st = run_id_cb cb b e st"
| "run_cb cb (R_handle b e) st = run_handle_cb cb b e st"

fun reply_fits :: "'c io_cb \<Rightarrow> bs_reply \<Rightarrow> bool" where
  "reply_fits cb (R_op e) \<longleftrightarrow> (case cb of
     Wsb_resize_complete a \<Rightarrow> True | Wsb_sync_complete a \<Rightarrow> True | Wsb_write_complete a \<Rightarrow> True
   | Wnb_resize_complete a \<Rightarrow> True | Wnb_sync_complete a \<Rightarrow> True | Wnb_write_complete a \<Rightarrow> True
   | Rsb_read_complete a \<Rightarrow> True | Rnb_read_complete a \<Rightarrow> True
   | Csb_super_blob_set a \<Rightarrow> True | Io_client c \<Rightarrow> True | _ \<Rightarrow> False)"
| "reply_fits cb (R_id b e) \<longleftrightarrow> (case cb of
     Wsb_super_blobid_got a \<Rightarrow> True | Rsb_super_blobid_got a \<Rightarrow> True
   | Csb_super_blob_created a \<Rightarrow> True | Chsb_super_blobid_got f \<Rightarrow> True
   | Io_client c \<Rightarrow> True | _ \<Rightarrow> False)"
| "reply_fits cb (R_handle b e) \<longleftrightarrow> (case cb of
     Wsb_open_complete a \<Rightarrow> True | Wnb_open_complete a \<Rightarrow> True
   | Rsb_open_complete a \<Rightarrow> True | Rnb_open_complete a \<Rightarrow> True
   | Io_client c \<Rightarrow> True | _ \<Rightarrow> False)"

definition drop_nth :: "nat \<Rightarrow> 'a list \<Rightarrow> 'a list" where
  "drop_nth i xs = take i xs @ drop (Suc i) xs"

definition complete_call :: "nat \<Rightarrow> bs_reply \<Rightarrow> 'c blob_io \<Rightarrow> 'c blob_io option" where
  "complete_call i r st = do {
     (c, cb) \<leftarrow> arr_get (pending st) i;
     run_cb cb r (st\<lparr>pending := drop_nth i (pending st)\<rparr>) }"

end
