(* ===== verification/Blob_IO_Safety.thy ===== *)
theory Blob_IO_Safety
  imports Blob_IO "HOL-Library.Multiset"
begin

text \<open>
  Every blob operation of NBFS2 ends, answers its client exactly once and frees its struct.

  A pending call owns the struct its callback is given.  \<open>effect\<close> describes what a callback may
  do with it: pass it on to one more call that is nearer to the end of its chain, or give it up
  and answer.  All callbacks are shown to behave so; what follows for every interleaving of
  operations and completions is proved from \<open>effect\<close> alone.
\<close>

section \<open>Ownership\<close>

text \<open>The struct of a callback: its kind (\<open>True\<close> for \<open>_create_super_blob_args\<close>) and address.\<close>

primrec owns :: "'c io_cb \<Rightarrow> (bool \<times> args_ptr) option" where
  "owns (Wsb_super_blobid_got a) = Some (False, a)"
| "owns (Wsb_open_complete a) = Some (False, a)"
| "owns (Wsb_resize_complete a) = Some (False, a)"
| "owns (Wsb_sync_complete a) = Some (False, a)"
| "owns (Wsb_write_complete a) = Some (False, a)"
| "owns (Wnb_open_complete a) = Some (False, a)"
| "owns (Wnb_resize_complete a) = Some (False, a)"
| "owns (Wnb_sync_complete a) = Some (False, a)"
| "owns (Wnb_write_complete a) = Some (False, a)"
| "owns (Rsb_super_blobid_got a) = Some (False, a)"
| "owns (Rsb_open_complete a) = Some (False, a)"
| "owns (Rsb_read_complete a) = Some (False, a)"
| "owns (Rnb_open_complete a) = Some (False, a)"
| "owns (Rnb_read_complete a) = Some (False, a)"
| "owns (Csb_super_blob_created a) = Some (True, a)"
| "owns (Csb_super_blob_set a) = Some (True, a)"
| "owns (Chsb_super_blobid_got f) = None"
| "owns (Io_client c) = None"

text \<open>How many completions the chain of a callback needs at most.\<close>

primrec rank :: "'c io_cb \<Rightarrow> nat" where
  "rank (Wsb_super_blobid_got a) = 6"
| "rank (Wsb_open_complete a) = 5"
| "rank (Wsb_resize_complete a) = 4"
| "rank (Wsb_sync_complete a) = 3"
| "rank (Wsb_write_complete a) = 2"
| "rank (Wnb_open_complete a) = 5"
| "rank (Wnb_resize_complete a) = 4"
| "rank (Wnb_sync_complete a) = 3"
| "rank (Wnb_write_complete a) = 2"
| "rank (Rsb_super_blobid_got a) = 4"
| "rank (Rsb_open_complete a) = 3"
| "rank (Rsb_read_complete a) = 2"
| "rank (Rnb_open_complete a) = 3"
| "rank (Rnb_read_complete a) = 2"
| "rank (Csb_super_blob_created a) = 2"
| "rank (Csb_super_blob_set a) = 1"
| "rank (Chsb_super_blobid_got f) = 1"
| "rank (Io_client c) = 1"

primrec needs_channel :: "'c io_cb \<Rightarrow> bool" where
  "needs_channel (Wsb_super_blobid_got a) \<longleftrightarrow> False"
| "needs_channel (Wsb_open_complete a) \<longleftrightarrow> False"
| "needs_channel (Wsb_resize_complete a) \<longleftrightarrow> True"
| "needs_channel (Wsb_sync_complete a) \<longleftrightarrow> True"
| "needs_channel (Wsb_write_complete a) \<longleftrightarrow> False"
| "needs_channel (Wnb_open_complete a) \<longleftrightarrow> False"
| "needs_channel (Wnb_resize_complete a) \<longleftrightarrow> True"
| "needs_channel (Wnb_sync_complete a) \<longleftrightarrow> True"
| "needs_channel (Wnb_write_complete a) \<longleftrightarrow> False"
| "needs_channel (Rsb_super_blobid_got a) \<longleftrightarrow> False"
| "needs_channel (Rsb_open_complete a) \<longleftrightarrow> False"
| "needs_channel (Rsb_read_complete a) \<longleftrightarrow> False"
| "needs_channel (Rnb_open_complete a) \<longleftrightarrow> False"
| "needs_channel (Rnb_read_complete a) \<longleftrightarrow> False"
| "needs_channel (Csb_super_blob_created a) \<longleftrightarrow> False"
| "needs_channel (Csb_super_blob_set a) \<longleftrightarrow> False"
| "needs_channel (Chsb_super_blobid_got f) \<longleftrightarrow> False"
| "needs_channel (Io_client c) \<longleftrightarrow> False"

definition live :: "'c blob_io \<Rightarrow> 'c io_cb \<Rightarrow> bool" where
  "live st cb \<longleftrightarrow> (case owns cb of None \<Rightarrow> True
     | Some (False, a) \<Rightarrow> (\<exists>x. args_heap st a = Some x \<and> cluster_size x \<noteq> 0 \<and>
         (needs_channel cb \<longrightarrow> channel x \<noteq> None))
     | Some (True, a) \<Rightarrow> csb_heap st a \<noteq> None)"

text \<open>The client's callbacks a pending call will still lead to.\<close>

definition owed :: "'c blob_io \<Rightarrow> 'c io_cb \<Rightarrow> 'c list" where
  "owed st cb = (case owns cb of
     None \<Rightarrow> (case cb of Io_client c \<Rightarrow> [c] | _ \<Rightarrow> [])
   | Some (False, a) \<Rightarrow> (case args_heap st a of None \<Rightarrow> [] | Some x \<Rightarrow> [cb_fn x])
   | Some (True, a) \<Rightarrow> (case csb_heap st a of None \<Rightarrow> [] | Some x \<Rightarrow> [csb_cb_fn x]))"

fun callback :: "'c client_call \<Rightarrow> 'c" where
  "callback (Call_op c e) = c"
| "callback (Call_id c b e) = c"
| "callback (Call_handle c b e) = c"

section \<open>The effect of a callback\<close>

definition effect :: "'c blob_io \<Rightarrow> 'c io_cb \<Rightarrow> 'c blob_io \<Rightarrow> bool" where
  "effect st cb st' \<longleftrightarrow> next_args st' = next_args st \<and> bs_cluster_size st' = bs_cluster_size st \<and>
     (\<forall>k a. Some (k, a) \<noteq> owns cb \<longrightarrow>
        (if k then csb_heap st' a = csb_heap st a else args_heap st' a = args_heap st a)) \<and>
     ((\<exists>c cb'. pending st' = pending st @ [(c, cb')] \<and> calls st' = calls st \<and> owns cb' = owns cb \<and>
         live st' cb' \<and> owed st' cb' = owed st cb \<and> rank cb' < rank cb) \<or>
      (\<forall>k a. owns cb = Some (k, a) \<longrightarrow> (if k then csb_heap st' a = None else args_heap st' a = None)) \<and>
      ((\<exists>c d. pending st' = pending st @ [(c, Io_client d)] \<and> calls st' = calls st \<and>
          owed st cb = [d] \<and> 1 < rank cb) \<or>
       (pending st' = pending st \<and> (\<exists>ds. calls st' = calls st @ ds \<and> owed st cb = map callback ds))))"

lemmas io_prims = post_def call_def set_args_def free_args_def fail_args_def free_channel_if_def
  spdk_bs_free_io_channel_def Let_def

definition io_view :: "'c blob_io \<Rightarrow> _" where
  "io_view st = (args_heap st, csb_heap st, next_args st, bs_cluster_size st, pending st, calls st)"

lemma owed_same: "io_view st = io_view st1 \<Longrightarrow> owed st cb = owed st1 cb"
  by (auto simp: owed_def io_view_def split: option.splits)

lemma effect_same: "io_view st = io_view st1 \<Longrightarrow> effect st cb st' = effect st1 cb st'"
  using owed_same [of st st1 cb] by (simp add: effect_def io_view_def)

lemma alloc_channel_view: "spdk_bs_alloc_io_channel st = (chan, st') \<Longrightarrow> io_view st' = io_view st"
  by (auto simp: spdk_bs_alloc_io_channel_def io_view_def split: list.splits bool.splits)

lemma effect_fail:
  "owns cb = Some (False, a) \<Longrightarrow> args_heap st a = Some x \<Longrightarrow> cb_fn x' = cb_fn x \<Longrightarrow>
   effect st cb (fail_args a x' e st)"
  by (auto simp: effect_def owed_def io_prims intro!: exI [of _ "[Call_op (cb_fn x) e]"])

lemma effect_done:
  "owns cb = Some (False, a) \<Longrightarrow> args_heap st a = Some x \<Longrightarrow> 1 < rank cb \<Longrightarrow>
   effect st cb (free_args a (post c (Io_client (cb_fn x)) (free_channel_if ch st)))"
  by (auto simp: effect_def owed_def io_prims split: option.splits)

lemma effect_pass:
  "owns cb = Some (False, a) \<Longrightarrow> args_heap st a = Some x \<Longrightarrow> cb_fn x' = cb_fn x \<Longrightarrow>
   cluster_size x' \<noteq> 0 \<Longrightarrow> (needs_channel cb' \<Longrightarrow> channel x' \<noteq> None) \<Longrightarrow>
   owns cb' = Some (False, a) \<Longrightarrow> rank cb' < rank cb \<Longrightarrow>
   effect st cb (post c cb' (set_args a x' st))"
  by (auto simp: effect_def owed_def live_def io_prims)

lemma effect_pass_same:
  "owns cb = Some (False, a) \<Longrightarrow> args_heap st a = Some x \<Longrightarrow>
   cluster_size x \<noteq> 0 \<Longrightarrow> (needs_channel cb' \<Longrightarrow> channel x \<noteq> None) \<Longrightarrow>
   owns cb' = Some (False, a) \<Longrightarrow> rank cb' < rank cb \<Longrightarrow> effect st cb (post c cb' st)"
  by (auto simp: effect_def owed_def live_def io_prims)

lemma live_io: "live st cb \<Longrightarrow> owns cb = Some (False, a) \<Longrightarrow>
   \<exists>x. args_heap st a = Some x \<and> cluster_size x \<noteq> 0 \<and> (needs_channel cb \<longrightarrow> channel x \<noteq> None)"
  by (simp add: live_def)

lemma live_csb: "live st cb \<Longrightarrow> owns cb = Some (True, a) \<Longrightarrow> \<exists>x. csb_heap st a = Some x"
  by (auto simp: live_def)

text \<open>The callbacks with the result of an operation.\<close>

lemma effect_write_complete:
  assumes "live st cb" "owns cb = Some (False, a)" "1 < rank cb"
  shows "\<exists>st'. wsb_write_complete a e st = Some st' \<and> effect st cb st'"
    and "\<exists>st'. wnb_write_complete a e st = Some st' \<and> effect st cb st'"
    and "\<exists>st'. rsb_read_complete a e st = Some st' \<and> effect st cb st'"
    and "\<exists>st'. rnb_read_complete a e st = Some st' \<and> effect st cb st'"
  using live_io [OF assms(1,2)] effect_fail [OF assms(2)] effect_done [OF assms(2) _ assms(3)]
  by (auto simp: wsb_write_complete_def wnb_write_complete_def rsb_read_complete_def
      rnb_read_complete_def Let_def)

lemma run_op_effect:
  assumes "live st cb" "reply_fits cb (R_op e)"
  shows "\<exists>st'. run_op_cb cb e st = Some st' \<and> effect st cb st'"
proof (cases cb)
  case (Wsb_resize_complete a)
  with live_io [OF assms(1), of a] show ?thesis
    by (auto simp: run_op_cb_def wsb_resize_complete_def intro!: effect_fail effect_pass_same)
next
  case (Wnb_resize_complete a)
  with live_io [OF assms(1), of a] show ?thesis
    by (auto simp: run_op_cb_def wnb_resize_complete_def intro!: effect_fail effect_pass_same)
next
  case (Wsb_sync_complete a)
  with live_io [OF assms(1), of a] show ?thesis
    by (auto simp: run_op_cb_def wsb_sync_complete_def intro!: effect_fail effect_pass_same)
next
  case (Wnb_sync_complete a)
  with live_io [OF assms(1), of a] show ?thesis
    by (auto simp: run_op_cb_def wnb_sync_complete_def intro!: effect_fail effect_pass_same)
next
  case (Csb_super_blob_set a)
  with live_csb [OF assms(1), of a] show ?thesis
    by (auto simp: run_op_cb_def csb_super_blob_set_def effect_def owed_def io_prims
        intro!: exI [of _ "[Call_id b i e]" for b i])
next
  case (Io_client c)
  then show ?thesis
    by (auto simp: run_op_cb_def effect_def owed_def io_prims intro!: exI [of _ "[Call_op c e]"])
qed (use assms effect_write_complete [OF assms(1)] in \<open>simp_all add: run_op_cb_def\<close>)

text \<open>The callbacks with a blob id.\<close>

lemma run_id_effect:
  assumes "live st cb" "reply_fits cb (R_id b e)"
  shows "\<exists>st'. run_id_cb cb b e st = Some st' \<and> effect st cb st'"
proof (cases cb)
  case (Wsb_super_blobid_got a)
  with live_io [OF assms(1), of a] show ?thesis
    by (auto simp: run_id_cb_def wsb_super_blobid_got_def intro!: effect_fail effect_pass)
next
  case (Rsb_super_blobid_got a)
  with live_io [OF assms(1), of a] show ?thesis
    by (auto simp: run_id_cb_def rsb_super_blobid_got_def intro!: effect_fail effect_pass)
next
  case (Csb_super_blob_created a)
  then obtain x where x: "csb_heap st a = Some x"
    using live_csb [OF assms(1), of a] by auto
  have "\<exists>ds. calls st @ [Call_id (csb_cb_fn x) (csb_blobid x) e] = calls st @ ds \<and> [csb_cb_fn x] = map callback ds"
    by (intro exI [of _ "[Call_id (csb_cb_fn x) (csb_blobid x) e]"]) simp
  with Csb_super_blob_created x show ?thesis
    by (auto simp: run_id_cb_def csb_super_blob_created_def effect_def owed_def live_def io_prims)
next
  case (Io_client c)
  then show ?thesis
    by (auto simp: run_id_cb_def effect_def owed_def io_prims intro!: exI [of _ "[Call_id c b e]"])
qed (use assms in \<open>simp_all add: run_id_cb_def chsb_super_blobid_got_def effect_def owed_def\<close>)

text \<open>The callbacks with a blob.\<close>

lemma effect_open_complete:
  assumes L: "live st cb" and a: "owns cb = Some (False, a)"
  shows "5 \<le> rank cb \<Longrightarrow> \<exists>st'. wsb_open_complete a b e st = Some st' \<and> effect st cb st'"
    and "5 \<le> rank cb \<Longrightarrow> \<exists>st'. wnb_open_complete a b e st = Some st' \<and> effect st cb st'"
    and "3 \<le> rank cb \<Longrightarrow> \<exists>st'. rsb_open_complete a b e st = Some st' \<and> effect st cb st'"
    and "3 \<le> rank cb \<Longrightarrow> \<exists>st'. rnb_open_complete a b e st = Some st' \<and> effect st cb st'"
proof -
  obtain x where x: "args_heap st a = Some x" "cluster_size x \<noteq> 0" using live_io [OF L a] by blast
  obtain chan st1 where ch: "spdk_bs_alloc_io_channel st = (chan, st1)" by force
  let ?x = "x\<lparr>blob := b, channel := chan\<rparr>"
  have v: "io_view st = io_view st1" using alloc_channel_view [OF ch] by simp
  then have x1: "args_heap st1 a = Some x" using x by (simp add: io_view_def)
  have pass: "effect st cb (post c cb' (set_args a ?x st1))"
    if "owns cb' = Some (False, a)" "rank cb' < rank cb" "chan \<noteq> None" for c cb'
    unfolding effect_same [OF v] using effect_pass [OF a x1, of ?x] x that by simp
  have fail: "effect st cb (fail_args a ?x e' (set_args a ?x st1))" for e'
    unfolding effect_same [OF v] using effect_fail [OF a x1, of ?x e']
    by (simp add: fail_args_def free_args_def set_args_def call_def)
  note fail0 = effect_fail [OF a x(1) refl]
  note open_defs = x ch Let_def oassert_def
  show "5 \<le> rank cb \<Longrightarrow> \<exists>st'. wsb_open_complete a b e st = Some st' \<and> effect st cb st'"
    using pass fail by (cases chan) (auto simp: wsb_open_complete_def open_defs intro!: fail0)
  show "5 \<le> rank cb \<Longrightarrow> \<exists>st'. wnb_open_complete a b e st = Some st' \<and> effect st cb st'"
    using pass fail by (cases chan) (auto simp: wnb_open_complete_def open_defs intro!: fail0)
  show "3 \<le> rank cb \<Longrightarrow> \<exists>st'. rsb_open_complete a b e st = Some st' \<and> effect st cb st'"
    using pass fail by (cases chan) (auto simp: rsb_open_complete_def open_defs intro!: fail0)
  show "3 \<le> rank cb \<Longrightarrow> \<exists>st'. rnb_open_complete a b e st = Some st' \<and> effect st cb st'"
    using pass fail by (cases chan) (auto simp: rnb_open_complete_def open_defs intro!: fail0)
qed

lemma run_handle_effect:
  assumes "live st cb" "reply_fits cb (R_handle b e)"
  shows "\<exists>st'. run_handle_cb cb b e st = Some st' \<and> effect st cb st'"
proof (cases cb)
  case (Io_client c)
  then show ?thesis
    by (auto simp: run_handle_cb_def effect_def owed_def io_prims intro!: exI [of _ "[Call_handle c b e]"])
qed (use assms effect_open_complete [OF assms(1)] in \<open>simp_all add: run_handle_cb_def\<close>)

lemma run_cb_effect:
  "live st cb \<Longrightarrow> reply_fits cb r \<Longrightarrow> \<exists>st'. run_cb cb r st = Some st' \<and> effect st cb st'"
  by (cases r) (simp_all only: run_cb.simps run_op_effect run_id_effect run_handle_effect)

section \<open>The invariant\<close>

definition owned :: "'c io_cb \<Rightarrow> (bool \<times> args_ptr) list" where
  "owned cb = (case owns cb of None \<Rightarrow> [] | Some p \<Rightarrow> [p])"

definition owners :: "(blob_call \<times> 'c io_cb) list \<Rightarrow> (bool \<times> args_ptr) list" where
  "owners ps = concat (map (\<lambda>p. owned (snd p)) ps)"

text \<open>Each struct has exactly one pending call, and the call finds it as it needs it.\<close>

definition io_ok :: "'c blob_io \<Rightarrow> bool" where
  "io_ok st \<longleftrightarrow> distinct (owners (pending st)) \<and> (\<forall>p \<in> set (pending st). live st (snd p)) \<and>
     (\<forall>a. args_heap st a \<noteq> None \<longrightarrow> (False, a) \<in> set (owners (pending st))) \<and>
     (\<forall>a. csb_heap st a \<noteq> None \<longrightarrow> (True, a) \<in> set (owners (pending st))) \<and>
     (\<forall>p \<in> set (owners (pending st)). snd p < next_args st) \<and> bs_cluster_size st \<noteq> 0"

definition owed_all :: "'c blob_io \<Rightarrow> 'c list" where
  "owed_all st = concat (map (\<lambda>p. owed st (snd p)) (pending st))"

definition work :: "'c blob_io \<Rightarrow> nat" where
  "work st = (\<Sum>p\<leftarrow>pending st. rank (snd p))"

lemma owners_simps [simp]:
  "owners [] = []" "owners (p # ps) = owned (snd p) @ owners ps" "owners (ps @ qs) = owners ps @ owners qs"
  by (simp_all add: owners_def)

lemma owned_simps [simp]: "owns cb = None \<Longrightarrow> owned cb = []" "owns cb = Some p \<Longrightarrow> owned cb = [p]"
  by (simp_all add: owned_def)

lemma in_owners: "p \<in> set ps \<Longrightarrow> set (owned (snd p)) \<subseteq> set (owners ps)"
  by (auto simp: owners_def)

lemma owned_cong: "owns cb' = owns cb \<Longrightarrow> owned cb' = owned cb"
  by (simp add: owned_def)

text \<open>A completion leaves the structs of the other calls alone.\<close>

lemma effect_frame:
  "effect st cb st' \<Longrightarrow> Some (k, a) \<noteq> owns cb \<Longrightarrow>
   (if k then csb_heap st' a = csb_heap st a else args_heap st' a = args_heap st a)"
  unfolding effect_def by blast

lemma same_owned:
  assumes "\<And>k a. owns q = Some (k, a) \<Longrightarrow>
    (if k then csb_heap st' a = csb_heap st a else args_heap st' a = args_heap st a)"
  shows "live st' q = live st q" and "owed st' q = owed st q"
  using assms by (cases "owns q"; force simp: live_def owed_def split: bool.splits)+

lemma effect_others:
  assumes "effect st cb st'" and "set (owned q) \<inter> set (owned cb) = {}"
  shows "live st' q = live st q" and "owed st' q = owed st q"
proof -
  have *: "if k then csb_heap st' a = csb_heap st a else args_heap st' a = args_heap st a"
    if "owns q = Some (k, a)" for k a
  proof (rule effect_frame [OF assms(1)])
    show "Some (k, a) \<noteq> owns cb" using assms(2) that by (cases "owns cb") auto
  qed
  show "live st' q = live st q" "owed st' q = owed st q"
    using same_owned [OF *] by simp_all
qed

lemma drop_nth_split:
  assumes "i < length xs"
  obtains ys zs where "xs = ys @ xs ! i # zs" "drop_nth i xs = ys @ zs"
  using id_take_nth_drop [OF assms] by (simp add: drop_nth_def)

lemma heap_freed:
  assumes "effect st cb st'" "pending st = ps" "pending st' = ps @ qs" "set (owners qs) = {} \<or> set (owners qs) = set (owned cb)"
    and "\<And>a. args_heap st a \<noteq> None \<Longrightarrow> (False, a) \<in> set (owners ps) \<union> set (owned cb)"
    and "\<And>a. csb_heap st a \<noteq> None \<Longrightarrow> (True, a) \<in> set (owners ps) \<union> set (owned cb)"
    and "set (owners qs) = {} \<Longrightarrow> \<forall>k a. owns cb = Some (k, a) \<longrightarrow> (if k then csb_heap st' a = None else args_heap st' a = None)"
  shows "(\<forall>a. args_heap st' a \<noteq> None \<longrightarrow> (False, a) \<in> set (owners (pending st'))) \<and>
    (\<forall>a. csb_heap st' a \<noteq> None \<longrightarrow> (True, a) \<in> set (owners (pending st')))"
proof -
  have "(k, a) \<in> set (owners (pending st'))"
    if "if k then csb_heap st' a \<noteq> None else args_heap st' a \<noteq> None" for k a
  proof (cases "owns cb = Some (k, a)")
    case True
    with assms(4,7) that show ?thesis by (auto simp: assms(3) split: if_splits)
  next
    case False
    then have "(k, a) \<notin> set (owned cb)" by (cases "owns cb") auto
    with effect_frame [OF assms(1), of k a] False that assms(5,6) [of a] show ?thesis by (cases k) (auto simp: assms(3))
  qed
  from this [of False] this [of True] show ?thesis by simp
qed

lemma same_heaps:
  assumes "args_heap st' = args_heap st" "csb_heap st' = csb_heap st"
  shows "live st' cb = live st cb" and "owed st' cb = owed st cb"
  using assms by (auto simp: live_def owed_def split: option.splits bool.splits)

lemma live_pending [simp]: "live (st\<lparr>pending := ps\<rparr>) cb = live st cb"
    "live (st\<lparr>calls := ds\<rparr>) cb = live st cb"
  and owed_pending [simp]: "owed (st\<lparr>pending := ps\<rparr>) cb = owed st cb"
    "owed (st\<lparr>calls := ds\<rparr>) cb = owed st cb"
  by (rule same_heaps; simp)+

lemma rank_pos: "0 < rank cb"
  by (cases cb) simp_all

text \<open>The three ways a callback ends, as the calls \<open>qs\<close> it leaves and the callbacks \<open>ds\<close> it answers.\<close>

lemma effect_cases:
  assumes "effect st cb st'"
  obtains qs ds where "pending st' = pending st @ qs" "calls st' = calls st @ ds"
    "mset (concat (map (\<lambda>p. owed st' (snd p)) qs)) + mset (map callback ds) = mset (owed st cb)"
    "(\<Sum>p\<leftarrow>qs. rank (snd p)) < rank cb" "\<forall>p \<in> set qs. live st' (snd p)" "length qs \<le> 1"
    "owners qs = [] \<and> (\<forall>k a. owns cb = Some (k, a) \<longrightarrow> (if k then csb_heap st' a = None else args_heap st' a = None))
      \<or> owners qs = owned cb"
proof -
  from assms [unfolded effect_def] show thesis
  proof (elim conjE disjE exE)
    fix c cb' assume e: "pending st' = pending st @ [(c, cb')]" "calls st' = calls st" "owns cb' = owns cb"
      "live st' cb'" "owed st' cb' = owed st cb" "rank cb' < rank cb"
    show ?thesis
    proof (rule that [of "[(c, cb')]" "[]"])
      show "owners [(c, cb')] = [] \<and> (\<forall>k a. owns cb = Some (k, a) \<longrightarrow>
          (if k then csb_heap st' a = None else args_heap st' a = None)) \<or> owners [(c, cb')] = owned cb"
        by (rule disjI2) (simp add: owned_cong [OF e(3)])
    qed (simp_all only: e list.map concat.simps snd_conv append_Nil2 mset.simps, simp_all add: e(4,6))
  next
    fix c d assume e: "pending st' = pending st @ [(c, Io_client d)]" "calls st' = calls st"
        "owed st cb = [d]" "1 < rank cb"
      and f: "\<forall>k a. owns cb = Some (k, a) \<longrightarrow> (if k then csb_heap st' a = None else args_heap st' a = None)"
    show ?thesis
    proof (rule that [of "[(c, Io_client d)]" "[]"])
      show "owners [(c, Io_client d)] = [] \<and> (\<forall>k a. owns cb = Some (k, a) \<longrightarrow>
          (if k then csb_heap st' a = None else args_heap st' a = None)) \<or> owners [(c, Io_client d)] = owned cb"
        by (intro disjI1 conjI f) simp
    qed (use e in \<open>simp_all add: live_def owed_def\<close>)
  next
    fix ds assume e: "pending st' = pending st" "calls st' = calls st @ ds" "owed st cb = map callback ds"
      and f: "\<forall>k a. owns cb = Some (k, a) \<longrightarrow> (if k then csb_heap st' a = None else args_heap st' a = None)"
    show ?thesis
    proof (rule that [of "[]" ds])
      show "owners [] = [] \<and> (\<forall>k a. owns cb = Some (k, a) \<longrightarrow>
          (if k then csb_heap st' a = None else args_heap st' a = None)) \<or> owners [] = owned cb"
        by (intro disjI1 conjI f) simp
    qed (use e rank_pos in simp_all)
  qed
qed

lemma complete_ok:
  assumes ok: "io_ok st" and i: "i < length (pending st)" and r: "reply_fits (snd (pending st ! i)) r"
  shows "\<exists>st'. complete_call i r st = Some st' \<and> io_ok st' \<and> work st' < work st \<and>
    mset (owed_all st') + mset (map callback (calls st')) = mset (owed_all st) + mset (map callback (calls st))"
proof -
  obtain c cb where p: "pending st ! i = (c, cb)" by force
  obtain ys zs where ps: "pending st = ys @ (c, cb) # zs" "drop_nth i (pending st) = ys @ zs"
    using drop_nth_split [OF i] p by metis
  define st0 where "st0 = st\<lparr>pending := ys @ zs\<rparr>"
  have st0: "pending st0 = ys @ zs" "calls st0 = calls st" "owed st0 cb = owed st cb"
    by (simp_all add: st0_def)
  have lv: "live st0 cb" using ok ps by (simp add: io_ok_def st0_def)
  then obtain st' where run: "run_cb cb r st0 = Some st'" and eff: "effect st0 cb st'"
    using run_cb_effect [OF lv, of r] r p by auto
  have cmp: "complete_call i r st = Some st'"
    using run i p ps(2) by (simp add: complete_call_def st0_def arr_get_def)
  have dis: "set (owned cb) \<inter> set (owners (ys @ zs)) = {}" and dist0: "distinct (owners (ys @ zs))"
    using ok ps by (auto simp: io_ok_def)
  have dj: "set (owned (snd q)) \<inter> set (owned cb) = {}" if "q \<in> set (ys @ zs)" for q
    using in_owners [OF that] dis by blast
  have lv': "live st' (snd q)" and ow': "owed st' (snd q) = owed st (snd q)" if "q \<in> set (ys @ zs)" for q
    using effect_others [OF eff dj [OF that]] ok that ps by (auto simp: io_ok_def st0_def)
  obtain qs ds where q: "pending st' = (ys @ zs) @ qs" "calls st' = calls st @ ds"
    "mset (concat (map (\<lambda>p. owed st' (snd p)) qs)) + mset (map callback ds) = mset (owed st cb)"
    "(\<Sum>p\<leftarrow>qs. rank (snd p)) < rank cb" "\<forall>p \<in> set qs. live st' (snd p)" "length qs \<le> 1"
    and w: "owners qs = [] \<and> (\<forall>k a. owns cb = Some (k, a) \<longrightarrow> (if k then csb_heap st' a = None else args_heap st' a = None))
      \<or> owners qs = owned cb"
    by (rule effect_cases [OF eff, unfolded st0], rule that, assumption+)
  have heaps: "(\<forall>a. args_heap st' a \<noteq> None \<longrightarrow> (False, a) \<in> set (owners (pending st'))) \<and>
    (\<forall>a. csb_heap st' a \<noteq> None \<longrightarrow> (True, a) \<in> set (owners (pending st')))"
    by (rule heap_freed [OF eff _ q(1)]) (use w ok ps dis in \<open>auto simp: st0_def io_ok_def\<close>)
  have nx: "next_args st' = next_args st" "bs_cluster_size st' = bs_cluster_size st"
    using eff by (simp_all add: effect_def st0_def)
  have dist: "distinct (owners (pending st'))" "\<forall>p \<in> set (owners (pending st')). snd p < next_args st'"
  proof -
    have "owners qs = [] \<or> owners qs = owned cb" using w by blast
    moreover have "distinct (owned cb)" by (cases "owns cb") simp_all
    moreover have "\<forall>p \<in> set (owned cb) \<union> set (owners (ys @ zs)). snd p < next_args st"
      using ok ps by (auto simp: io_ok_def)
    ultimately show "distinct (owners (pending st'))" "\<forall>p \<in> set (owners (pending st')). snd p < next_args st'"
      using dist0 dis by (auto simp: q(1) nx)
  qed
  have "io_ok st'"
    unfolding io_ok_def using dist heaps nx ok lv' q(1,5) by (auto simp: io_ok_def)
  moreover have "work st' < work st" using q(4) by (simp add: work_def q(1) ps)
  moreover have "map (\<lambda>p. owed st' (snd p)) ys = map (\<lambda>p. owed st (snd p)) ys"
    "map (\<lambda>p. owed st' (snd p)) zs = map (\<lambda>p. owed st (snd p)) zs"
    using ow' by (auto intro!: map_cong)
  from arg_cong [OF this(1), of concat] arg_cong [OF this(2), of concat] have "mset (owed_all st') + mset (map callback (calls st')) = mset (owed_all st) + mset (map callback (calls st))"
    by (simp add: owed_all_def q(1,2) ps ac_simps flip: q(3))
  ultimately show ?thesis using cmp by blast
qed

section \<open>Every interleaving\<close>

text \<open>The states reachable by operations of the clients (whose callbacks are listed), completions of
  pending calls in any order, and changes of what the blobstore's accessors answer.\<close>

inductive io_reach :: "'c list \<Rightarrow> 'c blob_io \<Rightarrow> bool" where
  start: "args_heap st = Map.empty \<Longrightarrow> csb_heap st = Map.empty \<Longrightarrow> pending st = [] \<Longrightarrow> calls st = [] \<Longrightarrow>
    bs_cluster_size st \<noteq> 0 \<Longrightarrow> io_reach [] st"
| write_super: "io_reach cs st \<Longrightarrow> io_reach (cb # cs) (write_super_blob buf off len cb st)"
| write_normal: "io_reach cs st \<Longrightarrow> io_reach (cb # cs) (write_normal_blob bid buf off len cb st)"
| read_super: "io_reach cs st \<Longrightarrow> io_reach (cb # cs) (read_super_blob buf off len cb st)"
| read_normal: "io_reach cs st \<Longrightarrow> io_reach (cb # cs) (read_normal_blob bid buf off len cb st)"
| create_super: "io_reach cs st \<Longrightarrow> io_reach (cb # cs) (create_super_blob cb st)"
| check_super: "io_reach cs st \<Longrightarrow> io_reach cs (check_super_blob flag st)"
| client_call: "io_reach cs st \<Longrightarrow> io_reach (cb # cs) (post c (Io_client cb) st)"
| completion: "io_reach cs st \<Longrightarrow> i < length (pending st) \<Longrightarrow> reply_fits (snd (pending st ! i)) r \<Longrightarrow>
    complete_call i r st = Some st' \<Longrightarrow> io_reach cs st'"
| environment: "io_reach cs st \<Longrightarrow>
    io_reach cs (st\<lparr>num_clusters := nc, num_io_units := nu, free_cluster_count := fc\<rparr>)"

definition accounted :: "'c list \<Rightarrow> 'c blob_io \<Rightarrow> bool" where
  "accounted cs st \<longleftrightarrow> mset cs = mset (owed_all st) + mset (map callback (calls st))"

lemma io_ok_view: "io_view st' = io_view st \<Longrightarrow> io_ok st \<Longrightarrow> io_ok st'"
  using same_heaps(1) [of st' st] by (simp add: io_ok_def io_view_def)

lemma accounted_view: "io_view st' = io_view st \<Longrightarrow> accounted cs st \<Longrightarrow> accounted cs st'"
  using owed_same [of st' st] by (simp add: accounted_def owed_all_def io_view_def)

text \<open>A new operation adds one struct and one call, or fails at once.\<close>

lemma call_ok: "io_ok st \<Longrightarrow> accounted cs st \<Longrightarrow>
   io_ok (call (Call_op cb e) st) \<and> accounted (cb # cs) (call (Call_op cb e) st) \<and>
   io_ok (call (Call_id cb b e) st) \<and> accounted (cb # cs) (call (Call_id cb b e) st)"
  by (simp add: io_ok_def accounted_def owed_all_def call_def)

lemma new_struct_ok:
  assumes ok: "io_ok st" "accounted cs st" and a: "a = next_args st"
    and st': "pending st' = pending st @ [(c, cb')]" "calls st' = calls st" "next_args st' = Suc a"
      "bs_cluster_size st' = bs_cluster_size st" "owns cb' = Some (k, a)" "live st' cb'" "owed st' cb' = [cb]"
      "\<forall>b. b \<noteq> a \<longrightarrow> args_heap st' b = args_heap st b \<and> csb_heap st' b = csb_heap st b"
      "if k then args_heap st' = args_heap st else csb_heap st' = csb_heap st"
  shows "io_ok st' \<and> accounted (cb # cs) st'"
proof -
  have D: "distinct (owners (pending st))" and LV: "\<And>p. p \<in> set (pending st) \<Longrightarrow> live st (snd p)"
    and A: "\<And>b. args_heap st b \<noteq> None \<Longrightarrow> (False, b) \<in> set (owners (pending st))"
    and C: "\<And>b. csb_heap st b \<noteq> None \<Longrightarrow> (True, b) \<in> set (owners (pending st))"
    and N: "\<And>p. p \<in> set (owners (pending st)) \<Longrightarrow> snd p < next_args st" and Z: "bs_cluster_size st \<noteq> 0"
    using ok(1) unfolding io_ok_def by blast+
  have nx: "(k', a) \<notin> set (owners (pending st))" for k' using N [of "(k', a)"] a by auto
  have other: "live st' (snd p) = live st (snd p)" "owed st' (snd p) = owed st (snd p)"
    if p: "p \<in> set (pending st)" for p
  proof -
    have *: "if k' then csb_heap st' b = csb_heap st b else args_heap st' b = args_heap st b"
      if "owns (snd p) = Some (k', b)" for k' b
    proof -
      have "(k', b) \<in> set (owners (pending st))" using in_owners [OF p] that by auto
      with nx have "b \<noteq> a" by auto
      with st'(8) show ?thesis by simp
    qed
    show "live st' (snd p) = live st (snd p)" "owed st' (snd p) = owed st (snd p)"
      using same_owned [OF *] by simp_all
  qed
  have "map (\<lambda>p. owed st' (snd p)) (pending st) = map (\<lambda>p. owed st (snd p)) (pending st)"
    using other(2) by (intro map_cong [OF refl])
  from arg_cong [OF this, of concat] have "accounted (cb # cs) st'" using ok(2) by (simp add: accounted_def owed_all_def st')
  moreover have "io_ok st'"
    unfolding io_ok_def
  proof (intro conjI allI impI ballI)
    show "distinct (owners (pending st'))" using D nx by (simp add: st')
    show "live st' (snd p)" if "p \<in> set (pending st')" for p
      using that other(1) [of p] LV [of p] st'(6) by (auto simp: st'(1))
    show "(False, b) \<in> set (owners (pending st'))" if "args_heap st' b \<noteq> None" for b
      using that st'(8,9) A [of b] nx by (cases "b = a"; cases k) (auto simp: st'(1,5))
    show "(True, b) \<in> set (owners (pending st'))" if "csb_heap st' b \<noteq> None" for b
      using that st'(8,9) C [of b] nx by (cases "b = a"; cases k) (auto simp: st'(1,5))
    show "snd p < next_args st'" if "p \<in> set (owners (pending st'))" for p
      using that N [of p] a by (auto simp: st'(1,3,5))
    show "bs_cluster_size st' \<noteq> 0" using Z by (simp add: st')
  qed
  ultimately show ?thesis by blast
qed

lemma malloc_view: "malloc_fails st = (b, st1) \<Longrightarrow> io_view st1 = io_view st"
  by (auto simp: malloc_fails_def io_view_def split: list.splits)

lemma start_op_ok:
  assumes "io_ok st" "accounted cs st" and f: "malloc_fails st = (b, st1)"
  shows "io_ok (call (Call_op cb e) st1)" "accounted (cb # cs) (call (Call_op cb e) st1)"
    and "cb_fn x = cb \<Longrightarrow> cluster_size x = bs_cluster_size st1 \<Longrightarrow> owns cb' = Some (False, next_args st1) \<Longrightarrow>
      \<not> needs_channel cb' \<Longrightarrow> io_ok (post c cb' (snd (alloc_args x st1))) \<and>
        accounted (cb # cs) (post c cb' (snd (alloc_args x st1)))"
proof -
  have ok: "io_ok st1" "accounted cs st1"
    by (rule io_ok_view [OF malloc_view [OF f] assms(1)], rule accounted_view [OF malloc_view [OF f] assms(2)])
  then show "io_ok (call (Call_op cb e) st1)" "accounted (cb # cs) (call (Call_op cb e) st1)"
    using call_ok [OF ok, of cb e 0] by simp_all
  assume a: "cb_fn x = cb" "cluster_size x = bs_cluster_size st1" "owns cb' = Some (False, next_args st1)"
    "\<not> needs_channel cb'"
  have z: "bs_cluster_size st1 \<noteq> 0" using ok by (simp add: io_ok_def)
  show "io_ok (post c cb' (snd (alloc_args x st1))) \<and> accounted (cb # cs) (post c cb' (snd (alloc_args x st1)))"
    by (intro new_struct_ok [OF ok refl, where c = c and cb' = cb' and k = False])
      (simp_all add: post_def alloc_args_def set_args_def live_def owed_def a z)
qed

lemma start_ok:
  assumes ok: "io_ok st" "accounted cs st"
  shows "io_ok (write_super_blob buf off len cb st) \<and> accounted (cb # cs) (write_super_blob buf off len cb st)"
    and "io_ok (write_normal_blob bid buf off len cb st) \<and> accounted (cb # cs) (write_normal_blob bid buf off len cb st)"
    and "io_ok (read_super_blob buf off len cb st) \<and> accounted (cb # cs) (read_super_blob buf off len cb st)"
    and "io_ok (read_normal_blob bid buf off len cb st) \<and> accounted (cb # cs) (read_normal_blob bid buf off len cb st)"
proof -
  obtain b st1 where f: "malloc_fails st = (b, st1)" by force
  note S = start_op_ok [OF ok f, where cb = cb]
  note D = f Let_def new_args_def alloc_args_def
  show "io_ok (write_super_blob buf off len cb st) \<and> accounted (cb # cs) (write_super_blob buf off len cb st)"
    using S(1,2) [of "- 12"] S(3) [of "(new_args st1 cb)\<lparr>payload := buf, offset := off, io_length := len\<rparr>"
      "Wsb_super_blobid_got (next_args st1)" C_get_super]
    by (cases b) (simp_all add: write_super_blob_def D)
  show "io_ok (read_super_blob buf off len cb st) \<and> accounted (cb # cs) (read_super_blob buf off len cb st)"
    using S(1,2) [of "- 12"] S(3) [of "(new_args st1 cb)\<lparr>payload := buf, offset := off, io_length := len\<rparr>"
      "Rsb_super_blobid_got (next_args st1)" C_get_super]
    by (cases b) (simp_all add: read_super_blob_def D)
  show "io_ok (write_normal_blob bid buf off len cb st) \<and> accounted (cb # cs) (write_normal_blob bid buf off len cb st)"
    using S(1,2) [of "- 12"] S(3) [of "(new_args st1 cb)\<lparr>blobid := bid, offset := off, io_length := len\<rparr>"
      "Wnb_open_complete (next_args st1)" "C_open_blob bid"]
    by (cases b) (simp_all add: write_normal_blob_def D)
  show "io_ok (read_normal_blob bid buf off len cb st) \<and> accounted (cb # cs) (read_normal_blob bid buf off len cb st)"
    using S(1,2) [of "- 12"] S(3) [of "(new_args st1 cb)\<lparr>payload := buf, offset := off, io_length := len\<rparr>"
      "Rnb_open_complete (next_args st1)" "C_open_blob (garbage_blobid st1)"]
    by (cases b) (simp_all add: read_normal_blob_def D)
qed

lemma create_super_ok:
  assumes ok: "io_ok st" "accounted cs st"
  shows "io_ok (create_super_blob cb st) \<and> accounted (cb # cs) (create_super_blob cb st)"
proof -
  obtain b st1 where f: "malloc_fails st = (b, st1)" by force
  have ok1: "io_ok st1" "accounted cs st1"
    by (rule io_ok_view [OF malloc_view [OF f] ok(1)], rule accounted_view [OF malloc_view [OF f] ok(2)])
  show ?thesis
  proof (cases b)
    case True
    then show ?thesis using call_ok [OF ok1] f by (simp add: create_super_blob_def)
  next
    case False
    then show ?thesis
      by (intro new_struct_ok [OF ok1 refl, where c = C_create_blob and k = True
            and cb' = "Csb_super_blob_created (next_args st1)"])
        (simp_all add: create_super_blob_def f Let_def post_def live_def owed_def)
  qed
qed

lemma post_ok:
  assumes "io_ok st" "accounted cs st"
  shows "io_ok (check_super_blob flag st) \<and> accounted cs (check_super_blob flag st)"
    and "io_ok (post c (Io_client cb) st) \<and> accounted (cb # cs) (post c (Io_client cb) st)"
  using assms by (auto simp: io_ok_def accounted_def owed_all_def check_super_blob_def post_def
      live_def [of _ "Chsb_super_blobid_got flag"] live_def [of _ "Io_client cb"]
      owed_def [of _ "Chsb_super_blobid_got flag"] owed_def [of _ "Io_client cb"])

lemma io_reach_ok: "io_reach cs st \<Longrightarrow> io_ok st \<and> accounted cs st"
proof (induction rule: io_reach.induct)
  case (completion cs st i r st')
  then show ?case using complete_ok [of st i r] by (auto simp: accounted_def)
next
  case (environment cs st fc nu nc)
  have v: "io_view (st\<lparr>num_clusters := nc, num_io_units := nu, free_cluster_count := fc\<rparr>) = io_view st"
    by (simp add: io_view_def)
  show ?case using environment io_ok_view [OF v] accounted_view [OF v] by blast
next
  case (start st)
  then show ?case by (simp add: io_ok_def accounted_def owed_all_def)
qed ((elim conjE, rule start_ok create_super_ok post_ok; assumption)+)

text \<open>C14: Every blob operation of NBFS2 answers its client exactly once.  In every state that
  operations, completions in any order and changes in the blobstore can lead to, the callbacks of
  all operations started so far are, counted with multiplicity, those already called and those
  that one pending call each still leads to; each pending call finds its own struct, and no struct
  exists without one.  When nothing is pending, all clients have been answered and all
  structs are freed.\<close>

theorem blob_io_answers_once:
  assumes "io_reach cs st"
  shows "mset cs = mset (owed_all st) + mset (map callback (calls st)) \<and>
    distinct (owners (pending st)) \<and>
    {a. args_heap st a \<noteq> None} = {a. (False, a) \<in> set (owners (pending st))} \<and>
    {a. csb_heap st a \<noteq> None} = {a. (True, a) \<in> set (owners (pending st))}"
proof -
  have ok: "io_ok st" "accounted cs st" using io_reach_ok [OF assms] by simp_all
  have live_owner: "if k then csb_heap st a \<noteq> None else args_heap st a \<noteq> None"
    if ka: "(k, a) \<in> set (owners (pending st))" for k a
  proof -
    obtain p where p: "p \<in> set (pending st)" "owns (snd p) = Some (k, a)"
      using ka by (force simp: owners_def owned_def split: option.splits)
    then have "live st (snd p)" using ok by (simp add: io_ok_def)
    with p show ?thesis by (cases k) (auto simp: live_def)
  qed
  show ?thesis
    using ok live_owner [of False] live_owner [of True] by (auto simp: io_ok_def accounted_def)
qed

text \<open>C15: No callback of the blob operations crashes, and every operation ends.  In every reachable
  state each pending call can be completed with any result: the callback finds its struct
  allocated and its channel set.  The completion takes the operations nearer to their end, and at
  most six completions per operation are needed.\<close>

theorem blob_io_completes:
  assumes "io_reach cs st" and "i < length (pending st)" and "reply_fits (snd (pending st ! i)) r"
  shows "(\<exists>st'. complete_call i r st = Some st' \<and> work st' < work st) \<and> work st \<le> 6 * length (pending st)"
proof
  show "\<exists>st'. complete_call i r st = Some st' \<and> work st' < work st"
    using complete_ok [OF _ assms(2,3)] io_reach_ok [OF assms(1)] by blast
  have "rank cb \<le> 6" for cb :: "'a io_cb" by (cases cb) simp_all
  then have "(\<Sum>p\<leftarrow>ps. rank (snd p)) \<le> 6 * length ps" for ps :: "(blob_call \<times> 'a io_cb) list"
    by (induction ps) (simp_all add: add_mono)
  then show "work st \<le> 6 * length (pending st)" by (simp add: work_def)
qed

section \<open>A sample state\<close>

text \<open>A blobstore with clusters of 1 MiB and units of 512 bytes; blob 1 has no cluster yet.\<close>

definition sample_io :: "nat blob_io" where
  "sample_io = \<lparr>args_heap = Map.empty, csb_heap = Map.empty, next_args = 0, garbage_blob = 0,
     garbage_blobid = 77, garbage_payload = None, malloc_fail = [], channel_fail = [],
     open_channels = [], next_channel = 0, num_clusters = (\<lambda>_. 0), num_io_units = (\<lambda>_. 0),
     free_cluster_count = 100, bs_cluster_size = 1048576, bs_io_unit_size = 512,
     flags = (\<lambda>_. 0), pending = [], calls = []\<rparr>"

lemma sample_reach: "io_reach [7] (write_super_blob (Some 3) 0 8 7 sample_io)"
  by (rule io_reach.write_super, rule io_reach.start) (simp_all add: sample_io_def)

lemma sample_pending:
  "pending (write_super_blob (Some 3) 0 8 7 sample_io) = [(C_get_super, Wsb_super_blobid_got 0)]"
  by (simp add: write_super_blob_def malloc_fails_def sample_io_def alloc_args_def set_args_def post_def)

theorem blob_io_answers_once_witness:
  "{#7#} = mset (owed_all (write_super_blob (Some 3) 0 8 7 sample_io)) +
     mset (map callback (calls (write_super_blob (Some 3) 0 8 7 sample_io)))"
  using blob_io_answers_once [OF sample_reach] by simp

theorem blob_io_completes_witness:
  "\<exists>st'. complete_call 0 (R_id 5 0) (write_super_blob (Some 3) 0 8 7 sample_io) = Some st' \<and>
     work st' < work (write_super_blob (Some 3) 0 8 7 sample_io)"
  using blob_io_completes [OF sample_reach, of 0 "R_id 5 0"] by (simp add: sample_pending)

section \<open>Growing a blob\<close>

text \<open>The clusters a write asks for, without wrap-around.\<close>

lemma ceiling_div:
  fixes p c :: nat
  assumes "0 < c"
  shows "(p + c - 1) div c = p div c + (if p mod c \<noteq> 0 then 1 else 0)"
proof -
  have "p + c - 1 = c * (p div c) + (p mod c + c - 1)" using assms by simp
  then have "(p + c - 1) div c = p div c + (p mod c + c - 1) div c"
    using assms by (simp only: div_mult_self4)
  moreover have "(p mod c + c - 1) div c = (if p mod c \<noteq> 0 then 1 else 0)"
    using assms mod_less_divisor [OF assms, of p] by (intro div_nat_eqI) auto
  ultimately show ?thesis by simp
qed

lemma clusters_to_add_ceiling:
  assumes "unat n * unat u < 2 ^ 64" "c \<noteq> 0"
  shows "unat (clusters_to_add n u c) = (unat n * unat u + unat c - 1) div unat c"
proof -
  have c: "0 < unat c" using assms(2) by (simp add: unat_gt_0)
  have m: "unat (n * u) = unat n * unat u" using assms(1) by (simp add: unat_word_ariths)
  let ?p = "unat n * unat u"
  have dm: "unat (n * u div c) = ?p div unat c" "unat (n * u mod c) = ?p mod unat c"
    by (simp_all add: unat_div unat_mod m)
  have z: "n * u mod c = 0 \<longleftrightarrow> ?p mod unat c = 0" using dm(2) by (metis unat_eq_zero)
  show ?thesis
  proof (cases "?p mod unat c = 0")
    case True
    then show ?thesis using ceiling_div [OF c, of ?p] z dm(1) by (simp add: clusters_to_add_def)
  next
    case False
    then have "unat c \<noteq> 1" "?p \<noteq> 0" by (auto intro: Nat.gr0I)
    then have "?p div unat c < ?p" using c by (intro div_less_dividend) linarith+
    then have "?p div unat c + 1 < 2 ^ 64" using assms(1) by linarith
    then show ?thesis
      using ceiling_div [OF c, of ?p] False z dm(1) by (simp add: clusters_to_add_def unat_word_ariths)
  qed
qed

lemma units_bytes: "0 < d \<Longrightarrow> 0 < u \<Longrightarrow> d * u + m * u - 1 = (d + m - 1) * u + (u - 1)" for d u m :: nat
  by (cases d; cases u) (simp_all add: algebra_simps)

text \<open>The new size of a blob of \<open>nc\<close> clusters, each of \<open>m\<close> units of \<open>u\<close> bytes, that is to hold
  \<open>t\<close> units.\<close>

lemma new_size_least:
  assumes c: "unat c = m * unat u" "0 < unat u" "0 < m"
    and nu: "unat nu = unat nc * m" and t: "unat nu < unat t" "unat t * unat u < 2 ^ 64"
  shows "unat (nc + clusters_to_add (t - nu) u c) * m \<ge> unat t"
    and "unat t \<le> k * m \<Longrightarrow> unat (nc + clusters_to_add (t - nu) u c) \<le> k"
    and "unat (clusters_to_add (t - nu) u c) = unat (nc + clusters_to_add (t - nu) u c) - unat nc"
proof -
  let ?d = "unat t - unat nu" and ?a = "clusters_to_add (t - nu) u c"
  have d: "unat (t - nu) = ?d" using t(1) by (simp add: unat_sub word_le_nat_alt)
  have "unat (t - nu) * unat u < 2 ^ 64"
    using t(2) by (rule le_less_trans [rotated]) (simp add: d)
  moreover have "c \<noteq> 0" using c by (auto simp flip: unat_eq_zero)
  ultimately have "unat ?a = (?d * unat u + unat c - 1) div unat c"
    using clusters_to_add_ceiling [of "t - nu" u c] d by simp
  also have "\<dots> = (?d * unat u + m * unat u - 1) div (m * unat u)" by (simp add: c)
  also have "\<dots> = (?d + m - 1) div m"
  proof -
    have "?d * unat u + m * unat u - 1 = (?d + m - 1) * unat u + (unat u - 1)"
      using units_bytes [of ?d "unat u" m] c(2) t(1) by simp
    moreover have "((?d + m - 1) * unat u + (unat u - 1)) div unat u = ?d + m - 1"
      using div_mult_self3 [of "unat u" "?d + m - 1" "unat u - 1"] c(2) by simp
    ultimately show ?thesis using div_mult2_eq [of "?d * unat u + m * unat u - 1" "unat u" m] by (simp add: mult.commute)
  qed
  finally have a: "unat ?a = (?d + m - 1) div m" .
  have td: "unat t = unat nc * m + ?d" using nu t(1) by simp
  have dist: "(unat nc + unat ?a) * m = unat nc * m + unat ?a * m" by (rule add_mult_distrib)
  have ub: "?d \<le> unat ?a * m" and lb: "unat ?a * m < ?d + m"
  proof -
    have "unat ?a * m + (?d + m - 1) mod m = ?d + m - 1" by (simp add: a)
    moreover have "(?d + m - 1) mod m < m" using c(3) by simp
    ultimately show "?d \<le> unat ?a * m" "unat ?a * m < ?d + m" using c(3) t(1) by linarith+
  qed
  have nt: "unat nc + unat ?a < 18446744073709551616"
  proof -
    have "(unat nc + unat ?a) * m < unat t + m" using td lb dist by linarith
    also have "\<dots> \<le> (unat t + 1) * m" using c(3) by (simp add: add_mult_distrib)
    finally have "(unat nc + unat ?a) * m < (unat t + 1) * m" .
    then have "unat nc + unat ?a < unat t + 1" by (simp only: mult_less_cancel2)
    then show ?thesis using unat_u64_bound [of t] by linarith
  qed
  then have s: "unat (nc + ?a) = unat nc + unat ?a" by (simp add: unat_word_ariths)
  show "unat (nc + ?a) * m \<ge> unat t" unfolding s using td ub dist by linarith
  show "unat ?a = unat (nc + ?a) - unat nc" by (simp add: s)
  assume "unat t \<le> k * m"
  moreover have "(k + 1) * m = k * m + m" by (simp add: add_mult_distrib)
  ultimately have "(unat nc + unat ?a) * m < (k + 1) * m" using td lb dist by linarith
  then have "unat nc + unat ?a < k + 1" by (simp only: mult_less_cancel2)
  then show "unat (nc + ?a) \<le> k" by (simp add: s)
qed

text \<open>C34: A write past the end of its blob asks for exactly the clusters it needs.  When the
  arithmetic does not overflow and a blob has as many units as its clusters hold, the new size is
  the least number of clusters that holds the range, for the super blob and for any other; with too few
  free clusters the client gets \<open>-ENOSPC\<close> and the struct is freed.\<close>

theorem write_grows_enough:
  assumes x: "args_heap st a = Some x" and ch: "channel_fail st = []"
    and c: "unat (cluster_size x) = m * unat (io_unit_size x)" "0 < unat (io_unit_size x)" "0 < m"
    and nu: "unat (num_io_units st b) = unat (num_clusters st b) * m"
    and t: "unat (offset x) + unat (io_length x) < 2 ^ 64" "unat (num_io_units st b) < unat (offset x) + unat (io_length x)"
      "(unat (offset x) + unat (io_length x)) * unat (io_unit_size x) < 2 ^ 64"
  shows "\<exists>n. unat (offset x) + unat (io_length x) \<le> unat n * m \<and>
    (\<forall>k. unat (offset x) + unat (io_length x) \<le> k * m \<longrightarrow> unat n \<le> k) \<and>
    (\<exists>s1 s2. wsb_open_complete a b 0 st = Some s1 \<and> wnb_open_complete a b 0 st = Some s2 \<and>
      (if unat (free_cluster_count st) < unat n - unat (num_clusters st b)
       then calls s1 = calls st @ [Call_op (cb_fn x) (- 28)] \<and> args_heap s1 a = None \<and>
         calls s2 = calls s1 \<and> args_heap s2 a = None
       else pending s1 = pending st @ [(C_resize b n, Wsb_resize_complete a)] \<and>
         pending s2 = pending st @ [(C_resize b n, Wnb_resize_complete a)]))"
proof -
  let ?t = "offset x + io_length x" and ?nu = "num_io_units st b"
  let ?a = "clusters_to_add (?t - ?nu) (io_unit_size x) (cluster_size x)"
  let ?n = "num_clusters st b + ?a"
  have ut: "unat ?t = unat (offset x) + unat (io_length x)" using t(1) by (simp add: unat_word_ariths)
  note N = new_size_least [OF c nu, of ?t, unfolded ut, OF t(2,3)]
  have gt: "?nu < ?t" using t(2) ut by (simp add: word_less_nat_alt)
  have c0: "cluster_size x \<noteq> 0" using c by (auto simp flip: unat_eq_zero)
  have fr: "free_cluster_count st < ?a \<longleftrightarrow> unat (free_cluster_count st) < unat ?n - unat (num_clusters st b)"
    using N(3) by (simp add: word_less_nat_alt)
  have "\<exists>s1 s2. wsb_open_complete a b 0 st = Some s1 \<and> wnb_open_complete a b 0 st = Some s2 \<and>
      (if unat (free_cluster_count st) < unat ?n - unat (num_clusters st b)
       then calls s1 = calls st @ [Call_op (cb_fn x) (- 28)] \<and> args_heap s1 a = None \<and>
         calls s2 = calls s1 \<and> args_heap s2 a = None
       else pending s1 = pending st @ [(C_resize b ?n, Wsb_resize_complete a)] \<and>
         pending s2 = pending st @ [(C_resize b ?n, Wnb_resize_complete a)])"
    unfolding fr [symmetric] using x ch gt c0
    by (simp add: wsb_open_complete_def wnb_open_complete_def spdk_bs_alloc_io_channel_def io_prims)
  with N(1,2) show ?thesis by blast
qed

theorem write_grows_enough_witness:
  "\<exists>n. (0 :: nat) + 5000 \<le> unat (n :: u64) * 2048 \<and> (\<forall>k. 0 + 5000 \<le> k * 2048 \<longrightarrow> unat n \<le> k)"
proof -
  let ?x = "\<lparr>blob = 0, blobid = 0, channel = None, payload = Some 3, offset = 0, io_length = 5000,
    cb_fn = 7, cluster_size = 1048576, io_unit_size = 512\<rparr>"
  let ?st = "sample_io\<lparr>args_heap := [0 \<mapsto> ?x]\<rparr>"
  show ?thesis
    using write_grows_enough [of ?st 0 ?x 2048 1] by (fastforce simp: sample_io_def)
qed

text \<open>The functions for normal blobs lose an argument.  \<open>write_normal_blob\<close> does not store the
  address of the data: whatever the caller passes, the blobstore is told to write from the address
  the new struct happened to hold.  \<open>read_normal_blob\<close> does not store the blob id: it opens the
  blob whose id the struct happened to hold.\<close>

theorem normal_blob_io_loses_argument:
  assumes "malloc_fail st = []" "channel_fail st = []" "off + len \<le> num_io_units st b"
  shows "pending (read_normal_blob bid buf off len cb st) =
      pending st @ [(C_open_blob (garbage_blobid st), Rnb_open_complete (next_args st))] \<and>
    (\<exists>st'. complete_call (length (pending st)) (R_handle b 0) (write_normal_blob bid buf off len cb st) = Some st' \<and>
      pending st' = pending st @
        [(C_io_write b (next_channel st) (garbage_payload st) off len, Wnb_write_complete (next_args st))])"
  using assms(1,2) leD [OF assms(3)]
  by (simp add: read_normal_blob_def write_normal_blob_def malloc_fails_def alloc_args_def new_args_def
      io_prims complete_call_def drop_nth_def run_handle_cb_def wnb_open_complete_def spdk_bs_alloc_io_channel_def
      arr_get_def)

theorem normal_blob_io_loses_argument_witness:
  "pending (read_normal_blob 5 (Some 3) 0 0 9 sample_io) = [(C_open_blob 77, Rnb_open_complete 0)]"
  using normal_blob_io_loses_argument [of sample_io 0 0 1 5 "Some 3" 9] by (simp add: sample_io_def)

end
