(* ===== verification/Hash_Table.thy ===== *)
theory Hash_Table
  imports NBFS_Prelude
begin

text \<open>
  The hash table of NBFS2, \<open>src/NBFS2/hash_table.h\<close>: from file names to the text of blob ids.

  A table has an array of item pointers and, per index, a chain of list nodes for the keys
  that collide.  Items and nodes live in an explicit heap, so that a freed one is gone: a
  pointer to it is dangling, and following it is a crash (\<open>None\<close>, as is an index out of range,
  a NULL pointer that is followed, or a \<open>strcpy\<close> past the end of its buffer).  Addresses are not used
  again, which differs from the C heap only behind a dangling pointer.  \<open>malloc\<close> leaves
  its memory uninitialised: \<open>fresh_node\<close> is what a new list node holds.  No result of \<open>malloc\<close>
  is checked before it is written to, so that a failing one, the next element of
  \<open>ht_alloc_fail\<close>, is a crash.  The loops over chains are partial functions: a cyclic chain
  gives \<open>None\<close> as well.  \<open>print_search\<close> and \<open>print_table\<close> only print and are left out.
\<close>

section \<open>Data\<close>

type_synonym item_ptr = nat
type_synonym list_ptr = nat

definition CAPACITY :: u64 where "CAPACITY = 65536"

text \<open>\<open>key\<close> and \<open>value\<close> are buffers of their own, allocated and freed with the item;
  \<open>value_room\<close> is the size of the second one.\<close>

record Ht_item =
  key :: string
  val :: string
  value_room :: nat

record LinkedList =
  list_item :: "item_ptr option"
  list_next :: "list_ptr option"

record HashTable =
  items :: "item_ptr option list"
  overflow_buckets :: "list_ptr option list"
  table_size :: int
  table_count :: int

record ht_heap =
  item_heap :: "item_ptr \<rightharpoonup> Ht_item"
  list_heap :: "list_ptr \<rightharpoonup> LinkedList"
  next_item :: item_ptr
  next_list :: list_ptr
  fresh_node :: "list_ptr \<Rightarrow> LinkedList"
  ht_alloc_fail :: "bool list"

section \<open>Operations\<close>

text \<open>\<open>char\<close> is signed: it is sign-extended before it is added.\<close>

fun hash_loop :: "u64 \<Rightarrow> string \<Rightarrow> u64" where
  "hash_loop i [] = i"
| "hash_loop i (c # str) = hash_loop (i + scast (of_char c :: u8)) str"

definition hash_function :: "string \<Rightarrow> u64" where
  "hash_function str = hash_loop 0 str mod CAPACITY"

definition ht_malloc :: "ht_heap \<Rightarrow> ht_heap option" where
  "ht_malloc h = (case ht_alloc_fail h of [] \<Rightarrow> Some h
     | b # bs \<Rightarrow> if b then None else Some (h\<lparr>ht_alloc_fail := bs\<rparr>))"

definition upd_node :: "ht_heap \<Rightarrow> list_ptr \<Rightarrow> (LinkedList \<Rightarrow> LinkedList) \<Rightarrow> ht_heap option" where
  "upd_node h l f = do {
     n \<leftarrow> list_heap h l;
     Some (h\<lparr>list_heap := (list_heap h)(l \<mapsto> f n)\<rparr>) }"

definition allocate_list :: "ht_heap \<Rightarrow> (ht_heap \<times> list_ptr) option" where
  "allocate_list h = do {
     h \<leftarrow> ht_malloc h;
     let l = next_list h;
     Some (h\<lparr>list_heap := (list_heap h)(l \<mapsto> fresh_node h l), next_list := l + 1\<rparr>, l) }"

text \<open>\<open>while (temp->next->next) temp = temp->next;\<close>\<close>

partial_function (option) insert_walk :: "ht_heap \<Rightarrow> list_ptr \<Rightarrow> list_ptr option" where
  "insert_walk h temp = do {
     t \<leftarrow> list_heap h temp;
     nx \<leftarrow> list_next t;
     n \<leftarrow> list_heap h nx;
     if list_next n = None then Some temp else insert_walk h nx }"

definition linkedlist_insert ::
    "ht_heap \<Rightarrow> list_ptr option \<Rightarrow> item_ptr \<Rightarrow> (ht_heap \<times> list_ptr option) option" where
  "linkedlist_insert h list item = (case list of
     None \<Rightarrow> do {
       (h, head) \<leftarrow> allocate_list h;
       h \<leftarrow> upd_node h head (\<lambda>n. n\<lparr>list_item := Some item\<rparr>);
       h \<leftarrow> upd_node h head (\<lambda>n. n\<lparr>list_next := None\<rparr>);
       Some (h, Some head) }
   | Some l \<Rightarrow> do {
       nd \<leftarrow> list_heap h l;
       if list_next nd = None then do {
         (h, node) \<leftarrow> allocate_list h;
         h \<leftarrow> upd_node h node (\<lambda>n. n\<lparr>list_item := Some item\<rparr>);
         h \<leftarrow> upd_node h node (\<lambda>n. n\<lparr>list_next := None\<rparr>);
         h \<leftarrow> upd_node h l (\<lambda>n. n\<lparr>list_next := Some node\<rparr>);
         Some (h, Some l) }
       else do {
         temp \<leftarrow> insert_walk h l;
         (h, node) \<leftarrow> allocate_list h;
         h \<leftarrow> upd_node h node (\<lambda>n. n\<lparr>list_item := Some item\<rparr>);
         h \<leftarrow> upd_node h node (\<lambda>n. n\<lparr>list_next := None\<rparr>);
         h \<leftarrow> upd_node h temp (\<lambda>n. n\<lparr>list_next := Some node\<rparr>);
         Some (h, Some l) } })"

text \<open>\<open>linkedlist_remove\<close> copies an item from the NULL pointer \<open>it\<close>: with two nodes or more it
  crashes.  No caller exists.\<close>

definition linkedlist_remove ::
    "ht_heap \<Rightarrow> list_ptr option \<Rightarrow> (ht_heap \<times> item_ptr option) option" where
  "linkedlist_remove h list = (case list of
     None \<Rightarrow> Some (h, None)
   | Some l \<Rightarrow> do {
       nd \<leftarrow> list_heap h l;
       if list_next nd = None then Some (h, None)
       else do {
         h \<leftarrow> upd_node h l (\<lambda>n. n\<lparr>list_next := None\<rparr>);
         None } })"

definition free_item :: "ht_heap \<Rightarrow> item_ptr \<Rightarrow> ht_heap option" where
  "free_item h p = do {
     it \<leftarrow> item_heap h p;
     Some (h\<lparr>item_heap := (item_heap h)(p := None)\<rparr>) }"

partial_function (option) free_linkedlist :: "ht_heap \<Rightarrow> list_ptr option \<Rightarrow> ht_heap option" where
  "free_linkedlist h list = (case list of
     None \<Rightarrow> Some h
   | Some temp \<Rightarrow> do {
       n \<leftarrow> list_heap h temp;
       p \<leftarrow> list_item n;
       h \<leftarrow> free_item h p;
       free_linkedlist (h\<lparr>list_heap := (list_heap h)(temp := None)\<rparr>) (list_next n) })"

text \<open>\<open>calloc\<close> of a negative size fails; its NULL is an array without elements.  Both arrays keep
  \<open>size\<close> elements, so that a loop up to \<open>size\<close> is one over the whole array.\<close>

definition create_overflow_buckets :: "int \<Rightarrow> list_ptr option list" where
  "create_overflow_buckets sz = replicate (nat sz) None"

fun free_chains :: "ht_heap \<Rightarrow> list_ptr option list \<Rightarrow> ht_heap option" where
  "free_chains h [] = Some h"
| "free_chains h (b # bs) = do { h \<leftarrow> free_linkedlist h b; free_chains h bs }"

definition free_overflow_buckets :: "ht_heap \<Rightarrow> HashTable \<Rightarrow> ht_heap option" where
  "free_overflow_buckets h table = free_chains h (overflow_buckets table)"

definition create_item :: "ht_heap \<Rightarrow> string \<Rightarrow> string \<Rightarrow> (ht_heap \<times> item_ptr) option" where
  "create_item h k v = do {
     h \<leftarrow> ht_malloc h;
     h \<leftarrow> ht_malloc h;
     h \<leftarrow> ht_malloc h;
     let p = next_item h;
     Some (h\<lparr>item_heap := (item_heap h)(p \<mapsto> \<lparr>key = k, val = v, value_room = length v + 1\<rparr>),
             next_item := p + 1\<rparr>, p) }"

definition create_table :: "ht_heap \<Rightarrow> int \<Rightarrow> (ht_heap \<times> HashTable) option" where
  "create_table h sz = do {
     h \<leftarrow> ht_malloc h;
     h \<leftarrow> ht_malloc h;
     h \<leftarrow> ht_malloc h;
     Some (h, \<lparr>items = replicate (nat sz) None, overflow_buckets = create_overflow_buckets sz,
               table_size = sz, table_count = 0\<rparr>) }"

fun free_items :: "ht_heap \<Rightarrow> item_ptr option list \<Rightarrow> ht_heap option" where
  "free_items h [] = Some h"
| "free_items h (None # its) = free_items h its"
| "free_items h (Some p # its) = do { h \<leftarrow> free_item h p; free_items h its }"

definition free_table :: "ht_heap \<Rightarrow> HashTable \<Rightarrow> ht_heap option" where
  "free_table h table = do {
     h \<leftarrow> free_items h (items table);
     free_overflow_buckets h table }"

text \<open>The first node of a chain is not given a \<open>next\<close>: it keeps what \<open>malloc\<close> found there.\<close>

definition handle_collision ::
    "ht_heap \<Rightarrow> HashTable \<Rightarrow> nat \<Rightarrow> item_ptr \<Rightarrow> (ht_heap \<times> HashTable) option" where
  "handle_collision h table index item = do {
     head \<leftarrow> arr_get (overflow_buckets table) index;
     if head = None then do {
       (h, l) \<leftarrow> allocate_list h;
       h \<leftarrow> upd_node h l (\<lambda>n. n\<lparr>list_item := Some item\<rparr>);
       bs \<leftarrow> arr_set (overflow_buckets table) index (Some l);
       Some (h, table\<lparr>overflow_buckets := bs\<rparr>) }
     else do {
       (h, head) \<leftarrow> linkedlist_insert h head item;
       bs \<leftarrow> arr_set (overflow_buckets table) index head;
       Some (h, table\<lparr>overflow_buckets := bs\<rparr>) } }"

definition ht_insert :: "ht_heap \<Rightarrow> HashTable \<Rightarrow> string \<Rightarrow> string \<Rightarrow> (ht_heap \<times> HashTable) option" where
  "ht_insert h table k v = do {
     (h, item) \<leftarrow> create_item h k v;
     let index = unat (hash_function k);
     current \<leftarrow> arr_get (items table) index;
     case current of
       None \<Rightarrow>
         if table_count table = table_size table then do {
           h \<leftarrow> free_item h item;
           Some (h, table) }
         else do {
           its \<leftarrow> arr_set (items table) index (Some item);
           Some (h, table\<lparr>items := its, table_count := table_count table + 1\<rparr>) }
     | Some cur \<Rightarrow> do {
         it \<leftarrow> item_heap h cur;
         if strcmp (key it) k = 0 then do {
           _ \<leftarrow> oassert (length v < value_room it);
           Some (h\<lparr>item_heap := (item_heap h)(cur \<mapsto> it\<lparr>val := v\<rparr>)\<rparr>, table) }
         else handle_collision h table index item } }"

text \<open>The outer option is a crash, the inner one the NULL result.\<close>

partial_function (option) search_loop ::
    "ht_heap \<Rightarrow> string \<Rightarrow> item_ptr option \<Rightarrow> list_ptr option \<Rightarrow> string option option" where
  "search_loop h k item head = (case item of
     None \<Rightarrow> Some None
   | Some p \<Rightarrow> do {
       it \<leftarrow> item_heap h p;
       if strcmp (key it) k = 0 then Some (Some (val it))
       else case head of
         None \<Rightarrow> Some None
       | Some l \<Rightarrow> do { n \<leftarrow> list_heap h l; search_loop h k (list_item n) (list_next n) } })"

definition ht_search :: "ht_heap \<Rightarrow> HashTable \<Rightarrow> string \<Rightarrow> string option option" where
  "ht_search h table k = do {
     let index = unat (hash_function k);
     item \<leftarrow> arr_get (items table) index;
     head \<leftarrow> arr_get (overflow_buckets table) index;
     search_loop h k item head }"

text \<open>The search along the chain in \<open>ht_delete\<close>.  Both pointers step to the same node, so
  that \<open>prev\<close> is NULL at the first node and equal to \<open>curr\<close> behind it.\<close>

partial_function (option) delete_walk ::
    "ht_heap \<Rightarrow> HashTable \<Rightarrow> nat \<Rightarrow> string \<Rightarrow> list_ptr option \<Rightarrow> list_ptr option \<Rightarrow> list_ptr option
      \<Rightarrow> (ht_heap \<times> HashTable) option" where
  "delete_walk h table index k head cur prev = (case cur of
     None \<Rightarrow> Some (h, table)
   | Some c \<Rightarrow> do {
       n \<leftarrow> list_heap h c;
       p \<leftarrow> list_item n;
       it \<leftarrow> item_heap h p;
       if strcmp (key it) k = 0 then
         (case prev of
            None \<Rightarrow> do {
              h \<leftarrow> free_linkedlist h head;
              bs \<leftarrow> arr_set (overflow_buckets table) index None;
              Some (h, table\<lparr>overflow_buckets := bs\<rparr>) }
          | Some q \<Rightarrow> do {
              h \<leftarrow> upd_node h q (\<lambda>m. m\<lparr>list_next := list_next n\<rparr>);
              h \<leftarrow> upd_node h c (\<lambda>m. m\<lparr>list_next := None\<rparr>);
              h \<leftarrow> free_linkedlist h cur;
              bs \<leftarrow> arr_set (overflow_buckets table) index head;
              Some (h, table\<lparr>overflow_buckets := bs\<rparr>) })
       else delete_walk h table index k head (list_next n) (list_next n) })"

definition ht_delete :: "ht_heap \<Rightarrow> HashTable \<Rightarrow> string \<Rightarrow> (ht_heap \<times> HashTable) option" where
  "ht_delete h table k = do {
     let index = unat (hash_function k);
     item \<leftarrow> arr_get (items table) index;
     head \<leftarrow> arr_get (overflow_buckets table) index;
     case item of
       None \<Rightarrow> Some (h, table)
     | Some p \<Rightarrow> do {
         it \<leftarrow> item_heap h p;
         (case head of
            None \<Rightarrow>
              if strcmp (key it) k = 0 then do {
                its \<leftarrow> arr_set (items table) index None;
                h \<leftarrow> free_item h p;
                Some (h, table\<lparr>items := its, table_count := table_count table - 1\<rparr>) }
              else Some (h, table)
          | Some node \<Rightarrow>
              if strcmp (key it) k = 0 then do {
                h \<leftarrow> free_item h p;
                nd \<leftarrow> list_heap h node;
                h \<leftarrow> upd_node h node (\<lambda>n. n\<lparr>list_next := None\<rparr>);
                np \<leftarrow> list_item nd;
                nit \<leftarrow> item_heap h np;
                (h, fresh) \<leftarrow> create_item h (key nit) (val nit);
                its \<leftarrow> arr_set (items table) index (Some fresh);
                h \<leftarrow> free_linkedlist h (Some node);
                bs \<leftarrow> arr_set (overflow_buckets table) index (list_next nd);
                Some (h, table\<lparr>items := its, overflow_buckets := bs\<rparr>) }
              else delete_walk h table index k head head None) } }"

end
