(* ===== verification/Blob_Id.thy ===== *)
theory Blob_Id
  imports NBFS_Prelude
begin

text \<open>
  Blob ids as text, \<open>src/NBFS2/id_and_char.h\<close>: the values of the hash table of NBFS2.

  \<open>sprintf\<close> with \<open>%016lx\<close> and \<open>strtoull\<close> with base 16 are written out as the C standard
  describes them; their composition is shown to be the identity on every 64-bit id.
\<close>

section \<open>Library functions\<close>

definition hex_digit :: "nat \<Rightarrow> char" where
  "hex_digit d = ''0123456789abcdef'' ! d"

text \<open>\<open>%x\<close>: the digits without leading zeros.\<close>

fun to_hex :: "nat \<Rightarrow> string" where
  "to_hex n = (if n < 16 then [hex_digit n] else to_hex (n div 16) @ [hex_digit (n mod 16)])"

declare to_hex.simps [simp del]

text \<open>The flag \<open>0\<close> with a field width.\<close>

definition pad_zeros :: "nat \<Rightarrow> string \<Rightarrow> string" where
  "pad_zeros w s = replicate (w - length s) CHR ''0'' @ s"

definition hex_value :: "char \<Rightarrow> nat option" where
  "hex_value c = (let n = of_char c :: nat in
     if 48 \<le> n \<and> n \<le> 57 then Some (n - 48)
     else if 97 \<le> n \<and> n \<le> 102 then Some (n - 87)
     else if 65 \<le> n \<and> n \<le> 70 then Some (n - 55)
     else None)"

definition is_space :: "char \<Rightarrow> bool" where
  "is_space c \<longleftrightarrow> (of_char c :: nat) = 32 \<or> 9 \<le> (of_char c :: nat) \<and> (of_char c :: nat) \<le> 13"

definition is_hex :: "char \<Rightarrow> bool" where
  "is_hex c \<longleftrightarrow> hex_value c \<noteq> None"

text \<open>The value of the longest prefix of hexadecimal digits.\<close>

fun digits_value :: "nat \<Rightarrow> string \<Rightarrow> nat" where
  "digits_value v [] = v"
| "digits_value v (c # s) = (case hex_value c of None \<Rightarrow> v | Some d \<Rightarrow> digits_value (16 * v + d) s)"

fun strip_sign :: "string \<Rightarrow> bool \<times> string" where
  "strip_sign (c # s) = (if c = CHR ''-'' then (True, s) else if c = CHR ''+'' then (False, s) else (False, c # s))"
| "strip_sign [] = (False, [])"

fun strip_0x :: "string \<Rightarrow> string" where
  "strip_0x (z # x # c # s) =
     (if z = CHR ''0'' \<and> (x = CHR ''x'' \<or> x = CHR ''X'') \<and> is_hex c then c # s else z # x # c # s)"
| "strip_0x s = s"

text \<open>\<open>strtoull(s, NULL, 16)\<close>: white space, a sign, the prefix \<open>0x\<close>, digits; a value that does
  not fit gives the largest one.\<close>

definition strtoull16 :: "string \<Rightarrow> u64" where
  "strtoull16 s = (let (neg, s') = strip_sign (dropWhile is_space s);
       v = digits_value 0 (strip_0x s')
     in if 2 ^ 64 \<le> v then - 1 else if neg then - of_nat v else of_nat v)"

section \<open>The conversions\<close>

definition blobid2char :: "u64 \<Rightarrow> string" where
  "blobid2char blobid = ''0x'' @ pad_zeros 16 (to_hex (unat blobid))"

definition char2blobid :: "string \<Rightarrow> u64" where
  "char2blobid s = strtoull16 s"

section \<open>Round trip\<close>

lemma hex_digit_values: "\<forall>d \<in> set [0..<16]. hex_value (hex_digit d) = Some d \<and> hex_digit d \<noteq> CHR 0x00"
  by code_simp

lemma hex_value_digit [simp]: "d < 16 \<Longrightarrow> hex_value (hex_digit d) = Some d"
  using hex_digit_values by simp

lemma digits_value_append:
  "\<forall>c \<in> set s. is_hex c \<Longrightarrow> digits_value v (s @ s') = digits_value (digits_value v s) s'"
  by (induction s arbitrary: v) (auto simp: is_hex_def)

lemma to_hex_digits: "c \<in> set (to_hex n) \<Longrightarrow> \<exists>d < 16. c = hex_digit d"
proof (induction n rule: to_hex.induct)
  case (1 n)
  have "\<exists>d < 16. hex_digit (n mod 16) = hex_digit d" by (rule exI [of _ "n mod 16"]) simp
  with 1 show ?case by (subst (asm) (2) to_hex.simps) (auto split: if_splits)
qed

lemma to_hex_is_hex: "\<forall>c \<in> set (to_hex n). is_hex c"
  using to_hex_digits by (force simp: is_hex_def)

lemma digits_value_to_hex: "digits_value 0 (to_hex n) = n"
proof (induction n rule: to_hex.induct)
  case (1 n)
  then show ?case by (subst to_hex.simps) (simp add: digits_value_append to_hex_is_hex)
qed

lemma length_to_hex: "n < 16 ^ Suc k \<Longrightarrow> length (to_hex n) \<le> Suc k"
proof (induction k arbitrary: n)
  case (Suc k)
  show ?case
  proof (cases "n < 16")
    case False
    have "n div 16 < 16 ^ Suc k" using Suc.prems by (simp add: div_less_iff_less_mult mult.commute)
    with Suc.IH [of "n div 16"] False show ?thesis by (subst to_hex.simps) simp
  qed (simp add: to_hex.simps)
qed (simp add: to_hex.simps)

lemma pad_zeros_value: "digits_value 0 (pad_zeros w s) = digits_value 0 s"
proof -
  have "digits_value 0 (replicate n CHR ''0'' @ s) = digits_value 0 s" for n
    by (induction n) (simp_all add: hex_value_def)
  then show ?thesis by (simp add: pad_zeros_def)
qed

lemma length_pad_zeros: "length s \<le> w \<Longrightarrow> length (pad_zeros w s) = w"
  by (simp add: pad_zeros_def)

lemma pad_zeros_is_hex: "\<forall>c \<in> set s. is_hex c \<Longrightarrow> \<forall>c \<in> set (pad_zeros w s). is_hex c"
  by (auto simp: pad_zeros_def is_hex_def hex_value_def)

lemma length_blobid_digits: "length (to_hex (unat (w :: u64))) \<le> 16"
  using length_to_hex [of "unat w" 15] unat_u64_bound [of w] by simp

lemma strtoull16_0x:
  assumes "s \<noteq> []" "\<forall>c \<in> set s. is_hex c" "digits_value 0 s < 2 ^ 64"
  shows "strtoull16 (''0x'' @ s) = of_nat (digits_value 0 s)"
  using assms by (cases s) (simp_all add: strtoull16_def is_space_def)

lemma length_blobid2char: "length (blobid2char w) = 18"
  by (simp add: blobid2char_def length_pad_zeros length_blobid_digits)

lemma char2blobid_blobid2char: "char2blobid (blobid2char w) = w"
proof -
  let ?s = "pad_zeros 16 (to_hex (unat w))"
  have "length ?s = 16" by (simp add: length_pad_zeros length_blobid_digits)
  then have "?s \<noteq> []" by auto
  moreover have "\<forall>c \<in> set ?s. is_hex c" by (intro pad_zeros_is_hex to_hex_is_hex)
  moreover have "digits_value 0 ?s = unat w" by (simp add: pad_zeros_value digits_value_to_hex)
  ultimately show ?thesis
    using strtoull16_0x [of ?s] unat_u64_bound [of w] by (simp add: char2blobid_def blobid2char_def)
qed

lemma blobid2char_no_nul: "CHR 0x00 \<notin> set (blobid2char w)"
proof -
  have "CHR 0x00 \<notin> set (to_hex (unat w))" using to_hex_digits hex_digit_values by force
  then show ?thesis by (auto simp: blobid2char_def pad_zeros_def)
qed

text \<open>C33: The text of a blob id is read back as the same id, for every 64-bit id, and has 18
  characters: with its terminator it fits the buffers of \<open>BLOBID_STRING_LEN\<close>, 20 bytes, that all
  callers pass.\<close>

theorem blobid_text_roundtrip:
  "char2blobid (blobid2char w) = w \<and> length (blobid2char w) + 1 < 20"
  by (simp add: char2blobid_blobid2char length_blobid2char)

end
