(* ===== verification/NBFS2.thy ===== *)
theory NBFS2
  imports Hash_Table Blob_Id Blob_IO
begin

text \<open>
  The file system NBFS2, \<open>src/NBFS2/NBFS2.c\<close>: a flat directory of blobs, kept in a hash table from
  file names to the text of blob ids and stored in the super blob when the file system is
  unloaded.

  \<open>main\<close> has one \<open>_nbfs2_args\<close> and one \<open>_nbfs2_filesystem\<close> on its stack; the record \<open>nbfs2\<close> holds
  both, with the heaps they point into.  Neither is initialised: the first values of the fields
  are arbitrary, and a pointer is \<open>None\<close> when it is NULL.  The functions of the file are state
  transformers; \<open>None\<close> is a crash (also a call of the NULL callback, a \<open>strcpy\<close> from NULL or past the end
  of its buffer, a \<open>memcpy\<close> outside of its buffers, a \<open>free\<close> of what is not allocated).  Blobstore calls are those of \<open>Blob_IO\<close>,
  whose callbacks of the client are the functions of this file (\<open>nbfs2_cb\<close>).  Calls of the
  user's callback are recorded in \<open>replies\<close>, those of \<open>spdk_app_stop\<close> in \<open>app_stop\<close>.  There is one blobstore, so that its
  handle is left out; so are the log messages.
\<close>

section \<open>Data\<close>

definition CMD_ARG_NUM :: nat where "CMD_ARG_NUM = 4"
definition INIT_HASHTABLE_SIZE :: u32 where "INIT_HASHTABLE_SIZE = 65536"
definition MAXFILENAME :: nat where "MAXFILENAME = 128"
definition BLOBID_STRING_LEN :: nat where "BLOBID_STRING_LEN = 20"
definition ENABLE_RANDOM_RW :: u64 where "ENABLE_RANDOM_RW = 0"
definition XATTR_HTS :: string where "XATTR_HTS = ''HASHTABLE_SIZE''"
definition XATTR_SPBDS :: string where "XATTR_SPBDS = ''SUPERBLOB_DATA_SIZE''"

definition MTHD_INIT :: int where "MTHD_INIT = 0"
definition MTHD_LOAD :: int where "MTHD_LOAD = 1"

text \<open>\<open>sizeof(struct _nbfs2_super_block_meta_data)\<close>: a blob id and a name.\<close>

definition MDATA_SIZE :: nat where "MDATA_SIZE = 8 + MAXFILENAME"

datatype nbfs2_cb =
    N_blob_deleted | N_file_created | N_unload_complete | N_superblob_written | N_superblob_read
  | N_superblob_opened_load | N_superblob_id_got | N_bs_load_complete
  | N_superblob_opened_init | N_superblob_created | N_bs_init_complete
  | N_user nat | N_null

record nbfs2_file =
  file_blobid :: spdk_blob_id
  filename :: string

datatype xattr_value = X32 u32 | X64 u64

text \<open>\<open>xattr_address\<close> is the address at which the blobstore keeps the value of an extended attribute
  of the super blob, \<open>None\<close> when there is none; \<open>fresh_bytes\<close> is what new memory holds.\<close>

record nbfs2 =
  io :: "nbfs2_cb blob_io"
  ht :: ht_heap
  superblob :: spdk_blob
  superblob_id :: spdk_blob_id
  spb_data_size :: u64
  fs_io_unit_size :: u64
  table :: "HashTable option"
  ht_size :: u32
  read_buff :: "buffer option"
  write_buff :: "buffer option"
  args_file :: "nat option"
  file_heap :: "nat \<rightharpoonup> nbfs2_file"
  next_file :: nat
  build_mthd :: int
  bdev_name :: string
  bs_dev :: bool
  user_cb :: "nat option"
  buffers :: "buffer \<rightharpoonup> u8 list"
  next_buffer :: buffer
  dma_fail :: "bool list"
  fresh_bytes :: "nat \<Rightarrow> u8"
  xattr_address :: "string \<Rightarrow> u64 option"
  xattrs :: "(spdk_blob \<times> string \<times> xattr_value) list"
  replies :: "(nat \<times> int) list"
  app_stop :: "int list"

section \<open>Primitives\<close>

definition call_user :: "int \<Rightarrow> nbfs2 \<Rightarrow> nbfs2 option" where
  "call_user e st = do { u \<leftarrow> user_cb st; Some (st\<lparr>replies := replies st @ [(u, e)]\<rparr>) }"

definition spdk_app_stop :: "int \<Rightarrow> nbfs2 \<Rightarrow> nbfs2" where
  "spdk_app_stop rc st = st\<lparr>app_stop := app_stop st @ [rc]\<rparr>"

text \<open>The error branch most callbacks share.\<close>

definition fail_user :: "int \<Rightarrow> nbfs2 \<Rightarrow> nbfs2 option" where
  "fail_user e st = do { st \<leftarrow> call_user e st; Some (spdk_app_stop (- 1) st) }"

definition post_call :: "blob_call \<Rightarrow> nbfs2_cb \<Rightarrow> nbfs2 \<Rightarrow> nbfs2" where
  "post_call c cb st = st\<lparr>io := post c (Io_client cb) (io st)\<rparr>"

definition nbfs2_malloc :: "nbfs2 \<Rightarrow> bool \<times> nbfs2" where
  "nbfs2_malloc st = (case malloc_fails (io st) of (b, i) \<Rightarrow> (b, st\<lparr>io := i\<rparr>))"

definition spdk_malloc :: "u64 \<Rightarrow> nbfs2 \<Rightarrow> buffer option \<times> nbfs2" where
  "spdk_malloc sz st = (case dma_fail st of
     True # bs \<Rightarrow> (None, st\<lparr>dma_fail := bs\<rparr>)
   | bs \<Rightarrow> (Some (next_buffer st), st\<lparr>dma_fail := tl bs,
       buffers := (buffers st)(next_buffer st \<mapsto> map (fresh_bytes st) [0..<unat sz]),
       next_buffer := next_buffer st + 1\<rparr>))"

definition spdk_free :: "buffer option \<Rightarrow> nbfs2 \<Rightarrow> nbfs2 option" where
  "spdk_free b st = (case b of None \<Rightarrow> Some st
   | Some p \<Rightarrow> do { _ \<leftarrow> buffers st p; Some (st\<lparr>buffers := (buffers st)(p := None)\<rparr>) })"

definition set_super_xattr :: "string \<Rightarrow> xattr_value \<Rightarrow> nbfs2 \<Rightarrow> nbfs2" where
  "set_super_xattr n v st = st\<lparr>xattrs := xattrs st @ [(superblob st, n, v)]\<rparr>"

text \<open>The file \<open>args->file\<close> points to.\<close>

definition upd_args_file :: "(nbfs2_file \<Rightarrow> nbfs2_file) \<Rightarrow> nbfs2 \<Rightarrow> nbfs2 option" where
  "upd_args_file f st = do {
     p \<leftarrow> args_file st;
     x \<leftarrow> file_heap st p;
     Some (st\<lparr>file_heap := (file_heap st)(p \<mapsto> f x)\<rparr>) }"

definition get_args_file :: "nbfs2 \<Rightarrow> nbfs2_file option" where
  "get_args_file st = do { p \<leftarrow> args_file st; file_heap st p }"

text \<open>A name is looked up and the text of its id copied into a buffer of 20 bytes.\<close>

definition find_blobid :: "string \<Rightarrow> nbfs2 \<Rightarrow> spdk_blob_id option" where
  "find_blobid n st = do {
     t \<leftarrow> table st;
     r \<leftarrow> ht_search (ht st) t n;
     s \<leftarrow> r;
     _ \<leftarrow> oassert (length s + 1 \<le> BLOBID_STRING_LEN);
     Some (char2blobid s) }"

section \<open>Files\<close>

definition nbfs2_blob_deleted :: "int \<Rightarrow> nbfs2 \<Rightarrow> nbfs2 option" where
  "nbfs2_blob_deleted bserrno st =
     (if bserrno \<noteq> 0 then Some (spdk_app_stop (- 1) st)
      else do {
        f \<leftarrow> get_args_file st;
        t \<leftarrow> table st;
        (h, t) \<leftarrow> ht_delete (ht st) t (blobid2char (file_blobid f));
        Some (st\<lparr>ht := h, table := Some t, spb_data_size := spb_data_size st - of_nat MDATA_SIZE\<rparr>) })"

definition nbfs2_delete_file :: "string \<Rightarrow> nat option \<Rightarrow> nbfs2 \<Rightarrow> nbfs2 option" where
  "nbfs2_delete_file n cb st = do {
     let st = st\<lparr>user_cb := cb\<rparr>;
     bid \<leftarrow> find_blobid n st;
     st \<leftarrow> upd_args_file (\<lambda>f. f\<lparr>filename := n, file_blobid := bid\<rparr>) st;
     Some (post_call (C_delete_blob bid) N_blob_deleted st) }"

definition nbfs2_read_file :: "buffer option \<Rightarrow> u64 \<Rightarrow> nbfs2_cb \<Rightarrow> nbfs2 \<Rightarrow> nbfs2 option" where
  "nbfs2_read_file buf len cb st = do {
     f \<leftarrow> get_args_file st;
     Some (st\<lparr>io := read_normal_blob (file_blobid f) buf ENABLE_RANDOM_RW len cb (io st)\<rparr>) }"

definition nbfs2_write_file :: "buffer option \<Rightarrow> u64 \<Rightarrow> nbfs2_cb \<Rightarrow> nbfs2 \<Rightarrow> nbfs2 option" where
  "nbfs2_write_file buf len cb st = do {
     f \<leftarrow> get_args_file st;
     Some (st\<lparr>io := write_normal_blob (file_blobid f) buf ENABLE_RANDOM_RW len cb (io st)\<rparr>) }"

definition nbfs2_open_file_sync :: "string \<Rightarrow> nbfs2 \<Rightarrow> nbfs2 option" where
  "nbfs2_open_file_sync n st = do {
     bid \<leftarrow> find_blobid n st;
     upd_args_file (\<lambda>f. f\<lparr>file_blobid := bid, filename := n\<rparr>) st }"

definition nbfs2_file_created :: "spdk_blob_id \<Rightarrow> int \<Rightarrow> nbfs2 \<Rightarrow> nbfs2 option" where
  "nbfs2_file_created bid bserrno st =
     (if bserrno \<noteq> 0 then fail_user bserrno st
      else do {
        st \<leftarrow> upd_args_file (\<lambda>f. f\<lparr>file_blobid := bid\<rparr>) st;
        f \<leftarrow> get_args_file st;
        t \<leftarrow> table st;
        (h, t) \<leftarrow> ht_insert (ht st) t (filename f) (blobid2char (file_blobid f));
        let st = st\<lparr>ht := h, table := Some t, spb_data_size := spb_data_size st + of_nat MDATA_SIZE\<rparr>;
        call_user 0 st })"

definition nbfs2_create_file :: "string \<Rightarrow> nat option \<Rightarrow> nbfs2 \<Rightarrow> nbfs2 option" where
  "nbfs2_create_file n cb st = (case nbfs2_malloc (st\<lparr>user_cb := cb\<rparr>) of
     (True, st) \<Rightarrow> fail_user (- ENOMEM) st
   | (False, st) \<Rightarrow>
       let p = next_file st;
           st = st\<lparr>args_file := Some p, next_file := p + 1,
             file_heap := (file_heap st)(p \<mapsto> \<lparr>file_blobid = garbage_blobid (io st), filename = n\<rparr>)\<rparr>
       in Some (post_call C_create_blob N_file_created st))"

section \<open>Unloading\<close>

definition nbfs2_unload_complete :: "int \<Rightarrow> nbfs2 \<Rightarrow> nbfs2 option" where
  "nbfs2_unload_complete bserrno st =
     (if bserrno \<noteq> 0 then fail_user bserrno st
      else do {
        st \<leftarrow> spdk_free (write_buff st) st;
        st \<leftarrow> spdk_free (read_buff st) st;
        st \<leftarrow> call_user 0 st;
        Some (spdk_app_stop 0 st) })"

definition nbfs2_superblob_written :: "int \<Rightarrow> nbfs2 \<Rightarrow> nbfs2 option" where
  "nbfs2_superblob_written bserrno st =
     (if bserrno \<noteq> 0 then fail_user bserrno st
      else Some (post_call C_bs_unload N_unload_complete st))"

text \<open>The bytes of a struct \<open>_nbfs2_super_block_meta_data\<close>: the id, little endian, then the name.\<close>

definition le64 :: "u64 \<Rightarrow> u8 list" where
  "le64 w = map (\<lambda>j. ucast (drop_bit (8 * j) w)) [0..<8]"

definition of_le64 :: "u8 list \<Rightarrow> u64" where
  "of_le64 bs = foldr (\<lambda>b w. push_bit 8 w OR ucast b) bs 0"

definition str_bytes :: "string \<Rightarrow> u8 list" where
  "str_bytes s = map of_char s"

definition strcpy_name :: "u8 list \<Rightarrow> string \<Rightarrow> u8 list option" where
  "strcpy_name md k = (if length k + 1 \<le> MAXFILENAME
     then Some (take 8 md @ str_bytes k @ [0] @ drop (8 + length k + 1) md) else None)"

definition memcpy :: "u8 list \<Rightarrow> nat \<Rightarrow> u8 list \<Rightarrow> u8 list option" where
  "memcpy dst off src = (if off + length src \<le> length dst
     then Some (take off dst @ src @ drop (off + length src) dst) else None)"

text \<open>The loop of \<open>_nbfs2_write_htable\<close> keeps the struct, the write buffer, \<open>mdata_num\<close> and
  \<open>offset\<close>.\<close>

record store_state =
  mdata :: "u8 list"
  out :: "u8 list"
  mdata_num :: nat
  out_offset :: nat

definition write_entry :: "Ht_item \<Rightarrow> store_state \<Rightarrow> store_state option" where
  "write_entry it w = do {
     md \<leftarrow> strcpy_name (mdata w) (key it);
     let md = le64 (char2blobid (val it)) @ drop 8 md;
     buf \<leftarrow> memcpy (out w) (out_offset w) md;
     Some \<lparr>mdata = md, out = buf, mdata_num = mdata_num w + 1, out_offset = out_offset w + MDATA_SIZE\<rparr> }"

partial_function (option) write_chain ::
    "ht_heap \<Rightarrow> list_ptr option \<Rightarrow> store_state \<Rightarrow> store_state option" where
  "write_chain h head w = (case head of
     None \<Rightarrow> Some w
   | Some l \<Rightarrow> do {
       n \<leftarrow> list_heap h l;
       p \<leftarrow> list_item n;
       it \<leftarrow> item_heap h p;
       w \<leftarrow> write_entry it w;
       write_chain h (list_next n) w })"

fun write_buckets :: "ht_heap \<Rightarrow> HashTable \<Rightarrow> nat list \<Rightarrow> store_state \<Rightarrow> store_state option" where
  "write_buckets h t [] w = Some w"
| "write_buckets h t (i # is) w = do {
     item \<leftarrow> arr_get (items t) i;
     case item of
       None \<Rightarrow> write_buckets h t is w
     | Some p \<Rightarrow> do {
         it \<leftarrow> item_heap h p;
         w \<leftarrow> write_entry it w;
         head \<leftarrow> arr_get (overflow_buckets t) i;
         w \<leftarrow> write_chain h head w;
         write_buckets h t is w } }"

text \<open>What a buffer holds; nothing may be written through NULL or to a freed buffer.\<close>

definition contents :: "nbfs2 \<Rightarrow> buffer option \<Rightarrow> u8 list" where
  "contents st b = (case b of None \<Rightarrow> []
     | Some p \<Rightarrow> (case buffers st p of None \<Rightarrow> [] | Some bs \<Rightarrow> bs))"

definition set_contents :: "buffer option \<Rightarrow> u8 list \<Rightarrow> nbfs2 \<Rightarrow> nbfs2" where
  "set_contents b bs st = (case b of None \<Rightarrow> st
     | Some p \<Rightarrow> if buffers st p = None then st else st\<lparr>buffers := (buffers st)(p \<mapsto> bs)\<rparr>)"

definition nbfs2_write_htable :: "nbfs2 \<Rightarrow> nbfs2 option" where
  "nbfs2_write_htable st = (case nbfs2_malloc st of
     (True, st) \<Rightarrow> fail_user (- ENOMEM) st
   | (False, st) \<Rightarrow> do {
       t \<leftarrow> table st;
       w \<leftarrow> write_buckets (ht st) t [0..<unat (ht_size st)]
         \<lparr>mdata = map (fresh_bytes st) [0..<MDATA_SIZE], out = contents st (write_buff st),
          mdata_num = 0, out_offset = 0\<rparr>;
       let st = set_contents (write_buff st) (out w) st;
       let st = st\<lparr>spb_data_size := of_nat (mdata_num w * MDATA_SIZE)\<rparr>;
       let st = set_super_xattr XATTR_HTS (X32 (ht_size st)) st;
       let st = set_super_xattr XATTR_SPBDS (X64 (spb_data_size st)) st;
       Some (st\<lparr>io := write_super_blob (write_buff st) 0 (spb_data_size st) N_superblob_written (io st)\<rparr>) })"

definition nbfs2_unload_fs :: "nat option \<Rightarrow> nbfs2 \<Rightarrow> nbfs2 option" where
  "nbfs2_unload_fs cb st = (case spdk_malloc (spb_data_size st) (st\<lparr>user_cb := cb\<rparr>) of
     (buf, st) \<Rightarrow> nbfs2_write_htable (st\<lparr>write_buff := buf\<rparr>))"

section \<open>Loading\<close>

text \<open>The name in a struct, up to its NUL.\<close>

definition cstring :: "u8 list \<Rightarrow> string option" where
  "cstring bs = (if 0 \<in> set bs then Some (map (\<lambda>b. char_of (unat b)) (takeWhile (\<lambda>b. b \<noteq> 0) bs)) else None)"

fun build_loop :: "nat \<Rightarrow> nat \<Rightarrow> nbfs2 \<Rightarrow> (bool \<times> nbfs2) option" where
  "build_loop 0 off st = Some (True, st)"
| "build_loop (Suc n) off st = do {
     let buf = contents st (read_buff st);
     _ \<leftarrow> oassert (off + MDATA_SIZE \<le> length buf);
     let md = take MDATA_SIZE (drop off buf);
     case nbfs2_malloc st of
       (True, st) \<Rightarrow> Some (False, spdk_app_stop (- 1) st)
     | (False, st) \<Rightarrow> do {
         nm \<leftarrow> cstring (drop 8 md);
         t \<leftarrow> table st;
         (h, t) \<leftarrow> ht_insert (ht st) t nm (blobid2char (of_le64 (take 8 md)));
         build_loop n (off + MDATA_SIZE) (st\<lparr>ht := h, table := Some t\<rparr>) } }"

text \<open>\<open>mdata_num\<close> is an \<open>int\<close>.\<close>

definition nbfs2_build_htable :: "nbfs2 \<Rightarrow> nbfs2 option" where
  "nbfs2_build_htable st = (case nbfs2_malloc st of
     (True, st) \<Rightarrow> fail_user (- ENOMEM) st
   | (False, st) \<Rightarrow> do {
       let num = sint (ucast (spb_data_size st div of_nat MDATA_SIZE) :: u32);
       (ok, st) \<leftarrow> build_loop (nat num) 0 st;
       if ok then call_user 0 st else Some st })"

definition nbfs2_superblob_read :: "int \<Rightarrow> nbfs2 \<Rightarrow> nbfs2 option" where
  "nbfs2_superblob_read bserrno st =
     (if bserrno \<noteq> 0 then fail_user bserrno st else nbfs2_build_htable st)"

text \<open>\<open>spdk_blob_get_xattr_value\<close> stores a pointer to the value; the code gives it the address of the
  field itself.  Of the pointer in place of the hash table size the upper half ends in the
  padding behind the field.\<close>

definition nbfs2_superblob_opened_load :: "spdk_blob \<Rightarrow> int \<Rightarrow> nbfs2 \<Rightarrow> nbfs2 option" where
  "nbfs2_superblob_opened_load blb bserrno st =
     (if bserrno \<noteq> 0 then fail_user bserrno st
      else do {
        let st = st\<lparr>superblob := blb\<rparr>;
        let st = (case xattr_address st XATTR_HTS of None \<Rightarrow> st | Some a \<Rightarrow> st\<lparr>ht_size := ucast a\<rparr>);
        (h, t) \<leftarrow> create_table (ht st) (sint (ht_size st));
        let st = st\<lparr>ht := h, table := Some t\<rparr>;
        let st = (case xattr_address st XATTR_SPBDS of None \<Rightarrow> st | Some a \<Rightarrow> st\<lparr>spb_data_size := a\<rparr>);
        let (buf, st) = spdk_malloc (spb_data_size st) st;
        let st = st\<lparr>read_buff := buf\<rparr>;
        Some (st\<lparr>io := read_super_blob buf 0 (spb_data_size st) N_superblob_read (io st)\<rparr>) })"

definition nbfs2_superblob_id_got :: "spdk_blob_id \<Rightarrow> int \<Rightarrow> nbfs2 \<Rightarrow> nbfs2 option" where
  "nbfs2_superblob_id_got bid bserrno st =
     (if bserrno \<noteq> 0 then fail_user bserrno st
      else Some (post_call (C_open_blob bid) N_superblob_opened_load (st\<lparr>superblob_id := bid\<rparr>)))"

definition nbfs2_bs_load_complete :: "int \<Rightarrow> nbfs2 \<Rightarrow> nbfs2 option" where
  "nbfs2_bs_load_complete bserrno st =
     (if bserrno \<noteq> 0 then fail_user bserrno st
      else Some (post_call C_get_super N_superblob_id_got st))"

section \<open>Initialising\<close>

definition nbfs2_superblob_opened_init :: "spdk_blob \<Rightarrow> int \<Rightarrow> nbfs2 \<Rightarrow> nbfs2 option" where
  "nbfs2_superblob_opened_init blb bserrno st =
     (if bserrno \<noteq> 0 then fail_user bserrno st
      else do {
        let st = st\<lparr>superblob := blb, ht_size := INIT_HASHTABLE_SIZE\<rparr>;
        let st = set_super_xattr ''HASHTABLE_SIZE'' (X32 (ht_size st)) st;
        (h, t) \<leftarrow> create_table (ht st) (sint (ht_size st));
        call_user 0 (st\<lparr>ht := h, table := Some t\<rparr>) })"

definition nbfs2_superblob_created :: "spdk_blob_id \<Rightarrow> int \<Rightarrow> nbfs2 \<Rightarrow> nbfs2 option" where
  "nbfs2_superblob_created bid bserrno st =
     (if bserrno \<noteq> 0 then fail_user bserrno st
      else Some (post_call (C_open_blob bid) N_superblob_opened_init (st\<lparr>superblob_id := bid\<rparr>)))"

definition nbfs2_bs_init_complete :: "int \<Rightarrow> nbfs2 \<Rightarrow> nbfs2 option" where
  "nbfs2_bs_init_complete bserrno st =
     (if bserrno \<noteq> 0 then fail_user bserrno st
      else Some (st\<lparr>io := create_super_blob N_superblob_created (io st)\<rparr>))"

definition nbfs2_build_fs :: "nat option \<Rightarrow> nbfs2 \<Rightarrow> nbfs2" where
  "nbfs2_build_fs cb st = (let st = st\<lparr>user_cb := cb\<rparr> in
     if build_mthd st = MTHD_INIT then post_call C_bs_init N_bs_init_complete st
     else post_call C_bs_load N_bs_load_complete st)"

text \<open>\<open>rc\<close> is the result of \<open>spdk_bdev_create_bs_dev_ext\<close>.\<close>

definition nbfs2_start :: "int \<Rightarrow> nbfs2 \<Rightarrow> nbfs2" where
  "nbfs2_start rc st =
     (if rc \<noteq> 0 then spdk_app_stop (- 1) st else nbfs2_build_fs None (st\<lparr>bs_dev := True\<rparr>))"

text \<open>\<open>main\<close> up to \<open>spdk_app_start\<close>; the error is its exit code.\<close>

definition nbfs2_main :: "string list \<Rightarrow> nbfs2 \<Rightarrow> int + nbfs2" where
  "nbfs2_main argv st =
     (if length argv \<noteq> CMD_ARG_NUM then Inl (- 1)
      else Inr (st\<lparr>bdev_name := argv ! 2, build_mthd := strcmp (argv ! 3) ''init''\<rparr>))"

section \<open>Completions\<close>

text \<open>The function of this file that a callback names.\<close>

definition run_client :: "nbfs2_cb client_call \<Rightarrow> nbfs2 \<Rightarrow> nbfs2 option" where
  "run_client c st = (case c of
     Call_op cb e \<Rightarrow> (case cb of
         N_blob_deleted \<Rightarrow> nbfs2_blob_deleted e st
       | N_unload_complete \<Rightarrow> nbfs2_unload_complete e st
       | N_superblob_written \<Rightarrow> nbfs2_superblob_written e st
       | N_superblob_read \<Rightarrow> nbfs2_superblob_read e st
       | N_user u \<Rightarrow> Some (st\<lparr>replies := replies st @ [(u, e)]\<rparr>)
       | _ \<Rightarrow> None)
   | Call_id cb b e \<Rightarrow> (case cb of
         N_file_created \<Rightarrow> nbfs2_file_created b e st
       | N_superblob_id_got \<Rightarrow> nbfs2_superblob_id_got b e st
       | N_superblob_created \<Rightarrow> nbfs2_superblob_created b e st
       | _ \<Rightarrow> None)
   | Call_handle cb b e \<Rightarrow> (case cb of
         N_superblob_opened_load \<Rightarrow> nbfs2_superblob_opened_load b e st
       | N_bs_load_complete \<Rightarrow> nbfs2_bs_load_complete e st
       | N_superblob_opened_init \<Rightarrow> nbfs2_superblob_opened_init b e st
       | N_bs_init_complete \<Rightarrow> nbfs2_bs_init_complete e st
       | _ \<Rightarrow> None))"

text \<open>The callbacks called in a step are run in order, with those they call in turn.\<close>

partial_function (option) run_calls :: "nbfs2 \<Rightarrow> nbfs2 option" where
  "run_calls st = (case calls (io st) of
     [] \<Rightarrow> Some st
   | c # cs \<Rightarrow> do {
       st \<leftarrow> run_client c (st\<lparr>io := (io st)\<lparr>calls := cs\<rparr>\<rparr>);
       run_calls st })"

definition nbfs2_complete :: "nat \<Rightarrow> bs_reply \<Rightarrow> nbfs2 \<Rightarrow> nbfs2 option" where
  "nbfs2_complete i r st = do {
     i \<leftarrow> complete_call i r (io st);
     run_calls (st\<lparr>io := i\<rparr>) }"

end
