(* ===== verification/Hash_Buckets.thy ===== *)
theory Hash_Buckets
  imports Hash_Table
begin

text \<open>
  What the hash table of NBFS2 stores.

  The keys of one index, the item of the array first and then the chain, form a bucket.
  \<open>ht_repr\<close> relates the heap and the table to the buckets; every operation on the heap is
  shown equal to its effect on the bucket of its key, on every branch that does not read
  freed or uninitialised memory.  From there: as long as keys are new and buckets are short
  the table is a finite map; and what goes wrong beyond that.
\<close>

section \<open>The hash function\<close>

lemma uint_scast_u8: "uint (scast (x :: u8) :: u64) = sint x mod 2 ^ 64"
  by transfer (simp add: take_bit_eq_mod)

lemma uint_hash_loop:
  "uint (hash_loop i s) = (uint i + (\<Sum>c\<leftarrow>s. sint (of_char c :: u8))) mod 2 ^ 64"
proof (induction s arbitrary: i)
  case (Cons c s)
  have "uint (scast (of_char c :: u8) :: u64) = sint (of_char c :: u8) mod 2 ^ 64"
    by (rule uint_scast_u8)
  then have "uint (i + scast (of_char c :: u8)) = (uint i + sint (of_char c :: u8)) mod 2 ^ 64"
    by (simp add: uint_word_ariths mod_simps)
  then show ?case by (simp add: Cons.IH mod_simps add.assoc)
next
  case Nil
  then show ?case using uint_bounded [of i] by simp
qed

lemma hash_mod: "int (unat (hash_function s)) = (\<Sum>c\<leftarrow>s. sint (of_char c :: u8)) mod 65536"
proof -
  have "int (unat (hash_function s)) = uint (hash_loop 0 s) mod 65536"
    by (simp add: hash_function_def CAPACITY_def uint_mod)
  also have "\<dots> = (\<Sum>c\<leftarrow>s. sint (of_char c :: u8)) mod 2 ^ 64 mod 65536"
    by (simp add: uint_hash_loop)
  finally show ?thesis by (simp add: mod_mod_cancel)
qed

lemma hash_bound [simp]: "unat (hash_function s) < 65536"
  using hash_mod [of s] by (metis nat_int_comparison(2) of_nat_numeral pos_mod_bound zero_less_numeral)


section \<open>Representation\<close>

definition first :: "'a list \<Rightarrow> 'a option" where
  "first xs = (case xs of [] \<Rightarrow> None | x # _ \<Rightarrow> Some x)"

lemma first_simps [simp]: "first [] = None" "first (x # xs) = Some x"
  by (simp_all add: first_def)

fun chain :: "ht_heap \<Rightarrow> list_ptr list \<Rightarrow> item_ptr list \<Rightarrow> bool" where
  "chain h [] [] \<longleftrightarrow> True"
| "chain h (l # ls) (p # ps) \<longleftrightarrow>
     list_heap h l = Some \<lparr>list_item = Some p, list_next = first ls\<rparr> \<and> chain h ls ps"
| "chain h _ _ \<longleftrightarrow> False"

lemma chain_Nil [simp]: "chain h ls [] \<longleftrightarrow> ls = []" "chain h [] ps \<longleftrightarrow> ps = []"
  by (cases ls; simp) (cases ps; simp)

lemma chain_Cons [simp]:
  "chain h ls (p # ps) \<longleftrightarrow> (\<exists>l ls'. ls = l # ls' \<and>
     list_heap h l = Some \<lparr>list_item = Some p, list_next = first ls'\<rparr> \<and> chain h ls' ps)"
  by (cases ls) auto

lemma chain_cong:
  "(\<And>l. l \<in> set ls \<Longrightarrow> list_heap h' l = list_heap h l) \<Longrightarrow> chain h' ls ps = chain h ls ps"
  by (induction ls ps rule: chain.induct) auto

text \<open>One bucket: its items \<open>b\<close>, the pointers \<open>ps\<close> to them and the nodes \<open>ls\<close> of its chain.\<close>

definition bucket_at ::
    "ht_heap \<Rightarrow> item_ptr option \<Rightarrow> list_ptr option \<Rightarrow> item_ptr list \<Rightarrow> list_ptr list \<Rightarrow> Ht_item list \<Rightarrow> bool" where
  "bucket_at h it ov ps ls b \<longleftrightarrow> it = first ps \<and> ov = first ls \<and> chain h ls (tl ps) \<and>
     distinct ps \<and> distinct ls \<and> map (item_heap h) ps = map Some b \<and> length b \<le> 3"

lemma bucket_at_cong:
  assumes "\<And>p. p \<in> set ps \<Longrightarrow> item_heap h' p = item_heap h p"
    and "\<And>l. l \<in> set ls \<Longrightarrow> list_heap h' l = list_heap h l"
  shows "bucket_at h' it ov ps ls b = bucket_at h it ov ps ls b"
proof -
  have "map (item_heap h') ps = map (item_heap h) ps" by (simp add: assms(1))
  then show ?thesis by (simp only: bucket_at_def chain_cong [OF assms(2)])
qed

text \<open>The whole table.  Memory is not exhausted.  What \<open>malloc\<close> leaves in a list node matters for the
  first node of a chain only, whose \<open>next\<close> \<open>handle_collision\<close> does not set: \<open>nl\<close> says that these links
  happen to be NULL.  Without it (\<open>nl = False\<close>) the contents of fresh memory are arbitrary.\<close>

definition ht_fresh :: "bool \<Rightarrow> ht_heap \<Rightarrow> bool" where
  "ht_fresh nl h \<longleftrightarrow> ht_alloc_fail h = [] \<and> (nl \<longrightarrow> (\<forall>l. list_next (fresh_node h l) = None))"

definition ht_repr ::
    "ht_heap \<Rightarrow> HashTable \<Rightarrow> (nat \<Rightarrow> item_ptr list) \<Rightarrow> (nat \<Rightarrow> list_ptr list) \<Rightarrow> (nat \<Rightarrow> Ht_item list) \<Rightarrow> bool" where
  "ht_repr h t P L B \<longleftrightarrow>
     length (overflow_buckets t) = length (items t) \<and> 65536 \<le> length (items t) \<and>
     table_size t = int (length (items t)) \<and>
     table_count t = int (card {i. i < length (items t) \<and> B i \<noteq> []}) \<and>
     (\<forall>i < length (items t).
        bucket_at h (items t ! i) (overflow_buckets t ! i) (P i) (L i) (B i) \<and>
        set (P i) \<subseteq> {..<next_item h} \<and> set (L i) \<subseteq> {..<next_list h} \<and>
        (\<forall>it \<in> set (B i). unat (hash_function (key it)) = i)) \<and>
     (\<forall>i < length (items t). \<forall>j < length (items t). i \<noteq> j \<longrightarrow>
        set (P i) \<inter> set (P j) = {} \<and> set (L i) \<inter> set (L j) = {})"

lemma ht_reprD:
  assumes "ht_repr h t P L B" and "i < length (items t)"
  shows "bucket_at h (items t ! i) (overflow_buckets t ! i) (P i) (L i) (B i)"
    and "set (P i) \<subseteq> {..<next_item h}" and "set (L i) \<subseteq> {..<next_list h}"
    and "\<forall>it \<in> set (B i). unat (hash_function (key it)) = i"
    and "i < length (overflow_buckets t)"
  using assms by (simp_all add: ht_repr_def)

lemma card_update_bucket:
  fixes B :: "nat \<Rightarrow> 'a list"
  assumes "i < n"
  shows "int (card {j. j < n \<and> (B(i := b)) j \<noteq> []}) =
    int (card {j. j < n \<and> B j \<noteq> []}) + of_bool (b \<noteq> []) - of_bool (B i \<noteq> [])"
proof -
  let ?S = "{j. j < n \<and> j \<noteq> i \<and> B j \<noteq> []}"
  have fin: "finite ?S" and ni: "i \<notin> ?S" by simp_all
  have 1: "{j. j < n \<and> (B(i := b)) j \<noteq> []} = (if b = [] then ?S else insert i ?S)"
    using assms by auto
  have 2: "{j. j < n \<and> B j \<noteq> []} = (if B i = [] then ?S else insert i ?S)"
    using assms by auto
  show ?thesis unfolding 1 2 using fin ni by simp
qed

lemma ht_repr_update:
  assumes R: "ht_repr h t P L B" and i: "i < length (items t)"
    and frame: "\<And>p. p \<notin> set (P i) \<Longrightarrow> p < next_item h \<Longrightarrow> item_heap h' p = item_heap h p"
      "\<And>l. l \<notin> set (L i) \<Longrightarrow> l < next_list h \<Longrightarrow> list_heap h' l = list_heap h l"
    and mono: "next_item h \<le> next_item h'" "next_list h \<le> next_list h'"
    and bucket: "bucket_at h' it ov ps ls b"
    and new: "set ps \<subseteq> set (P i) \<union> {next_item h..<next_item h'}"
      "set ls \<subseteq> set (L i) \<union> {next_list h..<next_list h'}"
    and keys: "\<forall>x \<in> set b. unat (hash_function (key x)) = i"
    and t': "items t' = (items t)[i := it]" "overflow_buckets t' = (overflow_buckets t)[i := ov]"
      "table_size t' = table_size t"
      "table_count t' = table_count t + of_bool (b \<noteq> []) - of_bool (B i \<noteq> [])"
  shows "ht_repr h' t' (P(i := ps)) (L(i := ls)) (B(i := b))"
proof -
  let ?n = "length (items t)"
  have R': "length (overflow_buckets t) = ?n" "65536 \<le> ?n" "table_size t = int ?n"
    "table_count t = int (card {i. i < ?n \<and> B i \<noteq> []})"
    using R by (simp_all add: ht_repr_def)
  have disj: "set (P j) \<inter> set (P k) = {} \<and> set (L j) \<inter> set (L k) = {}"
    if "j < ?n" "k < ?n" "j \<noteq> k" for j k
    using R that unfolding ht_repr_def by blast
  have old: "bucket_at h' (items t ! j) (overflow_buckets t ! j) (P j) (L j) (B j)"
    if "j < ?n" "j \<noteq> i" for j
  proof -
    have "item_heap h' p = item_heap h p" if "p \<in> set (P j)" for p
      using that disj [of i j] ht_reprD(2) [OF R, of j] \<open>j < ?n\<close> \<open>j \<noteq> i\<close> i by (intro frame(1)) auto
    moreover have "list_heap h' l = list_heap h l" if "l \<in> set (L j)" for l
      using that disj [of i j] ht_reprD(3) [OF R, of j] \<open>j < ?n\<close> \<open>j \<noteq> i\<close> i by (intro frame(2)) auto
    ultimately show ?thesis
      using ht_reprD(1) [OF R \<open>j < ?n\<close>] bucket_at_cong [of "P j" h' h "L j"] by blast
  qed
  have sub: "set ((P(i := ps)) j) \<subseteq> {..<next_item h'}" "set ((L(i := ls)) j) \<subseteq> {..<next_list h'}"
    if "j < ?n" for j
  proof -
    have "set ps \<subseteq> {..<next_item h'}" "set ls \<subseteq> {..<next_list h'}"
      using new mono ht_reprD(2,3) [OF R i] by fastforce+
    moreover have "set (P j) \<subseteq> {..<next_item h'}" "set (L j) \<subseteq> {..<next_list h'}"
      using mono ht_reprD(2,3) [OF R that] by fastforce+
    ultimately show "set ((P(i := ps)) j) \<subseteq> {..<next_item h'}" "set ((L(i := ls)) j) \<subseteq> {..<next_list h'}"
      by simp_all
  qed
  have dj: "set ((P(i := ps)) j) \<inter> set ((P(i := ps)) k) = {} \<and> set ((L(i := ls)) j) \<inter> set ((L(i := ls)) k) = {}"
    if "j < ?n" "k < ?n" "j \<noteq> k" for j k
  proof -
    have other: "set ps \<inter> set (P m) = {} \<and> set ls \<inter> set (L m) = {}" if "m < ?n" "m \<noteq> i" for m
    proof
      show "set ps \<inter> set (P m) = {}"
        using disj [OF i that(1)] ht_reprD(2) [OF R that(1)] new(1) that(2) by fastforce
      show "set ls \<inter> set (L m) = {}"
        using disj [OF i that(1)] ht_reprD(3) [OF R that(1)] new(2) that(2) by fastforce
    qed
    show ?thesis
      using disj [OF that] other [of j] other [of k] that by (cases "j = i"; cases "k = i") auto
  qed
  have cnt: "table_count t' = int (card {j. j < ?n \<and> (B(i := b)) j \<noteq> []})"
    using card_update_bucket [OF i, of B b] R'(4) t'(4) by simp
  have each: "bucket_at h' (items t' ! j) (overflow_buckets t' ! j) ((P(i := ps)) j) ((L(i := ls)) j) ((B(i := b)) j)
      \<and> (\<forall>x \<in> set ((B(i := b)) j). unat (hash_function (key x)) = j)" if "j < ?n" for j
    using old [OF that] bucket i R'(1) keys ht_reprD(4) [OF R that] by (cases "j = i") (simp_all add: t')
  show ?thesis
    unfolding ht_repr_def using R' cnt each sub dj by (simp add: t')
qed

section \<open>Operations on buckets\<close>

lemma search_loop_bucket:
  "map (item_heap h) (p # ps) = map Some b \<Longrightarrow> chain h ls ps \<Longrightarrow>
   search_loop h k (Some p) (first ls) = Some (map_option val (find (\<lambda>it. key it = k) b))"
proof (induction ls arbitrary: p ps b)
  case Nil
  then show ?case by (subst search_loop.simps) (auto simp: map_eq_Cons_conv)
next
  case (Cons l ls)
  then obtain q qs it b' where sh: "ps = q # qs" "b = it # b'" "item_heap h p = Some it"
      "list_heap h l = Some \<lparr>list_item = Some q, list_next = first ls\<rparr>" "chain h ls qs"
      "map (item_heap h) (q # qs) = map Some b'"
    by (cases ps; cases b) auto
  show ?case
    by (subst search_loop.simps) (simp add: sh(1-4) Cons.IH [OF sh(6) sh(5)])
qed

abbreviation index_of :: "string \<Rightarrow> nat" where
  "index_of k \<equiv> unat (hash_function k)"

lemma index_in_table [simp]:
  "ht_repr h t P L B \<Longrightarrow> index_of k < length (items t)"
  "ht_repr h t P L B \<Longrightarrow> index_of k < length (overflow_buckets t)"
  by (simp_all add: ht_repr_def less_le_trans [OF hash_bound])

lemma ht_search_repr:
  assumes R: "ht_repr h t P L B"
  shows "ht_search h t k = Some (map_option val (find (\<lambda>it. key it = k) (B (index_of k))))"
proof -
  let ?i = "index_of k"
  have b: "bucket_at h (items t ! ?i) (overflow_buckets t ! ?i) (P ?i) (L ?i) (B ?i)"
    using R by (intro ht_reprD(1)) simp_all
  show ?thesis
  proof (cases "P ?i")
    case Nil
    with b R show ?thesis
      by (simp add: bucket_at_def ht_search_def arr_get_def search_loop.simps)
  next
    case (Cons p ps)
    with b R show ?thesis
      by (simp add: bucket_at_def ht_search_def arr_get_def search_loop_bucket [of h p ps])
  qed
qed

definition new_item :: "string \<Rightarrow> string \<Rightarrow> Ht_item" where
  "new_item k v = \<lparr>key = k, val = v, value_room = length v + 1\<rparr>"

lemma new_item_simps [simp]:
  "key (new_item k v) = k" "val (new_item k v) = v" "value_room (new_item k v) = length v + 1"
  by (simp_all add: new_item_def)

lemma ht_malloc_fresh [simp]: "ht_alloc_fail h = [] \<Longrightarrow> ht_malloc h = Some h"
  by (simp add: ht_malloc_def)

lemma create_item_fresh [simp]:
  "ht_alloc_fail h = [] \<Longrightarrow> create_item h k v =
     Some (h\<lparr>item_heap := (item_heap h)(next_item h \<mapsto> new_item k v), next_item := next_item h + 1\<rparr>,
       next_item h)"
  by (simp add: create_item_def new_item_def Let_def)

lemma fresh_node_item:
  "ht_fresh True h \<Longrightarrow> (fresh_node h l)\<lparr>list_item := Some p\<rparr> = \<lparr>list_item = Some p, list_next = None\<rparr>"
  by (rule LinkedList.equality) (simp_all add: ht_fresh_def)

lemma node_item_next:
  "n\<lparr>list_item := p, list_next := q\<rparr> = \<lparr>list_item = p, list_next = q\<rparr>" for n :: LinkedList
  by (rule LinkedList.equality) simp_all

text \<open>What an insertion and a deletion do to a bucket.  The fourth key of an index takes the
  place of the third; the deletion of the second key drops the third as well.\<close>

definition bucket_insert :: "string \<Rightarrow> string \<Rightarrow> Ht_item list \<Rightarrow> Ht_item list" where
  "bucket_insert k v b = (case b of
     [] \<Rightarrow> [new_item k v]
   | it # rest \<Rightarrow> if key it = k then it\<lparr>val := v\<rparr> # rest else take 2 b @ [new_item k v])"

fun bucket_delete :: "string \<Rightarrow> Ht_item list \<Rightarrow> Ht_item list" where
  "bucket_delete k [] = []"
| "bucket_delete k [x] = (if key x = k then [] else [x])"
| "bucket_delete k (x # y # rest) = (if key x = k then new_item (key y) (val y) # rest
     else if key y = k then [x] else x # y # rest)"

lemma keys_bucket_insert:
  "it \<in> set (bucket_insert k v b) \<Longrightarrow> key it = k \<or> (\<exists>it' \<in> set b. key it' = key it)"
  by (auto simp: bucket_insert_def split: list.splits if_splits dest: in_set_takeD)

lemma keys_bucket_delete:
  "it \<in> set (bucket_delete k b) \<Longrightarrow> \<exists>it' \<in> set b. key it' = key it"
  by (cases "(k, b)" rule: bucket_delete.cases) (auto split: if_splits)

lemma list_update_nth: "xs ! i = v \<Longrightarrow> xs[i := v] = xs"
  by auto

lemmas insert_run = ht_insert_def arr_get_def arr_set_def ht_fresh_def handle_collision_def
  linkedlist_insert_def allocate_list_def upd_node_def Let_def

lemma ht_repr_insert_empty:
  assumes R: "ht_repr h t P L B" and F: "ht_fresh nl h" and b: "B (index_of k) = []"
  shows "\<exists>h' t' P' L'. ht_insert h t k v = Some (h', t') \<and> ht_fresh nl h' \<and>
     ht_repr h' t' P' L' (B(index_of k := [new_item k v]))"
proof -
  let ?i = "index_of k" and ?n = "length (items t)"
  have i: "?i < ?n" "?i < length (overflow_buckets t)" using R by simp_all
  have sh: "P ?i = []" "L ?i = []" "items t ! ?i = None" "overflow_buckets t ! ?i = None"
    using ht_reprD(1) [OF R i(1)] b by (auto simp: bucket_at_def)
  have "{j. j < ?n \<and> B j \<noteq> []} \<subset> {..<?n}" using i b by auto
  from psubset_card_mono [OF _ this]
  have room: "table_count t \<noteq> table_size t" using R by (simp add: ht_repr_def)
  define h' where "h' = h\<lparr>item_heap := (item_heap h)(next_item h \<mapsto> new_item k v),
      next_item := next_item h + 1\<rparr>"
  define t' where "t' = t\<lparr>items := (items t)[?i := Some (next_item h)],
      table_count := table_count t + 1\<rparr>"
  have run: "ht_insert h t k v = Some (h', t')"
    using F i sh room by (simp add: insert_run h'_def t'_def)
  have "ht_repr h' t' (P(?i := [next_item h])) (L(?i := [])) (B(?i := [new_item k v]))"
    by (rule ht_repr_update [OF R i(1), where it = "Some (next_item h)" and ov = None])
      (use b sh in \<open>auto simp: h'_def t'_def bucket_at_def list_update_nth\<close>)
  moreover have "ht_fresh nl h'" using F by (simp add: h'_def ht_fresh_def)
  ultimately show ?thesis using run by blast
qed

lemma ht_repr_insert_first:
  assumes R: "ht_repr h t P L B" and F: "ht_fresh nl h" and b: "B (index_of k) = it # rest"
    and k: "key it = k" and room: "length v < value_room it"
  shows "\<exists>h' t' P' L'. ht_insert h t k v = Some (h', t') \<and> ht_fresh nl h' \<and>
     ht_repr h' t' P' L' (B(index_of k := it\<lparr>val := v\<rparr> # rest))"
proof -
  let ?i = "index_of k"
  have i: "?i < length (items t)" "?i < length (overflow_buckets t)" using R by simp_all
  have bk: "bucket_at h (items t ! ?i) (overflow_buckets t ! ?i) (P ?i) (L ?i) (it # rest)"
    using ht_reprD(1) [OF R i(1)] b by simp
  then obtain p ps where sh: "P ?i = p # ps" "items t ! ?i = Some p" "item_heap h p = Some it"
    by (cases "P ?i") (auto simp: bucket_at_def)
  have p: "p < next_item h" using ht_reprD(2) [OF R i(1)] sh by simp
  define h' where "h' = h\<lparr>item_heap := (item_heap h)(next_item h \<mapsto> new_item k v, p \<mapsto> it\<lparr>val := v\<rparr>),
      next_item := next_item h + 1\<rparr>"
  have run: "ht_insert h t k v = Some (h', t)"
    using F i sh p k room by (simp add: insert_run h'_def)
  have "set ps \<subseteq> {..<next_item h}" using ht_reprD(2) [OF R i(1)] sh by simp
  moreover have "p \<notin> set ps" "map (item_heap h) ps = map Some rest" using bk sh by (auto simp: bucket_at_def)
  ultimately have "map (item_heap h') ps = map Some rest"
    by (auto simp: h'_def intro!: map_cong elim!: trans [rotated])
  then have "ht_repr h' t (P(?i := p # ps)) (L(?i := L ?i)) (B(?i := it\<lparr>val := v\<rparr> # rest))"
    using bk sh b ht_reprD(4) [OF R i(1)] k p
    by (intro ht_repr_update [OF R i(1), where it = "items t ! ?i" and ov = "overflow_buckets t ! ?i"])
      (auto simp: h'_def bucket_at_def list_update_nth chain_cong [of _ h' h]
        intro: chain_cong [THEN iffD1, rotated])
  moreover have "ht_fresh nl h'" using F by (simp add: h'_def ht_fresh_def)
  ultimately show ?thesis using run by blast
qed

text \<open>The shapes of a bucket that has at least one item.\<close>

lemma bucket_at_cases [consumes 1, case_names one two three]:
  assumes "bucket_at h it ov ps ls (x # b)"
  obtains p where "ps = [p]" "ls = []" "b = []" "it = Some p" "ov = None" "item_heap h p = Some x"
  | p q y l where "ps = [p, q]" "ls = [l]" "b = [y]" "it = Some p" "ov = Some l" "p \<noteq> q"
      "item_heap h p = Some x" "item_heap h q = Some y"
      "list_heap h l = Some \<lparr>list_item = Some q, list_next = None\<rparr>"
  | p q r y z l m where "ps = [p, q, r]" "ls = [l, m]" "b = [y, z]" "it = Some p" "ov = Some l"
      "distinct [p, q, r]" "l \<noteq> m"
      "item_heap h p = Some x" "item_heap h q = Some y" "item_heap h r = Some z"
      "list_heap h l = Some \<lparr>list_item = Some q, list_next = Some m\<rparr>"
      "list_heap h m = Some \<lparr>list_item = Some r, list_next = None\<rparr>"
proof -
  obtain p ps' where ps: "ps = p # ps'" using assms by (cases ps) (auto simp: bucket_at_def)
  have len: "length ps' = length b" "length b \<le> 2"
    using assms ps by (auto simp: bucket_at_def dest: map_eq_imp_length_eq)
  then consider "b = []" | y where "b = [y]" | y z where "b = [y, z]"
    by (cases b rule: remdups_adj.cases) auto
  then show thesis
  proof cases
    case 1
    with assms ps len that(1) show ?thesis by (auto simp: bucket_at_def)
  next
    case (2 y)
    with len obtain q where "ps' = [q]" by (auto simp: length_Suc_conv)
    with 2 assms ps that(2) show ?thesis by (auto simp: bucket_at_def)
  next
    case (3 y z)
    with len obtain q r where "ps' = [q, r]" by (auto simp: length_Suc_conv)
    with 3 assms ps that(3) show ?thesis by (auto simp: bucket_at_def)
  qed
qed

lemma ht_repr_insert_collision:
  assumes R: "ht_repr h t P L B" and F: "ht_fresh True h" and b: "B (index_of k) = x # rest"
    and k: "key x \<noteq> k"
  shows "\<exists>h' t' P' L'. ht_insert h t k v = Some (h', t') \<and> ht_fresh True h' \<and>
     ht_repr h' t' P' L' (B(index_of k := take 2 (x # rest) @ [new_item k v]))"
proof -
  let ?i = "index_of k" and ?N = "next_item h" and ?M = "next_list h"
  let ?h = "h\<lparr>item_heap := (item_heap h)(?N \<mapsto> new_item k v), next_item := ?N + 1,
    next_list := ?M + 1\<rparr>"
  let ?last = "\<lparr>list_item = Some ?N, list_next = None\<rparr>"
  have i: "?i < length (items t)" "?i < length (overflow_buckets t)" using R by simp_all
  have lt: "p \<in> set (P ?i) \<Longrightarrow> p < ?N" "l \<in> set (L ?i) \<Longrightarrow> l < ?M" for p l
    using ht_reprD(2,3) [OF R i(1)] by auto
  note fn = fresh_node_item [OF F] and F' = F [unfolded ht_fresh_def]
  have hk: "index_of (key y) = ?i" if "y \<in> set (x # rest)" for y
    using ht_reprD(4) [OF R i(1)] b that by auto
  have "bucket_at h (items t ! ?i) (overflow_buckets t ! ?i) (P ?i) (L ?i) (x # rest)"
    using ht_reprD(1) [OF R i(1)] b by simp
  then show ?thesis
  proof (cases rule: bucket_at_cases)
    case (one p)
    define h' where "h' = ?h\<lparr>list_heap := (list_heap h)(?M \<mapsto> ?last)\<rparr>"
    define t' where "t' = t\<lparr>overflow_buckets := (overflow_buckets t)[?i := Some ?M]\<rparr>"
    have p: "p < ?N" using lt one by simp
    have run: "ht_insert h t k v = Some (h', t')"
      using F' i one p k by (simp add: insert_run fn h'_def t'_def)
    have "ht_repr h' t' (P(?i := [p, ?N])) (L(?i := [?M])) (B(?i := [x, new_item k v]))"
      by (rule ht_repr_update [OF R i(1), where it = "Some p" and ov = "Some ?M"])
        (use one p b hk in \<open>auto simp: h'_def t'_def bucket_at_def list_update_nth\<close>)
    moreover have "ht_fresh True h'" using F by (simp add: h'_def ht_fresh_def)
    ultimately show ?thesis using run one by auto
  next
    case (two p q y l)
    define h' where "h' = ?h\<lparr>list_heap := (list_heap h)
      (?M \<mapsto> ?last, l \<mapsto> \<lparr>list_item = Some q, list_next = Some ?M\<rparr>)\<rparr>"
    have p: "p < ?N" "q < ?N" "l < ?M" using lt two by simp_all
    have run: "ht_insert h t k v = Some (h', t)"
      using F' i two p k by (simp add: insert_run fn h'_def list_update_nth node_item_next)
    have "ht_repr h' t (P(?i := [p, q, ?N])) (L(?i := [l, ?M])) (B(?i := [x, y, new_item k v]))"
      by (rule ht_repr_update [OF R i(1), where it = "Some p" and ov = "Some l"])
        (use two p b hk in \<open>auto simp: h'_def bucket_at_def list_update_nth\<close>)
    moreover have "ht_fresh True h'" using F by (simp add: h'_def ht_fresh_def)
    ultimately show ?thesis using run two by auto
  next
    case (three p q r y z l m)
    define h' where "h' = ?h\<lparr>list_heap := (list_heap h)
      (?M \<mapsto> ?last, l \<mapsto> \<lparr>list_item = Some q, list_next = Some ?M\<rparr>)\<rparr>"
    have p: "p < ?N" "q < ?N" "r < ?N" "l < ?M" "m < ?M" using lt three by simp_all
    have "insert_walk (h\<lparr>item_heap := I, next_item := n\<rparr>) l = Some l" for I n
      using three by (simp add: insert_walk.simps)
    then have run: "ht_insert h t k v = Some (h', t)"
      using F' i three p k by (simp add: insert_run fn h'_def list_update_nth node_item_next)
    have "ht_repr h' t (P(?i := [p, q, ?N])) (L(?i := [l, ?M])) (B(?i := [x, y, new_item k v]))"
      by (rule ht_repr_update [OF R i(1), where it = "Some p" and ov = "Some l"])
        (use three p b hk in \<open>auto simp: h'_def bucket_at_def list_update_nth\<close>)
    moreover have "ht_fresh True h'" using F by (simp add: h'_def ht_fresh_def)
    ultimately show ?thesis using run three by auto
  qed
qed

lemma ht_repr_insert:
  assumes "ht_repr h t P L B" and "ht_fresh nl h"
    and "\<forall>it rest. B (index_of k) = it # rest \<longrightarrow> (if key it = k then length v < value_room it else nl)"
  shows "\<exists>h' t' P' L'. ht_insert h t k v = Some (h', t') \<and> ht_fresh nl h' \<and>
     ht_repr h' t' P' L' (B(index_of k := bucket_insert k v (B (index_of k))))"
proof (cases "B (index_of k)")
  case Nil
  then show ?thesis using ht_repr_insert_empty [OF assms(1,2) Nil] by (simp add: bucket_insert_def)
next
  case (Cons it rest)
  then show ?thesis
    using ht_repr_insert_first [OF assms(1,2) Cons] ht_repr_insert_collision [OF assms(1) _ Cons] assms(2,3)
    by (cases "key it = k") (simp_all add: bucket_insert_def)
qed

lemma free_linkedlist_simps [simp]:
  "free_linkedlist h None = Some h"
  "list_heap h l = Some n \<Longrightarrow> list_item n = Some p \<Longrightarrow> item_heap h p = Some it \<Longrightarrow>
   free_linkedlist h (Some l) = free_linkedlist
     (h\<lparr>item_heap := (item_heap h)(p := None), list_heap := (list_heap h)(l := None)\<rparr>) (list_next n)"
  by (subst free_linkedlist.simps, simp add: free_item_def)+

lemmas delete_run = ht_delete_def arr_get_def arr_set_def ht_fresh_def free_item_def upd_node_def Let_def

text \<open>A key that the bucket does not hold is not found and nothing changes.\<close>

lemma delete_walk_absent:
  "chain h ls ps \<Longrightarrow> map (item_heap h) ps = map Some b \<Longrightarrow> k \<notin> key ` set b \<Longrightarrow>
   delete_walk h t i k head (first ls) prev = Some (h, t)"
proof (induction ls arbitrary: ps b prev)
  case Nil
  then show ?case by (simp add: delete_walk.simps)
next
  case (Cons l ls)
  then obtain q qs it b' where sh: "ps = q # qs" "b = it # b'" "item_heap h q = Some it"
      "list_heap h l = Some \<lparr>list_item = Some q, list_next = first ls\<rparr>" "chain h ls qs"
      "map (item_heap h) qs = map Some b'"
    by (cases ps; cases b) auto
  with Cons.prems(3) have "key it \<noteq> k" "k \<notin> key ` set b'" by auto
  with sh show ?case by (subst delete_walk.simps) (simp add: Cons.IH [OF sh(5,6)])
qed

lemma ht_delete_absent:
  assumes R: "ht_repr h t P L B" and k: "k \<notin> key ` set (B (index_of k))"
  shows "ht_delete h t k = Some (h, t)"
proof -
  let ?i = "index_of k"
  have i: "?i < length (items t)" "?i < length (overflow_buckets t)" using R by simp_all
  have b: "bucket_at h (items t ! ?i) (overflow_buckets t ! ?i) (P ?i) (L ?i) (B ?i)"
    using ht_reprD(1) [OF R i(1)] .
  show ?thesis
  proof (cases "P ?i")
    case Nil
    with b i show ?thesis by (simp add: bucket_at_def delete_run)
  next
    case (Cons p ps)
    with b obtain it b' where "B ?i = it # b'" "item_heap h p = Some it"
        "map (item_heap h) ps = map Some b'" "chain h (L ?i) ps" "items t ! ?i = Some p"
        "overflow_buckets t ! ?i = first (L ?i)"
      by (cases "B ?i") (auto simp: bucket_at_def)
    with i k delete_walk_absent [of h "L ?i" ps b' k] show ?thesis
      by (cases "L ?i") (auto simp: delete_run)
  qed
qed

lemma ht_repr_delete_first:
  assumes R: "ht_repr h t P L B" and F: "ht_fresh nl h" and b: "B (index_of k) = x # rest"
    and k: "key x = k"
  shows "\<exists>h' t' P' L'. ht_delete h t k = Some (h', t') \<and> ht_fresh nl h' \<and>
     ht_repr h' t' P' L' (B(index_of k := bucket_delete k (x # rest)))"
proof -
  let ?i = "index_of k" and ?N = "next_item h"
  have i: "?i < length (items t)" "?i < length (overflow_buckets t)" using R by simp_all
  have lt: "p \<in> set (P ?i) \<Longrightarrow> p < ?N" "l \<in> set (L ?i) \<Longrightarrow> l < next_list h" for p l
    using ht_reprD(2,3) [OF R i(1)] by auto
  note F' = F [unfolded ht_fresh_def]
  have hk: "index_of (key y) = ?i" if "y \<in> set (x # rest)" for y
    using ht_reprD(4) [OF R i(1)] b that by auto
  have "bucket_at h (items t ! ?i) (overflow_buckets t ! ?i) (P ?i) (L ?i) (x # rest)"
    using ht_reprD(1) [OF R i(1)] b by simp
  then show ?thesis
  proof (cases rule: bucket_at_cases)
    case (one p)
    define h' where "h' = h\<lparr>item_heap := (item_heap h)(p := None)\<rparr>"
    define t' where "t' = t\<lparr>items := (items t)[?i := None], table_count := table_count t - 1\<rparr>"
    have run: "ht_delete h t k = Some (h', t')"
      using i one k by (simp add: delete_run h'_def t'_def)
    have "ht_repr h' t' (P(?i := [])) (L(?i := [])) (B(?i := []))"
      by (rule ht_repr_update [OF R i(1), where it = None and ov = None])
        (use one b in \<open>auto simp: h'_def t'_def bucket_at_def list_update_nth\<close>)
    moreover have "ht_fresh nl h'" using F by (simp add: h'_def ht_fresh_def)
    ultimately show ?thesis using run one k by auto
  next
    case (two p q y l)
    define h' where "h' = h\<lparr>item_heap := (item_heap h)(p := None, ?N \<mapsto> new_item (key y) (val y), q := None),
      next_item := ?N + 1, list_heap := (list_heap h)(l := None)\<rparr>"
    define t' where "t' = t\<lparr>items := (items t)[?i := Some ?N],
      overflow_buckets := (overflow_buckets t)[?i := None]\<rparr>"
    have p: "p < ?N" "q < ?N" using lt two by simp_all
    have run: "ht_delete h t k = Some (h', t')"
      using F' i two p k by (simp add: delete_run h'_def t'_def)
    have "ht_repr h' t' (P(?i := [?N])) (L(?i := [])) (B(?i := [new_item (key y) (val y)]))"
      by (rule ht_repr_update [OF R i(1), where it = "Some ?N" and ov = None])
        (use two p b hk in \<open>auto simp: h'_def t'_def bucket_at_def\<close>)
    moreover have "ht_fresh nl h'" using F by (simp add: h'_def ht_fresh_def)
    ultimately show ?thesis using run two k by auto
  next
    case (three p q r y z l m)
    define h' where "h' = h\<lparr>item_heap := (item_heap h)(p := None, ?N \<mapsto> new_item (key y) (val y), q := None),
      next_item := ?N + 1, list_heap := (list_heap h)(l := None)\<rparr>"
    define t' where "t' = t\<lparr>items := (items t)[?i := Some ?N],
      overflow_buckets := (overflow_buckets t)[?i := Some m]\<rparr>"
    have p: "p < ?N" "q < ?N" "r < ?N" using lt three by simp_all
    have run: "ht_delete h t k = Some (h', t')"
      using F' i three p k by (simp add: delete_run h'_def t'_def)
    have "ht_repr h' t' (P(?i := [?N, r])) (L(?i := [m])) (B(?i := [new_item (key y) (val y), z]))"
      by (rule ht_repr_update [OF R i(1), where it = "Some ?N" and ov = "Some m"])
        (use three p b hk in \<open>auto simp: h'_def t'_def bucket_at_def\<close>)
    moreover have "ht_fresh nl h'" using F by (simp add: h'_def ht_fresh_def)
    ultimately show ?thesis using run three k by auto
  qed
qed

lemma ht_repr_delete_second:
  assumes R: "ht_repr h t P L B" and F: "ht_fresh nl h" and b: "B (index_of k) = x # y # rest"
    and k: "key x \<noteq> k" "key y = k"
  shows "\<exists>h' t' P' L'. ht_delete h t k = Some (h', t') \<and> ht_fresh nl h' \<and>
     ht_repr h' t' P' L' (B(index_of k := [x]))"
proof -
  let ?i = "index_of k"
  define t' where "t' = t\<lparr>overflow_buckets := (overflow_buckets t)[?i := None]\<rparr>"
  have i: "?i < length (items t)" "?i < length (overflow_buckets t)" using R by simp_all
  have hk: "index_of (key x) = ?i" using ht_reprD(4) [OF R i(1)] b by auto
  have "bucket_at h (items t ! ?i) (overflow_buckets t ! ?i) (P ?i) (L ?i) (x # y # rest)"
    using ht_reprD(1) [OF R i(1)] b by simp
  then show ?thesis
  proof (cases rule: bucket_at_cases)
    case (two p q y' l)
    define h' where "h' = h\<lparr>item_heap := (item_heap h)(q := None), list_heap := (list_heap h)(l := None)\<rparr>"
    have run: "ht_delete h t k = Some (h', t')"
      using i two k by (simp add: delete_run delete_walk.simps h'_def t'_def)
    have "ht_repr h' t' (P(?i := [p])) (L(?i := [])) (B(?i := [x]))"
      by (rule ht_repr_update [OF R i(1), where it = "Some p" and ov = None])
        (use two b hk in \<open>auto simp: h'_def t'_def bucket_at_def list_update_nth\<close>)
    moreover have "ht_fresh nl h'" using F by (simp add: h'_def ht_fresh_def)
    ultimately show ?thesis using run by blast
  next
    case (three p q r y' z l m)
    define h' where "h' = h\<lparr>item_heap := (item_heap h)(q := None, r := None),
      list_heap := (list_heap h)(l := None, m := None)\<rparr>"
    have run: "ht_delete h t k = Some (h', t')"
      using i three k by (simp add: delete_run delete_walk.simps h'_def t'_def)
    have "ht_repr h' t' (P(?i := [p])) (L(?i := [])) (B(?i := [x]))"
      by (rule ht_repr_update [OF R i(1), where it = "Some p" and ov = None])
        (use three b hk in \<open>auto simp: h'_def t'_def bucket_at_def list_update_nth\<close>)
    moreover have "ht_fresh nl h'" using F by (simp add: h'_def ht_fresh_def)
    ultimately show ?thesis using run by blast
  qed simp
qed

lemma ht_repr_delete:
  assumes R: "ht_repr h t P L B" and F: "ht_fresh nl h"
    and k: "k \<notin> key ` set (drop 2 (B (index_of k)))"
  shows "\<exists>h' t' P' L'. ht_delete h t k = Some (h', t') \<and> ht_fresh nl h' \<and>
     ht_repr h' t' P' L' (B(index_of k := bucket_delete k (B (index_of k))))"
proof -
  let ?b = "B (index_of k)"
  consider x rest where "?b = x # rest" "key x = k"
    | x y rest where "?b = x # y # rest" "key x \<noteq> k" "key y = k"
    | "k \<notin> key ` set ?b"
    using k by (cases "(k, ?b)" rule: bucket_delete.cases) fastforce+
  then show ?thesis
  proof cases
    case (1 x rest)
    then show ?thesis using ht_repr_delete_first [OF R F 1] by simp
  next
    case (2 x y rest)
    then show ?thesis using ht_repr_delete_second [OF R F 2] by simp
  next
    case 3
    then have "bucket_delete k ?b = ?b"
      by (cases "(k, ?b)" rule: bucket_delete.cases) auto
    with 3 show ?thesis using ht_delete_absent [OF R 3] R F by auto
  qed
qed

text \<open>The deletion of the third key frees the last node of the chain and leaves the node before
  it pointing there.\<close>

lemma ht_delete_third:
  assumes R: "ht_repr h t P L B" and b: "B (index_of k) = [x, y, z]"
    and k: "key x \<noteq> k" "key y \<noteq> k" "key z = k"
    and k': "index_of k' = index_of k" "key x \<noteq> k'" "key y \<noteq> k'"
  shows "\<exists>h' t'. ht_delete h t k = Some (h', t') \<and> ht_search h' t' k' = None"
proof -
  let ?i = "index_of k"
  have i: "?i < length (items t)" "?i < length (overflow_buckets t)" using R by simp_all
  have "bucket_at h (items t ! ?i) (overflow_buckets t ! ?i) (P ?i) (L ?i) (x # [y, z])"
    using ht_reprD(1) [OF R i(1)] b by simp
  then show ?thesis
  proof (cases rule: bucket_at_cases)
    case (three p q r y' z' l m)
    then have "ht_delete h t k = Some (h\<lparr>item_heap := (item_heap h)(r := None),
        list_heap := (list_heap h)(m := None)\<rparr>, t)"
      using i k by (simp add: delete_run delete_walk.simps list_update_nth)
    moreover have "ht_search (h\<lparr>item_heap := (item_heap h)(r := None),
        list_heap := (list_heap h)(m := None)\<rparr>) t k' = None"
      using i three k' by (simp add: ht_search_def arr_get_def search_loop.simps)
    ultimately show ?thesis by blast
  qed simp_all
qed

section \<open>The empty table\<close>

lemma ht_repr_create:
  assumes "ht_fresh nl h" and "65536 \<le> sz"
  shows "\<exists>t. create_table h sz = Some (h, t) \<and> ht_repr h t (\<lambda>_. []) (\<lambda>_. []) (\<lambda>_. [])"
  using assms by (simp add: create_table_def create_overflow_buckets_def ht_repr_def bucket_at_def ht_fresh_def)

end
