(* ===== verification/Hash_Map.thy ===== *)
theory Hash_Map
  imports Hash_Buckets "HOL-Library.Multiset"
begin

text \<open>
  The hash table of NBFS2 as a table of names.

  The locale \<open>name_table\<close> states what a client of a table may rely on, over the list of its
  entries in the order of their insertion, with the conditions under which the table keeps its
  promise as parameters; what follows for whole sequences of operations is proved there once.
  The interpretation shows the contract for the operations of \<open>hash_table.h\<close> and new keys, for
  one key per index whatever \<open>malloc\<close> leaves in fresh memory, and for at most three keys per index
  (two where one of them is deleted) where the links of fresh list nodes happen to be NULL.
\<close>

section \<open>The contract\<close>

type_synonym entries = "(string \<times> string) list"

datatype table_op = Put string string | Del string

fun table_run ::
    "('s \<Rightarrow> string \<Rightarrow> string \<Rightarrow> 's option) \<Rightarrow> ('s \<Rightarrow> string \<Rightarrow> 's option) \<Rightarrow> 's \<Rightarrow> table_op list \<Rightarrow> 's option" where
  "table_run put del s [] = Some s"
| "table_run put del s (Put k v # ops) = do { s \<leftarrow> put s k v; table_run put del s ops }"
| "table_run put del s (Del k # ops) = do { s \<leftarrow> del s k; table_run put del s ops }"

fun entries_run :: "entries \<Rightarrow> table_op list \<Rightarrow> entries" where
  "entries_run kvs [] = kvs"
| "entries_run kvs (Put k v # ops) = entries_run (kvs @ [(k, v)]) ops"
| "entries_run kvs (Del k # ops) = entries_run (filter (\<lambda>e. fst e \<noteq> k) kvs) ops"

text \<open>Every insertion is of a new key that the table has room for, every deletion is of a key
  the table can delete.\<close>

fun ops_allowed ::
    "(entries \<Rightarrow> string \<Rightarrow> bool) \<Rightarrow> (entries \<Rightarrow> string \<Rightarrow> bool) \<Rightarrow> entries \<Rightarrow> table_op list \<Rightarrow> bool" where
  "ops_allowed room removable kvs [] \<longleftrightarrow> True"
| "ops_allowed room removable kvs (Put k v # ops) \<longleftrightarrow>
     k \<notin> fst ` set kvs \<and> room kvs k \<and> ops_allowed room removable (kvs @ [(k, v)]) ops"
| "ops_allowed room removable kvs (Del k # ops) \<longleftrightarrow>
     removable kvs k \<and> ops_allowed room removable (filter (\<lambda>e. fst e \<noteq> k) kvs) ops"

locale name_table =
  fixes tab :: "'s \<Rightarrow> entries \<Rightarrow> bool"
    and room :: "entries \<Rightarrow> string \<Rightarrow> bool"
    and removable :: "entries \<Rightarrow> string \<Rightarrow> bool"
    and put :: "'s \<Rightarrow> string \<Rightarrow> string \<Rightarrow> 's option"
    and lookup :: "'s \<Rightarrow> string \<Rightarrow> string option option"
    and del :: "'s \<Rightarrow> string \<Rightarrow> 's option"
  assumes put_ok: "tab s kvs \<Longrightarrow> k \<notin> fst ` set kvs \<Longrightarrow> room kvs k \<Longrightarrow>
      \<exists>s'. put s k v = Some s' \<and> tab s' (kvs @ [(k, v)])"
    and lookup_ok: "tab s kvs \<Longrightarrow> lookup s k = Some (map_of kvs k)"
    and del_ok: "tab s kvs \<Longrightarrow> removable kvs k \<Longrightarrow>
      \<exists>s'. del s k = Some s' \<and> tab s' (filter (\<lambda>e. fst e \<noteq> k) kvs)"
begin

lemma run_ok:
  "tab s kvs \<Longrightarrow> ops_allowed room removable kvs ops \<Longrightarrow>
   \<exists>s'. table_run put del s ops = Some s' \<and> tab s' (entries_run kvs ops)"
proof (induction ops arbitrary: s kvs)
  case (Cons op ops)
  then show ?case
  proof (cases op)
    case (Put k v)
    with Cons.prems obtain s' where "put s k v = Some s'" "tab s' (kvs @ [(k, v)])"
      using put_ok [of s kvs k v] by auto
    with Put Cons show ?thesis by auto
  next
    case (Del k)
    with Cons.prems obtain s' where "del s k = Some s'" "tab s' (filter (\<lambda>e. fst e \<noteq> k) kvs)"
      using del_ok [of s kvs k] by auto
    with Del Cons show ?thesis by auto
  qed
qed simp

lemma run_lookup:
  "tab s kvs \<Longrightarrow> ops_allowed room removable kvs ops \<Longrightarrow>
   \<exists>s'. table_run put del s ops = Some s' \<and> (\<forall>k. lookup s' k = Some (map_of (entries_run kvs ops) k))"
  using run_ok lookup_ok by blast

end

section \<open>The hash table keeps it\<close>

definition bucket_of :: "entries \<Rightarrow> nat \<Rightarrow> Ht_item list" where
  "bucket_of kvs i = map (\<lambda>(k, v). new_item k v) (filter (\<lambda>e. index_of (fst e) = i) kvs)"

text \<open>\<open>z\<close>: the links of fresh list nodes are NULL.\<close>

definition ht_table :: "bool \<Rightarrow> ht_heap \<times> HashTable \<Rightarrow> entries \<Rightarrow> bool" where
  "ht_table z s kvs \<longleftrightarrow> (\<exists>P L. ht_fresh z (fst s) \<and> ht_repr (fst s) (snd s) P L (bucket_of kvs) \<and>
     distinct (map fst kvs))"

definition same_index :: "entries \<Rightarrow> string \<Rightarrow> nat" where
  "same_index kvs k = length (filter (\<lambda>e. hash_function (fst e) = hash_function k) kvs)"

text \<open>A second key of one index needs a list node: there is room for it where the link of the node
  is NULL.\<close>

definition bucket_room :: "bool \<Rightarrow> entries \<Rightarrow> string \<Rightarrow> bool" where
  "bucket_room z kvs k \<longleftrightarrow> same_index kvs k \<le> (if z then 2 else 0)"

definition bucket_removable :: "entries \<Rightarrow> string \<Rightarrow> bool" where
  "bucket_removable kvs k \<longleftrightarrow> k \<notin> fst ` set kvs \<or> same_index kvs k \<le> 2"

lemma length_bucket_of: "length (bucket_of kvs (index_of k)) = same_index kvs k"
  by (simp add: bucket_of_def same_index_def word_unat_eq_iff)

lemma bucket_of_keys: "key ` set (bucket_of kvs i) = {k \<in> fst ` set kvs. index_of k = i}"
  by (force simp: bucket_of_def)

lemma bucket_of_append:
  "bucket_of (kvs @ [(k, v)]) = (bucket_of kvs)(index_of k := bucket_of kvs (index_of k) @ [new_item k v])"
  by (rule ext) (simp add: bucket_of_def)

lemma find_bucket:
  "map_option val (find (\<lambda>it. key it = k) (bucket_of kvs (index_of k))) = map_of kvs k"
  by (induction kvs) (auto simp: bucket_of_def)

lemma bucket_of_filter:
  "bucket_of (filter (\<lambda>e. fst e \<noteq> k) kvs) =
     (bucket_of kvs)(index_of k := filter (\<lambda>it. key it \<noteq> k) (bucket_of kvs (index_of k)))"
proof
  fix i
  show "bucket_of (filter (\<lambda>e. fst e \<noteq> k) kvs) i =
     ((bucket_of kvs)(index_of k := filter (\<lambda>it. key it \<noteq> k) (bucket_of kvs (index_of k)))) i"
    by (induction kvs) (auto simp: bucket_of_def)
qed

lemma bucket_insert_new:
  "k \<notin> key ` set b \<Longrightarrow> length b \<le> 2 \<Longrightarrow> bucket_insert k v b = b @ [new_item k v]"
  by (cases b) (auto simp: bucket_insert_def)

lemma bucket_delete_filter:
  "distinct (map key b) \<Longrightarrow> \<forall>it \<in> set b. it = new_item (key it) (val it) \<Longrightarrow>
   length b \<le> 2 \<or> k \<notin> key ` set b \<Longrightarrow> bucket_delete k b = filter (\<lambda>it. key it \<noteq> k) b"
  using filter_id_conv [of "\<lambda>it. key it \<noteq> k" b]
  by (cases "(k, b)" rule: bucket_delete.cases) auto

lemma bucket_of_distinct: "distinct (map fst kvs) \<Longrightarrow> distinct (map key (bucket_of kvs i))"
  by (induction kvs) (auto simp: bucket_of_def rev_image_eqI)

lemma bucket_of_new: "\<forall>it \<in> set (bucket_of kvs i). it = new_item (key it) (val it)"
  by (auto simp: bucket_of_def)

lemma ht_table_put:
  assumes "ht_table z s kvs" "k \<notin> fst ` set kvs" "bucket_room z kvs k"
  shows "\<exists>s'. (case s of (h, t) \<Rightarrow> ht_insert h t k v) = Some s' \<and> ht_table z s' (kvs @ [(k, v)])"
proof -
  let ?b = "bucket_of kvs (index_of k)"
  obtain h t P L where s: "s = (h, t)" "ht_fresh z h" "ht_repr h t P L (bucket_of kvs)" "distinct (map fst kvs)"
    using assms(1) by (cases s) (auto simp: ht_table_def)
  have nk: "k \<notin> key ` set ?b" using assms(2) by (simp add: bucket_of_keys)
  with assms(3) have "bucket_insert k v ?b = ?b @ [new_item k v]"
    by (simp add: bucket_insert_new length_bucket_of bucket_room_def split: if_splits)
  moreover have "\<forall>it rest. ?b = it # rest \<longrightarrow> (if key it = k then length v < value_room it else z)"
    using nk assms(3) length_bucket_of [of kvs k] by (auto simp: bucket_room_def split: if_splits)
  ultimately obtain h' t' P' L' where "ht_insert h t k v = Some (h', t')" "ht_fresh z h'"
      "ht_repr h' t' P' L' (bucket_of (kvs @ [(k, v)]))"
    using ht_repr_insert [OF s(3,2), of k v] by (auto simp: bucket_of_append)
  then show ?thesis using s(1,4) assms(2) by (auto simp: ht_table_def)
qed

lemma ht_table_del:
  assumes "ht_table z s kvs" "bucket_removable kvs k"
  shows "\<exists>s'. (case s of (h, t) \<Rightarrow> ht_delete h t k) = Some s' \<and> ht_table z s' (filter (\<lambda>e. fst e \<noteq> k) kvs)"
proof -
  let ?b = "bucket_of kvs (index_of k)"
  obtain h t P L where s: "s = (h, t)" "ht_fresh z h" "ht_repr h t P L (bucket_of kvs)" "distinct (map fst kvs)"
    using assms(1) by (cases s) (auto simp: ht_table_def)
  have few: "length ?b \<le> 2 \<or> k \<notin> key ` set ?b"
    using assms(2) by (auto simp: bucket_removable_def length_bucket_of bucket_of_keys)
  then have "bucket_delete k ?b = filter (\<lambda>it. key it \<noteq> k) ?b"
    using bucket_of_distinct [OF s(4)] bucket_of_new by (intro bucket_delete_filter)
  moreover have "k \<notin> key ` set (drop 2 ?b)" using few by (auto dest: in_set_dropD)
  ultimately obtain h' t' P' L' where "ht_delete h t k = Some (h', t')" "ht_fresh z h'"
      "ht_repr h' t' P' L' (bucket_of (filter (\<lambda>e. fst e \<noteq> k) kvs))"
    using ht_repr_delete [OF s(3,2), of k] by (auto simp: bucket_of_filter)
  then show ?thesis using s(1,4) by (auto simp: ht_table_def distinct_map_filter)
qed

interpretation htab: name_table "ht_table z" "bucket_room z" bucket_removable
  "\<lambda>(h, t) k v. ht_insert h t k v" "\<lambda>(h, t) k. ht_search h t k" "\<lambda>(h, t) k. ht_delete h t k"
  for z
proof unfold_locales
  show "(case s of (h, t) \<Rightarrow> \<lambda>k. ht_search h t k) k = Some (map_of kvs k)" if "ht_table z s kvs" for s kvs k
    using that by (auto simp: ht_table_def ht_search_repr find_bucket split: prod.splits)
qed (use ht_table_put ht_table_del in \<open>auto split: prod.splits\<close>)

section \<open>What the table promises, and where it stops\<close>

abbreviation ht_put :: "ht_heap \<times> HashTable \<Rightarrow> string \<Rightarrow> string \<Rightarrow> (ht_heap \<times> HashTable) option" where
  "ht_put \<equiv> \<lambda>(h, t) k v. ht_insert h t k v"

abbreviation ht_del :: "ht_heap \<times> HashTable \<Rightarrow> string \<Rightarrow> (ht_heap \<times> HashTable) option" where
  "ht_del \<equiv> \<lambda>(h, t) k. ht_delete h t k"

lemma ht_table_create:
  assumes "ht_fresh z h" and "65536 \<le> sz"
  shows "\<exists>t. create_table h sz = Some (h, t) \<and> ht_table z (h, t) []"
proof -
  have "bucket_of [] = (\<lambda>_. [])" by (simp add: bucket_of_def fun_eq_iff)
  with ht_repr_create [OF assms] assms(1) show ?thesis by (auto simp: ht_table_def)
qed

definition zeroed_heap :: ht_heap where
  "zeroed_heap = \<lparr>item_heap = Map.empty, list_heap = Map.empty, next_item = 0, next_list = 0,
     fresh_node = (\<lambda>_. \<lparr>list_item = None, list_next = None\<rparr>), ht_alloc_fail = []\<rparr>"

lemma ht_fresh_zeroed [simp]: "ht_fresh z zeroed_heap"
  by (simp add: ht_fresh_def zeroed_heap_def)

text \<open>Memory whose fresh list nodes hold dangling pointers.\<close>

definition garbage_heap :: ht_heap where
  "garbage_heap = zeroed_heap\<lparr>fresh_node := (\<lambda>_. \<lparr>list_item = Some 7, list_next = Some 9\<rparr>)\<rparr>"

lemma ht_fresh_garbage [simp]: "ht_fresh False garbage_heap"
  by (simp add: ht_fresh_def garbage_heap_def zeroed_heap_def)

text \<open>C32: The hash of a name is the sum of its characters, taken as signed bytes, modulo the
  capacity of the table: the 64-bit sum of the loop may wrap around without changing the result.
  In particular the index of a name does not depend on the order of its characters.\<close>

theorem hash_function_sum:
  "int (unat (hash_function s)) = (\<Sum>c\<leftarrow>s. sint (of_char c :: u8)) mod 65536 \<and>
   (mset s = mset s' \<longrightarrow> hash_function s' = hash_function s)"
proof (intro conjI impI)
  assume "mset s = mset s'"
  then have "(\<Sum>c\<leftarrow>s. sint (of_char c :: u8)) = (\<Sum>c\<leftarrow>s'. sint (of_char c :: u8))"
    by (metis mset_map sum_mset_sum_list)
  then show "hash_function s' = hash_function s"
    using hash_mod [of s] hash_mod [of s'] by (simp add: word_uint_eq_iff)
qed (rule hash_mod)

theorem hash_function_sum_witness: "hash_function ''cba'' = hash_function ''abc''"
  using hash_function_sum [of "''abc''" "''cba''"] by simp

text \<open>C13: The hash table refines a finite map.  From a new table of the size NBFS2 uses, every
  sequence of insertions of new keys and of deletions runs without a crash, and each search returns
  what the same sequence leaves in the list of entries, provided that memory does not run out and:
  either no index ever holds two keys, and then fresh memory may hold anything (\<open>z = False\<close>); or the
  list nodes \<open>malloc\<close> returns happen to hold a NULL pointer in \<open>next\<close>, which \<open>handle_collision\<close> does
  not set (\<open>z = True\<close>), no index gets more than three keys and none with three keys a deletion.\<close>

theorem ht_refines_map:
  assumes "ht_alloc_fail h = []" and "z \<longrightarrow> (\<forall>l. list_next (fresh_node h l) = None)"
    and "ops_allowed (bucket_room z) bucket_removable [] ops"
  shows "\<exists>t0 h' t'. create_table h 65536 = Some (h, t0) \<and>
    table_run ht_put ht_del (h, t0) ops = Some (h', t') \<and>
    (\<forall>k. ht_search h' t' k = Some (map_of (entries_run [] ops) k))"
proof -
  have "ht_fresh z h" using assms(1,2) by (simp add: ht_fresh_def)
  then obtain t0 where "create_table h 65536 = Some (h, t0)" "ht_table z (h, t0) []"
    using ht_table_create [of z h 65536] by auto
  with htab.run_lookup [OF _ assms(3)] show ?thesis by fastforce
qed

theorem ht_refines_map_witness:
  "(\<exists>t0 h' t'. create_table zeroed_heap 65536 = Some (zeroed_heap, t0) \<and>
    table_run ht_put ht_del (zeroed_heap, t0)
      [Put ''ab'' ''1'', Put ''ba'' ''2'', Put ''c'' ''3'', Del ''ab''] = Some (h', t') \<and>
    ht_search h' t' ''ba'' = Some (Some ''2'') \<and> ht_search h' t' ''ab'' = Some None) \<and>
   (\<exists>t0 h' t'. create_table garbage_heap 65536 = Some (garbage_heap, t0) \<and>
    table_run ht_put ht_del (garbage_heap, t0)
      [Put ''ab'' ''1'', Put ''c'' ''3'', Del ''ab'', Put ''ba'' ''2''] = Some (h', t') \<and>
    ht_search h' t' ''ba'' = Some (Some ''2'') \<and> ht_search h' t' ''ab'' = Some None)"
proof
  have "ops_allowed (bucket_room True) bucket_removable []
      [Put ''ab'' ''1'', Put ''ba'' ''2'', Put ''c'' ''3'', Del ''ab'']"
    by code_simp
  from ht_refines_map [OF _ _ this, of zeroed_heap]
  show "\<exists>t0 h' t'. create_table zeroed_heap 65536 = Some (zeroed_heap, t0) \<and>
    table_run ht_put ht_del (zeroed_heap, t0)
      [Put ''ab'' ''1'', Put ''ba'' ''2'', Put ''c'' ''3'', Del ''ab''] = Some (h', t') \<and>
    ht_search h' t' ''ba'' = Some (Some ''2'') \<and> ht_search h' t' ''ab'' = Some None"
    by (fastforce simp: zeroed_heap_def)
  have "ops_allowed (bucket_room False) bucket_removable []
      [Put ''ab'' ''1'', Put ''c'' ''3'', Del ''ab'', Put ''ba'' ''2'']"
    by code_simp
  from ht_refines_map [OF _ _ this, of garbage_heap]
  show "\<exists>t0 h' t'. create_table garbage_heap 65536 = Some (garbage_heap, t0) \<and>
    table_run ht_put ht_del (garbage_heap, t0)
      [Put ''ab'' ''1'', Put ''c'' ''3'', Del ''ab'', Put ''ba'' ''2''] = Some (h', t') \<and>
    ht_search h' t' ''ba'' = Some (Some ''2'') \<and> ht_search h' t' ''ab'' = Some None"
    by (fastforce simp: garbage_heap_def zeroed_heap_def)
qed

text \<open>Three names of one index, in a new table.\<close>

lemma three_in_bucket:
  assumes "ht_fresh True h" and "distinct [k1, k2, k3]"
    and "hash_function k2 = hash_function k1" "hash_function k3 = hash_function k1"
  obtains t0 h' t' P L where "create_table h 65536 = Some (h, t0)"
    "table_run ht_put ht_del (h, t0) [Put k1 v1, Put k2 v2, Put k3 v3] = Some (h', t')"
    "ht_fresh True h'" "ht_repr h' t' P L (bucket_of [(k1, v1), (k2, v2), (k3, v3)])"
    "bucket_of [(k1, v1), (k2, v2), (k3, v3)] (index_of k1) = [new_item k1 v1, new_item k2 v2, new_item k3 v3]"
proof -
  obtain t0 where t0: "create_table h 65536 = Some (h, t0)" "ht_table True (h, t0) []"
    using ht_table_create [OF assms(1), of 65536] by auto
  have "ops_allowed (bucket_room True) bucket_removable [] [Put k1 v1, Put k2 v2, Put k3 v3]"
    using assms by (auto simp: bucket_room_def same_index_def)
  from htab.run_ok [OF t0(2) this] obtain s' where "table_run ht_put ht_del (h, t0) [Put k1 v1, Put k2 v2, Put k3 v3] = Some s'"
      "ht_table True s' [(k1, v1), (k2, v2), (k3, v3)]"
    by auto
  with t0(1) assms(3,4) that show ?thesis by (cases s') (auto simp: ht_table_def bucket_of_def)
qed

text \<open>The fourth name of one index takes the place of the third.  \<open>linkedlist_insert\<close> stops
  one node before the end of the chain and overwrites that node's link, so that the third
  file is no longer found: its name is lost, without an error.\<close>

theorem fourth_name_replaces_third:
  assumes "ht_fresh True h" and "distinct [k1, k2, k3, k4]"
    and "hash_function k2 = hash_function k1" "hash_function k3 = hash_function k1"
      "hash_function k4 = hash_function k1"
  shows "\<exists>t0 h' t'. create_table h 65536 = Some (h, t0) \<and>
    table_run ht_put ht_del (h, t0) [Put k1 v1, Put k2 v2, Put k3 v3, Put k4 v4] = Some (h', t') \<and>
    ht_search h' t' k1 = Some (Some v1) \<and> ht_search h' t' k2 = Some (Some v2) \<and>
    ht_search h' t' k3 = Some None \<and> ht_search h' t' k4 = Some (Some v4)"
proof -
  obtain t0 h' t' P L where run: "create_table h 65536 = Some (h, t0)"
      "table_run ht_put ht_del (h, t0) [Put k1 v1, Put k2 v2, Put k3 v3] = Some (h', t')"
    and R: "ht_fresh True h'" "ht_repr h' t' P L (bucket_of [(k1, v1), (k2, v2), (k3, v3)])"
    and b: "bucket_of [(k1, v1), (k2, v2), (k3, v3)] (index_of k1) =
      [new_item k1 v1, new_item k2 v2, new_item k3 v3]"
    using three_in_bucket [OF assms(1) _ assms(3,4), of v1 v2 v3] assms(2) by (metis distinct_length_2_or_more)
  have "\<exists>h'' t'' P' L'. ht_insert h' t' k4 v4 = Some (h'', t'') \<and> ht_fresh True h'' \<and> ht_repr h'' t'' P' L'
      ((bucket_of [(k1, v1), (k2, v2), (k3, v3)])(index_of k4 :=
        bucket_insert k4 v4 (bucket_of [(k1, v1), (k2, v2), (k3, v3)] (index_of k4))))"
    by (rule ht_repr_insert [OF R(2,1)]) (use b assms in auto)
  then obtain h'' t'' P' L' where "ht_insert h' t' k4 v4 = Some (h'', t'')"
    and R': "ht_repr h'' t'' P' L' ((bucket_of [(k1, v1), (k2, v2), (k3, v3)])
      (index_of k1 := [new_item k1 v1, new_item k2 v2, new_item k4 v4]))"
    using b assms by (auto simp: bucket_insert_def)
  moreover have "table_run ht_put ht_del (h, t0) [Put k1 v1, Put k2 v2, Put k3 v3, Put k4 v4] = Some (h'', t'')"
    using run(2) calculation(1) by (auto simp: bind_Some_iff split: prod.splits)
  ultimately show ?thesis using run(1) assms ht_search_repr [OF R'] by auto
qed

theorem fourth_name_replaces_third_witness:
  "\<exists>t0 h' t'. create_table zeroed_heap 65536 = Some (zeroed_heap, t0) \<and>
    table_run ht_put ht_del (zeroed_heap, t0)
      [Put ''abc'' ''1'', Put ''bca'' ''2'', Put ''cab'' ''3'', Put ''cba'' ''4''] = Some (h', t') \<and>
    ht_search h' t' ''cab'' = Some None"
proof -
  have "hash_function ''bca'' = hash_function ''abc''" "hash_function ''cab'' = hash_function ''abc''"
    "hash_function ''cba'' = hash_function ''abc''"
    by code_simp+
  from fourth_name_replaces_third [OF ht_fresh_zeroed _ this, of "''1''" "''2''" "''3''" "''4''"]
  show ?thesis by fastforce
qed

text \<open>The deletion of the third name of an index leaves the table with a dangling pointer:
  \<open>prev\<close> has already moved to the node that is freed, so that the node before it still points there.
  Every later search for another name of the same index, the deleted one included, reads
  freed memory.\<close>

theorem delete_third_dangles:
  assumes "ht_fresh True h" and "distinct [k1, k2, k3]"
    and "hash_function k2 = hash_function k1" "hash_function k3 = hash_function k1"
    and "hash_function k = hash_function k1" "k \<noteq> k1" "k \<noteq> k2"
  shows "\<exists>t0 h' t'. create_table h 65536 = Some (h, t0) \<and>
    table_run ht_put ht_del (h, t0) [Put k1 v1, Put k2 v2, Put k3 v3, Del k3] = Some (h', t') \<and>
    ht_search h' t' k = None"
proof -
  obtain t0 h' t' P L where run: "create_table h 65536 = Some (h, t0)"
      "table_run ht_put ht_del (h, t0) [Put k1 v1, Put k2 v2, Put k3 v3] = Some (h', t')"
    and R: "ht_repr h' t' P L (bucket_of [(k1, v1), (k2, v2), (k3, v3)])"
    and b: "bucket_of [(k1, v1), (k2, v2), (k3, v3)] (index_of k1) =
      [new_item k1 v1, new_item k2 v2, new_item k3 v3]"
    using three_in_bucket [OF assms(1) _ assms(3,4), of v1 v2 v3] assms(2) by (metis distinct_length_2_or_more)
  have "\<exists>h'' t''. ht_delete h' t' k3 = Some (h'', t'') \<and> ht_search h'' t'' k = None"
    by (rule ht_delete_third [OF R, of k3 "new_item k1 v1" "new_item k2 v2" "new_item k3 v3"])
      (use b assms in auto)
  then obtain h'' t'' where "ht_delete h' t' k3 = Some (h'', t'')" "ht_search h'' t'' k = None"
    by blast
  moreover have "table_run ht_put ht_del (h, t0) [Put k1 v1, Put k2 v2, Put k3 v3, Del k3] = Some (h'', t'')"
    using run(2) calculation(1) by (auto simp: bind_Some_iff split: prod.splits)
  ultimately show ?thesis using run(1) by blast
qed

theorem delete_third_dangles_witness:
  "\<exists>t0 h' t'. create_table zeroed_heap 65536 = Some (zeroed_heap, t0) \<and>
    table_run ht_put ht_del (zeroed_heap, t0)
      [Put ''abc'' ''1'', Put ''bca'' ''2'', Put ''cab'' ''3'', Del ''cab''] = Some (h', t') \<and>
    ht_search h' t' ''cba'' = None"
proof -
  have "hash_function ''bca'' = hash_function ''abc''" "hash_function ''cab'' = hash_function ''abc''"
    "hash_function ''cba'' = hash_function ''abc''"
    by code_simp+
  from delete_third_dangles [OF ht_fresh_zeroed _ this, of "''1''" "''2''" "''3''"]
  show ?thesis by simp
qed

end
