(* ===== verification/NBFS2_Store.thy ===== *)
theory NBFS2_Store
  imports NBFS2 Hash_Map
begin

text \<open>
  The directory of NBFS2 in the super blob.

  \<open>_nbfs2_write_htable\<close> writes the entries of the hash table one after the other into the write
  buffer, \<open>_nbfs2_build_htable\<close> inserts the entries of the read buffer into a table.  Both are
  reduced to lists of entries, and shown to be inverse to each other.
\<close>

section \<open>One entry\<close>

lemma byte_split: "push_bit 8 (drop_bit 8 x) OR ucast (ucast x :: u8) = (x :: u64)"
  by (rule bit_word_eqI) (auto simp: bit_simps)

lemma of_le64_from:
  "k \<le> 8 \<Longrightarrow> foldr (\<lambda>b w. push_bit 8 w OR ucast b)
     (map (\<lambda>j. ucast (drop_bit (8 * j) w) :: u8) [k..<8]) 0 = (drop_bit (8 * k) w :: u64)"
proof (induction rule: inc_induct)
  case base
  then show ?case by simp
next
  case (step k)
  then show ?case using byte_split [of "drop_bit (8 * k) w"] by (simp add: upt_conv_Cons add.commute)
qed

lemma of_le64_le64: "of_le64 (le64 w) = w"
  using of_le64_from [of 0 w] by (simp add: of_le64_def le64_def)

lemma length_le64 [simp]: "length (le64 w) = 8"
  by (simp add: le64_def)

lemma unat_char: "unat (of_char c :: u8) = of_char c"
proof -
  have "unat (of_nat (of_char c) :: u8) = of_char c"
    using nat_of_char_less_256 [of c] by (simp add: unat_of_nat)
  then show ?thesis by (simp only: of_nat_of_char)
qed

lemma char_byte: "char_of (unat (of_char c :: u8)) = c"
  by (simp add: unat_char)

definition c_string :: "string \<Rightarrow> bool" where
  "c_string s \<longleftrightarrow> CHR 0x00 \<notin> set s"

lemma byte_nonzero: "c \<noteq> CHR 0x00 \<Longrightarrow> (of_char c :: u8) \<noteq> 0"
  using char_byte [of c] by (auto simp: char_of_def)

lemma cstring_bytes:
  assumes "c_string k"
  shows "cstring (str_bytes k @ 0 # rest) = Some k"
proof -
  have "(of_char c :: u8) \<noteq> 0" if "c \<in> set k" for c
    using assms that by (intro byte_nonzero) (auto simp: c_string_def)
  then have "takeWhile (\<lambda>b. b \<noteq> 0) (str_bytes k @ 0 # rest) = str_bytes k"
    by (subst takeWhile_append2) (auto simp: str_bytes_def)
  then show ?thesis by (simp add: cstring_def str_bytes_def char_byte o_def)
qed

text \<open>The bytes of an entry are read as the name and the id.\<close>

definition holds_entry :: "u8 list \<Rightarrow> string \<Rightarrow> u64 \<Rightarrow> bool" where
  "holds_entry md k bid \<longleftrightarrow> length md = MDATA_SIZE \<and> of_le64 (take 8 md) = bid \<and> cstring (drop 8 md) = Some k"

definition valid_name :: "string \<Rightarrow> bool" where
  "valid_name k \<longleftrightarrow> c_string k \<and> length k < MAXFILENAME"

lemma write_entry_ok:
  assumes "length (mdata w) = MDATA_SIZE" "valid_name (key it)"
    and "out w = pre @ rest" "out_offset w = length pre" "MDATA_SIZE \<le> length rest"
  shows "\<exists>md. holds_entry md (key it) (char2blobid (val it)) \<and>
    write_entry it w = Some \<lparr>mdata = md, out = (pre @ md) @ drop MDATA_SIZE rest,
      mdata_num = mdata_num w + 1, out_offset = length (pre @ md)\<rparr>"
proof -
  let ?k = "key it"
  define md where "md = le64 (char2blobid (val it)) @ str_bytes ?k @ 0 # drop (8 + length ?k + 1) (mdata w)"
  have len: "length md = MDATA_SIZE"
    using assms(1,2) by (simp add: md_def valid_name_def MDATA_SIZE_def str_bytes_def)
  have "holds_entry md ?k (char2blobid (val it))"
    using assms(2) len by (simp add: holds_entry_def md_def of_le64_le64 cstring_bytes valid_name_def)
  moreover have "write_entry it w = Some \<lparr>mdata = md, out = (pre @ md) @ drop MDATA_SIZE rest,
      mdata_num = mdata_num w + 1, out_offset = length (pre @ md)\<rparr>"
  proof -
    have "strcpy_name (mdata w) ?k = Some (take 8 (mdata w) @ str_bytes ?k @ [0] @ drop (8 + length ?k + 1) (mdata w))"
      using assms(2) by (simp add: strcpy_name_def valid_name_def)
    moreover have "le64 (char2blobid (val it)) @ drop 8 (take 8 (mdata w) @ str_bytes ?k @ [0] @ drop (8 + length ?k + 1) (mdata w)) = md"
      using assms(1) by (simp add: md_def MDATA_SIZE_def)
    moreover have "memcpy (out w) (out_offset w) md = Some ((pre @ md) @ drop MDATA_SIZE rest)"
      using assms(3-5) len by (simp add: memcpy_def)
    ultimately show ?thesis using len assms(4) by (simp add: write_entry_def)
  qed
  ultimately show ?thesis by blast
qed

section \<open>Writing the table\<close>

fun write_list :: "Ht_item list \<Rightarrow> store_state \<Rightarrow> store_state option" where
  "write_list [] w = Some w"
| "write_list (it # its) w = do { w \<leftarrow> write_entry it w; write_list its w }"

lemma write_list_append: "write_list (xs @ ys) w = do { w \<leftarrow> write_list xs w; write_list ys w }"
proof (induction xs arbitrary: w)
  case (Cons x xs)
  then show ?case by (cases "write_entry x w") simp_all
qed simp

lemma write_list_ok:
  assumes "length (mdata w) = MDATA_SIZE" "\<forall>it \<in> set its. valid_name (key it)"
    and "out w = pre @ rest" "out_offset w = length pre" "length its * MDATA_SIZE \<le> length rest"
  shows "\<exists>w' mds. write_list its w = Some w' \<and> out w' = pre @ concat mds @ drop (length its * MDATA_SIZE) rest \<and>
    list_all2 (\<lambda>md it. holds_entry md (key it) (char2blobid (val it))) mds its \<and>
    mdata_num w' = mdata_num w + length its"
  using assms
proof (induction its arbitrary: w pre rest)
  case Nil
  then show ?case by (auto intro!: exI [of _ "[]"])
next
  case (Cons it its)
  then obtain md where md: "holds_entry md (key it) (char2blobid (val it))"
    and w1: "write_entry it w = Some \<lparr>mdata = md, out = (pre @ md) @ drop MDATA_SIZE rest,
      mdata_num = mdata_num w + 1, out_offset = length (pre @ md)\<rparr>"
    using write_entry_ok [of w it pre rest] by auto
  have "length md = MDATA_SIZE" using md by (simp add: holds_entry_def)
  moreover have "length its * MDATA_SIZE \<le> length rest - MDATA_SIZE" using Cons.prems(5) by simp
  ultimately obtain w' mds where "write_list its \<lparr>mdata = md, out = (pre @ md) @ drop MDATA_SIZE rest,
      mdata_num = mdata_num w + 1, out_offset = length (pre @ md)\<rparr> = Some w'"
      "out w' = (pre @ md) @ concat mds @ drop (length its * MDATA_SIZE) (drop MDATA_SIZE rest)"
      "list_all2 (\<lambda>md it. holds_entry md (key it) (char2blobid (val it))) mds its"
      "mdata_num w' = mdata_num w + 1 + length its"
    using Cons.IH [of "\<lparr>mdata = md, out = (pre @ md) @ drop MDATA_SIZE rest,
      mdata_num = mdata_num w + 1, out_offset = length (pre @ md)\<rparr>" "pre @ md" "drop MDATA_SIZE rest"]
      Cons.prems by auto
  then show ?case using w1 md by (intro exI [of _ w'] exI [of _ "md # mds"]) (simp add: add.commute)
qed

lemma write_chain_list:
  "chain h ls ps \<Longrightarrow> map (item_heap h) ps = map Some b \<Longrightarrow> write_chain h (first ls) w = write_list b w"
proof (induction ls arbitrary: ps b w)
  case Nil
  then show ?case by (simp add: write_chain.simps)
next
  case (Cons l ls)
  then obtain q qs it b' where sh: "ps = q # qs" "b = it # b'" "item_heap h q = Some it"
      "list_heap h l = Some \<lparr>list_item = Some q, list_next = first ls\<rparr>" "chain h ls qs"
      "map (item_heap h) qs = map Some b'"
    by (cases ps; cases b) auto
  then show ?case
    by (subst write_chain.simps) (cases "write_entry it w"; simp add: sh(1-4) Cons.IH [OF sh(5,6)])
qed

lemma write_buckets_list:
  assumes R: "ht_repr h t P L B" and "set is \<subseteq> {..<length (items t)}"
  shows "write_buckets h t is w = write_list (concat (map B is)) w"
  using assms(2)
proof (induction "is" arbitrary: w)
  case (Cons i "is")
  then have i: "i < length (items t)" "i < length (overflow_buckets t)" using R by (auto simp: ht_repr_def)
  have b: "bucket_at h (items t ! i) (overflow_buckets t ! i) (P i) (L i) (B i)"
    using ht_reprD(1) [OF R i(1)] .
  show ?case
  proof (cases "P i")
    case Nil
    with b i Cons show ?thesis by (simp add: bucket_at_def arr_get_def)
  next
    case (Cons p ps)
    with b obtain it b' where sh: "B i = it # b'" "item_heap h p = Some it" "items t ! i = Some p"
        "map (item_heap h) ps = map Some b'" "chain h (L i) ps" "overflow_buckets t ! i = first (L i)"
      by (cases "B i") (auto simp: bucket_at_def)
    with i Cons.IH Cons.prems write_chain_list [OF sh(5,4)] show ?thesis
      by (cases "write_entry it w")
        (auto simp: arr_get_def write_list_append intro!: Option.bind_cong)
  qed
qed simp

text \<open>The entries in the order in which they are written.\<close>

definition by_index :: "nat \<Rightarrow> entries \<Rightarrow> entries" where
  "by_index n kvs = concat (map (\<lambda>i. filter (\<lambda>e. index_of (fst e) = i) kvs) [0..<n])"

lemma concat_buckets: "concat (map (bucket_of kvs) [0..<n]) = map (\<lambda>(k, v). new_item k v) (by_index n kvs)"
  by (simp add: by_index_def bucket_of_def [abs_def] map_concat o_def)

lemma mset_by_index: "mset (by_index n kvs) = mset (filter (\<lambda>e. index_of (fst e) < n) kvs)"
proof (induction n)
  case (Suc n)
  have "mset (filter (\<lambda>e. index_of (fst e) < Suc n) kvs) =
      mset (filter (\<lambda>e. index_of (fst e) < n) kvs) + mset (filter (\<lambda>e. index_of (fst e) = n) kvs)"
    by (induction kvs) auto
  with Suc show ?case by (simp add: by_index_def)
qed (simp add: by_index_def)

lemma by_index_all: "mset (by_index 65536 kvs) = mset kvs"
  unfolding mset_by_index using filter_True [of kvs "\<lambda>e. index_of (fst e) < 65536"] by simp

lemma map_of_by_index:
  assumes "distinct (map fst kvs)"
  shows "distinct (map fst (by_index 65536 kvs))" and "map_of (by_index 65536 kvs) = map_of kvs"
proof -
  have "mset (map fst (by_index 65536 kvs)) = mset (map fst kvs)" by (simp only: mset_map by_index_all)
  then show d: "distinct (map fst (by_index 65536 kvs))" using assms mset_eq_imp_distinct_iff by blast
  have "set (by_index 65536 kvs) = set kvs" using by_index_all mset_eq_setD by blast
  with d assms show "map_of (by_index 65536 kvs) = map_of kvs" by (simp add: map_of_inject_set)
qed

lemma length_entries:
  assumes "ht_repr h t P L (bucket_of kvs)"
  shows "length kvs \<le> 3 * 65536"
proof -
  have "length (bucket_of kvs i) \<le> 3" if "i < 65536" for i
    using ht_reprD(1) [OF assms, of i] assms that by (auto simp: ht_repr_def bucket_at_def)
  then have b: "length (bucket_of kvs n) \<le> 3" if "Suc n \<le> 65536" for n using that by simp
  have "length (concat (map (bucket_of kvs) [0..<n])) \<le> 3 * n" if "n \<le> 65536" for n
    using that
  proof (induction n)
    case (Suc n)
    with b [of n] show ?case by simp
  qed simp
  from this [of 65536] have "length (by_index 65536 kvs) \<le> 3 * 65536" by (simp add: concat_buckets)
  then show ?thesis using by_index_all [of kvs] by (metis size_mset)
qed

text \<open>A directory: names with the ids of their blobs, as the table holds them.\<close>

definition id_entries :: "(string \<times> u64) list \<Rightarrow> entries" where
  "id_entries names = map (\<lambda>(n, bid). (n, blobid2char bid)) names"

lemma id_entries_keys [simp]: "map fst (id_entries names) = map fst names"
  by (simp add: id_entries_def case_prod_beta o_def)

lemma id_entries_Cons [simp]: "id_entries ((n, bid) # names) = (n, blobid2char bid) # id_entries names"
  and id_entries_Nil [simp]: "id_entries [] = []"
  by (simp_all add: id_entries_def)

lemma id_entries_set [simp]: "fst ` set (id_entries names) = fst ` set names"
  by (metis id_entries_keys list.set_map)

lemma id_entries_append [simp]: "id_entries (xs @ ys) = id_entries xs @ id_entries ys"
  by (simp add: id_entries_def)

definition sorted_names :: "(string \<times> u64) list \<Rightarrow> (string \<times> u64) list" where
  "sorted_names names = concat (map (\<lambda>i. filter (\<lambda>e. index_of (fst e) = i) names) [0..<65536])"

lemma by_index_id_entries: "by_index 65536 (id_entries names) = id_entries (sorted_names names)"
  by (simp add: by_index_def id_entries_def sorted_names_def map_concat filter_map o_def case_prod_beta)

lemma set_sorted_names: "set (sorted_names names) = set names"
  by (force simp: sorted_names_def)

lemma write_table_ok:
  assumes T: "ht_table z (h, t) (id_entries names)" and V: "\<forall>n \<in> fst ` set names. valid_name n"
    and w: "length (mdata w) = MDATA_SIZE" "out_offset w = 0" "length names * MDATA_SIZE \<le> length (out w)"
  shows "\<exists>w' mds. write_buckets h t [0..<65536] w = Some w' \<and>
    out w' = concat mds @ drop (length names * MDATA_SIZE) (out w) \<and> length (out w') = length (out w) \<and>
    list_all2 (\<lambda>md e. holds_entry md (fst e) (snd e)) mds (sorted_names names) \<and>
    mdata_num w' = mdata_num w + length names"
proof -
  obtain P L where R: "ht_repr h t P L (bucket_of (id_entries names))" using T by (auto simp: ht_table_def)
  let ?its = "map (\<lambda>(k, v). new_item k v) (id_entries (sorted_names names))"
  have n: "65536 \<le> length (items t)" using R by (simp add: ht_repr_def)
  have eq: "write_buckets h t [0..<65536] w = write_list ?its w"
    using write_buckets_list [OF R, of "[0..<65536]"] n
    by (fastforce simp: concat_buckets by_index_id_entries)
  have len: "length ?its = length names"
    using by_index_all [of "id_entries names"] by_index_id_entries [of names]
    by (metis id_entries_def length_map size_mset)
  have "\<exists>w' mds. write_list ?its w = Some w' \<and> out w' = [] @ concat mds @ drop (length ?its * MDATA_SIZE) (out w) \<and>
    list_all2 (\<lambda>md it. holds_entry md (key it) (char2blobid (val it))) mds ?its \<and>
    mdata_num w' = mdata_num w + length ?its"
  proof (rule write_list_ok [OF w(1)])
    show "\<forall>it \<in> set ?its. valid_name (key it)"
      using V set_sorted_names [of names] by (force simp: id_entries_def)
  qed (use w(2,3) len in simp_all)
  then obtain w' mds where w': "write_list ?its w = Some w'" "out w' = concat mds @ drop (length names * MDATA_SIZE) (out w)"
    "list_all2 (\<lambda>md it. holds_entry md (key it) (char2blobid (val it))) mds ?its"
    "mdata_num w' = mdata_num w + length names"
    by (auto simp: len [unfolded length_map])
  have m: "list_all2 (\<lambda>md e. holds_entry md (fst e) (snd e)) mds (sorted_names names)"
    using w'(3) by (simp add: id_entries_def list_all2_map2 o_def case_prod_beta char2blobid_blobid2char)
  have "length (concat mds) = length mds * MDATA_SIZE"
    using m by (induction rule: list_all2_induct) (simp_all add: holds_entry_def)
  moreover have "length mds = length names" using m len by (auto simp: id_entries_def dest: list_all2_lengthD)
  ultimately show ?thesis using eq w' m w(3) by (intro exI [of _ w'] exI [of _ mds]) simp
qed

section \<open>Building a table\<close>

lemma same_index_append: "same_index (xs @ ys) k = same_index xs k + same_index ys k"
  by (simp add: same_index_def)

text \<open>Entries that one table holds can be inserted one by one into another.\<close>

lemma same_index_inj:
  assumes "distinct (map fst names)" "inj_on hash_function (fst ` set names)"
  shows "same_index (id_entries names) k \<le> 1"
proof -
  let ?F = "filter (\<lambda>e. hash_function (fst e) = hash_function k) (id_entries names)"
  have "distinct (map fst ?F)" using assms(1) by (simp add: distinct_map_filter)
  from distinct_card [OF this] have "same_index (id_entries names) k = card (set (map fst ?F))"
    by (simp add: same_index_def)
  also have "\<dots> \<le> card {n \<in> fst ` set names. hash_function n = hash_function k}"
  proof (rule card_mono)
    show "set (map fst ?F) \<subseteq> {n \<in> fst ` set names. hash_function n = hash_function k}"
    proof
      fix n
      assume "n \<in> set (map fst ?F)"
      then obtain e where e: "e \<in> set (id_entries names)" "hash_function (fst e) = hash_function k" "n = fst e"
        by auto
      from imageI [OF e(1), of fst] e(2,3) show "n \<in> {n \<in> fst ` set names. hash_function n = hash_function k}" by simp
    qed
  qed simp
  also have "\<dots> \<le> 1"
  proof -
    have "x = y" if "x \<in> fst ` set names" "y \<in> fst ` set names" "hash_function x = hash_function k"
        "hash_function y = hash_function k" for x y
      using inj_onD [OF assms(2) _ that(1,2)] that(3,4) by simp
    then show ?thesis by (subst One_nat_def, subst card_le_Suc0_iff_eq) (simp, blast)
  qed
  finally show ?thesis .
qed

lemma put_next_allowed:
  assumes "distinct (map fst (xs @ (k, v) # ys))" "same_index (xs @ (k, v) # ys) k \<le> (if z then 3 else 1)"
  shows "k \<notin> fst ` set xs" and "bucket_room z xs k"
proof -
  show "k \<notin> fst ` set xs" using assms(1) by auto
  have "same_index ((k, v) # ys) k \<ge> 1" by (simp add: same_index_def)
  with assms(2) show "bucket_room z xs k"
    by (simp add: bucket_room_def same_index_append split: if_splits)
qed

lemma ucast_nat: "(ucast (of_nat n :: u64) :: u32) = of_nat n"
  by transfer simp

lemma contents_table [simp]: "contents (st\<lparr>ht := h, table := t\<rparr>) b = contents st b"
  by (cases b) (simp_all add: contents_def)

lemma build_loop_ok:
  assumes "list_all2 (\<lambda>md e. holds_entry md (fst e) (snd e)) mds names"
    and "contents st (read_buff st) = pre @ concat mds @ suf" "length pre = off"
    and "malloc_fail (io st) = []" "table st = Some t" "ht_table z (ht st, t) (id_entries old)"
    and "distinct (map fst (old @ names))" "\<And>k. same_index (id_entries (old @ names)) k \<le> (if z then 3 else 1)"
  shows "\<exists>h' t'. build_loop (length mds) off st = Some (True, st\<lparr>ht := h', table := Some t'\<rparr>) \<and>
    ht_table z (h', t') (id_entries (old @ names))"
  using assms
proof (induction mds names arbitrary: st t off pre old rule: list_all2_induct)
  case Nil
  then show ?case by (intro exI [of _ "ht st"] exI [of _ t]) simp
next
  case (Cons md mds e names)
  obtain k bid where e: "e = (k, bid)" by force
  have md: "length md = MDATA_SIZE" "of_le64 (take 8 md) = bid" "cstring (drop 8 md) = Some k"
    using Cons.hyps(1) e by (simp_all add: holds_entry_def)
  have d: "distinct (map fst (id_entries old @ (k, blobid2char bid) # id_entries names))"
      "same_index (id_entries old @ (k, blobid2char bid) # id_entries names) k \<le> (if z then 3 else 1)"
    using Cons.prems(6) Cons.prems(7) [of k] e by simp_all
  obtain h1 t1 where ins: "ht_insert (ht st) t k (blobid2char bid) = Some (h1, t1)"
      "ht_table z (h1, t1) (id_entries old @ [(k, blobid2char bid)])"
    using htab.put_ok [OF Cons.prems(5) put_next_allowed [OF d], of "blobid2char bid"] by auto
  let ?st = "st\<lparr>ht := h1, table := Some t1\<rparr>"
  have buf: "take MDATA_SIZE (drop off (contents st (read_buff st))) = md"
    "off + MDATA_SIZE \<le> length (contents st (read_buff st))"
    using Cons.prems(1,2) md(1) by simp_all
  have step: "build_loop (length (md # mds)) off st = build_loop (length mds) (off + MDATA_SIZE) ?st"
    using buf Cons.prems(3,4) md ins(1) by (simp add: nbfs2_malloc_def malloc_fails_def del: take_take)
  have "\<exists>h' t'. build_loop (length mds) (off + MDATA_SIZE) ?st = Some (True, ?st\<lparr>ht := h', table := Some t'\<rparr>) \<and>
      ht_table z (h', t') (id_entries ((old @ [e]) @ names))"
  proof (rule Cons.IH)
    show "contents ?st (read_buff ?st) = (pre @ md) @ concat mds @ suf"
      using Cons.prems(1) by simp
    show "ht_table z (ht ?st, t1) (id_entries (old @ [e]))" using ins(2) e by (simp add: id_entries_def)
    show "distinct (map fst ((old @ [e]) @ names))" using Cons.prems(6) by simp
    show "same_index (id_entries ((old @ [e]) @ names)) k' \<le> (if z then 3 else 1)" for k' using Cons.prems(7) [of k'] by simp
  qed (use Cons.prems md in simp_all)
  then show ?case unfolding step by (auto simp: e)
qed

lemma build_table_ok:
  assumes m: "list_all2 (\<lambda>md e. holds_entry md (fst e) (snd e)) mds names"
    and c: "contents st (read_buff st) = concat mds @ suf" "malloc_fail (io st) = []"
    and t: "table st = Some t" "ht_table z (ht st, t) []" "user_cb st = Some u"
    and sz: "spb_data_size st = of_nat (length names * MDATA_SIZE)" "length names \<le> 3 * 65536"
    and d: "distinct (map fst names)" "\<And>k. same_index (id_entries names) k \<le> (if z then 3 else 1)"
  shows "\<exists>h' t'. nbfs2_build_htable st = Some (st\<lparr>ht := h', table := Some t', replies := replies st @ [(u, 0)]\<rparr>) \<and>
    ht_table z (h', t') (id_entries names)"
proof -
  have lm: "length mds = length names" using m by (rule list_all2_lengthD)
  have "spb_data_size st div of_nat MDATA_SIZE = of_nat (length names)"
  proof (rule word_unat_eq_iff [THEN iffD2])
    have "unat (of_nat (length names * MDATA_SIZE) :: u64) = length names * MDATA_SIZE"
      using sz(2) by (simp add: unat_of_nat MDATA_SIZE_def MAXFILENAME_def del: of_nat_mult)
    moreover have "unat (of_nat MDATA_SIZE :: u64) = MDATA_SIZE" "MDATA_SIZE \<noteq> 0"
      by (simp_all add: MDATA_SIZE_def MAXFILENAME_def)
    moreover have "unat (of_nat (length names) :: u64) = length names"
      using sz(2) by (simp add: unat_of_nat)
    ultimately show "unat (spb_data_size st div of_nat MDATA_SIZE) = unat (of_nat (length names) :: u64)"
      by (simp add: sz(1) unat_div del: of_nat_mult)
  qed
  moreover have "nat (sint (ucast (of_nat (length names) :: u64) :: u32)) = length names"
  proof -
    have "sint (of_nat (length names) :: u32) = int (length names)"
      using sz(2) by (simp add: signed_of_nat signed_take_bit_int_eq_self)
    then show ?thesis by (simp add: ucast_nat)
  qed
  moreover obtain h' t' where "build_loop (length mds) 0 st = Some (True, st\<lparr>ht := h', table := Some t'\<rparr>)"
      "ht_table z (h', t') (id_entries names)"
    using build_loop_ok [OF m, of st "[]" suf 0 t z "[]"] c t d by auto
  ultimately show ?thesis
    using c(2) t(3) lm
    by (intro exI [of _ h'] exI [of _ t'])
      (simp add: nbfs2_build_htable_def nbfs2_malloc_def malloc_fails_def call_user_def)
qed

text \<open>C12: The directory survives the super blob.  \<open>_nbfs2_write_htable\<close> on a table that holds
  any directory (the names shorter than 128 bytes, the write buffer large enough) hands the
  blobstore exactly the buffer it has filled and records its size; and \<open>_nbfs2_build_htable\<close>, on
  a new table and with those bytes in the read buffer and that size, finds every file with its id, and
  no other, and answers the user.  Memory must not run out.  What \<open>malloc\<close> leaves in a new list node does
  not matter if no two names share an index; where some do, the \<open>next\<close> of new nodes must happen to
  be NULL (\<open>z2\<close>), which \<open>handle_collision\<close> does not set.\<close>

theorem superblob_roundtrip:
  assumes T: "table st = Some t" "ht_table z (ht st, t) (id_entries names)" "ht_size st = INIT_HASHTABLE_SIZE"
    and V: "\<forall>n \<in> fst ` set names. valid_name n"
    and B: "write_buff st = Some b" "buffers st b = Some bs" "length names * MDATA_SIZE \<le> length bs"
    and M: "malloc_fail (io st) = []"
  shows "\<exists>st' bs'. nbfs2_write_htable st = Some st' \<and> buffers st' b = Some bs' \<and>
    spb_data_size st' = of_nat (length names * MDATA_SIZE) \<and>
    io st' = write_super_blob (Some b) 0 (of_nat (length names * MDATA_SIZE)) N_superblob_written (io st) \<and>
    (\<forall>st2 t2 z2 r u. read_buff st2 = Some r \<and> buffers st2 r = Some bs' \<and> spb_data_size st2 = spb_data_size st' \<and>
       table st2 = Some t2 \<and> ht_table z2 (ht st2, t2) [] \<and> (z2 \<or> inj_on hash_function (fst ` set names)) \<and>
       malloc_fail (io st2) = [] \<and> user_cb st2 = Some u \<longrightarrow>
       (\<exists>st3 t3. nbfs2_build_htable st2 = Some st3 \<and> table st3 = Some t3 \<and> replies st3 = replies st2 @ [(u, 0)] \<and>
          (\<forall>n. ht_search (ht st3) t3 n = Some (map_option blobid2char (map_of names n)))))"
proof -
  let ?w = "\<lparr>mdata = map (fresh_bytes st) [0..<MDATA_SIZE], out = bs, mdata_num = 0, out_offset = 0\<rparr>"
  obtain w' mds where w': "write_buckets (ht st) t [0..<65536] ?w = Some w'"
      "out w' = concat mds @ drop (length names * MDATA_SIZE) bs"
      "list_all2 (\<lambda>md e. holds_entry md (fst e) (snd e)) mds (sorted_names names)"
      "mdata_num w' = length names"
    using write_table_ok [OF T(2) V, of ?w] B(3) by auto
  obtain P L where R: "ht_repr (ht st) t P L (bucket_of (id_entries names))" "distinct (map fst names)"
    using T(2) by (auto simp: ht_table_def)
  have "id_entries (sorted_names names) = by_index 65536 (id_entries names)" by (rule by_index_id_entries [symmetric])
  then have srt: "distinct (map fst (sorted_names names))" "map_of (id_entries (sorted_names names)) = map_of (id_entries names)"
    "mset (id_entries (sorted_names names)) = mset (id_entries names)"
    using map_of_by_index [of "id_entries names"] by_index_all [of "id_entries names"] R(2)
      id_entries_keys [of "sorted_names names"]
    by simp_all
  have len: "length (sorted_names names) = length names" "length names \<le> 3 * 65536"
    using arg_cong [OF srt(3), of size] length_entries [OF R(1)] by (simp_all add: id_entries_def)
  have few: "same_index (id_entries (sorted_names names)) k \<le> (if z2 then 3 else 1)"
    if "z2 \<or> inj_on hash_function (fst ` set names)" for z2 k
  proof -
    have "same_index (id_entries (sorted_names names)) k = same_index (id_entries names) k"
      unfolding same_index_def using srt(3) by (metis mset_filter size_mset)
    also have "\<dots> \<le> (if z2 then 3 else 1)"
      using ht_reprD(1) [OF R(1) index_in_table(1) [OF R(1), of k]] that same_index_inj [OF R(2), of k]
      by (auto simp: bucket_at_def simp flip: length_bucket_of)
    finally show ?thesis .
  qed
  have mo: "map_of (id_entries (sorted_names names)) n = map_option blobid2char (map_of names n)" for n
    by (simp only: srt(2)) (simp add: id_entries_def map_of_map)
  define st' where "st' = (let st = set_contents (Some b) (out w') st;
       st = st\<lparr>spb_data_size := of_nat (length names * MDATA_SIZE)\<rparr>;
       st = set_super_xattr XATTR_HTS (X32 (ht_size st)) st;
       st = set_super_xattr XATTR_SPBDS (X64 (spb_data_size st)) st
     in st\<lparr>io := write_super_blob (Some b) 0 (spb_data_size st) N_superblob_written (io st)\<rparr>)"
  have run: "nbfs2_write_htable st = Some st'"
    using w'(1,4) T B M by (simp add: nbfs2_write_htable_def nbfs2_malloc_def malloc_fails_def
        INIT_HASHTABLE_SIZE_def contents_def st'_def set_contents_def set_super_xattr_def Let_def)
  have st': "buffers st' b = Some (out w')" "spb_data_size st' = of_nat (length names * MDATA_SIZE)"
    "io st' = write_super_blob (Some b) 0 (of_nat (length names * MDATA_SIZE)) N_superblob_written (io st)"
    using B by (simp_all add: st'_def set_contents_def set_super_xattr_def Let_def)
  have load: "\<exists>st3 t3. nbfs2_build_htable st2 = Some st3 \<and> table st3 = Some t3 \<and> replies st3 = replies st2 @ [(u, 0)] \<and>
      (\<forall>n. ht_search (ht st3) t3 n = Some (map_option blobid2char (map_of names n)))"
    if s2: "read_buff st2 = Some r" "buffers st2 r = Some (out w')" "spb_data_size st2 = spb_data_size st'"
      "table st2 = Some t2" "ht_table z2 (ht st2, t2) []" "malloc_fail (io st2) = []" "user_cb st2 = Some u"
      "z2 \<or> inj_on hash_function (fst ` set names)" for st2 t2 z2 r u
  proof -
    have c2: "contents st2 (read_buff st2) = concat mds @ drop (length names * MDATA_SIZE) bs"
      using s2(1,2) w'(2) by (simp add: contents_def)
    have sz2: "spb_data_size st2 = of_nat (length (sorted_names names) * MDATA_SIZE)"
      using s2(3) st'(2) len by simp
    obtain h3 t3 where "nbfs2_build_htable st2 = Some (st2\<lparr>ht := h3, table := Some t3, replies := replies st2 @ [(u, 0)]\<rparr>)"
        "ht_table z2 (h3, t3) (id_entries (sorted_names names))"
      using build_table_ok [OF w'(3) c2 s2(6,4,5,7) sz2 _ srt(1) few [OF s2(8)]] len by auto
    with htab.lookup_ok [of z2 "(h3, t3)"] mo show ?thesis by fastforce
  qed
  show ?thesis using run st' load by blast
qed

text \<open>A sample: an empty file system, fresh list nodes full of garbage.\<close>

definition sample_nbfs2 :: nbfs2 where
  "sample_nbfs2 = \<lparr>io = \<lparr>args_heap = Map.empty, csb_heap = Map.empty, next_args = 0, garbage_blob = 0,
       garbage_blobid = 0, garbage_payload = None, malloc_fail = [], channel_fail = [],
       open_channels = [], next_channel = 0, num_clusters = (\<lambda>_. 0), num_io_units = (\<lambda>_. 0),
       free_cluster_count = 100, bs_cluster_size = 1048576, bs_io_unit_size = 512,
       flags = (\<lambda>_. 0), pending = [], calls = []\<rparr>,
     ht = garbage_heap, superblob = 0, superblob_id = 0, spb_data_size = 0, fs_io_unit_size = 0,
     table = None, ht_size = INIT_HASHTABLE_SIZE, read_buff = None, write_buff = None, args_file = None,
     file_heap = Map.empty, next_file = 0, build_mthd = MTHD_INIT, bdev_name = [], bs_dev = False,
     user_cb = None, buffers = Map.empty, next_buffer = 0, dma_fail = [], fresh_bytes = (\<lambda>_. 0),
     xattr_address = (\<lambda>_. None), xattrs = [], replies = [], app_stop = []\<rparr>"

lemma sample_table:
  obtains t where "create_table garbage_heap 65536 = Some (garbage_heap, t)" "ht_table False (garbage_heap, t) []"
  using ht_table_create [of False garbage_heap 65536] by auto

theorem superblob_roundtrip_witness:
  "\<exists>st st'. nbfs2_write_htable st = Some st' \<and> spb_data_size st' = 136 \<and>
     (\<exists>st2 st3 t3. nbfs2_build_htable st2 = Some st3 \<and> table st3 = Some t3 \<and>
        ht_search (ht st3) t3 ''a'' = Some (Some ''0x0000000000000005''))"
proof -
  obtain t0 where t0: "create_table garbage_heap 65536 = Some (garbage_heap, t0)" "ht_table False (garbage_heap, t0) []"
    by (rule sample_table)
  then obtain h t where t: "ht_table False (h, t) (id_entries [(''a'', 5)])"
    using htab.put_ok [OF t0(2), of "''a''" "blobid2char 5"] by (auto simp: bucket_room_def same_index_def)
  define st where "st = sample_nbfs2\<lparr>ht := h, table := Some t, write_buff := Some 0, buffers := [0 \<mapsto> replicate 136 0]\<rparr>"
  have sizes: "of_nat (length [(''a'', 5 :: u64)] * MDATA_SIZE) = (136 :: u64)" "MDATA_SIZE = 136"
    by (simp_all add: MDATA_SIZE_def MAXFILENAME_def)
  have "\<exists>st' bs'. nbfs2_write_htable st = Some st' \<and> buffers st' 0 = Some bs' \<and>
      spb_data_size st' = of_nat (length [(''a'', 5 :: u64)] * MDATA_SIZE) \<and>
      io st' = write_super_blob (Some 0) 0 (of_nat (length [(''a'', 5 :: u64)] * MDATA_SIZE)) N_superblob_written (io st) \<and>
      (\<forall>st2 t2 z2 r u. read_buff st2 = Some r \<and> buffers st2 r = Some bs' \<and> spb_data_size st2 = spb_data_size st' \<and>
         table st2 = Some t2 \<and> ht_table z2 (ht st2, t2) [] \<and> (z2 \<or> inj_on hash_function (fst ` set [(''a'', 5 :: u64)])) \<and>
         malloc_fail (io st2) = [] \<and> user_cb st2 = Some u \<longrightarrow>
         (\<exists>st3 t3. nbfs2_build_htable st2 = Some st3 \<and> table st3 = Some t3 \<and> replies st3 = replies st2 @ [(u, 0)] \<and>
            (\<forall>n. ht_search (ht st3) t3 n = Some (map_option blobid2char (map_of [(''a'', 5)] n)))))"
    by (rule superblob_roundtrip [of st t False "[(''a'', 5)]" 0 "replicate 136 0"])
      (use t sizes in \<open>simp_all add: st_def sample_nbfs2_def valid_name_def c_string_def MAXFILENAME_def\<close>)
  then obtain st' bs' where w: "nbfs2_write_htable st = Some st'" "spb_data_size st' = 136"
    and load: "\<forall>st2 t2 z2 r u. read_buff st2 = Some r \<and> buffers st2 r = Some bs' \<and> spb_data_size st2 = spb_data_size st' \<and>
         table st2 = Some t2 \<and> ht_table z2 (ht st2, t2) [] \<and> (z2 \<or> inj_on hash_function (fst ` set [(''a'', 5 :: u64)])) \<and>
         malloc_fail (io st2) = [] \<and> user_cb st2 = Some u \<longrightarrow>
         (\<exists>st3 t3. nbfs2_build_htable st2 = Some st3 \<and> table st3 = Some t3 \<and> replies st3 = replies st2 @ [(u, 0)] \<and>
            (\<forall>n. ht_search (ht st3) t3 n = Some (map_option blobid2char (map_of [(''a'', 5)] n))))"
    unfolding sizes(1) by blast
  have "\<exists>st3 t3. nbfs2_build_htable (sample_nbfs2\<lparr>read_buff := Some 0, buffers := [0 \<mapsto> bs'],
      spb_data_size := 136, table := Some t0, user_cb := Some 1\<rparr>) = Some st3 \<and> table st3 = Some t3 \<and>
      (\<forall>n. ht_search (ht st3) t3 n = Some (map_option blobid2char (map_of [(''a'', 5)] n)))"
    using load [rule_format, of "sample_nbfs2\<lparr>read_buff := Some 0, buffers := [0 \<mapsto> bs'],
      spb_data_size := 136, table := Some t0, user_cb := Some 1\<rparr>" 0 t0 False 1]
    by (auto simp: sample_nbfs2_def t0 w)
  moreover have "blobid2char 5 = ''0x0000000000000005''" by code_simp
  ultimately show ?thesis using w by fastforce
qed

end
