(* ===== verification/NBFS2_Ops.thy ===== *)
theory NBFS2_Ops
  imports NBFS2_Store
begin

text \<open>
  The operations of NBFS2 from the call of the user to the last completion.

  A file system in use is described by \<open>directory\<close>: the table holds the given names with the ids of
  their blobs.  Creating and opening keep to it; deleting, starting and loading do not do
  what they should.
\<close>

section \<open>Completing calls one by one\<close>

text \<open>Each reply completes the oldest pending call.\<close>

fun run_replies :: "bs_reply list \<Rightarrow> nbfs2 \<Rightarrow> nbfs2 option" where
  "run_replies [] st = Some st"
| "run_replies (r # rs) st = do { st \<leftarrow> nbfs2_complete 0 r st; run_replies rs st }"

lemma complete_first:
  "pending st = (c, cb) # ps \<Longrightarrow> complete_call 0 r st = run_cb cb r (st\<lparr>pending := ps\<rparr>)"
  by (simp add: complete_call_def arr_get_def drop_nth_def)

lemma run_calls_Nil [simp]: "calls (io st) = [] \<Longrightarrow> run_calls st = Some st"
  by (simp add: run_calls.simps)

text \<open>A client's callback that was called last, with nothing else to be called.\<close>

lemma run_calls_one:
  "calls (io st) = [c] \<Longrightarrow>
   run_calls st = do { st \<leftarrow> run_client c (st\<lparr>io := (io st)\<lparr>calls := []\<rparr>\<rparr>); run_calls st }"
  by (simp add: run_calls.simps [of st])

lemma run_replies_one [simp]: "run_replies [r] st = nbfs2_complete 0 r st"
  by (cases "nbfs2_complete 0 r st") simp_all

lemma calls_Nil: "calls x = [] \<Longrightarrow> x\<lparr>calls := []\<rparr> = x" for x :: "'c blob_io"
  by (cases x) simp

definition idle :: "nbfs2 \<Rightarrow> bool" where
  "idle st \<longleftrightarrow> pending (io st) = [] \<and> calls (io st) = [] \<and> malloc_fail (io st) = []"

lemma client_reply:
  assumes "pending (io st) = [(c, Io_client cb)]" "calls (io st) = []"
  shows "nbfs2_complete 0 (R_op e) st =
      do { st \<leftarrow> run_client (Call_op cb e) (st\<lparr>io := (io st)\<lparr>pending := []\<rparr>\<rparr>); run_calls st }"
    and "nbfs2_complete 0 (R_id b e) st =
      do { st \<leftarrow> run_client (Call_id cb b e) (st\<lparr>io := (io st)\<lparr>pending := []\<rparr>\<rparr>); run_calls st }"
    and "nbfs2_complete 0 (R_handle b' e) st =
      do { st \<leftarrow> run_client (Call_handle cb b' e) (st\<lparr>io := (io st)\<lparr>pending := []\<rparr>\<rparr>); run_calls st }"
  using assms
  by (simp_all add: nbfs2_complete_def complete_first [OF assms(1)] run_op_cb_def run_id_cb_def run_handle_cb_def
      call_def run_calls_one calls_Nil)

section \<open>The directory\<close>

text \<open>The table holds the names with their ids; \<open>z\<close> as in \<open>ht_table\<close>.\<close>

definition directory :: "bool \<Rightarrow> nbfs2 \<Rightarrow> (string \<times> u64) list \<Rightarrow> bool" where
  "directory z st names \<longleftrightarrow> (\<exists>t. table st = Some t \<and> ht_table z (ht st, t) (id_entries names))"

lemma map_of_id_entries: "map_of (id_entries names) n = map_option blobid2char (map_of names n)"
  by (simp add: id_entries_def map_of_map)

lemma find_blobid_directory: "directory z st names \<Longrightarrow> find_blobid n st = map_of names n"
proof -
  assume "directory z st names"
  then obtain t where t: "table st = Some t" "ht_table z (ht st, t) (id_entries names)"
    by (auto simp: directory_def)
  from htab.lookup_ok [OF t(2), of n] t(1) show ?thesis
    by (cases "map_of names n")
      (simp_all add: find_blobid_def map_of_id_entries length_blobid2char BLOBID_STRING_LEN_def char2blobid_blobid2char)
qed

text \<open>C31: A file that is created is found.  In an idle file system with a directory that has no file of the new
  name and room for it, creating the file and the completion of the blobstore with a new
  blob add exactly that name with that blob to the directory and answer the user with 0; opening
  the file then succeeds at once and selects its blob, as does opening any other file of
  the directory.  Room (\<open>bucket_room\<close>): no other name has the index of the new one, and then fresh
  memory may hold anything (\<open>z = False\<close>); or at most two names have it and the links of fresh list
  nodes happen to be NULL (\<open>z = True\<close>).  A third other name would be lost
  (\<open>fourth_name_replaces_third\<close>).  Memory does not run out.\<close>

theorem create_then_open:
  assumes D: "directory z st names" and n: "n \<notin> fst ` set names" "bucket_room z (id_entries names) n" and I: "idle st"
  shows "\<exists>s1 s2. nbfs2_create_file n (Some u) st = Some s1 \<and> run_replies [R_id bid 0] s1 = Some s2 \<and>
    directory z s2 (names @ [(n, bid)]) \<and> replies s2 = replies st @ [(u, 0)] \<and>
    spb_data_size s2 = spb_data_size st + 136 \<and> idle s2 \<and>
    (\<forall>m b. map_of (names @ [(n, bid)]) m = Some b \<longrightarrow>
       (\<exists>s3 f. nbfs2_open_file_sync m s2 = Some s3 \<and> get_args_file s3 = Some f \<and> file_blobid f = b \<and> filename f = m))"
proof -
  obtain t where t: "table st = Some t" "ht_table z (ht st, t) (id_entries names)"
    using D by (auto simp: directory_def)
  obtain h' t' where ins: "ht_insert (ht st) t n (blobid2char bid) = Some (h', t')"
      "ht_table z (h', t') (id_entries names @ [(n, blobid2char bid)])"
    using htab.put_ok [OF t(2), of n "blobid2char bid"] n by auto
  define s1 where "s1 = (let p = next_file st in post_call C_create_blob N_file_created
    (st\<lparr>user_cb := Some u, args_file := Some p, next_file := p + 1,
        file_heap := (file_heap st)(p \<mapsto> \<lparr>file_blobid = garbage_blobid (io st), filename = n\<rparr>)\<rparr>))"
  have c: "nbfs2_create_file n (Some u) st = Some s1"
    using I by (simp add: nbfs2_create_file_def nbfs2_malloc_def malloc_fails_def s1_def Let_def idle_def)
  have s1: "pending (io s1) = [(C_create_blob, Io_client N_file_created)]" "calls (io s1) = []"
    using I by (simp_all add: s1_def Let_def post_call_def post_def idle_def)
  define s2 where "s2 = s1\<lparr>io := io st, file_heap := (file_heap s1)(next_file st \<mapsto> \<lparr>file_blobid = bid, filename = n\<rparr>),
    ht := h', table := Some t', spb_data_size := spb_data_size st + 136, replies := replies st @ [(u, 0)]\<rparr>"
  have io1: "(io s1)\<lparr>pending := []\<rparr> = io st"
    using I by (simp add: s1_def Let_def post_call_def post_def idle_def)
  have r: "run_replies [R_id bid 0] s1 = Some s2"
    unfolding run_replies_one client_reply(2) [OF s1] io1 using ins(1) t(1) I
    by (simp add: run_client_def nbfs2_file_created_def upd_args_file_def
        get_args_file_def call_user_def s2_def s1_def Let_def post_call_def MDATA_SIZE_def MAXFILENAME_def idle_def)
  have D2: "directory z s2 (names @ [(n, bid)])" using ins(2) by (simp add: directory_def s2_def)
  have f2: "args_file s2 = Some (next_file st)" "file_heap s2 (next_file st) = Some \<lparr>file_blobid = bid, filename = n\<rparr>"
    by (simp_all add: s2_def s1_def Let_def post_call_def)
  have "\<exists>s3 f. nbfs2_open_file_sync m s2 = Some s3 \<and> get_args_file s3 = Some f \<and> file_blobid f = b \<and> filename f = m"
    if "map_of (names @ [(n, bid)]) m = Some b" for m b
    using find_blobid_directory [OF D2, of m] that f2 by (simp add: nbfs2_open_file_sync_def upd_args_file_def get_args_file_def)
  moreover have "replies s2 = replies st @ [(u, 0)]" "spb_data_size s2 = spb_data_size st + 136" "idle s2"
    using I by (simp_all add: s2_def idle_def)
  ultimately show ?thesis using c r D2 by blast
qed

lemma sample_directory:
  obtains st where "directory False st []" "idle st" "ht_size st = INIT_HASHTABLE_SIZE" "spb_data_size st = 0"
    "replies st = []" "dma_fail st = []"
proof -
  obtain t where "ht_table False (garbage_heap, t) []" by (rule sample_table)
  then show thesis
    by (intro that [of "sample_nbfs2\<lparr>table := Some t\<rparr>"]) (simp_all add: directory_def sample_nbfs2_def idle_def)
qed

theorem create_then_open_witness:
  "\<exists>st s1 s2 s3 f. nbfs2_create_file ''a'' (Some 1) st = Some s1 \<and> run_replies [R_id 5 0] s1 = Some s2 \<and>
     replies s2 = [(1, 0)] \<and> nbfs2_open_file_sync ''a'' s2 = Some s3 \<and> get_args_file s3 = Some f \<and> file_blobid f = 5"
proof -
  obtain st where st: "directory False st []" "idle st" "replies st = []" by (rule sample_directory)
  have "bucket_room False (id_entries []) ''a''" by (simp add: bucket_room_def same_index_def)
  then obtain s1 s2 where s: "nbfs2_create_file ''a'' (Some 1) st = Some s1" "run_replies [R_id 5 0] s1 = Some s2"
      "replies s2 = [(1, 0)]"
    and op: "\<And>m b. map_of ([] @ [(''a'', 5)]) m = Some b \<Longrightarrow>
       \<exists>s3 f. nbfs2_open_file_sync m s2 = Some s3 \<and> get_args_file s3 = Some f \<and> file_blobid f = b \<and> filename f = m"
    using create_then_open [OF st(1) _ _ st(2), of "''a''" 1 5] st(3) by auto
  have "map_of ([] @ [(''a'', 5 :: u64)]) ''a'' = Some 5" by simp
  from op [OF this] s show ?thesis by blast
qed

text \<open>A name that does not exist crashes the file system: \<open>nbfs2_open_file_sync\<close> and
  \<open>nbfs2_delete_file\<close> copy the text of the id from the NULL pointer the search returns.\<close>

theorem missing_name_crashes:
  assumes "directory z st names" "n \<notin> fst ` set names"
  shows "nbfs2_open_file_sync n st = None \<and> nbfs2_delete_file n cb st = None"
proof -
  have "map_of names n = None" using assms(2) by (simp add: map_of_eq_None_iff)
  moreover have "directory z (st\<lparr>user_cb := cb\<rparr>) names" using assms(1) by (simp add: directory_def)
  ultimately show ?thesis
    using assms(1) by (simp add: nbfs2_open_file_sync_def nbfs2_delete_file_def find_blobid_directory)
qed

theorem missing_name_crashes_witness: "\<exists>st. nbfs2_open_file_sync ''a'' st = None \<and> directory False st []"
proof -
  obtain st where st: "directory False st []" by (rule sample_directory)
  with missing_name_crashes [OF st, of "''a''"] show ?thesis by auto
qed

section \<open>Deleting\<close>

text \<open>Entries do not fit into a smaller buffer.\<close>

lemma write_entry_sizes:
  assumes "write_entry it w = Some w'" "length (mdata w) = MDATA_SIZE"
  shows "length (out w') = length (out w)" "out_offset w' = out_offset w + MDATA_SIZE"
    "length (mdata w') = MDATA_SIZE" "out_offset w + MDATA_SIZE \<le> length (out w)"
  using assms
  by (auto simp: write_entry_def strcpy_name_def memcpy_def str_bytes_def MDATA_SIZE_def MAXFILENAME_def
      bind_Some_iff Let_def split: if_splits)

lemma write_list_overflow:
  "length (mdata w) = MDATA_SIZE \<Longrightarrow> out_offset w \<le> length (out w) \<Longrightarrow>
   length (out w) < out_offset w + length its * MDATA_SIZE \<Longrightarrow> write_list its w = None"
proof (induction its arbitrary: w)
  case (Cons it its)
  show ?case
  proof (cases "write_entry it w")
    case (Some w1)
    with write_entry_sizes [OF Some] Cons.prems have "write_list its w1 = None"
      by (intro Cons.IH) simp_all
    with Some show ?thesis by simp
  qed simp
qed simp

lemma write_htable_overflow:
  assumes T: "directory z st names" "ht_size st = INIT_HASHTABLE_SIZE" and M: "malloc_fail (io st) = []"
    and B: "write_buff st = Some b" "buffers st b = Some bs" "length bs < length names * MDATA_SIZE"
  shows "nbfs2_write_htable st = None"
proof -
  obtain t P L where t: "table st = Some t" and R: "ht_repr (ht st) t P L (bucket_of (id_entries names))"
    using T(1) by (auto simp: directory_def ht_table_def)
  let ?its = "map (\<lambda>(k, v). new_item k v) (by_index 65536 (id_entries names))"
  let ?w = "\<lparr>mdata = map (fresh_bytes st) [0..<MDATA_SIZE], out = bs, mdata_num = 0, out_offset = 0\<rparr>"
  have n: "65536 \<le> length (items t)" using R by (simp add: ht_repr_def)
  have "length ?its = length names"
    using arg_cong [OF by_index_all [of "id_entries names"], of size] by (simp add: id_entries_def)
  then have "write_list ?its ?w = None" using B(3) by (intro write_list_overflow) simp_all
  moreover have "write_buckets (ht st) t [0..<65536] ?w = write_list ?its ?w"
    using write_buckets_list [OF R, of "[0..<65536]"] n by (fastforce simp: concat_buckets)
  ultimately show ?thesis
    using t T(2) M B by (simp add: nbfs2_write_htable_def nbfs2_malloc_def malloc_fails_def
        INIT_HASHTABLE_SIZE_def contents_def)
qed

text \<open>C39: A deleted file stays in the directory.  \<open>_nbfs2_blob_deleted\<close> looks for the text of the blob
  id among the names: after the blob is gone the name is still found, with the id of the
  deleted blob, the user is never answered, and the size of the directory is counted down.  The
  buffer that unloading allocates is then one entry too small, and unloading
  writes past its end.\<close>

theorem delete_keeps_name:
  assumes D: "directory z st names" and n: "map_of names n = Some bid" and b: "blobid2char bid \<notin> fst ` set names"
    and f: "get_args_file st = Some x" and I: "idle st" "ht_size st = INIT_HASHTABLE_SIZE" "dma_fail st = []"
    and sz: "spb_data_size st = of_nat (length names * MDATA_SIZE)"
  shows "\<exists>s1 s2. nbfs2_delete_file n (Some u) st = Some s1 \<and>
    pending (io s1) = [(C_delete_blob bid, Io_client N_blob_deleted)] \<and>
    run_replies [R_op 0] s1 = Some s2 \<and> directory z s2 names \<and> replies s2 = replies st \<and>
    spb_data_size s2 = of_nat ((length names - 1) * MDATA_SIZE) \<and> nbfs2_unload_fs cb s2 = None"
proof -
  obtain t where t: "table st = Some t" "ht_table z (ht st, t) (id_entries names)"
    using D by (auto simp: directory_def)
  obtain p where p: "args_file st = Some p" "file_heap st p = Some x"
    using f by (auto simp: get_args_file_def bind_Some_iff)
  have gone: "ht_delete (ht st) t (blobid2char bid) = Some (ht st, t)"
  proof -
    obtain P L where "ht_repr (ht st) t P L (bucket_of (id_entries names))"
      using t(2) by (auto simp: ht_table_def)
    moreover have "blobid2char bid \<notin> key ` set (bucket_of (id_entries names) (index_of (blobid2char bid)))"
      unfolding bucket_of_keys using b by simp
    ultimately show ?thesis by (rule ht_delete_absent)
  qed
  let ?x = "x\<lparr>filename := n, file_blobid := bid\<rparr>"
  define s1 where "s1 = post_call (C_delete_blob bid) N_blob_deleted
    (st\<lparr>user_cb := Some u, file_heap := (file_heap st)(p \<mapsto> ?x)\<rparr>)"
  have "directory z (st\<lparr>user_cb := Some u\<rparr>) names" using D by (simp add: directory_def)
  then have c: "nbfs2_delete_file n (Some u) st = Some s1"
    using p n by (simp add: nbfs2_delete_file_def find_blobid_directory upd_args_file_def s1_def)
  have s1: "pending (io s1) = [(C_delete_blob bid, Io_client N_blob_deleted)]" "calls (io s1) = []"
      "(io s1)\<lparr>pending := []\<rparr> = io st"
    using I(1) by (simp_all add: s1_def post_call_def post_def idle_def)
  define s2 where "s2 = s1\<lparr>io := io st, spb_data_size := spb_data_size st - of_nat MDATA_SIZE\<rparr>"
  have r: "run_replies [R_op 0] s1 = Some s2"
    unfolding run_replies_one client_reply(1) [OF s1(1,2)] s1(3) using p gone t(1) I(1)
    by (simp add: run_client_def nbfs2_blob_deleted_def get_args_file_def s2_def s1_def post_call_def idle_def)
  have ne: "names \<noteq> []" using n by auto
  have D2: "directory z s2 names" using D by (simp add: directory_def s2_def s1_def post_call_def)
  have sz2: "spb_data_size s2 = of_nat ((length names - 1) * MDATA_SIZE)"
    using ne by (cases names) (simp_all add: s2_def sz algebra_simps)
  let ?bs = "map (fresh_bytes s2) [0..<unat (spb_data_size s2)]"
  let ?s3 = "s2\<lparr>user_cb := cb, dma_fail := [], buffers := (buffers s2)(next_buffer s2 \<mapsto> ?bs),
    next_buffer := next_buffer s2 + 1, write_buff := Some (next_buffer s2)\<rparr>"
  have "unat (spb_data_size s2) \<le> (length names - 1) * MDATA_SIZE" by (simp add: sz2 unat_of_nat del: of_nat_mult)
  also have "\<dots> < length names * MDATA_SIZE" using ne by (simp add: MDATA_SIZE_def)
  finally have small: "length ?bs < length names * MDATA_SIZE" by simp
  have "nbfs2_write_htable ?s3 = None"
    by (rule write_htable_overflow [of z _ names "next_buffer s2" ?bs])
      (use D2 I small in \<open>simp_all add: directory_def s2_def s1_def post_call_def idle_def\<close>)
  then have "nbfs2_unload_fs cb s2 = None"
    using I(3) by (simp add: nbfs2_unload_fs_def spdk_malloc_def s2_def s1_def post_call_def)
  moreover have "replies s2 = replies st" by (simp add: s2_def s1_def post_call_def)
  ultimately show ?thesis using c s1(1) r D2 sz2 by blast
qed

theorem delete_keeps_name_witness:
  "\<exists>st s1 s2. nbfs2_delete_file ''a'' (Some 1) st = Some s1 \<and> run_replies [R_op 0] s1 = Some s2 \<and>
     directory False s2 [(''a'', 5)] \<and> nbfs2_unload_fs (Some 1) s2 = None"
proof -
  obtain t where t: "ht_table False (garbage_heap, t) []" by (rule sample_table)
  then obtain h' t' where t': "ht_table False (h', t') (id_entries [(''a'', 5)])"
    using htab.put_ok [OF t, of "''a''" "blobid2char 5"] by (auto simp: bucket_room_def same_index_def)
  define st where "st = sample_nbfs2\<lparr>ht := h', table := Some t', spb_data_size := 136, args_file := Some 0,
    file_heap := [0 \<mapsto> \<lparr>file_blobid = 5, filename = ''a''\<rparr>]\<rparr>"
  have "blobid2char 5 \<noteq> ''a''" using length_blobid2char [of 5] by auto
  then have "\<exists>s1 s2. nbfs2_delete_file ''a'' (Some 1) st = Some s1 \<and>
      pending (io s1) = [(C_delete_blob 5, Io_client N_blob_deleted)] \<and>
      run_replies [R_op 0] s1 = Some s2 \<and> directory False s2 [(''a'', 5)] \<and> replies s2 = replies st \<and>
      spb_data_size s2 = of_nat ((length [(''a'', 5 :: u64)] - 1) * MDATA_SIZE) \<and> nbfs2_unload_fs (Some 1) s2 = None"
    by (intro delete_keeps_name)
      (use t' in \<open>simp_all add: st_def sample_nbfs2_def directory_def get_args_file_def idle_def MDATA_SIZE_def MAXFILENAME_def\<close>)
  then show ?thesis by blast
qed

section \<open>Starting and loading\<close>

lemmas init_defs = nbfs2_complete_def complete_first run_op_cb_def run_id_cb_def run_handle_cb_def call_def
  run_calls_one run_client_def post_def post_call_def Let_def calls_Nil

text \<open>Starting the file system ends in a call of the NULL pointer.  \<open>_nbfs2_start\<close> builds the
  file system without a callback: the initialisation goes through creating, setting and
  opening the super blob, and its last step, which reports success, crashes; so does every step that
  reports an error.\<close>

theorem start_calls_null:
  assumes I: "idle st" and m: "build_mthd st = MTHD_INIT" and e: "e \<noteq> 0"
  shows "(\<exists>s. run_replies [R_handle x 0, R_id bid 0, R_op 0] (nbfs2_start 0 st) = Some s \<and>
      map snd (pending (io s)) = [Io_client N_superblob_opened_init]) \<and>
    run_replies [R_handle x 0, R_id bid 0, R_op 0, R_handle blb 0] (nbfs2_start 0 st) = None \<and>
    run_replies [R_handle x e] (nbfs2_start 0 st) = None \<and>
    run_replies [R_handle x 0, R_id bid e] (nbfs2_start 0 st) = None \<and>
    run_replies [R_handle x 0, R_id bid 0, R_op e] (nbfs2_start 0 st) = None \<and>
    run_replies [R_handle x 0, R_id bid 0, R_op 0, R_handle blb e] (nbfs2_start 0 st) = None"
proof -
  define s0 where "s0 = nbfs2_start 0 st"
  have s0: "pending (io s0) = [(C_bs_init, Io_client N_bs_init_complete)]" "calls (io s0) = []" "user_cb s0 = None"
      "(io s0)\<lparr>pending := []\<rparr> = io st" "malloc_fail (io s0) = []"
    using I m by (simp_all add: s0_def nbfs2_start_def nbfs2_build_fs_def post_call_def post_def idle_def Let_def)
  let ?a = "next_args (io st)"
  obtain s1 where s1: "nbfs2_complete 0 (R_handle x 0) s0 = Some s1" "user_cb s1 = None" "calls (io s1) = []"
      "pending (io s1) = [(C_create_blob, Csb_super_blob_created ?a)]"
      "csb_heap (io s1) ?a = Some \<lparr>csb_blobid = garbage_blobid (io st), csb_cb_fn = N_superblob_created\<rparr>"
    using I s0(3) unfolding client_reply(3) [OF s0(1,2)] s0(4)
    by (simp add: run_client_def nbfs2_bs_init_complete_def create_super_blob_def malloc_fails_def post_def idle_def Let_def)
  obtain s2 where s2: "nbfs2_complete 0 (R_id bid 0) s1 = Some s2" "user_cb s2 = None" "calls (io s2) = []"
      "pending (io s2) = [(C_set_super bid, Csb_super_blob_set ?a)]"
      "csb_heap (io s2) ?a = Some \<lparr>csb_blobid = bid, csb_cb_fn = N_superblob_created\<rparr>"
    using s1 by (simp add: nbfs2_complete_def complete_first [OF s1(4)] run_id_cb_def csb_super_blob_created_def post_def)
  obtain s3 where s3: "nbfs2_complete 0 (R_op 0) s2 = Some s3" "user_cb s3 = None" "calls (io s3) = []"
      "pending (io s3) = [(C_open_blob bid, Io_client N_superblob_opened_init)]"
    using s2 by (simp add: nbfs2_complete_def complete_first [OF s2(4)] run_op_cb_def csb_super_blob_set_def call_def
        run_calls_one run_client_def nbfs2_superblob_created_def post_call_def post_def)
  have c3: "nbfs2_complete 0 (R_handle blb e') s3 = None" for e'
    using s3 by (cases "create_table (ht s3) 65536")
      (auto simp: client_reply(3) [OF s3(4,3)] run_client_def nbfs2_superblob_opened_init_def fail_user_def
        call_user_def set_super_xattr_def INIT_HASHTABLE_SIZE_def bind_eq_None_conv)
  have c0: "nbfs2_complete 0 (R_handle x e) s0 = None"
    using e s0 by (simp add: client_reply(3) [OF s0(1,2)] run_client_def nbfs2_bs_init_complete_def fail_user_def call_user_def)
  have c1: "nbfs2_complete 0 (R_id bid e) s1 = None"
    using e s1 by (simp add: nbfs2_complete_def complete_first [OF s1(4)] run_id_cb_def csb_super_blob_created_def call_def
        run_calls_one run_client_def nbfs2_superblob_created_def fail_user_def call_user_def)
  have c2: "nbfs2_complete 0 (R_op e) s2 = None"
    using e s2 by (simp add: nbfs2_complete_def complete_first [OF s2(4)] run_op_cb_def csb_super_blob_set_def call_def
        run_calls_one run_client_def nbfs2_superblob_created_def fail_user_def call_user_def)
  show ?thesis using s1(1) s2(1) s3(1,4) c0 c1 c2 c3 by (simp flip: s0_def)
qed

theorem start_calls_null_witness:
  "run_replies [R_handle 0 0, R_id 5 0, R_op 0, R_handle 1 0] (nbfs2_start 0 sample_nbfs2) = None"
proof -
  have "idle sample_nbfs2" "build_mthd sample_nbfs2 = MTHD_INIT" by (simp_all add: idle_def sample_nbfs2_def)
  from start_calls_null [OF this, of 1 0 5 1] show ?thesis by simp
qed

text \<open>Loading takes addresses for sizes.  \<open>_nbfs2_superblob_opened_load\<close> passes the addresses of its
  fields where the blobstore stores a pointer to the value of an attribute: whatever sizes were
  stored, the table gets as many places as the lower half of that pointer says, and the blobstore is asked
  for as many units as the other pointer says.\<close>

theorem load_uses_addresses:
  assumes "xattr_address st XATTR_HTS = Some a" "xattr_address st XATTR_SPBDS = Some b"
    and "ht_alloc_fail (ht st) = []" "malloc_fail (io st) = []" "pending (io st) = []"
  shows "\<exists>st' t x. nbfs2_superblob_opened_load blb 0 st = Some st' \<and> table st' = Some t \<and>
    length (items t) = nat (sint (ucast a :: u32)) \<and> ht_size st' = ucast a \<and> spb_data_size st' = b \<and>
    pending (io st') = [(C_get_super, Rsb_super_blobid_got (next_args (io st)))] \<and>
    args_heap (io st') (next_args (io st)) = Some x \<and> io_length x = b"
proof -
  have "XATTR_HTS \<noteq> XATTR_SPBDS" by (simp add: XATTR_HTS_def XATTR_SPBDS_def)
  with assms show ?thesis
    by (auto simp: nbfs2_superblob_opened_load_def create_table_def spdk_malloc_def read_super_blob_def
        malloc_fails_def alloc_args_def set_args_def new_args_def post_def Let_def split: list.splits bool.splits)
qed

theorem load_uses_addresses_witness:
  "\<exists>st' t. nbfs2_superblob_opened_load 1 0 (sample_nbfs2\<lparr>xattr_address := (\<lambda>_. Some 140737488355360)\<rparr>) = Some st' \<and>
     table st' = Some t \<and> spb_data_size st' = 140737488355360"
  using load_uses_addresses [of "sample_nbfs2\<lparr>xattr_address := (\<lambda>_. Some 140737488355360)\<rparr>" 140737488355360 140737488355360 1]
  by (auto simp: sample_nbfs2_def garbage_heap_def zeroed_heap_def)

end
