(* ===== verification/Blobfs_Fuse.thy ===== *)
theory Blobfs_Fuse
  imports NBFS_Read NBFS_Directory NBFS_System
begin

text \<open>
  The FUSE operations of a mounted file system, \<open>module/blobfs/bdev/blobfs_fuse.c\<close>, on top of
  the file system layer.

  The operations run on the thread of the FUSE loop, with \<open>c\<close> as their
  \<open>thd_bfuse->channel\<close>, and call the synchronous functions of the layer.  An operation is cut
  where its thread waits for the semaphore of its channel: it returns a number to FUSE or the
  place where it waits, and \<open>fuse_resume\<close> goes on from there once the semaphore is positive.
  What an operation writes through its other arguments is in \<open>fuse_io\<close>.
\<close>

section \<open>Data\<close>

record stat_buf =
  st_mode :: u32
  st_nlink :: u64
  st_size :: int

text \<open>The caller's \<open>struct stat\<close>, the handle in \<open>fuse_file_info\<close>, and the names given to
  \<open>filler\<close>.\<close>

record fuse_io =
  stbuf :: stat_buf
  fh :: file_ptr
  filled :: "string list"

datatype fuse_wait =
    Fw_getattr req_ptr
  | Fw_request req_ptr
  | Fw_open req_ptr
  | Fw_truncate_open req_ptr u64
  | Fw_truncate req_ptr file_ptr
  | Fw_truncate_sync file_ptr req_ptr req_ptr
  | Fw_truncate_close req_ptr
  | Fw_release_sync file_ptr req_ptr req_ptr
  | Fw_release_close req_ptr
  | Fw_read u64 nat
  | Fw_write_rw u64
  | Fw_write_extend file_ptr req_ptr nat u64

datatype fuse_res = Fuse_return int | Fuse_wait fuse_wait

type_synonym fuse_out = "(nbfs \<times> fuse_io \<times> fuse_res) option"

definition S_IFDIR :: u32 where "S_IFDIR = 0x4000"
definition S_IFREG :: u32 where "S_IFREG = 0x8000"

text \<open>The modes are \<open>0755\<close> and \<open>0644\<close>, in octal.  The conversion to \<open>int\<close>, as the compiler does it.\<close>

definition to_int :: "int \<Rightarrow> int" where
  "to_int x = sint (word_of_int x :: u32)"

text \<open>A synchronous call returned at once or waits.\<close>

fun sync_call :: "nbfs \<times> (int + req_ptr) \<Rightarrow> fuse_io \<Rightarrow> (req_ptr \<Rightarrow> fuse_wait) \<Rightarrow> (int \<Rightarrow> int) \<Rightarrow> fuse_out" where
  "sync_call (st, Inl e) io w g = Some (st, io, Fuse_return (g e))"
| "sync_call (st, Inr r) io w g = Some (st, io, Fuse_wait (w r))"

section \<open>Names\<close>

definition fuse_getattr :: "chan_ptr \<Rightarrow> string \<Rightarrow> nbfs \<Rightarrow> fuse_io \<Rightarrow> fuse_out" where
  "fuse_getattr c path st io =
     (if strcmp path ''/'' = 0
      then Some (st, io\<lparr>stbuf := (stbuf io)\<lparr>st_mode := S_IFDIR OR 0x1ED, st_nlink := 2\<rparr>\<rparr>, Fuse_return 0)
      else do { x \<leftarrow> spdk_fs_file_stat st c path; sync_call x io Fw_getattr id })"

definition fuse_getattr_end :: "chan_ptr \<Rightarrow> req_ptr \<Rightarrow> nbfs \<Rightarrow> fuse_io \<Rightarrow> fuse_out" where
  "fuse_getattr_end c r st io =
     do { rq \<leftarrow> get_req st r;
          (st, res) \<leftarrow> finish_wait st c r;
          if res = 0 then do {
            stat \<leftarrow> stat_out rq;
            Some (st, io\<lparr>stbuf := (stbuf io)\<lparr>st_mode := S_IFREG OR 0x1A4, st_nlink := 1,
              st_size := sint (stat_size stat)\<rparr>\<rparr>, Fuse_return res) }
          else Some (st, io, Fuse_return res) }"

text \<open>The loop of \<open>fuse_readdir\<close>; \<open>&filename[1]\<close> lies behind the string when the name is
  empty.\<close>

partial_function (option) readdir_loop :: "nbfs \<Rightarrow> file_ptr option \<Rightarrow> string list \<Rightarrow> string list option" where
  "readdir_loop st iter acc =
     (case iter of
        None \<Rightarrow> Some acc
      | Some f \<Rightarrow> do {
          iter \<leftarrow> spdk_fs_iter_next st (Some f);
          nm \<leftarrow> spdk_file_get_name st f;
          nm \<leftarrow> nm;
          oassert (nm \<noteq> []);
          readdir_loop st iter (acc @ [tl nm]) })"

definition fuse_readdir :: "nbfs \<Rightarrow> fuse_io \<Rightarrow> fuse_out" where
  "fuse_readdir st io =
     do { iter \<leftarrow> spdk_fs_iter_first st;
          ns \<leftarrow> readdir_loop st iter (filled io @ [''.'', ''..'']);
          Some (st, io\<lparr>filled := ns\<rparr>, Fuse_return 0) }"

definition fuse_mknod :: "chan_ptr \<Rightarrow> string \<Rightarrow> nbfs \<Rightarrow> fuse_io \<Rightarrow> fuse_out" where
  "fuse_mknod c path st io = do { x \<leftarrow> spdk_fs_create_file st c path; sync_call x io Fw_request id }"

definition fuse_unlink :: "chan_ptr \<Rightarrow> string \<Rightarrow> nbfs \<Rightarrow> fuse_io \<Rightarrow> fuse_out" where
  "fuse_unlink c path st io = do { x \<leftarrow> spdk_fs_delete_file st c path; sync_call x io Fw_request id }"

definition fuse_rename :: "chan_ptr \<Rightarrow> string \<Rightarrow> string \<Rightarrow> nbfs \<Rightarrow> fuse_io \<Rightarrow> fuse_out" where
  "fuse_rename c old_path new_path st io =
     do { x \<leftarrow> spdk_fs_rename_file st c old_path new_path; sync_call x io Fw_request id }"

definition fuse_request_end :: "chan_ptr \<Rightarrow> req_ptr \<Rightarrow> nbfs \<Rightarrow> fuse_io \<Rightarrow> fuse_out" where
  "fuse_request_end c r st io = do { (st, res) \<leftarrow> finish_wait st c r; Some (st, io, Fuse_return res) }"

section \<open>Files\<close>

text \<open>\<open>spdk_file_close\<close>, which waits twice.\<close>

fun close_call :: "nbfs \<times> (int + req_ptr \<times> req_ptr) \<Rightarrow> fuse_io \<Rightarrow> (req_ptr \<Rightarrow> req_ptr \<Rightarrow> fuse_wait) \<Rightarrow> (int \<Rightarrow> int) \<Rightarrow> fuse_out" where
  "close_call (st, Inl e) io w g = Some (st, io, Fuse_return (g e))"
| "close_call (st, Inr (r, s)) io w g = Some (st, io, Fuse_wait (w r s))"

text \<open>\<open>fuse_truncate\<close> up to its first wait, from the open file, from the truncated file (the
  result of the close is not looked at), and to its end.\<close>

definition fuse_truncate :: "chan_ptr \<Rightarrow> string \<Rightarrow> u64 \<Rightarrow> nbfs \<Rightarrow> fuse_io \<Rightarrow> fuse_out" where
  "fuse_truncate c path sz st io =
     do { x \<leftarrow> spdk_fs_open_file st c path 0; sync_call x io (\<lambda>r. Fw_truncate_open r sz) uminus }"

definition fuse_truncate_opened :: "chan_ptr \<Rightarrow> req_ptr \<Rightarrow> u64 \<Rightarrow> nbfs \<Rightarrow> fuse_io \<Rightarrow> fuse_out" where
  "fuse_truncate_opened c r sz st io =
     do { (st, res, file) \<leftarrow> spdk_fs_open_file_finish st c r;
          if res \<noteq> 0 then Some (st, io, Fuse_return (- res))
          else do {
            file \<leftarrow> file;
            x \<leftarrow> spdk_file_truncate st file c sz;
            sync_call x io (\<lambda>r. Fw_truncate r file) uminus } }"

definition fuse_truncate_done :: "chan_ptr \<Rightarrow> req_ptr \<Rightarrow> file_ptr \<Rightarrow> nbfs \<Rightarrow> fuse_io \<Rightarrow> fuse_out" where
  "fuse_truncate_done c r file st io =
     do { (st, res) \<leftarrow> finish_wait st c r;
          if res \<noteq> 0 then Some (st, io, Fuse_return (- res))
          else do {
            x \<leftarrow> spdk_file_close st file c;
            close_call x io (Fw_truncate_sync file) (\<lambda>_. 0) } }"

definition fuse_truncate_end :: "chan_ptr \<Rightarrow> req_ptr \<Rightarrow> nbfs \<Rightarrow> fuse_io \<Rightarrow> fuse_out" where
  "fuse_truncate_end c r st io = do { (st, _) \<leftarrow> spdk_file_close_finish st c r; Some (st, io, Fuse_return 0) }"

definition fuse_utimens :: "nbfs \<Rightarrow> fuse_io \<Rightarrow> fuse_out" where
  "fuse_utimens st io = Some (st, io, Fuse_return 0)"

definition fuse_open :: "chan_ptr \<Rightarrow> string \<Rightarrow> nbfs \<Rightarrow> fuse_io \<Rightarrow> fuse_out" where
  "fuse_open c path st io = do { x \<leftarrow> spdk_fs_open_file st c path 0; sync_call x io Fw_open uminus }"

definition fuse_open_end :: "chan_ptr \<Rightarrow> req_ptr \<Rightarrow> nbfs \<Rightarrow> fuse_io \<Rightarrow> fuse_out" where
  "fuse_open_end c r st io =
     do { (st, res, file) \<leftarrow> spdk_fs_open_file_finish st c r;
          if res \<noteq> 0 then Some (st, io, Fuse_return (- res))
          else do { file \<leftarrow> file; Some (st, io\<lparr>fh := file\<rparr>, Fuse_return 0) } }"

definition fuse_release :: "chan_ptr \<Rightarrow> nbfs \<Rightarrow> fuse_io \<Rightarrow> fuse_out" where
  "fuse_release c st io = do { x \<leftarrow> spdk_file_close st (fh io) c; close_call x io (Fw_release_sync (fh io)) id }"

definition fuse_release_end :: "chan_ptr \<Rightarrow> req_ptr \<Rightarrow> nbfs \<Rightarrow> fuse_io \<Rightarrow> fuse_out" where
  "fuse_release_end c r st io = do { (st, res) \<leftarrow> spdk_file_close_finish st c r; Some (st, io, Fuse_return res) }"

definition fuse_read_end :: "chan_ptr \<Rightarrow> u64 \<Rightarrow> nat \<Rightarrow> nbfs \<Rightarrow> fuse_io \<Rightarrow> fuse_out" where
  "fuse_read_end c final_len sub_reads st io =
     do { (st, res) \<leftarrow> spdk_file_read_finish st c final_len sub_reads; Some (st, io, Fuse_return (to_int res)) }"

definition fuse_read :: "chan_ptr \<Rightarrow> nat \<Rightarrow> u64 \<Rightarrow> u64 \<Rightarrow> nbfs \<Rightarrow> fuse_io \<Rightarrow> fuse_out" where
  "fuse_read c p len off st io =
     do { (st, final_len, sub_reads) \<leftarrow> spdk_file_read st (fh io) c p off len;
          if sub_reads = 0 then fuse_read_end c final_len 0 st io
          else Some (st, io, Fuse_wait (Fw_read final_len sub_reads)) }"

definition write_result :: "u64 \<Rightarrow> int \<Rightarrow> int" where
  "write_result len res = (if res = 0 then to_int (uint len) else res)"

definition fuse_write :: "chan_ptr \<Rightarrow> nat \<Rightarrow> u64 \<Rightarrow> u64 \<Rightarrow> nbfs \<Rightarrow> fuse_io \<Rightarrow> fuse_out" where
  "fuse_write c p len off st io =
     do { (st, w) \<leftarrow> spdk_file_write st (fh io) c p off len;
          Some (st, io, case w of
             W_return e \<Rightarrow> Fuse_return (write_result len e)
           | W_wait_rw \<Rightarrow> Fuse_wait (Fw_write_rw len)
           | W_wait_extend r \<Rightarrow> Fuse_wait (Fw_write_extend (fh io) r p len)) }"

definition fuse_flush :: "nbfs \<Rightarrow> fuse_io \<Rightarrow> fuse_out" where
  "fuse_flush st io = Some (st, io, Fuse_return 0)"

definition fuse_fsync :: "nbfs \<Rightarrow> fuse_io \<Rightarrow> fuse_out" where
  "fuse_fsync st io = Some (st, io, Fuse_return 0)"

section \<open>After a wait\<close>

fun fuse_resume :: "chan_ptr \<Rightarrow> fuse_wait \<Rightarrow> nbfs \<Rightarrow> fuse_io \<Rightarrow> fuse_out" where
  "fuse_resume c (Fw_getattr r) st io = fuse_getattr_end c r st io"
| "fuse_resume c (Fw_request r) st io = fuse_request_end c r st io"
| "fuse_resume c (Fw_open r) st io = fuse_open_end c r st io"
| "fuse_resume c (Fw_truncate_open r sz) st io = fuse_truncate_opened c r sz st io"
| "fuse_resume c (Fw_truncate r f) st io = fuse_truncate_done c r f st io"
| "fuse_resume c (Fw_truncate_sync f r s) st io =
     do { st \<leftarrow> spdk_file_close_synced st f c r s; Some (st, io, Fuse_wait (Fw_truncate_close r)) }"
| "fuse_resume c (Fw_truncate_close r) st io = fuse_truncate_end c r st io"
| "fuse_resume c (Fw_release_sync f r s) st io =
     do { st \<leftarrow> spdk_file_close_synced st f c r s; Some (st, io, Fuse_wait (Fw_release_close r)) }"
| "fuse_resume c (Fw_release_close r) st io = fuse_release_end c r st io"
| "fuse_resume c (Fw_read final_len n) st io = fuse_read_end c final_len n st io"
| "fuse_resume c (Fw_write_rw len) st io =
     do { (st, res) \<leftarrow> spdk_file_write_rw_finish st c; Some (st, io, Fuse_return (write_result len res)) }"
| "fuse_resume c (Fw_write_extend f r p len) st io =
     do { (st, res) \<leftarrow> spdk_file_write_extended st f c r p len; Some (st, io, Fuse_return (write_result len res)) }"

definition sample_fuse_io :: fuse_io where
  "sample_fuse_io = \<lparr>stbuf = \<lparr>st_mode = 0, st_nlink = 0, st_size = 0\<rparr>, fh = 3, filled = []\<rparr>"

section \<open>Listing\<close>

text \<open>Each name of the directory leads to a file that has this name, and no name is empty.\<close>

definition names_agree :: "nbfs \<Rightarrow> (string \<rightharpoonup> file_ptr) \<Rightarrow> bool" where
  "names_agree st m \<longleftrightarrow> (\<forall>k f. m k = Some f \<longrightarrow> k \<noteq> [] \<and> (\<exists>fl. file_heap st f = Some fl \<and> name fl = Some k))"

lemma next_file_split:
  "f \<notin> set xs \<Longrightarrow> next_file f (xs @ f # ys) = (case ys of [] \<Rightarrow> None | g # _ \<Rightarrow> Some g)"
  by (induction xs) (auto simp: next_file_def next_in_leaf_found)

lemma readdir_loop_ok:
  assumes bt: "bt (bt_heap st) (files st) es" and na: "names_agree st (map_of es)"
    and d: "distinct (map snd es)" and es: "es = xs @ ys"
  shows "readdir_loop st (case ys of [] \<Rightarrow> None | (k, f) # _ \<Rightarrow> Some f) acc = Some (acc @ map (tl \<circ> fst) ys)"
  using es
proof (induction ys arbitrary: xs acc)
  case Nil
  then show ?case by (simp add: readdir_loop.simps)
next
  case (Cons y ys)
  obtain k f where y: "y = (k, f)" by (cases y)
  have "map_of es k = Some f"
    using Cons.prems y bt_sorted [OF bt] by (intro map_of_is_SomeI) (auto simp: strict_sorted_iff)
  then obtain fl where fl: "file_heap st f = Some fl" "name fl = Some k" "k \<noteq> []"
    using na by (auto simp: names_agree_def)
  have "f \<notin> set (map snd xs)" using d Cons.prems y by auto
  then have "next_file f (map snd es) = (case map snd ys of [] \<Rightarrow> None | g # _ \<Rightarrow> Some g)"
    using Cons.prems y next_file_split [of f "map snd xs" "map snd ys"] by simp
  then have "spdk_fs_iter_next st (Some f) = Some (case ys of [] \<Rightarrow> None | (k, f) # _ \<Rightarrow> Some f)"
    using fl B_plus_tree_get_next_ok [OF bt, of f] by (simp add: spdk_fs_iter_next_def get_file_def split: list.splits)
  then show ?case
    using fl y Cons.IH [of "xs @ [y]" "acc @ [tl k]"] Cons.prems
    by (simp add: readdir_loop.simps [of st "Some f"] spdk_file_get_name_def get_file_def)
qed

lemma names_agree_distinct:
  assumes "sorted_wrt (<) (map fst es)" "names_agree st (map_of es)"
  shows "distinct (map snd es)"
proof -
  have k: "map_of es k = Some f" if "(k, f) \<in> set es" for k f
    using assms(1) that by (intro map_of_is_SomeI) (auto simp: strict_sorted_iff)
  have "k = k'" if "(k, f) \<in> set es" "(k', f) \<in> set es" for k k' f
    using k [OF that(1)] k [OF that(2)] assms(2) unfolding names_agree_def by (metis option.inject)
  then have "inj_on snd (set es)" by (auto intro!: inj_onI)
  moreover have "distinct es" using assms(1) by (metis distinct_map strict_sorted_iff)
  ultimately show ?thesis by (simp add: distinct_map)
qed

text \<open>C19: Listing the root directory of a mounted file system calls \<open>filler\<close> for \<open>.\<close>, for
  \<open>..\<close> and then once for every file, in the order of the names and with the leading \<open>/\<close>
  cut off, and returns 0: the loop over \<open>spdk_fs_iter_first\<close> and \<open>spdk_fs_iter_next\<close> ends.\<close>

theorem readdir_lists_directory:
  assumes "dir_is (bt_heap st) (files st) m" "names_agree st m"
  shows "\<exists>ns. fuse_readdir st io = Some (st, io\<lparr>filled := filled io @ ''.'' # ''..'' # map tl ns\<rparr>, Fuse_return 0) \<and>
    sorted_wrt (<) ns \<and> set ns = dom m"
proof -
  obtain es where es: "bt (bt_heap st) (files st) es" "map_of es = m" using assms(1) by (auto simp: dir_is_def)
  have s: "sorted_wrt (<) (map fst es)" by (rule bt_sorted [OF es(1)])
  have "readdir_loop st (case es of [] \<Rightarrow> None | (k, f) # _ \<Rightarrow> Some f) acc = Some (acc @ map (tl \<circ> fst) es)" for acc
    using readdir_loop_ok [OF es(1), of "[]" es] names_agree_distinct [OF s, of st] assms(2) es(2) by simp
  then have "fuse_readdir st io = Some (st, io\<lparr>filled := filled io @ ''.'' # ''..'' # map tl (map fst es)\<rparr>, Fuse_return 0)"
    using B_plus_tree_get_first_ok [OF es(1)] by (simp add: fuse_readdir_def spdk_fs_iter_first_def)
  moreover have "set (map fst es) = dom m" by (simp add: es(2) [symmetric] dom_map_of_conv_image_fst)
  ultimately show ?thesis using s by blast
qed

theorem readdir_lists_directory_witness:
  "\<exists>ns. fuse_readdir (sample_fs [(''/b'', 3), (''/a'', 4)] [3 \<mapsto> sample_file ''/b'', 4 \<mapsto> sample_file ''/a'']) sample_fuse_io =
      Some (sample_fs [(''/b'', 3), (''/a'', 4)] [3 \<mapsto> sample_file ''/b'', 4 \<mapsto> sample_file ''/a''],
        sample_fuse_io\<lparr>filled := filled sample_fuse_io @ ''.'' # ''..'' # map tl ns\<rparr>, Fuse_return 0) \<and>
    sorted_wrt (<) ns \<and> set ns = {''/a'', ''/b''}"
proof -
  let ?F = "[3 \<mapsto> sample_file ''/b'', 4 \<mapsto> sample_file ''/a''] :: file_ptr \<rightharpoonup> spdk_file"
  let ?es = "[(''/b'', 3), (''/a'', 4)] :: (string \<times> file_ptr) list"
  have "names_agree (sample_fs ?es ?F) (map_of ?es)" by (auto simp: names_agree_def sample_file_def split: if_splits)
  from readdir_lists_directory [OF sample_fs_dir [of ?es ?F] this, of sample_fuse_io] show ?thesis by auto
qed

section \<open>Creating\<close>

lemma md_request_outstanding:
  "md_request st r \<Longrightarrow> c \<noteq> md_fs_channel st \<Longrightarrow> md_request (outstanding st c r1 rq\<lparr>msgs := ms\<rparr>) r"
  by (auto simp: md_request_def outstanding_def)

lemma mknod_started:
  assumes "free_request st c r1"
  shows "fuse_mknod c path st io = Some (outstanding st c r1 ((fresh_request c)\<lparr>op := Op_create path None, sem := Some c\<rparr>)
      \<lparr>msgs := msgs st @ [Msg_create_file r1]\<rparr>, io, Fuse_wait (Fw_request r1))"
  using assms by (auto simp: fuse_mknod_def spdk_fs_create_file_def alloc_fs_request_def alloc_fs_request_with_iov_def free_request_def
      outstanding_def exec fresh_request_def)

text \<open>The blobstore carries out the four calls of a creation.\<close>

abbreviation new_file :: "string \<Rightarrow> blob_id \<Rightarrow> spdk_file" where
  "new_file nm i \<equiv> zero_file\<lparr>name := Some nm, trace_arg_name := fs_name_to_uint64 nm, blobid := i\<rparr>"

lemma create_steps:
  fixes r :: req_ptr and i b and h :: bheap and st :: nbfs and root
  assumes r: "md_request st r" and rw: "requests st rw = Some rq" "sem rq = Some c" "rwerrno rq = None" "rw \<noteq> r"
    and c: "channels st c = Some ch" "c \<noteq> md_fs_channel st"
  shows "\<exists>st'. nbfs_steps (created st h root nm (Cb_create_file_done rw) r) st' \<and>
    bt_heap st' = h \<and> files st' = root \<and> file_heap st' = (file_heap st)(fresh_file st \<mapsto> new_file nm i) \<and>
    xattrs st' = xattrs st @ [(b, X_name nm), (b, X_length 0)] \<and> pending st' = pending st \<and> msgs st' = msgs st \<and>
    replies st' = replies st \<and> requests st' rw = Some (rq\<lparr>rc := 0\<rparr>) \<and> channels st' = (channels st)(c \<mapsto> ch\<lparr>sem_value := sem_value ch + 1\<rparr>)"
proof -
  let ?v = "\<lparr>res_errno = 0, res_id = i, res_blob = Some b, res_data = [], res_type = Bstype_blobfs, res_cluster_sz = 0\<rparr>"
  let ?S0 = "created st h root nm (Cb_create_file_done rw) r"
  let ?q = "(fresh_request (md_fs_channel st))\<lparr>arg_file := Some (fresh_file st), fn := Fn_file (Cb_create_file_done rw)\<rparr>"
  let ?S1 = "?S0\<lparr>file_heap := (file_heap st)(fresh_file st \<mapsto> new_file nm i),
      pending := pending st @ [(BS_open_blob i, Bs_create_blob_open r)]\<rparr>"
  let ?S2 = "?S1\<lparr>requests := (requests ?S1)(r \<mapsto> ?q\<lparr>op := Op_create [] (Some b)\<rparr>),
      pending := pending st @ [(BS_resize b 1, Bs_create_blob_resize r)]\<rparr>"
  let ?S3 = "?S1\<lparr>num_clusters := (num_clusters ?S2)(b := 1), requests := (requests ?S1)(r \<mapsto> ?q\<lparr>op := Op_create [] (Some b), rc := 0\<rparr>),
      xattrs := xattrs st @ [(b, X_name nm), (b, X_length 0)], pending := pending st @ [(BS_close b, Bs_create_blob_close r)]\<rparr>"
  let ?st = "st\<lparr>fresh_file := Suc (fresh_file st), bt_heap := h, files := root, file_heap := (file_heap st)(fresh_file st \<mapsto> zero_file)\<rparr>"
  obtain chm rs where chm: "channels st (md_fs_channel st) = Some chm" "reqs chm = r # rs" "r \<notin> set rs"
    using r by (auto simp: md_request_def neq_Nil_conv)
  have s1: "nbfs_step ?S0 ?S1"
    by (rule step_complete [where xs = "pending st" and ys = "[]" and v = ?v])
      (auto simp: created_def fs_create_blob_create_cb_def exec)
  have s2: "nbfs_step ?S1 ?S2"
    by (rule step_complete [where xs = "pending st" and ys = "[]" and v = ?v])
      (auto simp: created_def fs_create_blob_open_cb_def exec)
  have s3: "nbfs_step ?S2 ?S3"
    by (rule step_complete [where xs = "pending st" and ys = "[]" and v = ?v])
      (auto simp: created_def fs_create_blob_resize_cb_def op_create_blob_def exec)
  let ?T = "?S3\<lparr>pending := pending st, requests := (requests ?S3)(rw \<mapsto> rq\<lparr>rc := 0\<rparr>),
      channels := (channels ?S3)(c \<mapsto> ch\<lparr>sem_value := sem_value ch + 1\<rparr>)\<rparr>"
  have "channels ?S3 c = Some ch" "channels ?S3 (md_fs_channel st) = Some (chm\<lparr>outstanding_reqs := outstanding_reqs chm + 1, reqs := rs\<rparr>)"
      "requests ?S3 rw = Some rq"
    using c chm rw by (simp_all add: created_def taken_def)
  then have w: "wake_caller (?S3\<lparr>pending := pending st\<rparr>) rw 0 = Some ?T"
    using rw by (simp add: wake_caller_def exec sem_post_def)
  have f: "free_fs_request ?T r = Some (?T\<lparr>channels := (channels st)(c \<mapsto> ch\<lparr>sem_value := sem_value ch + 1\<rparr>)\<rparr>)"
    using c(2) chm rw(4) by (auto simp: free_fs_request_def exec created_def taken_def fun_eq_iff)
  have "nbfs_step ?S3 (?T\<lparr>channels := (channels st)(c \<mapsto> ch\<lparr>sem_value := sem_value ch + 1\<rparr>)\<rparr>)"
    by (rule step_complete [where xs = "pending st" and ys = "[]" and v = ?v])
      (simp, simp, simp add: fs_create_blob_close_cb_def fs_create_file_done_def exec w [simplified] f [simplified])
  with s1 s2 s3 have "nbfs_steps ?S0 (?T\<lparr>channels := (channels st)(c \<mapsto> ch\<lparr>sem_value := sem_value ch + 1\<rparr>)\<rparr>)"
    by (meson converse_rtranclp_into_rtranclp rtranclp.rtrancl_refl)
  then show ?thesis
    using rw by (intro exI conjI) (assumption | simp add: created_def)+
qed

text \<open>C6: \<open>mknod\<close> from the FUSE thread through the metadata thread and the blobstore and
  back: for a new name of at most 255 bytes, with memory and a free request in both channels, and
  a directory that is not empty (or the uninitialised \<open>cond\<close> of \<open>B_plus_tree_insert\<close> nonzero, without which the
  index drops its first name, see \<open>fresh_insert_may_be_lost\<close>), the thread waits, the layer can serve it, and then \<open>mknod\<close> returns 0.  The directory has
  the new name and no other change, the attributes of the new blob are written, and requests,
  semaphore, message queue and pending calls are as before.\<close>

theorem mknod_creates_file:
  assumes "dir_is (bt_heap st) (files st) m" "m path = None" "\<not> name_too_long path"
    and "stack_cond st \<noteq> 0 \<or> m \<noteq> Map.empty" "alloc_fail st = []" "msgs st = []"
    and "md_request st r" "free_request st c rw" "c \<noteq> md_fs_channel st" "r \<noteq> rw"
  shows "\<exists>st1 st2 st3. fuse_mknod c path st io = Some (st1, io, Fuse_wait (Fw_request rw)) \<and>
    nbfs_steps st1 st2 \<and> fuse_resume c (Fw_request rw) st2 io = Some (st3, io, Fuse_return 0) \<and>
    dir_is (bt_heap st3) (files st3) (m(path \<mapsto> fresh_file st)) \<and>
    file_heap st3 = (file_heap st)(fresh_file st \<mapsto> new_file path i) \<and>
    xattrs st3 = xattrs st @ [(b, X_name path), (b, X_length 0)] \<and>
    channels st3 = channels st \<and> msgs st3 = [] \<and> pending st3 = pending st \<and> replies st3 = replies st"
proof -
  let ?rq = "(fresh_request c)\<lparr>op := Op_create path None, sem := Some c\<rparr>"
  let ?o = "outstanding st c rw ?rq"
  obtain ch rs where ch: "channels st c = Some ch" "reqs ch = rw # rs" "rw \<notin> set rs" using assms(8) by (auto simp: free_request_def)
  let ?ch = "ch\<lparr>outstanding_reqs := outstanding_reqs ch + 1, reqs := rs\<rparr>"
  have o: "channels ?o = (channels st)(c \<mapsto> ?ch)" "requests ?o rw = Some ?rq" "md_fs_channel ?o = md_fs_channel st"
      "bt_heap ?o = bt_heap st" "files ?o = files st" "stack_cond ?o = stack_cond st" "fresh_file ?o = fresh_file st"
      "xattrs ?o = xattrs st" "msgs ?o = []"
    using ch assms(6) by (simp_all add: outstanding_def)
  have md: "md_request ?o r"
    using md_request_outstanding [OF assms(7,9), of "[]" rw ?rq] by (simp add: md_request_def)
  obtain h root where cr: "dir_is h root (m(path \<mapsto> fresh_file st))"
      "spdk_fs_create_file_async ?o path (Cb_create_file_done rw) = Some (created ?o h root path (Cb_create_file_done rw) r)"
    using create_started [of ?o m path r "Cb_create_file_done rw"] assms o md by auto
  obtain st2 where s2: "nbfs_steps (created ?o h root path (Cb_create_file_done rw) r) st2"
      "bt_heap st2 = h" "files st2 = root" "file_heap st2 = (file_heap st)(fresh_file st \<mapsto> new_file path i)"
      "xattrs st2 = xattrs st @ [(b, X_name path), (b, X_length 0)]" "pending st2 = pending st" "msgs st2 = []"
      "replies st2 = replies st" "requests st2 rw = Some (?rq\<lparr>rc := 0\<rparr>)" "channels st2 = (channels st)(c \<mapsto> ?ch\<lparr>sem_value := sem_value ch + 1\<rparr>)"
    using create_steps [OF md o(2), of c ?ch h root path i b] assms(9,10) o
    by (auto simp: fresh_request_def zero_request_def)
  have e: "?o\<lparr>msgs := []\<rparr> = ?o" by (rule nbfs.equality) (use o(9) in simp_all)
  have "nbfs_step (?o\<lparr>msgs := [Msg_create_file rw]\<rparr>) (created ?o h root path (Cb_create_file_done rw) r)"
    by (rule step_msg [of _ "Msg_create_file rw" "[]"])
      (use cr(2) o in \<open>simp_all add: e fs_create_file_msg_def op_create_name_def get_req_def\<close>)
  with s2(1) have st: "nbfs_steps (?o\<lparr>msgs := [Msg_create_file rw]\<rparr>) st2" by (rule converse_rtranclp_into_rtranclp [rotated])
  have "finish_wait st2 c rw = Some (st2\<lparr>channels := channels st\<rparr>, 0)"
    using s2(9,10) ch by (simp add: finish_wait_def sem_wait_def free_fs_request_def exec fun_upd_idem)
  then have "fuse_resume c (Fw_request rw) st2 io = Some (st2\<lparr>channels := channels st\<rparr>, io, Fuse_return 0)"
    by (simp add: fuse_request_end_def)
  then show ?thesis
    using mknod_started [OF assms(8), of path io] st s2 cr(1) assms(6)
    by (intro exI [of _ "?o\<lparr>msgs := [Msg_create_file rw]\<rparr>"] exI [of _ st2] exI [of _ "st2\<lparr>channels := channels st\<rparr>"]) simp
qed

theorem mknod_creates_file_witness:
  "\<exists>st1 st2 st3. fuse_mknod 1 ''/b'' (sample_fs [(''/a'', 3)] Map.empty) sample_fuse_io = Some (st1, sample_fuse_io, Fuse_wait (Fw_request 24)) \<and>
    nbfs_steps st1 st2 \<and> fuse_resume 1 (Fw_request 24) st2 sample_fuse_io = Some (st3, sample_fuse_io, Fuse_return 0) \<and>
    dir_is (bt_heap st3) (files st3) ((map_of [(''/a'', 3)])(''/b'' \<mapsto> 10))"
proof -
  let ?st = "sample_fs [(''/a'', 3)] Map.empty"
  have "free_request ?st 1 24" "msgs ?st = []"
    by (simp_all add: free_request_def sample_fs_def boot_state_def zero_channel_def)
  with mknod_creates_file [of ?st "map_of [(''/a'', 3)]" "''/b''" 20 1 24 sample_fuse_io 9 5] sample_fs_dir [of "[(''/a'', 3)]" Map.empty]
  show ?thesis by (auto simp: name_too_long_def SPDK_FILE_NAME_MAX_def)
qed

section \<open>Opening and truncating\<close>

lemma open_waits:
  assumes "free_request st c r"
  shows "spdk_fs_open_file st c path 0 = Some (outstanding st c r ((fresh_request c)\<lparr>op := Op_open path 0, sem := Some c\<rparr>)
      \<lparr>msgs := msgs st @ [Msg_open_file r]\<rparr>, Inr r)"
  using assms by (auto simp: spdk_fs_open_file_def alloc_fs_request_def alloc_fs_request_with_iov_def free_request_def
      outstanding_def exec fresh_request_def)

lemma stat_waits:
  assumes "free_request st c r"
  shows "spdk_fs_file_stat st c path = Some (outstanding st c r ((fresh_request c)\<lparr>op := Op_stat path, fn := Fn_stat (Scb_copy_stat r), sem := Some c\<rparr>)
      \<lparr>msgs := msgs st @ [Msg_file_stat r]\<rparr>, Inr r)"
  using assms by (auto simp: spdk_fs_file_stat_def alloc_fs_request_def alloc_fs_request_with_iov_def free_request_def
      outstanding_def exec fresh_request_def)

text \<open>The state in which the only message, on behalf of request \<open>r\<close>, has been answered by an
  error, and the end of the wait.\<close>

definition answered :: "nbfs \<Rightarrow> chan_ptr \<Rightarrow> req_ptr \<Rightarrow> spdk_fs_request \<Rightarrow> nbfs" where
  "answered st c r rq = (outstanding st c r rq)\<lparr>msgs := [],
     channels := (channels (outstanding st c r rq))(c := map_option (\<lambda>ch. ch\<lparr>sem_value := sem_value ch + 1\<rparr>) (channels (outstanding st c r rq) c))\<rparr>"

lemma finish_answered:
  assumes "free_request st c r" "channel rq = Some c"
  shows "finish_wait (answered st c r rq) c r = Some ((answered st c r rq)\<lparr>channels := channels st\<rparr>, rc rq)"
  using assms by (auto simp: finish_wait_def sem_wait_def free_fs_request_def exec answered_def outstanding_def free_request_def fun_upd_idem)

lemma answered_simps [simp]:
  "file_heap (answered st c r rq) = file_heap st" "pending (answered st c r rq) = pending st" "msgs (answered st c r rq) = []"
  "requests (answered st c r rq) = (requests st)(r \<mapsto> rq)"
  by (simp_all add: answered_def)

lemma missing_open_answered:
  assumes "dir_is (bt_heap st) (files st) m" "m path = None" "\<not> name_too_long path" "free_request st c r"
  shows "nbfs_step (outstanding st c r ((fresh_request c)\<lparr>op := Op_open path 0, sem := Some c\<rparr>)\<lparr>msgs := [Msg_open_file r]\<rparr>)
    (answered st c r ((fresh_request c)\<lparr>op := Op_open path 0, sem := Some c, rc := - ENOENT\<rparr>))"
proof -
  let ?o = "outstanding st c r ((fresh_request c)\<lparr>op := Op_open path 0, sem := Some c\<rparr>)\<lparr>msgs := []\<rparr>"
  have "fs_find_file ?o path = Some None"
    using fs_find_file_dir [of ?o m path] assms(1,2) by (simp add: outstanding_def)
  then have "handle_msg (Msg_open_file r) ?o = Some (answered st c r ((fresh_request c)\<lparr>op := Op_open path 0, sem := Some c, rc := - ENOENT\<rparr>))"
    using assms(3,4) by (auto simp: fs_open_file_msg_def spdk_fs_open_file_async_def fs_open_file_done_def wake_caller_def sem_post_def exec
        answered_def outstanding_def free_request_def fresh_request_def zero_request_def)
  then show ?thesis by (intro step_msg [of _ "Msg_open_file r" "[]"]) simp_all
qed

lemma missing_stat_answered:
  assumes "dir_is (bt_heap st) (files st) m" "m path = None" "\<not> name_too_long path" "free_request st c r"
  shows "nbfs_step (outstanding st c r ((fresh_request c)\<lparr>op := Op_stat path, fn := Fn_stat (Scb_copy_stat r), sem := Some c\<rparr>)\<lparr>msgs := [Msg_file_stat r]\<rparr>)
    (answered st c r ((fresh_request c)\<lparr>op := Op_stat path, fn := Fn_stat (Scb_copy_stat r), sem := Some c, rc := - ENOENT\<rparr>))"
proof -
  let ?o = "outstanding st c r ((fresh_request c)\<lparr>op := Op_stat path, fn := Fn_stat (Scb_copy_stat r), sem := Some c\<rparr>)\<lparr>msgs := []\<rparr>"
  have "fs_find_file ?o path = Some None"
    using fs_find_file_dir [of ?o m path] assms(1,2) by (simp add: outstanding_def)
  then have "handle_msg (Msg_file_stat r) ?o = Some (answered st c r ((fresh_request c)\<lparr>op := Op_stat path, fn := Fn_stat (Scb_copy_stat r), sem := Some c, rc := - ENOENT\<rparr>))"
    using assms(3,4) by (auto simp: file_stat_msg_def spdk_fs_file_stat_async_def copy_stat_def sem_post_def exec
        answered_def outstanding_def free_request_def fresh_request_def zero_request_def)
  then show ?thesis by (intro step_msg [of _ "Msg_file_stat r" "[]"]) simp_all
qed

text \<open>C40: For a path that is not in the directory \<open>getattr\<close> returns \<open>-ENOENT\<close>, which is what
  FUSE expects, but \<open>open\<close> returns \<open>ENOENT\<close>: it negates an error that is negative already.
  Both wait, are answered by the metadata thread, and leave the file system as it was.\<close>

theorem missing_path_errors:
  assumes "dir_is (bt_heap st) (files st) m" "m path = None" "\<not> name_too_long path" "path \<noteq> ''/''"
    and "msgs st = []" "free_request st c r"
  shows "(\<exists>st1 st2 st3. fuse_getattr c path st io = Some (st1, io, Fuse_wait (Fw_getattr r)) \<and> nbfs_steps st1 st2 \<and>
      fuse_resume c (Fw_getattr r) st2 io = Some (st3, io, Fuse_return (- ENOENT)) \<and>
      file_heap st3 = file_heap st \<and> channels st3 = channels st \<and> pending st3 = pending st \<and> msgs st3 = []) \<and>
    (\<exists>st1 st2 st3. fuse_open c path st io = Some (st1, io, Fuse_wait (Fw_open r)) \<and> nbfs_steps st1 st2 \<and>
      fuse_resume c (Fw_open r) st2 io = Some (st3, io, Fuse_return ENOENT) \<and>
      file_heap st3 = file_heap st \<and> channels st3 = channels st \<and> pending st3 = pending st \<and> msgs st3 = [])"
proof
  let ?rq = "(fresh_request c)\<lparr>op := Op_stat path, fn := Fn_stat (Scb_copy_stat r), sem := Some c, rc := - ENOENT\<rparr>"
  let ?o = "outstanding st c r ((fresh_request c)\<lparr>op := Op_stat path, fn := Fn_stat (Scb_copy_stat r), sem := Some c\<rparr>)\<lparr>msgs := [Msg_file_stat r]\<rparr>"
  have "fuse_resume c (Fw_getattr r) (answered st c r ?rq) io = Some ((answered st c r ?rq)\<lparr>channels := channels st\<rparr>, io, Fuse_return (- ENOENT))"
    using finish_answered [OF assms(6), of ?rq] by (simp add: fuse_getattr_end_def get_req_def)
  then show "\<exists>st1 st2 st3. fuse_getattr c path st io = Some (st1, io, Fuse_wait (Fw_getattr r)) \<and> nbfs_steps st1 st2 \<and>
      fuse_resume c (Fw_getattr r) st2 io = Some (st3, io, Fuse_return (- ENOENT)) \<and>
      file_heap st3 = file_heap st \<and> channels st3 = channels st \<and> pending st3 = pending st \<and> msgs st3 = []"
    using missing_stat_answered [OF assms(1-3,6)] stat_waits [OF assms(6), of path] assms(4,5)
    by (intro exI [of _ ?o] exI [of _ "answered st c r ?rq"] exI [of _ "(answered st c r ?rq)\<lparr>channels := channels st\<rparr>"])
      (simp add: fuse_getattr_def r_into_rtranclp)
next
  let ?rq = "(fresh_request c)\<lparr>op := Op_open path 0, sem := Some c, rc := - ENOENT\<rparr>"
  let ?o = "outstanding st c r ((fresh_request c)\<lparr>op := Op_open path 0, sem := Some c\<rparr>)\<lparr>msgs := [Msg_open_file r]\<rparr>"
  have "fuse_resume c (Fw_open r) (answered st c r ?rq) io = Some ((answered st c r ?rq)\<lparr>channels := channels st\<rparr>, io, Fuse_return ENOENT)"
    using finish_answered [OF assms(6), of ?rq] by (simp add: fuse_open_end_def spdk_fs_open_file_finish_def get_req_def)
  then show "\<exists>st1 st2 st3. fuse_open c path st io = Some (st1, io, Fuse_wait (Fw_open r)) \<and> nbfs_steps st1 st2 \<and>
      fuse_resume c (Fw_open r) st2 io = Some (st3, io, Fuse_return ENOENT) \<and>
      file_heap st3 = file_heap st \<and> channels st3 = channels st \<and> pending st3 = pending st \<and> msgs st3 = []"
    using missing_open_answered [OF assms(1-3,6)] open_waits [OF assms(6), of path] assms(5)
    by (intro exI [of _ ?o] exI [of _ "answered st c r ?rq"] exI [of _ "(answered st c r ?rq)\<lparr>channels := channels st\<rparr>"])
      (simp add: fuse_open_def r_into_rtranclp)
qed

theorem missing_path_errors_witness:
  "(\<exists>st1 st2 st3. fuse_getattr 1 ''/b'' (sample_fs [(''/a'', 3)] Map.empty) sample_fuse_io = Some (st1, sample_fuse_io, Fuse_wait (Fw_getattr 24)) \<and>
      nbfs_steps st1 st2 \<and> fuse_resume 1 (Fw_getattr 24) st2 sample_fuse_io = Some (st3, sample_fuse_io, Fuse_return (- 2))) \<and>
   (\<exists>st1 st2 st3. fuse_open 1 ''/b'' (sample_fs [(''/a'', 3)] Map.empty) sample_fuse_io = Some (st1, sample_fuse_io, Fuse_wait (Fw_open 24)) \<and>
      nbfs_steps st1 st2 \<and> fuse_resume 1 (Fw_open 24) st2 sample_fuse_io = Some (st3, sample_fuse_io, Fuse_return 2))"
proof -
  let ?st = "sample_fs [(''/a'', 3)] Map.empty"
  have "free_request ?st 1 24" "msgs ?st = []"
    by (simp_all add: free_request_def sample_fs_def boot_state_def zero_channel_def)
  with missing_path_errors [of ?st "map_of [(''/a'', 3)]" "''/b''" 1 24 sample_fuse_io] sample_fs_dir [of "[(''/a'', 3)]" Map.empty]
  show ?thesis by (simp add: name_too_long_def SPDK_FILE_NAME_MAX_def) metis
qed

text \<open>A truncation that fails leaves the file open: \<open>fuse_truncate\<close> returns from the error branch
  without the \<open>spdk_file_close\<close> that would give back the reference it took.\<close>

theorem failed_truncate_keeps_reference:
  assumes "requests st r = Some rq" "channel rq = Some c" "rc rq \<noteq> 0" "channels st c = Some ch" "sem_value ch > 0"
    and "r \<notin> set (reqs ch)"
  shows "\<exists>st'. fuse_resume c (Fw_truncate r f) st io = Some (st', io, Fuse_return (- rc rq)) \<and>
    file_heap st' = file_heap st \<and> msgs st' = msgs st \<and> pending st' = pending st"
  using assms by (auto simp: fuse_truncate_done_def finish_wait_def sem_wait_def free_fs_request_def exec)

end
