(* ===== verification/Blobfs_Bdev.thy ===== *)
theory Blobfs_Bdev
  imports NBFS_Prelude "HOL-Library.Multiset"
begin

text \<open>
  File systems on block devices, \<open>module/blobfs/bdev/blobfs_bdev.c\<close>, with the part of
  \<open>blobfs_fuse.c\<close> that starts and stops the FUSE loop: detecting, creating and mounting a file
  system on a named device.

  The file system layer is the environment here: a call of \<open>spdk_fs_load\<close>, \<open>spdk_fs_init\<close> or
  \<open>spdk_fs_unload\<close> is added to \<open>fs_pending\<close> with the thread that made it, and is completed
  later, on that thread, with any result.  Messages between SPDK threads are in \<open>thread_msgs\<close>
  with their receiver, the POSIX threads that run a FUSE loop in \<open>fuse_threads\<close>.  What a call of
  the bdev layer, of FUSE or of pthreads returns is the next element of its list in \<open>answers\<close>
  (0 when the list is empty).  \<open>'u\<close> is the type of the users' callbacks with their argument; a
  call of one is added to \<open>user_calls\<close>.  \<open>fuse_parse_cmdline\<close> of the fixed argument list succeeds, as the
  code asserts.

  Two things are coarser than in C.  Strings are values: \<open>strdup\<close> does not fail, and the context
  of an operation has the name and the mount point themselves where the struct borrows its caller's pointers, so
  that a caller that frees them too early (\<open>free_rpc_blobfs_mount\<close>, before \<open>_blobfs_bdev_unload_cb\<close> prints
  the name) is not seen.  And \<open>blobfs_fuse_start\<close> runs to its end before the thread it creates starts: the
  two writes after \<open>pthread_create\<close>, of \<open>fuse_tid\<close> and of \<open>*_bfuse\<close>, come before anything the loop does, in
  particular before it frees the struct.  The theorems about the module hold up to these two.
\<close>

section \<open>Data\<close>

type_synonym ctx_ptr = nat
type_synonym fuse_ptr = nat
type_synonym thread_id = nat
type_synonym fs_handle = nat
type_synonym dev_ptr = nat

record 'u blobfs_bdev_operation_ctx =
  ctx_bdev_name :: string
  ctx_fs :: "fs_handle option"
  ctx_cb_fn :: "'u option"
  ctx_mountpoint :: string
  fs_loading_thread :: "thread_id option"
  ctx_bfuse :: "fuse_ptr option"

text \<open>\<open>bf_cb\<close>: the callback is always \<open>blobfs_bdev_unmount\<close> with a context.\<close>

record spdk_blobfs_fuse =
  bf_bdev_name :: string
  bf_mountpoint :: string
  bf_channel :: bool
  bf_fs :: "fs_handle option"
  bf_handle :: "nat option"
  bf_cb :: ctx_ptr

datatype fs_call = Fs_load dev_ptr | Fs_init dev_ptr u32 | Fs_unload fs_handle
datatype fs_cb = Fs_load_to_unload ctx_ptr | Fs_mount_load ctx_ptr | Fs_unloaded ctx_ptr
datatype thread_msg = Tm_unload ctx_ptr | Tm_fuse_start ctx_ptr

datatype env_call = Env_calloc | Env_create_dev | Env_claim | Env_fuse_new | Env_fuse_mount
  | Env_pthread_create | Env_pthread_detach

datatype loop_phase = Loop_starting | Loop_running

datatype bdev_event = SPDK_BDEV_EVENT_REMOVE | SPDK_BDEV_EVENT_RESIZE | SPDK_BDEV_EVENT_MEDIA_MANAGEMENT

text \<open>\<open>devs\<close>: the block devices of blobstores that exist; \<open>fuse_handles\<close>: the FUSE handles that
  were created and not destroyed, \<open>mounts\<close>: those that are mounted; \<open>exits\<close>: the FUSE sessions
  told to end.\<close>

record 'u bdev_state =
  ctxs :: "ctx_ptr \<rightharpoonup> 'u blobfs_bdev_operation_ctx"
  next_ctx :: ctx_ptr
  bfuses :: "fuse_ptr \<rightharpoonup> spdk_blobfs_fuse"
  next_bfuse :: fuse_ptr
  answers :: "env_call \<Rightarrow> int list"
  devs :: "dev_ptr list"
  next_dev :: dev_ptr
  fuse_handles :: "nat list"
  next_handle :: nat
  mounts :: "nat list"
  exits :: "nat list"
  fuse_threads :: "(fuse_ptr \<times> loop_phase) list"
  fs_pending :: "(thread_id \<times> fs_call \<times> fs_cb) list"
  thread_msgs :: "(thread_id \<times> thread_msg) list"
  user_calls :: "('u \<times> int) list"

abbreviation (input) ENOMEM :: int where "ENOMEM \<equiv> 12"

section \<open>Primitives\<close>

definition env :: "env_call \<Rightarrow> 'u bdev_state \<Rightarrow> int \<times> 'u bdev_state" where
  "env k st = (case answers st k of [] \<Rightarrow> (0, st)
     | a # as \<Rightarrow> (a, st\<lparr>answers := (answers st)(k := as)\<rparr>))"

definition fs_post :: "thread_id \<Rightarrow> fs_call \<Rightarrow> fs_cb \<Rightarrow> 'u bdev_state \<Rightarrow> 'u bdev_state" where
  "fs_post t c cb st = st\<lparr>fs_pending := fs_pending st @ [(t, c, cb)]\<rparr>"

definition spdk_thread_send_msg :: "thread_id \<Rightarrow> thread_msg \<Rightarrow> 'u bdev_state \<Rightarrow> 'u bdev_state" where
  "spdk_thread_send_msg t m st = st\<lparr>thread_msgs := thread_msgs st @ [(t, m)]\<rparr>"

definition call_bdev_user :: "'u \<Rightarrow> int \<Rightarrow> 'u bdev_state \<Rightarrow> 'u bdev_state" where
  "call_bdev_user u e st = st\<lparr>user_calls := user_calls st @ [(u, e)]\<rparr>"

definition set_ctx :: "ctx_ptr \<Rightarrow> 'u blobfs_bdev_operation_ctx \<Rightarrow> 'u bdev_state \<Rightarrow> 'u bdev_state" where
  "set_ctx c x st = st\<lparr>ctxs := (ctxs st)(c \<mapsto> x)\<rparr>"

definition free_ctx :: "ctx_ptr \<Rightarrow> 'u bdev_state \<Rightarrow> 'u bdev_state" where
  "free_ctx c st = st\<lparr>ctxs := (ctxs st)(c := None)\<rparr>"

definition new_ctx :: "string \<Rightarrow> string \<Rightarrow> 'u \<Rightarrow> 'u blobfs_bdev_operation_ctx" where
  "new_ctx bdev mp u = \<lparr>ctx_bdev_name = bdev, ctx_fs = None, ctx_cb_fn = Some u, ctx_mountpoint = mp,
     fs_loading_thread = None, ctx_bfuse = None\<rparr>"

definition spdk_bdev_create_bs_dev_ext :: "'u bdev_state \<Rightarrow> int \<times> dev_ptr \<times> 'u bdev_state" where
  "spdk_bdev_create_bs_dev_ext st = (case env Env_create_dev st of (rc, st) \<Rightarrow>
     if rc \<noteq> 0 then (rc, 0, st)
     else (0, next_dev st, st\<lparr>devs := next_dev st # devs st, next_dev := next_dev st + 1\<rparr>))"

definition destroy_dev :: "dev_ptr \<Rightarrow> 'u bdev_state \<Rightarrow> 'u bdev_state" where
  "destroy_dev d st = st\<lparr>devs := remove1 d (devs st)\<rparr>"

section \<open>Unloading\<close>

definition blobfs_bdev_unload_cb :: "ctx_ptr \<Rightarrow> int \<Rightarrow> 'u bdev_state \<Rightarrow> 'u bdev_state option" where
  "blobfs_bdev_unload_cb c fserrno st = do {
     x \<leftarrow> ctxs st c;
     let st = (case ctx_cb_fn x of Some u \<Rightarrow> call_bdev_user u fserrno st | None \<Rightarrow> st);
     Some (free_ctx c st) }"

definition blobfs_bdev_unload :: "thread_id \<Rightarrow> ctx_ptr \<Rightarrow> 'u bdev_state \<Rightarrow> 'u bdev_state option" where
  "blobfs_bdev_unload t c st = do {
     x \<leftarrow> ctxs st c;
     fs \<leftarrow> ctx_fs x;
     Some (fs_post t (Fs_unload fs) (Fs_unloaded c) st) }"

definition blobfs_bdev_load_cb_to_unload ::
    "thread_id \<Rightarrow> ctx_ptr \<Rightarrow> fs_handle \<Rightarrow> int \<Rightarrow> 'u bdev_state \<Rightarrow> 'u bdev_state option" where
  "blobfs_bdev_load_cb_to_unload t c fs fserrno st = do {
     x \<leftarrow> ctxs st c;
     if fserrno \<noteq> 0 then do {
       u \<leftarrow> ctx_cb_fn x;
       Some (free_ctx c (call_bdev_user u fserrno st)) }
     else Some (spdk_thread_send_msg t (Tm_unload c) (set_ctx c (x\<lparr>ctx_fs := Some fs\<rparr>) st)) }"

section \<open>Detecting and creating\<close>

text \<open>\<open>ctx = calloc(...)\<close> with the fields set after it, or the call with \<open>-ENOMEM\<close>.\<close>

definition alloc_ctx :: "string \<Rightarrow> string \<Rightarrow> 'u \<Rightarrow> 'u bdev_state \<Rightarrow> ctx_ptr option \<times> 'u bdev_state" where
  "alloc_ctx bdev mp u st = (case env Env_calloc st of (rc, st) \<Rightarrow>
     if rc \<noteq> 0 then (None, call_bdev_user u (- ENOMEM) st)
     else (Some (next_ctx st), set_ctx (next_ctx st) (new_ctx bdev mp u) st\<lparr>next_ctx := next_ctx st + 1\<rparr>))"

text \<open>The label \<open>invalid\<close>.\<close>

definition invalid :: "ctx_ptr \<Rightarrow> 'u \<Rightarrow> int \<Rightarrow> 'u bdev_state \<Rightarrow> 'u bdev_state" where
  "invalid c u rc st = call_bdev_user u rc (free_ctx c st)"

definition spdk_blobfs_bdev_detect :: "thread_id \<Rightarrow> string \<Rightarrow> 'u \<Rightarrow> 'u bdev_state \<Rightarrow> 'u bdev_state" where
  "spdk_blobfs_bdev_detect t bdev u st = (case alloc_ctx bdev [] u st of
     (None, st) \<Rightarrow> st
   | (Some c, st) \<Rightarrow> (case spdk_bdev_create_bs_dev_ext st of (rc, dev, st) \<Rightarrow>
       if rc \<noteq> 0 then invalid c u rc st
       else fs_post t (Fs_load dev) (Fs_load_to_unload c) st))"

text \<open>\<open>spdk_fs_opts_init\<close> sets 1 MiB clusters.\<close>

definition default_cluster_sz :: u32 where "default_cluster_sz = 1024 * 1024"

definition spdk_blobfs_bdev_create ::
    "thread_id \<Rightarrow> string \<Rightarrow> u32 \<Rightarrow> 'u \<Rightarrow> 'u bdev_state \<Rightarrow> 'u bdev_state" where
  "spdk_blobfs_bdev_create t bdev cluster_sz u st = (case alloc_ctx bdev [] u st of
     (None, st) \<Rightarrow> st
   | (Some c, st) \<Rightarrow> (case spdk_bdev_create_bs_dev_ext st of (rc, dev, st) \<Rightarrow>
       if rc \<noteq> 0 then invalid c u rc st
       else case env Env_claim st of (rc, st) \<Rightarrow>
         if rc \<noteq> 0 then invalid c u rc (destroy_dev dev st)
         else fs_post t (Fs_init dev (if cluster_sz \<noteq> 0 then cluster_sz else default_cluster_sz))
                (Fs_load_to_unload c) st))"

section \<open>The FUSE loop\<close>

definition blobfs_fuse_free :: "fuse_ptr \<Rightarrow> 'u bdev_state \<Rightarrow> 'u bdev_state" where
  "blobfs_fuse_free b st = st\<lparr>bfuses := (bfuses st)(b := None)\<rparr>"

text \<open>\<open>blobfs_bdev_unmount\<close>, the callback a FUSE loop ends with.\<close>

definition blobfs_bdev_unmount :: "ctx_ptr \<Rightarrow> 'u bdev_state \<Rightarrow> 'u bdev_state option" where
  "blobfs_bdev_unmount c st = do {
     x \<leftarrow> ctxs st c;
     t \<leftarrow> fs_loading_thread x;
     Some (spdk_thread_send_msg t (Tm_unload c) st) }"

text \<open>\<open>fuse_new\<close> returns NULL and \<open>fuse_mount\<close>, \<open>pthread_create\<close> and \<open>pthread_detach\<close> fail when
  their answer is not 0.  The result of \<open>blobfs_fuse_start\<close> and \<open>*_bfuse\<close>.\<close>

definition blobfs_fuse_start ::
    "string \<Rightarrow> string \<Rightarrow> fs_handle option \<Rightarrow> ctx_ptr \<Rightarrow> 'u bdev_state \<Rightarrow> int \<times> fuse_ptr option \<times> 'u bdev_state" where
  "blobfs_fuse_start bdev mp fs c st = (case env Env_calloc st of (rc, st) \<Rightarrow>
     if rc \<noteq> 0 then (- ENOMEM, None, st)
     else let b = next_bfuse st;
              y = \<lparr>bf_bdev_name = bdev, bf_mountpoint = mp, bf_channel = False, bf_fs = fs, bf_handle = None, bf_cb = c\<rparr>;
              st = st\<lparr>bfuses := (bfuses st)(b \<mapsto> y), next_bfuse := b + 1\<rparr>
     in case env Env_fuse_new st of (rc, st) \<Rightarrow>
       if rc \<noteq> 0 then (- 1, None, blobfs_fuse_free b st)
       else let h = next_handle st;
                st = st\<lparr>fuse_handles := h # fuse_handles st, next_handle := h + 1,
                        bfuses := (bfuses st)(b \<mapsto> y\<lparr>bf_handle := Some h\<rparr>)\<rparr>
       in case env Env_fuse_mount st of (rc, st) \<Rightarrow>
         if rc \<noteq> 0 then (- 1, None, blobfs_fuse_free b st)
         else let st = st\<lparr>mounts := h # mounts st\<rparr>
         in case env Env_pthread_create st of (rc, st) \<Rightarrow>
           if rc \<noteq> 0 then (- rc, None, blobfs_fuse_free b st)
           else let st = st\<lparr>fuse_threads := fuse_threads st @ [(b, Loop_starting)]\<rparr>
           in case env Env_pthread_detach st of (rc, st) \<Rightarrow>
             if rc \<noteq> 0 then (- rc, None, blobfs_fuse_free b st)
             else (0, Some b, st))"

text \<open>The thread of the loop: its start up to \<open>fuse_loop\<close>, and its end after it.\<close>

definition fuse_loop_start :: "fuse_ptr \<Rightarrow> 'u bdev_state \<Rightarrow> 'u bdev_state option" where
  "fuse_loop_start b st = do {
     y \<leftarrow> bfuses st b;
     _ \<leftarrow> bf_fs y;
     Some (st\<lparr>bfuses := (bfuses st)(b \<mapsto> y\<lparr>bf_channel := True\<rparr>)\<rparr>) }"

definition fuse_loop_end :: "fuse_ptr \<Rightarrow> 'u bdev_state \<Rightarrow> 'u bdev_state option" where
  "fuse_loop_end b st = do {
     y \<leftarrow> bfuses st b;
     h \<leftarrow> bf_handle y;
     let st = st\<lparr>mounts := remove1 h (mounts st), fuse_handles := remove1 h (fuse_handles st)\<rparr>;
     st \<leftarrow> blobfs_bdev_unmount (bf_cb y) st;
     Some (blobfs_fuse_free b st) }"

definition blobfs_fuse_stop :: "fuse_ptr option \<Rightarrow> 'u bdev_state \<Rightarrow> 'u bdev_state option" where
  "blobfs_fuse_stop b st = (case b of
     None \<Rightarrow> Some st
   | Some b \<Rightarrow> do { y \<leftarrow> bfuses st b; h \<leftarrow> bf_handle y; Some (st\<lparr>exits := exits st @ [h]\<rparr>) })"

section \<open>Mounting\<close>

definition blobfs_bdev_mount_fuse_start :: "ctx_ptr \<Rightarrow> 'u bdev_state \<Rightarrow> 'u bdev_state option" where
  "blobfs_bdev_mount_fuse_start c st = do {
     x \<leftarrow> ctxs st c;
     let x' = x\<lparr>ctx_cb_fn := None\<rparr>;
     let st = set_ctx c x' st;
     let (rc, bf, st) = blobfs_fuse_start (ctx_bdev_name x) (ctx_mountpoint x) (ctx_fs x) c st;
     u \<leftarrow> ctx_cb_fn x;
     if rc \<noteq> 0 then blobfs_bdev_unmount c (call_bdev_user u rc st)
     else Some (call_bdev_user u 0 (set_ctx c (x'\<lparr>ctx_bfuse := bf\<rparr>) st)) }"

definition blobfs_bdev_mount_load_cb ::
    "thread_id \<Rightarrow> ctx_ptr \<Rightarrow> fs_handle \<Rightarrow> int \<Rightarrow> 'u bdev_state \<Rightarrow> 'u bdev_state option" where
  "blobfs_bdev_mount_load_cb t c fs fserrno st = do {
     x \<leftarrow> ctxs st c;
     if fserrno \<noteq> 0 then do {
       u \<leftarrow> ctx_cb_fn x;
       Some (free_ctx c (call_bdev_user u fserrno st)) }
     else Some (spdk_thread_send_msg t (Tm_fuse_start c)
            (set_ctx c (x\<lparr>ctx_fs := Some fs, fs_loading_thread := Some t\<rparr>) st)) }"

definition blobfs_bdev_fuse_event_cb :: "bdev_event \<Rightarrow> ctx_ptr \<Rightarrow> 'u bdev_state \<Rightarrow> 'u bdev_state option" where
  "blobfs_bdev_fuse_event_cb type c st =
     (if type = SPDK_BDEV_EVENT_REMOVE then do { x \<leftarrow> ctxs st c; blobfs_fuse_stop (ctx_bfuse x) st }
      else Some st)"

definition spdk_blobfs_bdev_mount ::
    "thread_id \<Rightarrow> string \<Rightarrow> string \<Rightarrow> 'u \<Rightarrow> 'u bdev_state \<Rightarrow> 'u bdev_state" where
  "spdk_blobfs_bdev_mount t bdev mp u st = (case alloc_ctx bdev mp u st of
     (None, st) \<Rightarrow> st
   | (Some c, st) \<Rightarrow> (case spdk_bdev_create_bs_dev_ext st of (rc, dev, st) \<Rightarrow>
       if rc \<noteq> 0 then invalid c u rc st
       else case env Env_claim st of (rc, st) \<Rightarrow>
         if rc \<noteq> 0 then invalid c u rc (destroy_dev dev st)
         else fs_post t (Fs_load dev) (Fs_mount_load c) st))"

section \<open>Steps of the environment\<close>

text \<open>The layer completes a call: with a file system or an error, on the thread of the call.\<close>

fun run_fs_cb :: "thread_id \<Rightarrow> fs_cb \<Rightarrow> fs_handle \<Rightarrow> int \<Rightarrow> 'u bdev_state \<Rightarrow> 'u bdev_state option" where
  "run_fs_cb t (Fs_load_to_unload c) fs e st = blobfs_bdev_load_cb_to_unload t c fs e st"
| "run_fs_cb t (Fs_mount_load c) fs e st = blobfs_bdev_mount_load_cb t c fs e st"
| "run_fs_cb t (Fs_unloaded c) fs e st = blobfs_bdev_unload_cb c e st"

fun run_msg :: "thread_id \<Rightarrow> thread_msg \<Rightarrow> 'u bdev_state \<Rightarrow> 'u bdev_state option" where
  "run_msg t (Tm_unload c) st = blobfs_bdev_unload t c st"
| "run_msg t (Tm_fuse_start c) st = blobfs_bdev_mount_fuse_start c st"

definition complete_fs :: "nat \<Rightarrow> fs_handle \<Rightarrow> int \<Rightarrow> 'u bdev_state \<Rightarrow> 'u bdev_state option" where
  "complete_fs i fs e st = do {
     (t, c, cb) \<leftarrow> arr_get (fs_pending st) i;
     run_fs_cb t cb fs e (st\<lparr>fs_pending := take i (fs_pending st) @ drop (Suc i) (fs_pending st)\<rparr>) }"

definition deliver_msg :: "nat \<Rightarrow> 'u bdev_state \<Rightarrow> 'u bdev_state option" where
  "deliver_msg i st = do {
     (t, m) \<leftarrow> arr_get (thread_msgs st) i;
     run_msg t m (st\<lparr>thread_msgs := take i (thread_msgs st) @ drop (Suc i) (thread_msgs st)\<rparr>) }"

fun run_thread :: "fuse_ptr \<times> loop_phase \<Rightarrow> (fuse_ptr \<times> loop_phase) list \<Rightarrow> (fuse_ptr \<times> loop_phase) list \<Rightarrow>
    'u bdev_state \<Rightarrow> 'u bdev_state option" where
  "run_thread (b, Loop_starting) xs ys st = fuse_loop_start b (st\<lparr>fuse_threads := xs @ (b, Loop_running) # ys\<rparr>)"
| "run_thread (b, Loop_running) xs ys st = fuse_loop_end b (st\<lparr>fuse_threads := xs @ ys\<rparr>)"

definition step_thread :: "nat \<Rightarrow> 'u bdev_state \<Rightarrow> 'u bdev_state option" where
  "step_thread i st = do {
     th \<leftarrow> arr_get (fuse_threads st) i;
     run_thread th (take i (fuse_threads st)) (drop (Suc i) (fuse_threads st)) st }"

end
