(* ===== verification/Blobfs_Bdev_Safety.thy ===== *)
theory Blobfs_Bdev_Safety
  imports Blobfs_Bdev
begin

text \<open>
  Detecting, creating and mounting in every interleaving: each operation answers its user
  exactly once, every callback, message and thread finds its context with the fields it reads
  set, and contexts are freed when nothing refers to them any more.

  The contract of a service that answers its users is the locale \<open>callback_service\<close>.
\<close>

section \<open>Services that answer\<close>

text \<open>\<open>reach us s\<close>: state \<open>s\<close> is reached after the operations with the callbacks \<open>us\<close> were
  started; \<open>called\<close> and \<open>owed\<close> are the callbacks already called and still to be called.\<close>

locale callback_service =
  fixes reach :: "'u list \<Rightarrow> 's \<Rightarrow> bool"
    and called :: "'s \<Rightarrow> 'u multiset"
    and owed :: "'s \<Rightarrow> 'u multiset"
  assumes accounted: "reach us s \<Longrightarrow> mset us = called s + owed s"
begin

lemma called_started: "reach us s \<Longrightarrow> called s \<subseteq># mset us"
  by (simp add: accounted)

lemma answered_when_idle: "reach us s \<Longrightarrow> owed s = {#} \<Longrightarrow> called s = mset us"
  by (simp add: accounted)

lemma called_at_most_once:
  assumes "reach us s" "distinct us"
  shows "count (called s) u + count (owed s) u \<le> 1"
proof -
  have "count (mset us) u \<le> 1" using assms(2) by (simp add: distinct_count_atmost_1)
  then show ?thesis using accounted [OF assms(1)] by simp
qed

end

section \<open>The callbacks that are owed\<close>

definition cb_of :: "(ctx_ptr \<rightharpoonup> 'u blobfs_bdev_operation_ctx) \<Rightarrow> ctx_ptr \<Rightarrow> 'u option" where
  "cb_of m c = Option.bind (m c) ctx_cb_fn"

definition opt_mset :: "'u option \<Rightarrow> 'u multiset" where
  "opt_mset v = (case v of None \<Rightarrow> {#} | Some u \<Rightarrow> {#u#})"

lemma opt_mset_simps [simp]: "opt_mset None = {#}" "opt_mset (Some u) = {#u#}"
  by (simp_all add: opt_mset_def)

definition owed_cbs :: "(ctx_ptr \<rightharpoonup> 'u blobfs_bdev_operation_ctx) \<Rightarrow> 'u multiset" where
  "owed_cbs m = image_mset (\<lambda>c. the (cb_of m c)) (mset_set {c. cb_of m c \<noteq> None})"

lemma owed_empty [simp]: "owed_cbs Map.empty = {#}"
  by (simp add: owed_cbs_def cb_of_def)

lemma owed_split:
  assumes "finite (dom m)"
  shows "owed_cbs m = owed_cbs (m(c := None)) + opt_mset (cb_of m c)"
proof -
  let ?A = "{d. d \<noteq> c \<and> cb_of m d \<noteq> None}"
  have fin: "finite {d. cb_of m d \<noteq> None}"
    by (rule finite_subset [OF _ assms]) (auto simp: cb_of_def bind_eq_Some_conv)
  have A: "{d. cb_of (m(c := None)) d \<noteq> None} = ?A" by (auto simp: cb_of_def)
  have eq: "owed_cbs (m(c := None)) = image_mset (\<lambda>d. the (cb_of m d)) (mset_set ?A)"
    unfolding owed_cbs_def A by (rule image_mset_cong) (use fin in \<open>auto simp: cb_of_def\<close>)
  show ?thesis
  proof (cases "cb_of m c")
    case None
    then have "{d. cb_of m d \<noteq> None} = ?A" by auto
    then show ?thesis using None eq by (simp add: owed_cbs_def)
  next
    case (Some u)
    then have "{d. cb_of m d \<noteq> None} = insert c ?A" by auto
    then show ?thesis using Some eq fin by (simp add: owed_cbs_def)
  qed
qed

lemma owed_set:
  assumes "finite (dom m)"
  shows "owed_cbs (m(c \<mapsto> x)) + opt_mset (cb_of m c) = owed_cbs m + opt_mset (ctx_cb_fn x)"
  using owed_split [OF assms, of c] owed_split [of "m(c \<mapsto> x)" c] assms by (simp add: cb_of_def)

lemma owed_cbs_same: "finite (dom m) \<Longrightarrow> m c = Some x \<Longrightarrow> ctx_cb_fn x' = ctx_cb_fn x \<Longrightarrow> owed_cbs (m(c \<mapsto> x')) = owed_cbs m"
  using owed_set [of m c x'] by (simp add: cb_of_def)

lemma owed_del: "finite (dom m) \<Longrightarrow> m c = Some x \<Longrightarrow> ctx_cb_fn x = Some u \<Longrightarrow> owed_cbs m = add_mset u (owed_cbs (m(c := None)))"
  using owed_split [of m c] by (simp add: cb_of_def)

lemma owed_del_none: "finite (dom m) \<Longrightarrow> m c = Some x \<Longrightarrow> ctx_cb_fn x = None \<Longrightarrow> owed_cbs m = owed_cbs (m(c := None))"
  using owed_split [of m c] by (simp add: cb_of_def)

lemma owed_new: "finite (dom m) \<Longrightarrow> m c = None \<Longrightarrow> ctx_cb_fn x = Some u \<Longrightarrow> owed_cbs (m(c \<mapsto> x)) = add_mset u (owed_cbs m)"
  using owed_set [of m c x] by (simp add: cb_of_def)

lemma owed_cleared:
  "finite (dom m) \<Longrightarrow> m c = Some x \<Longrightarrow> ctx_cb_fn x = Some u \<Longrightarrow> ctx_cb_fn x' = None \<Longrightarrow> add_mset u (owed_cbs (m(c \<mapsto> x'))) = owed_cbs m"
  using owed_set [of m c x'] by (simp add: cb_of_def)

section \<open>Jobs\<close>

text \<open>What refers to a context: a pending call of the layer, a message, a FUSE loop.\<close>

datatype job = Job_fs thread_id fs_call fs_cb | Job_msg thread_id thread_msg | Job_loop fuse_ptr loop_phase

definition jobs :: "'u bdev_state \<Rightarrow> job multiset" where
  "jobs st = mset (map (\<lambda>(t, c, cb). Job_fs t c cb) (fs_pending st)) + mset (map (\<lambda>(t, m). Job_msg t m) (thread_msgs st)) +
     mset (map (\<lambda>(b, ph). Job_loop b ph) (fuse_threads st))"

fun cb_ctx :: "fs_cb \<Rightarrow> ctx_ptr" where
  "cb_ctx (Fs_load_to_unload c) = c"
| "cb_ctx (Fs_mount_load c) = c"
| "cb_ctx (Fs_unloaded c) = c"

fun msg_ctx :: "thread_msg \<Rightarrow> ctx_ptr" where
  "msg_ctx (Tm_unload c) = c"
| "msg_ctx (Tm_fuse_start c) = c"

fun job_ctx :: "(fuse_ptr \<rightharpoonup> spdk_blobfs_fuse) \<Rightarrow> job \<Rightarrow> ctx_ptr" where
  "job_ctx B (Job_fs t call cb) = cb_ctx cb"
| "job_ctx B (Job_msg t m) = msg_ctx m"
| "job_ctx B (Job_loop b ph) = (case B b of None \<Rightarrow> 0 | Some y \<Rightarrow> bf_cb y)"

text \<open>The fields of its context (and of its FUSE struct) a job relies on.  Only the pending load
  and the start of the loop owe their user an answer that later jobs do not repeat, and an
  unload is made on the thread that loaded.\<close>

fun ctx_fits :: "job \<Rightarrow> 'u blobfs_bdev_operation_ctx \<Rightarrow> bool" where
  "ctx_fits (Job_fs t call (Fs_load_to_unload c)) x \<longleftrightarrow> ctx_cb_fn x \<noteq> None \<and> fs_loading_thread x = None"
| "ctx_fits (Job_fs t call (Fs_mount_load c)) x \<longleftrightarrow> ctx_cb_fn x \<noteq> None \<and> fs_loading_thread x = None"
| "ctx_fits (Job_fs t call (Fs_unloaded c)) x \<longleftrightarrow> (\<exists>fs. call = Fs_unload fs \<and> ctx_fs x = Some fs) \<and>
     fs_loading_thread x \<in> {None, Some t}"
| "ctx_fits (Job_msg t (Tm_unload c)) x \<longleftrightarrow> ctx_fs x \<noteq> None \<and> fs_loading_thread x \<in> {None, Some t}"
| "ctx_fits (Job_msg t (Tm_fuse_start c)) x \<longleftrightarrow> ctx_fs x \<noteq> None \<and> ctx_cb_fn x \<noteq> None \<and> fs_loading_thread x = Some t"
| "ctx_fits (Job_loop b ph) x \<longleftrightarrow> ctx_fs x \<noteq> None \<and> ctx_cb_fn x = None \<and> fs_loading_thread x \<noteq> None"

fun fuse_fits :: "(fuse_ptr \<rightharpoonup> spdk_blobfs_fuse) \<Rightarrow> job \<Rightarrow> bool" where
  "fuse_fits B (Job_loop b ph) \<longleftrightarrow> (\<exists>y. B b = Some y \<and> bf_handle y \<noteq> None \<and> bf_fs y \<noteq> None)"
| "fuse_fits B j \<longleftrightarrow> True"

text \<open>Each context has exactly one job, which it fits.\<close>

definition jobs_ok :: "(ctx_ptr \<rightharpoonup> 'u blobfs_bdev_operation_ctx) \<Rightarrow> (fuse_ptr \<rightharpoonup> spdk_blobfs_fuse) \<Rightarrow> job multiset \<Rightarrow> bool" where
  "jobs_ok C B J \<longleftrightarrow> (\<forall>j \<in># J. fuse_fits B j \<and> (\<exists>x. C (job_ctx B j) = Some x \<and> ctx_fits j x)) \<and>
     (\<forall>c. count (image_mset (job_ctx B) J) c = (if C c = None then 0 else 1))"

definition loops :: "job multiset \<Rightarrow> fuse_ptr set" where
  "loops J = {b. \<exists>ph. Job_loop b ph \<in># J}"

lemma job_ctx_cong: "fuse_fits B j \<Longrightarrow> (\<And>b ph. j = Job_loop b ph \<Longrightarrow> B' b = B b) \<Longrightarrow> job_ctx B' j = job_ctx B j \<and> fuse_fits B' j"
  by (cases j) auto

lemma jobs_ok_take:
  assumes "jobs_ok C B (add_mset j J)"
  shows "fuse_fits B j" "\<exists>x. C (job_ctx B j) = Some x \<and> ctx_fits j x" "\<forall>j' \<in># J. job_ctx B j' \<noteq> job_ctx B j"
proof -
  show "fuse_fits B j" "\<exists>x. C (job_ctx B j) = Some x \<and> ctx_fits j x" using assms by (auto simp: jobs_ok_def)
  have "count (image_mset (job_ctx B) (add_mset j J)) (job_ctx B j) \<le> 1"
    using assms unfolding jobs_ok_def by (metis order_refl zero_le)
  then have "count (image_mset (job_ctx B) J) (job_ctx B j) = 0" by simp
  then have "job_ctx B j \<notin># image_mset (job_ctx B) J" by (rule count_eq_zero_iff [THEN iffD1])
  then show "\<forall>j' \<in># J. job_ctx B j' \<noteq> job_ctx B j" by (metis imageI set_image_mset)
qed

lemma jobs_ok_frame:
  assumes "jobs_ok C B J" "\<forall>b \<in> loops J. B' b = B b"
  shows "jobs_ok C B' J" "image_mset (job_ctx B') J = image_mset (job_ctx B) J"
proof -
  have j: "job_ctx B' j = job_ctx B j \<and> fuse_fits B' j" if "j \<in># J" for j
    using job_ctx_cong [of B j B'] assms that by (auto simp: jobs_ok_def loops_def)
  then show "image_mset (job_ctx B') J = image_mset (job_ctx B) J" by (auto intro: image_mset_cong)
  with j show "jobs_ok C B' J" using assms(1) by (auto simp: jobs_ok_def)
qed

text \<open>Without the job, its context can go.\<close>

lemma jobs_ok_remove:
  assumes "jobs_ok C B (add_mset j J)"
  shows "jobs_ok (C(job_ctx B j := None)) B J"
proof -
  note t = jobs_ok_take [OF assms]
  have "count (image_mset (job_ctx B) J) c = (if (C(job_ctx B j := None)) c = None then 0 else 1)" for c
  proof (cases "c = job_ctx B j")
    case True
    then show ?thesis using t(3) by (auto simp: count_eq_zero_iff)
  next
    case False
    then have "count (image_mset (job_ctx B) J) c = count (image_mset (job_ctx B) (add_mset j J)) c" by simp
    also have "\<dots> = (if C c = None then 0 else 1)" using assms unfolding jobs_ok_def by blast
    finally show ?thesis using False by simp
  qed
  then show ?thesis using assms t(3) by (auto simp: jobs_ok_def)
qed

lemma jobs_ok_add:
  assumes "jobs_ok C B J" "C (job_ctx B j) = None" "fuse_fits B j" "ctx_fits j x"
  shows "jobs_ok (C(job_ctx B j \<mapsto> x)) B (add_mset j J)"
proof -
  have "job_ctx B j' \<noteq> job_ctx B j" if "j' \<in># J" for j' using assms(1,2) that by (auto simp: jobs_ok_def)
  then show ?thesis using assms by (auto simp: jobs_ok_def)
qed

text \<open>One job becomes another on the same context.\<close>

lemma jobs_ok_replace:
  assumes "jobs_ok C B (add_mset j J)" "\<forall>b \<in> loops J. B' b = B b"
    and "job_ctx B' j' = job_ctx B j" "fuse_fits B' j'" "ctx_fits j' x"
  shows "jobs_ok (C(job_ctx B j \<mapsto> x)) B' (add_mset j' J)"
proof -
  have "jobs_ok (C(job_ctx B j := None)) B' J" using jobs_ok_frame [OF jobs_ok_remove [OF assms(1)]] assms(2) by simp
  from jobs_ok_add [OF this, of j' x] show ?thesis using assms(3-5) by simp
qed

section \<open>The invariant\<close>

definition bdev_inv :: "'u list \<Rightarrow> 'u bdev_state \<Rightarrow> bool" where
  "bdev_inv us st \<longleftrightarrow> jobs_ok (ctxs st) (bfuses st) (jobs st) \<and> finite (dom (ctxs st)) \<and>
     mset us = mset (map fst (user_calls st)) + owed_cbs (ctxs st) \<and>
     (\<forall>c \<in> dom (ctxs st). c < next_ctx st) \<and> (\<forall>b \<in> dom (bfuses st). b < next_bfuse st) \<and>
     answers st Env_pthread_detach = []"

lemma env_simps:
  assumes "env k st = (rc, st')"
  shows "ctxs st' = ctxs st" "next_ctx st' = next_ctx st" "bfuses st' = bfuses st" "next_bfuse st' = next_bfuse st"
    "jobs st' = jobs st" "user_calls st' = user_calls st" "fuse_threads st' = fuse_threads st"
    "fs_pending st' = fs_pending st" "thread_msgs st' = thread_msgs st"
    "answers st Env_pthread_detach = [] \<Longrightarrow> answers st' Env_pthread_detach = []"
    "next_handle st' = next_handle st"
  using assms by (auto simp: env_def jobs_def split: list.splits)

lemma bdev_inv_cong:
  assumes "bdev_inv us st" "ctxs st' = ctxs st" "bfuses st' = bfuses st" "jobs st' = jobs st" "user_calls st' = user_calls st"
    "next_ctx st' = next_ctx st" "next_bfuse st' = next_bfuse st" "answers st' Env_pthread_detach = []"
  shows "bdev_inv us st'"
  using assms by (simp add: bdev_inv_def)

lemma env_inv: "bdev_inv us st \<Longrightarrow> env k st = (rc, st') \<Longrightarrow> bdev_inv us st'"
  by (rule bdev_inv_cong) (auto simp: env_simps bdev_inv_def)

text \<open>A context without a job yet: the state in the middle of an operation's first function.\<close>

definition half_inv :: "'u list \<Rightarrow> 'u \<Rightarrow> ctx_ptr \<Rightarrow> 'u bdev_state \<Rightarrow> bool" where
  "half_inv us u c st \<longleftrightarrow> (\<exists>x. ctxs st c = Some x \<and> ctx_cb_fn x = Some u \<and> fs_loading_thread x = None) \<and>
     bdev_inv us (free_ctx c st) \<and> c < next_ctx st"

lemma alloc_ctx_inv:
  assumes "bdev_inv us st"
  shows "case alloc_ctx bdev mp u st of (None, st') \<Rightarrow> bdev_inv (u # us) st' | (Some c, st') \<Rightarrow> half_inv us u c st'"
proof -
  obtain rc st1 where e: "env Env_calloc st = (rc, st1)" by fastforce
  have i: "bdev_inv us st1" by (rule env_inv [OF assms e])
  have "ctxs st1 (next_ctx st1) = None" using i unfolding bdev_inv_def by blast
  then have "free_ctx (next_ctx st1) (set_ctx (next_ctx st1) (new_ctx bdev mp u) st1\<lparr>next_ctx := next_ctx st1 + 1\<rparr>) =
      st1\<lparr>next_ctx := next_ctx st1 + 1\<rparr>"
    by (simp add: free_ctx_def set_ctx_def fun_upd_idem)
  moreover have "bdev_inv us (st1\<lparr>next_ctx := next_ctx st1 + 1\<rparr>)" using i by (auto simp: bdev_inv_def jobs_def less_Suc_eq)
  ultimately show ?thesis
    using e i by (auto simp: alloc_ctx_def half_inv_def set_ctx_def new_ctx_def call_bdev_user_def bdev_inv_def jobs_def)
qed

lemma half_env: "half_inv us u c st \<Longrightarrow> env k st = (rc, st') \<Longrightarrow> half_inv us u c st'"
  unfolding half_inv_def
  using bdev_inv_cong [of us "free_ctx c st" "free_ctx c st'"]
  by (auto simp: env_simps free_ctx_def bdev_inv_def jobs_def)

lemma half_dev: "half_inv us u c st \<Longrightarrow> half_inv us u c (st\<lparr>devs := d, next_dev := n\<rparr>)"
  by (simp add: half_inv_def bdev_inv_def free_ctx_def jobs_def)

lemma create_dev_inv: "half_inv us u c st \<Longrightarrow> spdk_bdev_create_bs_dev_ext st = (rc, d, st') \<Longrightarrow> half_inv us u c st'"
  by (auto simp: spdk_bdev_create_bs_dev_ext_def split: prod.splits if_splits dest: half_env intro: half_dev)

lemma destroy_dev_inv: "half_inv us u c st \<Longrightarrow> half_inv us u c (destroy_dev d st)"
  by (simp add: half_inv_def bdev_inv_def free_ctx_def jobs_def destroy_dev_def)

lemma invalid_inv: "half_inv us u c st \<Longrightarrow> bdev_inv (u # us) (invalid c u rc st)"
  by (simp add: half_inv_def bdev_inv_def invalid_def call_bdev_user_def free_ctx_def jobs_def)

lemma half_post:
  assumes "half_inv us u c st" "cb \<in> {Fs_load_to_unload c, Fs_mount_load c}"
  shows "bdev_inv (u # us) (fs_post t call cb st)"
proof -
  obtain x where x: "ctxs st c = Some x" "ctx_cb_fn x = Some u" "fs_loading_thread x = None"
    using assms(1) by (auto simp: half_inv_def)
  have i: "bdev_inv us (free_ctx c st)" "c < next_ctx st" using assms(1) by (auto simp: half_inv_def)
  let ?C = "(ctxs st)(c := None)"
  have C: "ctxs st = ?C(c \<mapsto> x)" using x(1) by auto
  have fin: "finite (dom ?C)" using i(1) by (simp add: bdev_inv_def free_ctx_def)
  have j: "jobs (fs_post t call cb st) = add_mset (Job_fs t call cb) (jobs (free_ctx c st))"
    by (simp add: jobs_def fs_post_def free_ctx_def)
  have "jobs_ok ?C (bfuses st) (jobs (free_ctx c st))" using i(1) by (simp add: bdev_inv_def free_ctx_def)
  then have "jobs_ok (?C(c \<mapsto> x)) (bfuses st) (jobs (fs_post t call cb st))"
    unfolding j using jobs_ok_add [of ?C "bfuses st" "jobs (free_ctx c st)" "Job_fs t call cb" x] assms(2) x by auto
  moreover have "owed_cbs (?C(c \<mapsto> x)) = add_mset u (owed_cbs ?C)" using owed_new [OF fin, of c x u] x by simp
  ultimately show ?thesis
    using i fin C by (auto simp: bdev_inv_def fs_post_def free_ctx_def)
qed

text \<open>The steps a job is away from its end.\<close>

fun job_weight :: "job \<Rightarrow> nat" where
  "job_weight (Job_fs t call (Fs_unloaded c)) = 1"
| "job_weight (Job_msg t (Tm_unload c)) = 2"
| "job_weight (Job_fs t call (Fs_load_to_unload c)) = 3"
| "job_weight (Job_loop b Loop_running) = 3"
| "job_weight (Job_loop b Loop_starting) = 4"
| "job_weight (Job_msg t (Tm_fuse_start c)) = 5"
| "job_weight (Job_fs t call (Fs_mount_load c)) = 6"

definition bdev_work :: "'u bdev_state \<Rightarrow> nat" where
  "bdev_work st = sum_mset (image_mset job_weight (jobs st))"

definition step_ok :: "'u list \<Rightarrow> 'u bdev_state \<Rightarrow> 'u bdev_state \<Rightarrow> bool" where
  "step_ok us st st' \<longleftrightarrow> bdev_inv us st' \<and> bdev_work st' < bdev_work st"

lemma job_weight_pos: "0 < job_weight j"
  by (cases j rule: job_weight.cases) auto

lemma inv_replace:
  assumes i: "bdev_inv us st" and j: "jobs st = add_mset j J" "jobs st' = add_mset j' J"
    and x: "ctxs st (job_ctx (bfuses st) j) = Some x" "ctxs st' = (ctxs st)(job_ctx (bfuses st) j \<mapsto> x')"
    and f: "\<forall>b \<in> loops J. bfuses st' b = bfuses st b"
    and j': "job_ctx (bfuses st') j' = job_ctx (bfuses st) j" "fuse_fits (bfuses st') j'" "ctx_fits j' x'"
    and u: "mset (map fst (user_calls st')) + opt_mset (ctx_cb_fn x') = mset (map fst (user_calls st)) + opt_mset (ctx_cb_fn x)"
    and n: "next_ctx st' = next_ctx st" "\<forall>b \<in> dom (bfuses st'). b < next_bfuse st'" "answers st' Env_pthread_detach = []"
    and w: "job_weight j' < job_weight j"
  shows "step_ok us st st'"
proof -
  have ok: "jobs_ok (ctxs st) (bfuses st) (add_mset j J)" and fin: "finite (dom (ctxs st))" using i j(1) by (simp_all add: bdev_inv_def)
  have o: "owed_cbs (ctxs st') + opt_mset (ctx_cb_fn x) = owed_cbs (ctxs st) + opt_mset (ctx_cb_fn x')"
    using owed_set [OF fin, of "job_ctx (bfuses st) j" x'] x by (simp add: cb_of_def)
  have "mset (map fst (user_calls st')) + owed_cbs (ctxs st') = mset (map fst (user_calls st)) + owed_cbs (ctxs st)"
    using arg_cong2 [OF u o, of "(+)"] by (simp add: ac_simps)
  then show ?thesis
    using i jobs_ok_replace [OF ok f j'] j x fin n w by (auto simp: bdev_inv_def step_ok_def bdev_work_def)
qed

lemma inv_remove:
  assumes i: "bdev_inv us st" and j: "jobs st = add_mset j J" "jobs st' = J"
    and x: "ctxs st (job_ctx (bfuses st) j) = Some x" "ctxs st' = (ctxs st)(job_ctx (bfuses st) j := None)"
    and u: "mset (map fst (user_calls st')) = mset (map fst (user_calls st)) + opt_mset (ctx_cb_fn x)"
    and n: "next_ctx st' = next_ctx st" "bfuses st' = bfuses st" "next_bfuse st' = next_bfuse st" "answers st' Env_pthread_detach = []"
  shows "step_ok us st st'"
proof -
  have ok: "jobs_ok (ctxs st) (bfuses st) (add_mset j J)" and fin: "finite (dom (ctxs st))" using i j(1) by (simp_all add: bdev_inv_def)
  have "owed_cbs (ctxs st) = owed_cbs (ctxs st') + opt_mset (ctx_cb_fn x)"
    using owed_split [OF fin, of "job_ctx (bfuses st) j"] x by (simp add: cb_of_def)
  then show ?thesis
    using i jobs_ok_remove [OF ok] j x u n fin job_weight_pos [of j] by (auto simp: bdev_inv_def step_ok_def bdev_work_def)
qed

lemma pending_split:
  assumes "i < length (fs_pending st)" "fs_pending st ! i = (t, call, cb)"
  shows "jobs st = add_mset (Job_fs t call cb) (jobs (st\<lparr>fs_pending := take i (fs_pending st) @ drop (Suc i) (fs_pending st)\<rparr>))"
proof -
  have "fs_pending st = take i (fs_pending st) @ (t, call, cb) # drop (Suc i) (fs_pending st)"
    using assms by (metis id_take_nth_drop)
  then have "mset (fs_pending st) = add_mset (t, call, cb) (mset (take i (fs_pending st) @ drop (Suc i) (fs_pending st)))"
    by (metis mset.simps(2) mset_append union_mset_add_mset_right)
  then show ?thesis by (simp add: jobs_def)
qed

lemma msgs_split:
  assumes "i < length (thread_msgs st)" "thread_msgs st ! i = (t, m)"
  shows "jobs st = add_mset (Job_msg t m) (jobs (st\<lparr>thread_msgs := take i (thread_msgs st) @ drop (Suc i) (thread_msgs st)\<rparr>))"
proof -
  have "thread_msgs st = take i (thread_msgs st) @ (t, m) # drop (Suc i) (thread_msgs st)"
    using assms by (metis id_take_nth_drop)
  then have "mset (thread_msgs st) = add_mset (t, m) (mset (take i (thread_msgs st) @ drop (Suc i) (thread_msgs st)))"
    by (metis mset.simps(2) mset_append union_mset_add_mset_right)
  then show ?thesis by (simp add: jobs_def)
qed

lemma threads_split:
  assumes "i < length (fuse_threads st)" "fuse_threads st ! i = (b, ph)"
  shows "jobs st = add_mset (Job_loop b ph) (jobs (st\<lparr>fuse_threads := take i (fuse_threads st) @ drop (Suc i) (fuse_threads st)\<rparr>))"
proof -
  have "fuse_threads st = take i (fuse_threads st) @ (b, ph) # drop (Suc i) (fuse_threads st)"
    using assms by (metis id_take_nth_drop)
  then have "mset (fuse_threads st) = add_mset (b, ph) (mset (take i (fuse_threads st) @ drop (Suc i) (fuse_threads st)))"
    by (metis mset.simps(2) mset_append union_mset_add_mset_right)
  then show ?thesis by (simp add: jobs_def)
qed

lemma inv_job:
  assumes "bdev_inv us st" "jobs st = add_mset j J"
  obtains x where "ctxs st (job_ctx (bfuses st) j) = Some x" "ctx_fits j x" "fuse_fits (bfuses st) j" "\<forall>b \<in> loops J. \<forall>ph. j \<noteq> Job_loop b ph"
proof -
  have ok: "jobs_ok (ctxs st) (bfuses st) (add_mset j J)" using assms by (simp add: bdev_inv_def)
  note t = jobs_ok_take [OF ok]
  have "\<forall>b \<in> loops J. \<forall>ph. j \<noteq> Job_loop b ph" using t(3) by (fastforce simp: loops_def)
  then show thesis using that t by blast
qed

lemma complete_fs_inv:
  assumes "bdev_inv us st" "i < length (fs_pending st)"
  shows "\<exists>st'. complete_fs i fs e st = Some st' \<and> step_ok us st st'"
proof -
  obtain t call cb where p: "fs_pending st ! i = (t, call, cb)" by (cases "fs_pending st ! i")
  let ?st = "st\<lparr>fs_pending := take i (fs_pending st) @ drop (Suc i) (fs_pending st)\<rparr>"
  note j = pending_split [OF assms(2) p]
  obtain x where x: "ctxs st (cb_ctx cb) = Some x" "ctx_fits (Job_fs t call cb) x"
    by (rule inv_job [OF assms(1) j]) simp
  have d: "\<forall>b \<in> dom (bfuses st). b < next_bfuse st" "answers st Env_pthread_detach = []" using assms(1) by (auto simp: bdev_inv_def)
  have c: "complete_fs i fs e st = run_fs_cb t cb fs e ?st" using assms(2) p by (simp add: complete_fs_def arr_get_eq)
  have gone: "step_ok us st (free_ctx (cb_ctx cb) (call_bdev_user u e ?st))" if "ctx_cb_fn x = Some u" for u
    by (rule inv_remove [OF assms(1) j, where x = x]) (use x that d in \<open>simp_all add: free_ctx_def call_bdev_user_def jobs_def\<close>)
  have gone_none: "step_ok us st (free_ctx (cb_ctx cb) ?st)" if "ctx_cb_fn x = None"
    by (rule inv_remove [OF assms(1) j, where x = x]) (use x that d in \<open>simp_all add: free_ctx_def jobs_def\<close>)
  have on: "step_ok us st (spdk_thread_send_msg t m (set_ctx (cb_ctx cb) x' ?st))"
    if "msg_ctx m = cb_ctx cb" "ctx_fits (Job_msg t m) x'" "ctx_cb_fn x' = ctx_cb_fn x"
      "job_weight (Job_msg t m) < job_weight (Job_fs t call cb)" for m x'
    by (rule inv_replace [OF assms(1) j, where j' = "Job_msg t m" and x = x and x' = x'])
      (use x that d in \<open>simp_all add: spdk_thread_send_msg_def set_ctx_def jobs_def\<close>)
  show ?thesis
  proof (cases cb)
    case (Fs_load_to_unload c')
    then show ?thesis using c x gone on [of "Tm_unload c'" "x\<lparr>ctx_fs := Some fs\<rparr>"] by (auto simp: blobfs_bdev_load_cb_to_unload_def)
  next
    case (Fs_mount_load c')
    then show ?thesis using c x gone on [of "Tm_fuse_start c'" "x\<lparr>ctx_fs := Some fs, fs_loading_thread := Some t\<rparr>"]
      by (auto simp: blobfs_bdev_mount_load_cb_def)
  next
    case (Fs_unloaded c')
    then show ?thesis using c x gone gone_none by (cases "ctx_cb_fn x") (simp_all add: blobfs_bdev_unload_cb_def)
  qed
qed

text \<open>Starting a loop: on failure only the fresh FUSE struct was touched; on success it has
  one thread.\<close>

definition start_frame :: "'u bdev_state \<Rightarrow> 'u bdev_state \<Rightarrow> bool" where
  "start_frame st st' \<longleftrightarrow> ctxs st' = ctxs st \<and> next_ctx st' = next_ctx st \<and> user_calls st' = user_calls st \<and>
     fs_pending st' = fs_pending st \<and> thread_msgs st' = thread_msgs st \<and> answers st' Env_pthread_detach = [] \<and>
     next_bfuse st \<le> next_bfuse st'"

definition env_ans :: "env_call \<Rightarrow> (env_call \<Rightarrow> int list) \<Rightarrow> int" where
  "env_ans k a = (case a k of [] \<Rightarrow> 0 | x # _ \<Rightarrow> x)"

lemma env_alt: "env k st = (env_ans k (answers st), st\<lparr>answers := (answers st)(k := tl (answers st k))\<rparr>)"
  by (auto simp: env_def env_ans_def fun_upd_idem split: list.splits)

lemma fuse_start_ok:
  assumes "blobfs_fuse_start bdev mp fs c st = (rc, bf, st')" "answers st Env_pthread_detach = []" "bfuses st (next_bfuse st) = None"
  shows "start_frame st st'"
    and "rc \<noteq> 0 \<Longrightarrow> bfuses st' = bfuses st \<and> fuse_threads st' = fuse_threads st"
    and "rc = 0 \<Longrightarrow> \<exists>y. bf = Some (next_bfuse st) \<and> bfuses st' = (bfuses st)(next_bfuse st \<mapsto> y) \<and> bf_cb y = c \<and> bf_fs y = fs \<and>
      bf_handle y \<noteq> None \<and> next_bfuse st' = next_bfuse st + 1 \<and> fuse_threads st' = fuse_threads st @ [(next_bfuse st, Loop_starting)]"
proof -
  have nd: "env_ans Env_pthread_detach a = 0" if "a Env_pthread_detach = []" for a
    using that by (simp add: env_ans_def)
  note d = blobfs_fuse_start_def blobfs_fuse_free_def Let_def env_alt nd assms(2,3)
  show "start_frame st st'"
    using assms(1) by (auto simp: d start_frame_def split: if_splits)
  show "bfuses st' = bfuses st \<and> fuse_threads st' = fuse_threads st" if "rc \<noteq> 0"
    using assms(1) that by (auto simp: d fun_upd_idem split: if_splits)
  show "\<exists>y. bf = Some (next_bfuse st) \<and> bfuses st' = (bfuses st)(next_bfuse st \<mapsto> y) \<and> bf_cb y = c \<and> bf_fs y = fs \<and>
      bf_handle y \<noteq> None \<and> next_bfuse st' = next_bfuse st + 1 \<and> fuse_threads st' = fuse_threads st @ [(next_bfuse st, Loop_starting)]" if "rc = 0"
    using assms(1) that by (auto simp: d split: if_splits)
qed

lemma fuse_start_msg_inv:
  assumes i: "bdev_inv us st" and j: "jobs st = add_mset (Job_msg t (Tm_fuse_start c)) (jobs st0)"
    and st0: "ctxs st0 = ctxs st" "bfuses st0 = bfuses st" "user_calls st0 = user_calls st" "next_ctx st0 = next_ctx st"
      "next_bfuse st0 = next_bfuse st" "answers st0 = answers st"
    and x: "ctxs st c = Some x" "ctx_fits (Job_msg t (Tm_fuse_start c)) x"
  shows "\<exists>st'. blobfs_bdev_mount_fuse_start c st0 = Some st' \<and> step_ok us st st'"
proof -
  let ?x = "x\<lparr>ctx_cb_fn := None\<rparr>"
  let ?st1 = "set_ctx c ?x st0"
  have d: "\<forall>b \<in> dom (bfuses st). b < next_bfuse st" "answers st Env_pthread_detach = []" using i by (auto simp: bdev_inv_def)
  have fresh: "bfuses st (next_bfuse st) = None" using d(1) by blast
  obtain u where u: "ctx_cb_fn x = Some u" and ct: "fs_loading_thread x = Some t" using x(2) by auto
  obtain rc bf st2 where f: "blobfs_fuse_start (ctx_bdev_name x) (ctx_mountpoint x) (ctx_fs x) c ?st1 = (rc, bf, st2)"
    by (metis prod_cases3)
  note s = fuse_start_ok [OF f]
  have fr: "start_frame ?st1 st2" using s(1) st0 fresh d(2) by (simp add: set_ctx_def)
  show ?thesis
  proof (cases "rc = 0")
    case False
    let ?st' = "spdk_thread_send_msg t (Tm_unload c) (call_bdev_user u rc st2)"
    have b: "bfuses st2 = bfuses st" "fuse_threads st2 = fuse_threads st0"
      using s(2) [OF _ _ False] st0 fresh d(2) by (simp_all add: set_ctx_def)
    have "step_ok us st ?st'"
      by (rule inv_replace [OF i j, where j' = "Job_msg t (Tm_unload c)" and x = x and x' = ?x])
        (use fr b x u ct d st0 in \<open>auto simp: start_frame_def spdk_thread_send_msg_def call_bdev_user_def set_ctx_def jobs_def
           dest: less_le_trans\<close>)
    moreover have "blobfs_bdev_mount_fuse_start c st0 = Some ?st'"
      using f False x u ct fr st0 by (simp add: blobfs_bdev_mount_fuse_start_def blobfs_bdev_unmount_def call_bdev_user_def start_frame_def set_ctx_def)
    ultimately show ?thesis by blast
  next
    case True
    obtain y where b: "bf = Some (next_bfuse st)" "bfuses st2 = (bfuses st)(next_bfuse st \<mapsto> y)" "bf_cb y = c" "bf_fs y = ctx_fs x"
        "bf_handle y \<noteq> None" "next_bfuse st2 = next_bfuse st + 1" "fuse_threads st2 = fuse_threads st0 @ [(next_bfuse st, Loop_starting)]"
      using s(3) [OF _ _ True] st0 fresh d(2) by (auto simp: set_ctx_def)
    let ?st' = "call_bdev_user u 0 (set_ctx c (?x\<lparr>ctx_bfuse := bf\<rparr>) st2)"
    have l: "next_bfuse st \<notin> loops (jobs st0)"
      using i j fresh by (auto simp: bdev_inv_def jobs_ok_def loops_def)
    have "step_ok us st ?st'"
      by (rule inv_replace [OF i j, where j' = "Job_loop (next_bfuse st) Loop_starting" and x = x and x' = "?x\<lparr>ctx_bfuse := bf\<rparr>"])
        (use fr b x u ct d st0 l in \<open>auto simp: start_frame_def call_bdev_user_def set_ctx_def jobs_def less_Suc_eq\<close>)
    moreover have "blobfs_bdev_mount_fuse_start c st0 = Some ?st'"
      using f True x u st0 by (simp add: blobfs_bdev_mount_fuse_start_def)
    ultimately show ?thesis by blast
  qed
qed

lemma deliver_msg_inv:
  assumes "bdev_inv us st" "i < length (thread_msgs st)"
  shows "\<exists>st'. deliver_msg i st = Some st' \<and> step_ok us st st'"
proof -
  obtain t m where p: "thread_msgs st ! i = (t, m)" by (cases "thread_msgs st ! i")
  let ?st = "st\<lparr>thread_msgs := take i (thread_msgs st) @ drop (Suc i) (thread_msgs st)\<rparr>"
  note j = msgs_split [OF assms(2) p]
  obtain x where x: "ctxs st (msg_ctx m) = Some x" "ctx_fits (Job_msg t m) x"
    by (rule inv_job [OF assms(1) j]) simp
  have d: "\<forall>b \<in> dom (bfuses st). b < next_bfuse st" "answers st Env_pthread_detach = []" using assms(1) by (auto simp: bdev_inv_def)
  have c: "deliver_msg i st = run_msg t m ?st" using assms(2) p by (simp add: deliver_msg_def arr_get_eq)
  show ?thesis
  proof (cases m)
    case (Tm_unload c')
    then obtain fs where fs: "ctx_fs x = Some fs" using x(2) by auto
    have "step_ok us st (fs_post t (Fs_unload fs) (Fs_unloaded c') ?st)"
      by (rule inv_replace [OF assms(1) j, where j' = "Job_fs t (Fs_unload fs) (Fs_unloaded c')" and x = x and x' = x])
        (use Tm_unload x fs d in \<open>simp_all add: fs_post_def jobs_def fun_upd_idem\<close>)
    then show ?thesis using c Tm_unload x fs by (simp add: blobfs_bdev_unload_def)
  next
    case (Tm_fuse_start c')
    then show ?thesis using c x fuse_start_msg_inv [OF assms(1) j [unfolded Tm_fuse_start]] by simp
  qed
qed

lemma step_thread_inv:
  assumes "bdev_inv us st" "i < length (fuse_threads st)"
  shows "\<exists>st'. step_thread i st = Some st' \<and> step_ok us st st'"
proof -
  obtain b ph where p: "fuse_threads st ! i = (b, ph)" by (cases "fuse_threads st ! i")
  let ?xs = "take i (fuse_threads st)" and ?ys = "drop (Suc i) (fuse_threads st)"
  note j = threads_split [OF assms(2) p]
  obtain x where x: "ctxs st (job_ctx (bfuses st) (Job_loop b ph)) = Some x" "ctx_fits (Job_loop b ph) x" "fuse_fits (bfuses st) (Job_loop b ph)"
      and l: "b \<notin> loops (jobs (st\<lparr>fuse_threads := ?xs @ ?ys\<rparr>))"
    by (rule inv_job [OF assms(1) j]) blast
  obtain y h where y: "bfuses st b = Some y" "bf_handle y = Some h" "bf_fs y \<noteq> None" using x(3) by auto
  have d: "\<forall>b \<in> dom (bfuses st). b < next_bfuse st" "answers st Env_pthread_detach = []" using assms(1) by (auto simp: bdev_inv_def)
  have c: "step_thread i st = run_thread (b, ph) ?xs ?ys st" using assms(2) p by (simp add: step_thread_def arr_get_eq)
  show ?thesis
  proof (cases ph)
    case Loop_starting
    let ?st' = "st\<lparr>fuse_threads := ?xs @ (b, Loop_running) # ?ys, bfuses := (bfuses st)(b \<mapsto> y\<lparr>bf_channel := True\<rparr>)\<rparr>"
    have "step_ok us st ?st'"
      by (rule inv_replace [OF assms(1) j, where j' = "Job_loop b Loop_running" and x = x and x' = x])
        (use x y l d Loop_starting in \<open>auto simp: jobs_def fun_upd_idem\<close>)
    moreover have "step_thread i st = Some ?st'" using c Loop_starting y by (auto simp: fuse_loop_start_def)
    ultimately show ?thesis by blast
  next
    case Loop_running
    obtain t where t: "fs_loading_thread x = Some t" using x(2) by auto
    let ?st' = "blobfs_fuse_free b (spdk_thread_send_msg t (Tm_unload (bf_cb y))
      (st\<lparr>fuse_threads := ?xs @ ?ys, mounts := remove1 h (mounts st), fuse_handles := remove1 h (fuse_handles st)\<rparr>))"
    have "step_ok us st ?st'"
      by (rule inv_replace [OF assms(1) j, where j' = "Job_msg t (Tm_unload (bf_cb y))" and x = x and x' = x])
        (use x y t l d Loop_running in \<open>auto simp: jobs_def fun_upd_idem blobfs_fuse_free_def spdk_thread_send_msg_def\<close>)
    moreover have "step_thread i st = Some ?st'"
      using c Loop_running x y t by (simp add: fuse_loop_end_def blobfs_bdev_unmount_def)
    ultimately show ?thesis by blast
  qed
qed

section \<open>Reachable states\<close>

text \<open>Users start operations on any thread, the layer completes its calls with any result,
  messages and threads run in any order, devices report events.  \<open>pthread_detach\<close> does not
  fail: POSIX allows it to fail only for a thread that is not joinable or does not exist.\<close>

inductive bdev_reach :: "'u list \<Rightarrow> 'u bdev_state \<Rightarrow> bool" where
  boot: "ctxs st = Map.empty \<Longrightarrow> bfuses st = Map.empty \<Longrightarrow> fuse_threads st = [] \<Longrightarrow> fs_pending st = [] \<Longrightarrow>
    thread_msgs st = [] \<Longrightarrow> user_calls st = [] \<Longrightarrow> answers st Env_pthread_detach = [] \<Longrightarrow> bdev_reach [] st"
| detect: "bdev_reach us st \<Longrightarrow> bdev_reach (u # us) (spdk_blobfs_bdev_detect t bdev u st)"
| create: "bdev_reach us st \<Longrightarrow> bdev_reach (u # us) (spdk_blobfs_bdev_create t bdev sz u st)"
| mount: "bdev_reach us st \<Longrightarrow> bdev_reach (u # us) (spdk_blobfs_bdev_mount t bdev mp u st)"
| layer: "bdev_reach us st \<Longrightarrow> complete_fs i fs e st = Some st' \<Longrightarrow> bdev_reach us st'"
| message: "bdev_reach us st \<Longrightarrow> deliver_msg i st = Some st' \<Longrightarrow> bdev_reach us st'"
| loop: "bdev_reach us st \<Longrightarrow> step_thread i st = Some st' \<Longrightarrow> bdev_reach us st'"
| event: "bdev_reach us st \<Longrightarrow> blobfs_bdev_fuse_event_cb ty c st = Some st' \<Longrightarrow> bdev_reach us st'"

lemma detect_inv: "bdev_inv us st \<Longrightarrow> bdev_inv (u # us) (spdk_blobfs_bdev_detect t bdev u st)"
  using alloc_ctx_inv [of us st u bdev "[]"]
  by (auto simp: spdk_blobfs_bdev_detect_def intro!: half_post split: prod.splits option.splits
      dest: create_dev_inv invalid_inv)

lemma create_inv: "bdev_inv us st \<Longrightarrow> bdev_inv (u # us) (spdk_blobfs_bdev_create t bdev sz u st)"
  using alloc_ctx_inv [of us st u bdev "[]"]
  by (auto simp: spdk_blobfs_bdev_create_def intro!: half_post invalid_inv destroy_dev_inv split: prod.splits option.splits
      dest: create_dev_inv half_env)

lemma mount_inv: "bdev_inv us st \<Longrightarrow> bdev_inv (u # us) (spdk_blobfs_bdev_mount t bdev mp u st)"
  using alloc_ctx_inv [of us st u bdev mp]
  by (auto simp: spdk_blobfs_bdev_mount_def intro!: half_post invalid_inv destroy_dev_inv split: prod.splits option.splits
      dest: create_dev_inv half_env)

lemma event_inv: "bdev_inv us st \<Longrightarrow> blobfs_bdev_fuse_event_cb ty c st = Some st' \<Longrightarrow> bdev_inv us st'"
  by (rule bdev_inv_cong [of us st])
    (auto simp: blobfs_bdev_fuse_event_cb_def blobfs_fuse_stop_def bind_Some_iff bdev_inv_def jobs_def split: if_splits option.splits)

lemma reach_inv: "bdev_reach us st \<Longrightarrow> bdev_inv us st"
proof (induction rule: bdev_reach.induct)
  case (boot st)
  then show ?case by (simp add: bdev_inv_def jobs_def jobs_ok_def)
next
  case (layer us st i fs e st')
  then have "i < length (fs_pending st)" by (auto simp: complete_fs_def bind_Some_iff)
  then show ?case using complete_fs_inv [OF layer.IH, of i fs e] layer.hyps by (simp add: step_ok_def)
next
  case (message us st i st')
  then have "i < length (thread_msgs st)" by (auto simp: deliver_msg_def bind_Some_iff)
  then show ?case using deliver_msg_inv [OF message.IH, of i] message.hyps by (simp add: step_ok_def)
next
  case (loop us st i st')
  then have "i < length (fuse_threads st)" by (auto simp: step_thread_def bind_Some_iff)
  then show ?case using step_thread_inv [OF loop.IH, of i] loop.hyps by (simp add: step_ok_def)
qed (auto intro: detect_inv create_inv mount_inv event_inv)

interpretation bd: callback_service bdev_reach "\<lambda>st. mset (map fst (user_calls st))" "\<lambda>st. owed_cbs (ctxs st)"
  by unfold_locales (use reach_inv in \<open>auto simp: bdev_inv_def\<close>)

lemma no_work_idle:
  assumes "bdev_reach us st" "bdev_work st = 0"
  shows "ctxs st = Map.empty"
proof -
  have "\<forall>j \<in># jobs st. job_weight j = 0" using assms(2) by (simp add: bdev_work_def)
  then have "jobs st = {#}" using job_weight_pos by (metis less_irrefl multiset_nonemptyE)
  then show ?thesis using reach_inv [OF assms(1)] by (auto simp: bdev_inv_def jobs_ok_def fun_eq_iff split: if_splits)
qed

section \<open>Properties\<close>

definition sample_bdev :: "nat bdev_state" where
  "sample_bdev = \<lparr>ctxs = Map.empty, next_ctx = 0, bfuses = Map.empty, next_bfuse = 0, answers = (\<lambda>_. []), devs = [], next_dev = 0,
     fuse_handles = [], next_handle = 0, mounts = [], exits = [], fuse_threads = [], fs_pending = [], thread_msgs = [], user_calls = []\<rparr>"

text \<open>User 7 mounts a device, user 8 looks for a file system on another one.\<close>

definition busy_bdev :: "nat bdev_state" where
  "busy_bdev = spdk_blobfs_bdev_detect 1 ''Nvme1'' 8 (spdk_blobfs_bdev_mount 0 ''Nvme0'' ''/mnt'' 7 sample_bdev)"

lemma busy_bdev_reach: "bdev_reach [8, 7] busy_bdev"
proof -
  have "bdev_reach [] sample_bdev" by (rule bdev_reach.boot) (simp_all add: sample_bdev_def)
  then show ?thesis unfolding busy_bdev_def by (intro bdev_reach.detect bdev_reach.mount)
qed

lemma busy_bdev_eq:
  "busy_bdev = sample_bdev\<lparr>ctxs := [0 \<mapsto> new_ctx ''Nvme0'' ''/mnt'' 7, 1 \<mapsto> new_ctx ''Nvme1'' [] 8], next_ctx := 2, devs := [1, 0], next_dev := 2,
     fs_pending := [(0, Fs_load 0, Fs_mount_load 0), (1, Fs_load 1, Fs_load_to_unload 1)]\<rparr>"
  by (simp add: busy_bdev_def sample_bdev_def spdk_blobfs_bdev_detect_def spdk_blobfs_bdev_mount_def alloc_ctx_def env_def
      spdk_bdev_create_bs_dev_ext_def set_ctx_def fs_post_def)

text \<open>C5: Detecting, creating and mounting answer their user exactly once.  In every state
  that can be reached, in whatever order the layer, the messages and the FUSE loops run and
  whatever fails, the callbacks given to the started operations are those already called and
  those still recorded in a context (\<open>ctx->cb_fn\<close> is cleared before the mount goes on); and each
  context that is not freed has exactly one pending call, message or FUSE loop that refers to
  it, a freed one none.\<close>

theorem bdev_answers_once:
  assumes "bdev_reach us st"
  shows "mset us = mset (map fst (user_calls st)) + owed_cbs (ctxs st) \<and>
    (\<forall>c. count (image_mset (job_ctx (bfuses st)) (jobs st)) c = (if ctxs st c = None then 0 else 1))"
  using bd.accounted [OF assms] reach_inv [OF assms] by (simp add: bdev_inv_def jobs_ok_def)

theorem bdev_answers_once_witness:
  "mset [8, 7] = mset (map fst (user_calls busy_bdev)) + owed_cbs (ctxs busy_bdev) \<and> count (image_mset (job_ctx (bfuses busy_bdev)) (jobs busy_bdev)) 0 = 1"
  using bdev_answers_once [OF busy_bdev_reach] by (simp add: busy_bdev_eq)

text \<open>C17: Every callback, message and FUSE loop of a reachable state finds the structs it
  follows, with the fields it reads set: a load that completes finds the callback of its user, the
  start of a FUSE loop finds the callback, the file system and the loading thread, a running loop
  its handle and file system and a context with a loading thread and no callback left to call
  twice, an unload its file system; and an unload after a mount runs on the thread that loaded.\<close>

theorem bdev_contexts_fit:
  assumes "bdev_reach us st" "j \<in># jobs st"
  shows "fuse_fits (bfuses st) j \<and> (\<exists>x. ctxs st (job_ctx (bfuses st) j) = Some x \<and> ctx_fits j x)"
  using reach_inv [OF assms(1)] assms(2) by (simp add: bdev_inv_def jobs_ok_def)

theorem bdev_contexts_fit_witness:
  "\<exists>x. ctxs busy_bdev 0 = Some x \<and> ctx_cb_fn x \<noteq> None \<and> fs_loading_thread x = None"
  using bdev_contexts_fit [OF busy_bdev_reach, of "Job_fs 0 (Fs_load 0) (Fs_mount_load 0)"]
  by (simp add: jobs_def busy_bdev_eq)

text \<open>C16: Every operation comes to its end.  In a reachable state each pending call can be
  completed with any result, each message delivered and each FUSE loop moved on without a
  crash, and the work that is left, at most six steps for each operation, becomes less; when
  none is left, all contexts are freed and all users have been answered.\<close>

theorem bdev_operations_end:
  assumes "bdev_reach us st"
  shows "(\<forall>i < length (fs_pending st). \<forall>fs e. \<exists>st'. complete_fs i fs e st = Some st' \<and> bdev_work st' < bdev_work st) \<and>
    (\<forall>i < length (thread_msgs st). \<exists>st'. deliver_msg i st = Some st' \<and> bdev_work st' < bdev_work st) \<and>
    (\<forall>i < length (fuse_threads st). \<exists>st'. step_thread i st = Some st' \<and> bdev_work st' < bdev_work st) \<and>
    bdev_work st \<le> 6 * size (jobs st) \<and>
    (bdev_work st = 0 \<longrightarrow> ctxs st = Map.empty \<and> mset (map fst (user_calls st)) = mset us)"
proof -
  note i = reach_inv [OF assms]
  have six: "job_weight j \<le> 6" for j by (cases j rule: job_weight.cases) auto
  have "sum_mset (image_mset job_weight J) \<le> 6 * size J" for J
    by (induction J) (use six in \<open>auto intro: add_mono\<close>)
  moreover have "ctxs st = Map.empty \<and> mset (map fst (user_calls st)) = mset us" if "bdev_work st = 0"
    using no_work_idle [OF assms that] bd.answered_when_idle [OF assms] by simp
  ultimately show ?thesis
    using complete_fs_inv [OF i] deliver_msg_inv [OF i] step_thread_inv [OF i] unfolding step_ok_def bdev_work_def by blast
qed

theorem bdev_operations_end_witness:
  "\<exists>st'. complete_fs 0 5 0 busy_bdev = Some st' \<and> bdev_work st' < bdev_work busy_bdev"
  using bdev_operations_end [OF busy_bdev_reach] by (simp add: busy_bdev_eq)

section \<open>Defects\<close>

text \<open>When \<open>fuse_mount\<close> fails the struct is freed but the FUSE handle is not destroyed.\<close>

theorem failed_mount_leaks_handle:
  assumes "answers st Env_calloc = []" "answers st Env_fuse_new = []" "answers st Env_fuse_mount = e # es" "e \<noteq> 0"
    and "bfuses st (next_bfuse st) = None"
  shows "\<exists>st'. blobfs_fuse_start bdev mp fs c st = (- 1, None, st') \<and> bfuses st' = bfuses st \<and> fuse_handles st' = next_handle st # fuse_handles st"
  using assms by (simp add: blobfs_fuse_start_def env_def blobfs_fuse_free_def Let_def fun_upd_idem)

text \<open>When \<open>pthread_detach\<close> fails the struct is freed although the new thread runs, and the thread
  follows the dangling pointer.\<close>

theorem failed_detach_crashes_loop:
  assumes "answers st = (\<lambda>_. [])(Env_pthread_detach := e # es)" "e \<noteq> 0" "fuse_threads st = []"
  shows "\<exists>st'. blobfs_fuse_start bdev mp fs c st = (- e, None, st') \<and> step_thread 0 st' = None"
  using assms by (simp add: blobfs_fuse_start_def env_def blobfs_fuse_free_def Let_def step_thread_def arr_get_def fuse_loop_start_def)

text \<open>The context keeps its pointer to the FUSE struct when the loop has ended and freed it: a device
  that is removed before the unload completes makes the event callback follow it.\<close>

theorem removal_after_loop_crashes:
  assumes "bfuses st b = Some y" "ctxs st (bf_cb y) = Some x" "ctx_bfuse x = Some b" "fuse_loop_end b st = Some st'"
  shows "blobfs_bdev_fuse_event_cb SPDK_BDEV_EVENT_REMOVE (bf_cb y) st' = None"
  using assms by (auto simp: fuse_loop_end_def blobfs_bdev_unmount_def bind_Some_iff blobfs_bdev_fuse_event_cb_def blobfs_fuse_stop_def
      blobfs_fuse_free_def spdk_thread_send_msg_def)

end
