(* ===== verification/Blobfs_Rpc.thy ===== *)
theory Blobfs_Rpc
  imports Blobfs_Bdev_Safety NBFS_Pool Blob_Id
begin

text \<open>
  The JSON-RPC methods of the file system module, \<open>module/blobfs/bdev/blobfs_bdev_rpc.c\<close>:
  \<open>blobfs_set_cache_size\<close>, \<open>blobfs_detect\<close>, \<open>blobfs_create\<close> and \<open>blobfs_mount\<close>, with the two
  helpers of the SPDK libraries that decide what they accept, \<open>spdk_json_decode_object\<close>
  (\<open>lib/json/json_util.c\<close>) and \<open>spdk_parse_capacity\<close> (\<open>lib/util/string.c\<close>).

  The users' callbacks of \<open>Blobfs_Bdev\<close> are the \<open>_done\<close> functions with their struct.  The
  operations of that theory record the calls of callbacks; \<open>run_done\<close> runs those that are
  new after each operation.  No \<open>_done\<close> function touches what the operations of
  \<open>blobfs_bdev.c\<close> use, so that it does not matter that the rest of the caller comes first.
\<close>

section \<open>Decoding\<close>

text \<open>The values an object may have; the decoders below accept strings and numbers.\<close>

datatype json_val = J_string string | J_number u64 | J_other

text \<open>A decoder: its key, the function that stores a value in the struct (and whether it fails),
  and whether the key may be missing.\<close>

record 'o decoder =
  dec_name :: string
  dec_func :: "json_val \<Rightarrow> 'o \<Rightarrow> 'o \<times> bool"
  dec_optional :: bool

fun find_decoder :: "'o decoder list \<Rightarrow> string \<Rightarrow> nat \<Rightarrow> (nat \<times> 'o decoder) option" where
  "find_decoder [] nm i = None"
| "find_decoder (d # ds) nm i = (if nm = dec_name d then Some (i, d) else find_decoder ds nm (Suc i))"

fun decode_loop :: "'o decoder list \<Rightarrow> (string \<times> json_val) list \<Rightarrow> bool list \<Rightarrow> 'o \<Rightarrow> bool \<Rightarrow> bool list \<times> 'o \<times> bool" where
  "decode_loop ds [] seen out inval = (seen, out, inval)"
| "decode_loop ds ((nm, v) # kvs) seen out inval = (case find_decoder ds nm 0 of
     None \<Rightarrow> decode_loop ds kvs seen out True
   | Some (i, d) \<Rightarrow>
       if seen ! i then decode_loop ds kvs seen out True
       else case dec_func d v out of (out, failed) \<Rightarrow>
         decode_loop ds kvs (seen[i := True]) out (inval \<or> failed))"

text \<open>\<open>params\<close> is \<open>None\<close> when it is NULL or not an object; \<open>seen\<close> cannot be allocated when
  \<open>alloc_ok\<close> is false.  The result is the struct and the return value.\<close>

definition spdk_json_decode_object ::
    "(string \<times> json_val) list option \<Rightarrow> 'o decoder list \<Rightarrow> bool \<Rightarrow> 'o \<Rightarrow> 'o \<times> int" where
  "spdk_json_decode_object params ds alloc_ok out = (case params of
     None \<Rightarrow> (out, - 1)
   | Some kvs \<Rightarrow>
       if \<not> alloc_ok then (out, - 1)
       else case decode_loop ds kvs (replicate (length ds) False) out False of (seen, out, inval) \<Rightarrow>
         (out, if inval \<or> (\<exists>i < length ds. \<not> dec_optional (ds ! i) \<and> \<not> seen ! i) then - 1 else 0))"

section \<open>Sizes as text\<close>

definition is_digit :: "char \<Rightarrow> bool" where
  "is_digit c \<longleftrightarrow> 48 \<le> (of_char c :: nat) \<and> (of_char c :: nat) \<le> 57"

definition decimal_value :: "string \<Rightarrow> nat" where
  "decimal_value ds = foldl (\<lambda>v c. 10 * v + (of_char c - 48)) 0 ds"

text \<open>\<open>sscanf(s, "%" SCNu64 "%c", cap, &bin_prefix)\<close>: the number of conversions, -1 when the text ends
  before the first one, with \<open>cap\<close> and \<open>bin_prefix\<close> as they are afterwards.  A number that does not
  fit gives the largest one, as in glibc.\<close>

definition sscanf_u64_char :: "string \<Rightarrow> u64 \<Rightarrow> char \<Rightarrow> int \<times> u64 \<times> char" where
  "sscanf_u64_char s cap c =
     (let s' = dropWhile is_space s;
          (neg, t) = strip_sign s';
          ds = takeWhile is_digit t;
          rest = dropWhile is_digit t;
          v = decimal_value ds;
          cap' = (if 2 ^ 64 \<le> v then - 1 else if neg then - of_nat v else of_nat v)
      in if s' = [] then (- 1, cap, c)
         else if ds = [] then (0, cap, c)
         else if rest = [] then (1, cap', c)
         else (2, cap', hd rest))"

abbreviation (input) EINVAL :: int where "EINVAL \<equiv> 22"
abbreviation (input) EILSEQ :: int where "EILSEQ \<equiv> 84"

text \<open>\<open>c0\<close> is what the uninitialised \<open>bin_prefix\<close> holds.\<close>

definition spdk_parse_capacity :: "string \<Rightarrow> u64 \<Rightarrow> char \<Rightarrow> int \<Rightarrow> u64 \<times> bool option \<times> int" where
  "spdk_parse_capacity s cap c0 errno = (case sscanf_u64_char s cap c0 of (ret, cap, bin_prefix) \<Rightarrow>
     if ret = 1 then (cap, Some False, 0)
     else if ret = 0 then (cap, None, if errno = 0 then - EINVAL else - errno)
     else if bin_prefix = CHR ''k'' \<or> bin_prefix = CHR ''K'' then (cap * 1024, Some True, 0)
     else if bin_prefix = CHR ''m'' \<or> bin_prefix = CHR ''M'' then (cap * (1024 * 1024), Some True, 0)
     else if bin_prefix = CHR ''g'' \<or> bin_prefix = CHR ''G'' then (cap * (1024 * 1024 * 1024), Some True, 0)
     else (cap, Some True, - EINVAL))"

section \<open>State\<close>

text \<open>The structs \<open>rpc_blobfs_detect\<close>, \<open>rpc_blobfs_create\<close> and \<open>rpc_blobfs_mount\<close>; \<open>request\<close> is the
  number of a JSON-RPC request.  A string pointer that is NULL is \<open>None\<close>.\<close>

record rpc_blobfs =
  rpc_bdev_name :: "string option"
  rpc_cluster_sz :: u64
  rpc_mountpoint :: "string option"
  rpc_request :: nat

datatype rpc_response = Resp_bool bool | Resp_invalid_params | Resp_internal int | Resp_no_memory | Resp_no_blobfs

datatype rpc_cb = Rpc_detect_done nat | Rpc_create_done nat | Rpc_mount_done nat

record rpc_state =
  rpc_bdev :: "rpc_cb bdev_state"
  rpc_structs :: "nat \<rightharpoonup> rpc_blobfs"
  next_struct :: nat
  rpc_alloc :: "bool list"
  stack_char :: char
  responses :: "(nat \<times> rpc_response) list"

definition rpc_alloc_ok :: "rpc_state \<Rightarrow> bool \<times> rpc_state" where
  "rpc_alloc_ok st = (case rpc_alloc st of [] \<Rightarrow> (True, st) | b # bs \<Rightarrow> (b, st\<lparr>rpc_alloc := bs\<rparr>))"

definition respond :: "nat \<Rightarrow> rpc_response \<Rightarrow> rpc_state \<Rightarrow> rpc_state" where
  "respond r v st = st\<lparr>responses := responses st @ [(r, v)]\<rparr>"

definition free_rpc_struct :: "nat \<Rightarrow> rpc_state \<Rightarrow> rpc_state" where
  "free_rpc_struct p st = st\<lparr>rpc_structs := (rpc_structs st)(p := None)\<rparr>"

section \<open>The end of an operation\<close>

definition rpc_blobfs_detect_done :: "nat \<Rightarrow> int \<Rightarrow> rpc_state \<Rightarrow> rpc_state option" where
  "rpc_blobfs_detect_done p fserrno st = do {
     q \<leftarrow> rpc_structs st p;
     if fserrno \<noteq> - EILSEQ \<and> fserrno \<noteq> 0 then Some (respond (rpc_request q) (Resp_internal (- fserrno)) st)
     else Some (free_rpc_struct p (respond (rpc_request q) (Resp_bool (fserrno \<noteq> - EILSEQ)) st)) }"

definition rpc_blobfs_create_done :: "nat \<Rightarrow> int \<Rightarrow> rpc_state \<Rightarrow> rpc_state option" where
  "rpc_blobfs_create_done p fserrno st = do {
     q \<leftarrow> rpc_structs st p;
     if fserrno \<noteq> 0 then Some (respond (rpc_request q) (Resp_internal (- fserrno)) st)
     else Some (free_rpc_struct p (respond (rpc_request q) (Resp_bool True) st)) }"

definition rpc_blobfs_mount_done :: "nat \<Rightarrow> int \<Rightarrow> rpc_state \<Rightarrow> rpc_state option" where
  "rpc_blobfs_mount_done p fserrno st = do {
     q \<leftarrow> rpc_structs st p;
     if fserrno = - EILSEQ then Some (respond (rpc_request q) Resp_no_blobfs st)
     else if fserrno \<noteq> 0 then Some (respond (rpc_request q) (Resp_internal (- fserrno)) st)
     else Some (free_rpc_struct p (respond (rpc_request q) (Resp_bool True) st)) }"

fun done_cb :: "rpc_cb \<Rightarrow> int \<Rightarrow> rpc_state \<Rightarrow> rpc_state option" where
  "done_cb (Rpc_detect_done p) e st = rpc_blobfs_detect_done p e st"
| "done_cb (Rpc_create_done p) e st = rpc_blobfs_create_done p e st"
| "done_cb (Rpc_mount_done p) e st = rpc_blobfs_mount_done p e st"

fun run_dones :: "(rpc_cb \<times> int) list \<Rightarrow> rpc_state \<Rightarrow> rpc_state option" where
  "run_dones [] st = Some st"
| "run_dones ((cb, e) # cs) st = do { st \<leftarrow> done_cb cb e st; run_dones cs st }"

text \<open>The module of block devices goes from its state in \<open>st\<close> to \<open>b\<close>; the callbacks it has called
  on the way run.\<close>

definition run_done :: "rpc_cb bdev_state \<Rightarrow> rpc_state \<Rightarrow> rpc_state option" where
  "run_done b st = run_dones (drop (length (user_calls (rpc_bdev st))) (user_calls b)) (st\<lparr>rpc_bdev := b\<rparr>)"

section \<open>The methods\<close>

definition decode_string_to :: "(string option \<Rightarrow> rpc_blobfs \<Rightarrow> rpc_blobfs) \<Rightarrow> json_val \<Rightarrow> rpc_blobfs \<Rightarrow> rpc_blobfs \<times> bool" where
  "decode_string_to f v q = (case v of J_string s \<Rightarrow> (f (Some s) q, False) | _ \<Rightarrow> (q, True))"

definition MIN_CLUSTER_SZ :: u64 where "MIN_CLUSTER_SZ = 1024 * 1024"
definition PAGE_SIZE :: u64 where "PAGE_SIZE = 4096"

text \<open>The value and whether it is refused; \<open>errno\<close> is not 0 or \<open>EINVAL\<close> only after an earlier failure,
  which changes nothing here.\<close>

definition rpc_decode_cluster_sz :: "char \<Rightarrow> json_val \<Rightarrow> rpc_blobfs \<Rightarrow> rpc_blobfs \<times> bool" where
  "rpc_decode_cluster_sz c0 v q = (case v of
     J_string s \<Rightarrow> (case spdk_parse_capacity s (rpc_cluster_sz q) c0 0 of (cap, has_prefix, ret) \<Rightarrow>
       (q\<lparr>rpc_cluster_sz := cap\<rparr>, ret \<noteq> 0 \<or> cap mod PAGE_SIZE \<noteq> 0 \<or> cap < MIN_CLUSTER_SZ))
   | _ \<Rightarrow> (q, True))"

definition bdev_name_decoder :: "rpc_blobfs decoder" where
  "bdev_name_decoder = \<lparr>dec_name = ''bdev_name'', dec_func = decode_string_to (\<lambda>s. rpc_bdev_name_update (\<lambda>_. s)), dec_optional = False\<rparr>"

definition rpc_blobfs_detect_decoders :: "rpc_blobfs decoder list" where
  "rpc_blobfs_detect_decoders = [bdev_name_decoder]"

definition rpc_blobfs_create_decoders :: "char \<Rightarrow> rpc_blobfs decoder list" where
  "rpc_blobfs_create_decoders c0 = [bdev_name_decoder,
     \<lparr>dec_name = ''cluster_sz'', dec_func = rpc_decode_cluster_sz c0, dec_optional = True\<rparr>]"

definition rpc_blobfs_mount_decoders :: "rpc_blobfs decoder list" where
  "rpc_blobfs_mount_decoders = [bdev_name_decoder,
     \<lparr>dec_name = ''mountpoint'', dec_func = decode_string_to (\<lambda>s. rpc_mountpoint_update (\<lambda>_. s)), dec_optional = False\<rparr>]"

text \<open>What the three methods share: the struct is allocated and filled, or the request is
  refused.\<close>

definition zero_struct :: rpc_blobfs where
  "zero_struct = \<lparr>rpc_bdev_name = None, rpc_cluster_sz = 0, rpc_mountpoint = None, rpc_request = 0\<rparr>"

definition open_struct :: "nat \<Rightarrow> (string \<times> json_val) list option \<Rightarrow> rpc_blobfs decoder list \<Rightarrow> rpc_state \<Rightarrow>
    (nat \<times> rpc_blobfs) option \<times> rpc_state" where
  "open_struct request params ds st = (case rpc_alloc_ok st of (ok, st) \<Rightarrow>
     if \<not> ok then (None, respond request Resp_no_memory st)
     else let p = next_struct st; st = st\<lparr>next_struct := p + 1\<rparr>
     in case rpc_alloc_ok st of (ok, st) \<Rightarrow>
       case spdk_json_decode_object params ds ok zero_struct of (q, ret) \<Rightarrow>
         if ret \<noteq> 0 then (None, respond request Resp_invalid_params st)
         else let q = q\<lparr>rpc_request := request\<rparr>
              in (Some (p, q), st\<lparr>rpc_structs := (rpc_structs st)(p \<mapsto> q)\<rparr>))"

definition rpc_blobfs_detect ::
    "thread_id \<Rightarrow> nat \<Rightarrow> (string \<times> json_val) list option \<Rightarrow> rpc_state \<Rightarrow> rpc_state option" where
  "rpc_blobfs_detect t request params st = (case open_struct request params rpc_blobfs_detect_decoders st of
     (None, st) \<Rightarrow> Some st
   | (Some (p, q), st) \<Rightarrow> do {
       nm \<leftarrow> rpc_bdev_name q;
       run_done (spdk_blobfs_bdev_detect t nm (Rpc_detect_done p) (rpc_bdev st)) st })"

text \<open>The cluster size is converted from 64 to 32 bits in the call.\<close>

definition rpc_blobfs_create ::
    "thread_id \<Rightarrow> nat \<Rightarrow> (string \<times> json_val) list option \<Rightarrow> rpc_state \<Rightarrow> rpc_state option" where
  "rpc_blobfs_create t request params st = (case open_struct request params (rpc_blobfs_create_decoders (stack_char st)) st of
     (None, st) \<Rightarrow> Some st
   | (Some (p, q), st) \<Rightarrow> do {
       nm \<leftarrow> rpc_bdev_name q;
       run_done (spdk_blobfs_bdev_create t nm (ucast (rpc_cluster_sz q)) (Rpc_create_done p) (rpc_bdev st)) st })"

definition rpc_blobfs_mount ::
    "thread_id \<Rightarrow> nat \<Rightarrow> (string \<times> json_val) list option \<Rightarrow> rpc_state \<Rightarrow> rpc_state option" where
  "rpc_blobfs_mount t request params st = (case open_struct request params rpc_blobfs_mount_decoders st of
     (None, st) \<Rightarrow> Some st
   | (Some (p, q), st) \<Rightarrow> do {
       nm \<leftarrow> rpc_bdev_name q;
       mp \<leftarrow> rpc_mountpoint q;
       run_done (spdk_blobfs_bdev_mount t nm mp (Rpc_mount_done p) (rpc_bdev st)) st })"

text \<open>\<open>blobfs_set_cache_size\<close> answers at once.\<close>

definition size_decoder :: "u64 decoder" where
  "size_decoder = \<lparr>dec_name = ''size_in_mb'',
     dec_func = (\<lambda>v n. case v of J_number m \<Rightarrow> (m, False) | _ \<Rightarrow> (n, True)), dec_optional = False\<rparr>"

definition rpc_blobfs_set_cache_size ::
    "(string \<times> json_val) list option \<Rightarrow> bool \<Rightarrow> u64 \<Rightarrow> nbfs \<Rightarrow> nbfs \<times> rpc_response" where
  "rpc_blobfs_set_cache_size params alloc_ok garbage fs =
     (case spdk_json_decode_object params [size_decoder] alloc_ok garbage of (size_in_mb, ret) \<Rightarrow>
        if ret \<noteq> 0 then (fs, Resp_invalid_params)
        else if size_in_mb = 0 then (fs, Resp_invalid_params)
        else case spdk_fs_set_cache_size fs size_in_mb of (fs, ret) \<Rightarrow> (fs, Resp_bool (ret = 0)))"

section \<open>One response for each request\<close>

fun cb_struct :: "rpc_cb \<Rightarrow> nat" where
  "cb_struct (Rpc_detect_done p) = p"
| "cb_struct (Rpc_create_done p) = p"
| "cb_struct (Rpc_mount_done p) = p"

text \<open>The request that waits for a callback.\<close>

definition waiting_request :: "rpc_state \<Rightarrow> rpc_cb \<Rightarrow> nat" where
  "waiting_request st cb = (case rpc_structs st (cb_struct cb) of None \<Rightarrow> 0 | Some q \<Rightarrow> rpc_request q)"

lemma waiting_request_upd [simp]: "waiting_request (st\<lparr>responses := x\<rparr>) = waiting_request st"
  by (simp add: waiting_request_def fun_eq_iff)

lemma done_cb_ok:
  assumes "rpc_structs st (cb_struct cb) = Some q"
  shows "\<exists>st' v. done_cb cb e st = Some st' \<and> responses st' = responses st @ [(rpc_request q, v)] \<and> rpc_bdev st' = rpc_bdev st \<and>
    next_struct st' = next_struct st \<and> (\<forall>p. p \<noteq> cb_struct cb \<longrightarrow> rpc_structs st' p = rpc_structs st p)"
  using assms by (cases cb) (auto simp: rpc_blobfs_detect_done_def rpc_blobfs_create_done_def rpc_blobfs_mount_done_def respond_def free_rpc_struct_def)

lemma run_dones_ok:
  assumes "distinct (map (cb_struct \<circ> fst) cs)" "\<forall>cb \<in> fst ` set cs. rpc_structs st (cb_struct cb) \<noteq> None"
  shows "\<exists>st'. run_dones cs st = Some st' \<and> map fst (responses st') = map fst (responses st) @ map (waiting_request st \<circ> fst) cs \<and>
    rpc_bdev st' = rpc_bdev st \<and> next_struct st' = next_struct st \<and>
    (\<forall>p. p \<notin> cb_struct ` fst ` set cs \<longrightarrow> rpc_structs st' p = rpc_structs st p)"
  using assms
proof (induction cs arbitrary: st)
  case (Cons c cs)
  obtain cb e where c: "c = (cb, e)" by (cases c)
  obtain q where q: "rpc_structs st (cb_struct cb) = Some q" using Cons.prems(2) c by auto
  obtain st1 v where s1: "done_cb cb e st = Some st1" "responses st1 = responses st @ [(rpc_request q, v)]" "rpc_bdev st1 = rpc_bdev st"
      "next_struct st1 = next_struct st" "\<And>p. p \<noteq> cb_struct cb \<Longrightarrow> rpc_structs st1 p = rpc_structs st p"
    using done_cb_ok [OF q, of e] by blast
  have other: "rpc_structs st1 (cb_struct d) = rpc_structs st (cb_struct d)" if "d \<in> fst ` set cs" for d
    using s1(5) [of "cb_struct d"] Cons.prems(1) c that by force
  have w: "map (waiting_request st1 \<circ> fst) cs = map (waiting_request st \<circ> fst) cs"
    using other by (auto simp: waiting_request_def)
  obtain st' where s': "run_dones cs st1 = Some st'" "map fst (responses st') = map fst (responses st1) @ map (waiting_request st1 \<circ> fst) cs"
      "rpc_bdev st' = rpc_bdev st1" "next_struct st' = next_struct st1" "\<And>p. p \<notin> cb_struct ` fst ` set cs \<Longrightarrow> rpc_structs st' p = rpc_structs st1 p"
    using Cons.IH [of st1] Cons.prems other by auto
  have "waiting_request st cb = rpc_request q" using q by (simp add: waiting_request_def)
  then show ?case using c s1 s' w by auto
qed simp

text \<open>The module only adds calls.\<close>

definition more_calls :: "'u bdev_state \<Rightarrow> 'u bdev_state \<Rightarrow> bool" where
  "more_calls b b' \<longleftrightarrow> (\<exists>new. user_calls b' = user_calls b @ new)"

lemma env_calls: "env k b = (v, b') \<Longrightarrow> user_calls b' = user_calls b"
  by (rule env_simps(6))

lemma alloc_ctx_calls: "alloc_ctx bdev mp u b = (c, b') \<Longrightarrow> more_calls b b'"
  by (auto simp: alloc_ctx_def more_calls_def call_bdev_user_def set_ctx_def env_alt split: if_splits)

lemma create_dev_calls: "spdk_bdev_create_bs_dev_ext b = (v, d, b') \<Longrightarrow> user_calls b' = user_calls b"
  by (auto simp: spdk_bdev_create_bs_dev_ext_def env_alt split: if_splits)

lemma start_calls:
  "more_calls b (spdk_blobfs_bdev_detect t bdev u b)"
  "more_calls b (spdk_blobfs_bdev_create t bdev sz u b)"
  "more_calls b (spdk_blobfs_bdev_mount t bdev mp u b)"
  by (auto simp: spdk_blobfs_bdev_detect_def spdk_blobfs_bdev_create_def spdk_blobfs_bdev_mount_def more_calls_def
      invalid_def call_bdev_user_def free_ctx_def fs_post_def destroy_dev_def env_alt split: prod.splits option.splits
      dest!: alloc_ctx_calls [unfolded more_calls_def] create_dev_calls)

lemma fuse_start_calls: "blobfs_fuse_start bdev mp fs c b = (v, f, b') \<Longrightarrow> user_calls b' = user_calls b \<and> ctxs b' = ctxs b"
  by (auto simp: blobfs_fuse_start_def blobfs_fuse_free_def Let_def env_alt split: if_splits)

lemma complete_calls: "complete_fs i fs e b = Some b' \<Longrightarrow> more_calls b b'"
proof -
  assume a: "complete_fs i fs e b = Some b'"
  then obtain t cb where "run_fs_cb t cb fs e (b\<lparr>fs_pending := take i (fs_pending b) @ drop (Suc i) (fs_pending b)\<rparr>) = Some b'"
    by (auto simp: complete_fs_def bind_Some_iff split: prod.splits)
  then show ?thesis
    by (cases cb) (auto simp: blobfs_bdev_load_cb_to_unload_def blobfs_bdev_mount_load_cb_def blobfs_bdev_unload_cb_def bind_Some_iff more_calls_def
        call_bdev_user_def free_ctx_def set_ctx_def spdk_thread_send_msg_def split: if_splits option.splits)
qed

lemma mount_start_calls:
  assumes "blobfs_bdev_mount_fuse_start c b = Some b'"
  shows "more_calls b b'"
proof -
  obtain x where x: "ctxs b c = Some x" using assms by (auto simp: blobfs_bdev_mount_fuse_start_def bind_Some_iff)
  obtain v f b1 where s: "blobfs_fuse_start (ctx_bdev_name x) (ctx_mountpoint x) (ctx_fs x) c (set_ctx c (x\<lparr>ctx_cb_fn := None\<rparr>) b) = (v, f, b1)"
    by (metis prod_cases3)
  then show ?thesis
    using assms x fuse_start_calls [OF s]
    by (auto simp: blobfs_bdev_mount_fuse_start_def blobfs_bdev_unmount_def bind_Some_iff more_calls_def call_bdev_user_def set_ctx_def
        spdk_thread_send_msg_def split: if_splits)
qed

lemma deliver_calls: "deliver_msg i b = Some b' \<Longrightarrow> more_calls b b'"
proof -
  assume a: "deliver_msg i b = Some b'"
  then obtain t m where r: "run_msg t m (b\<lparr>thread_msgs := take i (thread_msgs b) @ drop (Suc i) (thread_msgs b)\<rparr>) = Some b'"
    by (auto simp: deliver_msg_def bind_Some_iff split: prod.splits)
  show ?thesis
  proof (cases m)
    case (Tm_unload c)
    then show ?thesis using r by (auto simp: blobfs_bdev_unload_def bind_Some_iff more_calls_def fs_post_def)
  next
    case (Tm_fuse_start c)
    then show ?thesis using mount_start_calls r by (fastforce simp: more_calls_def)
  qed
qed

lemma thread_calls: "step_thread i b = Some b' \<Longrightarrow> user_calls b' = user_calls b"
proof -
  assume a: "step_thread i b = Some b'"
  then obtain f ph where "run_thread (f, ph) (take i (fuse_threads b)) (drop (Suc i) (fuse_threads b)) b = Some b'"
    unfolding step_thread_def bind_Some_iff by (metis surj_pair)
  then show ?thesis
    by (cases ph) (auto simp: fuse_loop_start_def fuse_loop_end_def blobfs_bdev_unmount_def bind_Some_iff
        blobfs_fuse_free_def spdk_thread_send_msg_def)
qed

lemma event_calls: "blobfs_bdev_fuse_event_cb ty c b = Some b' \<Longrightarrow> user_calls b' = user_calls b"
  by (auto simp: blobfs_bdev_fuse_event_cb_def blobfs_fuse_stop_def bind_Some_iff split: if_splits option.splits)

subsection \<open>The invariant\<close>

abbreviation owed_by :: "rpc_state \<Rightarrow> rpc_cb multiset" where
  "owed_by st \<equiv> owed_cbs (ctxs (rpc_bdev st))"

definition rpc_inv :: "nat list \<Rightarrow> rpc_state \<Rightarrow> bool" where
  "rpc_inv rs st \<longleftrightarrow> (\<exists>us. bdev_reach us (rpc_bdev st) \<and> distinct (map cb_struct us) \<and> (\<forall>u \<in> set us. cb_struct u < next_struct st)) \<and>
     (\<forall>u \<in># owed_by st. rpc_structs st (cb_struct u) \<noteq> None) \<and>
     mset rs = mset (map fst (responses st)) + image_mset (waiting_request st) (owed_by st)"

lemma distinct_count_le:
  assumes "\<And>p. count (mset xs) p \<le> 1"
  shows "distinct xs"
proof -
  have "count (mset xs) p = (if p \<in> set xs then 1 else 0)" for p
    using assms [of p] by (metis One_nat_def count_eq_zero_iff le_zero_eq le_Suc_eq set_mset_mset)
  then show ?thesis by (simp add: distinct_count_atmost_1)
qed

lemma run_done_inv:
  assumes b: "bdev_reach us b" "user_calls b = user_calls (rpc_bdev st) @ new"
    and us: "distinct (map cb_struct us)" "\<forall>u \<in> set us. cb_struct u < next_struct st"
    and X: "mset (map fst new) + owed_cbs (ctxs b) = X" "\<forall>u \<in># X. rpc_structs st (cb_struct u) \<noteq> None"
    and rs: "mset rs = mset (map fst (responses st)) + image_mset (waiting_request st) X"
  shows "\<exists>st'. run_done b st = Some st' \<and> rpc_inv rs st'"
proof -
  let ?st = "st\<lparr>rpc_bdev := b\<rparr>"
  have "mset (map cb_struct us) = image_mset cb_struct (mset (map fst (user_calls (rpc_bdev st)))) +
      mset (map (cb_struct \<circ> fst) new) + image_mset cb_struct (owed_cbs (ctxs b))"
    using bd.accounted [OF b(1)] b(2) by (simp add: image_mset.compositionality comp_def)
  then have le: "mset (map (cb_struct \<circ> fst) new) + image_mset cb_struct (owed_cbs (ctxs b)) \<subseteq># mset (map cb_struct us)"
    by (simp add: add.assoc)
  have one: "count (mset (map cb_struct us)) p \<le> 1" for p using us(1) by (simp add: distinct_count_atmost_1)
  have "count (mset (map (cb_struct \<circ> fst) new)) p \<le> 1" for p
    using mset_subset_eq_count [OF le, of p] one [of p] unfolding count_union by linarith
  then have d: "distinct (map (cb_struct \<circ> fst) new)" by (rule distinct_count_le)
  have disj: "cb_struct u \<notin> cb_struct ` fst ` set new" if "u \<in># owed_cbs (ctxs b)" for u
  proof
    assume "cb_struct u \<in> cb_struct ` fst ` set new"
    then have "cb_struct u \<in># mset (map (cb_struct \<circ> fst) new)" by (simp add: image_comp)
    then have "0 < count (mset (map (cb_struct \<circ> fst) new)) (cb_struct u)" by (simp only: count_greater_zero_iff)
    moreover have "0 < count (image_mset cb_struct (owed_cbs (ctxs b))) (cb_struct u)"
      using that by (metis count_greater_zero_iff imageI set_image_mset)
    ultimately show False
      using mset_subset_eq_count [OF le, of "cb_struct u"] one [of "cb_struct u"] unfolding count_union by linarith
  qed
  have live: "\<forall>cb \<in> fst ` set new. rpc_structs ?st (cb_struct cb) \<noteq> None" using X(2) unfolding X(1) [symmetric] by simp
  obtain st' where s': "run_dones new ?st = Some st'" "map fst (responses st') = map fst (responses st) @ map (waiting_request ?st \<circ> fst) new"
      "rpc_bdev st' = b" "next_struct st' = next_struct st" "\<And>p. p \<notin> cb_struct ` fst ` set new \<Longrightarrow> rpc_structs st' p = rpc_structs st p"
    using run_dones_ok [OF d live] by auto
  have w: "waiting_request ?st = waiting_request st" by (simp add: waiting_request_def fun_eq_iff)
  have w': "image_mset (waiting_request st') (owed_cbs (ctxs b)) = image_mset (waiting_request st) (owed_cbs (ctxs b))"
    using s'(5) disj by (intro image_mset_cong) (simp add: waiting_request_def)
  have "mset rs = mset (map fst (responses st')) + image_mset (waiting_request st') (owed_cbs (ctxs b))"
    unfolding w' rs X(1) [symmetric] s'(2) by (simp add: w image_mset.compositionality comp_def)
  moreover have "rpc_structs st' (cb_struct u) \<noteq> None" if "u \<in># owed_cbs (ctxs b)" for u
    using s'(5) [OF disj [OF that]] X(2) that unfolding X(1) [symmetric] by simp
  ultimately have "rpc_inv rs st'" unfolding rpc_inv_def s'(3,4) using b(1) us by blast
  then show ?thesis using s'(1) b(2) by (auto simp: run_done_def)
qed

lemma bdev_step_inv:
  assumes "rpc_inv rs st" "more_calls (rpc_bdev st) b" "\<And>us. bdev_reach us (rpc_bdev st) \<Longrightarrow> bdev_reach us b"
  shows "\<exists>st'. run_done b st = Some st' \<and> rpc_inv rs st'"
proof -
  obtain us where us: "bdev_reach us (rpc_bdev st)" "distinct (map cb_struct us)" "\<forall>u \<in> set us. cb_struct u < next_struct st"
    using assms(1) by (auto simp: rpc_inv_def)
  obtain new where new: "user_calls b = user_calls (rpc_bdev st) @ new" using assms(2) by (auto simp: more_calls_def)
  have "mset (map fst new) + owed_cbs (ctxs b) = owed_by st"
    using bd.accounted [OF us(1)] bd.accounted [OF assms(3) [OF us(1)]] new by simp
  from run_done_inv [OF assms(3) [OF us(1)] new us(2,3) this] show ?thesis using assms(1) by (auto simp: rpc_inv_def)
qed

lemma rpc_alloc_simps:
  assumes "rpc_alloc_ok st = (ok, st')"
  shows "rpc_bdev st' = rpc_bdev st" "rpc_structs st' = rpc_structs st" "next_struct st' = next_struct st" "responses st' = responses st"
  using assms by (auto simp: rpc_alloc_ok_def split: list.splits)

lemma open_struct_inv:
  assumes "rpc_inv rs st"
  shows "case open_struct r params ds st of (None, st') \<Rightarrow> rpc_inv (r # rs) st'
    | (Some (p, q), st') \<Rightarrow> rpc_inv rs st' \<and> p + 1 = next_struct st' \<and> rpc_structs st' p = Some q \<and> rpc_request q = r \<and>
        (\<exists>us. bdev_reach us (rpc_bdev st') \<and> distinct (map cb_struct us) \<and> (\<forall>u \<in> set us. cb_struct u < p))"
proof -
  obtain us where us: "bdev_reach us (rpc_bdev st)" "distinct (map cb_struct us)" "\<forall>u \<in> set us. cb_struct u < next_struct st"
    using assms by (auto simp: rpc_inv_def)
  have ow: "cb_struct u < next_struct st" if "u \<in># owed_by st" for u
    using bd.accounted [OF us(1)] us(3) that by (metis set_mset_mset union_iff)
  have w: "image_mset (waiting_request st') (owed_by st) = image_mset (waiting_request st) (owed_by st)"
    if "\<And>p. p < next_struct st \<Longrightarrow> rpc_structs st' p = rpc_structs st p" for st'
    using that ow by (intro image_mset_cong) (simp add: waiting_request_def)
  have ok: "rpc_inv rs st'" if "rpc_bdev st' = rpc_bdev st" "responses st' = responses st" "next_struct st \<le> next_struct st'"
      "\<And>p. p < next_struct st \<Longrightarrow> rpc_structs st' p = rpc_structs st p" for st'
    using assms that w [OF that(4)] us ow by (fastforce simp: rpc_inv_def)
  have ans: "rpc_inv (r # rs) (respond r v st')" if "rpc_inv rs st'" for v st'
    using that by (simp add: rpc_inv_def respond_def)
  show ?thesis
    unfolding open_struct_def Let_def
    by (auto simp: rpc_alloc_simps split: prod.splits intro!: ans ok us exI [of _ us] dest: rpc_alloc_simps)
qed

subsection \<open>What a decoded struct holds\<close>

lemma find_decoder_nth: "find_decoder ds nm j = Some (i, d) \<Longrightarrow> j \<le> i \<and> i - j < length ds \<and> d = ds ! (i - j)"
proof (induction ds arbitrary: j)
  case (Cons d' ds)
  show ?case
  proof (cases "nm = dec_name d'")
    case True
    then show ?thesis using Cons.prems by simp
  next
    case False
    then have "Suc j \<le> i \<and> i - Suc j < length ds \<and> d = ds ! (i - Suc j)" using Cons by simp
    then show ?thesis by (auto simp: nth_Cons' Suc_diff_Suc)
  qed
qed simp

text \<open>A field is set when its decoder has seen its key and nothing has failed.\<close>

lemma decode_loop_field:
  assumes "\<And>i v out out' fl. i < length ds \<Longrightarrow> dec_func (ds ! i) v out = (out', fl) \<Longrightarrow> (P out \<longrightarrow> P out') \<and> (i = k \<and> \<not> fl \<longrightarrow> P out')"
    and "decode_loop ds kvs seen out inval = (seen', out', inval')" "length seen = length ds" "inval \<or> (seen ! k \<longrightarrow> P out)" "k < length ds"
  shows "inval' \<or> (seen' ! k \<longrightarrow> P out')"
  using assms(2-4)
proof (induction kvs arbitrary: seen out inval)
  case (Cons kv kvs)
  obtain nm v where kv: "kv = (nm, v)" by (cases kv)
  show ?case
  proof (cases "find_decoder ds nm 0")
    case None
    then show ?thesis using Cons kv by simp
  next
    case (Some id)
    then obtain i d where i: "find_decoder ds nm 0 = Some (i, d)" "i < length ds" "d = ds ! i"
      using find_decoder_nth [of ds nm 0] by (cases id) auto
    show ?thesis
    proof (cases "seen ! i")
      case True
      then show ?thesis using Cons kv i by simp
    next
      case False
      obtain out1 fl where o: "dec_func (ds ! i) v out = (out1, fl)" by fastforce
      then have "decode_loop ds kvs (seen[i := True]) out1 (inval \<or> fl) = (seen', out', inval')"
        using Cons.prems(1) kv i False by simp
      moreover have "(inval \<or> fl) \<or> (seen[i := True] ! k \<longrightarrow> P out1)"
        using assms(1) [OF i(2) o] Cons.prems(3) by (cases "i = k") auto
      ultimately show ?thesis using Cons.IH Cons.prems(2) by simp
    qed
  qed
qed simp

lemma decoded_field:
  assumes "spdk_json_decode_object params ds ok out = (out', 0)" "k < length ds" "\<not> dec_optional (ds ! k)"
    and "\<And>i v out out' fl. i < length ds \<Longrightarrow> dec_func (ds ! i) v out = (out', fl) \<Longrightarrow> (P out \<longrightarrow> P out') \<and> (i = k \<and> \<not> fl \<longrightarrow> P out')"
  shows "P out'"
proof -
  obtain kvs seen inval where l: "decode_loop ds kvs (replicate (length ds) False) out False = (seen, out', inval)"
      "\<not> inval" "seen ! k"
    using assms(1-3) by (auto simp: spdk_json_decode_object_def split: option.splits if_splits prod.splits)
  have "inval \<or> (seen ! k \<longrightarrow> P out')"
    by (rule decode_loop_field [where P = P, OF assms(4) l(1)]) (use assms(2) in auto)
  then show ?thesis using l(2,3) by simp
qed

lemma less_2_cases: "i < Suc (Suc 0) \<Longrightarrow> i = 0 \<or> i = Suc 0"
  by auto

lemmas decoder_defs = bdev_name_decoder_def decode_string_to_def rpc_decode_cluster_sz_def

lemma detect_named:
  assumes "spdk_json_decode_object params rpc_blobfs_detect_decoders ok q0 = (q, 0)"
  shows "rpc_bdev_name q \<noteq> None"
  by (rule decoded_field [OF assms, where k = 0 and P = "\<lambda>q. rpc_bdev_name q \<noteq> None"])
    (auto simp: rpc_blobfs_detect_decoders_def decoder_defs dest!: less_2_cases split: json_val.splits prod.splits)

lemma create_named:
  assumes "spdk_json_decode_object params (rpc_blobfs_create_decoders c) ok q0 = (q, 0)"
  shows "rpc_bdev_name q \<noteq> None"
  by (rule decoded_field [OF assms, where k = 0 and P = "\<lambda>q. rpc_bdev_name q \<noteq> None"])
    (auto simp: rpc_blobfs_create_decoders_def decoder_defs dest!: less_2_cases split: json_val.splits prod.splits)

lemma mount_named:
  assumes "spdk_json_decode_object params rpc_blobfs_mount_decoders ok q0 = (q, 0)"
  shows "rpc_bdev_name q \<noteq> None"
  by (rule decoded_field [OF assms, where k = 0 and P = "\<lambda>q. rpc_bdev_name q \<noteq> None"])
    (auto simp: rpc_blobfs_mount_decoders_def decoder_defs dest!: less_2_cases split: json_val.splits prod.splits)

lemma mount_placed:
  assumes "spdk_json_decode_object params rpc_blobfs_mount_decoders ok q0 = (q, 0)"
  shows "rpc_mountpoint q \<noteq> None"
  by (rule decoded_field [OF assms, where k = 1 and P = "\<lambda>q. rpc_mountpoint q \<noteq> None"])
    (auto simp: rpc_blobfs_mount_decoders_def decoder_defs dest!: less_2_cases split: json_val.splits prod.splits)

lemma start_inv:
  assumes inv: "rpc_inv rs st" and q: "rpc_structs st p = Some q" "p + 1 = next_struct st"
    and us: "bdev_reach us (rpc_bdev st)" "distinct (map cb_struct us)" "\<forall>u \<in> set us. cb_struct u < p"
    and b: "bdev_reach (cb # us) b" "more_calls (rpc_bdev st) b" "cb_struct cb = p"
  shows "\<exists>st'. run_done b st = Some st' \<and> rpc_inv (rpc_request q # rs) st'"
proof -
  obtain new where new: "user_calls b = user_calls (rpc_bdev st) @ new" using b(2) by (auto simp: more_calls_def)
  have X: "mset (map fst new) + owed_cbs (ctxs b) = add_mset cb (owed_by st)"
    using bd.accounted [OF us(1)] bd.accounted [OF b(1)] new by simp
  have w: "waiting_request st cb = rpc_request q" using q b(3) by (simp add: waiting_request_def)
  have d: "distinct (map cb_struct (cb # us))" "\<forall>u \<in> set (cb # us). cb_struct u < next_struct st"
    using us b(3) q(2) by auto
  have l: "\<forall>u \<in># add_mset cb (owed_by st). rpc_structs st (cb_struct u) \<noteq> None" using inv q b(3) by (auto simp: rpc_inv_def)
  show ?thesis
    by (rule run_done_inv [OF b(1) new d X l]) (use inv w in \<open>simp add: rpc_inv_def\<close>)
qed

lemma method_inv:
  assumes inv: "rpc_inv rs st" and m: "open_struct r params ds st = (Some (p, q), st1)"
    and b: "\<And>us. bdev_reach us (rpc_bdev st1) \<Longrightarrow> bdev_reach (cb # us) b" "more_calls (rpc_bdev st1) b" "cb_struct cb = p"
  shows "\<exists>st'. run_done b st1 = Some st' \<and> rpc_inv (r # rs) st'"
proof -
  obtain us where o: "rpc_inv rs st1" "p + 1 = next_struct st1" "rpc_structs st1 p = Some q" "rpc_request q = r"
      "bdev_reach us (rpc_bdev st1)" "distinct (map cb_struct us)" "\<forall>u \<in> set us. cb_struct u < p"
    using open_struct_inv [OF inv, of r params ds] m by auto
  from start_inv [OF o(1,3,2,5-7) b(1) [OF o(5)] b(2,3)] show ?thesis using o(4) by simp
qed

lemma open_struct_decoded:
  "open_struct r params ds st = (Some (p, q), st1) \<Longrightarrow> \<exists>ok q0. spdk_json_decode_object params ds ok zero_struct = (q0, 0) \<and> q = q0\<lparr>rpc_request := r\<rparr>"
  by (auto simp: open_struct_def Let_def split: prod.splits if_splits)

lemma rpc_detect_inv:
  assumes "rpc_inv rs st"
  shows "\<exists>st'. rpc_blobfs_detect t r params st = Some st' \<and> rpc_inv (r # rs) st'"
proof (cases "open_struct r params rpc_blobfs_detect_decoders st")
  case (Pair o1 st1)
  show ?thesis
  proof (cases o1)
    case None
    then show ?thesis using open_struct_inv [OF assms, of r params "rpc_blobfs_detect_decoders"] Pair by (simp add: rpc_blobfs_detect_def)
  next
    case (Some pq)
    then obtain p q where o: "open_struct r params rpc_blobfs_detect_decoders st = (Some (p, q), st1)" using Pair by (cases pq) auto
    obtain nm where "rpc_bdev_name q = Some nm"
      using open_struct_decoded [OF o] detect_named by fastforce
    then have "rpc_blobfs_detect t r params st = run_done (spdk_blobfs_bdev_detect t nm (Rpc_detect_done p) (rpc_bdev st1)) st1"
      using o by (simp add: rpc_blobfs_detect_def)
    moreover have "\<exists>st'. run_done (spdk_blobfs_bdev_detect t nm (Rpc_detect_done p) (rpc_bdev st1)) st1 = Some st' \<and> rpc_inv (r # rs) st'"
      by (rule method_inv [OF assms o, where cb = "Rpc_detect_done p"]) (simp_all add: bdev_reach.detect start_calls)
    ultimately show ?thesis by simp
  qed
qed

lemma rpc_create_inv:
  assumes "rpc_inv rs st"
  shows "\<exists>st'. rpc_blobfs_create t r params st = Some st' \<and> rpc_inv (r # rs) st'"
proof (cases "open_struct r params (rpc_blobfs_create_decoders (stack_char st)) st")
  case (Pair o1 st1)
  show ?thesis
  proof (cases o1)
    case None
    then show ?thesis using open_struct_inv [OF assms, of r params "(rpc_blobfs_create_decoders (stack_char st))"] Pair by (simp add: rpc_blobfs_create_def)
  next
    case (Some pq)
    then obtain p q where o: "open_struct r params (rpc_blobfs_create_decoders (stack_char st)) st = (Some (p, q), st1)" using Pair by (cases pq) auto
    obtain nm where "rpc_bdev_name q = Some nm"
      using open_struct_decoded [OF o] create_named by fastforce
    then have "rpc_blobfs_create t r params st = run_done (spdk_blobfs_bdev_create t nm (ucast (rpc_cluster_sz q)) (Rpc_create_done p) (rpc_bdev st1)) st1"
      using o by (simp add: rpc_blobfs_create_def)
    moreover have "\<exists>st'. run_done (spdk_blobfs_bdev_create t nm (ucast (rpc_cluster_sz q)) (Rpc_create_done p) (rpc_bdev st1)) st1 = Some st' \<and> rpc_inv (r # rs) st'"
      by (rule method_inv [OF assms o, where cb = "Rpc_create_done p"]) (simp_all add: bdev_reach.create start_calls)
    ultimately show ?thesis by simp
  qed
qed

lemma rpc_mount_inv:
  assumes "rpc_inv rs st"
  shows "\<exists>st'. rpc_blobfs_mount t r params st = Some st' \<and> rpc_inv (r # rs) st'"
proof (cases "open_struct r params rpc_blobfs_mount_decoders st")
  case (Pair o1 st1)
  show ?thesis
  proof (cases o1)
    case None
    then show ?thesis using open_struct_inv [OF assms, of r params "rpc_blobfs_mount_decoders"] Pair by (simp add: rpc_blobfs_mount_def)
  next
    case (Some pq)
    then obtain p q where o: "open_struct r params rpc_blobfs_mount_decoders st = (Some (p, q), st1)" using Pair by (cases pq) auto
    obtain nm mp where "rpc_bdev_name q = Some nm" "rpc_mountpoint q = Some mp"
      using open_struct_decoded [OF o] mount_named mount_placed by fastforce
    then have "rpc_blobfs_mount t r params st = run_done (spdk_blobfs_bdev_mount t nm mp (Rpc_mount_done p) (rpc_bdev st1)) st1"
      using o by (simp add: rpc_blobfs_mount_def)
    moreover have "\<exists>st'. run_done (spdk_blobfs_bdev_mount t nm mp (Rpc_mount_done p) (rpc_bdev st1)) st1 = Some st' \<and> rpc_inv (r # rs) st'"
      by (rule method_inv [OF assms o, where cb = "Rpc_mount_done p"]) (simp_all add: bdev_reach.mount start_calls)
    ultimately show ?thesis by simp
  qed
qed

section \<open>Properties\<close>

text \<open>Requests arrive on any thread; \<open>rs\<close> are their numbers.  Between them the module of block
  devices takes its steps.\<close>

inductive rpc_reach :: "nat list \<Rightarrow> rpc_state \<Rightarrow> bool" where
  boot: "bdev_reach [] (rpc_bdev st) \<Longrightarrow> responses st = [] \<Longrightarrow> rpc_reach [] st"
| detect: "rpc_reach rs st \<Longrightarrow> rpc_blobfs_detect t r params st = Some st' \<Longrightarrow> rpc_reach (r # rs) st'"
| create: "rpc_reach rs st \<Longrightarrow> rpc_blobfs_create t r params st = Some st' \<Longrightarrow> rpc_reach (r # rs) st'"
| mount: "rpc_reach rs st \<Longrightarrow> rpc_blobfs_mount t r params st = Some st' \<Longrightarrow> rpc_reach (r # rs) st'"
| layer: "rpc_reach rs st \<Longrightarrow> complete_fs i fs e (rpc_bdev st) = Some b \<Longrightarrow> run_done b st = Some st' \<Longrightarrow> rpc_reach rs st'"
| message: "rpc_reach rs st \<Longrightarrow> deliver_msg i (rpc_bdev st) = Some b \<Longrightarrow> run_done b st = Some st' \<Longrightarrow> rpc_reach rs st'"
| loop: "rpc_reach rs st \<Longrightarrow> step_thread i (rpc_bdev st) = Some b \<Longrightarrow> run_done b st = Some st' \<Longrightarrow> rpc_reach rs st'"
| event: "rpc_reach rs st \<Longrightarrow> blobfs_bdev_fuse_event_cb ty c (rpc_bdev st) = Some b \<Longrightarrow> run_done b st = Some st' \<Longrightarrow> rpc_reach rs st'"

lemma same_calls: "user_calls b' = user_calls b \<Longrightarrow> more_calls b b'"
  by (simp add: more_calls_def)

lemma layer_inv: "rpc_inv rs st \<Longrightarrow> complete_fs i fs e (rpc_bdev st) = Some b \<Longrightarrow> \<exists>st'. run_done b st = Some st' \<and> rpc_inv rs st'"
  by (rule bdev_step_inv) (auto intro: complete_calls bdev_reach.layer)

lemma message_inv: "rpc_inv rs st \<Longrightarrow> deliver_msg i (rpc_bdev st) = Some b \<Longrightarrow> \<exists>st'. run_done b st = Some st' \<and> rpc_inv rs st'"
  by (rule bdev_step_inv) (auto intro: deliver_calls bdev_reach.message)

lemma loop_inv: "rpc_inv rs st \<Longrightarrow> step_thread i (rpc_bdev st) = Some b \<Longrightarrow> \<exists>st'. run_done b st = Some st' \<and> rpc_inv rs st'"
  by (rule bdev_step_inv) (auto intro: same_calls thread_calls bdev_reach.loop)

lemma rpc_event_inv:
  "rpc_inv rs st \<Longrightarrow> blobfs_bdev_fuse_event_cb ty c (rpc_bdev st) = Some b \<Longrightarrow> \<exists>st'. run_done b st = Some st' \<and> rpc_inv rs st'"
  by (rule bdev_step_inv) (auto intro: same_calls event_calls bdev_reach.event)

lemma rpc_reach_inv: "rpc_reach rs st \<Longrightarrow> rpc_inv rs st"
proof (induction rule: rpc_reach.induct)
  case (boot st)
  then have "owed_by st = {#}" using bd.accounted [OF boot(1)] by simp
  then show ?case using boot by (auto simp: rpc_inv_def intro!: exI [of _ "[]"])
next
  case (detect rs st t r params st')
  then show ?case using rpc_detect_inv [OF detect.IH, of t r params] by simp
next
  case (create rs st t r params st')
  then show ?case using rpc_create_inv [OF create.IH, of t r params] by simp
next
  case (mount rs st t r params st')
  then show ?case using rpc_mount_inv [OF mount.IH, of t r params] by simp
next
  case (layer rs st i fs e b st')
  then show ?case using layer_inv by fastforce
next
  case (message rs st i b st')
  then show ?case using message_inv by fastforce
next
  case (loop rs st i b st')
  then show ?case using loop_inv by fastforce
next
  case (event rs st ty c b st')
  then show ?case using rpc_event_inv by fastforce
qed

interpretation rpc: callback_service rpc_reach "\<lambda>st. mset (map fst (responses st))"
    "\<lambda>st. image_mset (waiting_request st) (owed_by st)"
  by unfold_locales (use rpc_reach_inv in \<open>auto simp: rpc_inv_def\<close>)

text \<open>C7: Every JSON-RPC request gets exactly one response.  In a reachable state the requests
  received are those answered and those that wait for a callback still recorded in a context;
  when no context is left all are answered.  No method crashes, whatever its parameters, and no
  step of the module leads to a callback whose struct is gone.\<close>

theorem rpc_answers_once:
  assumes "rpc_reach rs st"
  shows "mset rs = mset (map fst (responses st)) + image_mset (waiting_request st) (owed_by st) \<and>
    (ctxs (rpc_bdev st) = Map.empty \<longrightarrow> mset (map fst (responses st)) = mset rs) \<and>
    (\<forall>t r params. rpc_blobfs_detect t r params st \<noteq> None \<and> rpc_blobfs_create t r params st \<noteq> None \<and> rpc_blobfs_mount t r params st \<noteq> None) \<and>
    (\<forall>i fs e b. complete_fs i fs e (rpc_bdev st) = Some b \<longrightarrow> run_done b st \<noteq> None) \<and>
    (\<forall>i b. deliver_msg i (rpc_bdev st) = Some b \<longrightarrow> run_done b st \<noteq> None)"
proof -
  note i = rpc_reach_inv [OF assms]
  have "rpc_blobfs_detect t r params st \<noteq> None \<and> rpc_blobfs_create t r params st \<noteq> None \<and> rpc_blobfs_mount t r params st \<noteq> None" for t r params
    using rpc_detect_inv [OF i, of t r params] rpc_create_inv [OF i, of t r params] rpc_mount_inv [OF i, of t r params] by auto
  moreover have "run_done b st \<noteq> None" if "complete_fs i fs e (rpc_bdev st) = Some b" for i fs e b using layer_inv [OF i that] by auto
  moreover have "run_done b st \<noteq> None" if "deliver_msg i (rpc_bdev st) = Some b" for i b using message_inv [OF i that] by auto
  moreover have "mset (map fst (responses st)) = mset rs" if "ctxs (rpc_bdev st) = Map.empty"
    using rpc.answered_when_idle [OF assms] that by simp
  ultimately show ?thesis using rpc.accounted [OF assms] by blast
qed

definition sample_rpc :: rpc_state where
  "sample_rpc = \<lparr>rpc_bdev = \<lparr>ctxs = Map.empty, next_ctx = 0, bfuses = Map.empty, next_bfuse = 0, answers = (\<lambda>_. []), devs = [], next_dev = 0,
     fuse_handles = [], next_handle = 0, mounts = [], exits = [], fuse_threads = [], fs_pending = [], thread_msgs = [], user_calls = []\<rparr>,
     rpc_structs = Map.empty, next_struct = 0, rpc_alloc = [], stack_char = CHR ''x'', responses = []\<rparr>"

lemma sample_rpc_reach: "rpc_reach [] sample_rpc"
  by (rule rpc_reach.boot, rule bdev_reach.boot) (simp_all add: sample_rpc_def)

theorem rpc_answers_once_witness:
  "\<exists>st. rpc_blobfs_create 0 4 (Some [(''bdev_name'', J_string ''Nvme0'')]) sample_rpc = Some st \<and>
    mset [4] = mset (map fst (responses st)) + image_mset (waiting_request st) (owed_by st)"
proof -
  obtain st where st: "rpc_blobfs_create 0 4 (Some [(''bdev_name'', J_string ''Nvme0'')]) sample_rpc = Some st"
    using rpc_answers_once [OF sample_rpc_reach] by fastforce
  from rpc_answers_once [OF rpc_reach.create [OF sample_rpc_reach this]] st show ?thesis by blast
qed

text \<open>A failed operation is reported, but its struct is never freed.\<close>

theorem failed_operation_leaks_struct:
  assumes "rpc_structs st p = Some q" "e \<noteq> 0"
  shows "\<exists>st'. rpc_blobfs_create_done p e st = Some st' \<and> rpc_structs st' = rpc_structs st"
    and "\<exists>st'. rpc_blobfs_mount_done p e st = Some st' \<and> rpc_structs st' = rpc_structs st"
    and "e \<noteq> - EILSEQ \<Longrightarrow> \<exists>st'. rpc_blobfs_detect_done p e st = Some st' \<and> rpc_structs st' = rpc_structs st"
  using assms by (auto simp: rpc_blobfs_create_done_def rpc_blobfs_mount_done_def rpc_blobfs_detect_done_def respond_def)

section \<open>The cluster size\<close>

definition used_cluster_sz :: "u64 \<Rightarrow> u32" where
  "used_cluster_sz cap = (if (ucast cap :: u32) = 0 then default_cluster_sz else ucast cap)"

lemma unat_used: "unat (used_cluster_sz cap) = (if unat cap mod 2 ^ 32 = 0 then 2 ^ 20 else unat cap mod 2 ^ 32)"
proof -
  have "unat (ucast cap :: u32) = unat cap mod 2 ^ 32" by (simp add: unsigned_ucast_eq take_bit_eq_mod)
  moreover from this have "(ucast cap :: u32) = 0 \<longleftrightarrow> unat cap mod 2 ^ 32 = 0" by (metis unat_eq_zero)
  ultimately show ?thesis by (simp add: used_cluster_sz_def default_cluster_sz_def)
qed

lemma used_same: "unat cap \<ge> 2 ^ 20 \<Longrightarrow> unat (used_cluster_sz cap) = unat cap \<longleftrightarrow> unat cap < 2 ^ 32"
  using unsigned_less [of "used_cluster_sz cap"] by (auto simp: unat_used)

lemma used_aligned: "unat cap mod 4096 = 0 \<Longrightarrow> unat (used_cluster_sz cap) mod 4096 = 0"
  unfolding unat_used using mod_mod_cancel [of 4096 "2 ^ 32" "unat cap"] by simp

definition create_params :: "string \<Rightarrow> string \<Rightarrow> (string \<times> json_val) list option" where
  "create_params nm s = Some [(''bdev_name'', J_string nm), (''cluster_sz'', J_string s)]"

lemma create_decoded:
  assumes "spdk_parse_capacity s 0 c 0 = (cap, pre, ret)"
  shows "spdk_json_decode_object (create_params nm s) (rpc_blobfs_create_decoders c) True zero_struct =
    (zero_struct\<lparr>rpc_bdev_name := Some nm, rpc_cluster_sz := cap\<rparr>,
     if ret \<noteq> 0 \<or> cap mod PAGE_SIZE \<noteq> 0 \<or> cap < MIN_CLUSTER_SZ then - 1 else 0)"
  using assms by (auto simp: spdk_json_decode_object_def create_params_def rpc_blobfs_create_decoders_def decoder_defs zero_struct_def
      numeral_2_eq_2 less_Suc_eq)

text \<open>C35: What \<open>blobfs_create\<close> does with a cluster size given as text: it refuses the request
  unless the text denotes a multiple of 4096 of at least 1 MiB, and otherwise has the file
  system initialised with a multiple of 4096, which is the size that was asked for exactly when
  this is below 4 GiB; from there on only its lower 32 bits count, and 1 MiB is used where
  they are 0.\<close>

theorem create_cluster_size:
  assumes "spdk_parse_capacity s 0 (stack_char st) 0 = (cap, pre, ret)"
    and "rpc_alloc st = []" "answers (rpc_bdev st) = (\<lambda>_. [])"
  shows "\<exists>st'. rpc_blobfs_create t r (create_params nm s) st = Some st' \<and>
    (if ret \<noteq> 0 \<or> unat cap mod 4096 \<noteq> 0 \<or> unat cap < 2 ^ 20
     then responses st' = responses st @ [(r, Resp_invalid_params)] \<and> rpc_bdev st' = rpc_bdev st
     else responses st' = responses st \<and>
       (\<exists>k c. fs_pending (rpc_bdev st') = fs_pending (rpc_bdev st) @ [(t, Fs_init (next_dev (rpc_bdev st)) k, Fs_load_to_unload c)] \<and>
          unat k mod 4096 = 0 \<and> (unat k = unat cap \<longleftrightarrow> unat cap < 2 ^ 32) \<and>
          unat k = (if unat cap mod 2 ^ 32 = 0 then 2 ^ 20 else unat cap mod 2 ^ 32)))"
proof -
  have a: "cap mod PAGE_SIZE \<noteq> 0 \<longleftrightarrow> unat cap mod 4096 \<noteq> 0" "cap < MIN_CLUSTER_SZ \<longleftrightarrow> unat cap < 2 ^ 20"
    by (simp_all add: PAGE_SIZE_def MIN_CLUSTER_SZ_def word_less_nat_alt unat_arith_simps(7) flip: unat_eq_zero)
  note d = create_decoded [OF assms(1), of nm, unfolded a]
  have al: "rpc_alloc_ok st' = (True, st')" if "rpc_alloc st' = []" for st' using that by (simp add: rpc_alloc_ok_def)
  show ?thesis
  proof (cases "ret \<noteq> 0 \<or> unat cap mod 4096 \<noteq> 0 \<or> unat cap < 2 ^ 20")
    case True
    then show ?thesis using d assms(2) by (simp add: rpc_blobfs_create_def open_struct_def al Let_def respond_def)
  next
    case False
    let ?b = "rpc_bdev st"
    have "rpc_blobfs_create t r (create_params nm s) st \<noteq> None \<and> (\<forall>st'. rpc_blobfs_create t r (create_params nm s) st = Some st' \<longrightarrow>
        responses st' = responses st \<and>
        fs_pending (rpc_bdev st') = fs_pending ?b @ [(t, Fs_init (next_dev ?b) (used_cluster_sz cap), Fs_load_to_unload (next_ctx ?b))])"
      using False d assms(2,3)
      by (simp add: rpc_blobfs_create_def open_struct_def al Let_def spdk_blobfs_bdev_create_def alloc_ctx_def env_alt env_ans_def
          spdk_bdev_create_bs_dev_ext_def set_ctx_def fs_post_def run_done_def used_cluster_sz_def)
    then obtain st' where st': "rpc_blobfs_create t r (create_params nm s) st = Some st'" "responses st' = responses st"
        "fs_pending (rpc_bdev st') = fs_pending ?b @ [(t, Fs_init (next_dev ?b) (used_cluster_sz cap), Fs_load_to_unload (next_ctx ?b))]"
      by blast
    have "unat (used_cluster_sz cap) mod 4096 = 0 \<and> (unat (used_cluster_sz cap) = unat cap \<longleftrightarrow> unat cap < 2 ^ 32)"
      using False used_aligned [of cap] used_same [of cap] by simp
    then show ?thesis unfolding if_not_P [OF False] using st' unat_used [of cap]
      by (intro exI [of _ st'] exI [of _ "used_cluster_sz cap"] exI [of _ "next_ctx ?b"] conjI) (elim conjE, assumption)+
  qed
qed

theorem create_cluster_size_witness:
  "\<exists>st' k c. rpc_blobfs_create 0 4 (create_params ''Nvme0'' ''4G'') sample_rpc = Some st' \<and>
    fs_pending (rpc_bdev st') = [(0, Fs_init 0 k, Fs_load_to_unload c)] \<and> unat k = 2 ^ 20"
proof -
  have "spdk_parse_capacity ''4G'' 0 (stack_char sample_rpc) 0 = (4294967296, Some True, 0)"
    by (simp add: spdk_parse_capacity_def sscanf_u64_char_def is_space_def is_digit_def decimal_value_def)
  from create_cluster_size [OF this, of 0 4 "''Nvme0''"] show ?thesis by (fastforce simp: sample_rpc_def)
qed

end
