(* ===== verification/Blobfs_Tools.thy ===== *)
theory Blobfs_Tools
  imports Blobfs_Rpc
begin

text \<open>
  The command line tools for a file system on a device, \<open>test/blobfs/mkfs/mkfs.c\<close> (the program
  \<open>mkfs\<close>) and \<open>test/blobfs/fuse/fuse.c\<close> (which mounts one): clients of \<open>Blobfs_Bdev\<close> with one
  operation each.  Their callbacks run after each step of the module, as in \<open>Blobfs_Rpc\<close>.
\<close>

section \<open>Clients with one callback\<close>

text \<open>The module goes from \<open>b\<close> to \<open>b'\<close>; \<open>f\<close> runs for every callback called on the way.\<close>

definition run_new :: "(int \<Rightarrow> 's \<Rightarrow> 's) \<Rightarrow> unit bdev_state \<Rightarrow> unit bdev_state \<Rightarrow> 's \<Rightarrow> 's" where
  "run_new f b b' st = fold (\<lambda>(u, e). f e) (drop (length (user_calls b)) (user_calls b')) st"

inductive bdev_step :: "unit bdev_state \<Rightarrow> unit bdev_state \<Rightarrow> bool" where
  layer: "complete_fs i fs e b = Some b' \<Longrightarrow> bdev_step b b'"
| message: "deliver_msg i b = Some b' \<Longrightarrow> bdev_step b b'"
| loop: "step_thread i b = Some b' \<Longrightarrow> bdev_step b b'"

lemma bdev_step_reach: "bdev_step b b' \<Longrightarrow> bdev_reach us b \<Longrightarrow> bdev_reach us b'"
  by (auto elim!: bdev_step.cases intro: bdev_reach.layer bdev_reach.message bdev_reach.loop)

lemma bdev_step_calls: "bdev_step b b' \<Longrightarrow> more_calls b b'"
  by (auto elim!: bdev_step.cases dest: complete_calls deliver_calls thread_calls intro: same_calls)

lemma one_call:
  assumes "bdev_reach [()] b"
  shows "length (user_calls b) \<le> 1" "bdev_work b = 0 \<Longrightarrow> length (user_calls b) = 1"
proof -
  have "mset [()] = mset (map fst (user_calls b)) + owed_cbs (ctxs b)" using bd.accounted [OF assms] .
  from arg_cong [OF this, of size] have s: "1 = length (user_calls b) + size (owed_cbs (ctxs b))" by simp
  then show "length (user_calls b) \<le> 1" by simp
  assume "bdev_work b = 0"
  then have "ctxs b = Map.empty" using no_work_idle [OF assms] by simp
  then show "length (user_calls b) = 1" using s by simp
qed

section \<open>mkfs\<close>

text \<open>\<open>mk_failed\<close>: for each call of \<open>shutdown_cb\<close> whether it printed the failure; \<open>mk_stops\<close>: the
  arguments of \<open>spdk_app_stop\<close>, which become the exit code.\<close>

record mkfs =
  mk_bdev :: "unit bdev_state"
  mk_bdev_name :: string
  g_cluster_size :: u64
  mk_failed :: "bool list"
  mk_stops :: "int list"

definition shutdown_cb :: "int \<Rightarrow> mkfs \<Rightarrow> mkfs" where
  "shutdown_cb fserrno st = st\<lparr>mk_failed := mk_failed st @ [fserrno \<noteq> 0], mk_stops := mk_stops st @ [0]\<rparr>"

definition mkfs_goes_to :: "unit bdev_state \<Rightarrow> mkfs \<Rightarrow> mkfs" where
  "mkfs_goes_to b st = run_new shutdown_cb (mk_bdev st) b (st\<lparr>mk_bdev := b\<rparr>)"

text \<open>The size is cut to 32 bits in the call.\<close>

definition spdk_mkfs_run :: "thread_id \<Rightarrow> mkfs \<Rightarrow> mkfs" where
  "spdk_mkfs_run t st = mkfs_goes_to (spdk_blobfs_bdev_create t (mk_bdev_name st) (ucast (g_cluster_size st)) () (mk_bdev st)) st"

text \<open>The result of \<open>spdk_parse_capacity\<close> is not looked at.\<close>

definition mkfs_parse_arg :: "char \<Rightarrow> char \<Rightarrow> string \<Rightarrow> mkfs \<Rightarrow> mkfs \<times> int" where
  "mkfs_parse_arg c0 ch arg st =
     (if ch = CHR ''C'' then (case spdk_parse_capacity arg (g_cluster_size st) c0 0 of (cap, has_prefix, ret) \<Rightarrow> (st\<lparr>g_cluster_size := cap\<rparr>, 0))
      else (st, - 22))"

inductive mkfs_reach :: "mkfs \<Rightarrow> bool" where
  run: "bdev_reach [] (mk_bdev st) \<Longrightarrow> user_calls (mk_bdev st) = [] \<Longrightarrow> mk_failed st = [] \<Longrightarrow> mk_stops st = [] \<Longrightarrow> mkfs_reach (spdk_mkfs_run t st)"
| step: "mkfs_reach st \<Longrightarrow> bdev_step (mk_bdev st) b \<Longrightarrow> mkfs_reach (mkfs_goes_to b st)"

lemma shutdown_fold:
  "fold (\<lambda>(u, e). shutdown_cb e) cs st = st\<lparr>mk_failed := mk_failed st @ map (\<lambda>c. snd c \<noteq> 0) cs, mk_stops := mk_stops st @ map (\<lambda>_. 0) cs\<rparr>"
  by (induction cs arbitrary: st) (auto simp: shutdown_cb_def)

definition mkfs_inv :: "mkfs \<Rightarrow> bool" where
  "mkfs_inv st \<longleftrightarrow> mk_failed st = map (\<lambda>c. snd c \<noteq> 0) (user_calls (mk_bdev st)) \<and> mk_stops st = map (\<lambda>_. 0) (user_calls (mk_bdev st))"

lemma mkfs_goes_inv: "mkfs_inv st \<Longrightarrow> more_calls (mk_bdev st) b \<Longrightarrow> mkfs_inv (mkfs_goes_to b st) \<and> mk_bdev (mkfs_goes_to b st) = b"
  by (auto simp: mkfs_goes_to_def run_new_def shutdown_fold mkfs_inv_def more_calls_def)

lemma mkfs_reach_inv: "mkfs_reach st \<Longrightarrow> mkfs_inv st \<and> bdev_reach [()] (mk_bdev st)"
proof (induction rule: mkfs_reach.induct)
  case (run st t)
  then have "mkfs_inv st" by (simp add: mkfs_inv_def)
  from mkfs_goes_inv [OF this start_calls(2)] show ?case using bdev_reach.create [OF run(1)] by (simp add: spdk_mkfs_run_def)
next
  case (step st b)
  then show ?case using mkfs_goes_inv [of st b] bdev_step_calls [of "mk_bdev st" b] bdev_step_reach [of "mk_bdev st" b] by simp
qed

text \<open>C26: \<open>mkfs\<close> stops once at most, and once it has nothing left to wait for exactly once; it then
  has printed a failure exactly when the creation failed.  But it stops with 0 in either case, so that
  the exit code of the program does not tell them apart.\<close>

theorem mkfs_stops_once:
  assumes "mkfs_reach st"
  shows "length (mk_stops st) \<le> 1 \<and> set (mk_stops st) \<subseteq> {0} \<and>
    (bdev_work (mk_bdev st) = 0 \<longrightarrow> mk_stops st = [0] \<and> (\<exists>e. user_calls (mk_bdev st) = [((), e)] \<and> mk_failed st = [e \<noteq> 0]))"
proof -
  have i: "mkfs_inv st" "bdev_reach [()] (mk_bdev st)" using mkfs_reach_inv [OF assms] by auto
  have "mk_stops st = [0] \<and> (\<exists>e. user_calls (mk_bdev st) = [((), e)] \<and> mk_failed st = [e \<noteq> 0])" if "bdev_work (mk_bdev st) = 0"
    using one_call(2) [OF i(2) that] i(1) by (auto simp: mkfs_inv_def length_Suc_conv)
  then show ?thesis using one_call(1) [OF i(2)] i(1) by (auto simp: mkfs_inv_def)
qed

definition sample_mkfs :: mkfs where
  "sample_mkfs = \<lparr>mk_bdev = \<lparr>ctxs = Map.empty, next_ctx = 0, bfuses = Map.empty, next_bfuse = 0, answers = (\<lambda>_. [])(Env_create_dev := [- 19]), devs = [], next_dev = 0,
     fuse_handles = [], next_handle = 0, mounts = [], exits = [], fuse_threads = [], fs_pending = [], thread_msgs = [], user_calls = []\<rparr>,
     mk_bdev_name = ''Nvme0'', g_cluster_size = 0, mk_failed = [], mk_stops = []\<rparr>"

theorem mkfs_stops_once_witness:
  "mk_stops (spdk_mkfs_run 0 sample_mkfs) = [0] \<and> mk_failed (spdk_mkfs_run 0 sample_mkfs) = [True]"
proof -
  have b: "bdev_reach [] (mk_bdev sample_mkfs)" by (rule bdev_reach.boot) (simp_all add: sample_mkfs_def)
  have r: "mkfs_reach (spdk_mkfs_run 0 sample_mkfs)" by (rule mkfs_reach.run [OF b]) (simp_all add: sample_mkfs_def)
  let ?b = "spdk_blobfs_bdev_create 0 ''Nvme0'' 0 () (mk_bdev sample_mkfs)"
  have c: "user_calls ?b = [((), - 19)]" "jobs ?b = {#}"
    by (simp_all add: sample_mkfs_def spdk_blobfs_bdev_create_def alloc_ctx_def env_def spdk_bdev_create_bs_dev_ext_def set_ctx_def invalid_def
        call_bdev_user_def free_ctx_def jobs_def)
  have "mk_bdev (spdk_mkfs_run 0 sample_mkfs) = ?b"
    by (simp add: spdk_mkfs_run_def mkfs_goes_to_def run_new_def shutdown_fold) (simp add: sample_mkfs_def)
  with mkfs_stops_once [OF r] c show ?thesis by (simp add: bdev_work_def)
qed

section \<open>Mounting\<close>

text \<open>\<open>ft_done\<close>: for each call of \<open>fuse_run_cb\<close> whether the mount succeeded.\<close>

record fuse_tool =
  ft_bdev :: "unit bdev_state"
  ft_bdev_name :: string
  ft_mountpoint :: string
  ft_done :: "bool list"
  ft_stops :: "int list"

definition fuse_run_cb :: "int \<Rightarrow> fuse_tool \<Rightarrow> fuse_tool" where
  "fuse_run_cb fserrno st =
     (if fserrno \<noteq> 0 then st\<lparr>ft_done := ft_done st @ [False], ft_stops := ft_stops st @ [0]\<rparr> else st\<lparr>ft_done := ft_done st @ [True]\<rparr>)"

definition fuse_goes_to :: "unit bdev_state \<Rightarrow> fuse_tool \<Rightarrow> fuse_tool" where
  "fuse_goes_to b st = run_new fuse_run_cb (ft_bdev st) b (st\<lparr>ft_bdev := b\<rparr>)"

definition spdk_fuse_run :: "thread_id \<Rightarrow> fuse_tool \<Rightarrow> fuse_tool" where
  "spdk_fuse_run t st = fuse_goes_to (spdk_blobfs_bdev_mount t (ft_bdev_name st) (ft_mountpoint st) () (ft_bdev st)) st"

text \<open>A signal.\<close>

definition spdk_fuse_shutdown :: "fuse_tool \<Rightarrow> fuse_tool" where
  "spdk_fuse_shutdown st = st\<lparr>ft_stops := ft_stops st @ [0]\<rparr>"

inductive fuse_tool_reach :: "nat \<Rightarrow> fuse_tool \<Rightarrow> bool" where
  run: "bdev_reach [] (ft_bdev st) \<Longrightarrow> user_calls (ft_bdev st) = [] \<Longrightarrow> ft_done st = [] \<Longrightarrow> ft_stops st = [] \<Longrightarrow> fuse_tool_reach 0 (spdk_fuse_run t st)"
| step: "fuse_tool_reach k st \<Longrightarrow> bdev_step (ft_bdev st) b \<Longrightarrow> fuse_tool_reach k (fuse_goes_to b st)"
| signal: "fuse_tool_reach k st \<Longrightarrow> fuse_tool_reach (Suc k) (spdk_fuse_shutdown st)"

lemma fuse_run_fold: "\<exists>st'. fold (\<lambda>(u, e). fuse_run_cb e) cs st = st' \<and> ft_bdev st' = ft_bdev st \<and>
    ft_done st' = ft_done st @ map (\<lambda>c. snd c = 0) cs \<and> length (ft_stops st') = length (ft_stops st) + length (filter (\<lambda>c. snd c \<noteq> 0) cs)"
  by (induction cs arbitrary: st) (auto simp: fuse_run_cb_def)

definition fuse_tool_inv :: "nat \<Rightarrow> fuse_tool \<Rightarrow> bool" where
  "fuse_tool_inv k st \<longleftrightarrow> ft_done st = map (\<lambda>c. snd c = 0) (user_calls (ft_bdev st)) \<and>
     length (ft_stops st) = k + length (filter (\<lambda>c. snd c \<noteq> 0) (user_calls (ft_bdev st)))"

lemma fuse_goes_inv: "fuse_tool_inv k st \<Longrightarrow> more_calls (ft_bdev st) b \<Longrightarrow> fuse_tool_inv k (fuse_goes_to b st) \<and> ft_bdev (fuse_goes_to b st) = b"
  using fuse_run_fold [of "drop (length (user_calls (ft_bdev st))) (user_calls b)" "st\<lparr>ft_bdev := b\<rparr>"]
  by (auto simp: fuse_goes_to_def run_new_def fuse_tool_inv_def more_calls_def)

lemma fuse_tool_reach_inv: "fuse_tool_reach k st \<Longrightarrow> fuse_tool_inv k st \<and> bdev_reach [()] (ft_bdev st)"
proof (induction rule: fuse_tool_reach.induct)
  case (run st t)
  then have "fuse_tool_inv 0 st" by (simp add: fuse_tool_inv_def)
  from fuse_goes_inv [OF this start_calls(3)] show ?case using bdev_reach.mount [OF run(1)] by (simp add: spdk_fuse_run_def)
next
  case (step k st b)
  then show ?case using fuse_goes_inv [of k st b] bdev_step_calls [of "ft_bdev st" b] bdev_step_reach [of "ft_bdev st" b] by simp
next
  case (signal k st)
  then show ?case by (simp add: fuse_tool_inv_def spdk_fuse_shutdown_def)
qed

text \<open>The mounting tool stops by itself exactly when the mount has failed, and otherwise once for each
  signal.\<close>

theorem fuse_tool_stops:
  assumes "fuse_tool_reach k st"
  shows "length (ft_done st) \<le> 1 \<and> length (ft_stops st) = k + (if ft_done st = [False] then 1 else 0)"
proof -
  have i: "fuse_tool_inv k st" "bdev_reach [()] (ft_bdev st)" using fuse_tool_reach_inv [OF assms] by auto
  have "user_calls (ft_bdev st) = [] \<or> (\<exists>e. user_calls (ft_bdev st) = [((), e)])"
    using one_call(1) [OF i(2)] by (cases "user_calls (ft_bdev st)") auto
  then show ?thesis using i(1) by (auto simp: fuse_tool_inv_def)
qed

end
