(* ===== verification/Multi_IO.thy ===== *)
theory Multi_IO
  imports NBFS_Prelude "HOL-Library.Multiset"
begin

text \<open>
  The benchmark \<open>test_multi_IO.c\<close> (\<open>NBFS2/apps/multiIO\<close> and, the same up to line ends,
  \<open>spdk_NBFS/app/multiIO\<close>): four streams, each of which creates a blob, writes it, reads it
  back, compares and deletes it, all of them interleaved on one SPDK thread.

  The blobstore is the environment: a call is added to \<open>mio_pending\<close> with its callback and
  completed later, in any order.  \<open>malloc\<close> leaves a struct with the contents \<open>garbage\<close> has for
  it, \<open>spdk_malloc\<close> a buffer with \<open>dma_garbage\<close>; the next elements of \<open>mio_malloc\<close>,
  \<open>mio_dma\<close> and \<open>mio_channel\<close> say whether an allocation succeeds, \<open>clock\<close> has the times
  \<open>clock_gettime\<close> returns.
\<close>

section \<open>Data\<close>

definition N_CLUSTER :: u64 where "N_CLUSTER = 2"
definition IO_NUM :: nat where "IO_NUM = 4"

type_synonym mio_ptr = nat

record test_multi_io_t =
  mio_bs :: "nat option"
  mio_blob :: nat
  mio_blobid :: u64
  mio_chan :: "nat option"
  mio_read_buff :: "nat option"
  mio_write_buff :: "nat option"
  mio_io_unit_size :: u64
  mio_cluster_size :: u64
  mio_rc :: int

record timespec =
  tv_sec :: int
  tv_nsec :: int

datatype mio_call = Mc_init | Mc_create | Mc_open u64 | Mc_resize nat u64 | Mc_sync_md nat
  | Mc_write nat nat nat u64 u64 | Mc_read nat nat nat u64 u64 | Mc_close nat | Mc_delete u64 | Mc_unload nat

datatype mio_cb = Mio_bs_init mio_ptr | Mio_create mio_ptr | Mio_open mio_ptr | Mio_resize mio_ptr | Mio_sync mio_ptr
  | Mio_write mio_ptr | Mio_read mio_ptr | Mio_delete_blob mio_ptr | Mio_delete mio_ptr | Mio_unload mio_ptr

text \<open>What the blobstore passes to a callback; a read has filled the buffer with \<open>mr_data\<close>.\<close>

record mio_result =
  mr_errno :: int
  mr_bs :: nat
  mr_id :: u64
  mr_blob :: nat
  mr_data :: "u8 list"

record mio_state =
  mios :: "mio_ptr \<rightharpoonup> test_multi_io_t"
  next_mio :: mio_ptr
  garbage :: "mio_ptr \<Rightarrow> test_multi_io_t"
  mio_malloc :: "bool list"
  mio_dma :: "bool list"
  mio_channel :: "bool list"
  dma :: "nat \<rightharpoonup> u8 list"
  next_dma :: nat
  dma_garbage :: "nat \<Rightarrow> nat \<Rightarrow> u8"
  open_chans :: "nat list"
  next_chan :: nat
  store_io_unit_size :: u64
  store_cluster_size :: u64
  fini_count :: nat
  clock :: "timespec list"
  ts1 :: timespec
  ts2 :: timespec
  elapsed :: "(int \<times> int) list"
  mio_pending :: "(mio_call \<times> mio_cb) list"
  stops :: "int list"

section \<open>Primitives\<close>

definition mio_post :: "mio_call \<Rightarrow> mio_cb \<Rightarrow> mio_state \<Rightarrow> mio_state" where
  "mio_post c cb st = st\<lparr>mio_pending := mio_pending st @ [(c, cb)]\<rparr>"

definition set_mio :: "mio_ptr \<Rightarrow> test_multi_io_t \<Rightarrow> mio_state \<Rightarrow> mio_state" where
  "set_mio p x st = st\<lparr>mios := (mios st)(p \<mapsto> x)\<rparr>"

definition app_stop :: "int \<Rightarrow> mio_state \<Rightarrow> mio_state" where
  "app_stop e st = st\<lparr>stops := stops st @ [e]\<rparr>"

definition mio_spdk_malloc :: "nat \<Rightarrow> mio_state \<Rightarrow> nat option \<times> mio_state" where
  "mio_spdk_malloc n st = (case mio_dma st of
     False # bs \<Rightarrow> (None, st\<lparr>mio_dma := bs\<rparr>)
   | bs \<Rightarrow> (Some (next_dma st), st\<lparr>mio_dma := tl bs,
       dma := (dma st)(next_dma st \<mapsto> map (dma_garbage st (next_dma st)) [0..<n]), next_dma := next_dma st + 1\<rparr>))"

text \<open>\<open>spdk_free\<close> of NULL does nothing, of anything but a buffer it is a crash.\<close>

definition mio_spdk_free :: "nat option \<Rightarrow> mio_state \<Rightarrow> mio_state option" where
  "mio_spdk_free b st = (case b of
     None \<Rightarrow> Some st
   | Some b \<Rightarrow> do { _ \<leftarrow> dma st b; Some (st\<lparr>dma := (dma st)(b := None)\<rparr>) })"

definition alloc_channel :: "mio_state \<Rightarrow> nat option \<times> mio_state" where
  "alloc_channel st = (case mio_channel st of
     False # bs \<Rightarrow> (None, st\<lparr>mio_channel := bs\<rparr>)
   | bs \<Rightarrow> (Some (next_chan st), st\<lparr>mio_channel := tl bs, open_chans := next_chan st # open_chans st, next_chan := next_chan st + 1\<rparr>))"

text \<open>\<open>spdk_bs_free_io_channel\<close> of something that is not an open channel is a crash.\<close>

definition free_channel :: "nat \<Rightarrow> mio_state \<Rightarrow> mio_state option" where
  "free_channel c st = do { oassert (c \<in> set (open_chans st)); Some (st\<lparr>open_chans := remove1 c (open_chans st)\<rparr>) }"

definition clock_gettime :: "mio_state \<Rightarrow> timespec \<times> mio_state" where
  "clock_gettime st = (case clock st of [] \<Rightarrow> (\<lparr>tv_sec = 0, tv_nsec = 0\<rparr>, st) | t # ts \<Rightarrow> (t, st\<lparr>clock := ts\<rparr>))"

text \<open>The number of io units of a transfer; a division by 0 is a crash.\<close>

definition io_units :: "test_multi_io_t \<Rightarrow> u64 option" where
  "io_units x = do { oassert (mio_io_unit_size x \<noteq> 0); Some (mio_cluster_size x * N_CLUSTER div mio_io_unit_size x) }"

abbreviation (input) ENOMEM :: int where "ENOMEM \<equiv> 12"

section \<open>The end of a stream\<close>

definition mio_unload_complete :: "mio_ptr \<Rightarrow> int \<Rightarrow> mio_state \<Rightarrow> mio_state option" where
  "mio_unload_complete p bserrno st = do {
     x \<leftarrow> mios st p;
     let x = (if bserrno \<noteq> 0 then x\<lparr>mio_rc := bserrno\<rparr> else x);
     let st = app_stop (mio_rc x) (set_mio p x st);
     st \<leftarrow> mio_spdk_free (mio_read_buff x) st;
     st \<leftarrow> mio_spdk_free (mio_write_buff x) st;
     Some (st\<lparr>mios := (mios st)(p := None)\<rparr>) }"

definition mio_unload_bs :: "mio_ptr \<Rightarrow> int \<Rightarrow> mio_state \<Rightarrow> mio_state option" where
  "mio_unload_bs p bserrno st = do {
     x \<leftarrow> mios st p;
     let x = (if bserrno \<noteq> 0 then x\<lparr>mio_rc := bserrno\<rparr> else x);
     let st = set_mio p x st;
     case mio_bs x of
       None \<Rightarrow> Some (app_stop bserrno st)
     | Some bs \<Rightarrow> do {
         st \<leftarrow> (case mio_chan x of None \<Rightarrow> Some st | Some c \<Rightarrow> free_channel c st);
         let st = st\<lparr>fini_count := fini_count st + 1\<rparr>;
         Some (if fini_count st = IO_NUM then mio_post (Mc_unload bs) (Mio_unload p) st else st) } }"

definition mio_delete_complete :: "mio_ptr \<Rightarrow> int \<Rightarrow> mio_state \<Rightarrow> mio_state option" where
  "mio_delete_complete p bserrno st = (if bserrno \<noteq> 0 then mio_unload_bs p bserrno st else mio_unload_bs p 0 st)"

definition mio_delete_blob :: "mio_ptr \<Rightarrow> int \<Rightarrow> mio_state \<Rightarrow> mio_state option" where
  "mio_delete_blob p bserrno st =
     (if bserrno \<noteq> 0 then mio_unload_bs p bserrno st
      else do { x \<leftarrow> mios st p; _ \<leftarrow> mio_bs x; Some (mio_post (Mc_delete (mio_blobid x)) (Mio_delete p) st) })"

section \<open>Reading\<close>

text \<open>\<open>memcmp\<close> of the first \<open>cluster_size\<close> bytes; comparing behind a buffer is a crash.\<close>

definition mio_read_complete :: "mio_ptr \<Rightarrow> int \<Rightarrow> mio_state \<Rightarrow> mio_state option" where
  "mio_read_complete p bserrno st =
     (if bserrno \<noteq> 0 then mio_unload_bs p bserrno st
      else do {
        x \<leftarrow> mios st p;
        wb \<leftarrow> mio_write_buff x; w \<leftarrow> dma st wb;
        rb \<leftarrow> mio_read_buff x; r \<leftarrow> dma st rb;
        let n = unat (mio_cluster_size x);
        oassert (n \<le> length w \<and> n \<le> length r);
        if take n w \<noteq> take n r then mio_unload_bs p (- 1) st
        else Some (mio_post (Mc_close (mio_blob x)) (Mio_delete_blob p) st) })"

definition mio_read_blob :: "mio_ptr \<Rightarrow> mio_state \<Rightarrow> mio_state option" where
  "mio_read_blob p st = do {
     x \<leftarrow> mios st p;
     let (b, st) = mio_spdk_malloc (unat (mio_cluster_size x * N_CLUSTER)) st;
     let x = x\<lparr>mio_read_buff := b\<rparr>;
     let st = set_mio p x st;
     case b of
       None \<Rightarrow> mio_unload_bs p (- ENOMEM) st
     | Some rb \<Rightarrow> do {
         n \<leftarrow> io_units x;
         ch \<leftarrow> mio_chan x;
         Some (mio_post (Mc_read (mio_blob x) ch rb 0 n) (Mio_read p) st) } }"

text \<open>\<open>ts2\<close> with the borrow for its nanoseconds, and the time since \<open>ts1\<close> that is printed, in
  seconds and nanoseconds.\<close>

definition borrow :: "timespec \<Rightarrow> timespec \<Rightarrow> timespec" where
  "borrow t1 t2 = (if tv_nsec t2 < tv_nsec t1 then t2\<lparr>tv_nsec := tv_nsec t2 + 1000000000, tv_sec := tv_sec t2 - 1\<rparr> else t2)"

definition mio_cal_time :: "mio_ptr \<Rightarrow> mio_state \<Rightarrow> mio_state option" where
  "mio_cal_time p st =
     (let st = st\<lparr>fini_count := fini_count st + 1\<rparr>;
          st = (if fini_count st = IO_NUM
                then let st = st\<lparr>fini_count := 0\<rparr>; (t, st) = clock_gettime st; t2 = borrow (ts1 st) t
                     in st\<lparr>ts2 := t2, elapsed := elapsed st @ [(tv_sec t2 - tv_sec (ts1 st), tv_nsec t2 - tv_nsec (ts1 st))]\<rparr>
                else st)
      in mio_read_blob p st)"

section \<open>Writing\<close>

definition mio_write_complete :: "mio_ptr \<Rightarrow> int \<Rightarrow> mio_state \<Rightarrow> mio_state option" where
  "mio_write_complete p bserrno st = (if bserrno \<noteq> 0 then mio_unload_bs p bserrno st else mio_cal_time p st)"

definition mio_blob_write :: "mio_ptr \<Rightarrow> mio_state \<Rightarrow> mio_state option" where
  "mio_blob_write p st = do {
     x \<leftarrow> mios st p;
     let sz = unat (mio_cluster_size x * N_CLUSTER);
     let (b, st) = mio_spdk_malloc sz st;
     let x = x\<lparr>mio_write_buff := b\<rparr>;
     let st = set_mio p x st;
     case b of
       None \<Rightarrow> mio_unload_bs p (- ENOMEM) st
     | Some wb \<Rightarrow> do {
         d \<leftarrow> dma st wb;
         let n = unat (mio_cluster_size x);
         oassert (n \<le> sz);
         let st = st\<lparr>dma := (dma st)(wb \<mapsto> replicate n 0x5a @ drop n d)\<rparr>;
         let (ch, st) = alloc_channel st;
         let x = x\<lparr>mio_chan := ch\<rparr>;
         let st = set_mio p x st;
         case ch of
           None \<Rightarrow> mio_unload_bs p (- ENOMEM) st
         | Some c \<Rightarrow> do { n \<leftarrow> io_units x; Some (mio_post (Mc_write (mio_blob x) c wb 0 n) (Mio_write p) st) } } }"

definition mio_sync_complete :: "mio_ptr \<Rightarrow> int \<Rightarrow> mio_state \<Rightarrow> mio_state option" where
  "mio_sync_complete p bserrno st = (if bserrno \<noteq> 0 then mio_unload_bs p bserrno st else mio_blob_write p st)"

definition mio_resize_complete :: "mio_ptr \<Rightarrow> int \<Rightarrow> mio_state \<Rightarrow> mio_state option" where
  "mio_resize_complete p bserrno st =
     (if bserrno \<noteq> 0 then mio_unload_bs p bserrno st
      else do { x \<leftarrow> mios st p; Some (mio_post (Mc_sync_md (mio_blob x)) (Mio_sync p) st) })"

definition mio_open_complete :: "mio_ptr \<Rightarrow> nat \<Rightarrow> int \<Rightarrow> mio_state \<Rightarrow> mio_state option" where
  "mio_open_complete p b bserrno st =
     (if bserrno \<noteq> 0 then mio_unload_bs p bserrno st
      else do { x \<leftarrow> mios st p; Some (mio_post (Mc_resize b N_CLUSTER) (Mio_resize p) (set_mio p (x\<lparr>mio_blob := b\<rparr>) st)) })"

definition mio_blob_create_complete :: "mio_ptr \<Rightarrow> u64 \<Rightarrow> int \<Rightarrow> mio_state \<Rightarrow> mio_state option" where
  "mio_blob_create_complete p i bserrno st =
     (if bserrno \<noteq> 0 then mio_unload_bs p bserrno st
      else do { x \<leftarrow> mios st p; _ \<leftarrow> mio_bs x; Some (mio_post (Mc_open i) (Mio_open p) (set_mio p (x\<lparr>mio_blobid := i\<rparr>) st)) })"

definition mio_create_blob :: "mio_ptr \<Rightarrow> mio_state \<Rightarrow> mio_state option" where
  "mio_create_blob p st = do { x \<leftarrow> mios st p; _ \<leftarrow> mio_bs x; Some (mio_post Mc_create (Mio_create p) st) }"

section \<open>Starting\<close>

text \<open>The three loops of \<open>bs_init_complete\<close>: allocating, filling in and starting the structs.  The
  cluster size of a stream is set to the io unit size.\<close>

fun mio_alloc_args :: "nat \<Rightarrow> mio_state \<Rightarrow> mio_ptr list option \<times> mio_state" where
  "mio_alloc_args 0 st = (Some [], st)"
| "mio_alloc_args (Suc n) st = (case mio_malloc st of
     False # bs \<Rightarrow> (None, st\<lparr>mio_malloc := bs\<rparr>)
   | bs \<Rightarrow> (let p = next_mio st;
                st = set_mio p (garbage st p) (st\<lparr>mio_malloc := tl bs, next_mio := p + 1\<rparr>)
            in case mio_alloc_args n st of (None, st) \<Rightarrow> (None, st) | (Some ps, st) \<Rightarrow> (Some (p # ps), st)))"

fun mio_init_args :: "test_multi_io_t \<Rightarrow> mio_ptr list \<Rightarrow> mio_state \<Rightarrow> mio_state option" where
  "mio_init_args m [] st = Some st"
| "mio_init_args m (p # ps) st = do {
     x \<leftarrow> mios st p;
     mio_init_args m ps (set_mio p (x\<lparr>mio_bs := mio_bs m, mio_io_unit_size := mio_io_unit_size m, mio_cluster_size := mio_io_unit_size m\<rparr>) st) }"

fun mio_start_all :: "mio_ptr list \<Rightarrow> mio_state \<Rightarrow> mio_state option" where
  "mio_start_all [] st = Some st"
| "mio_start_all (p # ps) st = do { st \<leftarrow> mio_create_blob p st; mio_start_all ps st }"

definition mio_bs_init_complete :: "mio_ptr \<Rightarrow> nat \<Rightarrow> int \<Rightarrow> mio_state \<Rightarrow> mio_state option" where
  "mio_bs_init_complete m bs bserrno st =
     (if bserrno \<noteq> 0 then mio_unload_bs m bserrno st
      else do {
        x \<leftarrow> mios st m;
        let x = x\<lparr>mio_bs := Some bs, mio_io_unit_size := store_io_unit_size st, mio_cluster_size := store_cluster_size st\<rparr>;
        let st = set_mio m x st;
        case mio_alloc_args IO_NUM st of
          (None, st) \<Rightarrow> Some (app_stop (- 1) st)
        | (Some ps, st) \<Rightarrow> do {
            st \<leftarrow> mio_init_args x ps st;
            let (t, st) = clock_gettime st;
            mio_start_all ps (st\<lparr>ts1 := t\<rparr>) } })"

text \<open>\<open>ret\<close> is the result of \<open>spdk_bdev_create_bs_dev_ext\<close>.\<close>

definition mio_test_start :: "mio_ptr \<Rightarrow> int \<Rightarrow> mio_state \<Rightarrow> mio_state" where
  "mio_test_start m ret st = (if ret \<noteq> 0 then app_stop (- 1) st else mio_post Mc_init (Mio_bs_init m) st)"

text \<open>\<open>main\<close> up to the call of \<open>test_start\<close>: with three arguments and memory, a zeroed struct; otherwise
  the value \<open>main\<close> returns.\<close>

definition zero_mio :: test_multi_io_t where
  "zero_mio = \<lparr>mio_bs = None, mio_blob = 0, mio_blobid = 0, mio_chan = None, mio_read_buff = None, mio_write_buff = None,
     mio_io_unit_size = 0, mio_cluster_size = 0, mio_rc = 0\<rparr>"

definition mio_main :: "nat \<Rightarrow> bool \<Rightarrow> int \<Rightarrow> mio_state \<Rightarrow> mio_state \<times> int option" where
  "mio_main argc calloc_ok ret st =
     (if argc \<noteq> 3 then (st, Some 0)
      else if \<not> calloc_ok then (st, Some (- ENOMEM))
      else let m = next_mio st
           in (mio_test_start m ret (set_mio m zero_mio st\<lparr>next_mio := m + 1\<rparr>), None))"

section \<open>Completion of calls\<close>

text \<open>A read that has succeeded has filled its buffer.\<close>

definition fill_read :: "mio_call \<Rightarrow> mio_result \<Rightarrow> mio_state \<Rightarrow> mio_state" where
  "fill_read c v st = (case c of
     Mc_read b ch rb off n \<Rightarrow> if mr_errno v = 0 then st\<lparr>dma := (dma st)(rb \<mapsto> mr_data v)\<rparr> else st
   | _ \<Rightarrow> st)"

fun run_mio :: "mio_cb \<Rightarrow> mio_result \<Rightarrow> mio_state \<Rightarrow> mio_state option" where
  "run_mio (Mio_bs_init p) v st = mio_bs_init_complete p (mr_bs v) (mr_errno v) st"
| "run_mio (Mio_create p) v st = mio_blob_create_complete p (mr_id v) (mr_errno v) st"
| "run_mio (Mio_open p) v st = mio_open_complete p (mr_blob v) (mr_errno v) st"
| "run_mio (Mio_resize p) v st = mio_resize_complete p (mr_errno v) st"
| "run_mio (Mio_sync p) v st = mio_sync_complete p (mr_errno v) st"
| "run_mio (Mio_write p) v st = mio_write_complete p (mr_errno v) st"
| "run_mio (Mio_read p) v st = mio_read_complete p (mr_errno v) st"
| "run_mio (Mio_delete_blob p) v st = mio_delete_blob p (mr_errno v) st"
| "run_mio (Mio_delete p) v st = mio_delete_complete p (mr_errno v) st"
| "run_mio (Mio_unload p) v st = mio_unload_complete p (mr_errno v) st"

definition complete_mio :: "nat \<Rightarrow> mio_result \<Rightarrow> mio_state \<Rightarrow> mio_state option" where
  "complete_mio i v st = do {
     (c, cb) \<leftarrow> arr_get (mio_pending st) i;
     run_mio cb v (fill_read c v (st\<lparr>mio_pending := take i (mio_pending st) @ drop (Suc i) (mio_pending st)\<rparr>)) }"

end
