(* ===== verification/Multi_IO_Safety.thy ===== *)
theory Multi_IO_Safety
  imports Multi_IO
begin

text \<open>
  The benchmark in every interleaving of its four streams, when no call fails: it does not
  crash, each stream writes and finishes once, and the order of these events decides when the
  blobstore is unloaded.
\<close>

section \<open>Streams and events\<close>

text \<open>The streams share one counter for both the writes and the ends; these are the events.\<close>

datatype mio_event = Written mio_ptr | Finished mio_ptr

fun cb_ptr :: "mio_cb \<Rightarrow> mio_ptr" where
  "cb_ptr (Mio_bs_init p) = p"
| "cb_ptr (Mio_create p) = p"
| "cb_ptr (Mio_open p) = p"
| "cb_ptr (Mio_resize p) = p"
| "cb_ptr (Mio_sync p) = p"
| "cb_ptr (Mio_write p) = p"
| "cb_ptr (Mio_read p) = p"
| "cb_ptr (Mio_delete_blob p) = p"
| "cb_ptr (Mio_delete p) = p"
| "cb_ptr (Mio_unload p) = p"

fun event_of :: "mio_cb \<Rightarrow> mio_event list" where
  "event_of (Mio_write p) = [Written p]"
| "event_of (Mio_delete p) = [Finished p]"
| "event_of cb = []"

fun is_unload :: "mio_call \<times> mio_cb \<Rightarrow> bool" where
  "is_unload (Mc_unload bs, cb) \<longleftrightarrow> True"
| "is_unload (c, cb) \<longleftrightarrow> False"

definition stream_jobs :: "mio_state \<Rightarrow> mio_ptr \<Rightarrow> (mio_call \<times> mio_cb) list" where
  "stream_jobs st p = filter (\<lambda>j. \<not> is_unload j \<and> cb_ptr (snd j) = p) (mio_pending st)"

definition unloads :: "mio_state \<Rightarrow> nat" where
  "unloads st = length (filter is_unload (mio_pending st))"

text \<open>The counter, the number of unloads and the number of time measurements after the events.\<close>

fun count_event :: "nat \<times> nat \<times> nat \<Rightarrow> mio_event \<Rightarrow> nat \<times> nat \<times> nat" where
  "count_event (n, u, t) (Written p) = (if n + 1 = 4 then (0, u, t + 1) else (n + 1, u, t))"
| "count_event (n, u, t) (Finished p) = (n + 1, if n + 1 = 4 then u + 1 else u, t)"

definition counts :: "mio_event list \<Rightarrow> nat \<times> nat \<times> nat" where
  "counts tr = foldl count_event (0, 0, 0) tr"

lemma counts_simps: "counts [] = (0, 0, 0)" "counts (tr @ [e]) = count_event (counts tr) e"
  by (simp_all add: counts_def)

section \<open>Runs\<close>

text \<open>The state in which \<open>main\<close> starts: nothing is allocated, nothing will fail.\<close>

definition mio_booted :: "mio_state \<Rightarrow> bool" where
  "mio_booted st \<longleftrightarrow> mios st = Map.empty \<and> mio_pending st = [] \<and> mio_malloc st = [] \<and> mio_dma st = [] \<and> mio_channel st = [] \<and>
     fini_count st = 0 \<and> open_chans st = [] \<and> dma st = Map.empty \<and> elapsed st = [] \<and>
     0 < unat (store_io_unit_size st) \<and> unat (store_io_unit_size st) < 2 ^ 63"

definition streams :: "nat \<Rightarrow> mio_ptr list" where
  "streams n = [n + 1, n + 2, n + 3, n + 4]"

text \<open>What is read is what the stream has written.\<close>

fun reads_back :: "mio_state \<Rightarrow> mio_cb \<Rightarrow> mio_result \<Rightarrow> bool" where
  "reads_back st (Mio_read p) v \<longleftrightarrow> (\<exists>x wb. mios st p = Some x \<and> mio_write_buff x = Some wb \<and> dma st wb = Some (mr_data v))"
| "reads_back st cb v \<longleftrightarrow> True"

text \<open>\<open>n\<close> is the address of the struct of \<open>main\<close>.  The calls complete without an error, in any
  order, until the blobstore is unloaded.\<close>

inductive mio_run :: "nat \<Rightarrow> mio_event list \<Rightarrow> mio_state \<Rightarrow> bool" where
  start: "mio_booted st \<Longrightarrow> mio_main 3 True 0 st = (st1, None) \<Longrightarrow> mr_errno v = 0 \<Longrightarrow> complete_mio 0 v st1 = Some st2 \<Longrightarrow>
    mio_run (next_mio st) [] st2"
| step: "mio_run n tr st \<Longrightarrow> i < length (mio_pending st) \<Longrightarrow> \<not> is_unload (mio_pending st ! i) \<Longrightarrow> mr_errno v = 0 \<Longrightarrow>
    reads_back st (snd (mio_pending st ! i)) v \<Longrightarrow> complete_mio i v st = Some st' \<Longrightarrow>
    mio_run n (tr @ event_of (snd (mio_pending st ! i))) st'"

section \<open>The invariant\<close>

fun past_write :: "mio_cb \<Rightarrow> bool" where
  "past_write (Mio_read p) \<longleftrightarrow> True"
| "past_write (Mio_delete_blob p) \<longleftrightarrow> True"
| "past_write (Mio_delete p) \<longleftrightarrow> True"
| "past_write cb \<longleftrightarrow> False"

fun has_chan :: "mio_cb \<Rightarrow> bool" where
  "has_chan (Mio_write p) \<longleftrightarrow> True"
| "has_chan cb \<longleftrightarrow> past_write cb"

text \<open>A call and its callback belong together; the buffer of a read is that of the struct.\<close>

definition job_fits :: "test_multi_io_t \<Rightarrow> mio_call \<times> mio_cb \<Rightarrow> bool" where
  "job_fits x j \<longleftrightarrow> (case snd j of
     Mio_create p \<Rightarrow> fst j = Mc_create
   | Mio_open p \<Rightarrow> (\<exists>i. fst j = Mc_open i)
   | Mio_resize p \<Rightarrow> (\<exists>b k. fst j = Mc_resize b k)
   | Mio_sync p \<Rightarrow> (\<exists>b. fst j = Mc_sync_md b)
   | Mio_write p \<Rightarrow> (\<exists>b ch wb off k. fst j = Mc_write b ch wb off k)
   | Mio_read p \<Rightarrow> (\<exists>b ch rb off k. fst j = Mc_read b ch rb off k \<and> mio_read_buff x = Some rb)
   | Mio_delete_blob p \<Rightarrow> (\<exists>b. fst j = Mc_close b)
   | Mio_delete p \<Rightarrow> (\<exists>i. fst j = Mc_delete i)
   | _ \<Rightarrow> False)"

lemma job_fits_simps [simp]:
  "job_fits x (c, Mio_create p) \<longleftrightarrow> c = Mc_create" "job_fits x (c, Mio_open p) \<longleftrightarrow> (\<exists>i. c = Mc_open i)"
  "job_fits x (c, Mio_resize p) \<longleftrightarrow> (\<exists>b k. c = Mc_resize b k)" "job_fits x (c, Mio_sync p) \<longleftrightarrow> (\<exists>b. c = Mc_sync_md b)"
  "job_fits x (c, Mio_write p) \<longleftrightarrow> (\<exists>b ch wb off k. c = Mc_write b ch wb off k)"
  "job_fits x (c, Mio_read p) \<longleftrightarrow> (\<exists>b ch rb off k. c = Mc_read b ch rb off k \<and> mio_read_buff x = Some rb)"
  "job_fits x (c, Mio_delete_blob p) \<longleftrightarrow> (\<exists>b. c = Mc_close b)" "job_fits x (c, Mio_delete p) \<longleftrightarrow> (\<exists>i. c = Mc_delete i)"
  "\<not> job_fits x (c, Mio_bs_init p)" "\<not> job_fits x (c, Mio_unload p)"
  by (simp_all add: job_fits_def)

lemma job_fits_call: "job_fits x j \<Longrightarrow> \<not> is_unload j"
  by (cases j rule: is_unload.cases) (auto simp: job_fits_def split: mio_cb.splits)

definition struct_ok :: "mio_state \<Rightarrow> test_multi_io_t \<Rightarrow> bool" where
  "struct_ok st x \<longleftrightarrow> mio_bs x \<noteq> None \<and> mio_io_unit_size x = store_io_unit_size st \<and> mio_cluster_size x = store_io_unit_size st"

definition job_ok :: "mio_state \<Rightarrow> test_multi_io_t \<Rightarrow> mio_call \<times> mio_cb \<Rightarrow> bool" where
  "job_ok st x j \<longleftrightarrow> job_fits x j \<and> (has_chan (snd j) \<longrightarrow>
     (\<exists>ch wb. mio_chan x = Some ch \<and> ch \<in> set (open_chans st) \<and> mio_write_buff x = Some wb \<and> dma st wb \<noteq> None))"

text \<open>A stream has one pending call until it has finished.\<close>

definition stream_ok :: "mio_event list \<Rightarrow> mio_state \<Rightarrow> mio_ptr \<Rightarrow> bool" where
  "stream_ok tr st p \<longleftrightarrow> (\<exists>x. mios st p = Some x \<and> struct_ok st x \<and>
     (case stream_jobs st p of
        [] \<Rightarrow> Written p \<in> set tr \<and> Finished p \<in> set tr
      | [j] \<Rightarrow> job_ok st x j \<and> Finished p \<notin> set tr \<and> (Written p \<in> set tr \<longleftrightarrow> past_write (snd j))
      | _ \<Rightarrow> False))"

definition chan_of :: "mio_state \<Rightarrow> mio_ptr \<Rightarrow> nat option" where
  "chan_of st p = (case stream_jobs st p of [j] \<Rightarrow> if has_chan (snd j) then Option.bind (mios st p) mio_chan else None | _ \<Rightarrow> None)"

definition store_ok :: "mio_state \<Rightarrow> bool" where
  "store_ok st \<longleftrightarrow> mio_dma st = [] \<and> mio_channel st = [] \<and>
     0 < unat (store_io_unit_size st) \<and> unat (store_io_unit_size st) < 2 ^ 63 \<and>
     (\<forall>b w. dma st b = Some w \<longrightarrow> length w = 2 * unat (store_io_unit_size st)) \<and> (\<forall>c \<in> set (open_chans st). c < next_chan st)"

definition trace_ok :: "nat \<Rightarrow> mio_event list \<Rightarrow> bool" where
  "trace_ok n tr \<longleftrightarrow> distinct tr \<and> set tr \<subseteq> Written ` set (streams n) \<union> Finished ` set (streams n) \<and>
     (\<forall>p. tr \<noteq> [] \<longrightarrow> last tr = Written p \<longrightarrow> Finished p \<notin> set tr)"

definition mio_inv :: "nat \<Rightarrow> mio_event list \<Rightarrow> mio_state \<Rightarrow> bool" where
  "mio_inv n tr st \<longleftrightarrow> store_ok st \<and> trace_ok n tr \<and> (\<forall>p \<in> set (streams n). stream_ok tr st p) \<and>
     (\<forall>j \<in> set (mio_pending st). is_unload j \<or> cb_ptr (snd j) \<in> set (streams n)) \<and>
     (\<forall>p q c. p \<in> set (streams n) \<longrightarrow> q \<in> set (streams n) \<longrightarrow> chan_of st p = Some c \<longrightarrow> chan_of st q = Some c \<longrightarrow> p = q) \<and>
     counts tr = (fini_count st, unloads st, length (elapsed st))"

section \<open>One step\<close>

text \<open>What a handler of stream \<open>p\<close> that ends in \<open>st'\<close> leaves as it is.\<close>

definition others_kept :: "mio_ptr \<Rightarrow> mio_state \<Rightarrow> mio_state \<Rightarrow> bool" where
  "others_kept p st st' \<longleftrightarrow> (\<forall>q. q \<noteq> p \<longrightarrow> mios st' q = mios st q \<and> stream_jobs st' q = stream_jobs st q) \<and>
     dom (dma st) \<subseteq> dom (dma st') \<and> store_io_unit_size st' = store_io_unit_size st \<and>
     set (open_chans st) - set_option (chan_of st p) \<subseteq> set (open_chans st') \<and>
     (\<forall>c. chan_of st' p = Some c \<longrightarrow> chan_of st p = Some c \<or> c = next_chan st)"

lemma inv_after:
  assumes "mio_inv n tr st" "p \<in> set (streams n)" "others_kept p st st'" "store_ok st'" "trace_ok n (tr @ ev)"
    and "stream_ok (tr @ ev) st' p" "set ev \<subseteq> {Written p, Finished p}"
    and "counts (tr @ ev) = (fini_count st', unloads st', length (elapsed st'))"
    and "\<forall>j \<in> set (mio_pending st'). j \<in> set (mio_pending st) \<or> is_unload j \<or> cb_ptr (snd j) = p"
  shows "mio_inv n (tr @ ev) st'"
proof -
  have j: "job_ok st' x j" if "job_ok st x j" "stream_jobs st q = [j]" "mios st q = Some x" "q \<noteq> p" "q \<in> set (streams n)" for q x j
    unfolding job_ok_def
  proof (intro conjI impI)
    note ok = that(1)
    then show "job_fits x j" by (simp add: job_ok_def)
    assume h: "has_chan (snd j)"
    then obtain ch wb where c: "mio_chan x = Some ch" "ch \<in> set (open_chans st)" "mio_write_buff x = Some wb" "dma st wb \<noteq> None"
      using ok h unfolding job_ok_def by blast
    have "chan_of st q = Some ch" using that h c by (simp add: chan_of_def)
    then have "chan_of st p \<noteq> Some ch" using assms(1,2) that(4,5) unfolding mio_inv_def by blast
    then have "ch \<in> set (open_chans st')" using assms(3) c(2) by (auto simp: others_kept_def)
    moreover have "dma st' wb \<noteq> None" using assms(3) c(4) by (auto simp: others_kept_def)
    ultimately show "\<exists>ch wb. mio_chan x = Some ch \<and> ch \<in> set (open_chans st') \<and> mio_write_buff x = Some wb \<and> dma st' wb \<noteq> None"
      using c by blast
  qed
  have e: "Written q \<notin> set ev" "Finished q \<notin> set ev" if "q \<noteq> p" for q using assms(7) that by auto
  have s: "stream_ok (tr @ ev) st' q" if "q \<in> set (streams n)" "q \<noteq> p" for q
  proof -
    have "stream_ok tr st q" using assms(1) that(1) by (simp add: mio_inv_def)
    moreover have "mios st' q = mios st q" "stream_jobs st' q = stream_jobs st q" "store_io_unit_size st' = store_io_unit_size st"
      using assms(3) that(2) by (simp_all add: others_kept_def)
    ultimately obtain x where x: "mios st' q = Some x" "struct_ok st' x" "mios st q = Some x" "stream_jobs st' q = stream_jobs st q"
      and ok: "case stream_jobs st q of [] \<Rightarrow> Written q \<in> set tr \<and> Finished q \<in> set tr
        | [j] \<Rightarrow> job_ok st x j \<and> Finished q \<notin> set tr \<and> (Written q \<in> set tr \<longleftrightarrow> past_write (snd j)) | _ \<Rightarrow> False"
      by (auto simp: stream_ok_def struct_ok_def)
    from ok have "case stream_jobs st' q of [] \<Rightarrow> Written q \<in> set (tr @ ev) \<and> Finished q \<in> set (tr @ ev)
        | [j] \<Rightarrow> job_ok st' x j \<and> Finished q \<notin> set (tr @ ev) \<and> (Written q \<in> set (tr @ ev) \<longleftrightarrow> past_write (snd j)) | _ \<Rightarrow> False"
      using e [OF that(2)] j [OF _ _ x(3) that(2,1)] x(4) by (auto split: list.splits)
    then show ?thesis unfolding stream_ok_def using x(1,2) by blast
  qed
  have k: "chan_of st' q = chan_of st q" if "q \<noteq> p" for q
    using assms(3) that unfolding others_kept_def by (simp add: chan_of_def [of _ q] split: list.split)
  have fresh: "chan_of st q \<noteq> Some (next_chan st)" if "q \<in> set (streams n)" for q
  proof
    assume a: "chan_of st q = Some (next_chan st)"
    then obtain j x where "stream_jobs st q = [j]" "has_chan (snd j)" "mios st q = Some x" "mio_chan x = Some (next_chan st)"
      by (auto simp: chan_of_def bind_eq_Some_conv split: list.splits if_splits)
    moreover have "stream_ok tr st q" using assms(1) that by (simp add: mio_inv_def)
    ultimately have "next_chan st \<in> set (open_chans st)" by (auto simp: stream_ok_def job_ok_def)
    then show False using assms(1) by (auto simp: mio_inv_def store_ok_def)
  qed
  have u: "q = p" if "q \<in> set (streams n)" "chan_of st' p = Some c" "chan_of st' q = Some c" for q c
  proof (rule ccontr)
    assume "q \<noteq> p"
    then have "chan_of st q = Some c" using k that(3) by simp
    moreover from this have "chan_of st p = Some c" using assms(3) that(2) fresh [OF that(1)] by (auto simp: others_kept_def)
    ultimately show False using assms(1,2) that(1) \<open>q \<noteq> p\<close> unfolding mio_inv_def by blast
  qed
  have "q = r" if "q \<in> set (streams n)" "r \<in> set (streams n)" "chan_of st' q = Some c" "chan_of st' r = Some c" for q r c
  proof (cases "q = p \<or> r = p")
    case True
    then show ?thesis using u that by blast
  next
    case False
    then show ?thesis using that k assms(1) unfolding mio_inv_def by metis
  qed
  moreover have "\<forall>q \<in> set (streams n). stream_ok (tr @ ev) st' q" using s assms(6) by blast
  moreover have "\<forall>j \<in> set (mio_pending st'). is_unload j \<or> cb_ptr (snd j) \<in> set (streams n)"
    using assms(1,2,9) unfolding mio_inv_def by blast
  ultimately show ?thesis using assms(4,5,8) unfolding mio_inv_def by blast
qed

lemma stream_jobs_split:
  assumes "mio_pending st = ys @ j # zs" "stream_jobs st p = [j]" "\<not> is_unload j" "cb_ptr (snd j) = p" "mio_pending st' = ys @ zs @ js"
  shows "stream_jobs st' p = filter (\<lambda>j. \<not> is_unload j \<and> cb_ptr (snd j) = p) js"
    "q \<noteq> p \<Longrightarrow> stream_jobs st' q = stream_jobs st q @ filter (\<lambda>j. \<not> is_unload j \<and> cb_ptr (snd j) = q) js"
    "unloads st' = unloads st + length (filter is_unload js)"
proof -
  have "length (stream_jobs st p) = 1" using assms(2) by simp
  then have "filter (\<lambda>j. \<not> is_unload j \<and> cb_ptr (snd j) = p) (ys @ zs) = []"
    using assms(1,3,4) by (simp add: stream_jobs_def)
  then show "stream_jobs st' p = filter (\<lambda>j. \<not> is_unload j \<and> cb_ptr (snd j) = p) js"
    using assms(5) by (simp add: stream_jobs_def)
  show "q \<noteq> p \<Longrightarrow> stream_jobs st' q = stream_jobs st q @ filter (\<lambda>j. \<not> is_unload j \<and> cb_ptr (snd j) = q) js"
    using assms by (simp add: stream_jobs_def)
  show "unloads st' = unloads st + length (filter is_unload js)"
    using assms by (simp add: unloads_def)
qed

text \<open>The stream makes its next call.\<close>

lemma inv_post:
  assumes inv: "mio_inv n tr st" "mio_pending st = ys @ j # zs" "stream_jobs st p = [j]" "\<not> is_unload j" "cb_ptr (snd j) = p" "p \<in> set (streams n)"
    and st': "mio_pending st' = ys @ zs @ [j']" "cb_ptr (snd j') = p" "\<not> is_unload j'" "mios st' = (mios st)(p \<mapsto> x')"
      "store_io_unit_size st' = store_io_unit_size st" "struct_ok st x'" "job_ok st' x' j'" "store_ok st'"
    and kept: "dom (dma st) \<subseteq> dom (dma st')" "set (open_chans st) \<subseteq> set (open_chans st')"
      "\<And>ch. has_chan (snd j') \<Longrightarrow> mio_chan x' = Some ch \<Longrightarrow> chan_of st p = Some ch \<or> ch = next_chan st"
    and ev: "set ev \<subseteq> {Written p}" "trace_ok n (tr @ ev)" "Written p \<in> set (tr @ ev) \<longleftrightarrow> past_write (snd j')"
      "counts (tr @ ev) = (fini_count st', unloads st, length (elapsed st'))"
  shows "mio_inv n (tr @ ev) st'"
proof (rule inv_after [OF inv(1,6) _ st'(8) ev(2)])
  note sj = stream_jobs_split [OF inv(2-5) st'(1)]
  have jp: "stream_jobs st' p = [j']" using sj(1) st'(2,3) by simp
  show "others_kept p st st'"
    unfolding others_kept_def
  proof (intro conjI allI impI)
    show "mios st' q = mios st q" "stream_jobs st' q = stream_jobs st q" if "q \<noteq> p" for q
      using sj(2) [OF that] st'(2,4) that by simp_all
    show "chan_of st p = Some c \<or> c = next_chan st" if "chan_of st' p = Some c" for c
      using that jp st'(4) kept(3) [of c] by (auto simp: chan_of_def split: if_splits)
  qed (use kept st' in auto)
  have "stream_ok tr st p" using inv(1,6) by (simp add: mio_inv_def)
  then have "Finished p \<notin> set (tr @ ev)" using inv(3) ev(1) by (auto simp: stream_ok_def)
  then show "stream_ok (tr @ ev) st' p"
    using jp st' ev(3) by (auto simp: stream_ok_def struct_ok_def)
  show "set ev \<subseteq> {Written p, Finished p}" using ev(1) by auto
  show "counts (tr @ ev) = (fini_count st', unloads st', length (elapsed st'))" using ev(4) sj(3) st'(3) by simp
  show "\<forall>j \<in> set (mio_pending st'). j \<in> set (mio_pending st) \<or> is_unload j \<or> cb_ptr (snd j) = p"
    using inv(2) st'(1,2) by auto
qed

lemma trace_event:
  assumes "trace_ok n tr" "p \<in> set (streams n)" "e = Written p \<and> Written p \<notin> set tr \<and> Finished p \<notin> set tr \<or> e = Finished p \<and> Finished p \<notin> set tr"
  shows "trace_ok n (tr @ [e])"
  using assms by (auto simp: trace_ok_def)

lemma two_units: "unat U < 2 ^ 63 \<Longrightarrow> unat (U * N_CLUSTER) = 2 * unat U" for U :: u64
  by (simp add: N_CLUSTER_def unat_word_ariths)

lemma units_ok: "struct_ok st x \<Longrightarrow> store_ok st \<Longrightarrow> io_units x \<noteq> None"
  by (cases "store_io_unit_size st = 0") (auto simp: io_units_def struct_ok_def store_ok_def)

text \<open>The first part of a stream, up to the synchronisation of the metadata.\<close>

lemma step_early:
  assumes inv: "mio_inv n tr st" "mio_pending st = ys @ (c, cb) # zs" "stream_jobs st p = [(c, cb)]" "cb_ptr cb = p" "p \<in> set (streams n)"
    and x: "mios st p = Some x" "struct_ok st x" "job_fits x (c, cb)" "Written p \<notin> set tr" and e: "mr_errno v = 0"
    and cb: "cb \<in> {Mio_create p, Mio_open p, Mio_resize p}"
  shows "\<exists>st'. run_mio cb v (st\<lparr>mio_pending := ys @ zs\<rparr>) = Some st' \<and> mio_inv n tr st'"
proof -
  have u: "\<not> is_unload (c, cb)" using x(3) by (rule job_fits_call)
  have so: "store_ok st" "trace_ok n tr" "counts tr = (fini_count st, unloads st, length (elapsed st))" using inv(1) by (auto simp: mio_inv_def)
  have bs: "\<exists>b. mio_bs x = Some b" using x(2) by (auto simp: struct_ok_def)
  have post: "mio_inv n tr (st\<lparr>mios := (mios st)(p \<mapsto> x'), mio_pending := ys @ zs @ [(c', cb')]\<rparr>)"
    if "cb_ptr cb' = p" "\<not> is_unload (c', cb')" "job_fits x' (c', cb')" "\<not> has_chan cb'" "\<not> past_write cb'" "struct_ok st x'" for x' c' cb'
    using inv_post [OF inv(1-3) u _ inv(5), where st' = "st\<lparr>mios := (mios st)(p \<mapsto> x'), mio_pending := ys @ zs @ [(c', cb')]\<rparr>" and j' = "(c', cb')" and x' = x' and ev = "[]"]
      that so x inv(4) by (simp add: struct_ok_def job_ok_def store_ok_def)
  consider (create) "cb = Mio_create p" | (opened) "cb = Mio_open p" | (resize) "cb = Mio_resize p" using cb by blast
  then show ?thesis
  proof cases
    case create
    then show ?thesis using x e bs post [of "Mio_open p" "Mc_open (mr_id v)" "x\<lparr>mio_blobid := mr_id v\<rparr>"]
      by (auto simp: mio_blob_create_complete_def set_mio_def mio_post_def struct_ok_def)
  next
    case opened
    then show ?thesis using x e post [of "Mio_resize p" "Mc_resize (mr_blob v) N_CLUSTER" "x\<lparr>mio_blob := mr_blob v\<rparr>"]
      by (auto simp: mio_open_complete_def set_mio_def mio_post_def struct_ok_def)
  next
    case resize
    then show ?thesis using x e post [of "Mio_sync p" "Mc_sync_md (mio_blob x)" x]
      by (auto simp: mio_resize_complete_def mio_post_def fun_upd_idem)
  qed
qed

lemma step_sync:
  assumes inv: "mio_inv n tr st" "mio_pending st = ys @ (c, Mio_sync p) # zs" "stream_jobs st p = [(c, Mio_sync p)]" "p \<in> set (streams n)"
    and x: "mios st p = Some x" "struct_ok st x" "job_fits x (c, Mio_sync p)" "Written p \<notin> set tr" and e: "mr_errno v = 0"
  shows "\<exists>st'. run_mio (Mio_sync p) v (st\<lparr>mio_pending := ys @ zs\<rparr>) = Some st' \<and> mio_inv n tr st'"
proof -
  have u: "\<not> is_unload (c, Mio_sync p)" using x(3) by (rule job_fits_call)
  have so: "store_ok st" "trace_ok n tr" "counts tr = (fini_count st, unloads st, length (elapsed st))" using inv(1) by (auto simp: mio_inv_def)
  obtain k where k: "io_units x = Some k" using units_ok [OF x(2) so(1)] by blast
  let ?N = "unat (store_io_unit_size st)"
  let ?x = "x\<lparr>mio_write_buff := Some (next_dma st), mio_chan := Some (next_chan st)\<rparr>"
  let ?j = "(Mc_write (mio_blob x) (next_chan st) (next_dma st) 0 k, Mio_write p)"
  let ?st = "st\<lparr>mios := (mios st)(p \<mapsto> ?x), dma := (dma st)(next_dma st \<mapsto> replicate ?N 0x5a @ drop ?N (map (dma_garbage st (next_dma st)) [0..<2 * ?N])),
     next_dma := next_dma st + 1, open_chans := next_chan st # open_chans st, next_chan := next_chan st + 1, mio_pending := ys @ zs @ [?j]\<rparr>"
  have N: "unat (mio_cluster_size x * N_CLUSTER) = 2 * ?N" "unat (mio_cluster_size x) = ?N"
    using two_units [of "store_io_unit_size st"] x(2) so(1) by (auto simp: struct_ok_def store_ok_def)
  have k': "io_units ?x = Some k" using k by (simp add: io_units_def)
  have d: "mio_dma st = []" "mio_channel st = []" using so(1) by (simp_all add: store_ok_def)
  have "run_mio (Mio_sync p) v (st\<lparr>mio_pending := ys @ zs\<rparr>) = Some ?st"
    using x(1) e N k' d by (simp add: mio_sync_complete_def mio_blob_write_def mio_spdk_malloc_def alloc_channel_def set_mio_def mio_post_def Let_def)
  moreover have "store_ok ?st" using so(1) by (auto simp: store_ok_def less_Suc_eq split: if_splits)
  then have "mio_inv n (tr @ []) ?st"
    by (intro inv_post [OF inv(1-3) u _ inv(4), where st' = ?st and j' = ?j and x' = ?x and ev = "[]"])
      (use so x in \<open>auto simp: struct_ok_def job_ok_def\<close>)
  ultimately show ?thesis by simp
qed

lemma step_write:
  assumes inv: "mio_inv n tr st" "mio_pending st = ys @ (c, Mio_write p) # zs" "stream_jobs st p = [(c, Mio_write p)]" "p \<in> set (streams n)"
    and x: "mios st p = Some x" "struct_ok st x" "job_ok st x (c, Mio_write p)" "Written p \<notin> set tr" "Finished p \<notin> set tr" and e: "mr_errno v = 0"
  shows "\<exists>st'. run_mio (Mio_write p) v (st\<lparr>mio_pending := ys @ zs\<rparr>) = Some st' \<and> mio_inv n (tr @ [Written p]) st'"
proof -
  have u: "\<not> is_unload (c, Mio_write p)" using x(3) job_fits_call by (auto simp: job_ok_def)
  have so: "store_ok st" "trace_ok n tr" "counts tr = (fini_count st, unloads st, length (elapsed st))" using inv(1) by (auto simp: mio_inv_def)
  obtain k where k: "io_units x = Some k" using units_ok [OF x(2) so(1)] by blast
  obtain ch wb where ch: "mio_chan x = Some ch" "ch \<in> set (open_chans st)" "mio_write_buff x = Some wb" "dma st wb \<noteq> None"
    using x(3) by (auto simp: job_ok_def)
  have cof: "chan_of st p = Some ch" using inv(3) x(1) ch(1) by (simp add: chan_of_def)
  let ?N = "unat (store_io_unit_size st)"
  let ?x = "x\<lparr>mio_read_buff := Some (next_dma st)\<rparr>"
  let ?j = "(Mc_read (mio_blob x) ch (next_dma st) 0 k, Mio_read p)"
  let ?next = "\<lambda>st0. st0\<lparr>mios := (mios st)(p \<mapsto> ?x), dma := (dma st)(next_dma st \<mapsto> map (dma_garbage st (next_dma st)) [0..<2 * ?N]),
     next_dma := next_dma st + 1, mio_pending := ys @ zs @ [?j]\<rparr>"
  have N: "unat (mio_cluster_size x * N_CLUSTER) = 2 * ?N"
    using two_units [of "store_io_unit_size st"] x(2) so(1) by (auto simp: struct_ok_def store_ok_def)
  have k': "io_units ?x = Some k" using k by (simp add: io_units_def)
  have d: "mio_dma st = []" "mio_channel st = []" using so(1) by (simp_all add: store_ok_def)
  have tr: "trace_ok n (tr @ [Written p])" by (rule trace_event [OF so(2) inv(4)]) (use x in simp)
  obtain st0 where st0: "run_mio (Mio_write p) v (st\<lparr>mio_pending := ys @ zs\<rparr>) = Some (?next st0)"
      "store_io_unit_size st0 = store_io_unit_size st" "open_chans st0 = open_chans st" "next_chan st0 = next_chan st" "mio_channel st0 = []" "mio_dma st0 = []"
      "counts (tr @ [Written p]) = (fini_count st0, unloads st, length (elapsed st0))"
  proof (cases "fini_count st + 1 = IO_NUM")
    case True
    define t where "t = clock_gettime st"
    define t2 where "t2 = borrow (ts1 st) (fst t)"
    let ?st0 = "st\<lparr>fini_count := 0, clock := clock (snd t), ts2 := t2,
        elapsed := elapsed st @ [(tv_sec t2 - tv_sec (ts1 st), tv_nsec t2 - tv_nsec (ts1 st))]\<rparr>"
    have "run_mio (Mio_write p) v (st\<lparr>mio_pending := ys @ zs\<rparr>) = Some (?next ?st0)"
      using x(1) e N k' d ch(1) True
      by (cases "clock st") (simp_all add: mio_write_complete_def mio_cal_time_def mio_read_blob_def mio_spdk_malloc_def set_mio_def mio_post_def Let_def
          clock_gettime_def t_def t2_def)
    then show ?thesis using so(1,3) True by (intro that [of ?st0]) (simp_all add: counts_simps IO_NUM_def store_ok_def)
  next
    case False
    have "run_mio (Mio_write p) v (st\<lparr>mio_pending := ys @ zs\<rparr>) = Some (?next (st\<lparr>fini_count := fini_count st + 1\<rparr>))"
      using x(1) e N k' d ch(1) False
      by (simp add: mio_write_complete_def mio_cal_time_def mio_read_blob_def mio_spdk_malloc_def set_mio_def mio_post_def Let_def)
    then show ?thesis using so(1,3) False by (intro that [of "st\<lparr>fini_count := fini_count st + 1\<rparr>"]) (simp_all add: counts_simps IO_NUM_def store_ok_def)
  qed
  have "store_ok (?next st0)" using so(1) st0 by (auto simp: store_ok_def split: if_splits)
  then have "mio_inv n (tr @ [Written p]) (?next st0)"
    by (intro inv_post [OF inv(1-3) u _ inv(4), where st' = "?next st0" and j' = ?j and x' = ?x and ev = "[Written p]"])
      (use so x st0 tr ch cof in \<open>auto simp: struct_ok_def job_ok_def\<close>)
  with st0(1) show ?thesis by blast
qed

lemma step_read:
  assumes inv: "mio_inv n tr st" "mio_pending st = ys @ (c, Mio_read p) # zs" "stream_jobs st p = [(c, Mio_read p)]" "p \<in> set (streams n)"
    and x: "mios st p = Some x" "struct_ok st x" "job_ok st x (c, Mio_read p)" "Written p \<in> set tr"
    and e: "mr_errno v = 0" "reads_back st (Mio_read p) v"
  shows "\<exists>st'. run_mio (Mio_read p) v (fill_read c v (st\<lparr>mio_pending := ys @ zs\<rparr>)) = Some st' \<and> mio_inv n tr st'"
proof -
  have u: "\<not> is_unload (c, Mio_read p)" using x(3) job_fits_call by (auto simp: job_ok_def)
  have so: "store_ok st" "trace_ok n tr" "counts tr = (fini_count st, unloads st, length (elapsed st))" using inv(1) by (auto simp: mio_inv_def)
  obtain ch wb where ch: "mio_chan x = Some ch" "ch \<in> set (open_chans st)" "mio_write_buff x = Some wb" "dma st wb \<noteq> None"
    using x(3) by (auto simp: job_ok_def)
  obtain b c' rb off k where c: "c = Mc_read b c' rb off k" "mio_read_buff x = Some rb" using x(3) by (auto simp: job_ok_def)
  have w: "dma st wb = Some (mr_data v)" using e(2) x(1) ch(3) by simp
  then have len: "length (mr_data v) = 2 * unat (store_io_unit_size st)" using so(1) by (simp add: store_ok_def)
  have cof: "chan_of st p = Some ch" using inv(3) x(1) ch(1) by (simp add: chan_of_def)
  let ?j = "(Mc_close (mio_blob x), Mio_delete_blob p)"
  let ?st = "st\<lparr>dma := (dma st)(rb \<mapsto> mr_data v), mio_pending := ys @ zs @ [?j]\<rparr>"
  have "run_mio (Mio_read p) v (fill_read c v (st\<lparr>mio_pending := ys @ zs\<rparr>)) = Some ?st"
    using x(1,2) e(1) c ch(3) w len by (simp add: fill_read_def mio_read_complete_def mio_post_def struct_ok_def Let_def)
  moreover have "store_ok ?st" using so(1) len by (auto simp: store_ok_def)
  then have "mio_inv n (tr @ []) ?st"
    by (intro inv_post [OF inv(1-3) u _ inv(4), where st' = ?st and j' = ?j and x' = x and ev = "[]"])
      (use so x ch cof in \<open>auto simp: struct_ok_def job_ok_def fun_upd_idem\<close>)
  ultimately show ?thesis by simp
qed

lemma step_close:
  assumes inv: "mio_inv n tr st" "mio_pending st = ys @ (c, Mio_delete_blob p) # zs" "stream_jobs st p = [(c, Mio_delete_blob p)]" "p \<in> set (streams n)"
    and x: "mios st p = Some x" "struct_ok st x" "job_ok st x (c, Mio_delete_blob p)" "Written p \<in> set tr" and e: "mr_errno v = 0"
  shows "\<exists>st'. run_mio (Mio_delete_blob p) v (st\<lparr>mio_pending := ys @ zs\<rparr>) = Some st' \<and> mio_inv n tr st'"
proof -
  have u: "\<not> is_unload (c, Mio_delete_blob p)" using x(3) job_fits_call by (auto simp: job_ok_def)
  have so: "store_ok st" "trace_ok n tr" "counts tr = (fini_count st, unloads st, length (elapsed st))" using inv(1) by (auto simp: mio_inv_def)
  have cof: "chan_of st p = mio_chan x" using inv(3) x(1) by (simp add: chan_of_def)
  let ?j = "(Mc_delete (mio_blobid x), Mio_delete p)"
  let ?st = "st\<lparr>mio_pending := ys @ zs @ [?j]\<rparr>"
  have "run_mio (Mio_delete_blob p) v (st\<lparr>mio_pending := ys @ zs\<rparr>) = Some ?st"
    using x(1,2) e by (auto simp: mio_delete_blob_def mio_post_def struct_ok_def)
  moreover have "store_ok ?st" using so(1) by (simp add: store_ok_def)
  then have "mio_inv n (tr @ []) ?st"
    by (intro inv_post [OF inv(1-3) u _ inv(4), where st' = ?st and j' = ?j and x' = x and ev = "[]"])
      (use so x cof in \<open>auto simp: struct_ok_def job_ok_def fun_upd_idem\<close>)
  ultimately show ?thesis by simp
qed

lemma set_remove1_other: "set xs - {x} \<subseteq> set (remove1 x xs)"
  by (induction xs) auto

lemma step_delete:
  assumes inv: "mio_inv n tr st" "mio_pending st = ys @ (c, Mio_delete p) # zs" "stream_jobs st p = [(c, Mio_delete p)]" "p \<in> set (streams n)"
    and x: "mios st p = Some x" "struct_ok st x" "job_ok st x (c, Mio_delete p)" "Written p \<in> set tr" "Finished p \<notin> set tr" and e: "mr_errno v = 0"
  shows "\<exists>st'. run_mio (Mio_delete p) v (st\<lparr>mio_pending := ys @ zs\<rparr>) = Some st' \<and> mio_inv n (tr @ [Finished p]) st'"
proof -
  have u: "\<not> is_unload (c, Mio_delete p)" using x(3) job_fits_call by (auto simp: job_ok_def)
  have so: "store_ok st" "trace_ok n tr" "counts tr = (fini_count st, unloads st, length (elapsed st))" using inv(1) by (auto simp: mio_inv_def)
  obtain ch where ch: "mio_chan x = Some ch" "ch \<in> set (open_chans st)" using x(3) by (auto simp: job_ok_def)
  obtain bs where bs: "mio_bs x = Some bs" using x(2) by (auto simp: struct_ok_def)
  have cof: "chan_of st p = Some ch" using inv(3) x(1) ch(1) by (simp add: chan_of_def)
  let ?js = "if fini_count st + 1 = IO_NUM then [(Mc_unload bs, Mio_unload p)] else []"
  let ?st = "st\<lparr>open_chans := remove1 ch (open_chans st), fini_count := fini_count st + 1, mio_pending := ys @ zs @ ?js\<rparr>"
  note sj = stream_jobs_split [OF inv(2,3) u, where st' = ?st and js = ?js, simplified]
  have run: "run_mio (Mio_delete p) v (st\<lparr>mio_pending := ys @ zs\<rparr>) = Some ?st"
    using x(1) e ch bs by (simp add: mio_delete_complete_def mio_unload_bs_def free_channel_def set_mio_def mio_post_def fun_upd_idem)
  have rest: "set (open_chans st) - {ch} \<subseteq> set (remove1 ch (open_chans st))" by (rule set_remove1_other)
  have "mio_inv n (tr @ [Finished p]) ?st"
  proof (rule inv_after [OF inv(1,4)])
    show "others_kept p st ?st" using sj rest cof by (auto simp: others_kept_def chan_of_def)
    show "store_ok ?st" using so(1) by (auto simp: store_ok_def dest: set_remove1_subset [THEN subsetD])
    show "trace_ok n (tr @ [Finished p])" by (rule trace_event [OF so(2) inv(4)]) (use x in simp)
    show "stream_ok (tr @ [Finished p]) ?st p" using x sj by (simp add: stream_ok_def struct_ok_def)
    show "counts (tr @ [Finished p]) = (fini_count ?st, unloads ?st, length (elapsed ?st))"
      using so(3) sj by (simp add: counts_simps IO_NUM_def)
    show "\<forall>j \<in> set (mio_pending ?st). j \<in> set (mio_pending st) \<or> is_unload j \<or> cb_ptr (snd j) = p" using inv(2) by auto
  qed simp
  with run show ?thesis by blast
qed

lemma step_inv:
  assumes "mio_inv n tr st" "i < length (mio_pending st)" "\<not> is_unload (mio_pending st ! i)" "mr_errno v = 0"
    and "reads_back st (snd (mio_pending st ! i)) v"
  shows "\<exists>st'. complete_mio i v st = Some st' \<and> mio_inv n (tr @ event_of (snd (mio_pending st ! i))) st'"
proof -
  obtain c cb where j: "mio_pending st ! i = (c, cb)" by fastforce
  let ?ys = "take i (mio_pending st)" and ?zs = "drop (Suc i) (mio_pending st)"
  have pend: "mio_pending st = ?ys @ (c, cb) # ?zs" using assms(2) j id_take_nth_drop by metis
  have run: "complete_mio i v st = run_mio cb v (fill_read c v (st\<lparr>mio_pending := ?ys @ ?zs\<rparr>))"
    using assms(2) j by (simp add: complete_mio_def arr_get_eq)
  let ?p = "cb_ptr cb"
  have mem: "(c, cb) \<in> set (mio_pending st)" using assms(2) j nth_mem by metis
  then have p: "?p \<in> set (streams n)" using assms(1,3) j unfolding mio_inv_def by fastforce
  then obtain x where x: "mios st ?p = Some x" "struct_ok st x" and so: "stream_ok tr st ?p" using assms(1) by (auto simp: mio_inv_def stream_ok_def)
  have "(c, cb) \<in> set (stream_jobs st ?p)" using mem assms(3) j by (simp add: stream_jobs_def)
  with so x have jobs: "stream_jobs st ?p = [(c, cb)]" "job_ok st x (c, cb)" "Finished ?p \<notin> set tr" "Written ?p \<in> set tr \<longleftrightarrow> past_write cb"
    by (auto simp: stream_ok_def split: list.splits)
  note f = jobs(2) [unfolded job_ok_def, THEN conjunct1]
  have keep: "fill_read c v s = s" if "\<forall>p. cb \<noteq> Mio_read p" for s
    using f that by (cases cb) (auto simp: fill_read_def)
  have early: ?thesis if e: "cb \<in> {Mio_create ?p, Mio_open ?p, Mio_resize ?p}"
  proof -
    have "\<not> past_write cb" "event_of cb = []" "\<forall>p. cb \<noteq> Mio_read p" using e by (cases cb; auto)+
    then show ?thesis using step_early [OF assms(1) pend jobs(1) refl p x f _ assms(4) e] jobs(4) run j keep by simp
  qed
  show ?thesis
  proof (cases cb)
    case (Mio_sync q)
    then show ?thesis using step_sync [of n tr st ?ys c q ?zs x v] assms(1,4) pend jobs p x run j f by (auto simp: keep)
  next
    case (Mio_write q)
    then show ?thesis using step_write [of n tr st ?ys c q ?zs x v] assms(1,4) pend jobs p x run j by (auto simp: keep)
  next
    case (Mio_read q)
    then show ?thesis using step_read [of n tr st ?ys c q ?zs x v] assms(1,4,5) pend jobs p x run j by auto
  next
    case (Mio_delete_blob q)
    then show ?thesis using step_close [of n tr st ?ys c q ?zs x v] assms(1,4) pend jobs p x run j by (auto simp: keep)
  next
    case (Mio_delete q)
    then show ?thesis using step_delete [of n tr st ?ys c q ?zs x v] assms(1,4) pend jobs p x run j by (auto simp: keep)
  qed (use early f in auto)
qed

section \<open>The start\<close>

lemma four: "IO_NUM = Suc (Suc (Suc (Suc 0)))"
  by (simp add: IO_NUM_def)

lemma clock_read:
  obtains t ts where "\<And>s. clock s = cs \<Longrightarrow> clock_gettime s = (t, s\<lparr>clock := ts\<rparr>)"
proof (cases cs)
  case Nil
  have "s\<lparr>clock := []\<rparr> = s" if "clock s = []" for s :: mio_state by (rule mio_state.equality) (use that in simp_all)
  then show ?thesis using Nil by (intro that [of "\<lparr>tv_sec = 0, tv_nsec = 0\<rparr>" "[]"]) (simp add: clock_gettime_def)
next
  case (Cons t ts)
  show ?thesis by (rule that [of t ts]) (simp add: clock_gettime_def Cons)
qed

lemma mio_start_inv:
  assumes "mio_booted st" "mio_main 3 True 0 st = (st1, None)" "mr_errno v = 0"
  shows "\<exists>st2. complete_mio 0 v st1 = Some st2 \<and> mio_inv (next_mio st) [] st2"
proof -
  note b = assms(1) [unfolded mio_booted_def]
  let ?n = "next_mio st"
  let ?U = "store_io_unit_size st"
  let ?g = "\<lambda>p. (garbage st p)\<lparr>mio_bs := Some (mr_bs v), mio_io_unit_size := ?U, mio_cluster_size := ?U\<rparr>"
  let ?m = "zero_mio\<lparr>mio_bs := Some (mr_bs v), mio_io_unit_size := ?U, mio_cluster_size := store_cluster_size st\<rparr>"
  have st1: "st1 = st\<lparr>mios := [?n \<mapsto> zero_mio], next_mio := ?n + 1, mio_pending := [(Mc_init, Mio_bs_init ?n)]\<rparr>"
    using assms(2) b by (auto simp: mio_main_def mio_test_start_def set_mio_def mio_post_def Let_def)
  obtain t ts where t: "\<And>s. clock s = clock st \<Longrightarrow> clock_gettime s = (t, s\<lparr>clock := ts\<rparr>)"
    using clock_read [of "clock st"] by metis
  let ?st = "st\<lparr>mios := [?n \<mapsto> ?m, ?n + 1 \<mapsto> ?g (?n + 1), ?n + 2 \<mapsto> ?g (?n + 2), ?n + 3 \<mapsto> ?g (?n + 3), ?n + 4 \<mapsto> ?g (?n + 4)],
     next_mio := ?n + 5, mio_malloc := [], clock := ts, ts1 := t,
     mio_pending := map (\<lambda>p. (Mc_create, Mio_create p)) (streams ?n)\<rparr>"
  have ne: "?n + 1 \<noteq> ?n" "?n + 2 \<noteq> ?n" "?n + 3 \<noteq> ?n" "?n + 4 \<noteq> ?n" by simp_all
  have m: "mio_malloc st = []" using b by simp
  let ?st4 = "\<lambda>m. st\<lparr>mios := m, next_mio := ?n + 5, mio_malloc := [], mio_pending := []\<rparr>"
  have alloc: "mio_alloc_args IO_NUM (st\<lparr>next_mio := ?n + 1, mio_pending := [], mios := [?n \<mapsto> ?m]\<rparr>) =
      (Some (streams ?n), ?st4 [?n \<mapsto> ?m, ?n + 1 \<mapsto> garbage st (?n + 1), ?n + 2 \<mapsto> garbage st (?n + 2), ?n + 3 \<mapsto> garbage st (?n + 3), ?n + 4 \<mapsto> garbage st (?n + 4)])"
    by (simp add: four m set_mio_def Let_def streams_def eval_nat_numeral)
  have init: "mio_init_args ?m (streams ?n) (?st4 [?n \<mapsto> ?m, ?n + 1 \<mapsto> garbage st (?n + 1), ?n + 2 \<mapsto> garbage st (?n + 2), ?n + 3 \<mapsto> garbage st (?n + 3), ?n + 4 \<mapsto> garbage st (?n + 4)]) =
      Some (?st4 [?n \<mapsto> ?m, ?n + 1 \<mapsto> ?g (?n + 1), ?n + 2 \<mapsto> ?g (?n + 2), ?n + 3 \<mapsto> ?g (?n + 3), ?n + 4 \<mapsto> ?g (?n + 4)])"
    by (simp add: set_mio_def streams_def fun_upd_twist)
  have all: "mio_start_all (streams ?n) (?st4 [?n \<mapsto> ?m, ?n + 1 \<mapsto> ?g (?n + 1), ?n + 2 \<mapsto> ?g (?n + 2), ?n + 3 \<mapsto> ?g (?n + 3), ?n + 4 \<mapsto> ?g (?n + 4)]\<lparr>clock := ts, ts1 := t\<rparr>) = Some ?st"
    by (simp add: streams_def mio_create_blob_def mio_post_def)
  have pop: "complete_mio 0 v st1 = mio_bs_init_complete ?n (mr_bs v) 0 (st\<lparr>mios := [?n \<mapsto> zero_mio], next_mio := ?n + 1, mio_pending := []\<rparr>)"
    using assms(3) by (simp add: st1 complete_mio_def arr_get_def fill_read_def)
  have "complete_mio 0 v st1 = Some ?st"
    unfolding pop mio_bs_init_complete_def
    using alloc init all t by (simp add: set_mio_def Let_def)
  moreover have "mio_inv ?n [] ?st"
    unfolding mio_inv_def
  proof (intro conjI ballI allI impI)
    have sj: "stream_jobs ?st p = [(Mc_create, Mio_create p)]" if "p \<in> set (streams ?n)" for p
      using that by (auto simp: stream_jobs_def streams_def)
    show "store_ok ?st" using b by (simp add: store_ok_def)
    show "trace_ok ?n []" by (simp add: trace_ok_def)
    show "stream_ok [] ?st p" if "p \<in> set (streams ?n)" for p
      using that sj [OF that] by (auto simp: stream_ok_def streams_def struct_ok_def job_ok_def)
    show "is_unload j \<or> cb_ptr (snd j) \<in> set (streams ?n)" if "j \<in> set (mio_pending ?st)" for j
      using that by auto
    show "p = q" if "p \<in> set (streams ?n)" "chan_of ?st p = Some c" for p q c
      using that sj by (simp add: chan_of_def)
    show "counts [] = (fini_count ?st, unloads ?st, length (elapsed ?st))"
      using b by (simp add: counts_simps unloads_def streams_def)
  qed
  ultimately show ?thesis by blast
qed

lemma mio_run_inv: "mio_run n tr st \<Longrightarrow> mio_inv n tr st"
proof (induction rule: mio_run.induct)
  case (start st st1 v st2)
  then show ?case using mio_start_inv by fastforce
next
  case (step n tr st i v st')
  then show ?case using step_inv by fastforce
qed

section \<open>When the blobstore is unloaded\<close>

fun is_finished :: "mio_event \<Rightarrow> bool" where
  "is_finished (Written p) \<longleftrightarrow> False"
| "is_finished (Finished p) \<longleftrightarrow> True"

lemma count_kind: "count_event s e = (case s of (n, u, t) \<Rightarrow>
    if is_finished e then (n + 1, if n = 3 then u + 1 else u, t) else if n = 3 then (0, u, t + 1) else (n + 1, u, t))"
  by (cases e; cases s) auto

lemma counts_closed:
  assumes "length tr \<le> 8" "length tr = 8 \<longrightarrow> is_finished (last tr)"
  shows "counts tr = (if length tr < 4 then (length tr, 0, 0) else if is_finished (tr ! 3) then (length tr, 1, 0)
    else (length tr - 4, if length tr = 8 then 1 else 0, 1))"
proof -
  consider "tr = []" | a where "tr = [a]" | a b where "tr = [a, b]" | a b c where "tr = [a, b, c]"
    | a b c d xs where "tr = [a, b, c, d] @ xs"
    by (metis append_Cons append_Nil list.exhaust)
  then show ?thesis
  proof cases
    case (5 a b c d xs)
    have "length xs \<le> 4" using 5 assms(1) by simp
    then consider "xs = []" | e where "xs = [e]" | e f where "xs = [e, f]" | e f g where "xs = [e, f, g]" | e f g h where "xs = [e, f, g, h]"
      by (auto simp: le_Suc_eq numeral_eq_Suc length_Suc_conv)
    then show ?thesis using 5 assms(2) by cases (simp_all add: counts_def count_kind)
  qed (simp_all add: counts_def count_kind)
qed

lemma all_events:
  assumes "trace_ok n tr"
  shows "length tr \<le> 8" "length tr = 8 \<Longrightarrow> set tr = Written ` set (streams n) \<union> Finished ` set (streams n)"
    "length tr = 8 \<Longrightarrow> is_finished (last tr)"
proof -
  let ?E = "Written ` set (streams n) \<union> Finished ` set (streams n)"
  have E: "card ?E = 8" "finite ?E" by (auto simp: streams_def card_insert_if)
  have l: "length tr = card (set tr)" "set tr \<subseteq> ?E" using assms by (simp_all add: trace_ok_def distinct_card)
  then show "length tr \<le> 8" using card_mono [OF E(2) l(2)] E(1) by simp
  show *: "set tr = ?E" if "length tr = 8" using card_subset_eq [OF E(2) l(2)] E(1) l(1) that by simp
  show "is_finished (last tr)" if "length tr = 8"
  proof (cases "last tr")
    case (Written p)
    have ne: "tr \<noteq> []" using that by auto
    then have "Written p \<in> set tr" using Written last_in_set by metis
    then have "Finished p \<in> set tr" using * [OF that] by auto
    then show ?thesis using assms ne Written by (auto simp: trace_ok_def)
  qed simp
qed

section \<open>One stream ahead of the others\<close>

fun next_cb :: "mio_cb \<Rightarrow> mio_cb" where
  "next_cb (Mio_bs_init p) = Mio_create p"
| "next_cb (Mio_create p) = Mio_open p"
| "next_cb (Mio_open p) = Mio_resize p"
| "next_cb (Mio_resize p) = Mio_sync p"
| "next_cb (Mio_sync p) = Mio_write p"
| "next_cb (Mio_write p) = Mio_read p"
| "next_cb (Mio_read p) = Mio_delete_blob p"
| "next_cb (Mio_delete_blob p) = Mio_delete p"
| "next_cb (Mio_delete p) = Mio_unload p"
| "next_cb (Mio_unload p) = Mio_unload p"

fun cb_rank :: "mio_cb \<Rightarrow> nat" where
  "cb_rank (Mio_bs_init p) = 9"
| "cb_rank (Mio_create p) = 8"
| "cb_rank (Mio_open p) = 7"
| "cb_rank (Mio_resize p) = 6"
| "cb_rank (Mio_sync p) = 5"
| "cb_rank (Mio_write p) = 4"
| "cb_rank (Mio_read p) = 3"
| "cb_rank (Mio_delete_blob p) = 2"
| "cb_rank (Mio_delete p) = 1"
| "cb_rank (Mio_unload p) = 0"

definition goes_on :: "mio_cb \<Rightarrow> mio_state \<Rightarrow> mio_state \<Rightarrow> bool" where
  "goes_on cb st st' \<longleftrightarrow> mio_pending st' = mio_pending st \<or> (\<exists>c. mio_pending st' = mio_pending st @ [(c, next_cb cb)]) \<or>
     (\<exists>c. mio_pending st' = mio_pending st @ [(c, Mio_unload (cb_ptr cb))])"

lemma free_channel_pending: "free_channel c st = Some st' \<Longrightarrow> mio_pending st' = mio_pending st"
  by (auto simp: free_channel_def bind_Some_iff)

lemma unload_pending:
  assumes "mio_unload_bs p e st = Some st'"
  shows "mio_pending st' = mio_pending st \<or> (\<exists>c. mio_pending st' = mio_pending st @ [(c, Mio_unload p)])"
proof -
  obtain x where x: "mios st p = Some x" using assms by (auto simp: mio_unload_bs_def bind_Some_iff)
  define x' where "x' = (if e \<noteq> 0 then x\<lparr>mio_rc := e\<rparr> else x)"
  have run: "mio_unload_bs p e st = (case mio_bs x' of
      None \<Rightarrow> Some (app_stop e (set_mio p x' st))
    | Some bs \<Rightarrow> (case mio_chan x' of None \<Rightarrow> Some (set_mio p x' st) | Some c \<Rightarrow> free_channel c (set_mio p x' st)) \<bind>
        (\<lambda>st. let st = st\<lparr>fini_count := fini_count st + 1\<rparr>
          in Some (if fini_count st = IO_NUM then mio_post (Mc_unload bs) (Mio_unload p) st else st)))"
    using x by (simp add: mio_unload_bs_def x'_def Let_def split: option.split)
  show ?thesis
  proof (cases "mio_bs x'")
    case None
    then show ?thesis using assms run by (auto simp: app_stop_def set_mio_def)
  next
    case (Some bs)
    then obtain st1 where st1: "(case mio_chan x' of None \<Rightarrow> Some (set_mio p x' st) | Some c \<Rightarrow> free_channel c (set_mio p x' st)) = Some st1"
      using assms run by (auto simp: bind_eq_Some_conv)
    then have "mio_pending st1 = mio_pending st"
      using free_channel_pending [of _ "set_mio p x' st" st1] by (auto simp: set_mio_def split: option.splits)
    then show ?thesis using assms run Some st1 by (auto simp: mio_post_def Let_def split: if_splits)
  qed
qed

lemma unload_goes_on: "mio_unload_bs p e st1 = Some st' \<Longrightarrow> mio_pending st1 = mio_pending st \<Longrightarrow> cb_ptr cb = p \<Longrightarrow> goes_on cb st st'"
  using unload_pending [of p e st1 st'] by (auto simp: goes_on_def)

lemma post_goes_on: "mio_pending st1 = mio_pending st \<Longrightarrow> goes_on cb st (mio_post c (next_cb cb) st1)"
  by (auto simp: goes_on_def mio_post_def)

lemma malloc_pending: "mio_spdk_malloc k st = (b, st1) \<Longrightarrow> mio_pending st1 = mio_pending st"
  by (auto simp: mio_spdk_malloc_def split: list.splits bool.splits)

lemma alloc_channel_pending: "alloc_channel st = (b, st1) \<Longrightarrow> mio_pending st1 = mio_pending st"
  by (auto simp: alloc_channel_def split: list.splits bool.splits)

lemma read_blob_goes_on:
  assumes "mio_read_blob p st1 = Some st'" "mio_pending st1 = mio_pending st"
  shows "goes_on (Mio_write p) st st'"
proof -
  obtain x where x: "mios st1 p = Some x" using assms(1) by (auto simp: mio_read_blob_def bind_Some_iff)
  obtain b st2 where m: "mio_spdk_malloc (unat (mio_cluster_size x * N_CLUSTER)) st1 = (b, st2)" by fastforce
  then have "mio_pending st2 = mio_pending st" using assms(2) malloc_pending by simp
  then show ?thesis
    using assms(1) x m post_goes_on [of _ st "Mio_write p"] unload_goes_on [of p _ _ st' st "Mio_write p"]
    by (cases b) (auto simp: mio_read_blob_def bind_Some_iff set_mio_def Let_def)
qed

lemma cal_time_goes_on: "mio_cal_time p st = Some st' \<Longrightarrow> goes_on (Mio_write p) st st'"
  by (auto simp: mio_cal_time_def clock_gettime_def Let_def intro: read_blob_goes_on split: if_splits list.splits)

lemma blob_write_goes_on:
  assumes "mio_blob_write p st = Some st'"
  shows "goes_on (Mio_sync p) st st'"
proof -
  obtain x where x: "mios st p = Some x" using assms(1) by (auto simp: mio_blob_write_def bind_Some_iff)
  obtain b st2 where m: "mio_spdk_malloc (unat (mio_cluster_size x * N_CLUSTER)) st = (b, st2)" by fastforce
  note p2 = malloc_pending [OF m] and po = post_goes_on [of _ st "Mio_sync p"] and un = unload_goes_on [of p _ _ st' st "Mio_sync p"]
  show ?thesis
  proof (cases b)
    case None
    then show ?thesis using assms x m p2 un by (simp add: mio_blob_write_def set_mio_def Let_def)
  next
    case (Some wb)
    let ?n = "unat (mio_cluster_size x)"
    let ?st = "\<lambda>d. st2\<lparr>mios := (mios st2)(p \<mapsto> x\<lparr>mio_write_buff := b\<rparr>), dma := (dma st2)(wb \<mapsto> replicate ?n 0x5a @ drop ?n d)\<rparr>"
    obtain d where d: "dma st2 wb = Some d" using assms x m Some by (auto simp: mio_blob_write_def set_mio_def Let_def bind_Some_iff)
    obtain ch st3 where c: "alloc_channel (?st d) = (ch, st3)" by fastforce
    then have "mio_pending st3 = mio_pending st" using alloc_channel_pending [OF c] p2 by simp
    then show ?thesis using assms x m Some d c po un
      by (cases ch) (auto simp: mio_blob_write_def set_mio_def Let_def bind_Some_iff)
  qed
qed

lemma run_goes_on:
  assumes "run_mio cb v st = Some st'" "event_of cb \<noteq> [] \<or> cb \<in> {Mio_create p, Mio_open p, Mio_resize p, Mio_sync p, Mio_read p, Mio_delete_blob p}"
  shows "goes_on cb st st'"
proof -
  note un = unload_goes_on [OF _ refl]
  note ps = post_goes_on [where st = st]
  show ?thesis
  proof (cases cb)
    case (Mio_create q)
    then show ?thesis using assms un [of q _ st st' cb] ps [of _ cb]
      by (auto simp: mio_blob_create_complete_def bind_Some_iff set_mio_def split: if_splits)
  next
    case (Mio_open q)
    then show ?thesis using assms un [of q _ st st' cb] ps [of _ cb]
      by (auto simp: mio_open_complete_def bind_Some_iff set_mio_def split: if_splits)
  next
    case (Mio_resize q)
    then show ?thesis using assms un [of q _ st st' cb] ps [of _ cb]
      by (auto simp: mio_resize_complete_def bind_Some_iff split: if_splits)
  next
    case (Mio_sync q)
    then show ?thesis using assms un [of q _ st st' cb] blob_write_goes_on [of q st st']
      by (auto simp: mio_sync_complete_def split: if_splits)
  next
    case (Mio_write q)
    then show ?thesis using assms un [of q _ st st' cb] cal_time_goes_on [of q st st']
      by (auto simp: mio_write_complete_def split: if_splits)
  next
    case (Mio_read q)
    then show ?thesis using assms un [of q _ st st' cb] ps [of _ cb]
      by (auto simp: mio_read_complete_def bind_Some_iff Let_def split: if_splits)
  next
    case (Mio_delete_blob q)
    then show ?thesis using assms un [of q _ st st' cb] ps [of _ cb]
      by (auto simp: mio_delete_blob_def bind_Some_iff split: if_splits)
  next
    case (Mio_delete q)
    then show ?thesis using assms un [of q _ st st' cb] by (auto simp: mio_delete_complete_def split: if_splits)
  qed (use assms in auto)
qed

text \<open>A stream can be run to its end while the others wait.\<close>

lemma stream_step:
  assumes "mio_run n tr st" "p \<in> set (streams n)" "stream_jobs st p = [j]"
  shows "\<exists>st'. mio_run n (tr @ event_of (snd j)) st' \<and> (\<forall>q. q \<noteq> p \<longrightarrow> stream_jobs st' q = stream_jobs st q) \<and>
    (stream_jobs st' p = [] \<and> snd j = Mio_delete p \<or> (\<exists>c. stream_jobs st' p = [(c, next_cb (snd j))]) \<and> snd j \<noteq> Mio_delete p)"
proof -
  obtain c cb where j: "j = (c, cb)" by fastforce
  note inv = mio_run_inv [OF assms(1)]
  then obtain x where x: "mios st p = Some x" "job_ok st x (c, cb)" "Finished p \<notin> set tr"
    using assms(2,3) j by (auto simp: mio_inv_def stream_ok_def)
  have "(c, cb) \<in> set (stream_jobs st p)" using assms(3) j by simp
  then have mem: "(c, cb) \<in> set (mio_pending st)" "\<not> is_unload (c, cb)" "cb_ptr cb = p" by (simp_all add: stream_jobs_def)
  then obtain i where i: "i < length (mio_pending st)" "mio_pending st ! i = (c, cb)" by (auto simp: in_set_conv_nth)
  have pend: "mio_pending st = take i (mio_pending st) @ (c, cb) # drop (Suc i) (mio_pending st)" using i id_take_nth_drop by metis
  define w where "w = the (dma st (the (mio_write_buff x)))"
  let ?v = "\<lparr>mr_errno = 0, mr_bs = 0, mr_id = 0, mr_blob = 0, mr_data = w\<rparr>"
  have rb: "reads_back st cb ?v"
    using x mem(3) by (cases cb) (auto simp: job_ok_def w_def)
  obtain st' where st': "complete_mio i ?v st = Some st'" "mio_inv n (tr @ event_of cb) st'"
    using step_inv [OF inv i(1), of ?v] i(2) mem(2) rb by auto
  have run: "mio_run n (tr @ event_of cb) st'"
    using mio_run.step [OF assms(1) i(1), of ?v st'] i(2) mem(2) rb st'(1) by simp
  have cbs: "event_of cb \<noteq> [] \<or> cb \<in> {Mio_create p, Mio_open p, Mio_resize p, Mio_sync p, Mio_read p, Mio_delete_blob p}"
    using x(2) mem(3) by (cases cb) (auto simp: job_ok_def)
  let ?st = "fill_read c ?v (st\<lparr>mio_pending := take i (mio_pending st) @ drop (Suc i) (mio_pending st)\<rparr>)"
  have "run_mio cb ?v ?st = Some st'" using st'(1) i by (simp add: complete_mio_def arr_get_eq)
  then have "goes_on cb ?st st'" by (rule run_goes_on) (rule cbs)
  moreover have "mio_pending ?st = take i (mio_pending st) @ drop (Suc i) (mio_pending st)" by (simp add: fill_read_def split: mio_call.split)
  ultimately obtain js where js: "mio_pending st' = take i (mio_pending st) @ drop (Suc i) (mio_pending st) @ js"
      "js = [] \<or> (\<exists>c'. js = [(c', next_cb cb)]) \<or> (\<exists>c'. js = [(c', Mio_unload p)])"
    using mem(3) by (auto simp: goes_on_def)
  note sj = stream_jobs_split [OF pend assms(3) [unfolded j] mem(2) _ js(1), simplified, OF mem(3)]
  have ptr: "\<forall>j \<in> set js. cb_ptr (snd j) = p" using js(2) mem(3) by (cases cb) auto
  have so: "stream_ok (tr @ event_of cb) st' p" using st'(2) assms(2) by (simp add: mio_inv_def)
  have no_unload: "stream_jobs st' p \<noteq> [(c', Mio_unload p)]" for c'
    using so by (auto simp: stream_ok_def job_ok_def)
  have sub: "stream_jobs st' p = [] \<or> stream_jobs st' p = js" using sj(1) js(2) by (auto split: if_split_asm)
  have "stream_jobs st' p = [] \<and> cb = Mio_delete p \<or> (\<exists>c. stream_jobs st' p = [(c, next_cb cb)]) \<and> cb \<noteq> Mio_delete p"
  proof (cases "stream_jobs st' p = []")
    case True
    then have "Finished p \<in> set (tr @ event_of cb)" using so by (auto simp: stream_ok_def)
    then have "cb = Mio_delete p" using x(3) by (cases cb) auto
    then show ?thesis using True by simp
  next
    case False
    then obtain c' where "stream_jobs st' p = [(c', next_cb cb)]" using sub js(2) no_unload by blast
    moreover from this have "cb \<noteq> Mio_delete p" using no_unload [of c'] by auto
    ultimately show ?thesis by blast
  qed
  then show ?thesis using run sj(2) ptr j by (auto simp: filter_empty_conv)
qed

lemma stream_completes:
  assumes "mio_run n tr st" "p \<in> set (streams n)" "stream_jobs st p = [j]"
  shows "\<exists>st'. mio_run n (tr @ (if past_write (snd j) then [] else [Written p]) @ [Finished p]) st' \<and>
    (\<forall>q. q \<noteq> p \<longrightarrow> stream_jobs st' q = stream_jobs st q)"
  using assms(1,3)
proof (induction "cb_rank (snd j)" arbitrary: tr st j rule: less_induct)
  case less
  obtain c cb where j: "j = (c, cb)" by fastforce
  have "stream_ok tr st p" using mio_run_inv [OF less.prems(1)] assms(2) by (simp add: mio_inv_def)
  then have f: "\<exists>x. job_fits x (c, cb)" using less.prems(2) j by (auto simp: stream_ok_def job_ok_def)
  have "(c, cb) \<in> set (stream_jobs st p)" using less.prems(2) j by simp
  then have cp: "cb_ptr cb = p" by (simp add: stream_jobs_def)
  obtain st1 where st1: "mio_run n (tr @ event_of cb) st1" "\<forall>q. q \<noteq> p \<longrightarrow> stream_jobs st1 q = stream_jobs st q"
      "stream_jobs st1 p = [] \<and> cb = Mio_delete p \<or> (\<exists>c. stream_jobs st1 p = [(c, next_cb cb)]) \<and> cb \<noteq> Mio_delete p"
    using stream_step [OF less.prems(1) assms(2) less.prems(2)] j by auto
  show ?case
  proof (cases "cb = Mio_delete p")
    case True
    then show ?thesis using st1 j by auto
  next
    case False
    then obtain c' where c': "stream_jobs st1 p = [(c', next_cb cb)]" using st1(3) by blast
    let ?w = "\<lambda>cb. if past_write cb then [] else [Written p]"
    have r: "cb_rank (next_cb cb) < cb_rank cb" "event_of cb @ ?w (next_cb cb) = ?w cb"
      using f cp False by (cases cb; auto)+
    have eq: "(tr @ event_of cb) @ ?w (next_cb cb) @ [Finished p] = tr @ ?w cb @ [Finished p]"
      unfolding append_assoc by (simp only: r(2) append_assoc [symmetric])
    obtain st2 where st2: "mio_run n ((tr @ event_of cb) @ ?w (next_cb cb) @ [Finished p]) st2" "\<forall>q. q \<noteq> p \<longrightarrow> stream_jobs st2 q = stream_jobs st1 q"
      using less.hyps [of "(c', next_cb cb)" "tr @ event_of cb" st1] r(1) j st1(1) c' by auto
    have "\<forall>q. q \<noteq> p \<longrightarrow> stream_jobs st2 q = stream_jobs st q" using st1(2) st2(2) by simp
    then show ?thesis using st2(1) unfolding eq j snd_conv by blast
  qed
qed

section \<open>Properties\<close>

text \<open>C18: When no call fails, in whatever order the calls of the four streams complete, no
  step crashes, some stream can go on until all eight events have happened, and the blobstore is
  unloaded exactly once.  When it is, depends on the fourth event: if that is a completed write,
  the time is taken then and the unload comes with the eighth event, after all streams have
  finished; if it is the end of a stream, the unload comes at once and the time is never
  taken.\<close>

theorem benchmark_unloads_once:
  assumes "mio_run n tr st"
  shows "unloads st = (if length tr < 4 then 0 else if is_finished (tr ! 3) then 1 else if length tr = 8 then 1 else 0) \<and>
    length (elapsed st) = (if 4 \<le> length tr \<and> \<not> is_finished (tr ! 3) then 1 else 0) \<and>
    length tr \<le> 8 \<and> (length tr < 8 \<longrightarrow> (\<exists>j \<in> set (mio_pending st). \<not> is_unload j)) \<and>
    (\<forall>i v. i < length (mio_pending st) \<longrightarrow> \<not> is_unload (mio_pending st ! i) \<longrightarrow> mr_errno v = 0 \<longrightarrow>
       reads_back st (snd (mio_pending st ! i)) v \<longrightarrow> complete_mio i v st \<noteq> None)"
proof -
  note inv = mio_run_inv [OF assms]
  then have tr: "trace_ok n tr" and c: "counts tr = (fini_count st, unloads st, length (elapsed st))" by (simp_all add: mio_inv_def)
  note e = all_events [OF tr]
  have k: "unloads st = (if length tr < 4 then 0 else if is_finished (tr ! 3) then 1 else if length tr = 8 then 1 else 0) \<and>
      length (elapsed st) = (if 4 \<le> length tr \<and> \<not> is_finished (tr ! 3) then 1 else 0)"
    using counts_closed [of tr] e(1,3) c by (auto split: if_splits)
  have "\<exists>j \<in> set (mio_pending st). \<not> is_unload j" if "length tr < 8"
  proof (rule ccontr)
    assume "\<not> ?thesis"
    then have "stream_jobs st p = []" for p by (auto simp: stream_jobs_def filter_empty_conv)
    then have "Written p \<in> set tr \<and> Finished p \<in> set tr" if "p \<in> set (streams n)" for p
      using inv that by (auto simp: mio_inv_def stream_ok_def)
    then have "Written ` set (streams n) \<union> Finished ` set (streams n) \<subseteq> set tr" by auto
    then have "card (Written ` set (streams n) \<union> Finished ` set (streams n)) \<le> card (set tr)" by (intro card_mono) auto
    moreover have "card (Written ` set (streams n) \<union> Finished ` set (streams n)) = 8" by (auto simp: streams_def card_insert_if)
    ultimately show False using that card_length [of tr] by simp
  qed
  moreover have "complete_mio i v st \<noteq> None" if "i < length (mio_pending st)" "\<not> is_unload (mio_pending st ! i)" "mr_errno v = 0"
      "reads_back st (snd (mio_pending st ! i)) v" for i v
    using step_inv [OF inv that] by auto
  ultimately show ?thesis using k e(1) by blast
qed

definition sample_mio :: mio_state where
  "sample_mio = \<lparr>mios = Map.empty, next_mio = 0, garbage = (\<lambda>_. zero_mio), mio_malloc = [], mio_dma = [], mio_channel = [],
     dma = Map.empty, next_dma = 0, dma_garbage = (\<lambda>_ _. 0), open_chans = [], next_chan = 0, store_io_unit_size = 4096,
     store_cluster_size = 1048576, fini_count = 0, clock = [], ts1 = \<lparr>tv_sec = 0, tv_nsec = 0\<rparr>, ts2 = \<lparr>tv_sec = 0, tv_nsec = 0\<rparr>,
     elapsed = [], mio_pending = [], stops = []\<rparr>"

lemma sample_mio_booted: "mio_booted sample_mio"
  by (simp add: mio_booted_def sample_mio_def)

lemma main_starts:
  assumes "mio_booted st"
  shows "\<exists>st'. mio_run (next_mio st) [] st'"
proof -
  let ?v = "\<lparr>mr_errno = 0, mr_bs = 0, mr_id = 0, mr_blob = 0, mr_data = []\<rparr>"
  obtain st1 where st1: "mio_main 3 True 0 st = (st1, None)" by (simp add: mio_main_def Let_def)
  then show ?thesis using mio_start_inv [OF assms st1, of ?v] mio_run.start [OF assms st1, of ?v] by auto
qed

theorem benchmark_unloads_once_witness:
  "\<exists>st. mio_run 0 [] st \<and> unloads st = 0 \<and> (\<exists>j \<in> set (mio_pending st). \<not> is_unload j)"
proof -
  obtain st where "mio_run 0 [] st" using main_starts [OF sample_mio_booted] by (auto simp: sample_mio_def)
  with benchmark_unloads_once [OF this] show ?thesis by auto
qed

text \<open>C38: From every start the benchmark can unload the blobstore while two streams have not
  completed their writes: if the first two streams finish before the others write, the counter,
  which both the writes and the ends count up, reaches four with the end of the second.  No time
  is printed, and the other streams go on using the blobstore.\<close>

theorem fast_streams_unload_early:
  assumes "mio_booted st"
  shows "\<exists>st'. mio_run (next_mio st) [Written (next_mio st + 1), Finished (next_mio st + 1), Written (next_mio st + 2), Finished (next_mio st + 2)] st' \<and>
    unloads st' = 1 \<and> elapsed st' = [] \<and>
    (\<forall>p \<in> {next_mio st + 3, next_mio st + 4}. \<exists>j. stream_jobs st' p = [j] \<and> \<not> past_write (snd j))"
proof -
  let ?n = "next_mio st"
  obtain st0 where st0: "mio_run ?n [] st0" using main_starts [OF assms] by blast
  have first: "\<exists>j. stream_jobs st0 p = [j] \<and> \<not> past_write (snd j)" if "p \<in> set (streams ?n)" for p
  proof -
    have "stream_ok [] st0 p" using mio_run_inv [OF st0] that by (simp add: mio_inv_def)
    then show ?thesis
      by (cases "stream_jobs st0 p"; cases "tl (stream_jobs st0 p)") (auto simp: stream_ok_def)
  qed
  have mem: "?n + 1 \<in> set (streams ?n)" "?n + 2 \<in> set (streams ?n)" "?n + 3 \<in> set (streams ?n)" "?n + 4 \<in> set (streams ?n)"
    by (simp_all add: streams_def)
  obtain j1 where j1: "stream_jobs st0 (?n + 1) = [j1]" "\<not> past_write (snd j1)" using first [OF mem(1)] by (elim exE conjE)
  obtain j2 where j2: "stream_jobs st0 (?n + 2) = [j2]" "\<not> past_write (snd j2)" using first [OF mem(2)] by (elim exE conjE)
  from stream_completes [OF st0 mem(1) j1(1), unfolded if_not_P [OF j1(2)] append_Nil append_Cons]
  obtain st1 where st1: "mio_run ?n [Written (?n + 1), Finished (?n + 1)] st1" "\<forall>q. q \<noteq> ?n + 1 \<longrightarrow> stream_jobs st1 q = stream_jobs st0 q"
    by blast
  have "stream_jobs st1 (?n + 2) = [j2]" using st1(2) j2(1) by simp
  from stream_completes [OF st1(1) mem(2) this, unfolded if_not_P [OF j2(2)] append_Nil append_Cons] obtain st2 where
    st2: "mio_run ?n [Written (?n + 1), Finished (?n + 1), Written (?n + 2), Finished (?n + 2)] st2" "\<forall>q. q \<noteq> ?n + 2 \<longrightarrow> stream_jobs st2 q = stream_jobs st1 q"
    by blast
  note c = mio_run_inv [OF st2(1)]
  have "unloads st2 = 1 \<and> elapsed st2 = []" using c by (simp add: mio_inv_def counts_def)
  moreover have "\<exists>j. stream_jobs st2 p = [j] \<and> \<not> past_write (snd j)" if "p \<in> {?n + 3, ?n + 4}" for p
  proof -
    have "p \<noteq> ?n + 1" "p \<noteq> ?n + 2" "p \<in> set (streams ?n)" using that by (auto simp: streams_def)
    then show ?thesis using first [of p] st1(2) st2(2) by simp
  qed
  ultimately show ?thesis using st2(1) by (intro exI [of _ st2] conjI ballI) simp_all
qed

theorem fast_streams_unload_early_witness:
  "\<exists>st'. mio_run 0 [Written 1, Finished 1, Written 2, Finished 2] st' \<and> unloads st' = 1 \<and> elapsed st' = []"
proof -
  have "next_mio sample_mio = 0" by (simp add: sample_mio_def)
  from fast_streams_unload_early [OF sample_mio_booted, unfolded this add_0] show ?thesis by blast
qed

section \<open>Further defects\<close>

text \<open>After an unload without an error the program ends with the \<open>rc\<close> of the last stream's struct:
  it was allocated by \<open>malloc\<close>, and nothing has set this field.\<close>

theorem exit_code_is_uninitialised:
  assumes "mios st p = Some x" "mio_read_buff x = None" "mio_write_buff x = None"
  shows "\<exists>st'. mio_unload_complete p 0 st = Some st' \<and> stops st' = stops st @ [mio_rc x] \<and> mios st' = (mios st)(p := None)"
  using assms by (simp add: mio_unload_complete_def set_mio_def app_stop_def mio_spdk_free_def)

text \<open>A stream that fails before it has a channel tests the uninitialised \<open>channel\<close> of its struct: if that
  is not NULL, an io channel that was never allocated is freed.\<close>

theorem early_error_frees_garbage:
  assumes "mios st p = Some x" "mio_bs x = Some bs" "mio_chan x = Some c" "c \<notin> set (open_chans st)" "e \<noteq> 0"
  shows "mio_blob_create_complete p i e st = None"
  using assms by (simp add: mio_blob_create_complete_def mio_unload_bs_def set_mio_def free_channel_def)

end
