(* ===== verification/Disk_Tools.thy ===== *)
theory Disk_Tools
  imports Blob_IO Multi_IO
begin

text \<open>
  Two small programs of NBFS2 that use its headers for blobs: \<open>apps/dschk/disk_check.c\<close>, which
  says whether a device has a super blob, and \<open>test_multi_io_alpha.c\<close>, which writes blobs with
  \<open>write_normal_blob\<close> and measures the time.
\<close>

section \<open>disk_check\<close>

text \<open>\<open>spdk_bs_get_super\<close> (\<open>lib/blob/blobstore.c\<close>) calls its callback before it returns; the argument
  is \<open>bs->super_blob\<close>, all ones when none is set.\<close>

definition get_super_reply :: "u64 \<Rightarrow> bs_reply" where
  "get_super_reply super = (if super = - 1 then R_id (- 1) (- ENOENT) else R_id super 0)"

definition complete_last :: "bs_reply \<Rightarrow> 'c blob_io \<Rightarrow> 'c blob_io option" where
  "complete_last r st = complete_call (length (pending st) - 1) r st"

datatype dc_cb = Dc_bs_build_complete | Dc_unload_complete

text \<open>\<open>dc_printed\<close> has the values of \<open>flag\<close> a message was printed for, \<open>dc_stops\<close> the arguments of
  \<open>spdk_app_stop\<close>.  The local \<open>flag\<close> has the address 0.\<close>

record disk_check =
  dc_io :: "dc_cb blob_io"
  dc_super :: u64
  dc_mth :: int
  dc_printed :: "int list"
  dc_stops :: "int list"

definition dc_stop :: "int \<Rightarrow> disk_check \<Rightarrow> disk_check" where
  "dc_stop e st = st\<lparr>dc_stops := dc_stops st @ [e]\<rparr>"

definition dc_unload_complete :: "int \<Rightarrow> disk_check \<Rightarrow> disk_check" where
  "dc_unload_complete bserrno st = (if bserrno \<noteq> 0 then dc_stop (- 1) st else dc_stop 0 st)"

definition dc_bs_build_complete :: "int \<Rightarrow> disk_check \<Rightarrow> disk_check option" where
  "dc_bs_build_complete bserrno st =
     (if bserrno \<noteq> 0 then Some (dc_stop (- 1) st)
      else do {
        let io = (dc_io st)\<lparr>flags := (flags (dc_io st))(0 := 0)\<rparr>;
        io \<leftarrow> complete_last (get_super_reply (dc_super st)) (check_super_blob 0 io);
        Some (st\<lparr>dc_io := post C_bs_unload (Io_client Dc_unload_complete) io, dc_printed := dc_printed st @ [flags io 0]\<rparr>) })"

text \<open>\<open>ret\<close> is the result of \<open>spdk_bdev_create_bs_dev_ext\<close>.\<close>

definition dc_test_start :: "int \<Rightarrow> disk_check \<Rightarrow> disk_check" where
  "dc_test_start ret st =
     (if ret \<noteq> 0 then dc_stop (- 1) st
      else st\<lparr>dc_io := post (if dc_mth st = 0 then C_bs_init else C_bs_load) (Io_client Dc_bs_build_complete) (dc_io st)\<rparr>)"

text \<open>\<open>main\<close>: its result when it does not start the application, whose first function is \<open>test_start\<close>.\<close>

definition dc_main :: "nat \<Rightarrow> string \<Rightarrow> int \<Rightarrow> disk_check \<Rightarrow> disk_check \<times> int option" where
  "dc_main argc how ret st =
     (if argc \<noteq> 4 then (st, Some 0) else (dc_test_start ret (st\<lparr>dc_mth := strcmp how ''init''\<rparr>), None))"

text \<open>The blobstore completes a call of the program itself.\<close>

definition dc_complete :: "nat \<Rightarrow> int \<Rightarrow> disk_check \<Rightarrow> disk_check option" where
  "dc_complete i e st = do {
     (c, cb) \<leftarrow> arr_get (pending (dc_io st)) i;
     let st = st\<lparr>dc_io := (dc_io st)\<lparr>pending := drop_nth i (pending (dc_io st))\<rparr>\<rparr>;
     case cb of
       Io_client Dc_bs_build_complete \<Rightarrow> dc_bs_build_complete e st
     | Io_client Dc_unload_complete \<Rightarrow> Some (dc_unload_complete e st)
     | _ \<Rightarrow> None }"

text \<open>\<open>disk_check\<close> asks for an initialisation exactly when its argument is \<open>init\<close> and for a load
  otherwise; when that succeeds it reports a super blob exactly when the blobstore has one, and then
  ends once, with 0 exactly when the unload succeeds.  When it fails it ends with -1 and reports
  nothing.\<close>

theorem disk_check_reports:
  assumes "pending (dc_io st) = []" "dc_printed st = []" "dc_stops st = []"
  shows "\<exists>st1. dc_main 4 how 0 st = (st1, None) \<and>
    pending (dc_io st1) = [(if how = ''init'' then C_bs_init else C_bs_load, Io_client Dc_bs_build_complete)] \<and>
    (\<exists>st2. dc_complete 0 0 st1 = Some st2 \<and> dc_printed st2 = [if dc_super st = - 1 then 0 else 1] \<and>
       pending (dc_io st2) = [(C_bs_unload, Io_client Dc_unload_complete)] \<and> dc_stops st2 = [] \<and>
       (\<forall>e. \<exists>st3. dc_complete 0 e st2 = Some st3 \<and> dc_stops st3 = [if e = 0 then 0 else - 1] \<and> pending (dc_io st3) = [])) \<and>
    (\<forall>e. e \<noteq> 0 \<longrightarrow> (\<exists>st2. dc_complete 0 e st1 = Some st2 \<and> dc_stops st2 = [- 1] \<and> dc_printed st2 = [] \<and> pending (dc_io st2) = []))"
  using assms
  by (auto simp: dc_main_def dc_test_start_def dc_complete_def arr_get_def drop_nth_def dc_bs_build_complete_def dc_unload_complete_def dc_stop_def
      check_super_blob_def complete_last_def complete_call_def post_def get_super_reply_def run_id_cb_def chsb_super_blobid_got_def Let_def)

definition sample_disk :: disk_check where
  "sample_disk = \<lparr>dc_io = \<lparr>args_heap = Map.empty, csb_heap = Map.empty, next_args = 0, garbage_blob = 0, garbage_blobid = 0, garbage_payload = None,
     malloc_fail = [], channel_fail = [], open_channels = [], next_channel = 0, num_clusters = (\<lambda>_. 0), num_io_units = (\<lambda>_. 0),
     free_cluster_count = 0, bs_cluster_size = 0, bs_io_unit_size = 0, flags = (\<lambda>_. 5), pending = [], calls = []\<rparr>,
     dc_super = 7, dc_mth = 0, dc_printed = [], dc_stops = []\<rparr>"

theorem disk_check_reports_witness:
  "\<exists>st1 st2. dc_main 4 ''load'' 0 sample_disk = (st1, None) \<and> dc_complete 0 0 st1 = Some st2 \<and> dc_printed st2 = [1]"
  using disk_check_reports [of sample_disk "''load''"] by (auto simp: sample_disk_def)

section \<open>test_multi_io_alpha\<close>

definition TEST_BUFFER_SIZE :: nat where "TEST_BUFFER_SIZE = 0x1000"
definition TEST_OFFSET :: u64 where "TEST_OFFSET = 0"
definition TEST_BLOB_NUM :: nat where "TEST_BLOB_NUM = 1"

record test_write_args =
  ta_blobid :: u64
  ta_write_buff :: "buffer option"
  ta_io_unit_size :: u64
  ta_alloc_pages :: u64

datatype al_cb = Al_bs_init_complete | Al_blob_created nat | Al_write_complete

text \<open>\<open>al_args\<close> is the array \<open>t_args\<close> of \<open>main\<close>.\<close>

record alpha =
  al_io :: "al_cb blob_io"
  al_args :: "test_write_args list"
  al_unit_size :: u64
  finish_count :: nat
  al_clock :: "timespec list"
  al_ts1 :: timespec
  al_ts2 :: timespec
  al_elapsed :: "(int \<times> int) list"
  al_dma :: "bool list"
  al_buffers :: "buffer \<rightharpoonup> u8 list"
  al_next_buffer :: buffer
  al_stops :: "int list"

definition al_stop :: "int \<Rightarrow> alpha \<Rightarrow> alpha" where
  "al_stop e st = st\<lparr>al_stops := al_stops st @ [e]\<rparr>"

definition al_gettime :: "alpha \<Rightarrow> timespec \<times> alpha" where
  "al_gettime st = (case al_clock st of [] \<Rightarrow> (\<lparr>tv_sec = 0, tv_nsec = 0\<rparr>, st) | t # ts \<Rightarrow> (t, st\<lparr>al_clock := ts\<rparr>))"

text \<open>The result of the write is not looked at.\<close>

definition al_write_complete :: "int \<Rightarrow> alpha \<Rightarrow> alpha" where
  "al_write_complete bserrno st =
     (let st = st\<lparr>finish_count := finish_count st + 1\<rparr>
      in if finish_count st = TEST_BLOB_NUM
         then let (t, st) = al_gettime st; t2 = borrow (al_ts1 st) t
              in al_stop 0 (st\<lparr>al_ts2 := t2, al_elapsed := al_elapsed st @ [(tv_sec t2 - tv_sec (al_ts1 st), tv_nsec t2 - tv_nsec (al_ts1 st))]\<rparr>)
         else st)"

definition pages_for :: "u64 \<Rightarrow> u64" where
  "pages_for u = of_nat TEST_BUFFER_SIZE div u + (if of_nat TEST_BUFFER_SIZE mod u \<noteq> 0 then 1 else 0)"

text \<open>\<open>memset\<close> fills the whole buffer.\<close>

definition al_blob_created :: "nat \<Rightarrow> u64 \<Rightarrow> int \<Rightarrow> alpha \<Rightarrow> alpha option" where
  "al_blob_created i bid bserrno st =
     (if bserrno \<noteq> 0 then Some (al_stop (- 1) st)
      else do {
        x \<leftarrow> arr_get (al_args st) i;
        let b = (case al_dma st of False # _ \<Rightarrow> None | _ \<Rightarrow> Some (al_next_buffer st));
        let st = st\<lparr>al_dma := tl (al_dma st)\<rparr>;
        oassert (ta_io_unit_size x \<noteq> 0);
        let x = x\<lparr>ta_blobid := bid, ta_write_buff := b, ta_alloc_pages := pages_for (ta_io_unit_size x)\<rparr>;
        let st = st\<lparr>al_args := (al_args st)[i := x]\<rparr>;
        case b of
          None \<Rightarrow> Some (al_stop (- 1) st)
        | Some buf \<Rightarrow>
            Some (st\<lparr>al_buffers := (al_buffers st)(buf \<mapsto> replicate TEST_BUFFER_SIZE 0x65), al_next_buffer := buf + 1,
              al_io := write_normal_blob bid (Some buf) TEST_OFFSET (ta_alloc_pages x) Al_write_complete (al_io st)\<rparr>) })"

definition al_test_write :: "alpha \<Rightarrow> alpha" where
  "al_test_write st =
     (let st = st\<lparr>al_args := map (\<lambda>x. x\<lparr>ta_io_unit_size := al_unit_size st\<rparr>) (take TEST_BLOB_NUM (al_args st)) @ drop TEST_BLOB_NUM (al_args st)\<rparr>;
          (t, st) = al_gettime st;
          st = st\<lparr>al_ts1 := t\<rparr>
      in st\<lparr>al_io := fold (\<lambda>i. post C_create_blob (Io_client (Al_blob_created i))) [0..<TEST_BLOB_NUM] (al_io st)\<rparr>)"

definition al_bs_init_complete :: "int \<Rightarrow> alpha \<Rightarrow> alpha" where
  "al_bs_init_complete bserrno st =
     (if bserrno \<noteq> 0 then al_stop (- 1) st else al_test_write (st\<lparr>al_unit_size := bs_io_unit_size (al_io st)\<rparr>))"

definition al_test_start :: "int \<Rightarrow> alpha \<Rightarrow> alpha" where
  "al_test_start ret st = (if ret \<noteq> 0 then al_stop (- 1) st else st\<lparr>al_io := post C_bs_init (Io_client Al_bs_init_complete) (al_io st)\<rparr>)"

definition al_main :: "nat \<Rightarrow> int \<Rightarrow> alpha \<Rightarrow> alpha \<times> int option" where
  "al_main argc ret st = (if argc \<noteq> 3 then (st, Some 0) else (al_test_start ret st, None))"

text \<open>The number of io units is the least that holds the buffer.\<close>

theorem pages_least:
  assumes "0 < unat u"
  shows "TEST_BUFFER_SIZE \<le> unat (pages_for u) * unat u \<and> (\<forall>k. TEST_BUFFER_SIZE \<le> k * unat u \<longrightarrow> unat (pages_for u) \<le> k)"
proof -
  let ?u = "unat u" and ?q = "4096 div unat u"
  have s: "unat (4096 :: u64) = 4096" by simp
  have q: "unat (4096 div u) = ?q" using s by (simp add: unat_div)
  have "?q \<le> 4096" by (rule div_le_dividend)
  then have "unat (4096 div u) + unat (1 :: u64) < 2 ^ LENGTH(64)" unfolding q by (simp del: div_le_dividend)
  from iffD1 [OF unat_add_lem this] have q1: "unat (4096 div u + 1) = ?q + 1" unfolding q by simp
  have m: "4096 mod u = 0 \<longleftrightarrow> 4096 mod ?u = 0" unfolding unat_eq_zero [symmetric] unat_mod s by simp
  have p: "unat (pages_for u) = (if 4096 mod ?u = 0 then ?q else ?q + 1)"
    using q q1 m by (simp add: pages_for_def TEST_BUFFER_SIZE_def)
  have a: "4096 = ?q * ?u + 4096 mod ?u" by (rule div_mult_mod_eq [symmetric])
  have "4096 \<le> unat (pages_for u) * ?u"
  proof (cases "4096 mod ?u = 0")
    case True
    then show ?thesis using a p by simp
  next
    case False
    have "4096 \<le> ?q * ?u + ?u" using a mod_less_divisor [OF assms, of 4096] by linarith
    then show ?thesis using p False by simp
  qed
  moreover have "unat (pages_for u) \<le> k" if "4096 \<le> k * ?u" for k
  proof -
    have "?q \<le> k * ?u div ?u" using that by (rule div_le_mono)
    then have k: "?q \<le> k" using assms by simp
    have "?q \<noteq> k" if "4096 mod ?u \<noteq> 0" using that \<open>4096 \<le> k * ?u\<close> a by (metis add_le_same_cancel1 le_zero_eq)
    then show ?thesis using p k by (cases "4096 mod ?u = 0") auto
  qed
  ultimately show ?thesis by (simp add: TEST_BUFFER_SIZE_def)
qed

text \<open>The buffer filled for the write never reaches it: the struct \<open>write_normal_blob\<close> sets up points
  wherever the fresh memory points.\<close>

theorem alpha_writes_garbage:
  assumes "al_args st = [x]" "ta_io_unit_size x \<noteq> 0" "al_dma st = []" "malloc_fail (al_io st) = []"
  shows "\<exists>st' a y. al_blob_created 0 bid 0 st = Some st' \<and> pending (al_io st') = pending (al_io st) @ [(C_open_blob bid, Wnb_open_complete a)] \<and>
    args_heap (al_io st') a = Some y \<and> payload y = garbage_payload (al_io st) \<and> al_buffers st' (al_next_buffer st) = Some (replicate TEST_BUFFER_SIZE 0x65)"
  using assms
  by (simp add: al_blob_created_def arr_get_def write_normal_blob_def malloc_fails_def new_args_def alloc_args_def set_args_def post_def Let_def)

end
