(* ===== verification/Spec2Isabelle.thy ===== *)
theory Spec2Isabelle
  imports Cache_Tree Name_Index NBFS_Safety NBFS_Flush Blob_IO_Safety NBFS2_Ops
    Blobfs_Fuse Blobfs_Rpc Blobfs_Tools Multi_IO_Safety Disk_Tools
begin

text \<open>
  A verification of the two file systems of this repository: NBFS, a file system layer over
  the SPDK blobstore with a write cache and a B+ tree of file names
  (\<open>src/src/spdk_NBFS/lib/NBFS/NBFS.c\<close>, \<open>tree.c\<close>, \<open>tree.h\<close>, \<open>include/spdk/Bplus_Tree.h\<close>), with the module that
  mounts it (\<open>module/blobfs/bdev\<close>), and NBFS2, a small file system that keeps its directory in a hash
  table and stores it in the super blob, with its programs (\<open>src/src/NBFS2\<close>).

  \<^bold>\<open>Modelling.\<close>  All of it is C.  A function is a state transformer that returns an
  option: \<open>None\<close> is a crash (a pointer that is NULL, dangling or uninitialised is followed, an
  index or a copy leaves its buffer, an assertion fails, a spinlock is taken twice or released twice, a
  request is freed twice, a NULL callback is called), \<open>Some\<close> a normal return; the error numbers of the code are values.  Structs are records,
  unions and callbacks datatypes, 32- and 64-bit integers words that wrap around, C strings \<open>string\<close>s.
  Objects that are linked by pointers live in maps from addresses, from which \<open>free\<close> removes
  them.  The blobstore, the SPDK threads and the users are the environment: a call of the
  blobstore is added to a list of pending calls with its completion callback, and a step of the environment
  completes one of them, in any order, with a result it chooses.  What the environment decides
  (failing allocations, the answers of the blobstore's accessors, the contents of fresh memory) is a field of the state,
  so that the theorems hold for every choice unless they say otherwise.  \<open>NBFS_Prelude\<close> has
  the shared vocabulary.

  \<^bold>\<open>NBFS: the page cache index.\<close>  \<open>Cache_Tree\<close> models \<open>tree.c\<close>: a radix tree
  of 256 KiB pages with 64 slots per node and a presence mask.  The locale \<open>page_index\<close> is its
  contract, interpreted on the operations of the file: insertion below \<open>2 ^ 60\<close>, removal and reclaim
  change what a lookup finds for exactly the pages they name, and reclaim frees only flushed idle buffers.

  \<^bold>\<open>NBFS: the name index.\<close>  \<open>Bplus_Tree\<close> models \<open>Bplus_Tree.h\<close> over a heap of
  nodes: lookup, insertion with splits, removal with merging and redistribution, deletion of the
  tree, walks along the leaves.  \<open>Bplus_Repr\<close> relates the heap to finite trees and one-hole contexts,
  \<open>Bplus_Find\<close>, \<open>Bplus_Insert\<close> and \<open>Bplus_Remove\<close> verify the operations, and \<open>Name_Index\<close> states the contract \<open>name_index\<close>
  and shows that every sequence of operations refines a finite map, that the walks visit the
  names in order and that deleting the tree terminates.  Loops whose end depends on the heap have
  fuel or are partial functions; the theorems state that they return.

  \<^bold>\<open>NBFS: the layer.\<close>  \<open>NBFS_State\<close> has the state: files, requests, channels, cache
  buffers, pending calls, message queues.  \<open>NBFS_Pool\<close> is the cache pool with its reclaim poller,
  \<open>NBFS_Names\<close> mounting and the operations on names, \<open>NBFS_IO\<close> truncation and uncached block I/O, \<open>NBFS_Sync\<close>
  flush, sync and close, \<open>NBFS_RW\<close> the cached reads and writes of a user's thread, cut where the thread
  waits.  Each handler and each callback of \<open>NBFS.c\<close> is one definition.  \<open>NBFS_System\<close> puts them together as a step
  relation with users, the metadata thread, the pool thread and the blobstore.

  Invariants of all reachable states are proved once per handler in the locales \<open>nbfs_invariant\<close>
  (\<open>NBFS_Invariant\<close>) and \<open>heap_invariant\<close> (\<open>NBFS_Safety\<close>) and interpreted three times: no lock is left behind,
  the free list and the counter of a channel account for its requests, allocators hand out fresh addresses.  \<open>NBFS_Directory\<close> follows the name
  operations through their callbacks on every branch.  \<open>NBFS_Block\<close>, \<open>NBFS_Cached\<close>, \<open>NBFS_Read\<close> and \<open>NBFS_Flush\<close> say what
  happens to the bytes: block ranges, read-modify-write, appends, cached reads, round trips, a
  sync from its request to its answer.  \<open>NBFS_Sample\<close> has concrete states.

  \<^bold>\<open>NBFS: mounting it.\<close>  \<open>Blobfs_Fuse\<close> models the FUSE operations of \<open>blobfs_fuse.c\<close> over the
  synchronous functions of the layer, cut where the FUSE thread waits: a listing gives every name
  once and in order, \<open>mknod\<close> is followed from the FUSE thread through the metadata thread and the
  blobstore to its return.  \<open>Blobfs_Bdev\<close> models \<open>blobfs_bdev.c\<close> (detecting, creating and mounting a
  file system on a device) with the start and end of the FUSE loop; here the layer is the
  environment.  \<open>Blobfs_Bdev_Safety\<close> shows for every interleaving of the layer, the messages and
  the loops that each operation answers its user exactly once, finds its structs with the fields it reads, and
  ends after at most six steps.  \<open>Blobfs_Rpc\<close> models the JSON-RPC methods of \<open>blobfs_bdev_rpc.c\<close> with
  the decoding of their parameters, and lifts the result: each request gets one response.  The
  contract of both is the locale \<open>callback_service\<close>, interpreted for the module and for the methods.
  \<open>Blobfs_Tools\<close> models the tools \<open>mkfs.c\<close> and \<open>fuse.c\<close> (\<open>test/blobfs\<close>) as clients of the module: each ends once.

  \<^bold>\<open>NBFS2.\<close>  \<open>Hash_Table\<close> models \<open>hash_table.h\<close> over a heap of items and
  list nodes.  \<open>Hash_Buckets\<close> relates the heap to one list of items per index and gives the effect of
  each operation on it; \<open>Hash_Map\<close> states the contract \<open>name_table\<close> and interprets it for new names, with one
  name per index whatever fresh memory holds, and with up to three where the \<open>next\<close> of fresh list nodes happens to be
  NULL: the only uses in which the table keeps it.  \<open>Blob_Id\<close> models \<open>id_and_char.h\<close> and shows that ids
  survive being printed.  \<open>Blob_IO\<close> models the six headers for blob input and output, with the client's callback as a type
  parameter; \<open>Blob_IO_Safety\<close> shows for every interleaving that each operation answers its client
  exactly once, frees its struct, needs at most six completions and asks for the least number of
  clusters.  \<open>NBFS2\<close> models \<open>NBFS2.c\<close> on top of these; \<open>NBFS2_Store\<close> shows that the directory written for the super blob is
  rebuilt from the same bytes, \<open>NBFS2_Ops\<close> follows creating, opening, deleting, starting and loading.
  \<open>Multi_IO\<close> models the benchmark \<open>test_multi_IO.c\<close>; \<open>Multi_IO_Safety\<close> shows what every order of
  completions of its four streams leads to.  \<open>Disk_Tools\<close> models \<open>disk_check.c\<close>
  and \<open>test_multi_io_alpha.c\<close>.

  \<^bold>\<open>Defects.\<close>  Where the code does not do what it means to, a theorem states what it
  does.  In NBFS: an insertion into an empty index may be lost, a failed open wedges its file, a rename over an open file or
  to the same name loses a file, a read drops pages that were never written, a failed load frees its request
  twice, a write that had to grow the blob unlocks the file twice.  In NBFS2: the fourth name of an index
  replaces the third, deleting the third leaves a dangling pointer, a deleted file stays in the directory and breaks
  unloading, starting calls a NULL callback, loading takes addresses for sizes, the functions for normal
  blobs lose an argument.  In the module: \<open>open\<close> and \<open>truncate\<close> negate an error twice, a failed truncation
  keeps the file open, failures of FUSE and of pthreads leak a handle or leave a dangling pointer, failed RPC methods
  leak their struct, a cluster size of 4 GiB is cut to 32 bits, \<open>mkfs\<close> exits with 0 after a failure.  In the benchmark: one counter
  serves two purposes, so that the blobstore may be unloaded while streams use it.

  \<^bold>\<open>Not modelled.\<close>  The vendored SPDK and DPDK libraries, which are the environment
  described above; real concurrency within a handler (a step runs one handler to its end, as SPDK
  runs callbacks on one thread; a user's thread is interleaved where it waits); log and trace output, with
  \<open>print_search\<close> and \<open>print_table\<close>; the reuse of freed addresses, which matters only behind a dangling
  pointer; the handles of devices and of the one blobstore; failing \<open>strdup\<close>s; in the module, the race between the end of
  \<open>blobfs_fuse_start\<close> and the thread it has created, and strings that are freed while an operation borrows them
  (\<open>Blobfs_Bdev\<close>);
  JSON texts and the remaining decoders of the SPDK; what FUSE does with the operations' results; the SPDK's own
  applications, tests and scripts; the \<open>main\<close> of \<open>mkfs.c\<close> and \<open>fuse.c\<close>.
\<close>

end
